(* ===== verification/Prelude.thy ===== *)
theory Prelude
  imports Complex_Main "HOL-Library.List_Lexorder" "HOL-Library.Char_ord"
begin

text \<open>
  The prelude of the development: what the TypeScript sources use of JavaScript's
  standard library (strings, numbers, array searches), the result types of fallible
  operations, and the generic lemmas on lists and options that every component theory
  relies on.

  A JavaScript string is a list of code units. The model uses \<^typ>\<open>string\<close>, so it covers
  the code units below 256, which are the ones an HTTP header can carry. String
  comparison with \<^verbatim>\<open><\<close> is lexicographic by code unit, which is the order of
  \<^verbatim>\<open>List_Lexorder\<close> over \<^verbatim>\<open>Char_ord\<close>.
\<close>

section \<open>Collections of rules\<close>

named_theorems js_str \<open>rewrite rules for the string operations\<close>

named_theorems upd_simps \<open>rewrite rules for in-place updates of the first match in a list\<close>

named_theorems inv_intros \<open>preservation rules for component invariants\<close>

section \<open>Results and exceptions\<close>

text \<open>
  A thrown exception is a value: \<^verbatim>\<open>IoFault\<close> stands for a failed read or an
  unparsable JSON file (anything but \<^verbatim>\<open>ENOENT\<close>), \<^verbatim>\<open>Thrown msg\<close> for
  \<^verbatim>\<open>throw new Error(msg)\<close>.
\<close>

datatype exn = IoFault | Thrown string

type_synonym 'a res = "exn + 'a"

section \<open>JavaScript numbers\<close>

text \<open>
  A number the code receives from outside (a request body, a JSON file) is a double: not a
  number, an infinity, or a finite value, which is always a rational. The operations the
  code applies to such a value (\<^verbatim>\<open>Number.isFinite\<close>, \<^verbatim>\<open>Math.floor\<close>, \<^verbatim>\<open>Math.trunc\<close>,
  comparisons) are exact on rationals.
\<close>

datatype jsnum = NaN | PosInf | NegInf | Fin rat

fun isFinite :: "jsnum \<Rightarrow> bool" where
  "isFinite (Fin q) = True"
| "isFinite x = False"

fun num_floor :: "jsnum \<Rightarrow> int" where
  "num_floor (Fin q) = \<lfloor>q\<rfloor>"
| "num_floor x = 0"

fun isInteger :: "jsnum \<Rightarrow> bool" where
  "isInteger (Fin q) = (of_int \<lfloor>q\<rfloor> = q)"
| "isInteger x = False"

fun num_lt :: "jsnum \<Rightarrow> jsnum \<Rightarrow> bool" where
  "num_lt (Fin a) (Fin b) = (a < b)"
| "num_lt NegInf (Fin b) = True"
| "num_lt NegInf PosInf = True"
| "num_lt (Fin a) PosInf = True"
| "num_lt x y = False"

abbreviation jsint :: "int \<Rightarrow> jsnum" where
  "jsint n \<equiv> Fin (of_int n)"

lemma isInteger_jsint [simp]: "isInteger (jsint n)"
  by simp

lemma num_floor_jsint [simp]: "num_floor (jsint n) = n"
  by simp

lemma num_lt_jsint [simp]: "num_lt (jsint a) (jsint b) \<longleftrightarrow> a < b"
  by simp

lemma isInteger_floor: "isInteger x \<Longrightarrow> x = jsint (num_floor x)"
  by (cases x) auto

lemma isInteger_isFinite: "isInteger x \<Longrightarrow> isFinite x"
  by (cases x) auto

section \<open>JavaScript strings\<close>

definition js_ws :: "char \<Rightarrow> bool" where
  "js_ws c \<longleftrightarrow> (of_char c :: nat) \<in> {9, 10, 11, 12, 13, 32, 160}"

definition trim :: "string \<Rightarrow> string" where
  "trim s = rev (dropWhile js_ws (rev (dropWhile js_ws s)))"

definition startsWith :: "string \<Rightarrow> string \<Rightarrow> bool" where
  "startsWith s p \<longleftrightarrow> take (length p) s = p"

definition endsWith :: "string \<Rightarrow> string \<Rightarrow> bool" where
  "endsWith s p \<longleftrightarrow> startsWith (rev s) (rev p)"

fun includesStr :: "string \<Rightarrow> string \<Rightarrow> bool" where
  "includesStr [] p = (p = [])"
| "includesStr (c # s) p = (startsWith (c # s) p \<or> includesStr s p)"

fun indexOf :: "char \<Rightarrow> string \<Rightarrow> nat option" where
  "indexOf c [] = None"
| "indexOf c (x # xs) = (if x = c then Some 0 else map_option Suc (indexOf c xs))"

fun split_on :: "char \<Rightarrow> string \<Rightarrow> string list" where
  "split_on c [] = [[]]"
| "split_on c (x # xs) =
     (if x = c then [] # split_on c xs
      else (case split_on c xs of [] \<Rightarrow> [[x]] | y # ys \<Rightarrow> (x # y) # ys))"

fun join :: "string \<Rightarrow> string list \<Rightarrow> string" where
  "join sep [] = []"
| "join sep [x] = x"
| "join sep (x # y # ys) = x @ sep @ join sep (y # ys)"

definition is_digit :: "char \<Rightarrow> bool" where
  "is_digit c \<longleftrightarrow> 48 \<le> (of_char c :: nat) \<and> of_char c \<le> (57 :: nat)"

definition is_lower :: "char \<Rightarrow> bool" where
  "is_lower c \<longleftrightarrow> 97 \<le> (of_char c :: nat) \<and> of_char c \<le> (122 :: nat)"

definition is_upper :: "char \<Rightarrow> bool" where
  "is_upper c \<longleftrightarrow> 65 \<le> (of_char c :: nat) \<and> of_char c \<le> (90 :: nat)"

text \<open>
  Case mapping on code units below 256: the letters of ASCII and, 32 apart as well, the accented ones. The sharp s has two capitals; the micro sign and the y with
  diaeresis, whose capitals lie above 255, are left alone.
\<close>

definition to_lower_char :: "char \<Rightarrow> char" where
  "to_lower_char c =
     (let n = of_char c :: nat in if 65 \<le> n \<and> n \<le> 90 \<or> 192 \<le> n \<and> n \<le> 222 \<and> n \<noteq> 215 then char_of (n + 32) else c)"

definition to_upper_char :: "char \<Rightarrow> char" where
  "to_upper_char c =
     (let n = of_char c :: nat in if 97 \<le> n \<and> n \<le> 122 \<or> 224 \<le> n \<and> n \<le> 254 \<and> n \<noteq> 247 then char_of (n - 32) else c)"

definition toLowerCase :: "string \<Rightarrow> string" where
  "toLowerCase = map to_lower_char"

definition toUpperCase :: "string \<Rightarrow> string" where
  "toUpperCase s = concat (map (\<lambda>c. if c = CHR 0xDF then ''SS'' else [to_upper_char c]) s)"

text \<open>
  \<^verbatim>\<open>x || null\<close> on a string or a missing value: the empty string is falsy.
\<close>

definition or_null :: "string \<Rightarrow> string option" where
  "or_null s = (if s = [] then None else Some s)"

definition or_empty :: "string option \<Rightarrow> string" where
  "or_empty s = (case s of None \<Rightarrow> [] | Some x \<Rightarrow> x)"

text \<open>A nullable string is truthy when it is present and not empty.\<close>

definition truthy :: "string option \<Rightarrow> bool" where
  "truthy s \<longleftrightarrow> (case s of None \<Rightarrow> False | Some x \<Rightarrow> x \<noteq> [])"

lemma truthy_simps [simp]: "\<not> truthy None" "truthy (Some x) \<longleftrightarrow> x \<noteq> []"
  by (simp_all add: truthy_def)

lemma or_null_Some_iff [simp]: "or_null s = Some t \<longleftrightarrow> s = t \<and> s \<noteq> []"
  by (auto simp: or_null_def)

lemma split_on_nonempty [simp]: "split_on c s \<noteq> []"
  by (induction s) (auto split: list.splits)

lemma split_on_no_sep [js_str]: "c \<notin> set s \<Longrightarrow> split_on c s = [s]"
  by (induction s) auto

lemma split_on_append [js_str]:
  "c \<notin> set s \<Longrightarrow> split_on c (s @ c # t) = s # split_on c t"
  by (induction s) auto

lemma split_on_pieces: "p \<in> set (split_on c s) \<Longrightarrow> c \<notin> set p \<and> set p \<subseteq> set s"
proof (induction s arbitrary: p)
  case Nil
  then show ?case by simp
next
  case (Cons x xs)
  then show ?case
    by (cases "split_on c xs") (fastforce split: if_splits)+
qed

lemma join_Cons: "join sep (x # xs) = (if xs = [] then x else x @ sep @ join sep xs)"
  by (cases xs) auto

lemma join_split: "join [c] (split_on c s) = s"
proof (induction s)
  case Nil
  then show ?case by simp
next
  case (Cons x xs)
  then show ?case
    by (cases "split_on c xs") (auto simp: join_Cons split: if_splits)
qed

lemma split_join:
  "\<lbrakk>ps \<noteq> []; \<forall>p\<in>set ps. c \<notin> set p\<rbrakk> \<Longrightarrow> split_on c (join [c] ps) = ps"
  by (induction "[c]" ps rule: join.induct) (auto simp: js_str)

lemma startsWith_append [js_str]: "startsWith (p @ t) p"
  by (simp add: startsWith_def)

lemma startsWith_iff: "startsWith s p \<longleftrightarrow> (\<exists>t. s = p @ t)"
  by (auto simp: startsWith_def) (metis append_take_drop_id)

lemma endsWith_iff: "endsWith s p \<longleftrightarrow> (\<exists>t. s = t @ p)"
proof
  assume "endsWith s p"
  then obtain t where "rev s = rev p @ t"
    by (auto simp: endsWith_def startsWith_iff)
  then have "s = rev t @ p"
    by (metis rev_append rev_rev_ident)
  then show "\<exists>t. s = t @ p" ..
next
  assume "\<exists>t. s = t @ p"
  then show "endsWith s p"
    by (auto simp: endsWith_def startsWith_iff)
qed

lemma dropWhile_hd: "dropWhile P xs \<noteq> [] \<Longrightarrow> \<not> P (hd (dropWhile P xs))"
  by (rule hd_dropWhile)

lemma trim_set: "set (trim s) \<subseteq> set s"
  by (auto simp: trim_def dest!: set_dropWhileD)

lemma trim_length: "length (trim s) \<le> length s"
  by (simp add: trim_def)
     (metis length_dropWhile_le length_rev order_trans)

lemma trim_id:
  "\<lbrakk>s = [] \<or> (\<not> js_ws (hd s) \<and> \<not> js_ws (last s))\<rbrakk> \<Longrightarrow> trim s = s"
proof -
  assume h: "s = [] \<or> (\<not> js_ws (hd s) \<and> \<not> js_ws (last s))"
  then have "dropWhile js_ws s = s" and "dropWhile js_ws (rev s) = rev s"
    by (auto simp: dropWhile_eq_self_iff hd_rev)
  then show ?thesis by (simp add: trim_def)
qed

lemma trim_ends: "trim s \<noteq> [] \<Longrightarrow> \<not> js_ws (hd (trim s)) \<and> \<not> js_ws (last (trim s))"
proof -
  assume ne: "trim s \<noteq> []"
  define a where "a = dropWhile js_ws s"
  define b where "b = dropWhile js_ws (rev a)"
  have t: "trim s = rev b" by (simp add: trim_def a_def b_def)
  with ne have "b \<noteq> []" by simp
  then have last: "\<not> js_ws (hd b)" unfolding b_def by (rule hd_dropWhile)
  obtain w where w: "rev a = w @ b"
    unfolding b_def by (metis takeWhile_dropWhile_id)
  then have ra: "a = rev b @ rev w" by (metis rev_append rev_rev_ident)
  with \<open>b \<noteq> []\<close> have "hd (rev b) = hd a" and "a \<noteq> []" by auto
  moreover from \<open>a \<noteq> []\<close> have "\<not> js_ws (hd a)" unfolding a_def by (rule hd_dropWhile)
  ultimately show ?thesis using last t \<open>b \<noteq> []\<close> by (simp add: last_rev)
qed

lemma trim_idem [simp]: "trim (trim s) = trim s"
  by (rule trim_id) (use trim_ends in blast)

section \<open>Searching and updating arrays\<close>

text \<open>
  \<^verbatim>\<open>xs.find(p)\<close> is \<^const>\<open>find\<close>. The code then mutates the object it found in place:
  \<^verbatim>\<open>upd_first\<close> is the array after that mutation.
\<close>

fun upd_first :: "('a \<Rightarrow> bool) \<Rightarrow> ('a \<Rightarrow> 'a) \<Rightarrow> 'a list \<Rightarrow> 'a list" where
  "upd_first P f [] = []"
| "upd_first P f (x # xs) = (if P x then f x # xs else x # upd_first P f xs)"

lemma find_SomeD: "find P xs = Some x \<Longrightarrow> x \<in> set xs \<and> P x"
  by (auto simp: find_Some_iff)

lemma find_snoc: "find P xs = None \<Longrightarrow> find P (xs @ [x]) = (if P x then Some x else None)"
  by (induction xs) (auto split: if_splits)

lemma find_None_all: "find P xs = None \<Longrightarrow> x \<in> set xs \<Longrightarrow> \<not> P x"
  by (auto simp: find_None_iff)

lemma length_upd_first [simp, upd_simps]: "length (upd_first P f xs) = length xs"
  by (induction xs) auto

lemma upd_first_id: "find P xs = None \<Longrightarrow> upd_first P f xs = xs"
  by (induction xs) (auto split: if_splits)

lemma map_upd_first [upd_simps]:
  "(\<And>x. P x \<Longrightarrow> g (f x) = g x) \<Longrightarrow> map g (upd_first P f xs) = map g xs"
  by (induction xs) auto

lemma find_upd_first_same [upd_simps]:
  "find P xs = Some x \<Longrightarrow> P (f x) \<Longrightarrow> find P (upd_first P f xs) = Some (f x)"
  by (induction xs) (auto split: if_splits)

lemma list_all_upd_first:
  "\<lbrakk>list_all Q xs; \<And>x. find P xs = Some x \<Longrightarrow> Q x \<Longrightarrow> Q (f x)\<rbrakk> \<Longrightarrow> list_all Q (upd_first P f xs)"
  by (induction xs) auto

lemma set_upd_first: "y \<in> set (upd_first P f xs) \<Longrightarrow> y \<in> set xs \<or> (\<exists>x. find P xs = Some x \<and> y = f x)"
  by (induction xs) (auto split: if_splits)

lemma upd_first_mem: "find P xs = Some x \<Longrightarrow> f x \<in> set (upd_first P f xs)"
  by (induction xs) (auto split: if_splits)

lemma list_all2_upd_first:
  "\<lbrakk>\<And>x. R x x; \<And>x. find P xs = Some x \<Longrightarrow> R x (f x)\<rbrakk> \<Longrightarrow> list_all2 R xs (upd_first P f xs)"
  by (induction xs) (auto simp: list_all2_refl)

lemma upd_first_update:
  assumes "find P xs = Some x"
  obtains i where "i < length xs" "xs ! i = x" "P x" "\<And>f. upd_first P f xs = xs[i := f x]"
  using assms
proof (induction xs arbitrary: thesis)
  case Nil
  then show ?case by simp
next
  case (Cons y ys)
  show ?case
  proof (cases "P y")
    case True
    with Cons.prems show ?thesis by (auto intro: Cons.prems(1)[of 0])
  next
    case False
    with Cons.prems(2) have "find P ys = Some x" by simp
    from Cons.IH[OF _ this] obtain i where "i < length ys" "ys ! i = x" "P x"
      "\<And>f. upd_first P f ys = ys[i := f x]" by blast
    with False show ?thesis by (intro Cons.prems(1)[of "Suc i"]) auto
  qed
qed

lemma find_unique:
  assumes "i < length xs" "P (xs ! i)" "\<And>j. \<lbrakk>j < length xs; j \<noteq> i\<rbrakk> \<Longrightarrow> \<not> P (xs ! j)"
  shows "find P xs = Some (xs ! i)"
proof -
  have "find P xs \<noteq> None" using assms(1,2) by (auto simp: find_None_iff intro: nth_mem)
  then obtain x where x: "find P xs = Some x" by blast
  then obtain j where "j < length xs" "P (xs ! j)" "x = xs ! j" by (auto simp: find_Some_iff)
  with assms(3)[of j] x show ?thesis by (cases "j = i") auto
qed

text \<open>\<^verbatim>\<open>[...xs].sort((a, b) => (a.k < b.k ? 1 : -1))\<close>: newest first. The comparator never
  returns 0, so the order of rows with equal keys is up to the engine; the model puts the
  later row first, and no theorem depends on that choice.\<close>

fun insert_desc :: "('a \<Rightarrow> 'k::linorder) \<Rightarrow> 'a \<Rightarrow> 'a list \<Rightarrow> 'a list" where
  "insert_desc k x [] = [x]"
| "insert_desc k x (y # ys) = (if k x < k y then y # insert_desc k x ys else x # y # ys)"

definition sort_desc :: "('a \<Rightarrow> 'k::linorder) \<Rightarrow> 'a list \<Rightarrow> 'a list" where
  "sort_desc k xs = fold (insert_desc k) xs []"

lemma set_insert_desc [simp]: "set (insert_desc k x ys) = insert x (set ys)"
  by (induction ys) auto

lemma length_insert_desc [simp]: "length (insert_desc k x ys) = Suc (length ys)"
  by (induction ys) auto

lemma sorted_insert_desc:
  "sorted_wrt (\<lambda>a b. k b \<le> k a) ys \<Longrightarrow> sorted_wrt (\<lambda>a b. k b \<le> k a) (insert_desc k x ys)"
  by (induction ys) auto

lemma fold_insert_desc:
  "set (fold (insert_desc k) xs ys) = set xs \<union> set ys
   \<and> length (fold (insert_desc k) xs ys) = length xs + length ys
   \<and> (sorted_wrt (\<lambda>a b. k b \<le> k a) ys \<longrightarrow> sorted_wrt (\<lambda>a b. k b \<le> k a) (fold (insert_desc k) xs ys))"
  by (induction xs arbitrary: ys) (auto simp: sorted_insert_desc)

lemma sort_desc_props [simp]:
  "set (sort_desc k xs) = set xs" "length (sort_desc k xs) = length xs"
  "sorted_wrt (\<lambda>a b. k b \<le> k a) (sort_desc k xs)"
  by (simp_all add: sort_desc_def fold_insert_desc)

text \<open>\<^verbatim>\<open>Array.from(new Set(xs))\<close>: the first occurrence of each element, in order.\<close>

fun dedup_acc :: "'a list \<Rightarrow> 'a list \<Rightarrow> 'a list" where
  "dedup_acc seen [] = []"
| "dedup_acc seen (x # xs) =
     (if x \<in> set seen then dedup_acc seen xs else x # dedup_acc (x # seen) xs)"

definition dedup :: "'a list \<Rightarrow> 'a list" where
  "dedup xs = dedup_acc [] xs"

lemma dedup_acc_props:
  "set (dedup_acc seen xs) = set xs - set seen \<and> distinct (dedup_acc seen xs)"
  by (induction xs arbitrary: seen) auto

lemma map_filter_map_Some [simp]: "(\<And>x. f (g x) = Some x) \<Longrightarrow> List.map_filter f (map g xs) = xs"
  by (induction xs) (auto simp: List.map_filter_def)

lemma set_dedup [simp]: "set (dedup xs) = set xs"
  by (simp add: dedup_def dedup_acc_props)

lemma distinct_dedup [simp]: "distinct (dedup xs)"
  by (simp add: dedup_def dedup_acc_props)

section \<open>Decimal and hexadecimal numerals\<close>

definition digit_char :: "int \<Rightarrow> char" where
  "digit_char d = (if d < 10 then char_of (nat d + 48) else char_of (nat d + 87))"

definition char_digit :: "char \<Rightarrow> int" where
  "char_digit c = (let n = int (of_char c) in
     if is_digit c then n - 48 else if is_lower c then n - 87 else if is_upper c then n - 55 else 0)"

text \<open>Fixed-width digits (\<^verbatim>\<open>padStart(w, "0")\<close>) and free-width numerals
  (\<^verbatim>\<open>String(n)\<close>, \<^verbatim>\<open>n.toString(16)\<close>) of a non-negative number.\<close>

fun fixed_digits :: "int \<Rightarrow> nat \<Rightarrow> int \<Rightarrow> string" where
  "fixed_digits b 0 k = []"
| "fixed_digits b (Suc w) k = fixed_digits b w (k div b) @ [digit_char (k mod b)]"

function numeral_str :: "int \<Rightarrow> int \<Rightarrow> string" where
  "numeral_str b k =
     (if k < b \<or> b < 2 then [digit_char k] else numeral_str b (k div b) @ [digit_char (k mod b)])"
  by pat_completeness auto
termination
proof (relation "measure (\<lambda>(b, k). nat k)", goal_cases)
  case 1
  then show ?case by simp
next
  case (2 b k)
  then have "2 \<le> b" "b \<le> k" by auto
  then have "k div b < k" by (simp add: int_div_less_self)
  with \<open>2 \<le> b\<close> \<open>b \<le> k\<close> show ?case by simp
qed

declare numeral_str.simps [simp del]

definition digits_value :: "int \<Rightarrow> string \<Rightarrow> int" where
  "digits_value b s = foldl (\<lambda>a c. a * b + char_digit c) 0 s"

abbreviation dec_str :: "int \<Rightarrow> string" where
  "dec_str \<equiv> numeral_str 10"

abbreviation hex_str :: "int \<Rightarrow> string" where
  "hex_str \<equiv> numeral_str 16"

lemma digits_value_snoc [simp]: "digits_value b (s @ [c]) = digits_value b s * b + char_digit c"
  by (simp add: digits_value_def)

lemma digits_value_Nil [simp]: "digits_value b [] = 0"
  by (simp add: digits_value_def)

lemma digit_cases:
  assumes "0 \<le> d" "d < 16"
  shows "d \<in> {0,1,2,3,4,5,6,7,8,9,10,11,12,13,14,15::int}"
  using assms by (simp, presburger)

lemma char_digit_digit_char [simp]: "\<lbrakk>0 \<le> d; d < 16\<rbrakk> \<Longrightarrow> char_digit (digit_char d) = d"
  by (drule (1) digit_cases)
     (auto simp: char_digit_def digit_char_def is_digit_def is_lower_def is_upper_def)

lemma is_digit_digit_char [simp]: "\<lbrakk>0 \<le> d; d < 10\<rbrakk> \<Longrightarrow> is_digit (digit_char d)"
  by (auto simp: digit_char_def is_digit_def)

lemma fixed_digits_length [simp]: "length (fixed_digits b w k) = w"
  by (induction w arbitrary: k) auto

lemma div_less_of_less_mult:
  fixes k b c :: int
  assumes "0 < b" and "k < b * c"
  shows "k div b < c"
proof -
  have "b * (k div b) \<le> k"
    using pos_mod_sign[OF assms(1), of k] mult_div_mod_eq[of b k] by linarith
  with assms(2) have "b * (k div b) < b * c" by linarith
  with assms(1) show ?thesis by simp
qed

lemma fixed_digits_value:
  "\<lbrakk>2 \<le> b; b \<le> 16; 0 \<le> k; k < b ^ w\<rbrakk> \<Longrightarrow> digits_value b (fixed_digits b w k) = k"
proof (induction w arbitrary: k)
  case 0
  then show ?case by simp
next
  case (Suc w)
  from Suc.prems have "k div b < b ^ w"
    by (simp add: div_less_of_less_mult)
  with Suc.prems have "digits_value b (fixed_digits b w (k div b)) = k div b"
    by (intro Suc.IH) (auto simp: pos_imp_zdiv_nonneg_iff)
  moreover have "char_digit (digit_char (k mod b)) = k mod b"
    using Suc.prems by (intro char_digit_digit_char) (auto intro: order_less_le_trans[OF pos_mod_bound])
  ultimately show ?case by simp
qed

lemma numeral_str_value:
  "\<lbrakk>2 \<le> b; b \<le> 16; 0 \<le> k\<rbrakk> \<Longrightarrow> digits_value b (numeral_str b k) = k"
proof (induction b k rule: numeral_str.induct)
  case (1 b k)
  show ?case
  proof (cases "k < b")
    case True
    with "1.prems" show ?thesis
      by (simp add: numeral_str.simps[of b k] digits_value_def)
  next
    case False
    with "1.prems" have "digits_value b (numeral_str b (k div b)) = k div b"
      by (intro "1.IH") (auto simp: pos_imp_zdiv_nonneg_iff)
    moreover have "char_digit (digit_char (k mod b)) = k mod b"
      using "1.prems" by (intro char_digit_digit_char) (auto intro: order_less_le_trans[OF pos_mod_bound])
    ultimately show ?thesis
      using False "1.prems" by (simp add: numeral_str.simps[of b k])
  qed
qed

lemma numeral_str_nonempty [simp]: "numeral_str b k \<noteq> []"
  by (subst numeral_str.simps) simp

lemma numeral_str_set:
  "\<lbrakk>2 \<le> b; 0 \<le> k; \<And>d. \<lbrakk>0 \<le> d; d < b\<rbrakk> \<Longrightarrow> P (digit_char d)\<rbrakk> \<Longrightarrow> list_all P (numeral_str b k)"
proof (induction b k rule: numeral_str.induct)
  case (1 b k)
  then show ?case
    by (subst numeral_str.simps) (auto simp: pos_imp_zdiv_nonneg_iff)
qed

lemma numeral_str_length:
  "\<lbrakk>2 \<le> b; 0 \<le> k; k < b ^ n; 0 < n\<rbrakk> \<Longrightarrow> length (numeral_str b k) \<le> n"
proof (induction b k arbitrary: n rule: numeral_str.induct)
  case (1 b k)
  show ?case
  proof (cases "k < b")
    case True
    with "1.prems" show ?thesis by (subst numeral_str.simps) simp
  next
    case False
    with "1.prems" obtain m where m: "n = Suc m" by (cases n) auto
    with False "1.prems" have "0 < m" by (cases m) auto
    moreover from m "1.prems" have "k div b < b ^ m" by (simp add: div_less_of_less_mult)
    ultimately have "length (numeral_str b (k div b)) \<le> m"
      using False "1.prems" by (intro "1.IH") (auto simp: pos_imp_zdiv_nonneg_iff)
    with False "1.prems" m show ?thesis by (subst numeral_str.simps) simp
  qed
qed

section \<open>Numbers from strings, and the remainder\<close>

text \<open>\<^verbatim>\<open>Number.parseInt(s, 10)\<close>: white space, a sign, and the longest run of digits; \<open>None\<close> is \<^verbatim>\<open>NaN\<close>.\<close>

definition parseInt10 :: "string \<Rightarrow> int option" where
  "parseInt10 s =
     (let t = dropWhile js_ws s;
          neg = startsWith t ''-'';
          ds = takeWhile is_digit (if neg \<or> startsWith t ''+'' then tl t else t)
      in if ds = [] then None else Some ((if neg then -1 else 1) * digits_value 10 ds))"

text \<open>\<^verbatim>\<open>a % b\<close> takes the sign of \<open>a\<close>.\<close>

definition js_rem :: "int \<Rightarrow> int \<Rightarrow> int" where
  "js_rem a b = (if 0 \<le> a then a mod b else - ((- a) mod b))"

lemma js_rem_nonneg: "\<lbrakk>0 \<le> a; 0 < b\<rbrakk> \<Longrightarrow> js_rem a b = a mod b \<and> 0 \<le> js_rem a b \<and> js_rem a b < b"
  by (simp add: js_rem_def)

section \<open>Runs that keep an invariant\<close>

text \<open>
  The contract of a store whose operations keep an invariant: every operation that is allowed (\<open>ok\<close>) does. A run of allowed
  operations then keeps it too.
\<close>

locale preserved =
  fixes exec :: "'op \<Rightarrow> 's \<Rightarrow> 's" and ok :: "'op \<Rightarrow> bool" and inv :: "'s \<Rightarrow> bool"
  assumes step: "\<lbrakk>ok p; inv s\<rbrakk> \<Longrightarrow> inv (exec p s)"
begin

lemma run: "\<lbrakk>list_all ok ps; inv s\<rbrakk> \<Longrightarrow> inv (fold exec ps s)"
  by (induction ps arbitrary: s) (auto simp: step)

end

end
