(* ===== verification/JsDate.thy ===== *)
theory JsDate
  imports Prelude
begin

text \<open>
  JavaScript's \<^verbatim>\<open>Date\<close>, as far as the sources use it: a time value is a number of
  milliseconds since the epoch (an \<^typ>\<open>int\<close>), \<^verbatim>\<open>toISOString\<close> prints it, and
  \<^verbatim>\<open>Date.parse\<close> reads it back. The stores persist every instant as such a string and
  decide expiry by parsing it again, so the round trip proved here carries their
  deadlines.

  \<^verbatim>\<open>Date.parse\<close> also accepts strings that are not in the form \<^verbatim>\<open>toISOString\<close> prints
  (other offsets, dates without a time, engine-specific legacy formats). What it
  returns there is up to the host, so it is the field \<^verbatim>\<open>host_date\<close> of the record
  of host functions below, with \<^verbatim>\<open>None\<close> for \<^verbatim>\<open>NaN\<close>.
\<close>

section \<open>Functions of the host\<close>

text \<open>
  The functions of the JavaScript host the sources call and do not define: the part of
  \<^verbatim>\<open>Date.parse\<close> just described, SHA-256 and HMAC-SHA-256 (\<^verbatim>\<open>node:crypto\<close>, hexadecimal
  digests), and the decimal form \<^verbatim>\<open>String(x)\<close> of a number that is not an integer.
\<close>

record host =
  host_date :: "string \<Rightarrow> int option"
  host_sha256 :: "string \<Rightarrow> string"
  host_hmac :: "string \<Rightarrow> string \<Rightarrow> string"
  host_numstr :: "rat \<Rightarrow> string"

section \<open>The calendar\<close>

definition DAY_MS :: int where
  "DAY_MS = 86400000"

text \<open>
  Years are counted from the first of March, so that the leap day is the last day of a
  year: \<open>year_days y\<close> is the number of days before the first of March of year \<open>y\<close>.
\<close>

definition year_days :: "int \<Rightarrow> int" where
  "year_days y = 365 * y + y div 4 - y div 100 + y div 400"

definition year_of :: "int \<Rightarrow> int" where
  "year_of n = (let y = (400 * n) div 146097 in if year_days (y + 1) \<le> n then y + 1 else y)"

definition civil_from_days :: "int \<Rightarrow> int \<times> int \<times> int" where
  "civil_from_days z =
     (let n = z + 719468;
          y = year_of n;
          doy = n - year_days y;
          mp = (5 * doy + 2) div 153;
          d = doy - (153 * mp + 2) div 5 + 1;
          m = (if mp < 10 then mp + 3 else mp - 9)
      in (if m \<le> 2 then y + 1 else y, m, d))"

fun days_from_civil :: "int \<times> int \<times> int \<Rightarrow> int" where
  "days_from_civil (y, m, d) =
     year_days (if m \<le> 2 then y - 1 else y)
     + (153 * (if 2 < m then m - 3 else m + 9) + 2) div 5 + d - 719469"

definition leap_year :: "int \<Rightarrow> bool" where
  "leap_year y \<longleftrightarrow> y mod 4 = 0 \<and> (y mod 100 \<noteq> 0 \<or> y mod 400 = 0)"

definition month_length :: "int \<Rightarrow> int \<Rightarrow> int" where
  "month_length y m =
     (if m = 2 then (if leap_year y then 29 else 28)
      else if m \<in> {4, 6, 9, 11} then 30 else 31)"

text \<open>Four facts that determine the day number of a date in the Gregorian calendar: the
  epoch, the next day within a month, the step to the next month and to the next year.\<close>

lemma epoch_day: "days_from_civil (1970, 1, 1) = 0"
  by (simp add: year_days_def)

lemma next_day: "days_from_civil (y, m, d + 1) = days_from_civil (y, m, d) + 1"
  by simp

lemma pred_div:
  fixes n r :: int
  assumes "1 < n"
  shows "(r - 1) div n = r div n - (if r mod n = 0 then 1 else 0)"
proof -
  let ?q = "r div n - (if r mod n = 0 then 1 else 0)"
  define k where "k = r mod n"
  let ?m = "if k = 0 then n - 1 else k - 1"
  have "n * (r div n) = r - k" by (simp add: minus_mod_eq_mult_div k_def)
  then have e: "r - 1 = n * ?q + ?m"
    by (simp add: right_diff_distrib k_def)
  have "0 \<le> k" "k < n" using assms by (auto simp: k_def)
  then have "0 \<le> ?m" "?m < n" using assms by auto
  from int_div_pos_eq[OF e this] show ?thesis .
qed

lemma year_length: "year_days y = year_days (y - 1) + (if leap_year y then 366 else 365)"
proof -
  have "y mod 400 = 0 \<Longrightarrow> y mod 100 = 0" "y mod 100 = 0 \<Longrightarrow> y mod 4 = 0"
    using dvd_trans[of 100 400 y] dvd_trans[of 4 100 y] by (simp_all add: mod_eq_0_iff_dvd)
  then show ?thesis
    by (auto simp: year_days_def leap_year_def pred_div)
qed

lemma int_upto_11: "\<lbrakk>0 \<le> (m::int); m \<le> 11\<rbrakk> \<Longrightarrow> m \<in> {0,1,2,3,4,5,6,7,8,9,10,11}"
  using digit_cases[of m] by auto

lemma next_month:
  assumes "1 \<le> m" "m < 12"
  shows "days_from_civil (y, m + 1, 1) = days_from_civil (y, m, 1) + month_length y m"
proof -
  have "m \<in> {0,1,2,3,4,5,6,7,8,9,10,11}" using assms by (intro int_upto_11) simp_all
  then have "m \<in> {1,2,3,4,5,6,7,8,9,10,11}" using assms by auto
  with year_length[of y] show ?thesis
    by (elim insertE emptyE) (simp_all add: month_length_def)
qed

lemma next_year: "days_from_civil (y + 1, 1, 1) = days_from_civil (y, 12, 1) + month_length y 12"
  by (simp add: month_length_def)

lemma div_bounds:
  fixes n x :: int
  assumes "0 < n"
  shows "n * (x div n) \<le> x" "x < n * (x div n) + n"
  using pos_mod_sign[OF assms, of x] pos_mod_bound[OF assms, of x] mult_div_mod_eq[of n x]
  by linarith+

lemma year_days_bounds:
  "400 * year_days k \<le> 146097 * k + 396" "146097 * k - 699 \<le> 400 * year_days k"
proof -
  define p q r where "p = k div 4" and "q = k div 100" and "r = k div 400"
  have "4 * p \<le> k" "k < 4 * p + 4" "100 * q \<le> k" "k < 100 * q + 100" "400 * r \<le> k" "k < 400 * r + 400"
    unfolding p_def q_def r_def by (rule div_bounds, simp)+
  then have "400 * (365 * k + p - q + r) \<le> 146097 * k + 396"
    and "146097 * k - 699 \<le> 400 * (365 * k + p - q + r)" by simp_all
  then show "400 * year_days k \<le> 146097 * k + 396" "146097 * k - 699 \<le> 400 * year_days k"
    by (simp_all add: year_days_def p_def q_def r_def)
qed

lemma year_of_bounds: "year_days (year_of n) \<le> n" "n < year_days (year_of n + 1)"
proof -
  define y where "y = (400 * n) div 146097"
  have y: "146097 * y \<le> 400 * n" "400 * n < 146097 * y + 146097"
    unfolding y_def by (rule div_bounds, simp)+
  have "year_days y \<le> n" using y year_days_bounds[of y] by linarith
  moreover have "n < year_days (y + 2)" using y year_days_bounds(2)[of "y + 2"] by simp
  ultimately show "year_days (year_of n) \<le> n" "n < year_days (year_of n + 1)"
    by (auto simp: year_of_def Let_def y_def[symmetric] add.assoc split: if_splits)
qed

lemma civil_from_days_bounds:
  assumes "civil_from_days z = (y, m, d)"
  shows "1 \<le> m" "m \<le> 12" "1 \<le> d" "d \<le> 31"
    and "days_from_civil (y, m, d) = z"
    and "y = year_of (z + 719468) \<or> y = year_of (z + 719468) + 1"
proof -
  define n where "n = z + 719468"
  define k where "k = year_of n"
  define doy where "doy = n - year_days k"
  define mp where "mp = (5 * doy + 2) div 153"
  have c: "m = (if mp < 10 then mp + 3 else mp - 9)" "d = doy - (153 * mp + 2) div 5 + 1"
      "y = (if m \<le> 2 then k + 1 else k)"
    using assms by (auto simp: civil_from_days_def Let_def n_def k_def doy_def mp_def)
  have doy: "0 \<le> doy" "doy < 366"
    using year_of_bounds[of n] year_length[of "k + 1"] by (auto simp: doy_def k_def split: if_splits)
  then have mp: "0 \<le> mp" "mp \<le> 11" by (auto simp: mp_def)
  then show "1 \<le> m" "m \<le> 12" by (auto simp: c)
  have b: "153 * mp \<le> 5 * doy + 2" "5 * doy + 2 < 153 * mp + 153"
    unfolding mp_def by (rule div_bounds, simp)+
  have "mp \<in> {0,1,2,3,4,5,6,7,8,9,10,11}" using mp by (rule int_upto_11)
  then show "1 \<le> d" "d \<le> 31" using b by (auto simp: c)
  have "(if 2 < m then m - 3 else m + 9) = mp" using mp by (auto simp: c)
  moreover have "(if m \<le> 2 then y - 1 else y) = k" by (simp add: c(3))
  ultimately have "days_from_civil (y, m, d) = year_days k + doy - 719468"
    by (simp only: days_from_civil.simps) (simp add: c(2))
  then show "days_from_civil (y, m, d) = z" by (simp add: doy_def n_def)
  show "y = year_of (z + 719468) \<or> y = year_of (z + 719468) + 1"
    by (simp add: c k_def n_def)
qed

declare days_from_civil.simps [simp del]

section \<open>Printing and parsing\<close>

text \<open>
  \<open>time_ok t\<close>: the time values a \<^verbatim>\<open>Date\<close> can hold (100 million days either side of the
  epoch). \<^verbatim>\<open>toISOString\<close> throws a \<^verbatim>\<open>RangeError\<close> beyond it, which no caller reaches
  with a clock reading; the model is total, and the theorems assume \<open>time_ok\<close>.
\<close>

definition time_ok :: "int \<Rightarrow> bool" where
  "time_ok t \<longleftrightarrow> \<bar>t\<bar> \<le> 8640000000000000"

definition year_str :: "int \<Rightarrow> string" where
  "year_str y =
     (if 0 \<le> y \<and> y \<le> 9999 then fixed_digits 10 4 y
      else (if y < 0 then CHR ''-'' else CHR ''+'') # fixed_digits 10 6 \<bar>y\<bar>)"

definition toISOString :: "int \<Rightarrow> string" where
  "toISOString t =
     (let (y, m, d) = civil_from_days (t div DAY_MS);
          ms = t mod DAY_MS
      in year_str y @ ''-'' @ fixed_digits 10 2 m @ ''-'' @ fixed_digits 10 2 d @ ''T''
         @ fixed_digits 10 2 (ms div 3600000) @ '':'' @ fixed_digits 10 2 (ms div 60000 mod 60) @ '':''
         @ fixed_digits 10 2 (ms div 1000 mod 60) @ ''.'' @ fixed_digits 10 3 (ms mod 1000) @ ''Z'')"

text \<open>Reading the fields of such a string by position, as far as it has that form.\<close>

definition iso_fields :: "string \<Rightarrow> int" where
  "iso_fields s =
     (let r = (if take 1 s \<in> {''+'', ''-''} then drop 7 s else drop 4 s);
          y = (if take 1 s = ''+'' then digits_value 10 (take 6 (drop 1 s))
               else if take 1 s = ''-'' then - digits_value 10 (take 6 (drop 1 s))
               else digits_value 10 (take 4 s));
          f = (\<lambda>i w. digits_value 10 (take w (drop i r)))
      in days_from_civil (y, f 1 2, f 4 2) * DAY_MS
         + f 7 2 * 3600000 + f 10 2 * 60000 + f 13 2 * 1000 + f 16 3)"

definition date_parse :: "host \<Rightarrow> string \<Rightarrow> int option" where
  "date_parse H s =
     (let t = iso_fields s in
      if time_ok t \<and> toISOString t = s then Some t else host_date H s)"

lemma year_str_value:
  assumes "-999999 \<le> y" "y \<le> 999999"
  shows "0 \<le> y \<and> y \<le> 9999 \<Longrightarrow> take 1 (year_str y @ r) \<notin> {''+'', ''-''}
      \<and> digits_value 10 (take 4 (year_str y @ r)) = y \<and> drop 4 (year_str y @ r) = r"
    and "y < 0 \<Longrightarrow> take 1 (year_str y @ r) = ''-''
      \<and> - digits_value 10 (take 6 (drop 1 (year_str y @ r))) = y \<and> drop 7 (year_str y @ r) = r"
    and "9999 < y \<Longrightarrow> take 1 (year_str y @ r) = ''+''
      \<and> digits_value 10 (take 6 (drop 1 (year_str y @ r))) = y \<and> drop 7 (year_str y @ r) = r"
proof -
  have no_sign: "digit_char k \<notin> {CHR ''+'', CHR ''-''}" if "0 \<le> k" "k < 10" for k
    using is_digit_digit_char[OF that] by (auto simp: is_digit_def)
  show "0 \<le> y \<and> y \<le> 9999 \<Longrightarrow> take 1 (year_str y @ r) \<notin> {''+'', ''-''}
      \<and> digits_value 10 (take 4 (year_str y @ r)) = y \<and> drop 4 (year_str y @ r) = r"
    using no_sign[of "y div 10 div 10 div 10 mod 10"]
    by (simp add: year_str_def fixed_digits_value) (simp add: eval_nat_numeral)
  show "y < 0 \<Longrightarrow> take 1 (year_str y @ r) = ''-''
      \<and> - digits_value 10 (take 6 (drop 1 (year_str y @ r))) = y \<and> drop 7 (year_str y @ r) = r"
    using assms by (simp add: year_str_def fixed_digits_value)
  show "9999 < y \<Longrightarrow> take 1 (year_str y @ r) = ''+''
      \<and> digits_value 10 (take 6 (drop 1 (year_str y @ r))) = y \<and> drop 7 (year_str y @ r) = r"
    using assms by (simp add: year_str_def fixed_digits_value)
qed

lemma two_digits: "\<lbrakk>0 \<le> k; k < 100\<rbrakk> \<Longrightarrow> digits_value 10 (fixed_digits 10 2 k) = k"
  by (rule fixed_digits_value) simp_all

lemma three_digits: "\<lbrakk>0 \<le> k; k < 1000\<rbrakk> \<Longrightarrow> digits_value 10 (fixed_digits 10 3 k) = k"
  by (rule fixed_digits_value) simp_all

lemma clock_parts:
  fixes k :: int
  shows "k div 3600000 * 3600000 + k div 60000 mod 60 * 60000 + k div 1000 mod 60 * 1000 + k mod 1000 = k"
proof -
  define s mi where "s = k div 1000" and "mi = s div 60"
  define a b c d where "a = mi div 60" and "b = mi mod 60" and "c = s mod 60" and "d = k mod 1000"
  have "k div 60000 = mi" by (simp add: mi_def s_def zdiv_zmult2_eq[symmetric])
  moreover have "k div 3600000 = a" by (simp add: a_def mi_def s_def zdiv_zmult2_eq[symmetric])
  moreover have "s * 1000 + d = k" "mi * 60 + c = s" "a * 60 + b = mi"
    by (simp_all add: s_def mi_def a_def b_def c_def d_def)
  ultimately show ?thesis
    unfolding s_def[symmetric] a_def[symmetric] b_def[symmetric] c_def[symmetric] d_def[symmetric]
    by (simp add: b_def[symmetric])
qed

lemma iso_fields_toISOString:
  assumes "time_ok t"
  shows "iso_fields (toISOString t) = t"
proof -
  obtain y m d where c: "civil_from_days (t div DAY_MS) = (y, m, d)"
    by (cases "civil_from_days (t div DAY_MS)")
  define ms where "ms = t mod DAY_MS"
  note b = civil_from_days_bounds[OF c]
  have ms: "0 \<le> ms" "ms < 86400000" by (simp_all add: ms_def DAY_MS_def)
  define r where "r = ''-'' @ fixed_digits 10 2 m @ ''-'' @ fixed_digits 10 2 d @ ''T''
         @ fixed_digits 10 2 (ms div 3600000) @ '':'' @ fixed_digits 10 2 (ms div 60000 mod 60) @ '':''
         @ fixed_digits 10 2 (ms div 1000 mod 60) @ ''.'' @ fixed_digits 10 3 (ms mod 1000) @ ''Z''"
  have s: "toISOString t = year_str y @ r"
    by (simp add: toISOString_def c ms_def r_def Let_def)
  define n where "n = t div DAY_MS + 719468"
  have "DAY_MS * (t div DAY_MS) \<le> t" "t < DAY_MS * (t div DAY_MS) + DAY_MS"
    using ms unfolding ms_def by (simp_all add: minus_mod_eq_mult_div[symmetric] DAY_MS_def)
  then have "-100719468 \<le> n" "n \<le> 100719468"
    using assms unfolding n_def time_ok_def DAY_MS_def by simp_all
  moreover have "400 * year_days (year_of n) \<le> 400 * n" "400 * n < 400 * year_days (year_of n + 1)"
    using year_of_bounds[of n] by simp_all
  ultimately have "-999999 \<le> y" "y \<le> 999999"
    using b(6) year_days_bounds[of "year_of n"] year_days_bounds[of "year_of n + 1"]
    unfolding n_def[symmetric] by auto
  note ys = year_str_value[OF this, of r]
  have f: "digits_value 10 (take 2 (drop 1 r)) = m" "digits_value 10 (take 2 (drop 4 r)) = d"
      "digits_value 10 (take 2 (drop 7 r)) = ms div 3600000"
      "digits_value 10 (take 2 (drop 10 r)) = ms div 60000 mod 60"
      "digits_value 10 (take 2 (drop 13 r)) = ms div 1000 mod 60"
      "digits_value 10 (take 3 (drop 16 r)) = ms mod 1000"
    using b ms by (simp_all add: r_def two_digits three_digits)
  have parts: "ms div 3600000 * 3600000 + ms div 60000 mod 60 * 60000 + ms div 1000 mod 60 * 1000
      + ms mod 1000 = ms"
    by (rule clock_parts)
  let ?f = "\<lambda>i w. digits_value 10 (take w (drop i r))"
  consider "0 \<le> y \<and> y \<le> 9999" | "y < 0" | "9999 < y" by linarith
  then have "iso_fields (year_str y @ r) = days_from_civil (y, ?f 1 2, ?f 4 2) * DAY_MS
      + ?f 7 2 * 3600000 + ?f 10 2 * 60000 + ?f 13 2 * 1000 + ?f 16 3"
  proof cases
    case 1
    with ys(1) show ?thesis by (simp add: iso_fields_def Let_def)
  next
    case 2
    with ys(2) show ?thesis by (simp add: iso_fields_def Let_def)
  next
    case 3
    with ys(3) show ?thesis by (simp add: iso_fields_def Let_def)
  qed
  also have "\<dots> = days_from_civil (y, m, d) * DAY_MS + (ms div 3600000 * 3600000
      + ms div 60000 mod 60 * 60000 + ms div 1000 mod 60 * 1000 + ms mod 1000)"
    by (simp only: f add.assoc)
  also have "\<dots> = days_from_civil (y, m, d) * DAY_MS + ms"
    by (simp only: parts)
  also have "\<dots> = t" unfolding b(5) by (simp add: ms_def)
  finally show ?thesis by (simp add: s)
qed

text \<open>The round trip every deadline of the stores relies on.\<close>

lemma date_parse_toISOString [simp]: "time_ok t \<Longrightarrow> date_parse H (toISOString t) = Some t"
  by (simp add: date_parse_def iso_fields_toISOString)

lemma toISOString_inj: "\<lbrakk>time_ok a; time_ok b; toISOString a = toISOString b\<rbrakk> \<Longrightarrow> a = b"
  by (metis iso_fields_toISOString)

lemma toISOString_nonempty [simp]: "toISOString t \<noteq> []"
  by (cases "civil_from_days (t div DAY_MS)") (simp add: toISOString_def Let_def)

section \<open>Deadlines\<close>

text \<open>\<^verbatim>\<open>Date.parse(s) <= now\<close>; a string that does not parse gives \<^verbatim>\<open>NaN\<close> and the comparison
  is false.\<close>

definition date_le :: "host \<Rightarrow> string \<Rightarrow> int \<Rightarrow> bool" where
  "date_le H s now = (case date_parse H s of None \<Rightarrow> False | Some t \<Rightarrow> t \<le> now)"

lemma date_le_iso [simp]: "time_ok t \<Longrightarrow> date_le H (toISOString t) now \<longleftrightarrow> t \<le> now"
  by (simp add: date_le_def)

text \<open>A concrete host, for examples: no legacy date formats, and stand-ins for the hash
  functions that are visibly injective.\<close>

definition sample_host :: host where
  "sample_host = \<lparr>host_date = (\<lambda>_. None), host_sha256 = (\<lambda>s. s), host_hmac = (\<lambda>k m. k @ [CHR ''|''] @ m),
     host_numstr = (\<lambda>_. ''0.5'')\<rparr>"

end
