(* ===== verification/JsonStore.thy ===== *)
theory JsonStore
  imports JsDate
begin

text \<open>
  How the stores keep their state. Every store owns one JSON file below \<^verbatim>\<open>.data/\<close>, reads it
  with \<^verbatim>\<open>JSON.parse(await fs.readFile(...))\<close>, treats a missing file (\<^verbatim>\<open>ENOENT\<close>) as the
  default state and replaces the file by writing a temporary file and renaming it. The
  model keeps the parsed JSON value as the file's contents, so the decoding of a store is
  a function on \<^verbatim>\<open>json\<close> and its encoding one into \<^verbatim>\<open>json\<close>. Some stores put a short-lived
  cache in front of the file; the cache protocol is shared and modelled once here.
\<close>

section \<open>JSON values\<close>

datatype json =
    JNull
  | JBool bool
  | JNum jsnum
  | JStr string
  | JArr "json list"
  | JObj "(string \<times> json) list"

text \<open>\<^verbatim>\<open>j.k\<close>: \<^verbatim>\<open>undefined\<close> (\<open>None\<close>) unless \<open>j\<close> is an object with that key.\<close>

fun jfield :: "json \<Rightarrow> string \<Rightarrow> json option" where
  "jfield (JObj kvs) k = map_of kvs k"
| "jfield j k = None"

fun falsy :: "json \<Rightarrow> bool" where
  "falsy JNull = True"
| "falsy (JBool b) = (\<not> b)"
| "falsy (JNum (Fin q)) = (q = 0)"
| "falsy (JNum NaN) = True"
| "falsy (JNum x) = False"
| "falsy (JStr s) = (s = [])"
| "falsy (JArr xs) = False"
| "falsy (JObj kvs) = False"

text \<open>\<^verbatim>\<open>typeof j === "object"\<close>\<close>

fun is_object :: "json \<Rightarrow> bool" where
  "is_object JNull = True"
| "is_object (JArr xs) = True"
| "is_object (JObj kvs) = True"
| "is_object j = False"

text \<open>\<^verbatim>\<open>!!x\<close> for a possibly missing field.\<close>

definition jtruthy :: "json option \<Rightarrow> bool" where
  "jtruthy j \<longleftrightarrow> (case j of None \<Rightarrow> False | Some v \<Rightarrow> \<not> falsy v)"

text \<open>\<^verbatim>\<open>typeof x === "string" ? x : null\<close>\<close>

definition str_or_null :: "json option \<Rightarrow> string option" where
  "str_or_null j = (case j of Some (JStr s) \<Rightarrow> Some s | _ \<Rightarrow> None)"

text \<open>\<^verbatim>\<open>typeof x === "number"\<close>\<close>

definition as_number :: "json option \<Rightarrow> jsnum option" where
  "as_number j = (case j of Some (JNum x) \<Rightarrow> Some x | _ \<Rightarrow> None)"

definition as_array :: "json option \<Rightarrow> json list option" where
  "as_array j = (case j of Some (JArr xs) \<Rightarrow> Some xs | _ \<Rightarrow> None)"

definition jnullable :: "string option \<Rightarrow> json" where
  "jnullable s = (case s of None \<Rightarrow> JNull | Some x \<Rightarrow> JStr x)"

definition the_strings :: "json list \<Rightarrow> string list" where
  "the_strings js = List.map_filter (\<lambda>j. str_or_null (Some j)) js"

lemma json_readers [simp]:
  "str_or_null (Some (jnullable s)) = s"
  "str_or_null (Some (JStr x)) = Some x"
  "str_or_null (Some JNull) = None"
  "str_or_null None = None"
  "jtruthy (Some (JBool b)) = b"
  "jtruthy None = False"
  "jtruthy (Some JNull) = False"
  "as_number (Some (JNum n)) = Some n"
  "as_number None = None"
  "as_number (Some JNull) = None"
  "as_array (Some (JArr xs)) = Some xs"
  "as_array None = None"
  "the_strings (map JStr ys) = ys"
  by (auto simp: str_or_null_def jnullable_def jtruthy_def as_number_def as_array_def
      the_strings_def map_filter_def comp_def split: option.splits)

section \<open>Files\<close>

text \<open>
  \<open>Unreadable\<close> is every outcome of the read that is neither \<^verbatim>\<open>ENOENT\<close> nor a JSON value: an
  I/O error or a syntax error. \<open>read_json\<close> is the \<^verbatim>\<open>try\<close>/\<^verbatim>\<open>catch\<close> of the stores that give a
  missing file its default and rethrow the rest.
\<close>

datatype json_file = Absent | Unreadable | Holds json

definition read_json :: "'s \<Rightarrow> (json \<Rightarrow> 's) \<Rightarrow> json_file \<Rightarrow> 's res" where
  "read_json dflt dec f =
     (case f of Absent \<Rightarrow> Inr dflt | Unreadable \<Rightarrow> Inl IoFault | Holds j \<Rightarrow> Inr (dec j))"

lemma read_json_simps [simp]:
  "read_json dflt dec Absent = Inr dflt"
  "read_json dflt dec Unreadable = Inl IoFault"
  "read_json dflt dec (Holds j) = Inr (dec j)"
  by (simp_all add: read_json_def)

text \<open>
  The body of an operation that loads the state first: an exception of the load is the
  operation's exception.
\<close>

definition with_load ::
  "('m \<Rightarrow> 's res \<times> 'm) \<Rightarrow> ('s \<Rightarrow> 'm \<Rightarrow> 'a \<times> 'm) \<Rightarrow> 'm \<Rightarrow> 'a res \<times> 'm" where
  "with_load load k m =
     (case load m of
        (Inl e, m') \<Rightarrow> (Inl e, m')
      | (Inr s, m') \<Rightarrow> (case k s m' of (a, m'') \<Rightarrow> (Inr a, m'')))"

text \<open>
  Several stores cast the parsed value to their state type without looking inside. Their
  file is modelled with the state it was written with: \<open>Stored s\<close>.
\<close>

datatype 's cast_file = NoFile | BadFile | Stored 's

section \<open>A file behind a short-lived cache\<close>

text \<open>
  The module state of a cached store: its file, and the cached state with the time it was
  loaded (\<^verbatim>\<open>_cache: { state, loadedAt } | null\<close>). Loads and writes return and store copies
  (\<^verbatim>\<open>clone\<close>), so a caller never aliases the cache; values are immutable in the model.
\<close>

record 's cstore =
  cs_file :: json_file
  cs_cache :: "('s \<times> int) option"

definition ttl_load :: "int \<Rightarrow> (json_file \<Rightarrow> 's res) \<Rightarrow> int \<Rightarrow> 's cstore \<Rightarrow> 's res \<times> 's cstore" where
  "ttl_load ttl rd now st =
     (let reload = (case rd (cs_file st) of
                      Inl e \<Rightarrow> (Inl e, st)
                    | Inr s \<Rightarrow> (Inr s, st\<lparr>cs_cache := Some (s, now)\<rparr>))
      in case cs_cache st of
           Some (s, loadedAt) \<Rightarrow> if now - loadedAt < ttl then (Inr s, st) else reload
         | None \<Rightarrow> reload)"

definition ttl_write :: "('s \<Rightarrow> json) \<Rightarrow> int \<Rightarrow> 's \<Rightarrow> 's cstore \<Rightarrow> 's cstore" where
  "ttl_write enc now s st = st\<lparr>cs_file := Holds (enc s), cs_cache := Some (s, now)\<rparr>"

text \<open>The cache is coherent when it holds what the file decodes to.\<close>

definition coherent :: "(json_file \<Rightarrow> 's res) \<Rightarrow> 's cstore \<Rightarrow> bool" where
  "coherent rd st \<longleftrightarrow> (case cs_cache st of None \<Rightarrow> True | Some (s, loadedAt) \<Rightarrow> rd (cs_file st) = Inr s)"

type_synonym clock = "nat \<Rightarrow> int"

lemma ttl_load_file [simp]: "cs_file (snd (ttl_load ttl rd now st)) = cs_file st"
  by (auto simp: ttl_load_def Let_def split: option.splits sum.splits)

lemma ttl_write_file [simp]: "cs_file (ttl_write enc now s st) = Holds (enc s)"
  by (simp add: ttl_write_def)

lemma ttl_load_coherent:
  assumes "coherent rd st"
  shows "fst (ttl_load ttl rd now st) = rd (cs_file st)"
    and "coherent rd (snd (ttl_load ttl rd now st))"
  using assms
  by (auto simp: coherent_def ttl_load_def Let_def split: option.splits sum.splits if_splits)

text \<open>Without any assumption, a load returns the file's state or a state cached less than
  \<open>ttl\<close> ago: the bound on staleness when something else writes the file.\<close>

lemma ttl_load_fresh:
  "fst (ttl_load ttl rd now st) = rd (cs_file st)
   \<or> (\<exists>s loadedAt. cs_cache st = Some (s, loadedAt) \<and> now - loadedAt < ttl \<and> fst (ttl_load ttl rd now st) = Inr s)"
  by (auto simp: ttl_load_def Let_def split: option.splits sum.splits)

text \<open>
  A store is ready when its file can be read and its cache is coherent; \<open>contents\<close> is then
  the state every load returns.
\<close>

definition ready :: "(json_file \<Rightarrow> 's res) \<Rightarrow> 's cstore \<Rightarrow> bool" where
  "ready rd st \<longleftrightarrow> coherent rd st \<and> (\<exists>s. rd (cs_file st) = Inr s)"

definition contents :: "(json_file \<Rightarrow> 's res) \<Rightarrow> 's cstore \<Rightarrow> 's" where
  "contents rd st = projr (rd (cs_file st))"

lemma ready_load:
  assumes "ready rd st"
  shows "ready rd (snd (ttl_load ttl rd now st))"
    and "contents rd (snd (ttl_load ttl rd now st)) = contents rd st"
    and "with_load (ttl_load ttl rd now) k st
      = (case k (contents rd st) (snd (ttl_load ttl rd now st)) of (a, m) \<Rightarrow> (Inr a, m))"
proof -
  let ?st = "snd (ttl_load ttl rd now st)"
  from assms obtain s where s: "rd (cs_file st) = Inr s" and c: "coherent rd st"
    by (auto simp: ready_def)
  show "ready rd ?st" using s ttl_load_coherent(2)[OF c] by (simp add: ready_def)
  show "contents rd ?st = contents rd st" by (simp add: contents_def)
  obtain m where m: "ttl_load ttl rd now st = (Inr s, m)"
    using ttl_load_coherent(1)[OF c, of ttl now] s by (cases "ttl_load ttl rd now st") auto
  then show "with_load (ttl_load ttl rd now) k st
      = (case k (contents rd st) ?st of (a, m) \<Rightarrow> (Inr a, m))"
    by (simp add: with_load_def contents_def s)
qed

text \<open>
  The contract of a JSON-backed store: the states the store writes (\<open>wf\<close>) come back from
  the file unchanged. The stores interpret it with their decoders and encoders.
\<close>

locale json_codec =
  fixes dec :: "json \<Rightarrow> 's"
    and enc :: "'s \<Rightarrow> json"
    and dflt :: 's
    and wf :: "'s \<Rightarrow> bool"
  assumes dec_enc: "wf s \<Longrightarrow> dec (enc s) = s"
    and wf_dflt: "wf dflt"
begin

lemma read_written: "wf s \<Longrightarrow> read_json dflt dec (Holds (enc s)) = Inr s"
  by (simp add: dec_enc)

lemma write_coherent: "wf s \<Longrightarrow> coherent (read_json dflt dec) (ttl_write enc now s st)"
  by (simp add: coherent_def ttl_write_def dec_enc)

lemma write_ready:
  assumes "wf s"
  shows "ready (read_json dflt dec) (ttl_write enc now s st)"
    and "contents (read_json dflt dec) (ttl_write enc now s st) = s"
  using write_coherent[OF assms] read_written[OF assms] by (auto simp: ready_def contents_def)

lemma load_after_write:
  "wf s \<Longrightarrow> fst (ttl_load ttl (read_json dflt dec) now' (ttl_write enc now s st)) = Inr s"
  by (simp add: ttl_load_coherent(1)[OF write_coherent] dec_enc)

end

end
