(* ===== verification/Totp.thy ===== *)
theory Totp
  imports JsonStore "HOL-Library.Word"
begin

text \<open>
  The second factor of an admin key (\<^verbatim>\<open>src/web/lib/totpStore.ts\<close>): base 32 over 32-bit words as the
  code's shifts compute it, RFC 6238 codes over an HMAC-SHA1 that is an argument, the verification window
  with its replay defence, recovery codes, and the store that keeps them.

  The theorems: base 32 decodes what it encodes; the code of an authenticator completes an enrollment; the
  steps accepted for a key strictly increase; the drawing of recovery codes ends with the first ten distinct
  ones, and each of them works once.
\<close>

unbundle bit_operations_syntax

section \<open>Base 32\<close>

type_synonym byte = "8 word"

definition B32_ALPHA :: string where
  "B32_ALPHA = ''ABCDEFGHIJKLMNOPQRSTUVWXYZ234567''"

fun b32_drain :: "32 word \<Rightarrow> nat \<Rightarrow> string \<times> nat" where
  "b32_drain v bits =
     (if 5 \<le> bits
      then (case b32_drain v (bits - 5) of (s, r) \<Rightarrow> (B32_ALPHA ! unat (drop_bit (bits - 5) v AND 31) # s, r))
      else ([], bits))"

declare b32_drain.simps [simp del]

fun b32_encode_loop :: "32 word \<Rightarrow> nat \<Rightarrow> byte list \<Rightarrow> string" where
  "b32_encode_loop v bits [] = (if 0 < bits then [B32_ALPHA ! unat (push_bit (5 - bits) v AND 31)] else [])"
| "b32_encode_loop v bits (b # bs) =
     (let v' = push_bit 8 v OR ucast b in
      case b32_drain v' (bits + 8) of (s, r) \<Rightarrow> s @ b32_encode_loop v' r bs)"

definition base32Encode :: "byte list \<Rightarrow> string" where
  "base32Encode bytes = b32_encode_loop 0 0 bytes"

fun b32_decode_loop :: "32 word \<Rightarrow> nat \<Rightarrow> string \<Rightarrow> byte list res" where
  "b32_decode_loop v bits [] = Inr []"
| "b32_decode_loop v bits (c # cs) =
     (case indexOf c B32_ALPHA of
        None \<Rightarrow> Inl (Thrown ''bad_base32'')
      | Some idx \<Rightarrow>
          (let v' = push_bit 5 v OR of_nat idx; bits' = bits + 5 in
           if 8 \<le> bits'
           then map_sum (\<lambda>e. e) ((#) (ucast (drop_bit (bits' - 8) v' AND 0xFF))) (b32_decode_loop v' (bits' - 8) cs)
           else b32_decode_loop v' bits' cs))"

definition base32Decode :: "string \<Rightarrow> byte list res" where
  "base32Decode s =
     (let unpadded = rev (dropWhile (\<lambda>c. c = CHR ''='') (rev (toUpperCase s)))
      in b32_decode_loop 0 0 (filter (\<lambda>c. \<not> js_ws c) unpadded))"

text \<open>The low \<open>n\<close> bits of a word, most significant first.\<close>

definition to_bits :: "nat \<Rightarrow> 'a::len word \<Rightarrow> bool list" where
  "to_bits n v = map (bit v) (rev [0..<n])"

lemma length_to_bits [simp]: "length (to_bits n v) = n"
  by (simp add: to_bits_def)

lemma to_bits_0 [simp]: "to_bits 0 v = []"
  by (simp add: to_bits_def)

lemma to_bits_eq_iff: "to_bits n v = to_bits n w \<longleftrightarrow> (\<forall>i<n. bit v i = bit w i)"
  by (auto simp: to_bits_def)

lemma to_bits_Suc: "to_bits (Suc n) v = bit v n # to_bits n v"
  by (simp add: to_bits_def)

lemma to_bits_add: "to_bits (a + b) v = to_bits a (drop_bit b v) @ to_bits b v"
  by (induction a) (simp_all add: to_bits_Suc bit_drop_bit_eq add.commute)

lemma to_bits_byte_inj: "to_bits 8 (a :: byte) = to_bits 8 b \<longleftrightarrow> a = b"
  by (auto simp: to_bits_eq_iff intro!: bit_word_eqI)

lemma and_31: "v AND 31 = take_bit 5 (v :: 32 word)"
  by (simp add: take_bit_eq_mask mask_eq_exp_minus_1)

lemma and_255: "v AND 0xFF = take_bit 8 (v :: 32 word)"
  by (simp add: take_bit_eq_mask mask_eq_exp_minus_1)

lemma to_bits_and_31 [simp]: "to_bits 5 (v AND 31) = to_bits 5 (v :: 32 word)"
  by (simp add: to_bits_eq_iff and_31 bit_take_bit_iff)

lemma to_bits_and_255 [simp]: "to_bits 8 (ucast (v AND 0xFF) :: byte) = to_bits 8 (v :: 32 word)"
  unfolding and_255 by (auto simp: to_bits_def bit_unsigned_iff bit_take_bit_iff)

lemma and_31_less: "unat (v AND 31 :: 32 word) < 32"
proof -
  have "v AND 31 \<le> 31" by (rule word_and_le1)
  then have "unat (v AND 31) \<le> unat (31 :: 32 word)" by (simp only: word_le_nat_alt)
  then show ?thesis by simp
qed

text \<open>Shifting in a group of \<open>k\<close> bits keeps the bits below it.\<close>

lemma to_bits_push:
  assumes "n + k \<le> 32" "to_bits k g = bs" "\<forall>i. bit g i \<longrightarrow> i < k"
  shows "to_bits (n + k) (push_bit k v OR g :: 32 word) = to_bits n v @ bs"
proof -
  have "to_bits n (drop_bit k (push_bit k v OR g)) = to_bits n v"
    using assms(1,3) by (auto simp: to_bits_eq_iff bit_drop_bit_eq bit_or_iff bit_push_bit_iff)
  moreover have "to_bits k (push_bit k v OR g) = bs"
    using assms(2) by (auto simp: to_bits_eq_iff[symmetric] to_bits_def bit_or_iff bit_push_bit_iff)
  ultimately show ?thesis by (simp add: to_bits_add)
qed

lemma indexOf_nth: "\<lbrakk>distinct xs; i < length xs\<rbrakk> \<Longrightarrow> indexOf (xs ! i) xs = Some i"
  by (induction xs arbitrary: i) (auto simp: nth_Cons' split: nat.splits)

lemma indexOf_SomeD: "indexOf c xs = Some i \<Longrightarrow> i < length xs \<and> xs ! i = c"
  by (induction xs arbitrary: i) (auto split: if_splits)

lemma b32_alpha [simp]: "distinct B32_ALPHA" "length B32_ALPHA = 32"
  by (simp_all add: B32_ALPHA_def)

text \<open>The five bits a character stands for.\<close>

definition char_bits :: "char \<Rightarrow> bool list" where
  "char_bits c = (case indexOf c B32_ALPHA of None \<Rightarrow> [] | Some i \<Rightarrow> to_bits 5 (of_nat i :: 32 word))"

definition in_b32 :: "string \<Rightarrow> bool" where
  "in_b32 s \<longleftrightarrow> list_all (\<lambda>c. indexOf c B32_ALPHA \<noteq> None) s"

lemma in_b32_simps [simp]:
  "in_b32 []" "in_b32 (c # s) \<longleftrightarrow> indexOf c B32_ALPHA \<noteq> None \<and> in_b32 s" "in_b32 (s @ t) \<longleftrightarrow> in_b32 s \<and> in_b32 t"
  by (simp_all add: in_b32_def)

lemma b32_char:
  fixes v :: "32 word"
  shows "indexOf (B32_ALPHA ! unat (v AND 31)) B32_ALPHA = Some (unat (v AND 31))"
    and "char_bits (B32_ALPHA ! unat (v AND 31)) = to_bits 5 v"
proof -
  show i: "indexOf (B32_ALPHA ! unat (v AND 31)) B32_ALPHA = Some (unat (v AND 31))"
    by (rule indexOf_nth) (use and_31_less in auto)
  show "char_bits (B32_ALPHA ! unat (v AND 31)) = to_bits 5 v"
    unfolding char_bits_def i by simp
qed

lemma b32_drain_bits:
  "b32_drain v bits = (s, r) \<Longrightarrow> r < 5 \<and> in_b32 s \<and> to_bits bits v = concat (map char_bits s) @ to_bits r v"
proof (induction v bits arbitrary: s r rule: b32_drain.induct)
  case (1 v bits)
  show ?case
  proof (cases "5 \<le> bits")
    case True
    with 1(2) obtain s' where s': "b32_drain v (bits - 5) = (s', r)" "s = B32_ALPHA ! unat (drop_bit (bits - 5) v AND 31) # s'"
      by (subst (asm) b32_drain.simps) (auto split: prod.splits)
    have "to_bits bits v = to_bits 5 (drop_bit (bits - 5) v) @ to_bits (bits - 5) v"
      using to_bits_add[of 5 "bits - 5" v] True by simp
    with 1(1)[OF True s'(1)] s'(2) b32_char show ?thesis by simp
  next
    case False
    with 1(2) show ?thesis by (subst (asm) b32_drain.simps) auto
  qed
qed

lemma bit_byte_less: "bit (ucast (b :: byte) :: 32 word) i \<Longrightarrow> i < 8"
  by (auto simp: bit_unsigned_iff dest: bit_imp_le_length)

lemma b32_encode_bits:
  "r < 5 \<Longrightarrow> in_b32 (b32_encode_loop v r bs) \<and> (\<exists>pad. length pad < 5
     \<and> concat (map char_bits (b32_encode_loop v r bs)) = to_bits r v @ concat (map (to_bits 8) bs) @ pad)"
proof (induction bs arbitrary: v r)
  case Nil
  have "to_bits (r + (5 - r)) (push_bit (5 - r) v OR 0) = to_bits r v @ to_bits (5 - r) (0 :: 32 word)"
    by (rule to_bits_push) (use Nil in auto)
  with Nil have "to_bits 5 (push_bit (5 - r) v) = to_bits r v @ to_bits (5 - r) (0 :: 32 word)" by simp
  with Nil show ?case by (auto simp: b32_char)
next
  case (Cons b bs)
  define v' where "v' = push_bit 8 v OR ucast b"
  obtain s r' where d: "b32_drain v' (r + 8) = (s, r')" by fastforce
  from b32_drain_bits[OF d] have s: "r' < 5" "in_b32 s"
    "to_bits (r + 8) v' = concat (map char_bits s) @ to_bits r' v'" by auto
  have "to_bits (r + 8) v' = to_bits r v @ to_bits 8 b"
    unfolding v'_def by (rule to_bits_push) (use Cons.prems bit_byte_less in \<open>auto simp: to_bits_def bit_unsigned_iff\<close>)
  with s Cons.IH[OF s(1), of v'] d show ?case
    by (auto simp: v'_def[symmetric] Let_def simp flip: append_assoc)
qed

lemma b32_decode_bits:
  "\<lbrakk>r < 8; in_b32 cs\<rbrakk> \<Longrightarrow> \<exists>ys rest. b32_decode_loop v r cs = Inr ys \<and> length rest < 8
     \<and> to_bits r v @ concat (map char_bits cs) = concat (map (to_bits 8) ys) @ rest"
proof (induction cs arbitrary: v r)
  case Nil
  then show ?case by simp
next
  case (Cons c cs)
  then obtain i where i: "indexOf c B32_ALPHA = Some i" by auto
  then have "i < 32" using indexOf_SomeD by fastforce
  then have "(of_nat i :: 32 word) AND 31 = of_nat i"
    unfolding and_31 using take_bit_of_nat[of 5 i, where ?'a = "32 word"] by (simp add: take_bit_nat_eq_self)
  then have small: "\<forall>k. bit (of_nat i :: 32 word) k \<longrightarrow> k < 5"
    unfolding and_31 by (metis bit_take_bit_iff)
  define v' where "v' = push_bit 5 v OR (of_nat i :: 32 word)"
  have v': "to_bits (r + 5) v' = to_bits r v @ char_bits c"
    unfolding v'_def by (rule to_bits_push) (use Cons.prems small i in \<open>auto simp: char_bits_def\<close>)
  show ?case
  proof (cases "8 \<le> r + 5")
    case True
    have "to_bits (r + 5) v' = to_bits 8 (drop_bit (r + 5 - 8) v') @ to_bits (r + 5 - 8) v'"
      using to_bits_add[of 8 "r + 5 - 8" v'] True by (simp add: add.commute)
    with v' have b: "to_bits r v @ char_bits c = to_bits 8 (drop_bit (r + 5 - 8) v') @ to_bits (r + 5 - 8) v'" by simp
    obtain ys rest where ys: "b32_decode_loop v' (r + 5 - 8) cs = Inr ys" "length rest < 8"
      "to_bits (r + 5 - 8) v' @ concat (map char_bits cs) = concat (map (to_bits 8) ys) @ rest"
      using Cons.IH[of "r + 5 - 8" v'] Cons.prems less_imp_diff_less[of r 8 3] by auto
    let ?y = "ucast (drop_bit (r + 5 - 8) v' AND 0xFF) :: byte"
    have "to_bits r v @ concat (map char_bits (c # cs)) = to_bits 8 ?y @ to_bits (r + 5 - 8) v' @ concat (map char_bits cs)"
      using b by (metis append_assoc concat.simps(2) list.simps(9) to_bits_and_255)
    also have "\<dots> = concat (map (to_bits 8) (?y # ys)) @ rest"
      unfolding ys(3) by simp
    finally have "to_bits r v @ concat (map char_bits (c # cs)) = concat (map (to_bits 8) (?y # ys)) @ rest" .
    moreover have "b32_decode_loop v r (c # cs) = Inr (?y # ys)"
      using True i ys(1) by (simp add: v'_def[symmetric] Let_def)
    ultimately show ?thesis using ys(2) by blast
  next
    case False
    with Cons.IH[of "r + 5" v'] Cons.prems v' i show ?thesis by (auto simp: v'_def[symmetric] Let_def)
  qed
qed

lemma bytes_unique:
  "\<lbrakk>concat (map (to_bits 8) xs) @ p = concat (map (to_bits 8) ys) @ q; length p < 8; length q < 8\<rbrakk> \<Longrightarrow> xs = (ys :: byte list)"
proof (induction xs arbitrary: ys)
  case Nil
  then show ?case by (cases ys) (auto dest!: arg_cong[of _ _ length])
next
  case (Cons x xs)
  then obtain y ys' where "ys = y # ys'"
    by (cases ys) (auto dest!: arg_cong[of _ _ length])
  with Cons show ?case by (simp add: to_bits_byte_inj)
qed

lemma in_b32_clean:
  assumes "in_b32 s"
  shows "toUpperCase s = s" "dropWhile (\<lambda>c. c = CHR ''='') (rev s) = rev s" "filter (\<lambda>c. \<not> js_ws c) s = s"
proof -
  have "c \<in> set B32_ALPHA" if "c \<in> set s" for c
    using assms that indexOf_SomeD[of c B32_ALPHA] nth_mem[of _ B32_ALPHA] by (fastforce simp: in_b32_def list_all_iff)
  then have k: "\<forall>c\<in>set s. c \<noteq> CHR 0xDF \<and> to_upper_char c = c \<and> c \<noteq> CHR ''='' \<and> \<not> js_ws c"
    by (fastforce simp: B32_ALPHA_def to_upper_char_def Let_def is_lower_def js_ws_def)
  then have "map (\<lambda>c. if c = CHR 0xDF then ''SS'' else [to_upper_char c]) s = map (\<lambda>c. [c]) s" by simp
  then show "toUpperCase s = s" by (simp only: toUpperCase_def concat_map_singleton map_ident)
  show "dropWhile (\<lambda>c. c = CHR ''='') (rev s) = rev s"
    using k by (cases "rev s") (auto simp: dropWhile_eq_self_iff in_set_conv_decomp hd_rev)
  show "filter (\<lambda>c. \<not> js_ws c) s = s" using k by (simp add: filter_id_conv)
qed

text \<open>Base 32 decodes what it encodes, for every sequence of bytes, although the code keeps its bits in a 32-bit
  register from which older bits fall out.\<close>

theorem base32_roundtrip: "base32Decode (base32Encode bytes) = Inr bytes"
proof -
  let ?s = "b32_encode_loop 0 0 bytes"
  obtain pad where s: "in_b32 ?s" "length pad < 5" "concat (map char_bits ?s) = concat (map (to_bits 8) bytes) @ pad"
    using b32_encode_bits[of 0 0 bytes] by auto
  obtain ys rest where ys: "b32_decode_loop 0 0 ?s = Inr ys" "length rest < 8"
    "concat (map char_bits ?s) = concat (map (to_bits 8) ys) @ rest"
    using b32_decode_bits[OF _ s(1), of 0 0] by auto
  with s have "ys = bytes" by (intro bytes_unique[of ys rest bytes pad]) auto
  with ys in_b32_clean[OF s(1)] show ?thesis by (simp add: base32Decode_def base32Encode_def)
qed

section \<open>One-time codes\<close>

definition TOTP_STEP_SECONDS :: int where "TOTP_STEP_SECONDS = 30"

definition TOTP_DIGITS :: nat where "TOTP_DIGITS = 6"

definition TOTP_TOLERANCE_STEPS :: int where "TOTP_TOLERANCE_STEPS = 1"

text \<open>HMAC-SHA1 (\<^verbatim>\<open>node:crypto\<close>) is the argument \<open>hmac\<close>; reading past the end of its digest gives
  \<^verbatim>\<open>undefined\<close>, which the bit operations turn into 0.\<close>

type_synonym hmac_sha1 = "byte list \<Rightarrow> byte list \<Rightarrow> byte list"

fun be_counter :: "nat \<Rightarrow> int \<Rightarrow> byte list" where
  "be_counter 0 n = []"
| "be_counter (Suc k) n = be_counter k (n div 256) @ [word_of_int n]"

definition digest_byte :: "byte list \<Rightarrow> nat \<Rightarrow> 32 word" where
  "digest_byte h i = (if i < length h then ucast (h ! i) else 0)"

definition padStart0 :: "nat \<Rightarrow> string \<Rightarrow> string" where
  "padStart0 n s = replicate (n - length s) (CHR ''0'') @ s"

definition truncate_digest :: "byte list \<Rightarrow> 32 word" where
  "truncate_digest h =
     (let off = unat (digest_byte h (length h - 1) AND 0x0F)
      in push_bit 24 (digest_byte h off AND 0x7F) OR push_bit 16 (digest_byte h (off + 1) AND 0xFF)
         OR push_bit 8 (digest_byte h (off + 2) AND 0xFF) OR (digest_byte h (off + 3) AND 0xFF))"

definition totpAtStep :: "hmac_sha1 \<Rightarrow> string \<Rightarrow> int \<Rightarrow> string res" where
  "totpAtStep hmac secretB32 step =
     (case base32Decode secretB32 of
        Inl e \<Rightarrow> Inl e
      | Inr key \<Rightarrow>
          Inr (padStart0 TOTP_DIGITS (dec_str (js_rem (sint (truncate_digest (hmac key (be_counter 8 step)))) (10 ^ TOTP_DIGITS)))))"

definition currentStep :: "int \<Rightarrow> int" where
  "currentStep nowMs = nowMs div 1000 div TOTP_STEP_SECONDS"

definition code_format :: "string \<Rightarrow> bool" where
  "code_format code \<longleftrightarrow> length code = 6 \<and> list_all is_digit code"

record TotpRecord =
  tr_key_id :: string
  tr_secret :: string
  tr_created_at :: string
  tr_confirmed_at :: "string option"
  tr_last_verified_at :: "string option"
  tr_last_step :: "int option"
  tr_recovery :: "string list"

datatype VerifyReason = Not_enrolled | Bad_format | Invalid_code | Replay

datatype VerifyResult = Verified int | Rejected VerifyReason

text \<open>\<^verbatim>\<open>ctEq\<close> compares two strings of equal length byte by byte.\<close>

definition ctEq :: "string \<Rightarrow> string \<Rightarrow> bool" where
  "ctEq a b \<longleftrightarrow> length a = length b \<and> list_all2 (=) a b"

fun verify_steps :: "hmac_sha1 \<Rightarrow> TotpRecord \<Rightarrow> string \<Rightarrow> int list \<Rightarrow> VerifyResult" where
  "verify_steps hmac rec code [] = Rejected Invalid_code"
| "verify_steps hmac rec code (step # steps) =
     (case totpAtStep hmac (tr_secret rec) step of
        Inl e \<Rightarrow> Rejected Invalid_code
      | Inr expected \<Rightarrow>
          if ctEq expected code
          then (case tr_last_step rec of
                  None \<Rightarrow> Verified step
                | Some l \<Rightarrow> if step \<le> l then Rejected Replay else Verified step)
          else verify_steps hmac rec code steps)"

definition verifyCodeAgainst :: "hmac_sha1 \<Rightarrow> TotpRecord option \<Rightarrow> string \<Rightarrow> int \<Rightarrow> VerifyResult" where
  "verifyCodeAgainst hmac record code nowMs =
     (case record of
        None \<Rightarrow> Rejected Not_enrolled
      | Some rec \<Rightarrow>
          if \<not> code_format code then Rejected Bad_format
          else verify_steps hmac rec code
                 (map (\<lambda>d. currentStep nowMs + d) [- TOTP_TOLERANCE_STEPS .. TOTP_TOLERANCE_STEPS]))"

section \<open>The store\<close>

type_synonym totp_file = "TotpRecord list cast_file"

definition totp_readStore :: "totp_file \<Rightarrow> TotpRecord list res" where
  "totp_readStore f = (case f of NoFile \<Rightarrow> Inr [] | BadFile \<Rightarrow> Inl IoFault | Stored rs \<Rightarrow> Inr rs)"

definition totp_writeStore :: "TotpRecord list \<Rightarrow> totp_file \<Rightarrow> totp_file" where
  "totp_writeStore rs f = Stored rs"

abbreviation for_key :: "string \<Rightarrow> TotpRecord \<Rightarrow> bool" where
  "for_key kid r \<equiv> tr_key_id r = kid"

definition getRecord :: "string \<Rightarrow> totp_file \<Rightarrow> TotpRecord option res" where
  "getRecord kid f = map_sum (\<lambda>e. e) (find (for_key kid)) (totp_readStore f)"

definition isEnrolled :: "string \<Rightarrow> totp_file \<Rightarrow> bool res" where
  "isEnrolled kid f = map_sum (\<lambda>e. e) (\<lambda>r. r \<noteq> None) (getRecord kid f)"

definition new_enrollment :: "string \<Rightarrow> string \<Rightarrow> int \<Rightarrow> TotpRecord" where
  "new_enrollment kid secret now =
     \<lparr>tr_key_id = kid, tr_secret = secret, tr_created_at = toISOString now, tr_confirmed_at = None,
      tr_last_verified_at = None, tr_last_step = None, tr_recovery = []\<rparr>"

record EnrollmentInit =
  en_key_id :: string
  en_secret :: string
  en_otpauth_uri :: string
  en_digits :: nat
  en_step_seconds :: int

text \<open>\<^verbatim>\<open>encodeURIComponent\<close>: every byte of the UTF-8 form that is not unreserved becomes \<^verbatim>\<open>%XX\<close>.\<close>

definition utf8 :: "char \<Rightarrow> int list" where
  "utf8 c = (let n = int (of_char c) in if n < 128 then [n] else [192 + n div 64, 128 + n mod 64])"

definition encodeURIComponent :: "string \<Rightarrow> string" where
  "encodeURIComponent s =
     concat (map (\<lambda>c. if is_digit c \<or> is_lower c \<or> is_upper c \<or> c \<in> set ''-_.!~*'()'' then [c]
       else concat (map (\<lambda>n. CHR ''%'' # toUpperCase (fixed_digits 16 2 n)) (utf8 c))) s)"

definition otpauth_uri :: "string \<Rightarrow> string \<Rightarrow> string" where
  "otpauth_uri account secret =
     ''otpauth://totp/'' @ encodeURIComponent ''signalclaw'' @ '':'' @ encodeURIComponent account
     @ ''?secret='' @ secret @ ''&issuer='' @ encodeURIComponent ''signalclaw''
     @ ''&algorithm=SHA1&digits='' @ dec_str (int TOTP_DIGITS) @ ''&period='' @ dec_str TOTP_STEP_SECONDS"

text \<open>The random bytes of the secret are an argument.\<close>

definition startEnrollment :: "byte list \<Rightarrow> int \<Rightarrow> string \<Rightarrow> string \<Rightarrow> totp_file \<Rightarrow> EnrollmentInit res \<times> totp_file" where
  "startEnrollment rnd now kid label f =
     (case totp_readStore f of
        Inl e \<Rightarrow> (Inl e, f)
      | Inr rs \<Rightarrow>
          (let secret = base32Encode rnd; rec = new_enrollment kid secret now
           in (Inr \<lparr>en_key_id = kid, en_secret = secret,
                   en_otpauth_uri = otpauth_uri (if label = [] then kid else label) secret,
                   en_digits = TOTP_DIGITS, en_step_seconds = TOTP_STEP_SECONDS\<rparr>,
               totp_writeStore (if find (for_key kid) rs = None then rs @ [rec] else upd_first (for_key kid) (\<lambda>_. rec) rs) f)))"

definition mark_verified :: "int \<Rightarrow> int \<Rightarrow> TotpRecord \<Rightarrow> TotpRecord" where
  "mark_verified step nowMs rec =
     rec\<lparr>tr_last_step := Some step, tr_last_verified_at := Some (toISOString nowMs),
         tr_confirmed_at := (if truthy (tr_confirmed_at rec) then tr_confirmed_at rec else Some (toISOString nowMs))\<rparr>"

text \<open>
  \<^verbatim>\<open>await readStore()\<close> and \<^verbatim>\<open>await writeStore(s)\<close> are separate: \<open>verify_decide\<close> and \<open>recovery_decide\<close> are what happens in between, from the rows
  read to the answer and the rows to write, if any.
\<close>

definition totp_step :: "(TotpRecord list \<Rightarrow> 'r \<times> TotpRecord list option) \<Rightarrow> totp_file \<Rightarrow> 'r res \<times> totp_file" where
  "totp_step decide f =
     (case totp_readStore f of
        Inl e \<Rightarrow> (Inl e, f)
      | Inr rs \<Rightarrow> (case decide rs of (r, next) \<Rightarrow> (Inr r, case next of None \<Rightarrow> f | Some rs' \<Rightarrow> totp_writeStore rs' f)))"

definition verify_decide :: "hmac_sha1 \<Rightarrow> string \<Rightarrow> string \<Rightarrow> int \<Rightarrow> TotpRecord list \<Rightarrow> VerifyResult \<times> TotpRecord list option" where
  "verify_decide hmac kid code nowMs rs =
     (case verifyCodeAgainst hmac (find (for_key kid) rs) code nowMs of
        Verified step \<Rightarrow> (Verified step, Some (upd_first (for_key kid) (mark_verified step nowMs) rs))
      | Rejected why \<Rightarrow> (Rejected why, None))"

definition verifyAndMark :: "hmac_sha1 \<Rightarrow> string \<Rightarrow> string \<Rightarrow> int \<Rightarrow> totp_file \<Rightarrow> VerifyResult res \<times> totp_file" where
  "verifyAndMark hmac kid code nowMs = totp_step (verify_decide hmac kid code nowMs)"

section \<open>Recovery codes\<close>

definition RECOVERY_CODE_COUNT :: nat where "RECOVERY_CODE_COUNT = 10"

definition RECOVERY_ALPHA :: string where
  "RECOVERY_ALPHA = ''ABCDEFGHJKLMNPQRSTUVWXYZ23456789''"

text \<open>A draw is the result of \<^verbatim>\<open>crypto.randomBytes(10)\<close>.\<close>

definition dashed :: "string \<Rightarrow> string" where
  "dashed s = take 5 s @ ''-'' @ drop 5 s"

definition randomRecoveryCode :: "byte list \<Rightarrow> string" where
  "randomRecoveryCode buf = dashed (map (\<lambda>b. RECOVERY_ALPHA ! (unat b mod length RECOVERY_ALPHA)) (take 10 buf))"

definition normalizeRecoveryCode :: "string \<Rightarrow> string" where
  "normalizeRecoveryCode s = filter (\<lambda>c. is_upper c \<or> is_digit c) (toUpperCase s)"

text \<open>The loop draws until it has ten distinct codes; \<open>None\<close> when the draws given to it run out.\<close>

fun draw_codes :: "string list \<Rightarrow> byte list list \<Rightarrow> string list option" where
  "draw_codes codes draws =
     (if RECOVERY_CODE_COUNT \<le> length codes then Some codes
      else case draws of
             [] \<Rightarrow> None
           | buf # draws \<Rightarrow>
               let c = randomRecoveryCode buf
               in if c \<in> set codes then draw_codes codes draws else draw_codes (codes @ [c]) draws)"

declare draw_codes.simps [simp del]

definition regenerateRecoveryCodes ::
  "host \<Rightarrow> byte list list \<Rightarrow> string \<Rightarrow> totp_file \<Rightarrow> (string list \<times> nat) option res option \<times> totp_file" where
  "regenerateRecoveryCodes H draws kid f =
     (case totp_readStore f of
        Inl e \<Rightarrow> (Some (Inl e), f)
      | Inr rs \<Rightarrow>
          (case find (for_key kid) rs of
             None \<Rightarrow> (Some (Inr None), f)
           | Some rec \<Rightarrow>
               if \<not> truthy (tr_confirmed_at rec) then (Some (Inr None), f)
               else (case draw_codes [] draws of
                       None \<Rightarrow> (None, f)
                     | Some codes \<Rightarrow>
                         (Some (Inr (Some (codes, length codes))),
                          totp_writeStore (upd_first (for_key kid) (\<lambda>r. r\<lparr>tr_recovery := map (host_sha256 H) codes\<rparr>) rs) f))))"

fun first_hit :: "string \<Rightarrow> string list \<Rightarrow> nat \<Rightarrow> nat option \<Rightarrow> nat option" where
  "first_hit wanted [] i hit = hit"
| "first_hit wanted (s # ss) i hit =
     first_hit wanted ss (Suc i) (if ctEq s wanted \<and> hit = None then Some i else hit)"

definition splice1 :: "nat \<Rightarrow> 'a list \<Rightarrow> 'a list" where
  "splice1 i xs = take i xs @ drop (Suc i) xs"

definition burn_code :: "nat \<Rightarrow> int \<Rightarrow> TotpRecord \<Rightarrow> TotpRecord" where
  "burn_code i now r = r\<lparr>tr_recovery := splice1 i (tr_recovery r), tr_last_verified_at := Some (toISOString now)\<rparr>"

definition recovery_decide :: "host \<Rightarrow> int \<Rightarrow> string \<Rightarrow> string \<Rightarrow> TotpRecord list \<Rightarrow> (bool \<times> nat) \<times> TotpRecord list option" where
  "recovery_decide H now kid candidate rs =
     (case find (for_key kid) rs of
        None \<Rightarrow> ((False, 0), None)
      | Some rec \<Rightarrow>
          (let n = normalizeRecoveryCode candidate; left = length (tr_recovery rec) in
           if length n \<noteq> 10 then ((False, left), None)
           else case first_hit (host_sha256 H (dashed n)) (tr_recovery rec) 0 None of
                  None \<Rightarrow> ((False, left), None)
                | Some i \<Rightarrow> ((True, left - 1), Some (upd_first (for_key kid) (burn_code i now) rs))))"

definition consumeRecoveryCode :: "host \<Rightarrow> int \<Rightarrow> string \<Rightarrow> string \<Rightarrow> totp_file \<Rightarrow> (bool \<times> nat) res \<times> totp_file" where
  "consumeRecoveryCode H now kid candidate = totp_step (recovery_decide H now kid candidate)"

text \<open>Two calls of which both read before either writes; the second write prevails.\<close>

definition totp_overlap ::
  "(TotpRecord list \<Rightarrow> 'r \<times> TotpRecord list option) \<Rightarrow> (TotpRecord list \<Rightarrow> 'r \<times> TotpRecord list option) \<Rightarrow> totp_file \<Rightarrow> ('r \<times> 'r \<times> totp_file) option" where
  "totp_overlap d1 d2 f =
     (case totp_readStore f of
        Inl e \<Rightarrow> None
      | Inr rs \<Rightarrow>
          (let write = (\<lambda>next f. case next of None \<Rightarrow> f | Some rs' \<Rightarrow> totp_writeStore rs' f)
           in Some (fst (d1 rs), fst (d2 rs), write (snd (d2 rs)) (write (snd (d1 rs)) f))))"

definition recoveryCodesRemaining :: "string \<Rightarrow> totp_file \<Rightarrow> nat res" where
  "recoveryCodesRemaining kid f =
     map_sum (\<lambda>e. e) (\<lambda>r. case r of None \<Rightarrow> 0 | Some r \<Rightarrow> length (tr_recovery r)) (getRecord kid f)"

definition totp_disable :: "string \<Rightarrow> totp_file \<Rightarrow> bool res \<times> totp_file" where
  "totp_disable kid f =
     (case totp_readStore f of
        Inl e \<Rightarrow> (Inl e, f)
      | Inr rs \<Rightarrow>
          (let rs' = filter (\<lambda>r. \<not> for_key kid r) rs in
           if length rs' = length rs then (Inr False, f) else (Inr True, totp_writeStore rs' f)))"

record TotpStatus =
  ts_key_id :: string
  ts_enrolled :: bool
  ts_pending :: bool
  ts_last_verified_at :: "string option"
  ts_created_at :: "string option"
  ts_remaining :: nat

definition statusFor :: "string \<Rightarrow> totp_file \<Rightarrow> TotpStatus res" where
  "statusFor kid f =
     map_sum (\<lambda>e. e) (\<lambda>r. case r of
         None \<Rightarrow> \<lparr>ts_key_id = kid, ts_enrolled = False, ts_pending = False, ts_last_verified_at = None,
                  ts_created_at = None, ts_remaining = 0\<rparr>
       | Some r \<Rightarrow> \<lparr>ts_key_id = kid, ts_enrolled = (tr_confirmed_at r \<noteq> None), ts_pending = (tr_confirmed_at r = None),
                    ts_last_verified_at = tr_last_verified_at r, ts_created_at = Some (tr_created_at r),
                    ts_remaining = length (tr_recovery r)\<rparr>) (getRecord kid f)"

definition isFullyEnrolled :: "string \<Rightarrow> totp_file \<Rightarrow> bool res" where
  "isFullyEnrolled kid f =
     map_sum (\<lambda>e. e) (\<lambda>r. case r of None \<Rightarrow> False | Some r \<Rightarrow> tr_confirmed_at r \<noteq> None) (getRecord kid f)"

section \<open>Codes are well-formed\<close>

lemma ctEq_iff [simp]: "ctEq a b \<longleftrightarrow> a = b"
  by (auto simp: ctEq_def list_all2_eq[symmetric])

lemma bit_and_127: "bit (v AND 0x7F :: 32 word) i \<Longrightarrow> i < 7"
proof -
  have "v AND 0x7F = take_bit 7 v" by (simp add: take_bit_eq_mask mask_eq_exp_minus_1)
  then show "bit (v AND 0x7F) i \<Longrightarrow> i < 7" by (simp add: bit_take_bit_iff)
qed

lemma bit_and_255: "bit (v AND 0xFF :: 32 word) i \<Longrightarrow> i < 8"
  by (simp only: and_255 bit_take_bit_iff)

lemma truncate_digest_sign: "\<not> bit (truncate_digest h) 31"
proof -
  have "\<not> bit (v AND 0x7F :: 32 word) (31 - 24)" "\<not> bit (v AND 0xFF :: 32 word) (31 - 16)"
    "\<not> bit (v AND 0xFF :: 32 word) (31 - 8)" "\<not> bit (v AND 0xFF :: 32 word) 31" for v
    using bit_and_127[of v 7] bit_and_255[of v 15] bit_and_255[of v 23] bit_and_255[of v 31] by auto
  then show ?thesis unfolding truncate_digest_def Let_def bit_or_iff bit_push_bit_iff by blast
qed

lemma truncate_digest_nonneg: "0 \<le> sint (truncate_digest h)"
proof -
  have "sint (truncate_digest h) = signed_take_bit 31 (uint (truncate_digest h))"
    by (simp add: sint_uint)
  also have "\<dots> = take_bit 31 (uint (truncate_digest h))"
    by (rule signed_take_bit_eq_if_positive) (use truncate_digest_sign in \<open>simp add: bit_uint_iff\<close>)
  finally show ?thesis by simp
qed

lemma totp_code_format: "totpAtStep hmac secret step = Inr code \<Longrightarrow> code_format code"
proof -
  define k where "k = js_rem (sint (truncate_digest (hmac (projr (base32Decode secret)) (be_counter 8 step)))) (10 ^ TOTP_DIGITS)"
  assume "totpAtStep hmac secret step = Inr code"
  then have c: "code = padStart0 6 (dec_str k)" by (auto simp: totpAtStep_def k_def TOTP_DIGITS_def split: sum.splits)
  have k: "0 \<le> k" "k < 10 ^ 6"
    using js_rem_nonneg[OF truncate_digest_nonneg, of "10 ^ TOTP_DIGITS"] by (auto simp: k_def TOTP_DIGITS_def)
  moreover have "is_digit (CHR ''0'')" by (simp add: is_digit_def)
  ultimately show ?thesis
    using numeral_str_set[of 10 k is_digit] numeral_str_length[of 10 k 6] k
    by (auto simp: code_format_def c padStart0_def list_all_iff)
qed

section \<open>Replay\<close>

lemma verify_steps_Verified:
  "verify_steps hmac rec code steps = Verified s \<Longrightarrow>
     s \<in> set steps \<and> totpAtStep hmac (tr_secret rec) s = Inr code \<and> (\<forall>l. tr_last_step rec = Some l \<longrightarrow> l < s)"
  by (induction steps) (auto split: sum.splits if_splits option.splits)

lemma verify_steps_accepts:
  "\<lbrakk>s \<in> set steps; totpAtStep hmac (tr_secret rec) s = Inr code; \<forall>l. tr_last_step rec = Some l \<longrightarrow> (\<forall>t\<in>set steps. l < t)\<rbrakk>
   \<Longrightarrow> \<exists>t\<in>set steps. verify_steps hmac rec code steps = Verified t"
proof (induction steps)
  case Nil
  then show ?case by simp
next
  case (Cons a steps)
  obtain x where x: "totpAtStep hmac (tr_secret rec) a = Inr x"
    using Cons.prems(2) by (auto simp: totpAtStep_def split: sum.splits)
  with Cons show ?case by (cases "tr_last_step rec") auto
qed

lemma window_steps:
  "set (map (\<lambda>d. currentStep now + d) [- TOTP_TOLERANCE_STEPS .. TOTP_TOLERANCE_STEPS])
   = {currentStep now - 1 .. currentStep now + 1}"
  by (auto simp: TOTP_TOLERANCE_STEPS_def image_iff)

lemma verifyAndMark_eq:
  "verifyAndMark hmac kid code nowMs f =
     (case totp_readStore f of
        Inl e \<Rightarrow> (Inl e, f)
      | Inr rs \<Rightarrow>
          (case verifyCodeAgainst hmac (find (for_key kid) rs) code nowMs of
             Verified step \<Rightarrow> (Inr (Verified step), totp_writeStore (upd_first (for_key kid) (mark_verified step nowMs) rs) f)
           | Rejected why \<Rightarrow> (Inr (Rejected why), f)))"
  by (simp add: verifyAndMark_def totp_step_def verify_decide_def split: sum.split VerifyResult.split)

lemma consumeRecoveryCode_eq:
  "consumeRecoveryCode H now kid candidate f =
     (case totp_readStore f of
        Inl e \<Rightarrow> (Inl e, f)
      | Inr rs \<Rightarrow>
          (case find (for_key kid) rs of
             None \<Rightarrow> (Inr (False, 0), f)
           | Some rec \<Rightarrow>
               (let n = normalizeRecoveryCode candidate; left = length (tr_recovery rec) in
                if length n \<noteq> 10 then (Inr (False, left), f)
                else case first_hit (host_sha256 H (dashed n)) (tr_recovery rec) 0 None of
                       None \<Rightarrow> (Inr (False, left), f)
                     | Some i \<Rightarrow> (Inr (True, left - 1), totp_writeStore (upd_first (for_key kid) (burn_code i now) rs) f))))"
  by (simp add: consumeRecoveryCode_def totp_step_def recovery_decide_def Let_def split: sum.split option.split)

text \<open>The overlap, in general: if a call alone gives its answer, two that both read first give it twice.\<close>

lemma overlap_both: "fst (totp_step d f) = Inr r \<Longrightarrow> \<exists>f'. totp_overlap d d f = Some (r, r, f')"
  by (auto simp: totp_step_def totp_overlap_def Let_def split: sum.splits prod.splits)

datatype totp_op =
    T_verify string string int
  | T_consume string string int
  | T_regenerate string "byte list list"
  | T_enroll string string "byte list" int
  | T_disable string

text \<open>One operation on the store, with the step it accepted.\<close>

fun totp_exec :: "host \<Rightarrow> hmac_sha1 \<Rightarrow> totp_op \<Rightarrow> totp_file \<Rightarrow> (string \<times> int) option \<times> totp_file" where
  "totp_exec H hmac (T_verify kid code now) f =
     (case verifyAndMark hmac kid code now f of
        (Inr (Verified s), f') \<Rightarrow> (Some (kid, s), f') | (_, f') \<Rightarrow> (None, f'))"
| "totp_exec H hmac (T_consume kid cand now) f = (None, snd (consumeRecoveryCode H now kid cand f))"
| "totp_exec H hmac (T_regenerate kid draws) f = (None, snd (regenerateRecoveryCodes H draws kid f))"
| "totp_exec H hmac (T_enroll kid label rnd now) f = (None, snd (startEnrollment rnd now kid label f))"
| "totp_exec H hmac (T_disable kid) f = (None, snd (totp_disable kid f))"

fun accepted_steps :: "host \<Rightarrow> hmac_sha1 \<Rightarrow> string \<Rightarrow> totp_op list \<Rightarrow> totp_file \<Rightarrow> int list" where
  "accepted_steps H hmac kid [] f = []"
| "accepted_steps H hmac kid (p # ps) f =
     (case totp_exec H hmac p f of
        (a, f') \<Rightarrow> (case a of Some (k, s) \<Rightarrow> if k = kid then [s] else [] | None \<Rightarrow> []) @ accepted_steps H hmac kid ps f')"

fun resets :: "string \<Rightarrow> totp_op \<Rightarrow> bool" where
  "resets kid (T_enroll k _ _ _) = (k = kid)"
| "resets kid (T_disable k) = (k = kid)"
| "resets kid _ = False"

definition last_of :: "string \<Rightarrow> totp_file \<Rightarrow> int option" where
  "last_of kid f = (case getRecord kid f of Inr (Some r) \<Rightarrow> tr_last_step r | _ \<Rightarrow> None)"

text \<open>\<open>before x y\<close>: the recorded step \<open>x\<close> lies before \<open>y\<close>.\<close>

abbreviation before :: "int option \<Rightarrow> int \<Rightarrow> bool" where
  "before x s \<equiv> (case x of None \<Rightarrow> True | Some l \<Rightarrow> l < s)"

lemma find_upd_first_other:
  "\<lbrakk>kid \<noteq> k; \<And>r. tr_key_id (g r) = tr_key_id r\<rbrakk> \<Longrightarrow> find (for_key kid) (upd_first (for_key k) g rs) = find (for_key kid) rs"
  by (induction rs) auto

lemma find_upd_first_key:
  "(\<And>r. tr_key_id (g r) = tr_key_id r) \<Longrightarrow> find (for_key k) (upd_first (for_key k) g rs) = map_option g (find (for_key k) rs)"
  by (induction rs) auto

lemma find_filter_other: "kid \<noteq> k \<Longrightarrow> find (for_key kid) (filter (\<lambda>r. \<not> for_key k r) rs) = find (for_key kid) rs"
  by (induction rs) auto

lemma new_enrollment_key [simp]: "tr_key_id (new_enrollment k sec now) = k"
  by (simp add: new_enrollment_def)

lemma find_enroll_other:
  "kid \<noteq> k \<Longrightarrow> find (for_key kid) (rs @ [new_enrollment k sec now]) = find (for_key kid) rs"
  "kid \<noteq> k \<Longrightarrow> find (for_key kid) (upd_first (for_key k) (\<lambda>_. new_enrollment k sec now) rs) = find (for_key kid) rs"
  by (induction rs) auto

lemmas totp_store_simps = totp_readStore_def totp_writeStore_def getRecord_def

lemma totp_exec_last:
  assumes "\<not> resets kid p" "totp_exec H hmac p f = (a, f')"
  shows "last_of kid f' = (case a of Some (k, s) \<Rightarrow> if k = kid then Some s else last_of kid f | None \<Rightarrow> last_of kid f)"
    and "a = Some (kid, s) \<Longrightarrow> before (last_of kid f) s"
proof -
  have keep: "tr_key_id (mark_verified x n r) = tr_key_id r" "tr_key_id (burn_code i n r) = tr_key_id r"
    "tr_last_step (burn_code i n r) = tr_last_step r" "tr_last_step (mark_verified x n r) = Some x" for x n r i
    by (simp_all add: mark_verified_def burn_code_def)
  show "last_of kid f' = (case a of Some (k, s) \<Rightarrow> if k = kid then Some s else last_of kid f | None \<Rightarrow> last_of kid f)"
  proof (cases p)
    case (T_verify k c n)
    then show ?thesis using assms
      by (cases "k = kid")
         (auto simp: verifyAndMark_eq last_of_def totp_store_simps find_upd_first_key find_upd_first_other keep
             verifyCodeAgainst_def split: cast_file.splits sum.splits option.splits VerifyResult.splits if_splits)
  next
    case (T_consume k c n)
    then show ?thesis using assms
      by (cases "k = kid")
         (auto simp: consumeRecoveryCode_eq last_of_def totp_store_simps find_upd_first_key find_upd_first_other keep Let_def
             split: cast_file.splits option.splits if_splits)
  next
    case (T_regenerate k c)
    then show ?thesis using assms
      by (cases "k = kid")
         (auto simp: regenerateRecoveryCodes_def last_of_def totp_store_simps find_upd_first_key find_upd_first_other keep Let_def
             split: cast_file.splits option.splits if_splits)
  next
    case (T_enroll k l r n)
    then show ?thesis using assms
      by (auto simp: startEnrollment_def last_of_def totp_store_simps find_enroll_other Let_def split: cast_file.splits)
  next
    case (T_disable k)
    then show ?thesis using assms
      by (auto simp: totp_disable_def last_of_def totp_store_simps find_filter_other Let_def split: cast_file.splits if_splits)
  qed
  show "before (last_of kid f) s" if "a = Some (kid, s)"
    using assms that
    by (cases p) (auto simp: verifyAndMark_eq last_of_def totp_store_simps verifyCodeAgainst_def
        split: cast_file.splits sum.splits option.splits VerifyResult.splits if_splits dest!: verify_steps_Verified)
qed

lemma accepted_steps_increase:
  "list_all (\<lambda>p. \<not> resets kid p) ps \<Longrightarrow>
     sorted_wrt (<) (accepted_steps H hmac kid ps f) \<and> list_all (before (last_of kid f)) (accepted_steps H hmac kid ps f)"
proof (induction ps arbitrary: f)
  case Nil
  then show ?case by simp
next
  case (Cons p ps)
  obtain a f' where e: "totp_exec H hmac p f = (a, f')" by fastforce
  have p: "\<not> resets kid p" and IH: "sorted_wrt (<) (accepted_steps H hmac kid ps f')"
      "list_all (before (last_of kid f')) (accepted_steps H hmac kid ps f')"
    using Cons by auto
  show ?case
  proof (cases "\<exists>s. a = Some (kid, s)")
    case True
    then obtain s where s: "a = Some (kid, s)" by blast
    have "last_of kid f' = Some s" using totp_exec_last(1)[OF p e] s by simp
    with IH totp_exec_last(2)[OF p e s] s show ?thesis
      by (cases "last_of kid f") (auto simp: e list_all_iff)
  next
    case False
    then have "last_of kid f' = last_of kid f" using totp_exec_last(1)[OF p e] by (auto split: option.splits)
    with IH False show ?thesis by (auto simp: e split: option.splits)
  qed
qed

text \<open>C4: In calls that do not overlap a code is accepted for a step at most once: as long as a key is neither enrolled anew nor disabled,
  whatever codes are tried at whatever times, between whatever uses of recovery codes and of other keys, the steps accepted for it strictly increase.\<close>

theorem totp_steps_strictly_increase:
  assumes "list_all (\<lambda>p. \<not> resets kid p) ops"
  shows "sorted_wrt (<) (accepted_steps H hmac kid ops f)"
  using accepted_steps_increase[OF assms] by blast

text \<open>Overlapping calls escape this: a code that a single call accepts is accepted twice, for the same step, by two calls that both read the store
  before either has written it; and so is a recovery code.\<close>

theorem overlapping_factors_accepted_twice:
  "(fst (verifyAndMark hmac kid code now f) = Inr (Verified s)
      \<longrightarrow> (\<exists>f'. totp_overlap (verify_decide hmac kid code now) (verify_decide hmac kid code now) f = Some (Verified s, Verified s, f')))
   \<and> (fst (consumeRecoveryCode H now kid cand f) = Inr (True, n)
      \<longrightarrow> (\<exists>f'. totp_overlap (recovery_decide H now kid cand) (recovery_decide H now kid cand) f = Some ((True, n), (True, n), f')))"
  unfolding verifyAndMark_def consumeRecoveryCode_def by (intro conjI impI overlap_both)

definition toy_hmac :: hmac_sha1 where
  "toy_hmac k m = [0, 0, 0, last m, 0]"

definition toy_secret :: string where
  "toy_secret = base32Encode [1, 2]"

lemma toy_codes:
  "totpAtStep toy_hmac toy_secret 5 = Inr ''000005''" "totpAtStep toy_hmac toy_secret 6 = Inr ''000006''"
  by code_simp+

theorem totp_steps_strictly_increase_witness:
  "sorted_wrt (<) (accepted_steps sample_host toy_hmac ''k''
     [T_enroll ''j'' [] [3] 0, T_verify ''k'' ''000005'' 150000, T_verify ''k'' ''000005'' 150000, T_verify ''k'' ''000006'' 180000]
     (Stored [new_enrollment ''k'' toy_secret 0]))"
  by (rule totp_steps_strictly_increase) simp

theorem overlapping_factors_accepted_twice_witness:
  "\<exists>f'. totp_overlap (verify_decide toy_hmac ''k'' ''000005'' 150000) (verify_decide toy_hmac ''k'' ''000005'' 150000)
      (Stored [new_enrollment ''k'' toy_secret 0]) = Some (Verified 5, Verified 5, f')"
proof -
  have "fst (verifyAndMark toy_hmac ''k'' ''000005'' 150000 (Stored [new_enrollment ''k'' toy_secret 0])) = Inr (Verified 5)" by code_simp
  with overlapping_factors_accepted_twice[of toy_hmac "''k''" "''000005''" 150000 "Stored [new_enrollment ''k'' toy_secret 0]" 5] show ?thesis by blast
qed

lemma toy_run:
  "accepted_steps sample_host toy_hmac ''k''
     [T_verify ''k'' ''000005'' 150000, T_verify ''k'' ''000005'' 150000, T_verify ''k'' ''000006'' 180000]
     (Stored [new_enrollment ''k'' toy_secret 0]) = [5, 6]"
  by code_simp

lemma startEnrollment_stored:
  assumes "startEnrollment rnd now kid label f = (Inr en, f1)"
  obtains rs where "f1 = Stored rs" "find (for_key kid) rs = Some (new_enrollment kid (base32Encode rnd) now)"
    "en_secret en = base32Encode rnd"
proof -
  let ?rec = "new_enrollment kid (base32Encode rnd) now"
  obtain rs0 where rs0: "totp_readStore f = Inr rs0"
    using assms by (cases "totp_readStore f") (auto simp: startEnrollment_def)
  let ?rs = "if find (for_key kid) rs0 = None then rs0 @ [?rec] else upd_first (for_key kid) (\<lambda>_. ?rec) rs0"
  have "find (for_key kid) ?rs = Some ?rec"
    using find_snoc[of "for_key kid" rs0 ?rec] find_upd_first_same[of "for_key kid" rs0 _ "\<lambda>_. ?rec"]
    by (cases "find (for_key kid) rs0") simp_all
  moreover have "f1 = Stored ?rs" "en_secret en = base32Encode rnd"
    using assms by (auto simp: startEnrollment_def Let_def rs0 totp_writeStore_def)
  ultimately show thesis by (intro that[of ?rs])
qed

text \<open>Enrollment completes: the code an authenticator computes from the secret of the enrollment, at a time
  whose step is within one step of the server's, confirms the enrollment.\<close>

theorem enrollment_completes:
  assumes "startEnrollment rnd now0 kid label f = (Inr en, f1)"
    and "totpAtStep hmac (en_secret en) step = Inr code" "\<bar>step - currentStep now\<bar> \<le> 1"
  shows "\<exists>s f2. verifyAndMark hmac kid code now f1 = (Inr (Verified s), f2) \<and> \<bar>s - currentStep now\<bar> \<le> 1
    \<and> isFullyEnrolled kid f2 = Inr True"
proof -
  define rec where "rec = new_enrollment kid (base32Encode rnd) now0"
  from assms(1) obtain rs where rs: "f1 = Stored rs" "find (for_key kid) rs = Some rec" and en: "en_secret en = tr_secret rec"
    by (rule startEnrollment_stored) (simp add: rec_def new_enrollment_def)
  have "tr_last_step rec = None" and c: "tr_confirmed_at rec = None" by (simp_all add: rec_def new_enrollment_def)
  with assms(2,3) en obtain s where s: "\<bar>s - currentStep now\<bar> \<le> 1"
      "verify_steps hmac rec code (map (\<lambda>d. currentStep now + d) [- TOTP_TOLERANCE_STEPS .. TOTP_TOLERANCE_STEPS]) = Verified s"
    using verify_steps_accepts[of step "map (\<lambda>d. currentStep now + d) [- TOTP_TOLERANCE_STEPS .. TOTP_TOLERANCE_STEPS]" hmac rec code]
    unfolding window_steps by (auto simp: abs_le_iff)
  then show ?thesis
    using totp_code_format[OF assms(2)] rs c
    by (auto simp: verifyAndMark_eq verifyCodeAgainst_def isFullyEnrolled_def totp_store_simps find_upd_first_key mark_verified_def)
qed

theorem enrollment_completes_witness:
  "\<exists>s f2. verifyAndMark toy_hmac ''k'' ''000005'' 180000
      (snd (startEnrollment [1, 2] 0 ''k'' ''ci'' NoFile)) = (Inr (Verified s), f2)
    \<and> \<bar>s - currentStep 180000\<bar> \<le> 1 \<and> isFullyEnrolled ''k'' f2 = Inr True"
  by (rule enrollment_completes[of "[1, 2]" 0 "''k''" "''ci''" NoFile, where step = 5])
     (auto simp: startEnrollment_def Let_def totp_readStore_def toy_codes(1)[unfolded toy_secret_def]
        currentStep_def TOTP_STEP_SECONDS_def)

section \<open>Recovery codes are single-use\<close>

lemma first_hit_done: "first_hit w ss i (Some j) = Some j"
  by (induction ss arbitrary: i) auto

lemma first_hit_remove:
  "(case first_hit w ss i None of None \<Rightarrow> w \<notin> set ss
    | Some j \<Rightarrow> w \<in> set ss \<and> i \<le> j \<and> splice1 (j - i) ss = remove1 w ss)"
proof (induction ss arbitrary: i)
  case Nil
  then show ?case by simp
next
  case (Cons s ss)
  show ?case
  proof (cases "s = w")
    case True
    then show ?thesis by (simp add: first_hit_done splice1_def)
  next
    case False
    show ?thesis
    proof (cases "first_hit w ss (Suc i) None")
      case None
      with Cons.IH[of "Suc i"] False show ?thesis by simp
    next
      case (Some j)
      then have "w \<in> set ss" "Suc i \<le> j" "splice1 (j - Suc i) ss = remove1 w ss" using Cons.IH[of "Suc i"] by auto
      moreover then obtain d where "j = Suc i + d" using le_Suc_ex by blast
      ultimately show ?thesis using Some False by (simp add: splice1_def)
    qed
  qed
qed

lemma draw_codes_dedup:
  "length codes \<le> RECOVERY_CODE_COUNT \<Longrightarrow> draw_codes codes draws =
     (let xs = codes @ dedup_acc (rev codes) (map randomRecoveryCode draws)
      in if RECOVERY_CODE_COUNT \<le> length xs then Some (take RECOVERY_CODE_COUNT xs) else None)"
proof (induction draws arbitrary: codes)
  case Nil
  then show ?case by (subst draw_codes.simps) (simp add: Let_def)
next
  case (Cons b draws)
  show ?case
  proof (cases "RECOVERY_CODE_COUNT \<le> length codes")
    case True
    with Cons.prems show ?thesis by (subst draw_codes.simps) (simp add: Let_def)
  next
    case False
    with Cons.IH[of codes] Cons.IH[of "codes @ [randomRecoveryCode b]"] show ?thesis
      by (subst draw_codes.simps) (simp add: Let_def)
  qed
qed

text \<open>The loop of \<^verbatim>\<open>regenerateRecoveryCodes\<close> ends as soon as ten different codes were drawn, and
  returns the first ten of them.\<close>

theorem draw_codes_first_ten:
  "draw_codes [] draws =
     (let xs = dedup (map randomRecoveryCode draws) in if 10 \<le> length xs then Some (take 10 xs) else None)"
  using draw_codes_dedup[of "[]" draws] by (simp add: dedup_def RECOVERY_CODE_COUNT_def Let_def)

lemma recovery_alpha: "length RECOVERY_ALPHA = 32" "\<forall>c\<in>set RECOVERY_ALPHA. c \<noteq> CHR 0xDF \<and> to_upper_char c = c \<and> (is_upper c \<or> is_digit c)"
  by (simp_all add: RECOVERY_ALPHA_def to_upper_char_def Let_def is_lower_def is_upper_def is_digit_def)

lemma normalize_plain:
  assumes "\<forall>c\<in>set s. c \<noteq> CHR 0xDF \<and> to_upper_char c = c \<and> (is_upper c \<or> is_digit c)"
  shows "normalizeRecoveryCode s = s"
proof -
  have "map (\<lambda>c. if c = CHR 0xDF then ''SS'' else [to_upper_char c]) s = map (\<lambda>c. [c]) s" using assms by simp
  then have "toUpperCase s = s" by (simp only: toUpperCase_def concat_map_singleton map_ident)
  with assms show ?thesis by (simp add: normalizeRecoveryCode_def filter_id_conv)
qed

lemma normalize_append: "normalizeRecoveryCode (s @ t) = normalizeRecoveryCode s @ normalizeRecoveryCode t"
  by (simp add: normalizeRecoveryCode_def toUpperCase_def)

lemma normalize_dashed: "normalizeRecoveryCode (dashed s) = normalizeRecoveryCode s"
proof -
  have "normalizeRecoveryCode ''-'' = []"
    by (simp add: normalizeRecoveryCode_def toUpperCase_def to_upper_char_def Let_def is_lower_def is_upper_def is_digit_def)
  then have "normalizeRecoveryCode (take 5 s @ ''-'' @ drop 5 s) = normalizeRecoveryCode (take 5 s @ drop 5 s)"
    by (simp only: normalize_append append_Nil)
  then show ?thesis by (simp only: dashed_def append_take_drop_id)
qed

text \<open>A candidate in the form in which the codes are hashed.\<close>

definition canonical_code :: "string \<Rightarrow> string" where
  "canonical_code cand = dashed (normalizeRecoveryCode cand)"

lemma random_code_form:
  assumes "length buf = 10"
  shows "canonical_code (randomRecoveryCode buf) = randomRecoveryCode buf" "length (randomRecoveryCode buf) = 11"
proof -
  let ?s = "map (\<lambda>b. RECOVERY_ALPHA ! (unat b mod length RECOVERY_ALPHA)) (take 10 buf)"
  have "set ?s \<subseteq> set RECOVERY_ALPHA" using recovery_alpha(1) by (auto intro!: nth_mem)
  then have "normalizeRecoveryCode ?s = ?s" by (intro normalize_plain) (use recovery_alpha(2) in blast)
  then show "canonical_code (randomRecoveryCode buf) = randomRecoveryCode buf"
    by (simp add: canonical_code_def randomRecoveryCode_def normalize_dashed)
  show "length (randomRecoveryCode buf) = 11" using assms by (simp add: randomRecoveryCode_def dashed_def)
qed

fun consume_run :: "host \<Rightarrow> string \<Rightarrow> (int \<times> string) list \<Rightarrow> totp_file \<Rightarrow> bool res list" where
  "consume_run H kid [] f = []"
| "consume_run H kid ((now, cand) # cs) f =
     (case consumeRecoveryCode H now kid cand f of (r, f') \<Rightarrow> map_sum (\<lambda>e. e) fst r # consume_run H kid cs f')"

text \<open>The specification: a bag of codes from which each success takes one.\<close>

fun single_use :: "string list \<Rightarrow> string list \<Rightarrow> bool list" where
  "single_use codes [] = []"
| "single_use codes (c # cs) = (c \<in> set codes) # single_use (remove1 c codes) cs"

lemma remove1_map_inj: "inj_on g (insert x (set xs)) \<Longrightarrow> remove1 (g x) (map g xs) = map g (remove1 x xs)"
  by (induction xs) (auto simp: inj_on_def)

definition holds_codes :: "host \<Rightarrow> string \<Rightarrow> string list \<Rightarrow> totp_file \<Rightarrow> bool" where
  "holds_codes H kid codes f \<longleftrightarrow>
     (\<exists>rs rec. f = Stored rs \<and> find (for_key kid) rs = Some rec \<and> tr_recovery rec = map (host_sha256 H) codes)"

lemma consume_step:
  assumes "holds_codes H kid codes f" "list_all (\<lambda>c. length c = 11) codes"
    and inj: "inj_on (host_sha256 H) (insert (canonical_code cand) (set codes))"
  obtains n f' where "consumeRecoveryCode H now kid cand f = (Inr (canonical_code cand \<in> set codes, n), f')"
    "holds_codes H kid (remove1 (canonical_code cand) codes) f'"
proof -
  let ?c = "canonical_code cand"
  obtain rs rec where f: "f = Stored rs" "find (for_key kid) rs = Some rec" "tr_recovery rec = map (host_sha256 H) codes"
    using assms(1) by (auto simp: holds_codes_def)
  have len: "length ?c = Suc (length (normalizeRecoveryCode cand))" by (simp add: canonical_code_def dashed_def)
  have mem: "host_sha256 H ?c \<in> set (tr_recovery rec) \<longleftrightarrow> ?c \<in> set codes"
    using inj f(3) by (auto simp: inj_on_def)
  show thesis
  proof (cases "?c \<in> set codes")
    case True
    then have "length (normalizeRecoveryCode cand) = 10" using assms(2) len by (auto simp: list_all_iff)
    moreover obtain i where i: "first_hit (host_sha256 H ?c) (tr_recovery rec) 0 None = Some i"
        "splice1 i (tr_recovery rec) = map (host_sha256 H) (remove1 ?c codes)"
      using first_hit_remove[of "host_sha256 H ?c" "tr_recovery rec" 0] mem True remove1_map_inj[OF inj] f(3)
      by (cases "first_hit (host_sha256 H ?c) (tr_recovery rec) 0 None") auto
    ultimately show thesis using f True
      by (intro that[of "length (tr_recovery rec) - 1" "Stored (upd_first (for_key kid) (burn_code i now) rs)"])
         (auto simp: consumeRecoveryCode_eq totp_store_simps Let_def canonical_code_def holds_codes_def find_upd_first_key burn_code_def)
  next
    case False
    then have "first_hit (host_sha256 H ?c) (tr_recovery rec) 0 None = None"
      using first_hit_remove[of "host_sha256 H ?c" "tr_recovery rec" 0] mem
      by (cases "first_hit (host_sha256 H ?c) (tr_recovery rec) 0 None") auto
    with False f assms(1) show thesis
      by (intro that[of "length (tr_recovery rec)" f])
         (auto simp: consumeRecoveryCode_eq totp_store_simps Let_def canonical_code_def remove1_idem)
  qed
qed

lemma consume_run_single_use:
  "\<lbrakk>holds_codes H kid codes f; list_all (\<lambda>c. length c = 11) codes;
    inj_on (host_sha256 H) (set codes \<union> canonical_code ` snd ` set cs)\<rbrakk>
   \<Longrightarrow> consume_run H kid cs f = map Inr (single_use codes (map (canonical_code \<circ> snd) cs))"
proof (induction cs arbitrary: codes f)
  case Nil
  then show ?case by simp
next
  case (Cons p cs)
  obtain now cand where p: "p = (now, cand)" by fastforce
  have "inj_on (host_sha256 H) (insert (canonical_code cand) (set codes))"
    by (rule inj_on_subset[OF Cons.prems(3)]) (auto simp: p)
  with Cons.prems(1,2) obtain n f' where s: "consumeRecoveryCode H now kid cand f = (Inr (canonical_code cand \<in> set codes, n), f')"
      "holds_codes H kid (remove1 (canonical_code cand) codes) f'"
    by (rule consume_step)
  have "consume_run H kid cs f' = map Inr (single_use (remove1 (canonical_code cand) codes) (map (canonical_code \<circ> snd) cs))"
  proof (rule Cons.IH[OF s(2)])
    show "list_all (\<lambda>c. length c = 11) (remove1 (canonical_code cand) codes)"
      using Cons.prems(2) set_remove1_subset[of "canonical_code cand" codes] by (auto simp: list_all_iff)
    show "inj_on (host_sha256 H) (set (remove1 (canonical_code cand) codes) \<union> canonical_code ` snd ` set cs)"
      by (rule inj_on_subset[OF Cons.prems(3)]) (use set_remove1_subset[of "canonical_code cand" codes] in auto)
  qed
  with s(1) show ?case by (simp add: p comp_def)
qed

text \<open>C36: Recovery codes. After \<^verbatim>\<open>regenerateRecoveryCodes\<close> handed out its codes, any sequence of candidates,
  in calls that do not overlap, is answered exactly as by the bag of these codes: whatever its case and dashes, a candidate succeeds
  when it is a code that no earlier candidate of the sequence has used, and is refused otherwise. The hash is
  assumed to separate the codes and the candidates.\<close>

theorem recovery_codes_single_use:
  assumes "regenerateRecoveryCodes H draws kid f = (Some (Inr (Some (codes, n))), f')"
    and "list_all (\<lambda>b. length b = 10) draws"
    and "inj_on (host_sha256 H) (set codes \<union> canonical_code ` snd ` set cs)"
  shows "distinct codes \<and> length codes = 10
    \<and> consume_run H kid cs f' = map Inr (single_use codes (map (canonical_code \<circ> snd) cs))"
proof -
  from assms(1) obtain rs rec where rs: "totp_readStore f = Inr rs" "find (for_key kid) rs = Some rec"
      "draw_codes [] draws = Some codes"
      "f' = Stored (upd_first (for_key kid) (\<lambda>r. r\<lparr>tr_recovery := map (host_sha256 H) codes\<rparr>) rs)"
    by (auto simp: regenerateRecoveryCodes_def totp_writeStore_def split: sum.splits option.splits if_splits)
  have c: "codes = take 10 (dedup (map randomRecoveryCode draws))" "10 \<le> length (dedup (map randomRecoveryCode draws))"
    using rs(3) draw_codes_dedup[of "[]" draws] by (auto simp: dedup_def RECOVERY_CODE_COUNT_def Let_def split: if_splits)
  then have d: "distinct codes" "length codes = 10" by simp_all
  have "set codes \<subseteq> randomRecoveryCode ` set draws" using c(1) set_take_subset[of 10] by fastforce
  then have "list_all (\<lambda>c. length c = 11) codes"
    using assms(2) random_code_form(2) by (fastforce simp: list_all_iff)
  moreover have "holds_codes H kid codes f'" using rs(2,4) by (auto simp: holds_codes_def find_upd_first_key)
  ultimately show ?thesis using d consume_run_single_use assms(3) by blast
qed

definition toy_draws :: "byte list list" where
  "toy_draws = map (\<lambda>i. replicate 10 (word_of_nat i)) [0..<11]"

definition toy_codes10 :: "string list" where
  "toy_codes10 = map (\<lambda>c. dashed (replicate 10 c)) ''ABCDEFGHJK''"

definition toy_enrolled :: totp_file where
  "toy_enrolled = Stored [(new_enrollment ''k'' toy_secret 0)\<lparr>tr_confirmed_at := Some ''t''\<rparr>]"

lemma toy_regenerate: "fst (regenerateRecoveryCodes sample_host toy_draws ''k'' toy_enrolled) = Some (Inr (Some (toy_codes10, 10)))"
  by code_simp

theorem recovery_codes_single_use_witness:
  "consume_run sample_host ''k'' [(1, ''aaaaa-AAAAA''), (2, ''AAAAAAAAAA''), (3, ''bbbbb bbbbb''), (4, ''nope'')]
     (snd (regenerateRecoveryCodes sample_host toy_draws ''k'' toy_enrolled)) = map Inr [True, False, True, False]"
proof -
  let ?cs = "[(1::int, ''aaaaa-AAAAA''), (2, ''AAAAAAAAAA''), (3, ''bbbbb bbbbb''), (4, ''nope'')]"
  let ?r = "regenerateRecoveryCodes sample_host toy_draws ''k'' toy_enrolled"
  have "?r = (Some (Inr (Some (toy_codes10, 10))), snd ?r)"
    using toy_regenerate by (cases ?r) simp
  moreover have "list_all (\<lambda>b. length b = 10) toy_draws" by (simp add: toy_draws_def list_all_iff)
  moreover have "inj_on (host_sha256 sample_host) (set toy_codes10 \<union> canonical_code ` snd ` set ?cs)"
    by (simp add: inj_on_def sample_host_def)
  ultimately have "consume_run sample_host ''k'' ?cs (snd ?r) = map Inr (single_use toy_codes10 (map (canonical_code \<circ> snd) ?cs))"
    using recovery_codes_single_use by blast
  also have "single_use toy_codes10 (map (canonical_code \<circ> snd) ?cs) = [True, False, True, False]" by code_simp
  finally show ?thesis .
qed

end
