(* ===== verification/SsoSession.thy ===== *)
theory SsoSession
  imports JsonStore
begin

text \<open>
  Browser sessions of admins: the timeout policy (\<^verbatim>\<open>src/web/lib/sessionTimeoutPolicy.ts\<close>), the registry of
  sessions (\<^verbatim>\<open>ssoSessionRegistry.ts\<close>) and the signed cookie that carries one (\<^verbatim>\<open>ssoSession.ts\<close>, the session part).

  The theorems: a cookie is accepted only when its signature, expiry, registry row, epoch and timeouts allow
  it; a minted cookie is accepted until one of these changes; a revocation is final over every run of
  the registry's operations; and how long a session in use survives an idle timeout.
\<close>

section \<open>The timeout policy\<close>

definition MIN_IDLE_S :: int where "MIN_IDLE_S = 60"
definition MAX_IDLE_S :: int where "MAX_IDLE_S = 30 * 24 * 60 * 60"
definition MIN_ABSOLUTE_S :: int where "MIN_ABSOLUTE_S = 5 * 60"
definition MAX_ABSOLUTE_S :: int where "MAX_ABSOLUTE_S = 30 * 24 * 60 * 60"

record SessionTimeoutPolicy =
  st_enforce :: bool
  st_idle :: int
  st_absolute :: int
  st_updated_at :: "string option"
  st_updated_by :: "string option"

definition st_defaultPolicy :: SessionTimeoutPolicy where
  "st_defaultPolicy = \<lparr>st_enforce = False, st_idle = 30 * 60, st_absolute = 12 * 60 * 60,
     st_updated_at = None, st_updated_by = None\<rparr>"

record st_store =
  st_file :: "SessionTimeoutPolicy cast_file"
  st_cache :: "SessionTimeoutPolicy option"

text \<open>A failed read counts as the default, which is then cached.\<close>

definition st_getPolicy :: "st_store \<Rightarrow> SessionTimeoutPolicy \<times> st_store" where
  "st_getPolicy st =
     (case st_cache st of
        Some p \<Rightarrow> (p, st)
      | None \<Rightarrow> (let p = (case st_file st of Stored p \<Rightarrow> p | _ \<Rightarrow> st_defaultPolicy) in (p, st\<lparr>st_cache := Some p\<rparr>)))"

record TimeoutUpdate =
  tu_enforce :: "bool option"
  tu_idle :: "jsnum option"
  tu_absolute :: "jsnum option"
  tu_actor :: string

datatype TimeoutError = Invalid_idle string | Invalid_absolute string

definition st_bounded :: "int \<Rightarrow> int \<Rightarrow> (string \<Rightarrow> TimeoutError) \<Rightarrow> string \<Rightarrow> jsnum option \<Rightarrow> int \<Rightarrow> TimeoutError + int" where
  "st_bounded lo hi err field x cur =
     (case x of
        None \<Rightarrow> Inr cur
      | Some n \<Rightarrow>
          if \<not> isInteger n \<or> num_floor n < 0 then Inl (err (field @ '' must be a non-negative integer''))
          else if num_floor n \<noteq> 0 \<and> (num_floor n < lo \<or> hi < num_floor n)
          then Inl (err (field @ '' must be 0 or between '' @ dec_str lo @ '' and '' @ dec_str hi))
          else Inr (num_floor n))"

definition st_updatePolicy ::
  "int \<Rightarrow> TimeoutUpdate \<Rightarrow> st_store \<Rightarrow> (TimeoutError + SessionTimeoutPolicy) \<times> st_store" where
  "st_updatePolicy now input st0 =
     (case st_getPolicy st0 of (cur, st) \<Rightarrow>
        (case st_bounded MIN_IDLE_S MAX_IDLE_S Invalid_idle ''idle_timeout_s'' (tu_idle input) (st_idle cur) of
           Inl e \<Rightarrow> (Inl e, st)
         | Inr idle \<Rightarrow>
             (case st_bounded MIN_ABSOLUTE_S MAX_ABSOLUTE_S Invalid_absolute ''absolute_timeout_s'' (tu_absolute input) (st_absolute cur) of
                Inl e \<Rightarrow> (Inl e, st)
              | Inr absolute \<Rightarrow>
                  (let p = \<lparr>st_enforce = (case tu_enforce input of Some b \<Rightarrow> b | None \<Rightarrow> st_enforce cur), st_idle = idle,
                        st_absolute = absolute, st_updated_at = Some (toISOString now),
                        st_updated_by = Some (let a = take 128 (tu_actor input) in if a = [] then ''unknown'' else a)\<rparr>
                   in (Inr p, st\<lparr>st_file := Stored p, st_cache := Some p\<rparr>)))))"

datatype TimeoutReason = Idle_timeout | Absolute_timeout

definition decideTimeout :: "SessionTimeoutPolicy \<Rightarrow> int \<Rightarrow> int option \<Rightarrow> int \<Rightarrow> TimeoutReason option" where
  "decideTimeout p iat last_seen now =
     (if \<not> st_enforce p then None
      else if 0 < st_absolute p \<and> st_absolute p \<le> now - iat then Some Absolute_timeout
      else if 0 < st_idle p \<and> st_idle p \<le> now - (case last_seen of None \<Rightarrow> iat | Some t \<Rightarrow> t) then Some Idle_timeout
      else None)"

section \<open>The registry\<close>

definition MAX_RECORDS :: nat where "MAX_RECORDS = 5000"
definition SSO_MAX_REASON_LEN :: nat where "SSO_MAX_REASON_LEN = 280"
definition MAX_UA_LEN :: nat where "MAX_UA_LEN = 255"

record SsoSessionRecord =
  sr_jti :: string
  sr_sub :: string
  sr_email :: string
  sr_iss :: string
  sr_iat :: int
  sr_exp :: int
  sr_ip_hash :: string
  sr_user_agent :: string
  sr_last_seen_at :: "int option"
  sr_last_seen_ip_hash :: string
  sr_revoked_at :: "int option"
  sr_revoked_by :: "string option"
  sr_revoked_reason :: "string option"

record reg_state =
  rg_records :: "SsoSessionRecord list"
  rg_epoch :: int

record reg_store =
  rs_file :: "reg_state cast_file"
  rs_cache :: "reg_state option"

text \<open>A time is truthy when it is present and not 0.\<close>

definition set_time :: "int option \<Rightarrow> bool" where
  "set_time t \<longleftrightarrow> (case t of None \<Rightarrow> False | Some n \<Rightarrow> n \<noteq> 0)"

definition reg_readStore :: "reg_store \<Rightarrow> reg_state" where
  "reg_readStore st =
     (case rs_cache st of
        Some s \<Rightarrow> s
      | None \<Rightarrow> (case rs_file st of Stored s \<Rightarrow> s | _ \<Rightarrow> \<lparr>rg_records = [], rg_epoch = 0\<rparr>))"

text \<open>The state is mutated in the cache; \<^verbatim>\<open>flush\<close> writes what the cache holds when it runs, so that coalesced
  calls write the last state.\<close>

definition reg_cached :: "reg_state \<Rightarrow> reg_store \<Rightarrow> reg_store" where
  "reg_cached s st = st\<lparr>rs_cache := Some s\<rparr>"

definition reg_flush :: "reg_state \<Rightarrow> reg_store \<Rightarrow> reg_store" where
  "reg_flush s st = st\<lparr>rs_cache := Some s, rs_file := Stored s\<rparr>"

definition nowS :: "int \<Rightarrow> int" where
  "nowS ms = ms div 1000"

definition keep_row :: "int \<Rightarrow> SsoSessionRecord \<Rightarrow> bool" where
  "keep_row now r \<longleftrightarrow> now < sr_exp r \<or> now - 7 * 24 * 60 * 60 < sr_exp r
     \<or> (set_time (sr_revoked_at r) \<and> now - 7 * 24 * 60 * 60 < the (sr_revoked_at r))"

definition reg_prune :: "int \<Rightarrow> SsoSessionRecord list \<Rightarrow> SsoSessionRecord list" where
  "reg_prune now rows =
     (let rows = filter (keep_row now) rows in
      if MAX_RECORDS < length rows then take MAX_RECORDS (sort_key (\<lambda>r. - sr_iat r) rows) else rows)"

definition sso_hashIp :: "host \<Rightarrow> string option \<Rightarrow> string" where
  "sso_hashIp H ip = (let v = trim (or_empty ip) in if v = [] then [] else take 32 (host_sha256 H v))"

definition clamp_str :: "string option \<Rightarrow> nat \<Rightarrow> string" where
  "clamp_str s n = take n (or_empty s)"

record RegisterInput =
  ri_jti :: string
  ri_sub :: string
  ri_email :: string
  ri_iss :: string
  ri_iat :: int
  ri_exp :: int
  ri_ip :: "string option"
  ri_user_agent :: "string option"

definition new_row :: "host \<Rightarrow> RegisterInput \<Rightarrow> SsoSessionRecord" where
  "new_row H i =
     \<lparr>sr_jti = ri_jti i, sr_sub = ri_sub i, sr_email = toLowerCase (ri_email i), sr_iss = ri_iss i, sr_iat = ri_iat i,
      sr_exp = ri_exp i, sr_ip_hash = sso_hashIp H (ri_ip i), sr_user_agent = clamp_str (ri_user_agent i) MAX_UA_LEN,
      sr_last_seen_at = None, sr_last_seen_ip_hash = [], sr_revoked_at = None, sr_revoked_by = None, sr_revoked_reason = None\<rparr>"

definition registerSession :: "host \<Rightarrow> int \<Rightarrow> RegisterInput \<Rightarrow> reg_store \<Rightarrow> SsoSessionRecord \<times> reg_store" where
  "registerSession H ms input st =
     (let s = reg_readStore st; rec = new_row H input;
          rows = filter (\<lambda>r. sr_jti r \<noteq> sr_jti rec) (rg_records s) @ [rec]
      in (rec, reg_flush (s\<lparr>rg_records := reg_prune (nowS ms) rows\<rparr>) st))"

text \<open>A read also fills an empty cache, with what the next read would find in the file; the reading operations
  leave that out.\<close>

definition getSession :: "string \<Rightarrow> reg_store \<Rightarrow> SsoSessionRecord option" where
  "getSession jti st = (if jti = [] then None else find (\<lambda>r. sr_jti r = jti) (rg_records (reg_readStore st)))"

datatype RevocationStatus = Live | Rejected_expired | Rejected_epoch | Rejected_unknown | Rejected_revoked | Rejected_timeout TimeoutReason

fun timeout_str :: "TimeoutReason \<Rightarrow> string" where
  "timeout_str Idle_timeout = ''idle-timeout''"
| "timeout_str Absolute_timeout = ''absolute-timeout''"

definition mark_timeout :: "int \<Rightarrow> TimeoutReason \<Rightarrow> SsoSessionRecord \<Rightarrow> SsoSessionRecord" where
  "mark_timeout now why r =
     r\<lparr>sr_revoked_at := Some now, sr_revoked_by := Some ''session-timeout-policy'', sr_revoked_reason := Some (timeout_str why)\<rparr>"

text \<open>\<open>live\<close> is \<^verbatim>\<open>liveness\<close>: absent, or the caller's address. The row is touched when it was last seen more than
  30 seconds ago or from another address.\<close>

definition stale :: "int \<Rightarrow> string \<Rightarrow> SsoSessionRecord \<Rightarrow> bool" where
  "stale now ipH r \<longleftrightarrow> \<not> set_time (sr_last_seen_at r) \<or> 30 < now - the (sr_last_seen_at r) \<or> sr_last_seen_ip_hash r \<noteq> ipH"

definition touch :: "int \<Rightarrow> string \<Rightarrow> SsoSessionRecord \<Rightarrow> SsoSessionRecord" where
  "touch now ipH r = r\<lparr>sr_last_seen_at := Some now, sr_last_seen_ip_hash := (if ipH = [] then sr_last_seen_ip_hash r else ipH)\<rparr>"

definition checkSession ::
  "host \<Rightarrow> int \<Rightarrow> string option \<Rightarrow> int \<Rightarrow> int \<Rightarrow> string option option \<Rightarrow> st_store \<times> reg_store \<Rightarrow> RevocationStatus \<times> st_store \<times> reg_store" where
  "checkSession H ms jti iat ex live w =
     (case w of (tp, st) \<Rightarrow>
      if \<not> truthy jti then (Rejected_unknown, w)
      else
        (let s = reg_readStore st; st = reg_cached s st; now = nowS ms; same = (\<lambda>r. sr_jti r = or_empty jti) in
         if ex \<le> now then (Rejected_expired, tp, st)
         else if rg_epoch s \<noteq> 0 \<and> iat \<le> rg_epoch s then (Rejected_epoch, tp, st)
         else case find same (rg_records s) of
           None \<Rightarrow> (Rejected_unknown, tp, st)
         | Some row \<Rightarrow>
             if set_time (sr_revoked_at row) then (Rejected_revoked, tp, st)
             else
               (case st_getPolicy tp of (policy, tp) \<Rightarrow>
                (case decideTimeout policy iat (sr_last_seen_at row) now of
                   Some why \<Rightarrow>
                     (Rejected_timeout why, tp, reg_flush (s\<lparr>rg_records := upd_first same (mark_timeout now why) (rg_records s)\<rparr>) st)
                 | None \<Rightarrow>
                     (case live of
                        None \<Rightarrow> (Live, tp, st)
                      | Some ip \<Rightarrow>
                          let ipH = sso_hashIp H ip in
                          if stale now ipH row
                          then (Live, tp, reg_flush (s\<lparr>rg_records := upd_first same (touch now ipH) (rg_records s)\<rparr>) st)
                          else (Live, tp, st))))))"

record RevokeInput =
  rv_actor :: string
  rv_reason :: "string option"

definition revoke_row :: "int \<Rightarrow> RevokeInput \<Rightarrow> string option \<Rightarrow> SsoSessionRecord \<Rightarrow> SsoSessionRecord" where
  "revoke_row now opts dflt r =
     r\<lparr>sr_revoked_at := Some now,
       sr_revoked_by := Some (let a = clamp_str (Some (rv_actor opts)) 128 in if a = [] then ''unknown'' else a),
       sr_revoked_reason := (let x = clamp_str (rv_reason opts) SSO_MAX_REASON_LEN in if x = [] then dflt else Some x)\<rparr>"

definition revokeBySession :: "int \<Rightarrow> string \<Rightarrow> RevokeInput \<Rightarrow> reg_store \<Rightarrow> SsoSessionRecord option \<times> reg_store" where
  "revokeBySession ms jti opts st =
     (let s = reg_readStore st; same = (\<lambda>r. sr_jti r = jti) in
      case find same (rg_records s) of
        None \<Rightarrow> (None, reg_cached s st)
      | Some row \<Rightarrow>
          if set_time (sr_revoked_at row) then (Some row, reg_cached s st)
          else (Some (revoke_row (nowS ms) opts None row),
                reg_flush (s\<lparr>rg_records := upd_first same (revoke_row (nowS ms) opts None) (rg_records s)\<rparr>) st))"

definition active_row :: "int \<Rightarrow> SsoSessionRecord \<Rightarrow> bool" where
  "active_row now r \<longleftrightarrow> \<not> set_time (sr_revoked_at r) \<and> now < sr_exp r"

definition revokeByEmail :: "int \<Rightarrow> string \<Rightarrow> RevokeInput \<Rightarrow> reg_store \<Rightarrow> nat \<times> reg_store" where
  "revokeByEmail ms email opts st =
     (let target = toLowerCase (trim email) in
      if target = [] then (0, st)
      else
        (let s = reg_readStore st; now = nowS ms; hit = (\<lambda>r. active_row now r \<and> sr_email r = target);
             n = length (filter hit (rg_records s));
             s' = s\<lparr>rg_records := map (\<lambda>r. if hit r then revoke_row now opts None r else r) (rg_records s)\<rparr>
         in (n, if n = 0 then reg_cached s st else reg_flush s' st)))"

definition bumpEpoch :: "int \<Rightarrow> RevokeInput \<Rightarrow> reg_store \<Rightarrow> (int \<times> nat) \<times> reg_store" where
  "bumpEpoch ms opts st =
     (let s = reg_readStore st; now = nowS ms in
      ((now, length (filter (active_row now) (rg_records s))),
       reg_flush \<lparr>rg_records = map (\<lambda>r. if active_row now r then revoke_row now opts (Some ''global-epoch-bump'') r else r) (rg_records s),
                  rg_epoch = now\<rparr> st))"

record ListOptions =
  lo_include_revoked :: bool
  lo_limit :: "jsnum option"
  lo_email :: "string option"

definition listSessions :: "int \<Rightarrow> ListOptions \<Rightarrow> reg_store \<Rightarrow> SsoSessionRecord list \<times> int \<times> nat" where
  "listSessions ms opts st =
     (let s = reg_readStore st; now = nowS ms; mail = toLowerCase (trim (or_empty (lo_email opts)));
          rows = sort_key (\<lambda>r. - sr_iat r)
            (filter (\<lambda>r. mail = [] \<or> sr_email r = mail) (filter (\<lambda>r. lo_include_revoked opts \<or> active_row now r) (rg_records s)));
          limited = (case lo_limit opts of
              Some (Fin q) \<Rightarrow> if 0 < q then take (nat \<lfloor>q\<rfloor>) rows else rows
            | _ \<Rightarrow> rows)
      in (limited, rg_epoch s, length (filter (active_row now) (rg_records s))))"

section \<open>The session cookie\<close>

definition SESSION_TTL_S :: int where "SESSION_TTL_S = 12 * 60 * 60"

record SsoSession =
  ss_v :: int
  ss_sub :: string
  ss_email :: string
  ss_iss :: string
  ss_iat :: int
  ss_exp :: int
  ss_jti :: "string option"

text \<open>
  Text encodings are the host's: \<open>ck_body\<close> is \<^verbatim>\<open>b64u(JSON.stringify(payload))\<close>, \<open>ck_parse\<close> its inverse
  (\<open>None\<close> when \<^verbatim>\<open>JSON.parse\<close> throws; the result is cast to the session type), \<open>ck_b64u\<close> and \<open>ck_b64uDec\<close> are
  base64url on a digest.
\<close>

record cookie_codec =
  ck_body :: "SsoSession \<Rightarrow> string"
  ck_parse :: "string \<Rightarrow> SsoSession option"
  ck_b64u :: "string \<Rightarrow> string"
  ck_b64uDec :: "string \<Rightarrow> string"

record key_store =
  sk_cached :: "string option"
  sk_file :: "string option"

text \<open>The signing key: cached, from the environment, from its file, or freshly drawn and saved.\<close>

definition getSigningKey :: "string option \<Rightarrow> string \<Rightarrow> key_store \<Rightarrow> string \<times> key_store" where
  "getSigningKey env gen st =
     (case sk_cached st of
        Some k \<Rightarrow> (k, st)
      | None \<Rightarrow>
          if env \<noteq> None \<and> 32 \<le> length (the env) then (the env, st\<lparr>sk_cached := Some (the env)\<rparr>)
          else case sk_file st of
            Some raw \<Rightarrow> if 32 \<le> length raw then (raw, st\<lparr>sk_cached := Some raw\<rparr>) else (gen, \<lparr>sk_cached = Some gen, sk_file = Some gen\<rparr>)
          | None \<Rightarrow> (gen, \<lparr>sk_cached = Some gen, sk_file = Some gen\<rparr>))"

record sso_world =
  sw_keys :: key_store
  sw_timeout :: st_store
  sw_reg :: reg_store

record sso_env =
  se_host :: host
  se_codec :: cookie_codec
  se_env :: "string option"
  se_gen :: string

definition sign :: "sso_env \<Rightarrow> string \<Rightarrow> sso_world \<Rightarrow> string \<times> sso_world" where
  "sign E msg w =
     (case getSigningKey (se_env E) (se_gen E) (sw_keys w) of (k, ks) \<Rightarrow> (host_hmac (se_host E) k msg, w\<lparr>sw_keys := ks\<rparr>))"

record MintInput =
  mi_sub :: string
  mi_email :: string
  mi_iss :: string
  mi_jti :: "string option"

record MintResult =
  mr_cookie :: string
  mr_jti :: string
  mr_iat :: int
  mr_exp :: int

text \<open>\<open>rnd\<close> is the drawn session id.\<close>

definition mint_payload :: "int \<Rightarrow> string \<Rightarrow> MintInput \<Rightarrow> SsoSession" where
  "mint_payload ms rnd i =
     (let now = ms div 1000; jti = (if 8 \<le> length (or_empty (mi_jti i)) then or_empty (mi_jti i) else rnd)
      in \<lparr>ss_v = 1, ss_sub = mi_sub i, ss_email = mi_email i, ss_iss = mi_iss i, ss_iat = now, ss_exp = now + SESSION_TTL_S, ss_jti = Some jti\<rparr>)"

definition mintSession :: "sso_env \<Rightarrow> int \<Rightarrow> string \<Rightarrow> MintInput \<Rightarrow> sso_world \<Rightarrow> MintResult \<times> sso_world" where
  "mintSession E ms rnd i w =
     (let p = mint_payload ms rnd i; body = ck_body (se_codec E) p in
      case sign E body w of (sig, w) \<Rightarrow>
        (\<lparr>mr_cookie = body @ ''.'' @ ck_b64u (se_codec E) sig, mr_jti = or_empty (ss_jti p), mr_iat = ss_iat p, mr_exp = ss_exp p\<rparr>, w))"

definition mintSessionCookie :: "sso_env \<Rightarrow> clock \<Rightarrow> string \<Rightarrow> MintInput \<Rightarrow> sso_world \<Rightarrow> string \<times> sso_world" where
  "mintSessionCookie E clk rnd i w =
     (case mintSession E (clk 0) rnd i w of (r, w) \<Rightarrow>
        (mr_cookie r,
         w\<lparr>sw_reg := snd (registerSession (se_host E) (clk 1)
             \<lparr>ri_jti = mr_jti r, ri_sub = mi_sub i, ri_email = mi_email i, ri_iss = mi_iss i, ri_iat = mr_iat r, ri_exp = mr_exp r,
              ri_ip = None, ri_user_agent = None\<rparr> (sw_reg w))\<rparr>))"

record VerifySessionOptions =
  vo_skipRegistry :: bool
  vo_liveness :: "string option option"

definition verifySessionCookie ::
  "sso_env \<Rightarrow> clock \<Rightarrow> VerifySessionOptions \<Rightarrow> string option \<Rightarrow> sso_world \<Rightarrow> SsoSession option \<times> sso_world" where
  "verifySessionCookie E clk opts token w =
     (if \<not> truthy token then (None, w)
      else case split_on (CHR ''.'') (or_empty token) of
        [body, sig] \<Rightarrow>
          (case sign E body w of (expected, w) \<Rightarrow>
            if ck_b64uDec (se_codec E) sig \<noteq> expected then (None, w)
            else case ck_parse (se_codec E) body of
              None \<Rightarrow> (None, w)
            | Some p \<Rightarrow>
                if ss_v p \<noteq> 1 \<or> ss_exp p \<le> clk 0 div 1000 then (None, w)
                else if vo_skipRegistry opts then (Some p, w)
                else
                  (case checkSession (se_host E) (clk 1) (ss_jti p) (ss_iat p) (ss_exp p) (vo_liveness opts) (sw_timeout w, sw_reg w) of
                     (status, tp, reg) \<Rightarrow>
                       (if status = Live then Some p else None, w\<lparr>sw_timeout := tp, sw_reg := reg\<rparr>)))
      | _ \<Rightarrow> (None, w))"

section \<open>What a verified cookie means\<close>

lemma st_getPolicy_fst: "fst (st_getPolicy st) = (case st_cache st of Some p \<Rightarrow> p | None \<Rightarrow> (case st_file st of Stored p \<Rightarrow> p | _ \<Rightarrow> st_defaultPolicy))"
  by (auto simp: st_getPolicy_def Let_def split: option.splits)

lemma checkSession_Live:
  "fst (checkSession H ms jti iat ex live (tp, st)) = Live \<longleftrightarrow>
     (\<exists>j row. jti = Some j \<and> j \<noteq> [] \<and> nowS ms < ex \<and> (rg_epoch (reg_readStore st) = 0 \<or> rg_epoch (reg_readStore st) < iat)
        \<and> find (\<lambda>r. sr_jti r = j) (rg_records (reg_readStore st)) = Some row \<and> \<not> set_time (sr_revoked_at row)
        \<and> decideTimeout (fst (st_getPolicy tp)) iat (sr_last_seen_at row) (nowS ms) = None)"
  by (cases jti) (auto simp: checkSession_def Let_def or_empty_def split: option.splits prod.splits if_splits)

lemma split_two:
  assumes "split_on c s = [a, b]"
  shows "s = a @ [c] @ b"
  using join_split[of c s] assms by simp

lemma sign_world [simp]: "sw_reg (snd (sign E m w)) = sw_reg w" "sw_timeout (snd (sign E m w)) = sw_timeout w"
  by (auto simp: sign_def split: prod.splits)

text \<open>C31: A cookie is accepted only if its signature is the HMAC of its body under the server's key, the body
  has not expired, and its session is registered, not revoked, younger than the global epoch and within the timeouts.\<close>

theorem sso_session_sound:
  assumes "fst (verifySessionCookie E clk opts (Some tok) w) = Some p" "\<not> vo_skipRegistry opts"
  shows "\<exists>body sig row. tok = body @ ''.'' @ sig
    \<and> ck_b64uDec (se_codec E) sig = host_hmac (se_host E) (fst (getSigningKey (se_env E) (se_gen E) (sw_keys w))) body
    \<and> ck_parse (se_codec E) body = Some p \<and> clk 0 div 1000 < ss_exp p
    \<and> find (\<lambda>r. Some (sr_jti r) = ss_jti p) (rg_records (reg_readStore (sw_reg w))) = Some row \<and> \<not> set_time (sr_revoked_at row)
    \<and> (rg_epoch (reg_readStore (sw_reg w)) = 0 \<or> rg_epoch (reg_readStore (sw_reg w)) < ss_iat p)
    \<and> decideTimeout (fst (st_getPolicy (sw_timeout w))) (ss_iat p) (sr_last_seen_at row) (nowS (clk 1)) = None"
proof -
  obtain body sig where s: "split_on (CHR ''.'') tok = [body, sig]"
    using assms(1) by (auto simp: verifySessionCookie_def or_empty_def split: if_splits list.splits)
  obtain d w1 where d: "sign E body w = (d, w1)" by fastforce
  have w1: "sw_reg w1 = sw_reg w" "sw_timeout w1 = sw_timeout w" using sign_world[of E body w] d by auto
  have "d = host_hmac (se_host E) (fst (getSigningKey (se_env E) (se_gen E) (sw_keys w))) body"
    using d by (auto simp: sign_def split: prod.splits)
  moreover have v: "ck_b64uDec (se_codec E) sig = d" "ck_parse (se_codec E) body = Some p" "clk 0 div 1000 < ss_exp p"
    "fst (checkSession (se_host E) (clk 1) (ss_jti p) (ss_iat p) (ss_exp p) (vo_liveness opts) (sw_timeout w, sw_reg w)) = Live"
    using assms s d w1 by (auto simp: verifySessionCookie_def or_empty_def split: if_splits option.splits prod.splits)
  moreover from v(4) obtain j row where "ss_jti p = Some j" "find (\<lambda>r. sr_jti r = j) (rg_records (reg_readStore (sw_reg w))) = Some row"
    "\<not> set_time (sr_revoked_at row)" "rg_epoch (reg_readStore (sw_reg w)) = 0 \<or> rg_epoch (reg_readStore (sw_reg w)) < ss_iat p"
    "decideTimeout (fst (st_getPolicy (sw_timeout w))) (ss_iat p) (sr_last_seen_at row) (nowS (clk 1)) = None"
    unfolding checkSession_Live by blast
  ultimately show ?thesis using split_two[OF s] by auto
qed

section \<open>Revocation is final\<close>

datatype reg_op =
    G_register int RegisterInput
  | G_check int "string option" int int "string option option"
  | G_revoke int string RevokeInput
  | G_email int string RevokeInput
  | G_bump int RevokeInput
  | G_policy int TimeoutUpdate
  | G_restart

fun reg_exec :: "host \<Rightarrow> reg_op \<Rightarrow> st_store \<times> reg_store \<Rightarrow> st_store \<times> reg_store" where
  "reg_exec H (G_register ms i) (tp, st) = (tp, snd (registerSession H ms i st))"
| "reg_exec H (G_check ms jti iat ex live) w = snd (checkSession H ms jti iat ex live w)"
| "reg_exec H (G_revoke ms jti opts) (tp, st) = (tp, snd (revokeBySession ms jti opts st))"
| "reg_exec H (G_email ms email opts) (tp, st) = (tp, snd (revokeByEmail ms email opts st))"
| "reg_exec H (G_bump ms opts) (tp, st) = (tp, snd (bumpEpoch ms opts st))"
| "reg_exec H (G_policy ms i) (tp, st) = (snd (st_updatePolicy ms i tp), st)"
| "reg_exec H G_restart (tp, st) = (tp\<lparr>st_cache := None\<rparr>, st\<lparr>rs_cache := None\<rparr>)"

fun registers :: "string \<Rightarrow> reg_op \<Rightarrow> bool" where
  "registers j (G_register ms i) = (ri_jti i = j)"
| "registers j _ = False"

text \<open>The cache agrees with the file, and every session has one row.\<close>

definition reg_ok :: "reg_store \<Rightarrow> bool" where
  "reg_ok st \<longleftrightarrow> reg_readStore (st\<lparr>rs_cache := None\<rparr>) = reg_readStore st \<and> distinct (map sr_jti (rg_records (reg_readStore st)))"

definition dead :: "string \<Rightarrow> reg_state \<Rightarrow> bool" where
  "dead j s \<longleftrightarrow> (\<forall>r\<in>set (rg_records s). sr_jti r = j \<longrightarrow> set_time (sr_revoked_at r))"

lemma reg_read [simp]:
  "reg_readStore (reg_cached s st) = s" "reg_readStore (reg_flush s st) = s"
  "reg_readStore (reg_flush s st\<lparr>rs_cache := None\<rparr>) = s"
  "rs_file (reg_cached s st) = rs_file st"
  by (simp_all add: reg_readStore_def reg_cached_def reg_flush_def)

lemma reg_ok_flush [simp]: "reg_ok (reg_flush s st) \<longleftrightarrow> distinct (map sr_jti (rg_records s))"
  by (simp add: reg_ok_def)

lemma reg_ok_cached: "reg_ok st \<Longrightarrow> reg_ok (reg_cached (reg_readStore st) st)"
  by (simp add: reg_ok_def reg_readStore_def reg_cached_def split: option.splits)

lemma row_updates [simp]:
  "sr_jti (mark_timeout n why r) = sr_jti r" "sr_jti (touch n h r) = sr_jti r" "sr_jti (revoke_row n opts d r) = sr_jti r"
  "sr_revoked_at (touch n h r) = sr_revoked_at r" "sr_revoked_at (revoke_row n opts d r) = Some n"
  "sr_email (revoke_row n opts d r) = sr_email r" "sr_iat (touch n h r) = sr_iat r" "sr_last_seen_at (touch n h r) = Some n"
  by (simp_all add: mark_timeout_def touch_def revoke_row_def)

lemma prune_subset: "set (reg_prune n rows) \<subseteq> set rows"
  by (auto simp: reg_prune_def Let_def dest: in_set_takeD)

lemma distinct_sort_key_map: "distinct (map f (sort_key g xs)) = distinct (map f xs)"
  by (simp add: distinct_map)

lemma prune_distinct: "distinct (map sr_jti rows) \<Longrightarrow> distinct (map sr_jti (reg_prune n rows))"
  by (simp add: reg_prune_def Let_def distinct_sort_key_map distinct_map_filter take_map[symmetric])

lemma map_jti_upd_first [simp]:
  "map sr_jti (upd_first P (touch n h) rows) = map sr_jti rows"
  "map sr_jti (upd_first P (mark_timeout n why) rows) = map sr_jti rows"
  "map sr_jti (upd_first P (revoke_row n opts d) rows) = map sr_jti rows"
  "sr_jti \<circ> (\<lambda>r. if Q r then revoke_row n opts d r else r) = sr_jti"
  by (simp_all add: map_upd_first fun_eq_iff)

lemma register_ok:
  assumes "reg_ok st"
  shows "reg_ok (snd (registerSession H ms i st))"
proof -
  let ?rows = "filter (\<lambda>r. sr_jti r \<noteq> ri_jti i) (rg_records (reg_readStore st)) @ [new_row H i]"
  have "distinct (map sr_jti ?rows)" using assms by (auto simp: reg_ok_def new_row_def distinct_map_filter)
  then show ?thesis using prune_distinct by (simp add: registerSession_def Let_def new_row_def)
qed

lemma check_ok:
  assumes "reg_ok (snd w)"
  shows "reg_ok (snd (snd (checkSession H ms jti iat ex live w)))"
proof -
  obtain tp st where w: "w = (tp, st)" by fastforce
  have "distinct (map sr_jti (rg_records (reg_readStore st)))" using assms by (simp add: w reg_ok_def)
  with assms reg_ok_cached[of st] show ?thesis
    by (auto simp: w checkSession_def Let_def split: prod.splits option.splits)
qed

lemma reg_exec_ok: "reg_ok (snd w) \<Longrightarrow> reg_ok (snd (reg_exec H p w))"
proof (induction H p w rule: reg_exec.induct)
  case (1 H ms i tp st)
  then show ?case by (simp add: register_ok)
next
  case (2 H ms jti iat ex live w)
  then show ?case by (simp add: check_ok)
next
  case (3 H ms jti opts tp st)
  then show ?case using reg_ok_cached[of st] by (auto simp: revokeBySession_def Let_def reg_ok_def[of st] split: option.splits)
next
  case (4 H ms email opts tp st)
  then show ?case using reg_ok_cached[of st] by (auto simp: revokeByEmail_def Let_def reg_ok_def[of st])
next
  case (5 H ms opts tp st)
  then show ?case by (simp add: bumpEpoch_def Let_def reg_ok_def[of st])
next
  case (6 H ms i tp st)
  then show ?case by simp
next
  case (7 H tp st)
  then show ?case by (simp add: reg_ok_def)
qed

text \<open>No operation but a registration under the same id brings a dead session back.\<close>

lemma dead_upd_first:
  assumes "dead j s" "\<And>r. find P (rg_records s) = Some r \<Longrightarrow> sr_jti r = j \<Longrightarrow> set_time (sr_revoked_at r) \<Longrightarrow> set_time (sr_revoked_at (g r))"
    and "\<And>r. sr_jti (g r) = sr_jti r"
  shows "dead j (s\<lparr>rg_records := upd_first P g (rg_records s)\<rparr>)"
  unfolding dead_def
proof (intro ballI impI)
  fix y
  assume "y \<in> set (rg_records (s\<lparr>rg_records := upd_first P g (rg_records s)\<rparr>))" "sr_jti y = j"
  then consider "y \<in> set (rg_records s)" | r where "find P (rg_records s) = Some r" "y = g r"
    by (auto dest!: set_upd_first)
  then show "set_time (sr_revoked_at y)"
  proof cases
    case 1
    with assms(1) \<open>sr_jti y = j\<close> show ?thesis by (simp add: dead_def)
  next
    case 2
    with assms \<open>sr_jti y = j\<close> find_SomeD[OF 2(1)] show ?thesis by (simp add: dead_def)
  qed
qed

lemma check_dead:
  assumes "dead j (reg_readStore (snd w))"
  shows "dead j (reg_readStore (snd (snd (checkSession H ms jti iat ex live w))))"
proof -
  obtain tp st where w: "w = (tp, st)" by fastforce
  let ?s = "reg_readStore st"
  have t: "dead j (?s\<lparr>rg_records := upd_first P (touch n h) (rg_records ?s)\<rparr>)" for P n h
    by (rule dead_upd_first) (use assms w in auto)
  have m: "dead j (?s\<lparr>rg_records := upd_first P (mark_timeout n why) (rg_records ?s)\<rparr>)"
    if "find P (rg_records ?s) = Some r" "\<not> set_time (sr_revoked_at r)" for P n why r
    by (rule dead_upd_first) (use assms w that in auto)
  show ?thesis using assms t m unfolding w
    by (auto simp: checkSession_def Let_def split: prod.splits option.splits)
qed

lemma reg_exec_dead:
  "\<lbrakk>reg_ok (snd w); \<not> registers j p; dead j (reg_readStore (snd w))\<rbrakk> \<Longrightarrow> dead j (reg_readStore (snd (reg_exec H p w)))"
proof (induction H p w rule: reg_exec.induct)
  case (1 H ms i tp st)
  then show ?case using prune_subset by (fastforce simp: registerSession_def Let_def dead_def new_row_def)
next
  case (2 H ms jti iat ex live w)
  then show ?case by (simp add: check_dead)
next
  case (3 H ms jti opts tp st)
  let ?s = "reg_readStore st"
  have "dead j (?s\<lparr>rg_records := upd_first P (revoke_row (nowS ms) opts None) (rg_records ?s)\<rparr>)"
    if "find P (rg_records ?s) = Some r" "\<not> set_time (sr_revoked_at r)" for P r
    by (rule dead_upd_first) (use 3 that in auto)
  with 3 show ?case by (auto simp: revokeBySession_def Let_def split: option.splits)
next
  case (4 H ms email opts tp st)
  then show ?case by (auto simp: revokeByEmail_def Let_def dead_def active_row_def)
next
  case (5 H ms opts tp st)
  then show ?case by (auto simp: bumpEpoch_def Let_def dead_def active_row_def)
next
  case (6 H ms i tp st)
  then show ?case by simp
next
  case (7 H tp st)
  then show ?case by (simp add: reg_ok_def)
qed

interpretation dead_run: preserved "reg_exec H" "\<lambda>p. \<not> registers j p" "\<lambda>w. reg_ok (snd w) \<and> dead j (reg_readStore (snd w))" for H j
  by unfold_locales (simp add: reg_exec_ok reg_exec_dead)

lemma dead_not_live: "dead j (reg_readStore st) \<Longrightarrow> fst (checkSession H ms (Some j) iat ex live (tp, st)) \<noteq> Live"
  unfolding checkSession_Live by (auto simp: dead_def dest!: find_SomeD)

text \<open>The three ways to revoke: one session by its id, every session of an e-mail address, every session.\<close>

fun revokes :: "SsoSessionRecord \<Rightarrow> reg_op \<Rightarrow> bool" where
  "revokes row (G_revoke ms j opts) = (j = sr_jti row \<and> nowS ms \<noteq> 0)"
| "revokes row (G_email ms email opts) = (toLowerCase (trim email) = sr_email row \<and> sr_email row \<noteq> [] \<and> nowS ms \<noteq> 0 \<and> nowS ms < sr_exp row)"
| "revokes row (G_bump ms opts) = (nowS ms \<noteq> 0 \<and> nowS ms < sr_exp row)"
| "revokes row _ = False"

lemma set_time_simps [simp]: "set_time (Some n) \<longleftrightarrow> n \<noteq> 0" "\<not> set_time None"
  by (simp_all add: set_time_def)

lemma unique_row:
  "\<lbrakk>distinct (map sr_jti rows); row \<in> set rows; r \<in> set rows; sr_jti r = sr_jti row\<rbrakk> \<Longrightarrow> r = row"
  by (auto simp: distinct_map inj_on_def)

lemma revoke_kills:
  assumes "reg_ok st" "row \<in> set (rg_records (reg_readStore st))" "revokes row p"
  shows "dead (sr_jti row) (reg_readStore (snd (reg_exec H p (tp, st))))"
proof -
  have u: "r = row" if "r \<in> set (rg_records (reg_readStore st))" "sr_jti r = sr_jti row" for r
    using assms(1,2) that unique_row unfolding reg_ok_def by metis
  show ?thesis
  proof (cases p)
    case (G_revoke ms j opts)
    with assms have j: "j = sr_jti row" "nowS ms \<noteq> 0" by auto
    have f: "find (\<lambda>r. sr_jti r = sr_jti row) (rg_records (reg_readStore st)) = Some row"
    proof -
      obtain i where "i < length (rg_records (reg_readStore st))" "rg_records (reg_readStore st) ! i = row"
        using assms(2) by (auto simp: in_set_conv_nth)
      with assms(1) show ?thesis
        by (auto simp: reg_ok_def intro!: find_unique[of i, THEN trans] simp: nth_eq_iff_index_eq distinct_conv_nth)
    qed
    obtain i where i: "i < length (rg_records (reg_readStore st))" "rg_records (reg_readStore st) ! i = row"
      "\<And>g. upd_first (\<lambda>r. sr_jti r = sr_jti row) g (rg_records (reg_readStore st)) = (rg_records (reg_readStore st))[i := g row]"
      using upd_first_update[OF f] by metis
    have "distinct (rg_records (reg_readStore st))" using assms(1) by (auto simp: reg_ok_def distinct_map)
    with i have "set ((rg_records (reg_readStore st))[i := g row]) = insert (g row) (set (rg_records (reg_readStore st)) - {row})" for g
      by (simp add: set_update_distinct)
    with u f j i(3) show ?thesis by (auto simp: G_revoke revokeBySession_def Let_def dead_def)
  next
    case (G_email ms email opts)
    with assms have e: "toLowerCase (trim email) = sr_email row" "sr_email row \<noteq> []" "nowS ms \<noteq> 0" "nowS ms < sr_exp row" by auto
    show ?thesis
    proof (cases "filter (\<lambda>r. active_row (nowS ms) r \<and> sr_email r = sr_email row) (rg_records (reg_readStore st)) = []")
      case True
      with assms(2) e u show ?thesis
        by (auto simp: G_email revokeByEmail_def Let_def dead_def filter_empty_conv active_row_def)
    next
      case False
      with e u show ?thesis
        by (auto simp: G_email revokeByEmail_def Let_def dead_def active_row_def split: if_splits)
    qed
  next
    case (G_bump ms opts)
    with assms u show ?thesis by (auto simp: bumpEpoch_def Let_def dead_def active_row_def)
  qed (use assms(3) in auto)
qed

text \<open>C5: A revocation is final: after it, whatever the registry does next - registrations of other sessions, checks, further
  revocations, policy changes, restarts - the session is refused.\<close>

theorem revoked_session_stays_revoked:
  assumes "reg_ok st" "row \<in> set (rg_records (reg_readStore st))" "revokes row p"
    and "list_all (\<lambda>q. \<not> registers (sr_jti row) q) ops"
  shows "fst (checkSession H ms (Some (sr_jti row)) iat ex live (fold (reg_exec H) (p # ops) (tp, st))) \<noteq> Live"
proof -
  let ?w = "fold (reg_exec H) (p # ops) (tp, st)"
  have "dead (sr_jti row) (reg_readStore (snd ?w))"
    using dead_run.run[OF assms(4), of "reg_exec H p (tp, st)" H] revoke_kills[OF assms(1-3)] reg_exec_ok[of "(tp, st)" H p] assms(1) by simp
  then show ?thesis using dead_not_live[of _ "snd ?w" H ms iat ex live "fst ?w"] by simp
qed

definition sample_row :: "string \<Rightarrow> string \<Rightarrow> SsoSessionRecord" where
  "sample_row j email = new_row sample_host \<lparr>ri_jti = j, ri_sub = ''s'', ri_email = email, ri_iss = ''i'', ri_iat = 100, ri_exp = 43300,
     ri_ip = None, ri_user_agent = None\<rparr>"

definition sample_reg :: reg_store where
  "sample_reg = reg_flush \<lparr>rg_records = [sample_row ''a'' ''x@y'', sample_row ''b'' ''z@y''], rg_epoch = 0\<rparr> \<lparr>rs_file = NoFile, rs_cache = None\<rparr>"

definition sample_timeouts :: st_store where
  "sample_timeouts = \<lparr>st_file = NoFile, st_cache = None\<rparr>"

theorem revoked_session_stays_revoked_witness:
  "fst (checkSession sample_host 300000 (Some ''a'') 100 43300 None
     (fold (reg_exec sample_host) (G_email 200000 '' X@y'' \<lparr>rv_actor = ''admin'', rv_reason = None\<rparr>
        # [G_restart, G_check 250000 (Some ''b'') 100 43300 None]) (sample_timeouts, sample_reg))) \<noteq> Live"
proof -
  have r: "sr_jti (sample_row ''a'' ''x@y'') = ''a''" "sr_email (sample_row ''a'' ''x@y'') = ''x@y''" "sr_exp (sample_row ''a'' ''x@y'') = 43300"
    by code_simp+
  have 1: "reg_ok sample_reg" by (simp add: sample_reg_def) code_simp
  have 2: "sample_row ''a'' ''x@y'' \<in> set (rg_records (reg_readStore sample_reg))" by (simp add: sample_reg_def)
  have 3: "revokes (sample_row ''a'' ''x@y'') (G_email 200000 '' X@y'' \<lparr>rv_actor = ''admin'', rv_reason = None\<rparr>)"
    by code_simp
  have 4: "list_all (\<lambda>q. \<not> registers (sr_jti (sample_row ''a'' ''x@y'')) q) [G_restart, G_check 250000 (Some ''b'') 100 43300 None]"
    by simp
  from revoked_session_stays_revoked[OF 1 2 3 4, of sample_host 300000 100 43300 None sample_timeouts]
  show ?thesis unfolding r .
qed

section \<open>A minted cookie verifies\<close>

definition reads_back :: "cookie_codec \<Rightarrow> SsoSession \<Rightarrow> bool" where
  "reads_back C p \<longleftrightarrow> ck_parse C (ck_body C p) = Some p \<and> CHR ''.'' \<notin> set (ck_body C p)
     \<and> (\<forall>x. ck_b64uDec C (ck_b64u C x) = x \<and> CHR ''.'' \<notin> set (ck_b64u C x))"

lemma getSigningKey_stable:
  "getSigningKey env gen st = (k, st') \<Longrightarrow> getSigningKey env gen st' = (k, st')"
  by (auto simp: getSigningKey_def split: option.splits if_splits)

lemma sign_stable: "sign E m w = (d, w') \<Longrightarrow> sign E m (w'\<lparr>sw_reg := r\<rparr>) = (d, w'\<lparr>sw_reg := r\<rparr>)"
  by (auto simp: sign_def split: prod.splits dest: getSigningKey_stable)

lemma find_registered:
  assumes "length (rg_records (reg_readStore st)) < MAX_RECORDS" "nowS ms < ri_exp i"
  shows "find (\<lambda>r. sr_jti r = ri_jti i) (rg_records (reg_readStore (snd (registerSession H ms i st)))) = Some (new_row H i)"
proof -
  let ?old = "filter (\<lambda>r. sr_jti r \<noteq> ri_jti i) (rg_records (reg_readStore st))"
  have n: "sr_jti (new_row H i) = ri_jti i" "keep_row (nowS ms) (new_row H i)" using assms(2) by (auto simp: new_row_def keep_row_def)
  have len: "length (filter (keep_row (nowS ms)) (?old @ [new_row H i])) \<le> MAX_RECORDS"
    using assms(1) by (intro order_trans[OF length_filter_le]) (auto intro: order_trans[OF length_filter_le] simp: Suc_le_eq le_less_trans[OF length_filter_le])
  have "find (\<lambda>r. sr_jti r = ri_jti i) (filter (keep_row (nowS ms)) ?old) = None" by (auto simp: find_None_iff)
  then have "find (\<lambda>r. sr_jti r = ri_jti i) (filter (keep_row (nowS ms)) ?old @ [new_row H i]) = Some (new_row H i)"
    using n(1) by (simp add: find_snoc)
  with n len show ?thesis by (simp add: registerSession_def Let_def reg_prune_def)
qed

text \<open>A minted cookie is accepted by every verification before its expiry, as long as the registry has room, no
  epoch covers it and no timeout applies.\<close>

theorem minted_cookie_verifies:
  assumes p_def: "p = mint_payload (c0 0) rnd i"
    and "mintSessionCookie E c0 rnd i w = (tok, w1)" and codec: "reads_back (se_codec E) p" and "rnd \<noteq> []"
    and "length (rg_records (reg_readStore (sw_reg w))) < MAX_RECORDS"
    and "rg_epoch (reg_readStore (sw_reg w)) = 0 \<or> rg_epoch (reg_readStore (sw_reg w)) < ss_iat p"
    and "nowS (c0 1) < ss_exp p" "nowS (c1 0) < ss_exp p" "nowS (c1 1) < ss_exp p"
    and "decideTimeout (fst (st_getPolicy (sw_timeout w))) (ss_iat p) None (nowS (c1 1)) = None"
  shows "fst (verifySessionCookie E c1 opts (Some tok) w1) = Some p"
proof -
  let ?C = "se_codec E"
  define body where "body = ck_body ?C p"
  obtain d w0 where d: "sign E body w = (d, w0)" by fastforce
  define inp where "inp = \<lparr>ri_jti = or_empty (ss_jti p), ri_sub = mi_sub i, ri_email = mi_email i, ri_iss = mi_iss i, ri_iat = ss_iat p,
    ri_exp = ss_exp p, ri_ip = None, ri_user_agent = None\<rparr>"
  define reg where "reg = snd (registerSession (se_host E) (c0 1) inp (sw_reg w0))"
  have w0: "sw_reg w0 = sw_reg w" "sw_timeout w0 = sw_timeout w" using sign_world[of E body w] d by auto
  have mint: "tok = body @ ''.'' @ ck_b64u ?C d" "w1 = w0\<lparr>sw_reg := reg\<rparr>"
    using assms(2) d by (auto simp: mintSessionCookie_def mintSession_def Let_def p_def[symmetric] body_def[symmetric] inp_def reg_def)
  have split: "split_on (CHR ''.'') tok = [body, ck_b64u ?C d]"
    using codec by (simp add: mint(1) reads_back_def body_def js_str)
  have j: "ss_jti p = Some (ri_jti inp)" "ri_jti inp \<noteq> []" "ss_v p = 1"
    using \<open>rnd \<noteq> []\<close> by (auto simp: p_def mint_payload_def Let_def inp_def or_empty_def split: option.splits)
  have reg: "find (\<lambda>r. sr_jti r = ri_jti inp) (rg_records (reg_readStore reg)) = Some (new_row (se_host E) inp)"
    unfolding reg_def by (rule find_registered) (use assms(5,7) w0 in \<open>auto simp: inp_def\<close>)
  have ep: "rg_epoch (reg_readStore reg) = rg_epoch (reg_readStore (sw_reg w))"
    by (simp add: reg_def registerSession_def Let_def w0)
  have live: "fst (checkSession (se_host E) (c1 1) (ss_jti p) (ss_iat p) (ss_exp p) l (sw_timeout w0, reg)) = Live" for l
    unfolding checkSession_Live using j reg assms(6,9,10) w0 by (auto simp: ep new_row_def)
  have "sign E body w1 = (d, w1)" using sign_stable[OF d] mint(2) by simp
  moreover have "tok \<noteq> []" using mint(1) by simp
  moreover have "ck_b64uDec ?C (ck_b64u ?C d) = d" "ck_parse ?C body = Some p" using codec by (auto simp: reads_back_def body_def)
  ultimately show ?thesis using split j(3) assms(8) live[of "vo_liveness opts"] mint(2)
    by (auto simp: verifySessionCookie_def or_empty_def nowS_def split: prod.splits)
qed

definition hex_codec :: "SsoSession \<Rightarrow> cookie_codec" where
  "hex_codec p = \<lparr>ck_body = (\<lambda>_. ''body''), ck_parse = (\<lambda>b. if b = ''body'' then Some p else None),
     ck_b64u = (\<lambda>s. concat (map (\<lambda>c. fixed_digits 16 2 (int (of_char c))) s)),
     ck_b64uDec = (\<lambda>s. map (\<lambda>k. char_of (nat (digits_value 16 (take 2 (drop (2 * k) s))))) [0..<length s div 2])\<rparr>"

lemma hex_chunk: "take 2 (drop (2 * k) (concat (map (\<lambda>c. fixed_digits 16 2 (g c)) s))) = fixed_digits 16 2 (g (s ! k))" if "k < length s"
  using that
proof (induction s arbitrary: k)
  case Nil
  then show ?case by simp
next
  case (Cons c s)
  then show ?case by (cases k) auto
qed

lemma hex_roundtrip: "ck_b64uDec (hex_codec p) (ck_b64u (hex_codec p) s) = s"
proof -
  have len: "length (concat (map (\<lambda>c. fixed_digits 16 2 (int (of_char c))) s)) = 2 * length s"
    by (induction s) auto
  have "digits_value 16 (fixed_digits 16 2 (int (of_char c))) = int (of_char c)" for c :: char
    using nat_of_char_less_256[of c] by (intro fixed_digits_value) auto
  then show ?thesis by (auto simp: hex_codec_def len hex_chunk intro!: nth_equalityI)
qed

lemma hex_no_dot: "CHR ''.'' \<notin> set (ck_b64u (hex_codec p) s)"
proof -
  have "digit_char d \<noteq> CHR ''.''" if "0 \<le> d" "d < 16" for d
    using digit_cases[OF that] by (auto simp: digit_char_def dest!: arg_cong[of _ _ "of_char :: char \<Rightarrow> nat"])
  then have "CHR ''.'' \<noteq> digit_char (k mod 16)" for k using pos_mod_bound[of 16 k] pos_mod_sign[of 16 k] by fastforce
  then show ?thesis by (simp add: hex_codec_def eval_nat_numeral)
qed

definition sample_mint :: MintInput where
  "sample_mint = \<lparr>mi_sub = ''s'', mi_email = ''x@y'', mi_iss = ''i'', mi_jti = None\<rparr>"

definition sample_sso :: sso_env where
  "sample_sso = \<lparr>se_host = sample_host, se_codec = hex_codec (mint_payload 400000 ''abcdefgh'' sample_mint), se_env = None, se_gen = ''key''\<rparr>"

definition sample_sso_world :: sso_world where
  "sample_sso_world = \<lparr>sw_keys = \<lparr>sk_cached = None, sk_file = None\<rparr>, sw_timeout = sample_timeouts, sw_reg = sample_reg\<rparr>"

theorem minted_cookie_verifies_witness:
  "fst (verifySessionCookie sample_sso (\<lambda>_. 500000) \<lparr>vo_skipRegistry = False, vo_liveness = None\<rparr>
     (Some (fst (mintSessionCookie sample_sso (\<lambda>_. 400000) ''abcdefgh'' sample_mint sample_sso_world)))
     (snd (mintSessionCookie sample_sso (\<lambda>_. 400000) ''abcdefgh'' sample_mint sample_sso_world)))
   = Some (mint_payload 400000 ''abcdefgh'' sample_mint)"
proof (rule minted_cookie_verifies[OF refl])
  show "reads_back (se_codec sample_sso) (mint_payload 400000 ''abcdefgh'' sample_mint)"
    using hex_roundtrip hex_no_dot by (auto simp: reads_back_def sample_sso_def) (auto simp: hex_codec_def)
  show "mintSessionCookie sample_sso (\<lambda>_. 400000) ''abcdefgh'' sample_mint sample_sso_world
    = (fst (mintSessionCookie sample_sso (\<lambda>_. 400000) ''abcdefgh'' sample_mint sample_sso_world),
       snd (mintSessionCookie sample_sso (\<lambda>_. 400000) ''abcdefgh'' sample_mint sample_sso_world))" by simp
  show "length (rg_records (reg_readStore (sw_reg sample_sso_world))) < MAX_RECORDS"
    by (simp add: sample_sso_world_def sample_reg_def MAX_RECORDS_def)
  show "decideTimeout (fst (st_getPolicy (sw_timeout sample_sso_world)))
      (ss_iat (mint_payload 400000 ''abcdefgh'' sample_mint)) None (nowS 500000) = None"
    by code_simp
qed (simp_all add: sample_sso_world_def sample_reg_def mint_payload_def nowS_def SESSION_TTL_S_def Let_def)

theorem sso_session_sound_witness:
  "\<exists>body sig row. fst (mintSessionCookie sample_sso (\<lambda>_. 400000) ''abcdefgh'' sample_mint sample_sso_world) = body @ ''.'' @ sig
    \<and> find (\<lambda>r. Some (sr_jti r) = Some ''abcdefgh'')
        (rg_records (reg_readStore (sw_reg (snd (mintSessionCookie sample_sso (\<lambda>_. 400000) ''abcdefgh'' sample_mint sample_sso_world))))) = Some row
    \<and> \<not> set_time (sr_revoked_at row)"
proof -
  let ?m = "mintSessionCookie sample_sso (\<lambda>_. 400000) ''abcdefgh'' sample_mint sample_sso_world"
  let ?o = "\<lparr>vo_skipRegistry = False, vo_liveness = None\<rparr>"
  have "fst (verifySessionCookie sample_sso (\<lambda>_. 500000) ?o (Some (fst ?m)) (snd ?m)) = Some (mint_payload 400000 ''abcdefgh'' sample_mint)"
    by code_simp
  from sso_session_sound[OF this] show ?thesis by (fastforce simp: mint_payload_def Let_def sample_mint_def or_empty_def)
qed

section \<open>Idle timeouts\<close>

text \<open>The answers to a sequence of checks of one session from one address.\<close>

fun check_run :: "host \<Rightarrow> string \<Rightarrow> int \<Rightarrow> int \<Rightarrow> string option \<Rightarrow> int list \<Rightarrow> st_store \<times> reg_store \<Rightarrow> RevocationStatus list" where
  "check_run H j iat ex ip [] w = []"
| "check_run H j iat ex ip (ms # mss) w =
     (case checkSession H ms (Some j) iat ex (Some ip) w of (r, w') \<Rightarrow> r # check_run H j iat ex ip mss w')"

text \<open>\<open>gaps d t ts\<close>: each of the times follows the one before, the first one \<open>t\<close>, by at most \<open>d\<close> seconds.\<close>

fun gaps :: "int \<Rightarrow> int \<Rightarrow> int list \<Rightarrow> bool" where
  "gaps d t [] = True"
| "gaps d t (ms # mss) = (t \<le> nowS ms \<and> nowS ms \<le> t + d \<and> gaps d (nowS ms) mss)"

text \<open>The session has a live row whose last use is recorded with a delay of at most 30 seconds.\<close>

definition tracked :: "string \<Rightarrow> int \<Rightarrow> int \<Rightarrow> reg_state \<Rightarrow> bool" where
  "tracked j iat t s \<longleftrightarrow> (\<exists>row. find (\<lambda>r. sr_jti r = j) (rg_records s) = Some row \<and> \<not> set_time (sr_revoked_at row)
     \<and> (case sr_last_seen_at row of None \<Rightarrow> t \<le> iat + 30 | Some l \<Rightarrow> t \<le> l + 30))"

lemma tracked_step:
  assumes "tracked j iat t (reg_readStore st)" "j \<noteq> []" "rg_epoch (reg_readStore st) = 0 \<or> rg_epoch (reg_readStore st) < iat"
    and "t \<le> nowS ms" "nowS ms \<le> t + (st_idle pol - 31)" "nowS ms < ex" "st_absolute pol = 0 \<or> nowS ms < iat + st_absolute pol"
    and "fst (st_getPolicy tp) = pol"
  obtains tp' st' where "checkSession H ms (Some j) iat ex (Some ip) (tp, st) = (Live, tp', st')"
    "tracked j iat (nowS ms) (reg_readStore st')" "rg_epoch (reg_readStore st') = rg_epoch (reg_readStore st)" "fst (st_getPolicy tp') = pol"
proof -
  let ?s = "reg_readStore st" and ?now = "nowS ms" and ?h = "sso_hashIp H ip"
  let ?same = "\<lambda>r. sr_jti r = j"
  obtain row where row: "find ?same (rg_records ?s) = Some row" "\<not> set_time (sr_revoked_at row)"
      "case sr_last_seen_at row of None \<Rightarrow> t \<le> iat + 30 | Some l \<Rightarrow> t \<le> l + 30"
    using assms(1) by (auto simp: tracked_def)
  then have dec: "decideTimeout pol iat (sr_last_seen_at row) ?now = None"
    using assms(4-7) by (cases "sr_last_seen_at row") (auto simp: decideTimeout_def)
  obtain tp' where tp: "st_getPolicy tp = (pol, tp')" using assms(8) by (cases "st_getPolicy tp") auto
  then have tp': "fst (st_getPolicy tp') = pol" by (auto simp: st_getPolicy_def Let_def split: option.splits)
  show thesis
  proof (cases "stale ?now ?h row")
    case True
    let ?st = "reg_flush (?s\<lparr>rg_records := upd_first ?same (touch ?now ?h) (rg_records ?s)\<rparr>) (reg_cached ?s st)"
    have "find ?same (upd_first ?same (touch ?now ?h) (rg_records ?s)) = Some (touch ?now ?h row)"
      using row(1) find_SomeD[OF row(1)] by (intro find_upd_first_same) auto
    with row(2) have "tracked j iat ?now (reg_readStore ?st)" by (simp add: tracked_def)
    moreover have "checkSession H ms (Some j) iat ex (Some ip) (tp, st) = (Live, tp', ?st)"
      using assms row dec True tp by (auto simp: checkSession_def Let_def or_empty_def)
    ultimately show thesis using tp' by (intro that[of tp' ?st]) auto
  next
    case False
    let ?st = "reg_cached ?s st"
    have "tracked j iat ?now (reg_readStore ?st)"
      using row False by (auto simp: tracked_def stale_def set_time_def split: option.splits)
    moreover have "checkSession H ms (Some j) iat ex (Some ip) (tp, st) = (Live, tp', ?st)"
      using assms row dec False tp by (auto simp: checkSession_def Let_def or_empty_def)
    ultimately show thesis using tp' by (intro that[of tp' ?st]) auto
  qed
qed

lemma tracked_run:
  "\<lbrakk>tracked j iat t (reg_readStore st); j \<noteq> []; rg_epoch (reg_readStore st) = 0 \<or> rg_epoch (reg_readStore st) < iat;
    gaps (st_idle pol - 31) t mss; list_all (\<lambda>ms. nowS ms < ex \<and> (st_absolute pol = 0 \<or> nowS ms < iat + st_absolute pol)) mss;
    fst (st_getPolicy tp) = pol\<rbrakk>
   \<Longrightarrow> list_all (\<lambda>r. r = Live) (check_run H j iat ex ip mss (tp, st))"
proof (induction mss arbitrary: t tp st)
  case Nil
  then show ?case by simp
next
  case (Cons ms mss)
  obtain tp' st' where s: "checkSession H ms (Some j) iat ex (Some ip) (tp, st) = (Live, tp', st')"
      "tracked j iat (nowS ms) (reg_readStore st')" "rg_epoch (reg_readStore st') = rg_epoch (reg_readStore st)" "fst (st_getPolicy tp') = pol"
    by (rule tracked_step[OF Cons.prems(1-3), where ms = ms and pol = pol and ex = ex and tp = tp and H = H and ip = ip])
       (use Cons.prems(4-6) in auto)
  have "list_all (\<lambda>r. r = Live) (check_run H j iat ex ip mss (tp', st'))"
    by (rule Cons.IH[OF s(2)]) (use Cons.prems s in auto)
  with s(1) show ?case by simp
qed

text \<open>C38: A session in use survives: from its registration on, as long as two uses are never more than the idle
  timeout less 31 seconds apart, every check within its lifetime is answered with \<open>Live\<close>.\<close>

theorem session_in_use_stays_live:
  assumes "find (\<lambda>r. sr_jti r = j) (rg_records (reg_readStore st)) = Some (new_row H i)" "j \<noteq> []"
    and "rg_epoch (reg_readStore st) = 0 \<or> rg_epoch (reg_readStore st) < ri_iat i"
    and "fst (st_getPolicy tp) = pol" "gaps (st_idle pol - 31) (ri_iat i) mss"
    and "list_all (\<lambda>ms. nowS ms < ri_exp i \<and> (st_absolute pol = 0 \<or> nowS ms < ri_iat i + st_absolute pol)) mss"
  shows "list_all (\<lambda>r. r = Live) (check_run H j (ri_iat i) (ri_exp i) ip mss (tp, st))"
proof (rule tracked_run[OF _ assms(2,3) assms(5,6,4)])
  show "tracked j (ri_iat i) (ri_iat i) (reg_readStore st)"
    using assms(1) by (auto simp: tracked_def new_row_def)
qed

definition idle_policy :: SessionTimeoutPolicy where
  "idle_policy = st_defaultPolicy\<lparr>st_enforce := True, st_idle := 60\<rparr>"

definition idle_timeouts :: st_store where
  "idle_timeouts = \<lparr>st_file = Stored idle_policy, st_cache = Some idle_policy\<rparr>"

definition sample_input_row :: "string \<Rightarrow> string \<Rightarrow> RegisterInput" where
  "sample_input_row j email = \<lparr>ri_jti = j, ri_sub = ''s'', ri_email = email, ri_iss = ''i'', ri_iat = 100, ri_exp = 43300,
     ri_ip = None, ri_user_agent = None\<rparr>"

theorem session_in_use_stays_live_witness:
  "list_all (\<lambda>r. r = Live) (check_run sample_host ''a'' 100 43300 (Some ''1.2.3.4'') [110000, 135000, 160000, 185000, 210000] (idle_timeouts, sample_reg))"
proof -
  have i: "ri_iat (sample_input_row ''a'' ''x@y'') = 100" "ri_exp (sample_input_row ''a'' ''x@y'') = 43300" by (simp_all add: sample_input_row_def)
  have 1: "find (\<lambda>r. sr_jti r = ''a'') (rg_records (reg_readStore sample_reg)) = Some (new_row sample_host (sample_input_row ''a'' ''x@y''))"
    by (simp add: sample_reg_def sample_row_def sample_input_row_def new_row_def)
  have 2: "rg_epoch (reg_readStore sample_reg) = 0 \<or> rg_epoch (reg_readStore sample_reg) < ri_iat (sample_input_row ''a'' ''x@y'')"
    by (simp add: sample_reg_def)
  have 3: "fst (st_getPolicy idle_timeouts) = idle_policy" by (simp add: st_getPolicy_def idle_timeouts_def)
  from session_in_use_stays_live[OF 1 _ 2 3, where mss = "[110000, 135000, 160000, 185000, 210000]"] show ?thesis
    unfolding i by (simp add: nowS_def idle_policy_def st_defaultPolicy_def)
qed

text \<open>The 31 seconds matter: the registry records a use only when the last recorded one is more than 30 seconds
  old. With an idle timeout of 60 seconds, a session used at seconds 100, 130 and 160 is killed at the third
  use, 30 seconds after the second.\<close>

lemma idle_timeout_fires_early:
  "check_run sample_host ''a'' 100 43300 (Some ''1.2.3.4'') [100000, 130000, 160000] (idle_timeouts, sample_reg)
   = [Live, Live, Rejected_timeout Idle_timeout]"
  by code_simp

end
