(* ===== verification/SsoPolicy.thy ===== *)
theory SsoPolicy
  imports JsonStore
begin

text \<open>
  The workspace's single sign-on policy (\<^verbatim>\<open>src/web/lib/ssoPolicyStore.ts\<close>, the persisted policy): its
  validation and update. The provider's discovery document and key set are fetched over the network
  and are not modelled.

  The theorem: whatever sequence of updates is applied, the stored policy is well-formed; in particular
  single sign-on is never enforced while it is disabled, and never enabled without a complete client.
\<close>

record SsoPolicy =
  sp_enabled :: bool
  sp_issuer :: string
  sp_client_id :: string
  sp_client_secret :: string
  sp_allowed_domains :: "string list"
  sp_enforce :: bool
  sp_redirect_uri :: "string option"
  sp_updated_at :: "string option"
  sp_updated_by :: "string option"

record SsoPolicyPublic =
  pp_enabled :: bool
  pp_issuer :: string
  pp_client_id :: string
  pp_allowed_domains :: "string list"
  pp_enforce :: bool
  pp_redirect_uri :: "string option"
  pp_updated_at :: "string option"
  pp_updated_by :: "string option"
  pp_client_secret_set :: bool

definition MAX_DOMAINS :: nat where "MAX_DOMAINS = 32"

definition sso_defaultPolicy :: SsoPolicy where
  "sso_defaultPolicy = \<lparr>sp_enabled = False, sp_issuer = [], sp_client_id = [], sp_client_secret = [], sp_allowed_domains = [],
     sp_enforce = False, sp_redirect_uri = None, sp_updated_at = None, sp_updated_by = None\<rparr>"

definition sso_toPublic :: "SsoPolicy \<Rightarrow> SsoPolicyPublic" where
  "sso_toPublic p = \<lparr>pp_enabled = sp_enabled p, pp_issuer = sp_issuer p, pp_client_id = sp_client_id p,
     pp_allowed_domains = sp_allowed_domains p, pp_enforce = sp_enforce p, pp_redirect_uri = sp_redirect_uri p,
     pp_updated_at = sp_updated_at p, pp_updated_by = sp_updated_by p, pp_client_secret_set = (sp_client_secret p \<noteq> [])\<rparr>"

text \<open>Every failure of the read counts as the default policy.\<close>

definition getSsoPolicy :: "SsoPolicy cast_file \<Rightarrow> SsoPolicy" where
  "getSsoPolicy f = (case f of Stored p \<Rightarrow> p | _ \<Rightarrow> sso_defaultPolicy)"

section \<open>Validation\<close>

definition alnum :: "char \<Rightarrow> bool" where
  "alnum c \<longleftrightarrow> is_digit c \<or> is_lower c \<or> is_upper c"

definition host_char :: "char \<Rightarrow> bool" where
  "host_char c \<longleftrightarrow> alnum c \<or> c \<in> set ''.-''"

definition path_char :: "char \<Rightarrow> bool" where
  "path_char c \<longleftrightarrow> alnum c \<or> c \<in> set ''._~/-''"

text \<open>\<^verbatim>\<open>/^https:\/\/[a-z0-9.\-]+(?::\d+)?(?:\/[A-Za-z0-9._~/\-]*)?$/i\<close>. The characters of a host end at a colon or a
  slash, so the greedy match is the only one.\<close>

definition ISSUER_RE :: "string \<Rightarrow> bool" where
  "ISSUER_RE s \<longleftrightarrow>
     toLowerCase (take 8 s) = ''https://''
     \<and> (let h = drop 8 s; rest = dropWhile host_char h in
        takeWhile host_char h \<noteq> []
        \<and> (let tail = (if take 1 rest = '':'' then dropWhile is_digit (drop 1 rest) else rest) in
           (take 1 rest = '':'' \<longrightarrow> takeWhile is_digit (drop 1 rest) \<noteq> [])
           \<and> (tail = [] \<or> (take 1 tail = ''/'' \<and> list_all path_char (drop 1 tail)))))"

text \<open>\<^verbatim>\<open>/^[a-z0-9.-]+\.[a-z]{2,}$/i\<close>: the last dot separates the top-level domain.\<close>

definition DOMAIN_RE :: "string \<Rightarrow> bool" where
  "DOMAIN_RE s \<longleftrightarrow>
     (let tld = rev (takeWhile (\<lambda>c. c \<noteq> CHR ''.'') (rev s)); hd = rev (drop 1 (dropWhile (\<lambda>c. c \<noteq> CHR ''.'') (rev s))) in
      CHR ''.'' \<in> set s \<and> 2 \<le> length tld \<and> list_all (\<lambda>c. is_lower c \<or> is_upper c) tld \<and> hd \<noteq> [] \<and> list_all host_char hd)"

definition strip_slashes :: "string \<Rightarrow> string" where
  "strip_slashes s = rev (dropWhile (\<lambda>c. c = CHR ''/'') (rev s))"

definition canonicalizeIssuer :: "string \<Rightarrow> string res" where
  "canonicalizeIssuer raw =
     (let s = strip_slashes (trim raw) in
      if s = [] then Inl (Thrown ''issuer required'')
      else if 256 < length s then Inl (Thrown ''issuer too long'')
      else if \<not> ISSUER_RE s then Inl (Thrown ''issuer must be https URL'')
      else Inr s)"

fun domain_loop :: "string list \<Rightarrow> string list \<Rightarrow> string list res" where
  "domain_loop out [] = Inr out"
| "domain_loop out (r # rs) =
     (let v = toLowerCase (trim r) in
      if v = [] then domain_loop out rs
      else if 253 < length v then Inl (Thrown (''domain too long: '' @ v))
      else if \<not> DOMAIN_RE v then Inl (Thrown (''invalid domain: '' @ v))
      else if v \<in> set out then domain_loop out rs
      else if MAX_DOMAINS < Suc (length out) then Inl (Thrown (''too many domains (max '' @ dec_str (int MAX_DOMAINS) @ '')''))
      else domain_loop (out @ [v]) rs)"

definition canonicalizeDomains :: "string list \<Rightarrow> string list res" where
  "canonicalizeDomains raw = domain_loop [] raw"

section \<open>Updates\<close>

text \<open>A field that is absent is \<open>None\<close>; the fields that may be \<^verbatim>\<open>null\<close> have \<open>Some None\<close> for it.\<close>

record UpdateInput =
  up_enabled :: "bool option"
  up_issuer :: "string option"
  up_client_id :: "string option"
  up_client_secret :: "string option option"
  up_allowed_domains :: "string list option"
  up_enforce :: "bool option"
  up_redirect_uri :: "string option option"
  up_actor :: "string option"

definition bind_res :: "'a res \<Rightarrow> ('a \<Rightarrow> 'b res) \<Rightarrow> 'b res" where
  "bind_res x f = (case x of Inl e \<Rightarrow> Inl e | Inr v \<Rightarrow> f v)"

definition client_id_char :: "char \<Rightarrow> bool" where
  "client_id_char c \<longleftrightarrow> alnum c \<or> c \<in> set ''._:-''"

definition next_client_id :: "string option \<Rightarrow> string \<Rightarrow> string res" where
  "next_client_id x cur =
     (case x of
        None \<Rightarrow> Inr cur
      | Some raw \<Rightarrow>
          (let v = trim raw in
           if v = [] then Inl (Thrown ''client_id required'')
           else if 256 < length v then Inl (Thrown ''client_id too long'')
           else if \<not> list_all client_id_char v then Inl (Thrown ''invalid client_id'')
           else Inr v))"

definition next_secret :: "string option option \<Rightarrow> string \<Rightarrow> string res" where
  "next_secret x cur =
     (case x of
        None \<Rightarrow> Inr cur
      | Some None \<Rightarrow> Inr []
      | Some (Some v) \<Rightarrow>
          if v = [] then Inr cur else if 512 < length v then Inl (Thrown ''client_secret too long'') else Inr v)"

definition next_redirect :: "string option option \<Rightarrow> string option \<Rightarrow> string option res" where
  "next_redirect x cur =
     (case x of
        None \<Rightarrow> Inr cur
      | Some None \<Rightarrow> Inr None
      | Some (Some raw) \<Rightarrow>
          (let v = trim raw in
           if v = [] then Inr None
           else if 512 < length v then Inl (Thrown ''redirect_uri too long'')
           else if \<not> (startsWith v ''http://'' \<or> startsWith v ''https://'') then Inl (Thrown ''redirect_uri must be http(s)'')
           else Inr (Some v)))"

definition next_policy :: "int \<Rightarrow> UpdateInput \<Rightarrow> SsoPolicy \<Rightarrow> SsoPolicy res" where
  "next_policy now input before =
     bind_res (case up_issuer input of None \<Rightarrow> Inr (sp_issuer before) | Some raw \<Rightarrow> canonicalizeIssuer raw) (\<lambda>issuer.
     bind_res (next_client_id (up_client_id input) (sp_client_id before)) (\<lambda>cid.
     bind_res (next_secret (up_client_secret input) (sp_client_secret before)) (\<lambda>secret.
     bind_res (case up_allowed_domains input of None \<Rightarrow> Inr (sp_allowed_domains before) | Some ds \<Rightarrow> canonicalizeDomains ds) (\<lambda>domains.
     bind_res (next_redirect (up_redirect_uri input) (sp_redirect_uri before)) (\<lambda>redirect.
       (let enabled = (case up_enabled input of None \<Rightarrow> sp_enabled before | Some b \<Rightarrow> b);
            enforce = (case up_enforce input of None \<Rightarrow> sp_enforce before | Some b \<Rightarrow> b)
        in if enabled \<and> (issuer = [] \<or> cid = [] \<or> secret = [])
           then Inl (Thrown ''issuer, client_id, client_secret required when enabled'')
           else if enforce \<and> \<not> enabled then Inl (Thrown ''cannot enforce SSO while SSO is disabled'')
           else Inr \<lparr>sp_enabled = enabled, sp_issuer = issuer, sp_client_id = cid, sp_client_secret = secret,
                  sp_allowed_domains = domains, sp_enforce = enforce, sp_redirect_uri = redirect,
                  sp_updated_at = Some (toISOString now),
                  sp_updated_by = (case up_actor input of None \<Rightarrow> sp_updated_by before | Some a \<Rightarrow> Some a)\<rparr>))))))"

definition updateSsoPolicy :: "int \<Rightarrow> UpdateInput \<Rightarrow> SsoPolicy cast_file \<Rightarrow> (SsoPolicy \<times> SsoPolicy) res \<times> SsoPolicy cast_file" where
  "updateSsoPolicy now input f =
     (let before = getSsoPolicy f in
      case next_policy now input before of
        Inl e \<Rightarrow> (Inl e, f)
      | Inr after \<Rightarrow> (Inr (before, after), Stored after))"

section \<open>The stored policy is well-formed\<close>

definition good_domain :: "string \<Rightarrow> bool" where
  "good_domain d \<longleftrightarrow> DOMAIN_RE d \<and> length d \<le> 253 \<and> toLowerCase d = d"

definition sso_policy_ok :: "SsoPolicy \<Rightarrow> bool" where
  "sso_policy_ok p \<longleftrightarrow>
     (sp_enforce p \<longrightarrow> sp_enabled p)
     \<and> (sp_enabled p \<longrightarrow> sp_issuer p \<noteq> [] \<and> sp_client_id p \<noteq> [] \<and> sp_client_secret p \<noteq> [])
     \<and> (sp_issuer p = [] \<or> (ISSUER_RE (sp_issuer p) \<and> length (sp_issuer p) \<le> 256))
     \<and> length (sp_client_id p) \<le> 256 \<and> length (sp_client_secret p) \<le> 512
     \<and> distinct (sp_allowed_domains p) \<and> length (sp_allowed_domains p) \<le> MAX_DOMAINS \<and> list_all good_domain (sp_allowed_domains p)"

lemma bind_res_Inr [simp]: "bind_res x f = Inr v \<longleftrightarrow> (\<exists>u. x = Inr u \<and> f u = Inr v)"
  by (cases x) (auto simp: bind_res_def)

lemma to_lower_char_idem: "to_lower_char (to_lower_char c) = to_lower_char c"
  by (auto simp: to_lower_char_def Let_def)

lemma toLowerCase_idem [simp]: "toLowerCase (toLowerCase s) = toLowerCase s"
  by (simp add: toLowerCase_def to_lower_char_idem)

lemma domain_loop_ok:
  "\<lbrakk>domain_loop out rs = Inr ds; distinct out; length out \<le> MAX_DOMAINS; list_all good_domain out\<rbrakk>
   \<Longrightarrow> distinct ds \<and> length ds \<le> MAX_DOMAINS \<and> list_all good_domain ds"
proof (induction rs arbitrary: out)
  case Nil
  then show ?case by simp
next
  case (Cons r rs)
  define v where "v = toLowerCase (trim r)"
  have low: "toLowerCase v = v" by (simp add: v_def)
  note e = Cons.prems(1)[unfolded domain_loop.simps Let_def, folded v_def]
  show ?case
  proof (cases "v = [] \<or> v \<in> set out")
    case True
    with e have "domain_loop out rs = Inr ds" by (auto split: if_splits)
    with Cons show ?thesis by blast
  next
    case False
    with e have "domain_loop (out @ [v]) rs = Inr ds" "good_domain v" "Suc (length out) \<le> MAX_DOMAINS"
      using low by (auto simp: good_domain_def split: if_splits)
    with False Cons.IH[of "out @ [v]"] Cons.prems show ?thesis by simp
  qed
qed

lemma next_policy_ok:
  assumes "sso_policy_ok before" "next_policy now input before = Inr p"
  shows "sso_policy_ok p"
proof -
  obtain issuer cid secret domains redirect where
    i: "(case up_issuer input of None \<Rightarrow> Inr (sp_issuer before) | Some raw \<Rightarrow> canonicalizeIssuer raw) = Inr issuer" and
    c: "next_client_id (up_client_id input) (sp_client_id before) = Inr cid" and
    s: "next_secret (up_client_secret input) (sp_client_secret before) = Inr secret" and
    d: "(case up_allowed_domains input of None \<Rightarrow> Inr (sp_allowed_domains before) | Some ds \<Rightarrow> canonicalizeDomains ds) = Inr domains" and
    p: "sp_issuer p = issuer" "sp_client_id p = cid" "sp_client_secret p = secret" "sp_allowed_domains p = domains"
       "sp_enabled p \<longrightarrow> issuer \<noteq> [] \<and> cid \<noteq> [] \<and> secret \<noteq> []" "sp_enforce p \<longrightarrow> sp_enabled p"
    using assms(2) by (auto simp: next_policy_def Let_def split: if_splits)
  have "issuer = [] \<or> (ISSUER_RE issuer \<and> length issuer \<le> 256)"
    using i assms(1) by (auto simp: canonicalizeIssuer_def sso_policy_ok_def Let_def split: option.splits if_splits)
  moreover have "length cid \<le> 256"
    using c assms(1) by (auto simp: next_client_id_def sso_policy_ok_def Let_def split: option.splits if_splits)
  moreover have "length secret \<le> 512"
    using s assms(1) by (auto simp: next_secret_def sso_policy_ok_def split: option.splits if_splits)
  moreover have "distinct domains \<and> length domains \<le> MAX_DOMAINS \<and> list_all good_domain domains"
    using d assms(1) domain_loop_ok[of "[]" _ domains]
    by (auto simp: canonicalizeDomains_def sso_policy_ok_def split: option.splits)
  ultimately show ?thesis using p by (simp add: sso_policy_ok_def)
qed

lemma updateSsoPolicy_ok:
  assumes "sso_policy_ok (getSsoPolicy f)"
  shows "sso_policy_ok (getSsoPolicy (snd (updateSsoPolicy now input f)))"
  using assms next_policy_ok[OF assms] by (auto simp: updateSsoPolicy_def Let_def getSsoPolicy_def split: sum.splits)

interpretation policy_run: preserved "\<lambda>(now, input) f. snd (updateSsoPolicy now input f)" "\<lambda>_. True" "\<lambda>f. sso_policy_ok (getSsoPolicy f)"
  by unfold_locales (auto simp: updateSsoPolicy_ok)

text \<open>C39: Whatever updates are applied to a fresh installation, accepted or rejected, the stored policy is well-formed: enforced only
  when enabled, enabled only with issuer, client and secret, and with at most 32 distinct canonical domains.\<close>

theorem sso_policy_always_wellformed:
  "sso_policy_ok (getSsoPolicy (fold (\<lambda>(now, input) f. snd (updateSsoPolicy now input f)) updates NoFile))"
proof (rule policy_run.run)
  show "sso_policy_ok (getSsoPolicy NoFile)" by (simp add: getSsoPolicy_def sso_policy_ok_def sso_defaultPolicy_def)
qed (simp add: list_all_iff)

end
