(* ===== verification/AuthLockout.thy ===== *)
theory AuthLockout
  imports JsonStore "HOL-Library.AList"
begin

text \<open>
  The per-address lockout after failed authentications
  (\<^verbatim>\<open>src/web/lib/authLockoutStore.ts\<close>): its configuration with the clamping of submitted values,
  the table of addresses, and the operations the key store calls. The table is the object
  \<^verbatim>\<open>state.ips\<close>, an association list in insertion order. Writes go through one promise chain, so
  they do not interleave.

  The theorems: the configured number of failures inside the window locks the address for
  the cooldown, fewer do not, the table never exceeds its cap, and a threshold that is not a
  number switches the lockout off.
\<close>

section \<open>Configuration\<close>

text \<open>
  \<^verbatim>\<open>Math.max(lo, Math.min(hi, Math.floor(x)))\<close> is an integer between the bounds, or \<^verbatim>\<open>NaN\<close>
  (\<open>None\<close>) when \<open>x\<close> is.
\<close>

fun clamp :: "int \<Rightarrow> int \<Rightarrow> jsnum \<Rightarrow> int option" where
  "clamp lo hi NaN = None"
| "clamp lo hi PosInf = Some hi"
| "clamp lo hi NegInf = Some lo"
| "clamp lo hi (Fin q) = Some (max lo (min hi \<lfloor>q\<rfloor>))"

record LockoutConfig =
  lc_threshold :: "int option"
  lc_window :: "int option"
  lc_cooldown :: "int option"
  lc_enabled :: bool

text \<open>A submitted or persisted configuration: the value of \<^verbatim>\<open>Number(c.field)\<close> for each field that is
  neither missing nor \<^verbatim>\<open>null\<close>.\<close>

record ConfigInput =
  in_threshold :: "jsnum option"
  in_window :: "jsnum option"
  in_cooldown :: "jsnum option"
  in_enabled :: bool

definition DEFAULT_CONFIG :: LockoutConfig where
  "DEFAULT_CONFIG = \<lparr>lc_threshold = Some 10, lc_window = Some 300, lc_cooldown = Some 900, lc_enabled = False\<rparr>"

definition MAX_TRACKED_IPS :: nat where "MAX_TRACKED_IPS = 10000"

definition coalesce :: "jsnum option \<Rightarrow> int \<Rightarrow> jsnum" where
  "coalesce x d = (case x of None \<Rightarrow> jsint d | Some n \<Rightarrow> n)"

definition validateConfig :: "ConfigInput \<Rightarrow> LockoutConfig" where
  "validateConfig c =
     \<lparr>lc_threshold = clamp 1 1000 (coalesce (in_threshold c) 10),
      lc_window = clamp 10 86400 (coalesce (in_window c) 300),
      lc_cooldown = clamp 30 86400 (coalesce (in_cooldown c) 900),
      lc_enabled = in_enabled c\<rparr>"

text \<open>What \<^verbatim>\<open>JSON.stringify\<close> leaves of a configuration: \<^verbatim>\<open>NaN\<close> is written as \<^verbatim>\<open>null\<close>.\<close>

definition config_json :: "LockoutConfig \<Rightarrow> ConfigInput" where
  "config_json c =
     \<lparr>in_threshold = map_option jsint (lc_threshold c), in_window = map_option jsint (lc_window c),
      in_cooldown = map_option jsint (lc_cooldown c), in_enabled = lc_enabled c\<rparr>"

section \<open>State\<close>

record IpState =
  failures :: "int list"
  locked_until :: "string option"
  first_failure_at :: "string option"
  last_failure_at :: "string option"
  total_failures :: int

type_synonym lk_state = "(string \<times> IpState) list"

record lk_store =
  lk_file :: "lk_state cast_file"
  lk_config_file :: "ConfigInput cast_file"
  lk_cachedConfig :: "LockoutConfig option"

definition lk_readState :: "lk_store \<Rightarrow> lk_state" where
  "lk_readState st = (case lk_file st of Stored s \<Rightarrow> s | NoFile \<Rightarrow> [] | BadFile \<Rightarrow> [])"

definition lk_writeState :: "lk_state \<Rightarrow> lk_store \<Rightarrow> lk_store" where
  "lk_writeState s st = st\<lparr>lk_file := Stored s\<rparr>"

definition getConfig :: "lk_store \<Rightarrow> LockoutConfig \<times> lk_store" where
  "getConfig st =
     (case lk_cachedConfig st of
        Some c \<Rightarrow> (c, st)
      | None \<Rightarrow>
          (let c = (case lk_config_file st of Stored i \<Rightarrow> validateConfig i | _ \<Rightarrow> DEFAULT_CONFIG)
           in (c, st\<lparr>lk_cachedConfig := Some c\<rparr>)))"

definition setConfig :: "ConfigInput \<Rightarrow> lk_store \<Rightarrow> LockoutConfig \<times> lk_store" where
  "setConfig input st =
     (let next = validateConfig input
      in (next, st\<lparr>lk_config_file := Stored (config_json next), lk_cachedConfig := Some next\<rparr>))"

section \<open>Decisions and bookkeeping\<close>

text \<open>A comparison with \<^verbatim>\<open>NaN\<close> is false, so a window that is not a number keeps nothing.\<close>

definition pruneFailures :: "int list \<Rightarrow> int option \<Rightarrow> int \<Rightarrow> int list" where
  "pruneFailures fs windowSeconds nowSec =
     (case windowSeconds of None \<Rightarrow> [] | Some w \<Rightarrow> filter (\<lambda>t. nowSec - w \<le> t) fs)"

datatype LockoutDecision = NotLocked | Locked int string

definition ceil_div :: "int \<Rightarrow> int \<Rightarrow> int" where
  "ceil_div a b = - ((- a) div b)"

definition decideLockout :: "host \<Rightarrow> string \<Rightarrow> int \<Rightarrow> lk_store \<Rightarrow> LockoutDecision \<times> lk_store" where
  "decideLockout H ip now st =
     (if ip = [] then (NotLocked, st)
      else case getConfig st of (cfg, st) \<Rightarrow>
        if \<not> lc_enabled cfg then (NotLocked, st)
        else (case map_of (lk_readState st) ip of
                None \<Rightarrow> (NotLocked, st)
              | Some s \<Rightarrow>
                  if \<not> truthy (locked_until s) then (NotLocked, st)
                  else (case date_parse H (or_empty (locked_until s)) of
                          None \<Rightarrow> (NotLocked, st)
                        | Some until \<Rightarrow>
                            if until \<le> now then (NotLocked, st)
                            else (Locked (max 1 (ceil_div (until - now) 1000)) (or_empty (locked_until s)), st))))"

text \<open>The eviction scan: the entry with the smallest parsed \<^verbatim>\<open>last_failure_at\<close> seen so far; \<open>None\<close> is
  \<^verbatim>\<open>Infinity\<close>. A stamp that does not parse compares false.\<close>

definition entry_stamp :: "host \<Rightarrow> IpState \<Rightarrow> int option" where
  "entry_stamp H v =
     (if truthy (last_failure_at v) then date_parse H (or_empty (last_failure_at v)) else Some 0)"

fun oldest :: "host \<Rightarrow> (string \<times> int) option \<Rightarrow> lk_state \<Rightarrow> string option" where
  "oldest H best [] = map_option fst best"
| "oldest H best ((k, v) # es) =
     (case entry_stamp H v of
        None \<Rightarrow> oldest H best es
      | Some t \<Rightarrow>
          (case best of
             None \<Rightarrow> oldest H (Some (k, t)) es
           | Some (k', t') \<Rightarrow> oldest H (if t < t' then Some (k, t) else best) es))"

definition make_room :: "host \<Rightarrow> string \<Rightarrow> lk_state \<Rightarrow> lk_state" where
  "make_room H ip s =
     (if map_of s ip = None \<and> MAX_TRACKED_IPS \<le> length s then
        (case oldest H None s of
           Some k \<Rightarrow> if k \<noteq> [] then AList.delete k s else s
         | None \<Rightarrow> s)
      else s)"

definition fresh_ip :: IpState where
  "fresh_ip = \<lparr>failures = [], locked_until = None, first_failure_at = None, last_failure_at = None,
     total_failures = 0\<rparr>"

text \<open>One more failure of an address; \<open>None\<close> when building the deadline throws (a cooldown that is
  not a number), which the caller swallows without writing.\<close>

definition bump :: "LockoutConfig \<Rightarrow> int \<Rightarrow> IpState \<Rightarrow> IpState option" where
  "bump cfg now cur =
     (let nowSec = now div 1000;
          fs = pruneFailures (failures cur) (lc_window cfg) nowSec @ [nowSec];
          cur1 = cur\<lparr>failures := fs, total_failures := total_failures cur + 1,
                     last_failure_at := Some (toISOString now),
                     first_failure_at := (if truthy (first_failure_at cur) then first_failure_at cur
                                          else Some (toISOString now))\<rparr>
      in case lc_threshold cfg of
           None \<Rightarrow> Some cur1
         | Some n \<Rightarrow>
             if n \<le> int (length fs) then
               map_option (\<lambda>cd. cur1\<lparr>locked_until := Some (toISOString (now + cd * 1000)), failures := []\<rparr>)
                 (lc_cooldown cfg)
             else Some cur1)"

definition recordAuthFailure :: "host \<Rightarrow> string \<Rightarrow> int \<Rightarrow> lk_store \<Rightarrow> lk_store" where
  "recordAuthFailure H ip now st =
     (if ip = [] then st
      else case getConfig st of (cfg, st) \<Rightarrow>
        if \<not> lc_enabled cfg then st
        else (let state = make_room H ip (lk_readState st);
                  cur = (case map_of state ip of None \<Rightarrow> fresh_ip | Some x \<Rightarrow> x)
              in case bump cfg now cur of
                   None \<Rightarrow> st
                 | Some cur' \<Rightarrow> lk_writeState (AList.update ip cur' state) st))"

definition reset_ip :: "IpState \<Rightarrow> IpState" where
  "reset_ip s = s\<lparr>failures := [], locked_until := None\<rparr>"

definition clearAuthFailures :: "string \<Rightarrow> lk_store \<Rightarrow> lk_store" where
  "clearAuthFailures ip st =
     (if ip = [] then st
      else case map_of (lk_readState st) ip of
        None \<Rightarrow> st
      | Some s \<Rightarrow> lk_writeState (AList.update ip (reset_ip s) (lk_readState st)) st)"

definition unlockIp :: "string \<Rightarrow> lk_store \<Rightarrow> bool \<times> lk_store" where
  "unlockIp ip st =
     (case map_of (lk_readState st) ip of
        None \<Rightarrow> (False, st)
      | Some s \<Rightarrow> (True, lk_writeState (AList.update ip (reset_ip s) (lk_readState st)) st))"

record LockoutEntry =
  le_ip :: string
  le_locked :: bool
  le_locked_until :: "string option"
  le_recent :: nat
  le_total :: int
  le_first :: "string option"
  le_last :: "string option"

definition lockout_entry :: "host \<Rightarrow> LockoutConfig \<Rightarrow> int \<Rightarrow> string \<times> IpState \<Rightarrow> LockoutEntry" where
  "lockout_entry H cfg now = (\<lambda>(ip, s).
     \<lparr>le_ip = ip,
      le_locked = (truthy (locked_until s)
        \<and> (case date_parse H (or_empty (locked_until s)) of None \<Rightarrow> False | Some t \<Rightarrow> now < t)),
      le_locked_until = locked_until s,
      le_recent = length (pruneFailures (failures s) (lc_window cfg) (now div 1000)),
      le_total = total_failures s, le_first = first_failure_at s, le_last = last_failure_at s\<rparr>)"

text \<open>The listing before its final sort (locked addresses first, then by last failure).\<close>

definition lockout_entries :: "host \<Rightarrow> int \<Rightarrow> lk_store \<Rightarrow> LockoutEntry list" where
  "lockout_entries H now st =
     (case getConfig st of (cfg, st) \<Rightarrow> map (lockout_entry H cfg now) (lk_readState st))"

definition entry_order :: "host \<Rightarrow> LockoutEntry \<Rightarrow> int" where
  "entry_order H e = - (case le_last e of
       None \<Rightarrow> 0 | Some s \<Rightarrow> (if s = [] then 0 else case date_parse H s of None \<Rightarrow> 0 | Some t \<Rightarrow> t))"

definition listLockouts :: "host \<Rightarrow> int \<Rightarrow> lk_store \<Rightarrow> LockoutEntry list" where
  "listLockouts H now st =
     (let es = lockout_entries H now st
      in sort_key (entry_order H) (filter le_locked es)
         @ sort_key (entry_order H) (filter (\<lambda>e. \<not> le_locked e) es))"

section \<open>One address\<close>

definition ip_view :: "lk_store \<Rightarrow> string \<Rightarrow> IpState" where
  "ip_view st ip = (case map_of (lk_readState st) ip of None \<Rightarrow> fresh_ip | Some x \<Rightarrow> x)"

lemma read_write [simp]: "lk_readState (lk_writeState s st) = s"
  by (simp add: lk_readState_def lk_writeState_def)

lemma write_config [simp]: "lk_cachedConfig (lk_writeState s st) = lk_cachedConfig st"
  by (simp add: lk_writeState_def)

lemma getConfig_cached: "lk_cachedConfig st = Some cfg \<Longrightarrow> getConfig st = (cfg, st)"
  by (simp add: getConfig_def)

lemma map_of_make_room: "map_of (make_room H ip s) ip = map_of s ip"
  by (auto simp: make_room_def delete_conv' split: option.splits)

lemma record_step:
  assumes "lk_cachedConfig st = Some cfg" "lc_enabled cfg" "ip \<noteq> []"
  shows "lk_cachedConfig (recordAuthFailure H ip t st) = Some cfg"
    and "bump cfg t (ip_view st ip) = Some c \<Longrightarrow> ip_view (recordAuthFailure H ip t st) ip = c"
  using assms
  by (auto simp: recordAuthFailure_def getConfig_cached ip_view_def map_of_make_room Let_def
      update_conv' split: option.splits)

lemma decide_view:
  assumes "lk_cachedConfig st = Some cfg" "lc_enabled cfg" "ip \<noteq> []"
  shows "fst (decideLockout H ip now st) =
    (case locked_until (ip_view st ip) of
       None \<Rightarrow> NotLocked
     | Some s \<Rightarrow> if s = [] then NotLocked
         else (case date_parse H s of
                 None \<Rightarrow> NotLocked
               | Some until \<Rightarrow> if until \<le> now then NotLocked
                              else Locked (max 1 (ceil_div (until - now) 1000)) s))"
  using assms
  by (auto simp: decideLockout_def getConfig_cached ip_view_def fresh_ip_def or_empty_def split: option.splits)

abbreviation fail_at :: "host \<Rightarrow> string \<Rightarrow> int list \<Rightarrow> lk_store \<Rightarrow> lk_store" where
  "fail_at H ip ts st \<equiv> fold (recordAuthFailure H ip) ts st"

lemma fold_config:
  assumes "lk_cachedConfig st = Some cfg" "lc_enabled cfg" "ip \<noteq> []"
  shows "lk_cachedConfig (fail_at H ip ts st) = Some cfg"
  using assms by (induction ts arbitrary: st) (auto simp: record_step(1))

definition same_window :: "int \<Rightarrow> int list \<Rightarrow> bool" where
  "same_window w ts \<longleftrightarrow> (\<forall>t\<in>set ts. \<forall>u\<in>set ts. u div 1000 - w \<le> t div 1000)"

lemma prune_window:
  "same_window w (ts @ [t])
   \<Longrightarrow> pruneFailures (map (\<lambda>t. t div 1000) ts) (Some w) (t div 1000) = map (\<lambda>t. t div 1000) ts"
  unfolding pruneFailures_def option.case by (rule filter_True) (auto simp: same_window_def)

text \<open>Below the threshold the failures of the window accumulate and the lock is untouched.\<close>

lemma failures_accumulate:
  assumes cfg: "lk_cachedConfig st = Some cfg" "lc_enabled cfg" "ip \<noteq> []"
    and n: "lc_threshold cfg = Some n" and w: "lc_window cfg = Some w"
    and start: "failures (ip_view st ip) = []"
  shows "\<lbrakk>same_window w ts; int (length ts) < n\<rbrakk>
    \<Longrightarrow> failures (ip_view (fail_at H ip ts st) ip) = map (\<lambda>t. t div 1000) ts
      \<and> locked_until (ip_view (fail_at H ip ts st) ip) = locked_until (ip_view st ip)"
proof (induction ts rule: rev_induct)
  case Nil
  with start show ?case by simp
next
  case (snoc t ts)
  let ?m = "fail_at H ip ts st"
  have m: "failures (ip_view ?m ip) = map (\<lambda>t. t div 1000) ts"
    "locked_until (ip_view ?m ip) = locked_until (ip_view st ip)"
    using snoc by (auto simp: same_window_def)
  have keep: "pruneFailures (map (\<lambda>t. t div 1000) ts) (Some w) (t div 1000) = map (\<lambda>t. t div 1000) ts"
    using snoc.prems(1) by (rule prune_window)
  have c: "lk_cachedConfig ?m = Some cfg" using cfg by (rule fold_config)
  show ?case
    using record_step(2)[OF c cfg(2,3)] snoc.prems(2) m
    by (simp add: bump_def Let_def n w keep)
qed

text \<open>The failure that reaches the threshold locks the address.\<close>

lemma threshold_locks:
  assumes cfg: "lk_cachedConfig st = Some cfg" "lc_enabled cfg" "ip \<noteq> []"
    and n: "lc_threshold cfg = Some n" and w: "lc_window cfg = Some w" and cd: "lc_cooldown cfg = Some cd"
    and start: "failures (ip_view st ip) = []"
    and ts: "same_window w (ts @ [t])" "int (length (ts @ [t])) = n"
  shows "locked_until (ip_view (fail_at H ip (ts @ [t]) st) ip) = Some (toISOString (t + cd * 1000))"
proof -
  let ?m = "fail_at H ip ts st"
  have m: "failures (ip_view ?m ip) = map (\<lambda>t. t div 1000) ts"
    using failures_accumulate[OF cfg n w start, of ts H] ts by (auto simp: same_window_def)
  have keep: "pruneFailures (map (\<lambda>t. t div 1000) ts) (Some w) (t div 1000) = map (\<lambda>t. t div 1000) ts"
    using ts(1) by (rule prune_window)
  have c: "lk_cachedConfig ?m = Some cfg" using cfg by (rule fold_config)
  show ?thesis
    using record_step(2)[OF c cfg(2,3)] m ts(2)
    by (simp add: bump_def Let_def n w cd keep)
qed

section \<open>The table\<close>

definition lk_ok :: "host \<Rightarrow> lk_state \<Rightarrow> bool" where
  "lk_ok H s \<longleftrightarrow> length s \<le> MAX_TRACKED_IPS \<and> distinct (map fst s)
     \<and> list_all (\<lambda>(k, v). k \<noteq> [] \<and> entry_stamp H v \<noteq> None) s"

lemma oldest_in:
  assumes "list_all (\<lambda>(k, v). entry_stamp H v \<noteq> None) s"
    and "s \<noteq> [] \<or> best \<noteq> None"
  shows "\<exists>k. oldest H best s = Some k \<and> (k \<in> fst ` set s \<or> (\<exists>t. best = Some (k, t)))"
  using assms
proof (induction s arbitrary: best)
  case (Cons e es)
  obtain k v where e: "e = (k, v)" by (cases e)
  with Cons.prems obtain t where t: "entry_stamp H v = Some t" by auto
  have rest: "list_all (\<lambda>(k, v). entry_stamp H v \<noteq> None) es" using Cons.prems(1) by simp
  show ?case
  proof (cases best)
    case None
    with Cons.IH[OF rest, of "Some (k, t)"] e t show ?thesis by auto
  next
    case (Some b)
    obtain k' t' where b: "b = (k', t')" by (cases b)
    show ?thesis
    proof (cases "t < t'")
      case True
      with Cons.IH[OF rest, of "Some (k, t)"] Some b e t show ?thesis by auto
    next
      case False
      with Cons.IH[OF rest, of best] Some b e t show ?thesis by auto
    qed
  qed
qed auto

lemma delete_length: "k \<in> fst ` set s \<Longrightarrow> length (AList.delete k s) < length s"
  by (auto simp: AList.delete_eq intro!: length_filter_less)

lemma update_length:
  "length (AList.update k v s) = (if k \<in> fst ` set s then length s else Suc (length s))"
  by (induction s) auto

lemma map_of_None: "map_of s k = None \<longleftrightarrow> k \<notin> fst ` set s"
  by (rule map_of_eq_None_iff)

lemma make_room_ok:
  assumes "lk_ok H s"
  shows "lk_ok H (make_room H ip s)"
    and "ip \<notin> fst ` set (make_room H ip s) \<Longrightarrow> length (make_room H ip s) < MAX_TRACKED_IPS"
proof -
  have sub: "lk_ok H (AList.delete k s)" for k
    using assms distinct_delete[of s k]
    by (auto simp: lk_ok_def AList.delete_eq list_all_iff intro: order_trans[OF length_filter_le])
  then show "lk_ok H (make_room H ip s)"
    using assms by (auto simp: make_room_def split: option.splits)
  assume a: "ip \<notin> fst ` set (make_room H ip s)"
  show "length (make_room H ip s) < MAX_TRACKED_IPS"
  proof (cases "map_of s ip = None \<and> MAX_TRACKED_IPS \<le> length s")
    case True
    then have "s \<noteq> []" by (auto simp: MAX_TRACKED_IPS_def)
    moreover have "list_all (\<lambda>(k, v). entry_stamp H v \<noteq> None) s"
      using assms by (auto simp: lk_ok_def elim!: list.pred_mono_strong)
    ultimately obtain k where k: "oldest H None s = Some k" "k \<in> fst ` set s"
      using oldest_in[of H s None] by auto
    then have "k \<noteq> []" using assms by (auto simp: lk_ok_def list_all_iff)
    with True k delete_length[OF k(2)] assms show ?thesis by (simp add: make_room_def lk_ok_def)
  next
    case False
    then have "make_room H ip s = s" by (auto simp: make_room_def)
    with a False assms show ?thesis unfolding lk_ok_def map_of_None by auto
  qed
qed

lemma update_ok:
  assumes "lk_ok H s" "ip \<noteq> []" "entry_stamp H v \<noteq> None"
    and "ip \<notin> fst ` set s \<Longrightarrow> length s < MAX_TRACKED_IPS"
  shows "lk_ok H (AList.update ip v s)"
proof -
  have "set (AList.update ip v s) \<subseteq> insert (ip, v) (set s)"
    by (induction s) (auto split: if_splits)
  then have "list_all (\<lambda>(k, v). k \<noteq> [] \<and> entry_stamp H v \<noteq> None) (AList.update ip v s)"
    using assms(1-3) by (auto simp: lk_ok_def list_all_iff)
  moreover have "length (AList.update ip v s) \<le> MAX_TRACKED_IPS"
    using assms(1,4) update_length[of ip v s] by (auto simp: lk_ok_def)
  ultimately show ?thesis
    using assms(1) distinct_update[of s ip v] by (simp add: lk_ok_def)
qed

lemma bump_stamp: "\<lbrakk>bump cfg now cur = Some c; time_ok now\<rbrakk> \<Longrightarrow> entry_stamp H c = Some now"
  by (auto simp: bump_def Let_def entry_stamp_def or_empty_def split: option.splits if_splits)

lemma reset_stamp: "entry_stamp H (reset_ip s) = entry_stamp H s"
  by (simp add: entry_stamp_def reset_ip_def)

lemma getConfig_state [simp]: "lk_readState (snd (getConfig st)) = lk_readState st"
  by (auto simp: getConfig_def lk_readState_def Let_def split: option.splits)

lemma record_ok:
  assumes "lk_ok H (lk_readState st)" "time_ok now"
  shows "lk_ok H (lk_readState (recordAuthFailure H ip now st))"
proof (cases "ip = []")
  case False
  obtain cfg m where m: "getConfig st = (cfg, m)" by fastforce
  then have r: "lk_readState m = lk_readState st" by (metis getConfig_state snd_conv)
  let ?s = "make_room H ip (lk_readState st)"
  note room = make_room_ok[OF assms(1), of ip]
  have "lk_ok H (AList.update ip c ?s)" if "bump cfg now x = Some c" for c x
    using room that bump_stamp[OF that assms(2)] False by (intro update_ok) auto
  with assms(1) False m r show ?thesis
    by (auto simp: recordAuthFailure_def Let_def split: option.splits)
qed (use assms in \<open>simp add: recordAuthFailure_def\<close>)

lemma reset_ok:
  assumes "lk_ok H s" "map_of s ip = Some x"
  shows "lk_ok H (AList.update ip (reset_ip x) s)"
  using assms map_of_SomeD[OF assms(2)]
  by (intro update_ok) (force simp: lk_ok_def list_all_iff reset_stamp)+

datatype lk_op = LkConfig ConfigInput | LkFail string int | LkClear string | LkUnlock string | LkDecide string int

fun lk_exec :: "host \<Rightarrow> lk_op \<Rightarrow> lk_store \<Rightarrow> lk_store" where
  "lk_exec H (LkConfig i) st = snd (setConfig i st)"
| "lk_exec H (LkFail ip t) st = recordAuthFailure H ip t st"
| "lk_exec H (LkClear ip) st = clearAuthFailures ip st"
| "lk_exec H (LkUnlock ip) st = snd (unlockIp ip st)"
| "lk_exec H (LkDecide ip t) st = snd (decideLockout H ip t st)"

fun lk_op_ok :: "lk_op \<Rightarrow> bool" where
  "lk_op_ok (LkFail ip t) = time_ok t"
| "lk_op_ok op = True"

lemma decide_state [simp]: "lk_readState (snd (decideLockout H ip t st)) = lk_readState st"
  by (auto simp: decideLockout_def split: prod.splits option.splits)
     (metis getConfig_state snd_conv)+

lemma setConfig_state [simp]: "lk_readState (snd (setConfig i st)) = lk_readState st"
  by (simp add: setConfig_def Let_def lk_readState_def)

lemma lk_exec_ok:
  "\<lbrakk>lk_ok H (lk_readState st); lk_op_ok op\<rbrakk> \<Longrightarrow> lk_ok H (lk_readState (lk_exec H op st))"
  by (cases op)
     (auto simp: record_ok reset_ok clearAuthFailures_def unlockIp_def split: option.splits)


section \<open>Properties\<close>

text \<open>With the lockout enabled, failures of one address that all fall into one window lock
  it exactly when they reach the configured threshold, and then until the cooldown after
  the last failure has passed, with a positive \<^verbatim>\<open>retry_after_seconds\<close>.\<close>

theorem lockout_at_threshold:
  assumes "lk_cachedConfig st = Some cfg" "lc_enabled cfg" "ip \<noteq> []"
    and "lc_threshold cfg = Some n" "lc_window cfg = Some w" "lc_cooldown cfg = Some cd"
    and "failures (ip_view st ip) = []" "locked_until (ip_view st ip) = None"
    and "same_window w (ts @ [t])" "int (length (ts @ [t])) \<le> n" "time_ok (t + cd * 1000)"
  shows "fst (decideLockout H ip now (fail_at H ip (ts @ [t]) st)) =
    (if int (length (ts @ [t])) = n \<and> now < t + cd * 1000
     then Locked (max 1 (ceil_div (t + cd * 1000 - now) 1000)) (toISOString (t + cd * 1000))
     else NotLocked)"
proof -
  have c: "lk_cachedConfig (fail_at H ip (ts @ [t]) st) = Some cfg"
    using assms(1-3) by (rule fold_config)
  show ?thesis
  proof (cases "int (length (ts @ [t])) = n")
    case True
    then show ?thesis
      unfolding decide_view[OF c assms(2,3)] threshold_locks[OF assms(1-7,9) True]
      using assms(11) by simp
  next
    case False
    then have "int (length (ts @ [t])) < n" using assms(10) by linarith
    with failures_accumulate[OF assms(1-3,4,5,7) assms(9), of H] assms(8) show ?thesis
      unfolding decide_view[OF c assms(2,3)] using False by auto
  qed
qed

text \<open>The table of tracked addresses stays within its cap of 10,000 entries, with one entry
  per address, whatever sequence of failures, successes, unlocks and configuration changes
  arrives.\<close>

theorem tracked_ips_bounded:
  assumes "list_all lk_op_ok ops" "lk_file st = NoFile"
  shows "length (lk_readState (fold (lk_exec H) ops st)) \<le> 10000
    \<and> distinct (map fst (lk_readState (fold (lk_exec H) ops st)))"
proof -
  have "lk_ok H (lk_readState st)"
    using assms(2) by (simp add: lk_readState_def lk_ok_def)
  then have "lk_ok H (lk_readState (fold (lk_exec H) ops st))"
    using assms(1) by (induction ops arbitrary: st) (auto simp: lk_exec_ok)
  then show ?thesis by (simp add: lk_ok_def MAX_TRACKED_IPS_def)
qed

text \<open>A configuration whose threshold is not a number is accepted, and until the process
  restarts no number of failures locks an address out.\<close>

theorem nan_threshold_disables_lockout:
  assumes "in_threshold input = Some NaN" "map_of (lk_readState st) ip = None"
  shows "fst (decideLockout H ip now (fail_at H ip ts (snd (setConfig input st)))) = NotLocked"
proof -
  let ?cfg = "validateConfig input" and ?st = "snd (setConfig input st)"
  have c: "lk_cachedConfig ?st = Some ?cfg" by (simp add: setConfig_def Let_def)
  have n: "lc_threshold ?cfg = None" using assms(1) by (simp add: validateConfig_def coalesce_def)
  show ?thesis
  proof (cases "ip = [] \<or> \<not> lc_enabled ?cfg")
    case True
    then have "fail_at H ip ts ?st = ?st"
      using c by (induction ts) (auto simp: recordAuthFailure_def getConfig_cached)
    with True c show ?thesis by (auto simp: decideLockout_def getConfig_cached)
  next
    case False
    then have e: "lc_enabled ?cfg" "ip \<noteq> []" by auto
    have "locked_until (ip_view (fail_at H ip ts ?st) ip) = None"
    proof (induction ts rule: rev_induct)
      case Nil
      with assms(2) show ?case by (simp add: ip_view_def fresh_ip_def)
    next
      case (snoc t ts)
      with record_step(2)[OF fold_config[OF c e, of H ts] e] n show ?case
        by (simp add: bump_def Let_def)
    qed
    then show ?thesis
      unfolding decide_view[OF fold_config[OF c e] e] by simp
  qed
qed

definition sample_lockout :: lk_store where
  "sample_lockout = \<lparr>lk_file = NoFile, lk_config_file = NoFile, lk_cachedConfig = Some
     \<lparr>lc_threshold = Some 2, lc_window = Some 300, lc_cooldown = Some 900, lc_enabled = True\<rparr>\<rparr>"

theorem lockout_at_threshold_witness:
  "fst (decideLockout sample_host ''10.0.0.1'' 6000
      (fail_at sample_host ''10.0.0.1'' ([1000] @ [5000]) sample_lockout))
   = Locked 899 (toISOString 905000)"
  using lockout_at_threshold[of sample_lockout "\<lparr>lc_threshold = Some 2, lc_window = Some 300,
      lc_cooldown = Some 900, lc_enabled = True\<rparr>" "''10.0.0.1''" 2 300 900 "[1000]" 5000 sample_host 6000]
  by (simp add: sample_lockout_def ip_view_def lk_readState_def fresh_ip_def same_window_def time_ok_def
      ceil_div_def)

theorem tracked_ips_bounded_witness:
  "length (lk_readState (fold (lk_exec sample_host) [LkFail ''10.0.0.1'' 1000] sample_lockout)) \<le> 10000"
  using tracked_ips_bounded[of "[LkFail ''10.0.0.1'' 1000]" sample_lockout sample_host]
  by (simp add: sample_lockout_def time_ok_def)

theorem nan_threshold_disables_lockout_witness:
  "fst (decideLockout sample_host ''10.0.0.1'' 99 (fail_at sample_host ''10.0.0.1'' (replicate 50 7)
     (snd (setConfig \<lparr>in_threshold = Some NaN, in_window = None, in_cooldown = None, in_enabled = True\<rparr>
        sample_lockout)))) = NotLocked"
  by (rule nan_threshold_disables_lockout) (simp_all add: sample_lockout_def lk_readState_def)

end
