(* ===== verification/IpMatch.thy ===== *)
theory IpMatch
  imports JsonStore
begin

text \<open>
  Source-address matching (\<^verbatim>\<open>src/web/lib/ipMatch.ts\<close>): parsing and printing of IPv4 and IPv6
  CIDR blocks, the normalisation of a client address, matching against a list, and the
  canonical form of a submitted list. A \<^verbatim>\<open>bigint\<close> is an \<^typ>\<open>int\<close>; \<^verbatim>\<open>(acc << 8n) | n\<close> with
  \<^verbatim>\<open>n < 256\<close> is \<open>acc * 256 + n\<close>.

  The theorems: printing a block and parsing it back gives the block, so the canonical list
  is a fixed point of canonicalisation, and matching is equality of the leading bits.
\<close>

section \<open>Parsing\<close>

datatype ParsedCidr = V4 (cidr_bits: int) (cidr_value: int) | V6 (cidr_bits: int) (cidr_value: int)

definition V4_MAX :: int where "V4_MAX = 32"

definition V6_MAX :: int where "V6_MAX = 128"

text \<open>\<^verbatim>\<open>/^\d{1,3}$/\<close> and \<^verbatim>\<open>/^[0-9a-fA-F]{1,4}$/\<close>\<close>

definition dec13 :: "string \<Rightarrow> bool" where
  "dec13 p \<longleftrightarrow> p \<noteq> [] \<and> length p \<le> 3 \<and> list_all is_digit p"

definition is_hex :: "char \<Rightarrow> bool" where
  "is_hex c \<longleftrightarrow> is_digit c \<or> (97 \<le> (of_char c :: nat) \<and> of_char c \<le> (102 :: nat))
     \<or> (65 \<le> (of_char c :: nat) \<and> of_char c \<le> (70 :: nat))"

definition hex14 :: "string \<Rightarrow> bool" where
  "hex14 g \<longleftrightarrow> g \<noteq> [] \<and> length g \<le> 4 \<and> list_all is_hex g"

fun v4_parts :: "int \<Rightarrow> string list \<Rightarrow> int option" where
  "v4_parts acc [] = Some acc"
| "v4_parts acc (p # ps) =
     (if \<not> dec13 p then None
      else if 255 < digits_value 10 p then None
      else v4_parts (acc * 256 + digits_value 10 p) ps)"

definition parseV4 :: "string \<Rightarrow> int option" where
  "parseV4 s = (let parts = split_on (CHR ''.'') s in
     if length parts \<noteq> 4 then None else v4_parts 0 parts)"

text \<open>\<^verbatim>\<open>s.split("::")\<close>\<close>

fun split_dcolon :: "string \<Rightarrow> string list" where
  "split_dcolon [] = [[]]"
| "split_dcolon [c] = [[c]]"
| "split_dcolon (c # d # s) =
     (if c = CHR '':'' \<and> d = CHR '':'' then [] # split_dcolon s
      else (case split_dcolon (d # s) of [] \<Rightarrow> [[c]] | y # ys \<Rightarrow> (c # y) # ys))"

definition expand_v4_tail :: "string \<Rightarrow> string option" where
  "expand_v4_tail s =
     (let tail = last (split_on (CHR '':'') s) in
      if CHR ''.'' \<in> set tail then
        (case parseV4 tail of
           None \<Rightarrow> None
         | Some v4 \<Rightarrow> Some (take (length s - length tail) s
             @ hex_str (v4 div 65536 mod 65536) @ '':'' @ hex_str (v4 mod 65536)))
      else Some s)"

definition v6_halves :: "string \<Rightarrow> (string list \<times> string list) option" where
  "v6_halves work =
     (let groups = (\<lambda>h. if h = [] then [] else split_on (CHR '':'') h) in
      if includesStr work ''::'' then
        (case split_dcolon work of
           [a, b] \<Rightarrow> if 8 < length (groups a) + length (groups b) then None else Some (groups a, groups b)
         | _ \<Rightarrow> None)
      else if length (split_on (CHR '':'') work) \<noteq> 8 then None
      else Some (split_on (CHR '':'') work, []))"

fun v6_groups :: "int \<Rightarrow> string list \<Rightarrow> int option" where
  "v6_groups acc [] = Some acc"
| "v6_groups acc (g # gs) =
     (if \<not> hex14 g then None else v6_groups (acc * 65536 + digits_value 16 g) gs)"

definition parseV6 :: "string \<Rightarrow> int option" where
  "parseV6 s =
     (if CHR '':'' \<notin> set s then None
      else case expand_v4_tail s of
        None \<Rightarrow> None
      | Some work \<Rightarrow>
          (case v6_halves work of
             None \<Rightarrow> None
           | Some (head, tail) \<Rightarrow>
               v6_groups 0 (head @ replicate (8 - length head - length tail) ''0'' @ tail)))"

definition maskBig :: "int \<Rightarrow> int \<Rightarrow> int \<Rightarrow> int" where
  "maskBig v bits mx =
     (if mx \<le> bits then v else if bits \<le> 0 then 0
      else push_bit (nat (mx - bits)) (drop_bit (nat (mx - bits)) v))"

definition parse_bits :: "int \<Rightarrow> string option \<Rightarrow> int option" where
  "parse_bits mx bitsStr =
     (case bitsStr of
        None \<Rightarrow> Some mx
      | Some b \<Rightarrow> if \<not> dec13 b then None
                  else if mx < digits_value 10 b then None else Some (digits_value 10 b))"

definition parseCidr :: "string \<Rightarrow> ParsedCidr option" where
  "parseCidr input =
     (let raw = trim input in
      if raw = [] then None
      else let slash = indexOf (CHR ''/'') raw;
               addr = (case slash of None \<Rightarrow> raw | Some i \<Rightarrow> take i raw);
               bitsStr = map_option (\<lambda>i. drop (Suc i) raw) slash
      in if CHR '':'' \<in> set addr then
           (case parseV6 addr of
              None \<Rightarrow> None
            | Some v \<Rightarrow> map_option (\<lambda>bits. V6 bits (maskBig v bits V6_MAX)) (parse_bits V6_MAX bitsStr))
         else
           (case parseV4 addr of
              None \<Rightarrow> None
            | Some v \<Rightarrow> map_option (\<lambda>bits. V4 bits (maskBig v bits V4_MAX)) (parse_bits V4_MAX bitsStr)))"

section \<open>Normalising and matching a client address\<close>

text \<open>\<^verbatim>\<open>/^::ffff:(\d{1,3}\.\d{1,3}\.\d{1,3}\.\d{1,3})$/i\<close>\<close>

definition mapped_v4 :: "string \<Rightarrow> string option" where
  "mapped_v4 s =
     (let rest = drop 7 s; parts = split_on (CHR ''.'') rest in
      if toLowerCase (take 7 s) = ''::ffff:'' \<and> length parts = 4 \<and> list_all dec13 parts
      then Some rest else None)"

definition strip_brackets :: "string \<Rightarrow> string" where
  "strip_brackets s =
     (if startsWith s ''['' \<and> endsWith s '']'' then butlast (tl s) else s)"

definition normalizeIp :: "string \<Rightarrow> string option" where
  "normalizeIp input =
     (let s = trim input in
      if s = [] then None
      else let s1 = strip_brackets s;
               s2 = (case indexOf (CHR ''%'') s1 of None \<Rightarrow> s1 | Some i \<Rightarrow> take i s1)
      in case mapped_v4 s2 of Some v4 \<Rightarrow> Some v4 | None \<Rightarrow> Some s2)"

definition ipMatchesAny :: "string \<Rightarrow> ParsedCidr list \<Rightarrow> bool" where
  "ipMatchesAny ip cidrs =
     (case normalizeIp ip of
        None \<Rightarrow> False
      | Some nrm \<Rightarrow>
          if CHR '':'' \<in> set nrm then
            (case parseV6 nrm of
               None \<Rightarrow> False
             | Some v \<Rightarrow> list_ex (\<lambda>c. case c of V6 bits val \<Rightarrow> maskBig v bits V6_MAX = val | V4 _ _ \<Rightarrow> False) cidrs)
          else
            (case parseV4 nrm of
               None \<Rightarrow> False
             | Some v \<Rightarrow> list_ex (\<lambda>c. case c of V4 bits val \<Rightarrow> maskBig v bits V4_MAX = val | V6 _ _ \<Rightarrow> False) cidrs))"

section \<open>Printing and canonical lists\<close>

definition MAX_CIDR_ENTRIES :: nat where "MAX_CIDR_ENTRIES = 64"

text \<open>The scan for the longest run of zero groups: \<^verbatim>\<open>(bestStart, bestLen, curStart, curLen)\<close>.\<close>

definition zero_run_step :: "int \<times> int \<times> int \<times> int \<Rightarrow> int \<times> string \<Rightarrow> int \<times> int \<times> int \<times> int" where
  "zero_run_step = (\<lambda>(bestStart, bestLen, curStart, curLen) (i, g).
     if g = ''0'' then
       (let cs = (if curStart = -1 then i else curStart); cl = curLen + 1
        in if bestLen < cl then (cs, cl, cs, cl) else (bestStart, bestLen, cs, cl))
     else (bestStart, bestLen, -1, 0))"

definition zero_run :: "string list \<Rightarrow> int \<times> int \<times> int \<times> int" where
  "zero_run groups = foldl zero_run_step (-1, 0, -1, 0) (zip (map int [0..<length groups]) groups)"

definition v6_addr :: "string list \<Rightarrow> string" where
  "v6_addr groups =
     (case zero_run groups of
        (bestStart, bestLen, _, _) \<Rightarrow>
          if 2 \<le> bestLen
          then join '':'' (take (nat bestStart) groups) @ ''::'' @ join '':'' (drop (nat (bestStart + bestLen)) groups)
          else join '':'' groups)"

fun cidrToString :: "ParsedCidr \<Rightarrow> string" where
  "cidrToString (V4 bits v) =
     join ''.'' (map (\<lambda>i. dec_str (v div 256 ^ i mod 256)) [3, 2, 1, 0]) @ ''/'' @ dec_str bits"
| "cidrToString (V6 bits v) =
     v6_addr (map (\<lambda>i. hex_str (v div 65536 ^ i mod 65536)) [7, 6, 5, 4, 3, 2, 1, 0]) @ ''/'' @ dec_str bits"

datatype CidrError = Bad_type | Bad_cidr | Too_many

text \<open>The loop of \<^verbatim>\<open>canonicalizeCidrList\<close>; \<open>out\<close> is the output so far, which is also the set of
  entries seen. An entry that is not a string is \<open>None\<close>.\<close>

fun canon_loop :: "string list \<Rightarrow> string option list \<Rightarrow> CidrError + string list" where
  "canon_loop out [] = Inr out"
| "canon_loop out (None # es) = Inl Bad_type"
| "canon_loop out (Some raw # es) =
     (if trim raw = [] then canon_loop out es
      else case parseCidr (trim raw) of
        None \<Rightarrow> Inl Bad_cidr
      | Some p \<Rightarrow>
          (let canon = cidrToString p in
           if canon \<in> set out then canon_loop out es
           else if MAX_CIDR_ENTRIES < length (out @ [canon]) then Inl Too_many
           else canon_loop (out @ [canon]) es))"

definition canonicalizeCidrList :: "string option list option \<Rightarrow> CidrError + string list" where
  "canonicalizeCidrList entries = (case entries of None \<Rightarrow> Inl Bad_type | Some es \<Rightarrow> canon_loop [] es)"

section \<open>The client address of a request\<close>

text \<open>A request's headers: \<^verbatim>\<open>req.headers.get(name)\<close>.\<close>

type_synonym headers = "string \<Rightarrow> string option"

definition clientIpFromRequest :: "headers \<Rightarrow> string" where
  "clientIpFromRequest h =
     (let real = (if truthy (h ''x-real-ip'') then trim (or_empty (h ''x-real-ip'')) else []) in
      case h ''x-forwarded-for'' of
        None \<Rightarrow> real
      | Some xff \<Rightarrow>
          if xff = [] then real
          else let first = trim (hd (split_on (CHR '','') xff))
               in if first \<noteq> [] then first else real)"

section \<open>Numerals as address parts\<close>

lemma digit_char_digit: "\<lbrakk>0 \<le> d; d < 10\<rbrakk> \<Longrightarrow> is_digit (digit_char d)"
  by simp

lemma digit_char_hex: "\<lbrakk>0 \<le> d; d < 16\<rbrakk> \<Longrightarrow> is_hex (digit_char d)"
  by (drule (1) digit_cases) (auto simp: is_hex_def digit_char_def is_digit_def)

lemma dec13_dec_str:
  assumes "0 \<le> k" "k < 1000"
  shows "dec13 (dec_str k)"
  using numeral_str_set[of 10 k is_digit] numeral_str_length[of 10 k 3] assms
  by (auto simp: dec13_def)

lemma hex14_hex_str:
  assumes "0 \<le> k" "k < 65536"
  shows "hex14 (hex_str k)"
  using numeral_str_set[of 16 k is_hex] numeral_str_length[of 16 k 4] assms
  by (auto simp: hex14_def digit_char_hex)

lemma not_digit [simp]:
  "\<not> is_digit (CHR ''.'')" "\<not> is_digit (CHR '':'')" "\<not> is_digit (CHR ''/'')"
  "\<not> is_hex (CHR ''.'')" "\<not> is_hex (CHR '':'')" "\<not> is_hex (CHR ''/'')"
  by (simp_all add: is_hex_def is_digit_def)

lemma dec13_no: "dec13 p \<Longrightarrow> CHR ''.'' \<notin> set p \<and> CHR '':'' \<notin> set p \<and> CHR ''/'' \<notin> set p"
  by (auto simp: dec13_def list_all_iff)

lemma hex14_no: "hex14 g \<Longrightarrow> CHR ''.'' \<notin> set g \<and> CHR '':'' \<notin> set g \<and> CHR ''/'' \<notin> set g"
  by (auto simp: hex14_def list_all_iff)

text \<open>The digits of a number in base \<open>B\<close>, most significant first, give the number back.\<close>

lemma radix_fold:
  fixes v B a :: int
  assumes "0 < B"
  shows "foldl (\<lambda>a i. a * B + v div B ^ i mod B) a (rev [0..<n]) = a * B ^ n + v mod B ^ n"
proof (induction n arbitrary: a)
  case (Suc n)
  have "v mod B ^ Suc n = B ^ n * (v div B ^ n mod B) + v mod B ^ n"
    using assms zmod_zmult2_eq[of B v "B ^ n"]
    by (simp add: mult.commute)
  with Suc show ?case by (simp add: algebra_simps)
qed simp

lemma v4_parts_fold:
  "\<lbrakk>list_all (\<lambda>x. 0 \<le> x \<and> x \<le> 255) xs\<rbrakk>
   \<Longrightarrow> v4_parts acc (map dec_str xs) = Some (foldl (\<lambda>a x. a * 256 + x) acc xs)"
  by (induction xs arbitrary: acc) (auto simp: dec13_dec_str numeral_str_value)

lemma v6_groups_fold:
  "\<lbrakk>list_all (\<lambda>x. 0 \<le> x \<and> x < 65536) xs\<rbrakk>
   \<Longrightarrow> v6_groups acc (map hex_str xs) = Some (foldl (\<lambda>a x. a * 65536 + x) acc xs)"
  by (induction xs arbitrary: acc) (auto simp: hex14_hex_str numeral_str_value)

lemma mod_256: "x mod 256 \<le> (255 :: int)"
  using pos_mod_bound[of 256 x] by linarith

lemma dec_parts_no_dot:
  assumes "list_all (\<lambda>x. 0 \<le> x \<and> x \<le> 255) xs"
  shows "\<forall>p\<in>set (map dec_str xs). CHR ''.'' \<notin> set p"
proof
  fix p assume "p \<in> set (map dec_str xs)"
  then obtain x where "x \<in> set xs" "p = dec_str x" by auto
  with assms dec13_no[OF dec13_dec_str[of x]] show "CHR ''.'' \<notin> set p"
    by (auto simp: list_all_iff)
qed

text \<open>The digits of \<open>v\<close> in base \<open>B\<close>, with their two uses: they are in range and they fold
  back to \<open>v\<close>.\<close>

lemma digits_fold:
  fixes v B :: int
  assumes "0 < B" "0 \<le> v" "v < B ^ n"
  shows "foldl (\<lambda>a x. a * B + x) 0 (map (\<lambda>i. v div B ^ i mod B) (rev [0..<n])) = v"
  using radix_fold[OF assms(1), of v 0 n] assms by (simp only: foldl_map) simp

lemma digits_range:
  fixes v B :: int
  assumes "0 < B"
  shows "list_all (\<lambda>x. 0 \<le> x \<and> x < B) (map (\<lambda>i. v div B ^ i mod B) is)"
  using assms by (simp add: list_all_iff)

lemma rev_upt_4: "[3, 2, 1, 0] = rev [0..<4 :: nat]"
  by (simp add: upt_rec)

lemma rev_upt_8: "[7, 6, 5, 4, 3, 2, 1, 0] = rev [0..<8 :: nat]"
  by (simp add: upt_rec)

lemma parseV4_print:
  assumes "0 \<le> v" "v < 2 ^ 32"
  shows "parseV4 (join ''.'' (map (\<lambda>i. dec_str (v div 256 ^ i mod 256)) [3, 2, 1, 0])) = Some v"
proof -
  define xs where "xs = map (\<lambda>i. v div 256 ^ i mod 256) (rev [0..<4 :: nat])"
  have len: "length xs = 4" by (simp add: xs_def)
  have r: "list_all (\<lambda>x. 0 \<le> x \<and> x \<le> 255) xs"
    using digits_range[of 256 v "rev [0..<4]"] unfolding xs_def list_all_iff by auto
  have e: "map (\<lambda>i. dec_str (v div 256 ^ i mod 256)) [3, 2, 1, 0] = map dec_str xs"
    unfolding rev_upt_4 xs_def map_map comp_def ..
  have "v < 256 ^ 4" using assms(2) by simp
  then have v: "foldl (\<lambda>a x. a * 256 + x) 0 xs = v"
    unfolding xs_def using assms(1) by (intro digits_fold) simp_all
  have "split_on (CHR ''.'') (join ''.'' (map dec_str xs)) = map dec_str xs"
    using len by (intro split_join[OF _ dec_parts_no_dot[OF r]]) auto
  then show ?thesis
    using len v4_parts_fold[OF r, of 0] v unfolding e parseV4_def by simp
qed

section \<open>Zero compression\<close>

text \<open>What the scan guarantees after the first \<open>n\<close> groups: the best run lies inside them and
  consists of zero groups, and so does the current run, which ends at \<open>n\<close>.\<close>

definition is_run :: "string list \<Rightarrow> int \<Rightarrow> int \<Rightarrow> int \<Rightarrow> bool" where
  "is_run gs n a l \<longleftrightarrow> 0 \<le> a \<and> 0 < l \<and> a + l \<le> n \<and> (\<forall>i. a \<le> int i \<and> int i < a + l \<longrightarrow> gs ! i = ''0'')"

definition run_inv :: "string list \<Rightarrow> nat \<Rightarrow> int \<times> int \<times> int \<times> int \<Rightarrow> bool" where
  "run_inv gs n = (\<lambda>(bs, bl, cs, cl).
     (bl = 0 \<or> is_run gs (int n) bs bl) \<and>
     ((cs = -1 \<and> cl = 0) \<or> (cs + cl = int n \<and> is_run gs (int n) cs cl)))"

lemma run_inv_step:
  assumes "run_inv gs n st"
  shows "run_inv gs (Suc n) (zero_run_step st (int n, gs ! n))"
proof -
  obtain bs bl cs cl where st: "st = (bs, bl, cs, cl)" by (cases st)
  have wk: "is_run gs (int n) a l \<Longrightarrow> is_run gs (int (Suc n)) a l" for a l
    by (auto simp: is_run_def)
  have new: "is_run gs (int (Suc n)) (if cs = -1 then int n else cs) (cl + 1)
      \<and> (if cs = -1 then int n else cs) + (cl + 1) = int (Suc n)" if "gs ! n = ''0''"
  proof (cases "cs = -1")
    case True
    moreover from this have "cl = 0" using assms by (auto simp: run_inv_def st is_run_def)
    moreover have "i = n" if "int n \<le> int i" "int i < int n + 1" for i using that by linarith
    ultimately show ?thesis using that by (auto simp: is_run_def)
  next
    case False
    then have c: "cs + cl = int n" "is_run gs (int n) cs cl"
      using assms by (auto simp: run_inv_def st)
    have "gs ! i = ''0''" if "cs \<le> int i" "int i < cs + (cl + 1)" for i
      using c \<open>gs ! n = ''0''\<close> that by (cases "i = n") (auto simp: is_run_def)
    with c False show ?thesis by (auto simp: is_run_def)
  qed
  show ?thesis
    using assms wk new by (auto simp: run_inv_def st zero_run_step_def Let_def)
qed

lemma zero_run_inv: "run_inv gs (length gs) (zero_run gs)"
proof -
  have "n \<le> length gs \<Longrightarrow>
      run_inv gs n (foldl zero_run_step (-1, 0, -1, 0) (zip (map int [0..<n]) (take n gs)))" for n
  proof (induction n)
    case 0
    then show ?case by (simp add: run_inv_def)
  next
    case (Suc n)
    then show ?case by (simp add: take_Suc_conv_app_nth run_inv_step)
  qed
  from this[of "length gs"] show ?thesis by (simp add: zero_run_def)
qed

text \<open>The two halves around the longest run, with zeros put back, are the groups.\<close>

lemma zero_run_split:
  assumes "zero_run gs = (bs, bl, cs, cl)" "2 \<le> bl"
  shows "take (nat bs) gs @ replicate (nat bl) ''0'' @ drop (nat (bs + bl)) gs = gs"
    and "nat bs + nat bl \<le> length gs" and "nat (bs + bl) = nat bs + nat bl" and "2 \<le> nat bl"
proof -
  from zero_run_inv[of gs] assms have r: "is_run gs (int (length gs)) bs bl"
    by (auto simp: run_inv_def)
  define a l where "a = nat bs" and "l = nat bl"
  with r have al: "bs = int a" "bl = int l" by (auto simp: is_run_def)
  with r have len: "a + l \<le> length gs" and z: "\<And>i. a \<le> i \<Longrightarrow> i < a + l \<Longrightarrow> gs ! i = ''0''"
    by (auto simp: is_run_def)
  have "take l (drop a gs) = replicate l ''0''"
    using len z by (intro nth_equalityI) auto
  then have "gs = take a gs @ replicate l ''0'' @ drop l (drop a gs)"
    by (metis append_take_drop_id)
  then show "take (nat bs) gs @ replicate (nat bl) ''0'' @ drop (nat (bs + bl)) gs = gs"
    by (simp add: al nat_add_distrib add.commute)
  show "nat bs + nat bl \<le> length gs" "nat (bs + bl) = nat bs + nat bl" "2 \<le> nat bl"
    using len assms(2) al by auto
qed

text \<open>A join of non-empty groups without colons has no empty group: no double colon inside
  and no colon at either end.\<close>

lemma split_dcolon_nonempty [simp]: "split_dcolon s \<noteq> []"
  by (induction s rule: split_dcolon.induct) (auto split: list.splits)

definition plain_groups :: "string list \<Rightarrow> bool" where
  "plain_groups gs \<longleftrightarrow> (\<forall>g\<in>set gs. g \<noteq> [] \<and> CHR '':'' \<notin> set g)"

lemma split_dcolon_Cons:
  "c \<noteq> CHR '':'' \<Longrightarrow> split_dcolon (c # s) = (c # hd (split_dcolon s)) # tl (split_dcolon s)"
  by (cases s) (auto split: list.splits)

lemma split_dcolon_append:
  "CHR '':'' \<notin> set g \<Longrightarrow> split_dcolon (g @ s) = (g @ hd (split_dcolon s)) # tl (split_dcolon s)"
  by (induction g) (auto simp: split_dcolon_Cons)

lemma split_dcolon_colon:
  "\<lbrakk>g \<noteq> []; CHR '':'' \<notin> set g\<rbrakk> \<Longrightarrow> split_dcolon (CHR '':'' # g @ s)
     = (CHR '':'' # hd (split_dcolon (g @ s))) # tl (split_dcolon (g @ s))"
  by (cases g) (auto split: list.splits)

lemma split_dcolon_join:
  "\<lbrakk>plain_groups gs; s = [] \<or> startsWith s ''::''\<rbrakk>
   \<Longrightarrow> split_dcolon (join '':'' gs @ s)
     = (join '':'' gs @ hd (split_dcolon s)) # tl (split_dcolon s)"
proof (induction "'':''" gs rule: join.induct)
  case (3 x y ys)
  have yg: "y \<noteq> []" "CHR '':'' \<notin> set y" "CHR '':'' \<notin> set x"
    using "3.prems" by (auto simp: plain_groups_def)
  obtain r where r: "join '':'' (y # ys) = y @ r" by (cases ys) auto
  from "3.hyps" "3.prems" have "split_dcolon (join '':'' (y # ys) @ s)
      = (join '':'' (y # ys) @ hd (split_dcolon s)) # tl (split_dcolon s)"
    by (auto simp: plain_groups_def)
  then show ?case
    using split_dcolon_append[OF yg(3), of "CHR '':'' # join '':'' (y # ys) @ s"]
      split_dcolon_colon[OF yg(1,2), of "r @ s"] r by simp
qed (auto simp: plain_groups_def split_dcolon_append)

lemma startsWith_refl_append [simp]: "startsWith (p @ b) p"
  by (rule startsWith_append)

lemma includesStr_append: "p \<noteq> [] \<Longrightarrow> includesStr (a @ p @ b) p"
proof (induction a)
  case Nil
  then obtain c q where "p = c # q" by (cases p) auto
  then show ?case using startsWith_append[of p b] by simp
qed simp

lemma includes_dcolon: "includesStr s ''::'' \<Longrightarrow> tl (split_dcolon s) \<noteq> []"
  by (induction s rule: split_dcolon.induct) (auto simp: startsWith_def split: list.splits)

lemma set_join: "set (join sep gs) \<subseteq> set sep \<union> \<Union> (set ` set gs)"
  by (induction sep gs rule: join.induct) auto

lemma set_join_sub:
  assumes "set gs' \<subseteq> set gs"
  shows "set (join '':'' gs') \<subseteq> {CHR '':''} \<union> \<Union> (set ` set gs)"
proof -
  have "\<Union> (set ` set gs') \<subseteq> \<Union> (set ` set gs)" using assms by blast
  with set_join[of "'':''" gs'] show ?thesis by auto
qed

lemma join_eq_Nil: "plain_groups gs \<Longrightarrow> join '':'' gs = [] \<longleftrightarrow> gs = []"
  by (cases gs) (auto simp: plain_groups_def join_Cons)

lemma groups_of_join:
  assumes "plain_groups gs"
  shows "(if join '':'' gs = [] then [] else split_on (CHR '':'') (join '':'' gs)) = gs"
  using assms split_join[of gs "CHR '':''"] by (auto simp: join_eq_Nil plain_groups_def)

lemma v6_halves_plain:
  assumes "plain_groups gs" "length gs = 8"
  shows "v6_halves (join '':'' gs) = Some (gs, [])"
proof -
  have "split_dcolon (join '':'' gs) = [join '':'' gs]"
    using split_dcolon_join[OF assms(1), of "[]"] by simp
  then have "\<not> includesStr (join '':'' gs) ''::''" using includes_dcolon by fastforce
  moreover have "split_on (CHR '':'') (join '':'' gs) = gs"
    using assms by (intro split_join) (auto simp: plain_groups_def)
  ultimately show ?thesis using assms(2) by (simp add: v6_halves_def)
qed

lemma v6_halves_compressed:
  assumes "plain_groups as" "plain_groups bs" "length as + length bs \<le> 8"
  shows "v6_halves (join '':'' as @ ''::'' @ join '':'' bs) = Some (as, bs)"
proof -
  have "split_dcolon (join '':'' bs) = [join '':'' bs]"
    using split_dcolon_join[OF assms(2), of "[]"] by simp
  then have "split_dcolon (join '':'' as @ ''::'' @ join '':'' bs) = [join '':'' as, join '':'' bs]"
    using split_dcolon_join[OF assms(1), of "''::'' @ join '':'' bs"] by (simp add: startsWith_def)
  moreover have "includesStr (join '':'' as @ ''::'' @ join '':'' bs) ''::''"
    by (rule includesStr_append) simp
  ultimately show ?thesis
    using assms(3) groups_of_join[OF assms(1)] groups_of_join[OF assms(2)]
    by (simp add: v6_halves_def Let_def)
qed

lemma v6_halves_addr:
  assumes "plain_groups gs" "length gs = 8"
  obtains as bs where "v6_halves (v6_addr gs) = Some (as, bs)"
    "as @ replicate (8 - length as - length bs) ''0'' @ bs = gs"
proof -
  obtain bs bl cs cl where z: "zero_run gs = (bs, bl, cs, cl)" by (cases "zero_run gs")
  show thesis
  proof (cases "2 \<le> bl")
    case True
    note r = zero_run_split[OF z True]
    let ?a = "take (nat bs) gs" and ?b = "drop (nat (bs + bl)) gs"
    have p: "plain_groups ?a" "plain_groups ?b"
      using assms(1) by (auto simp: plain_groups_def dest: in_set_takeD in_set_dropD)
    have "length ?a = nat bs" "length ?b = 8 - (nat bs + nat bl)"
      using r(2,3) assms(2) by auto
    with r p assms(2) have "8 - length ?a - length ?b = nat bl" "length ?a + length ?b \<le> 8"
      by auto
    with r(1) show thesis
      using that[of ?a ?b] v6_halves_compressed[OF p] z True by (simp add: v6_addr_def)
  next
    case False
    with z assms v6_halves_plain[OF assms] that[of gs "[]"] show thesis by (simp add: v6_addr_def)
  qed
qed

lemma v6_addr_chars:
  assumes "length gs = 8"
  shows "set (v6_addr gs) \<subseteq> {CHR '':''} \<union> \<Union> (set ` set gs)" "CHR '':'' \<in> set (v6_addr gs)"
proof -
  obtain bs bl cs cl where z: "zero_run gs = (bs, bl, cs, cl)" by (cases "zero_run gs")
  note sub = set_join_sub[OF set_take_subset] set_join_sub[OF set_drop_subset] set_join_sub[OF subset_refl]
  show "set (v6_addr gs) \<subseteq> {CHR '':''} \<union> \<Union> (set ` set gs)"
  proof (cases "2 \<le> bl")
    case True
    with z sub(1)[of "nat bs" gs] sub(2)[of "nat (bs + bl)" gs] show ?thesis
      by (simp add: v6_addr_def)
  next
    case False
    with z sub(3)[of gs] show ?thesis by (simp add: v6_addr_def)
  qed
  obtain x gs' where g: "gs = x # gs'" using assms by (cases gs) auto
  then obtain y ys where "gs = x # y # ys" using assms by (cases gs') auto
  with z show "CHR '':'' \<in> set (v6_addr gs)" unfolding v6_addr_def by auto
qed

lemma hex_groups:
  assumes "list_all (\<lambda>x. 0 \<le> x \<and> x < 65536) xs"
  shows "plain_groups (map hex_str xs)" "\<And>g. g \<in> set (map hex_str xs) \<Longrightarrow> hex14 g"
proof -
  show h: "hex14 g" if "g \<in> set (map hex_str xs)" for g
    using that assms hex14_hex_str by (auto simp: list_all_iff)
  show "plain_groups (map hex_str xs)"
    unfolding plain_groups_def using h hex14_no by (auto simp: hex14_def)
qed

lemma parseV6_print:
  assumes "0 \<le> v" "v < 2 ^ 128"
  shows "parseV6 (v6_addr (map (\<lambda>i. hex_str (v div 65536 ^ i mod 65536)) [7, 6, 5, 4, 3, 2, 1, 0])) = Some v"
    and "CHR '':'' \<in> set (v6_addr (map (\<lambda>i. hex_str (v div 65536 ^ i mod 65536)) [7, 6, 5, 4, 3, 2, 1, 0]))"
    and "CHR ''/'' \<notin> set (v6_addr (map (\<lambda>i. hex_str (v div 65536 ^ i mod 65536)) [7, 6, 5, 4, 3, 2, 1, 0]))"
proof -
  define xs where "xs = map (\<lambda>i. v div 65536 ^ i mod 65536) (rev [0..<8 :: nat])"
  define gs where "gs = map hex_str xs"
  have len: "length gs = 8" by (simp add: gs_def xs_def)
  have r: "list_all (\<lambda>x. 0 \<le> x \<and> x < 65536) xs"
    unfolding xs_def by (rule digits_range) simp
  note gr = hex_groups[OF r, folded gs_def]
  have e: "map (\<lambda>i. hex_str (v div 65536 ^ i mod 65536)) [7, 6, 5, 4, 3, 2, 1, 0] = gs"
    unfolding rev_upt_8 gs_def xs_def map_map comp_def ..
  have "v < 65536 ^ 8" using assms(2) by simp
  then have v: "foldl (\<lambda>a x. a * 65536 + x) 0 xs = v"
    unfolding xs_def using assms(1) by (intro digits_fold) simp_all
  have no: "CHR ''.'' \<notin> set (v6_addr gs)" "CHR ''/'' \<notin> set (v6_addr gs)"
    using v6_addr_chars(1)[OF len] gr(2) hex14_no by fastforce+
  then have "CHR ''.'' \<notin> set (last (split_on (CHR '':'') (v6_addr gs)))"
    using split_on_pieces[of "last (split_on (CHR '':'') (v6_addr gs))" "CHR '':''" "v6_addr gs"] by auto
  then have "expand_v4_tail (v6_addr gs) = Some (v6_addr gs)"
    by (simp add: expand_v4_tail_def Let_def)
  moreover obtain as bs where "v6_halves (v6_addr gs) = Some (as, bs)"
    "as @ replicate (8 - length as - length bs) ''0'' @ bs = gs"
    using v6_halves_addr[OF gr(1) len] .
  ultimately show "parseV6 (v6_addr (map (\<lambda>i. hex_str (v div 65536 ^ i mod 65536)) [7, 6, 5, 4, 3, 2, 1, 0])) = Some v"
    unfolding e using v6_addr_chars(2)[OF len] v6_groups_fold[OF r, of 0] v
    by (simp add: parseV6_def gs_def)
  show "CHR '':'' \<in> set (v6_addr (map (\<lambda>i. hex_str (v div 65536 ^ i mod 65536)) [7, 6, 5, 4, 3, 2, 1, 0]))"
    unfolding e by (rule v6_addr_chars(2)[OF len])
  show "CHR ''/'' \<notin> set (v6_addr (map (\<lambda>i. hex_str (v div 65536 ^ i mod 65536)) [7, 6, 5, 4, 3, 2, 1, 0]))"
    unfolding e by (rule no(2))
qed

section \<open>Masks\<close>

lemma maskBig_mult:
  "0 < bits \<Longrightarrow> bits < mx \<Longrightarrow> maskBig v bits mx = v div 2 ^ nat (mx - bits) * 2 ^ nat (mx - bits)"
  by (simp add: maskBig_def push_bit_eq_mult drop_bit_eq_div)

lemma maskBig_idem [simp]: "maskBig (maskBig v bits mx) bits mx = maskBig v bits mx"
proof (cases "0 < bits \<and> bits < mx")
  case True
  then show ?thesis by (simp add: maskBig_mult)
qed (auto simp: maskBig_def)

lemma maskBig_bounds: "0 \<le> v \<Longrightarrow> 0 \<le> maskBig v bits mx \<and> maskBig v bits mx \<le> v"
proof (cases "0 < bits \<and> bits < mx")
  case True
  assume "0 \<le> v"
  then show ?thesis
    using True div_bounds(1)[of "2 ^ nat (mx - bits)" v]
    by (simp add: maskBig_mult mult.commute pos_imp_zdiv_nonneg_iff)
qed (auto simp: maskBig_def)

text \<open>Two addresses agree under a mask exactly when they agree on the leading \<open>bits\<close> bits.\<close>

lemma maskBig_eq_iff:
  assumes "0 \<le> bits" "bits \<le> mx" "0 \<le> v" "v < 2 ^ nat mx" "0 \<le> w" "w < 2 ^ nat mx"
  shows "maskBig v bits mx = maskBig w bits mx \<longleftrightarrow> v div 2 ^ nat (mx - bits) = w div 2 ^ nat (mx - bits)"
proof -
  consider "bits = 0" | "bits = mx" | "0 < bits" "bits < mx" using assms by linarith
  then show ?thesis
  proof cases
    case 1
    with assms show ?thesis by (cases "mx = 0") (auto simp: maskBig_def)
  next
    case 2
    then show ?thesis by (simp add: maskBig_def)
  next
    case 3
    then show ?thesis by (simp add: maskBig_mult)
  qed
qed

fun wf_cidr :: "ParsedCidr \<Rightarrow> bool" where
  "wf_cidr (V4 bits v) \<longleftrightarrow> 0 \<le> bits \<and> bits \<le> 32 \<and> 0 \<le> v \<and> v < 2 ^ 32 \<and> maskBig v bits V4_MAX = v"
| "wf_cidr (V6 bits v) \<longleftrightarrow> 0 \<le> bits \<and> bits \<le> 128 \<and> 0 \<le> v \<and> v < 2 ^ 128 \<and> maskBig v bits V6_MAX = v"

section \<open>Parsed blocks are well formed\<close>

lemma char_digit_bounds: "0 \<le> char_digit c \<and> (is_hex c \<longrightarrow> char_digit c < 16) \<and> (is_digit c \<longrightarrow> char_digit c < 10)"
  by (auto simp: char_digit_def is_hex_def is_digit_def is_lower_def is_upper_def Let_def)

lemma digits_value_bounds:
  assumes "0 < b" "list_all (\<lambda>c. char_digit c < b) s"
  shows "0 \<le> digits_value b s \<and> digits_value b s < b ^ length s"
  using assms(2)
proof (induction s rule: rev_induct)
  case (snoc c s)
  let ?d = "digits_value b s"
  have c: "0 \<le> char_digit c" "char_digit c \<le> b - 1" using char_digit_bounds[of c] snoc.prems by auto
  have d: "0 \<le> ?d" "?d + 1 \<le> b ^ length s" using snoc by auto
  have "(?d + 1) * b \<le> b ^ length s * b" using d(2) assms(1) by (intro mult_right_mono) auto
  with c d assms(1) show ?case by (simp add: algebra_simps)
qed simp

lemma dec13_value: "dec13 p \<Longrightarrow> 0 \<le> digits_value 10 p"
  using digits_value_bounds[of 10 p] char_digit_bounds by (auto simp: dec13_def list_all_iff)

lemma hex14_value:
  assumes "hex14 g"
  shows "0 \<le> digits_value 16 g" "digits_value 16 g < 65536"
proof -
  have "0 \<le> digits_value 16 g \<and> digits_value 16 g < 16 ^ length g"
    using assms char_digit_bounds by (intro digits_value_bounds) (auto simp: hex14_def list_all_iff)
  moreover have "(16 :: int) ^ length g \<le> 16 ^ 4"
    using assms by (intro power_increasing) (auto simp: hex14_def)
  ultimately show "0 \<le> digits_value 16 g" "digits_value 16 g < 65536" by auto
qed

lemma shift_add_bounds:
  fixes acc B :: int
  assumes "0 \<le> acc" "acc < C" "0 \<le> d" "d < B"
  shows "0 \<le> acc * B + d" "acc * B + d < C * B"
proof -
  have "(acc + 1) * B \<le> C * B" using assms by (intro mult_right_mono) auto
  then show "acc * B + d < C * B" using assms by (simp add: algebra_simps)
  show "0 \<le> acc * B + d" using assms by simp
qed

lemma v4_parts_bounds:
  "\<lbrakk>v4_parts acc ps = Some v; 0 \<le> acc; acc < 256 ^ k\<rbrakk> \<Longrightarrow> 0 \<le> v \<and> v < 256 ^ (k + length ps)"
proof (induction ps arbitrary: acc k)
  case (Cons p ps)
  then have d: "dec13 p" "digits_value 10 p \<le> 255" "v4_parts (acc * 256 + digits_value 10 p) ps = Some v"
    by (auto split: if_splits)
  with Cons.prems dec13_value have "0 \<le> acc * 256 + digits_value 10 p"
    "acc * 256 + digits_value 10 p < 256 ^ Suc k"
    using shift_add_bounds[of acc "256 ^ k" "digits_value 10 p" 256] by (auto simp: mult.commute)
  from Cons.IH[OF d(3) this] show ?case by simp
qed simp

lemma v6_groups_bounds:
  "\<lbrakk>v6_groups acc gs = Some v; 0 \<le> acc; acc < 65536 ^ k\<rbrakk> \<Longrightarrow> 0 \<le> v \<and> v < 65536 ^ (k + length gs)"
proof (induction gs arbitrary: acc k)
  case (Cons g gs)
  then have d: "hex14 g" "v6_groups (acc * 65536 + digits_value 16 g) gs = Some v"
    by (auto split: if_splits)
  have "0 \<le> acc * 65536 + digits_value 16 g" "acc * 65536 + digits_value 16 g < 65536 ^ Suc k"
    using shift_add_bounds[of acc "65536 ^ k" "digits_value 16 g" 65536] hex14_value[OF d(1)] Cons.prems
    by (auto simp: mult.commute)
  from Cons.IH[OF d(2) this] show ?case by simp
qed simp

lemma parseV4_bounds: "parseV4 s = Some v \<Longrightarrow> 0 \<le> v \<and> v < 2 ^ 32"
  using v4_parts_bounds[of 0 "split_on (CHR ''.'') s" v 0]
  by (auto simp: parseV4_def Let_def split: if_splits)

lemma v6_halves_length: "v6_halves w = Some (a, b) \<Longrightarrow> length a + length b \<le> 8"
  by (auto simp: v6_halves_def Let_def split: if_splits list.splits)

lemma parseV6_bounds: "parseV6 s = Some v \<Longrightarrow> 0 \<le> v \<and> v < 2 ^ 128"
proof -
  assume "parseV6 s = Some v"
  then obtain w a b where h: "v6_halves w = Some (a, b)"
    and g: "v6_groups 0 (a @ replicate (8 - length a - length b) ''0'' @ b) = Some v"
    by (auto simp: parseV6_def split: if_splits option.splits)
  from v6_groups_bounds[OF g, of 0] v6_halves_length[OF h] show ?thesis by simp
qed

lemma parse_bits_bounds: "parse_bits mx b = Some n \<Longrightarrow> 0 \<le> mx \<Longrightarrow> 0 \<le> n \<and> n \<le> mx"
  using dec13_value by (auto simp: parse_bits_def split: option.splits if_splits)

lemma parseCidr_wf: "parseCidr s = Some c \<Longrightarrow> wf_cidr c"
proof -
  assume "parseCidr s = Some c"
  then consider (v6) v a n b where "parseV6 a = Some v" "parse_bits V6_MAX b = Some n" "c = V6 n (maskBig v n V6_MAX)"
    | (v4) v a n b where "parseV4 a = Some v" "parse_bits V4_MAX b = Some n" "c = V4 n (maskBig v n V4_MAX)"
    by (auto simp: parseCidr_def Let_def split: if_splits option.splits)
  then show ?thesis
  proof cases
    case v6
    with parseV6_bounds[OF v6(1)] parse_bits_bounds[OF v6(2)] maskBig_bounds[of v n V6_MAX]
    show ?thesis by (auto simp: V6_MAX_def)
  next
    case v4
    with parseV4_bounds[OF v4(1)] parse_bits_bounds[OF v4(2)] maskBig_bounds[of v n V4_MAX]
    show ?thesis by (auto simp: V4_MAX_def)
  qed
qed

section \<open>Printing and parsing\<close>

lemma indexOf_append: "c \<notin> set a \<Longrightarrow> indexOf c (a @ c # b) = Some (length a)"
  by (induction a) auto

lemma trim_no_ws: "list_all (\<lambda>c. \<not> js_ws c) s \<Longrightarrow> trim s = s"
  by (rule trim_id) (auto simp: list_all_iff)

lemma js_ws_hex [simp]: "is_hex c \<Longrightarrow> \<not> js_ws c" "is_digit c \<Longrightarrow> \<not> js_ws c"
  by (auto simp: is_hex_def is_digit_def js_ws_def)

lemma js_ws_marks [simp]: "\<not> js_ws (CHR ''.'')" "\<not> js_ws (CHR '':'')" "\<not> js_ws (CHR ''/'')"
  by (simp_all add: js_ws_def)

lemma parse_bits_print: "\<lbrakk>0 \<le> n; n \<le> mx; mx < 1000\<rbrakk> \<Longrightarrow> parse_bits mx (Some (dec_str n)) = Some n"
  by (simp add: parse_bits_def dec13_dec_str numeral_str_value)

lemma parseCidr_split:
  assumes "CHR ''/'' \<notin> set addr" "list_all (\<lambda>c. \<not> js_ws c) addr" "0 \<le> n" "n < 1000"
  shows "parseCidr (addr @ ''/'' @ dec_str n) =
    (if CHR '':'' \<in> set addr then
       (case parseV6 addr of None \<Rightarrow> None
        | Some v \<Rightarrow> map_option (\<lambda>bits. V6 bits (maskBig v bits V6_MAX)) (parse_bits V6_MAX (Some (dec_str n))))
     else (case parseV4 addr of None \<Rightarrow> None
        | Some v \<Rightarrow> map_option (\<lambda>bits. V4 bits (maskBig v bits V4_MAX)) (parse_bits V4_MAX (Some (dec_str n)))))"
proof -
  have "list_all (\<lambda>c. \<not> js_ws c) (dec_str n)"
    using dec13_dec_str[OF assms(3,4)] by (auto simp: dec13_def list_all_iff)
  with assms(2) have "trim (addr @ ''/'' @ dec_str n) = addr @ ''/'' @ dec_str n"
    by (intro trim_no_ws) simp
  then show ?thesis
    using indexOf_append[OF assms(1), of "dec_str n"]
    by (simp add: parseCidr_def Let_def split: option.split)
qed

lemma v4_addr_chars:
  "set (join ''.'' (map (\<lambda>i. dec_str (v div 256 ^ i mod 256)) is)) \<subseteq> {CHR ''.''} \<union> {c. is_digit c}"
proof -
  have "is_digit c" if "c \<in> set (dec_str (x mod 256))" for c and x :: int
    using dec13_dec_str[of "x mod 256"] pos_mod_bound[of 256 x] that by (auto simp: dec13_def list_all_iff)
  then have "\<Union> (set ` set (map (\<lambda>i. dec_str (v div 256 ^ i mod 256)) is)) \<subseteq> {c. is_digit c}"
    by auto
  with set_join[of "''.''" "map (\<lambda>i. dec_str (v div 256 ^ i mod 256)) is"] show ?thesis by auto
qed

lemma v4_addr_ok:
  "CHR ''/'' \<notin> set (join ''.'' (map (\<lambda>i. dec_str (v div 256 ^ i mod 256)) is))"
  "CHR '':'' \<notin> set (join ''.'' (map (\<lambda>i. dec_str (v div 256 ^ i mod 256)) is))"
  "list_all (\<lambda>c. \<not> js_ws c) (join ''.'' (map (\<lambda>i. dec_str (v div 256 ^ i mod 256)) is))"
  using v4_addr_chars[of v "is"] by (auto simp: list_all_iff)

lemma v6_addr_no_ws:
  assumes "length is = 8"
  shows "list_all (\<lambda>c. \<not> js_ws c) (v6_addr (map (\<lambda>i. hex_str (v div 65536 ^ i mod 65536)) is))"
proof -
  let ?gs = "map (\<lambda>i. hex_str (v div 65536 ^ i mod 65536)) is"
  have "\<not> js_ws c" if "c \<in> set (hex_str (x mod 65536))" for c and x :: int
    using hex14_hex_str[of "x mod 65536"] pos_mod_bound[of 65536 x] that by (auto simp: hex14_def list_all_iff)
  moreover have "set (v6_addr ?gs) \<subseteq> {CHR '':''} \<union> \<Union> (set ` set ?gs)"
    by (rule v6_addr_chars(1)) (simp add: assms)
  ultimately show ?thesis unfolding list_all_iff by fastforce
qed

lemma parse_print: "wf_cidr c \<Longrightarrow> parseCidr (cidrToString c) = Some c"
proof (cases c)
  case (V4 bits v)
  assume "wf_cidr c"
  with V4 have w: "0 \<le> bits" "bits \<le> 32" "0 \<le> v" "v < 2 ^ 32" "maskBig v bits V4_MAX = v" by auto
  have n: "bits < 1000" "parse_bits V4_MAX (Some (dec_str bits)) = Some bits"
    using w(1,2) by (simp_all add: parse_bits_print V4_MAX_def)
  show ?thesis
    unfolding V4 cidrToString.simps parseCidr_split[OF v4_addr_ok(1,3) w(1) n(1)] n(2)
      parseV4_print[OF w(3,4)] if_not_P[OF v4_addr_ok(2)] option.case option.map w(5) ..
next
  case (V6 bits v)
  assume "wf_cidr c"
  with V6 have w: "0 \<le> bits" "bits \<le> 128" "0 \<le> v" "v < 2 ^ 128" "maskBig v bits V6_MAX = v" by auto
  have n: "bits < 1000" "parse_bits V6_MAX (Some (dec_str bits)) = Some bits"
    using w(1,2) by (simp_all add: parse_bits_print V6_MAX_def)
  have ws: "list_all (\<lambda>c. \<not> js_ws c)
      (v6_addr (map (\<lambda>i. hex_str (v div 65536 ^ i mod 65536)) [7, 6, 5, 4, 3, 2, 1, 0]))"
    by (rule v6_addr_no_ws) simp
  show ?thesis
    unfolding V6 cidrToString.simps parseCidr_split[OF parseV6_print(3)[OF w(3,4)] ws w(1) n(1)] n(2)
      parseV6_print(1)[OF w(3,4)] if_P[OF parseV6_print(2)[OF w(3,4)]] option.case option.map w(5) ..
qed

lemma dec_str_no_ws: "0 \<le> n \<Longrightarrow> list_all (\<lambda>c. \<not> js_ws c) (dec_str n)"
  using numeral_str_set[of 10 n is_digit] by (auto simp: list_all_iff)

lemma cidr_trim:
  assumes "wf_cidr c"
  shows "trim (cidrToString c) = cidrToString c" "cidrToString c \<noteq> []"
proof -
  have "list_all (\<lambda>c. \<not> js_ws c) (cidrToString c)"
  proof (cases c)
    case (V4 bits v)
    with assms dec_str_no_ws[of bits] v4_addr_ok(3)[of v "[3, 2, 1, 0]"] show ?thesis
      unfolding V4 cidrToString.simps list_all_append by auto
  next
    case (V6 bits v)
    with assms dec_str_no_ws[of bits] v6_addr_no_ws[of "[7, 6, 5, 4, 3, 2, 1, 0]" v] show ?thesis
      unfolding V6 cidrToString.simps list_all_append by auto
  qed
  then show "trim (cidrToString c) = cidrToString c" by (rule trim_no_ws)
  show "cidrToString c \<noteq> []" by (cases c) auto
qed

section \<open>Canonical lists\<close>

definition canonical :: "string list \<Rightarrow> bool" where
  "canonical xs \<longleftrightarrow> distinct xs \<and> length xs \<le> MAX_CIDR_ENTRIES
     \<and> (\<forall>s\<in>set xs. \<exists>c. wf_cidr c \<and> s = cidrToString c)"

lemma canon_loop_canonical:
  "\<lbrakk>canon_loop out es = Inr res; canonical out\<rbrakk> \<Longrightarrow> canonical res"
proof (induction out es rule: canon_loop.induct)
  case (3 out raw es)
  show ?case
  proof (cases "trim raw = []")
    case True
    with 3 show ?thesis by simp
  next
    case False
    with "3.prems" obtain p where p: "parseCidr (trim raw) = Some p"
      by (auto split: option.splits)
    note step = "3.prems"(1) "3.IH"(2,3)[OF False p refl] "3.prems"(2) parseCidr_wf[OF p]
    from step False p show ?thesis
      by (cases "cidrToString p \<in> set out") (auto simp: canonical_def Let_def split: if_splits)
  qed
qed simp_all

lemma canon_loop_fixed:
  "canonical (out @ xs) \<Longrightarrow> canon_loop out (map Some xs) = Inr (out @ xs)"
proof (induction xs arbitrary: out)
  case (Cons x xs)
  from Cons.prems obtain c where c: "wf_cidr c" "x = cidrToString c"
    by (auto simp: canonical_def)
  with Cons.prems have "x \<notin> set out" "length (out @ [x]) \<le> MAX_CIDR_ENTRIES"
    by (auto simp: canonical_def)
  moreover have "canonical ((out @ [x]) @ xs)" using Cons.prems by simp
  ultimately show ?case
    using Cons.IH[of "out @ [x]"] cidr_trim[OF c(1)] parse_print[OF c(1)] c(2)
    by (simp add: Let_def)
qed simp

lemma canonicalize_canonical:
  "canonicalizeCidrList es = Inr res \<Longrightarrow> canonical res"
  using canon_loop_canonical[of "[]"] by (auto simp: canonicalizeCidrList_def canonical_def split: option.splits)

lemma canonical_parses:
  assumes "canonical xs" "x \<in> set xs"
  shows "\<exists>c. parseCidr x = Some c \<and> cidrToString c = x \<and> wf_cidr c"
  using assms parse_print by (auto simp: canonical_def)

section \<open>Properties\<close>

text \<open>Printing a parsed CIDR block and parsing it again gives the same block, for IPv4 and
  for IPv6 with its zero compression: what the policy stores keep as text means what was
  submitted.\<close>

theorem cidr_print_parse_roundtrip:
  assumes "parseCidr s = Some c"
  shows "parseCidr (cidrToString c) = Some c"
  by (rule parse_print[OF parseCidr_wf[OF assms]])

text \<open>An accepted list comes out canonical: without duplicates, at most
  \<^verbatim>\<open>MAX_CIDR_ENTRIES\<close> long, every entry parseable, and submitting it again returns it
  unchanged.\<close>

theorem canonicalizeCidrList_canonical:
  assumes "canonicalizeCidrList es = Inr res"
  shows "canonicalizeCidrList (Some (map Some res)) = Inr res \<and> distinct res \<and> length res \<le> 64
    \<and> list_all (\<lambda>s. parseCidr s \<noteq> None) res"
  using canonicalize_canonical[OF assms] canon_loop_fixed[of "[]" res] canonical_parses[of res]
  by (auto simp: canonicalizeCidrList_def canonical_def MAX_CIDR_ENTRIES_def list_all_iff)

text \<open>An IPv4 client matches an allowlist of parsed blocks exactly when its address
  agrees with one of the IPv4 blocks on the block's leading bits.\<close>

theorem ipMatchesAny_v4:
  assumes "normalizeIp ip = Some a" "CHR '':'' \<notin> set a" "parseV4 a = Some v"
    and "list_all wf_cidr cs"
  shows "ipMatchesAny ip cs \<longleftrightarrow>
    list_ex (\<lambda>c. case c of V4 bits val \<Rightarrow> v div 2 ^ nat (32 - bits) = val div 2 ^ nat (32 - bits)
                         | V6 _ _ \<Rightarrow> False) cs"
proof -
  have k: "(maskBig v bits V4_MAX = val) \<longleftrightarrow> v div 2 ^ nat (32 - bits) = val div 2 ^ nat (32 - bits)"
    if "wf_cidr (V4 bits val)" for bits val
    using that maskBig_eq_iff[of bits V4_MAX v val] parseV4_bounds[OF assms(3)]
    by (auto simp: V4_MAX_def)
  have "ipMatchesAny ip cs
      = list_ex (\<lambda>c. case c of V4 bits val \<Rightarrow> maskBig v bits V4_MAX = val | V6 _ _ \<Rightarrow> False) cs"
    using assms by (simp add: ipMatchesAny_def)
  also have "\<dots> \<longleftrightarrow> list_ex (\<lambda>c. case c of V4 bits val \<Rightarrow> v div 2 ^ nat (32 - bits) = val div 2 ^ nat (32 - bits)
                         | V6 _ _ \<Rightarrow> False) cs"
    unfolding list_ex_iff
  proof (intro bex_cong refl)
    fix c assume "c \<in> set cs"
    with assms(4) have "wf_cidr c" by (simp add: list_all_iff)
    then show "(case c of V4 bits val \<Rightarrow> maskBig v bits V4_MAX = val | V6 _ _ \<Rightarrow> False)
        = (case c of V4 bits val \<Rightarrow> v div 2 ^ nat (32 - bits) = val div 2 ^ nat (32 - bits) | V6 _ _ \<Rightarrow> False)"
      by (cases c) (simp_all only: k ParsedCidr.case)
  qed
  finally show ?thesis .
qed

text \<open>An allowlist entry written in IPv4-mapped form (\<^verbatim>\<open>::ffff:203.0.113.5\<close>) is accepted and
  stored, but a request from that very address does not match it: the entry is parsed as
  IPv6 while the client address is collapsed to IPv4.\<close>

theorem mapped_entry_never_matches:
  "\<exists>c. parseCidr ''::ffff:203.0.113.5'' = Some c
     \<and> canonicalizeCidrList (Some [Some ''::ffff:203.0.113.5'']) = Inr [cidrToString c]
     \<and> \<not> ipMatchesAny ''::ffff:203.0.113.5'' [c]"
proof -
  have "parseCidr ''::ffff:203.0.113.5'' = Some (V6 128 281474087547141)" by code_simp
  moreover have "canonicalizeCidrList (Some [Some ''::ffff:203.0.113.5''])
      = Inr [cidrToString (V6 128 281474087547141)]" by code_simp
  moreover have "\<not> ipMatchesAny ''::ffff:203.0.113.5'' [V6 128 281474087547141]" by code_simp
  ultimately show ?thesis by blast
qed

theorem cidr_print_parse_roundtrip_witness:
  "parseCidr (cidrToString (V6 32 42540766411282592856903984951653826560))
     = Some (V6 32 42540766411282592856903984951653826560)"
proof -
  have "parseCidr ''2001:db8::/32'' = Some (V6 32 42540766411282592856903984951653826560)" by code_simp
  then show ?thesis by (rule cidr_print_parse_roundtrip)
qed

theorem canonicalizeCidrList_witness:
  "canonicalizeCidrList (Some (map Some [''10.0.0.0/8''])) = Inr [''10.0.0.0/8'']"
proof -
  have "canonicalizeCidrList (Some [Some '' 10.1.2.3/8 '', Some [], Some ''10.0.0.0/8'']) = Inr [''10.0.0.0/8'']"
    by code_simp
  from canonicalizeCidrList_canonical[OF this] show ?thesis by blast
qed

theorem ipMatchesAny_v4_witness: "ipMatchesAny ''10.9.9.9'' [V4 8 167772160]"
proof -
  have "normalizeIp ''10.9.9.9'' = Some ''10.9.9.9''" "parseV4 ''10.9.9.9'' = Some 168364297"
    "list_all wf_cidr [V4 8 167772160]" by code_simp+
  from ipMatchesAny_v4[OF this(1) _ this(2,3)] show ?thesis by simp
qed

end
