(* ===== verification/KeyStore.thy ===== *)
theory KeyStore
  imports AuthLockout IpMatch
begin

text \<open>
  The API key store and the authentication entry points (\<^verbatim>\<open>src/web/lib/keyStore.ts\<close>): the
  stored key, the administrative operations on it, and \<^verbatim>\<open>authenticateWithStatus\<close>, which
  consults the lockout of \<^verbatim>\<open>AuthLockout\<close>, the environment's admin key and the stored hashes.
  Secrets and ids are drawn by \<^verbatim>\<open>crypto.randomBytes\<close> and are arguments; SHA-256 is the host's.

  The theorems: what a successful authentication implies, that rotation swaps the secret,
  that a revoked key never changes again, that keys minted through the API never carry the
  admin scope, and that a locked address is refused before any key is looked at.
\<close>

section \<open>Data\<close>

datatype Scope = S_read | S_trade | S_admin

datatype KeyRole = Role_owner | Role_admin | Role_member | Role_viewer

definition ALL_ROLES :: "(string \<times> KeyRole) list" where
  "ALL_ROLES = [(''owner'', Role_owner), (''admin'', Role_admin), (''member'', Role_member), (''viewer'', Role_viewer)]"

fun roleToScopes :: "KeyRole \<Rightarrow> Scope list" where
  "roleToScopes Role_owner = [S_admin, S_read, S_trade]"
| "roleToScopes Role_admin = [S_admin, S_read, S_trade]"
| "roleToScopes Role_member = [S_read, S_trade]"
| "roleToScopes Role_viewer = [S_read]"

definition inferRole :: "Scope list \<Rightarrow> KeyRole" where
  "inferRole scopes = (if S_admin \<in> set scopes then Role_admin
     else if S_trade \<in> set scopes then Role_member else Role_viewer)"

text \<open>Optional fields that the code treats alike when they are \<^verbatim>\<open>null\<close> and when they are missing
  are options; \<^verbatim>\<open>suspended?: boolean\<close> is read as a truth value only.\<close>

record StoredKey =
  k_id :: string
  k_label :: string
  k_prefix :: string
  k_hash :: string
  k_scopes :: "Scope list"
  k_role :: "KeyRole option"
  k_created_at :: string
  k_last_used_at :: "string option"
  k_revoked :: bool
  k_ip_allowlist :: "string list option"
  k_route_allowlist :: "string list option"
  k_expires_at :: "string option"
  k_suspended :: bool
  k_suspended_at :: "string option"
  k_suspended_reason :: "string option"

type_synonym key_file = "StoredKey list cast_file"

definition readStore :: "key_file \<Rightarrow> StoredKey list res" where
  "readStore f = (case f of NoFile \<Rightarrow> Inr [] | BadFile \<Rightarrow> Inl IoFault | Stored ks \<Rightarrow> Inr ks)"

definition writeStore :: "StoredKey list \<Rightarrow> key_file \<Rightarrow> key_file" where
  "writeStore ks f = Stored ks"

section \<open>Expiry and the public view\<close>

definition isExpired :: "host \<Rightarrow> StoredKey \<Rightarrow> int \<Rightarrow> bool" where
  "isExpired H k now =
     (truthy (k_expires_at k) \<and> date_le H (or_empty (k_expires_at k)) now)"

record KeyView =
  kv_id :: string
  kv_label :: string
  kv_prefix :: string
  kv_scopes :: "Scope list"
  kv_role :: KeyRole
  kv_effective_scopes :: "Scope list"
  kv_created_at :: string
  kv_last_used_at :: "string option"
  kv_revoked :: bool
  kv_ip_allowlist :: "string list"
  kv_route_allowlist :: "string list"
  kv_expires_at :: "string option"
  kv_expired :: bool
  kv_suspended :: bool
  kv_suspended_at :: "string option"
  kv_suspended_reason :: "string option"

definition key_publicView :: "host \<Rightarrow> int \<Rightarrow> StoredKey \<Rightarrow> KeyView" where
  "key_publicView H now k =
     \<lparr>kv_id = k_id k, kv_label = k_label k, kv_prefix = k_prefix k, kv_scopes = k_scopes k,
      kv_role = (case k_role k of Some r \<Rightarrow> r | None \<Rightarrow> inferRole (k_scopes k)),
      kv_effective_scopes = k_scopes k, kv_created_at = k_created_at k,
      kv_last_used_at = k_last_used_at k, kv_revoked = k_revoked k,
      kv_ip_allowlist = (case k_ip_allowlist k of None \<Rightarrow> [] | Some xs \<Rightarrow> xs),
      kv_route_allowlist = (case k_route_allowlist k of None \<Rightarrow> [] | Some xs \<Rightarrow> xs),
      kv_expires_at = k_expires_at k, kv_expired = isExpired H k now, kv_suspended = k_suspended k,
      kv_suspended_at = k_suspended_at k, kv_suspended_reason = k_suspended_reason k\<rparr>"

section \<open>Administrative operations\<close>

text \<open>
  Six operations share their frame: read the store, find the key, answer \<^verbatim>\<open>null\<close> when it is
  missing or revoked, change it in place and write the store. \<open>edit_key\<close> is that frame; the
  change may throw, in which case nothing is written.
\<close>

definition edit_key ::
  "string \<Rightarrow> (StoredKey \<Rightarrow> StoredKey res) \<Rightarrow> key_file \<Rightarrow> StoredKey option res \<times> key_file" where
  "edit_key kid f st =
     (case readStore st of
        Inl e \<Rightarrow> (Inl e, st)
      | Inr ks \<Rightarrow>
          (case find (\<lambda>x. k_id x = kid) ks of
             None \<Rightarrow> (Inr None, st)
           | Some k \<Rightarrow>
               if k_revoked k then (Inr None, st)
               else (case f k of
                       Inl e \<Rightarrow> (Inl e, st)
                     | Inr k' \<Rightarrow> (Inr (Some k'), writeStore (upd_first (\<lambda>x. k_id x = kid) (\<lambda>_. k') ks) st))))"

definition setKeyRole :: "string \<Rightarrow> string \<Rightarrow> key_file \<Rightarrow> StoredKey option res \<times> key_file" where
  "setKeyRole kid role st =
     (if kid = ''env-admin'' then (Inr None, st)
      else case map_of ALL_ROLES role of
        None \<Rightarrow> (Inl (Thrown (''invalid_role: '' @ role)), st)
      | Some r \<Rightarrow> edit_key kid (\<lambda>k. Inr (k\<lparr>k_role := Some r, k_scopes := roleToScopes r\<rparr>)) st)"

definition setKeyLabel :: "string \<Rightarrow> string option \<Rightarrow> key_file \<Rightarrow> StoredKey option res \<times> key_file" where
  "setKeyLabel kid label st =
     (if kid = ''env-admin'' then (Inr None, st)
      else case label of
        None \<Rightarrow> (Inl (Thrown ''invalid_label: must be a string''), st)
      | Some l \<Rightarrow>
          (let next = take 80 (trim l) in
           if next = [] then (Inl (Thrown ''invalid_label: must not be empty''), st)
           else edit_key kid (\<lambda>k. Inr (k\<lparr>k_label := next\<rparr>)) st))"

definition setKeySuspended ::
  "int \<Rightarrow> string \<Rightarrow> bool \<Rightarrow> string option \<Rightarrow> key_file \<Rightarrow> StoredKey option res \<times> key_file" where
  "setKeySuspended now kid susp reason st =
     (if kid = ''env-admin'' then (Inr None, st)
      else edit_key kid (\<lambda>k. Inr
        (if susp then k\<lparr>k_suspended := True, k_suspended_at := Some (toISOString now),
                        k_suspended_reason := or_null (take 200 (or_empty reason))\<rparr>
         else k\<lparr>k_suspended := False, k_suspended_at := None, k_suspended_reason := None\<rparr>)) st)"

definition parse_expiry :: "host \<Rightarrow> int \<Rightarrow> string \<Rightarrow> string res" where
  "parse_expiry H now iso_str =
     (case date_parse H iso_str of
        None \<Rightarrow> Inl (Thrown ''invalid_expiry: not a valid ISO 8601 timestamp'')
      | Some t \<Rightarrow> if t \<le> now then Inl (Thrown ''invalid_expiry: expires_at must be in the future'')
                  else Inr (toISOString t))"

definition setKeyExpiry ::
  "host \<Rightarrow> int \<Rightarrow> string \<Rightarrow> string option \<Rightarrow> key_file \<Rightarrow> StoredKey option res \<times> key_file" where
  "setKeyExpiry H now kid iso_str st =
     (if kid = ''env-admin'' then (Inr None, st)
      else edit_key kid (\<lambda>k.
        if iso_str = None \<or> iso_str = Some [] then Inr (k\<lparr>k_expires_at := None\<rparr>)
        else (case parse_expiry H now (or_empty iso_str) of
                Inl e \<Rightarrow> Inl e | Inr x \<Rightarrow> Inr (k\<lparr>k_expires_at := Some x\<rparr>))) st)"

definition setKeyIpAllowlist :: "string \<Rightarrow> string list \<Rightarrow> key_file \<Rightarrow> StoredKey option res \<times> key_file" where
  "setKeyIpAllowlist kid cidrs st = edit_key kid (\<lambda>k. Inr (k\<lparr>k_ip_allowlist := Some cidrs\<rparr>)) st"

definition setKeyRouteAllowlist :: "string \<Rightarrow> string list \<Rightarrow> key_file \<Rightarrow> StoredKey option res \<times> key_file" where
  "setKeyRouteAllowlist kid routes st =
     (if kid = ''env-admin'' then (Inr None, st)
      else edit_key kid (\<lambda>k. Inr (k\<lparr>k_route_allowlist := Some routes\<rparr>)) st)"

definition getKey :: "string \<Rightarrow> key_file \<Rightarrow> StoredKey option res" where
  "getKey kid st = (case readStore st of Inl e \<Rightarrow> Inl e | Inr ks \<Rightarrow> Inr (find (\<lambda>x. k_id x = kid) ks))"

definition listKeys :: "key_file \<Rightarrow> StoredKey list res" where
  "listKeys st = (case readStore st of Inl e \<Rightarrow> Inl e | Inr ks \<Rightarrow> Inr (sort_desc k_created_at ks))"

record CreateInput =
  cr_label :: string
  cr_scopes :: "Scope list"
  cr_expires_at :: "string option"

text \<open>The scopes of a new key: the requested ones among read and trade, without repetitions, and
  read when nothing is left.\<close>

definition create_scopes :: "Scope list \<Rightarrow> Scope list" where
  "create_scopes scopes =
     (let s = dedup (filter (\<lambda>x. x = S_read \<or> x = S_trade) scopes) in if s = [] then [S_read] else s)"

definition createKey ::
  "host \<Rightarrow> clock \<Rightarrow> string \<Rightarrow> string \<Rightarrow> CreateInput \<Rightarrow> key_file \<Rightarrow> (StoredKey \<times> string) res \<times> key_file" where
  "createKey H c kid secret input st =
     (let label = (let l = take 80 (trim (cr_label input)) in if l = [] then ''unlabeled'' else l);
          scopes = create_scopes (cr_scopes input);
          expires = (if truthy (cr_expires_at input)
                     then map_sum id Some (parse_expiry H (c 0) (or_empty (cr_expires_at input)))
                     else Inr None)
      in case expires of
           Inl e \<Rightarrow> (Inl e, st)
         | Inr x \<Rightarrow>
             (let key = \<lparr>k_id = kid, k_label = label, k_prefix = take 10 secret, k_hash = host_sha256 H secret,
                         k_scopes = scopes, k_role = Some (inferRole scopes),
                         k_created_at = toISOString (c 1), k_last_used_at = None, k_revoked = False,
                         k_ip_allowlist = None, k_route_allowlist = None, k_expires_at = x,
                         k_suspended = False, k_suspended_at = None, k_suspended_reason = None\<rparr>
              in case readStore st of
                   Inl e \<Rightarrow> (Inl e, st)
                 | Inr ks \<Rightarrow> (Inr (key, secret), writeStore (ks @ [key]) st)))"

definition revokeKey :: "string \<Rightarrow> key_file \<Rightarrow> bool res \<times> key_file" where
  "revokeKey kid st =
     (case readStore st of
        Inl e \<Rightarrow> (Inl e, st)
      | Inr ks \<Rightarrow>
          (case find (\<lambda>x. k_id x = kid) ks of
             None \<Rightarrow> (Inr False, st)
           | Some k \<Rightarrow>
               if k_revoked k then (Inr True, st)
               else (Inr True, writeStore (upd_first (\<lambda>x. k_id x = kid) (k_revoked_update (\<lambda>_. True)) ks) st)))"

definition rotateKey ::
  "host \<Rightarrow> int \<Rightarrow> string \<Rightarrow> string \<Rightarrow> key_file \<Rightarrow> (StoredKey \<times> string) option res \<times> key_file" where
  "rotateKey H now secret kid st =
     (case edit_key kid (\<lambda>k. Inr (k\<lparr>k_prefix := take 10 secret, k_hash := host_sha256 H secret,
                                     k_last_used_at := None, k_created_at := toISOString now\<rparr>)) st of
        (out, st') \<Rightarrow> (map_sum id (map_option (\<lambda>k. (k, secret))) out, st'))"

section \<open>Authentication\<close>

datatype AuthReason = Missing | Unknown_key | Key_expired | Key_suspended

datatype AuthenticateStatus = AuthOk StoredKey | Unauthorized AuthReason | AuthLocked int string

record auth_world =
  aw_keys :: key_file
  aw_lock :: lk_store

definition env_admin_key :: "host \<Rightarrow> int \<Rightarrow> string \<Rightarrow> StoredKey" where
  "env_admin_key H now adminEnv =
     \<lparr>k_id = ''env-admin'', k_label = ''env admin'', k_prefix = take 10 adminEnv,
      k_hash = host_sha256 H adminEnv, k_scopes = [S_admin, S_read, S_trade], k_role = Some Role_owner,
      k_created_at = ''1970-01-01T00:00:00.000Z'', k_last_used_at = Some (toISOString now),
      k_revoked = False, k_ip_allowlist = None, k_route_allowlist = None, k_expires_at = None,
      k_suspended = False, k_suspended_at = None, k_suspended_reason = None\<rparr>"

text \<open>\<^verbatim>\<open>timingSafeEqual\<close> is string equality; its running time is not modelled.\<close>

definition timingSafeEqual :: "string \<Rightarrow> string \<Rightarrow> bool" where
  "timingSafeEqual a b \<longleftrightarrow> length a = length b \<and> a = b"

text \<open>
  The part of \<^verbatim>\<open>authenticateWithStatus\<close> after the lockout decision and the check for a missing
  secret. Clock readings: 1 the \<^verbatim>\<open>now\<close> of \<^verbatim>\<open>isExpired\<close>, 2 \<^verbatim>\<open>last_used_at\<close>, 3 the failure record.
\<close>

definition auth_lookup ::
  "host \<Rightarrow> string option \<Rightarrow> clock \<Rightarrow> string \<Rightarrow> string \<Rightarrow> auth_world \<Rightarrow> AuthenticateStatus res \<times> auth_world" where
  "auth_lookup H adminEnv c ip secret w =
     (if truthy adminEnv \<and> timingSafeEqual secret (or_empty adminEnv)
      then (Inr (AuthOk (env_admin_key H (c 2) (or_empty adminEnv))),
            w\<lparr>aw_lock := clearAuthFailures ip (aw_lock w)\<rparr>)
      else case readStore (aw_keys w) of
        Inl e \<Rightarrow> (Inl e, w)
      | Inr ks \<Rightarrow>
          (let P = (\<lambda>x. k_hash x = host_sha256 H secret \<and> \<not> k_revoked x);
               touch = (\<lambda>k. k\<lparr>k_last_used_at := Some (toISOString (c 2))\<rparr>) in
           case find P ks of
             None \<Rightarrow> (Inr (Unauthorized Unknown_key),
                      w\<lparr>aw_lock := recordAuthFailure H ip (c 3) (aw_lock w)\<rparr>)
           | Some k \<Rightarrow>
               if isExpired H k (c 1) then (Inr (Unauthorized Key_expired), w)
               else if k_suspended k then (Inr (Unauthorized Key_suspended), w)
               else (Inr (AuthOk (touch k)),
                     w\<lparr>aw_keys := writeStore (upd_first P touch ks) (aw_keys w),
                       aw_lock := clearAuthFailures ip (aw_lock w)\<rparr>)))"

definition authenticateWithStatus ::
  "host \<Rightarrow> string option \<Rightarrow> clock \<Rightarrow> headers option \<Rightarrow> string \<Rightarrow> auth_world \<Rightarrow> AuthenticateStatus res \<times> auth_world"
where
  "authenticateWithStatus H adminEnv c req secret w =
     (let ip = (case req of None \<Rightarrow> [] | Some h \<Rightarrow> clientIpFromRequest h);
          (decision, lock') = (if ip = [] then (NotLocked, aw_lock w) else decideLockout H ip (c 0) (aw_lock w));
          w = w\<lparr>aw_lock := lock'\<rparr>
      in case decision of
           Locked retry until \<Rightarrow> (Inr (AuthLocked retry until), w)
         | NotLocked \<Rightarrow>
             if secret = [] then (Inr (Unauthorized Missing), w)
             else auth_lookup H adminEnv c ip secret w)"

definition authenticate ::
  "host \<Rightarrow> string option \<Rightarrow> clock \<Rightarrow> headers option \<Rightarrow> string \<Rightarrow> auth_world \<Rightarrow> StoredKey option res \<times> auth_world" where
  "authenticate H adminEnv c req secret w =
     (case authenticateWithStatus H adminEnv c req secret w of
        (out, w') \<Rightarrow> (map_sum id (\<lambda>r. case r of AuthOk k \<Rightarrow> Some k | _ \<Rightarrow> None) out, w'))"

text \<open>\<^verbatim>\<open>/^bearer\s+(\S+)/i\<close> on the authorization header, else \<^verbatim>\<open>x-api-key\<close>.\<close>

definition extractKey :: "headers \<Rightarrow> string" where
  "extractKey h =
     (let auth = or_empty (h ''authorization''); rest = drop 6 auth;
          tok = takeWhile (\<lambda>c. \<not> js_ws c) (dropWhile js_ws rest)
      in if toLowerCase (take 6 auth) = ''bearer'' \<and> rest \<noteq> [] \<and> js_ws (hd rest) \<and> tok \<noteq> []
         then tok else or_empty (h ''x-api-key''))"

section \<open>Runs of key operations\<close>

definition ks_rows :: "key_file \<Rightarrow> StoredKey list" where
  "ks_rows f = (case readStore f of Inl e \<Rightarrow> [] | Inr ks \<Rightarrow> ks)"

lemma readStore_Inr [simp]: "readStore f = Inr ks \<Longrightarrow> ks_rows f = ks"
  by (simp add: ks_rows_def)

lemma ks_rows_write [simp]: "ks_rows (writeStore ks f) = ks"
  by (simp add: ks_rows_def writeStore_def readStore_def)

datatype key_op =
    KRole string string
  | KLabel string "string option"
  | KSuspend int string bool "string option"
  | KExpiry int string "string option"
  | KIps string "string list"
  | KRoutes string "string list"
  | KCreate clock string string CreateInput
  | KRevoke string
  | KRotate int string string
  | KAuth clock "headers option" string

fun key_exec :: "host \<Rightarrow> string option \<Rightarrow> key_op \<Rightarrow> auth_world \<Rightarrow> auth_world" where
  "key_exec H env (KRole i r) w = w\<lparr>aw_keys := snd (setKeyRole i r (aw_keys w))\<rparr>"
| "key_exec H env (KLabel i l) w = w\<lparr>aw_keys := snd (setKeyLabel i l (aw_keys w))\<rparr>"
| "key_exec H env (KSuspend t i b r) w = w\<lparr>aw_keys := snd (setKeySuspended t i b r (aw_keys w))\<rparr>"
| "key_exec H env (KExpiry t i x) w = w\<lparr>aw_keys := snd (setKeyExpiry H t i x (aw_keys w))\<rparr>"
| "key_exec H env (KIps i xs) w = w\<lparr>aw_keys := snd (setKeyIpAllowlist i xs (aw_keys w))\<rparr>"
| "key_exec H env (KRoutes i xs) w = w\<lparr>aw_keys := snd (setKeyRouteAllowlist i xs (aw_keys w))\<rparr>"
| "key_exec H env (KCreate c i s x) w = w\<lparr>aw_keys := snd (createKey H c i s x (aw_keys w))\<rparr>"
| "key_exec H env (KRevoke i) w = w\<lparr>aw_keys := snd (revokeKey i (aw_keys w))\<rparr>"
| "key_exec H env (KRotate t s i) w = w\<lparr>aw_keys := snd (rotateKey H t s i (aw_keys w))\<rparr>"
| "key_exec H env (KAuth c req s) w = snd (authenticateWithStatus H env c req s w)"

text \<open>What any operation may do to a key: keep its id, and leave it alone once it is revoked.\<close>

definition key_evolves :: "StoredKey \<Rightarrow> StoredKey \<Rightarrow> bool" where
  "key_evolves k k' \<longleftrightarrow> k_id k' = k_id k \<and> (k_revoked k \<longrightarrow> k' = k)"

definition rows_evolve :: "StoredKey list \<Rightarrow> StoredKey list \<Rightarrow> bool" where
  "rows_evolve ks ks' \<longleftrightarrow> list_all2 key_evolves ks (take (length ks) ks') \<and> length ks \<le> length ks'"

lemma key_evolves_refl [simp]: "key_evolves k k"
  by (simp add: key_evolves_def)

lemma rows_evolve_refl [simp]: "rows_evolve ks ks"
  by (simp add: rows_evolve_def list_all2_refl)

lemma rows_evolve_append [simp]: "rows_evolve ks (ks @ xs)"
  by (simp add: rows_evolve_def list_all2_refl)

lemma rows_evolve_trans:
  assumes "rows_evolve a b" "rows_evolve b c"
  shows "rows_evolve a c"
proof -
  have "key_evolves (a ! i) (c ! i)" if "i < length a" for i
    using assms that by (force simp: rows_evolve_def list_all2_conv_all_nth key_evolves_def)
  with assms show ?thesis by (auto simp: rows_evolve_def list_all2_conv_all_nth)
qed

lemma rows_evolve_upd:
  "(\<And>k. find P ks = Some k \<Longrightarrow> key_evolves k (f k)) \<Longrightarrow> rows_evolve ks (upd_first P f ks)"
  by (simp add: rows_evolve_def list_all2_upd_first)

lemma edit_key_evolves:
  assumes "\<And>k k'. f k = Inr k' \<Longrightarrow> k_id k' = k_id k"
  shows "rows_evolve (ks_rows st) (ks_rows (snd (edit_key kid f st)))"
  using assms
  by (auto simp: edit_key_def split: sum.splits option.splits intro!: rows_evolve_upd)
     (auto simp: key_evolves_def)

lemma auth_lookup_evolves:
  "rows_evolve (ks_rows (aw_keys w)) (ks_rows (aw_keys (snd (auth_lookup H env c ip s w))))"
  by (auto simp: auth_lookup_def Let_def split: sum.splits option.splits intro!: rows_evolve_upd)
     (auto simp: key_evolves_def dest: find_SomeD)

lemma authenticate_evolves:
  "rows_evolve (ks_rows (aw_keys w)) (ks_rows (aw_keys (snd (authenticateWithStatus H env c req s w))))"
  using auth_lookup_evolves[of "w\<lparr>aw_lock := l\<rparr>" for l] auth_lookup_evolves[of w]
  by (auto simp: authenticateWithStatus_def Let_def split: prod.splits LockoutDecision.splits)

lemma revoke_evolves: "rows_evolve (ks_rows st) (ks_rows (snd (revokeKey kid st)))"
  by (auto simp: revokeKey_def split: sum.splits option.splits intro!: rows_evolve_upd)
     (auto simp: key_evolves_def)

lemma create_evolves: "rows_evolve (ks_rows st) (ks_rows (snd (createKey H c kid s x st)))"
  by (auto simp: createKey_def Let_def split: sum.splits)

lemma key_exec_evolves: "rows_evolve (ks_rows (aw_keys w)) (ks_rows (aw_keys (key_exec H env op w)))"
  by (cases op)
     (auto simp: setKeyRole_def setKeyLabel_def setKeySuspended_def setKeyExpiry_def setKeyIpAllowlist_def
       setKeyRouteAllowlist_def rotateKey_def Let_def case_prod_unfold revoke_evolves create_evolves authenticate_evolves
       split: option.splits sum.splits if_splits intro!: edit_key_evolves)

section \<open>Wrong guesses\<close>

definition guess :: "host \<Rightarrow> string option \<Rightarrow> headers \<Rightarrow> clock \<times> string \<Rightarrow> auth_world \<Rightarrow> auth_world" where
  "guess H env h a w = snd (authenticateWithStatus H env (fst a) (Some h) (snd a) w)"

definition wrong :: "host \<Rightarrow> string option \<Rightarrow> StoredKey list \<Rightarrow> string \<Rightarrow> bool" where
  "wrong H env ks s \<longleftrightarrow> s \<noteq> [] \<and> env \<noteq> Some s \<and> (\<forall>k\<in>set ks. k_hash k \<noteq> host_sha256 H s \<or> k_revoked k)"

lemma wrong_lookup:
  assumes "wrong H env ks s" "readStore (aw_keys w) = Inr ks"
  shows "auth_lookup H env c ip s w
    = (Inr (Unauthorized Unknown_key), w\<lparr>aw_lock := recordAuthFailure H ip (c 3) (aw_lock w)\<rparr>)"
proof -
  have "find (\<lambda>x. k_hash x = host_sha256 H s \<and> \<not> k_revoked x) ks = None"
    using assms(1) by (auto simp: find_None_iff wrong_def)
  with assms show ?thesis
    by (auto simp: auth_lookup_def wrong_def timingSafeEqual_def or_empty_def split: option.splits)
qed

lemma decide_cached_state:
  "lk_cachedConfig l = Some cfg \<Longrightarrow> snd (decideLockout H ip t l) = l"
  by (auto simp: decideLockout_def getConfig_cached split: option.splits)

lemma guess_below_threshold:
  assumes "lk_cachedConfig (aw_lock w) = Some cfg" "lc_enabled cfg"
    and ip: "clientIpFromRequest h = ip" "ip \<noteq> []"
    and "wrong H env ks (snd a)" "readStore (aw_keys w) = Inr ks"
    and "locked_until (ip_view (aw_lock w) ip) = None"
  shows "guess H env h a w = w\<lparr>aw_lock := recordAuthFailure H ip (fst a 3) (aw_lock w)\<rparr>"
proof -
  have "decideLockout H ip (fst a 0) (aw_lock w) = (NotLocked, aw_lock w)"
    using decide_view[OF assms(1,2) ip(2), of H "fst a 0"] decide_cached_state[OF assms(1)] assms(7)
    by (metis option.case(1) prod.collapse)
  moreover have "w\<lparr>aw_lock := aw_lock w\<rparr> = w" by simp
  ultimately show ?thesis
    using assms wrong_lookup[OF assms(5,6), of "fst a" ip]
    by (simp add: guess_def authenticateWithStatus_def Let_def wrong_def)
qed

lemma guesses_are_failures:
  assumes cfg: "lk_cachedConfig (aw_lock w) = Some cfg" "lc_enabled cfg"
    and ip: "clientIpFromRequest h = ip" "ip \<noteq> []"
    and n: "lc_threshold cfg = Some n" and win: "lc_window cfg = Some v"
    and start: "failures (ip_view (aw_lock w) ip) = []" "locked_until (ip_view (aw_lock w) ip) = None"
    and keys: "readStore (aw_keys w) = Inr ks"
  shows "\<lbrakk>list_all (\<lambda>a. wrong H env ks (snd a)) as; same_window v (map (\<lambda>a. fst a 3) as); int (length as) \<le> n\<rbrakk>
    \<Longrightarrow> fold (guess H env h) as w = w\<lparr>aw_lock := fail_at H ip (map (\<lambda>a. fst a 3) as) (aw_lock w)\<rparr>"
proof (induction as rule: rev_induct)
  case Nil
  then show ?case by simp
next
  case (snoc a as)
  let ?ts = "map (\<lambda>a. fst a 3) as" and ?l = "fail_at H ip (map (\<lambda>a. fst a 3) as) (aw_lock w)"
  have w: "same_window v ?ts" using snoc.prems(2) by (auto simp: same_window_def)
  with snoc have IH: "fold (guess H env h) as w = w\<lparr>aw_lock := ?l\<rparr>" by simp
  have "locked_until (ip_view ?l ip) = None"
    using failures_accumulate[OF cfg ip(2) n win start(1) w, of H] snoc.prems(3) start(2) by simp
  then show ?case
    using guess_below_threshold[of "w\<lparr>aw_lock := ?l\<rparr>" cfg h ip H env ks a]
      fold_config[OF cfg ip(2), of H ?ts] cfg(2) ip snoc.prems(1) keys IH by simp
qed

section \<open>Properties\<close>

text \<open>C1: authentication is sound. When it succeeds the secret is not empty, the source
  address is not locked out, and either the secret is the environment's admin key or it
  hashes to a stored key that is neither revoked, nor expired, nor suspended; the key
  handed back is that key with its last use noted.\<close>

theorem authenticate_sound:
  assumes "authenticateWithStatus H env c req secret w = (Inr (AuthOk k), w')"
  shows "secret \<noteq> [] \<and> (case req of None \<Rightarrow> True
      | Some h \<Rightarrow> fst (decideLockout H (clientIpFromRequest h) (c 0) (aw_lock w)) = NotLocked)
    \<and> (env = Some secret \<and> k = env_admin_key H (c 2) secret
       \<or> (\<exists>k0\<in>set (ks_rows (aw_keys w)). k_hash k0 = host_sha256 H secret \<and> \<not> k_revoked k0
            \<and> \<not> isExpired H k0 (c 1) \<and> \<not> k_suspended k0
            \<and> k = k0\<lparr>k_last_used_at := Some (toISOString (c 2))\<rparr>))"
proof -
  let ?ip = "case req of None \<Rightarrow> [] | Some h \<Rightarrow> clientIpFromRequest h"
  obtain d l where d: "(if ?ip = [] then (NotLocked, aw_lock w) else decideLockout H ?ip (c 0) (aw_lock w)) = (d, l)"
    by fastforce
  with assms have a: "d = NotLocked" "secret \<noteq> []"
      "auth_lookup H env c ?ip secret (w\<lparr>aw_lock := l\<rparr>) = (Inr (AuthOk k), w')"
    by (auto simp: authenticateWithStatus_def Let_def split: LockoutDecision.splits if_splits)
  have e: "fst (decideLockout H [] (c 0) (aw_lock w)) = NotLocked" by (simp add: decideLockout_def)
  from a(3) have "env = Some secret \<and> k = env_admin_key H (c 2) secret
       \<or> (\<exists>k0\<in>set (ks_rows (aw_keys w)). k_hash k0 = host_sha256 H secret \<and> \<not> k_revoked k0
            \<and> \<not> isExpired H k0 (c 1) \<and> \<not> k_suspended k0
            \<and> k = k0\<lparr>k_last_used_at := Some (toISOString (c 2))\<rparr>)"
    by (cases env) (auto simp: auth_lookup_def timingSafeEqual_def Let_def or_empty_def
        split: if_splits sum.splits option.splits dest!: find_SomeD)
  with a d e show ?thesis by (auto split: option.splits if_splits)
qed

text \<open>Whatever sequence of administrative operations and authentications follows, every
  stored key keeps its place and its id, and a revoked key is never changed again: it
  cannot be revived, rotated, relabelled or used.\<close>

theorem revoked_keys_are_final:
  "rows_evolve (ks_rows (aw_keys w)) (ks_rows (aw_keys (fold (key_exec H env) ops w)))"
  by (induction ops arbitrary: w) (auto intro: rows_evolve_trans key_exec_evolves)

text \<open>Rotation swaps the secret at once. After a successful rotation the new secret
  authenticates (the key being neither expired nor suspended, and no earlier key carrying
  the new hash), and the old one, when its hash was this key's alone, is unknown.\<close>

theorem rotate_swaps_secret:
  assumes "rotateKey H now new kid st = (Inr (Some (k, new)), st')"
    and "ks_rows st = pre @ k0 # post" "k_id k0 = kid" "list_all (\<lambda>x. k_id x \<noteq> kid) pre"
    and "k_hash k0 = host_sha256 H old" "host_sha256 H old \<noteq> host_sha256 H new"
    and "list_all (\<lambda>x. k_hash x \<noteq> host_sha256 H old) (pre @ post)"
    and "list_all (\<lambda>x. k_hash x \<noteq> host_sha256 H new) pre"
    and "old \<noteq> []" "new \<noteq> []" "env \<noteq> Some old" "env \<noteq> Some new"
    and "\<not> isExpired H k0 (c 1)" "\<not> k_suspended k0"
  shows "fst (authenticateWithStatus H env c None old \<lparr>aw_keys = st', aw_lock = l\<rparr>) = Inr (Unauthorized Unknown_key)
    \<and> (\<exists>k'. fst (authenticateWithStatus H env c None new \<lparr>aw_keys = st', aw_lock = l\<rparr>) = Inr (AuthOk k') \<and> k_id k' = kid)"
proof -
  let ?f = "\<lambda>k. k\<lparr>k_prefix := take 10 new, k_hash := host_sha256 H new, k_last_used_at := None, k_created_at := toISOString now\<rparr>"
  have fpre: "find P (pre @ x # post) = Some x" if "P x" "list_all (\<lambda>y. \<not> P y) pre" for P x
    using that by (induction pre) auto
  have upre: "upd_first (\<lambda>x. k_id x = kid) g (pre @ k0 # post) = pre @ g k0 # post" for g
    using assms(3,4) by (induction pre) auto
  have "find (\<lambda>x. k_id x = kid) (ks_rows st) = Some k0"
    using assms(2-4) fpre[of "\<lambda>x. k_id x = kid" k0] by simp
  with assms(1,2) upre have st': "readStore st' = Inr (pre @ ?f k0 # post)" "\<not> k_revoked k0"
    by (auto simp: rotateKey_def edit_key_def writeStore_def readStore_def[of "Stored _"]
        split: sum.splits option.splits if_splits)
  have old: "find (\<lambda>x. k_hash x = host_sha256 H old \<and> \<not> k_revoked x) (pre @ ?f k0 # post) = None"
    using assms(6,7) by (auto simp: find_None_iff list_all_iff)
  have new: "find (\<lambda>x. k_hash x = host_sha256 H new \<and> \<not> k_revoked x) (pre @ ?f k0 # post) = Some (?f k0)"
    using assms(8) st'(2) by (intro fpre) (auto simp: list_all_iff)
  have env: "\<not> (truthy env \<and> timingSafeEqual s (or_empty env))" if "env \<noteq> Some s" for s
    using that by (cases env) (auto simp: timingSafeEqual_def or_empty_def)
  have "\<not> isExpired H (?f k0) (c 1)" using assms(13) by (simp add: isExpired_def)
  then show ?thesis
    using assms(3,9,10,14) st'(1) old new env[OF assms(11)] env[OF assms(12)]
    by (auto simp: authenticateWithStatus_def auth_lookup_def Let_def)
qed

text \<open>A key minted through \<^verbatim>\<open>createKey\<close> never carries the admin scope: its scopes are a
  non-empty selection of read and trade, and its role is member or viewer.\<close>

theorem minted_keys_never_admin:
  assumes "createKey H c kid secret input st = (Inr (k, s), st')"
  shows "S_admin \<notin> set (k_scopes k) \<and> k_scopes k \<noteq> [] \<and> distinct (k_scopes k)
    \<and> (k_role k = Some Role_member \<or> k_role k = Some Role_viewer) \<and> s = secret \<and> k_hash k = host_sha256 H secret"
proof -
  have "set (create_scopes xs) \<subseteq> {S_read, S_trade} \<and> create_scopes xs \<noteq> [] \<and> distinct (create_scopes xs)" for xs
    by (auto simp: create_scopes_def Let_def)
  from this[of "cr_scopes input"] assms show ?thesis
    by (auto simp: createKey_def Let_def inferRole_def split: sum.splits if_splits)
qed

text \<open>Brute force. Where the lockout is switched on (it is off by default), once an address has sent as many wrong secrets inside one window as the
  threshold allows, every further attempt from it, even with a correct secret, is answered
  with the lockout until the cooldown has passed, and no key is looked up.\<close>

theorem brute_force_locked_out:
  assumes "lk_cachedConfig (aw_lock w) = Some cfg" "lc_enabled cfg"
    and "clientIpFromRequest h = ip" "ip \<noteq> []"
    and "lc_threshold cfg = Some n" "lc_window cfg = Some v" "lc_cooldown cfg = Some cd"
    and "failures (ip_view (aw_lock w) ip) = []" "locked_until (ip_view (aw_lock w) ip) = None"
    and "readStore (aw_keys w) = Inr ks"
    and "list_all (\<lambda>a. wrong H env ks (snd a)) (as @ [a])"
    and "same_window v (map (\<lambda>a. fst a 3) (as @ [a]))" "int (length (as @ [a])) = n"
    and "time_ok (fst a 3 + cd * 1000)" "c 0 < fst a 3 + cd * 1000"
  shows "fst (authenticateWithStatus H env c (Some h) secret (fold (guess H env h) (as @ [a]) w))
    = Inr (AuthLocked (max 1 (ceil_div (fst a 3 + cd * 1000 - c 0) 1000)) (toISOString (fst a 3 + cd * 1000)))"
proof -
  let ?l = "fail_at H ip (map (\<lambda>a. fst a 3) (as @ [a])) (aw_lock w)"
  have f: "fold (guess H env h) (as @ [a]) w = w\<lparr>aw_lock := ?l\<rparr>"
    using assms(13) by (intro guesses_are_failures[OF assms(1-6,8,9,10,11,12)]) simp
  have c: "lk_cachedConfig ?l = Some cfg" using assms(1,2,4) by (rule fold_config)
  have "locked_until (ip_view ?l ip) = Some (toISOString (fst a 3 + cd * 1000))"
    using threshold_locks[OF assms(1,2,4,5,6,7,8), of "map (\<lambda>a. fst a 3) as" "fst a 3" H] assms(12,13)
    by simp
  then have "fst (decideLockout H ip (c 0) ?l)
      = Locked (max 1 (ceil_div (fst a 3 + cd * 1000 - c 0) 1000)) (toISOString (fst a 3 + cd * 1000))"
    using decide_view[OF c assms(2,4), of H "c 0"] assms(14,15) by simp
  then show ?thesis
    unfolding f using assms(3,4)
    by (simp add: authenticateWithStatus_def Let_def case_prod_unfold)
qed

text \<open>A key minted with only the trade scope is labelled a member while its scopes are not
  those of a member: role and scopes can differ without any call of \<^verbatim>\<open>setKeyRole\<close>.\<close>

theorem minted_role_and_scopes_differ:
  "\<exists>k st'. createKey H c kid secret \<lparr>cr_label = [], cr_scopes = [S_trade], cr_expires_at = None\<rparr> NoFile
      = (Inr (k, secret), st') \<and> k_role k = Some Role_member \<and> k_scopes k \<noteq> roleToScopes Role_member"
  by (simp add: createKey_def create_scopes_def dedup_def inferRole_def readStore_def Let_def)

section \<open>Concrete keys\<close>

definition sample_key :: StoredKey where
  "sample_key = \<lparr>k_id = ''k1'', k_label = ''ci'', k_prefix = ''sc_live_ab'', k_hash = ''sc_live_abc'',
     k_scopes = [S_read], k_role = Some Role_viewer, k_created_at = toISOString 0, k_last_used_at = None,
     k_revoked = False, k_ip_allowlist = None, k_route_allowlist = None, k_expires_at = None,
     k_suspended = False, k_suspended_at = None, k_suspended_reason = None\<rparr>"

definition sample_world :: auth_world where
  "sample_world = \<lparr>aw_keys = Stored [sample_key], aw_lock = sample_lockout\<rparr>"

definition sample_headers :: headers where
  "sample_headers n = (if n = ''x-real-ip'' then Some ''10.0.0.1'' else None)"

lemma sample_ip: "clientIpFromRequest sample_headers = ''10.0.0.1''"
  by code_simp

lemma sample_auth:
  "authenticateWithStatus sample_host None (\<lambda>_. 7) None ''sc_live_abc'' sample_world
   = (Inr (AuthOk (sample_key\<lparr>k_last_used_at := Some (toISOString 7)\<rparr>)),
      snd (authenticateWithStatus sample_host None (\<lambda>_. 7) None ''sc_live_abc'' sample_world))"
  by (simp add: authenticateWithStatus_def auth_lookup_def sample_world_def readStore_def sample_host_def
      sample_key_def isExpired_def Let_def)

theorem authenticate_sound_witness:
  "\<exists>k0\<in>set (ks_rows (aw_keys sample_world)). \<not> k_revoked k0 \<and> k_hash k0 = host_sha256 sample_host ''sc_live_abc''"
  using authenticate_sound[OF sample_auth] by auto

theorem rotate_swaps_secret_witness:
  "\<exists>k st'. rotateKey sample_host 5 ''sc_live_new'' ''k1'' (Stored [sample_key]) = (Inr (Some (k, ''sc_live_new'')), st')
     \<and> fst (authenticateWithStatus sample_host None (\<lambda>_. 7) None ''sc_live_abc''
         \<lparr>aw_keys = st', aw_lock = sample_lockout\<rparr>) = Inr (Unauthorized Unknown_key)"
proof -
  obtain k st' where r: "rotateKey sample_host 5 ''sc_live_new'' ''k1'' (Stored [sample_key])
      = (Inr (Some (k, ''sc_live_new'')), st')"
    by (simp add: rotateKey_def edit_key_def readStore_def sample_key_def)
  have "fst (authenticateWithStatus sample_host None (\<lambda>_. 7) None ''sc_live_abc''
      \<lparr>aw_keys = st', aw_lock = sample_lockout\<rparr>) = Inr (Unauthorized Unknown_key)"
    using rotate_swaps_secret[OF r, of "[]" sample_key "[]" "''sc_live_abc''" None "\<lambda>_. 7" sample_lockout]
    by (simp add: ks_rows_def readStore_def sample_key_def sample_host_def isExpired_def)
  with r show ?thesis by blast
qed

theorem minted_keys_never_admin_witness:
  "\<exists>k st'. createKey sample_host (\<lambda>_. 5) ''k9'' ''sc_live_x''
      \<lparr>cr_label = ''x'', cr_scopes = [S_admin, S_trade], cr_expires_at = None\<rparr> NoFile = (Inr (k, ''sc_live_x''), st')
    \<and> S_admin \<notin> set (k_scopes k)"
proof -
  obtain k st' where r: "createKey sample_host (\<lambda>_. 5) ''k9'' ''sc_live_x''
      \<lparr>cr_label = ''x'', cr_scopes = [S_admin, S_trade], cr_expires_at = None\<rparr> NoFile = (Inr (k, ''sc_live_x''), st')"
    by (simp add: createKey_def Let_def readStore_def)
  with minted_keys_never_admin[OF r] show ?thesis by blast
qed

theorem brute_force_locked_out_witness:
  "fst (authenticateWithStatus sample_host None (\<lambda>_. 6000) (Some sample_headers) ''sc_live_abc''
     (fold (guess sample_host None sample_headers) ([(\<lambda>_. 1000, ''guess1'')] @ [(\<lambda>_. 5000, ''guess2'')]) sample_world))
   = Inr (AuthLocked 899 (toISOString 905000))"
  using brute_force_locked_out[of sample_world "\<lparr>lc_threshold = Some 2, lc_window = Some 300,
      lc_cooldown = Some 900, lc_enabled = True\<rparr>" sample_headers "''10.0.0.1''" 2 300 900 "[sample_key]"
      sample_host None "[(\<lambda>_. 1000, ''guess1'')]" "(\<lambda>_. 5000, ''guess2'')" "\<lambda>_. 6000" "''sc_live_abc''"]
  by (simp add: sample_ip sample_world_def sample_lockout_def ip_view_def lk_readState_def fresh_ip_def
      readStore_def wrong_def sample_key_def sample_host_def same_window_def time_ok_def ceil_div_def)

end
