(* ===== verification/JsonText.thy ===== *)
theory JsonText
  imports JsonStore
begin

text \<open>
  \<^verbatim>\<open>JSON.stringify\<close> as the source uses it, and the unique readability of its text: a text of a value is told apart from what follows it, so that
  a record that is printed field by field is determined by its text.
\<close>

section \<open>JSON text\<close>

definition hex4 :: "int \<Rightarrow> string" where
  "hex4 n = fixed_digits 16 4 n"

definition esc_char :: "char \<Rightarrow> string" where
  "esc_char c =
     (let n = int (of_char c) in
      if n = 34 then [char_of (92 :: nat), char_of (34 :: nat)]
      else if n = 92 then [char_of (92 :: nat), char_of (92 :: nat)]
      else if n = 8 then [char_of (92 :: nat), CHR ''b'']
      else if n = 12 then [char_of (92 :: nat), CHR ''f'']
      else if n = 10 then [char_of (92 :: nat), CHR ''n'']
      else if n = 13 then [char_of (92 :: nat), CHR ''r'']
      else if n = 9 then [char_of (92 :: nat), CHR ''t'']
      else if n < 32 then char_of (92 :: nat) # CHR ''u'' # hex4 n
      else [c])"

definition quote :: "string \<Rightarrow> string" where
  "quote s = char_of (34 :: nat) # concat (map esc_char s) @ [char_of (34 :: nat)]"

definition int_str :: "int \<Rightarrow> string" where
  "int_str n = (if n < 0 then ''-'' @ dec_str (- n) else dec_str n)"

fun num_text :: "host \<Rightarrow> jsnum \<Rightarrow> string" where
  "num_text H (Fin q) = (if of_int \<lfloor>q\<rfloor> = q then int_str \<lfloor>q\<rfloor> else host_numstr H q)"
| "num_text H x = ''null''"

text \<open>\<^verbatim>\<open>JSON.stringify\<close>\<close>

fun stringify :: "host \<Rightarrow> json \<Rightarrow> string" where
  "stringify H JNull = ''null''"
| "stringify H (JBool b) = (if b then ''true'' else ''false'')"
| "stringify H (JNum x) = num_text H x"
| "stringify H (JStr s) = quote s"
| "stringify H (JArr xs) = ''['' @ join '','' (map (stringify H) xs) @ '']''"
| "stringify H (JObj kvs) =
     ''{'' @ join '','' (map (\<lambda>kv. quote (fst kv) @ '':'' @ stringify H (snd kv)) kvs) @ ''}''"

section \<open>Unique readability\<close>

text \<open>A scan over JSON text: the depth of brackets and whether it is inside a string or behind a backslash. It fails on a delimiter at depth 0.\<close>

datatype scan_mode = Outside | Inside | Escaped

definition scan_step :: "nat \<times> scan_mode \<Rightarrow> char \<Rightarrow> (nat \<times> scan_mode) option" where
  "scan_step s c =
     (case s of
        (d, Inside) \<Rightarrow> Some (d, if c = CHR 0x22 then Outside else if c = CHR 0x5C then Escaped else Inside)
      | (d, Escaped) \<Rightarrow> Some (d, Inside)
      | (d, Outside) \<Rightarrow>
          if c = CHR 0x22 then Some (d, Inside)
          else if c \<in> set ''[{'' then Some (Suc d, Outside)
          else if c \<in> set '']}'' then (case d of 0 \<Rightarrow> None | Suc d \<Rightarrow> Some (d, Outside))
          else if c = CHR '','' \<and> d = 0 then None
          else Some (d, Outside))"

fun scan :: "nat \<times> scan_mode \<Rightarrow> string \<Rightarrow> (nat \<times> scan_mode) option" where
  "scan s [] = Some s"
| "scan s (c # cs) = Option.bind (scan_step s c) (\<lambda>s. scan s cs)"

definition whole :: "string \<Rightarrow> bool" where
  "whole t \<longleftrightarrow> (\<forall>d. scan (d, Outside) t = Some (d, Outside))"

lemma scan_append: "scan s (xs @ ys) = Option.bind (scan s xs) (\<lambda>s. scan s ys)"
  by (induction xs arbitrary: s) (auto simp: Option.bind_assoc)

lemma scan_whole [simp]: "whole t \<Longrightarrow> scan (d, Outside) (t @ r) = scan (d, Outside) r"
  by (simp add: scan_append whole_def)

definition delimiter :: "char \<Rightarrow> bool" where
  "delimiter c \<longleftrightarrow> c \<in> set '',]}''"

lemma scan_delimiter: "delimiter c \<Longrightarrow> scan_step (0, Outside) c = None"
  by (auto simp: delimiter_def scan_step_def)

text \<open>Two whole texts in front of delimiters are equal when the lines are.\<close>

lemma whole_unique:
  assumes "whole t" "whole u" "delimiter c" "delimiter d" "t @ c # r = u @ d # s"
  shows "t = u \<and> c = d \<and> r = s"
proof -
  have "t = u" if "whole t" "whole u" "delimiter c" "t @ c # r = u @ d # s" "length t \<le> length u" for t u r s c d
  proof (rule ccontr)
    assume n: "t \<noteq> u"
    from that(4,5) obtain v where v: "u = t @ v" "c # r = v @ d # s"
      by (metis append_eq_append_conv_if append_take_drop_id)
    with n obtain v' where "v = c # v'" by (cases v) auto
    with that v have "scan (0, Outside) u = None" by (simp add: scan_delimiter)
    with that(2) show False by (simp add: whole_def)
  qed
  from this[OF assms(1,2,3,5)] this[OF assms(2,1,4) assms(5)[symmetric]] have "t = u"
    using nat_le_linear[of "length t" "length u"] by blast
  with assms(5) show ?thesis by simp
qed

subsection \<open>The texts of values are whole\<close>

text \<open>Characters that a scan outside strings passes over.\<close>

definition passed :: "char \<Rightarrow> bool" where
  "passed c \<longleftrightarrow> c \<notin> set (CHR 0x22 # ''[]{},'')"

lemma whole_passed: "list_all passed t \<Longrightarrow> whole t"
proof (induction t)
  case (Cons c t)
  then have "scan_step (d, Outside) c = Some (d, Outside)" for d by (simp add: passed_def scan_step_def)
  with Cons show ?case by (simp add: whole_def)
qed (simp add: whole_def)

lemma digits_passed: "0 \<le> k \<Longrightarrow> list_all passed (dec_str k)"
proof (rule numeral_str_set)
  show "passed (digit_char d)" if "0 \<le> d" "d < 10" for d
  proof -
    have "is_digit (digit_char d)" using that by simp
    then show ?thesis by (auto simp: passed_def is_digit_def)
  qed
qed simp_all

definition in_string :: "char \<Rightarrow> bool" where
  "in_string c \<longleftrightarrow> c \<noteq> CHR 0x22 \<and> c \<noteq> CHR 0x5C"

lemma quote_chars: "char_of (34 :: nat) = CHR 0x22" "char_of (92 :: nat) = CHR 0x5C"
  by code_simp+

lemma control_chars:
  "char_of (8 :: nat) = CHR 0x08" "char_of (9 :: nat) = CHR 0x09" "char_of (10 :: nat) = CHR 0x0A" "char_of (12 :: nat) = CHR 0x0C"
  "char_of (13 :: nat) = CHR 0x0D"
  by code_simp+

lemma code_char: "(of_char c :: nat) = n \<Longrightarrow> c = char_of n"
  by (metis char_of_char)

text \<open>What a short escape stands for.\<close>

definition unshort :: "char \<Rightarrow> char" where
  "unshort x = (if x = CHR ''b'' then CHR 0x08 else if x = CHR ''f'' then CHR 0x0C else if x = CHR ''n'' then CHR 0x0A
     else if x = CHR ''r'' then CHR 0x0D else if x = CHR ''t'' then CHR 0x09 else x)"

lemma esc_cases:
  obtains (plain) "esc_char c = [c]" "in_string c"
  | (short) x where "esc_char c = [CHR 0x5C, x]" "x \<noteq> CHR ''u''" "c = unshort x"
  | (code) "esc_char c = CHR 0x5C # CHR ''u'' # hex4 (int (of_char c))" "list_all in_string (hex4 (int (of_char c)))" "(of_char c :: nat) < 32"
proof -
  have "list_all (\<lambda>n. list_all in_string (hex4 n)) [0..31]" by code_simp
  then have h: "list_all in_string (hex4 (int (of_char c)))" if "(of_char c :: nat) < 32" using that by (auto simp: list_all_iff)
  have "esc_char c = [c] \<and> in_string c \<or> (\<exists>x. esc_char c = [CHR 0x5C, x] \<and> x \<noteq> CHR ''u'' \<and> c = unshort x)
      \<or> esc_char c = CHR 0x5C # CHR ''u'' # hex4 (int (of_char c)) \<and> (of_char c :: nat) < 32"
    unfolding esc_char_def Let_def quote_chars by (auto simp: in_string_def unshort_def control_chars quote_chars dest: code_char)
  with h plain short code show thesis by blast
qed

lemma scan_in_string: "list_all in_string t \<Longrightarrow> scan (d, Inside) (t @ r) = scan (d, Inside) r"
  by (induction t) (auto simp: scan_step_def in_string_def)

lemma esc_inside: "scan (d, Inside) (esc_char c @ r) = scan (d, Inside) r"
proof (cases c rule: esc_cases)
  case plain
  then show ?thesis using scan_in_string[of "[c]"] by simp
next
  case code
  then show ?thesis by (simp add: scan_step_def scan_in_string)
qed (simp add: scan_step_def)

lemma scan_quote: "scan (d, Outside) (quote s @ r) = scan (d, Outside) r"
proof -
  have "scan (d, Inside) (concat (map esc_char s) @ r) = scan (d, Inside) r" for r
    by (induction s) (auto simp: esc_inside)
  then show ?thesis by (simp add: quote_def quote_chars scan_step_def)
qed

lemma whole_quote [simp]: "whole (quote s)"
  using scan_quote[of _ s "[]"] by (simp add: whole_def)

lemma whole_append: "\<lbrakk>whole t; whole u\<rbrakk> \<Longrightarrow> whole (t @ u)"
  by (simp add: whole_def scan_append)

lemma scan_join: "list_all whole ts \<Longrightarrow> scan (Suc d, Outside) (join '','' ts @ r) = scan (Suc d, Outside) r"
proof (induction ts rule: induct_list012)
  case (3 x y ys)
  then show ?case by (simp add: scan_step_def)
qed simp_all

lemma whole_bracket:
  assumes "list_all whole ts" "(b, e) \<in> {(CHR ''['', CHR '']''), (CHR ''{'', CHR ''}'')}"
  shows "whole (b # join '','' ts @ [e])"
  using assms by (auto simp: whole_def scan_join scan_step_def)

text \<open>The text of a number is assumed to have no quotes, brackets or commas.\<close>

definition plain_numbers :: "host \<Rightarrow> bool" where
  "plain_numbers H \<longleftrightarrow> (\<forall>q. list_all passed (host_numstr H q))"

lemma whole_number: "plain_numbers H \<Longrightarrow> whole (num_text H x)"
proof -
  have "list_all passed (int_str n)" for n
    using digits_passed[of n] digits_passed[of "- n"] by (simp add: int_str_def passed_def)
  then show "whole (num_text H x)" if "plain_numbers H"
    using that by (cases x) (auto simp: plain_numbers_def passed_def intro!: whole_passed)
qed

lemma whole_stringify:
  assumes "plain_numbers H"
  shows "whole (stringify H j)"
proof (induction j)
  case (JArr xs)
  then have "list_all whole (map (stringify H) xs)" by (simp add: list_all_iff)
  from whole_bracket[OF this, of "CHR ''[''" "CHR '']''"] show ?case by simp
next
  case (JObj kvs)
  have "whole (CHR '':'' # t)" if "whole t" for t using that by (simp add: whole_def scan_step_def)
  with JObj have "list_all whole (map (\<lambda>kv. quote (fst kv) @ '':'' @ stringify H (snd kv)) kvs)"
    by (auto simp: list_all_iff intro!: whole_append)
  from whole_bracket[OF this, of "CHR ''{''" "CHR ''}''"] show ?case by simp
qed (use assms in \<open>auto simp: whole_number intro: whole_passed simp: passed_def\<close>)

section \<open>Texts determine strings, lists and numbers\<close>

lemma hex4_eq: "\<lbrakk>hex4 m = hex4 n; 0 \<le> m; m < 32; 0 \<le> n; n < 32\<rbrakk> \<Longrightarrow> m = n"
proof -
  have v: "digits_value 16 (hex4 k) = k" if "0 \<le> k" "k < 32" for k
    unfolding hex4_def by (rule fixed_digits_value) (use that in simp_all)
  assume "hex4 m = hex4 n" "0 \<le> m" "m < 32" "0 \<le> n" "n < 32"
  then show ?thesis using v[of m] v[of n] by metis
qed

lemma esc_unique: "esc_char c @ x = esc_char d @ y \<Longrightarrow> c = d \<and> x = y"
proof (cases c rule: esc_cases; cases d rule: esc_cases)
  assume e: "esc_char c @ x = esc_char d @ y"
    and c: "esc_char c = CHR 0x5C # CHR ''u'' # hex4 (int (of_char c))" "(of_char c :: nat) < 32"
    and d: "esc_char d = CHR 0x5C # CHR ''u'' # hex4 (int (of_char d))" "(of_char d :: nat) < 32"
  from e c d have h: "hex4 (int (of_char c)) @ x = hex4 (int (of_char d)) @ y" by simp
  moreover have "length (hex4 (int (of_char c))) = length (hex4 (int (of_char d)))" by (simp add: hex4_def)
  ultimately have "hex4 (int (of_char c)) = hex4 (int (of_char d)) \<and> x = y" using append_eq_append_conv by blast
  moreover from this hex4_eq[of "int (of_char c)" "int (of_char d)"] c(2) d(2) have "int (of_char c) = int (of_char d)" by linarith
  ultimately show ?thesis by simp
qed (auto simp: in_string_def)

lemma quote_unique: "quote s = quote t \<longleftrightarrow> s = t"
proof
  have "s = t" if "concat (map esc_char s) @ [CHR 0x22] = concat (map esc_char t) @ [CHR 0x22]"
    using that
  proof (induction s arbitrary: t)
    case Nil
    then show ?case
    proof (cases t)
      case (Cons d t')
      with Nil show ?thesis by (cases d rule: esc_cases) (auto simp: in_string_def)
    qed simp
  next
    case (Cons c s)
    show ?case
    proof (cases t)
      case Nil
      with Cons.prems show ?thesis by (cases c rule: esc_cases) (auto simp: in_string_def)
    next
      case (Cons d t')
      with Cons.prems have "esc_char c @ concat (map esc_char s) @ [CHR 0x22] = esc_char d @ concat (map esc_char t') @ [CHR 0x22]" by simp
      from esc_unique[OF this] Cons.IH[of t'] Cons show ?thesis by blast
    qed
  qed
  then show "s = t" if "quote s = quote t" using that by (simp add: quote_def quote_chars)
qed simp

lemma nullable_unique: "stringify H (jnullable a) = stringify H (jnullable b) \<longleftrightarrow> a = b"
  by (cases a; cases b) (simp_all add: jnullable_def quote_unique, simp_all add: quote_def quote_chars)

lemma int_str_unique: "int_str m = int_str n \<longleftrightarrow> m = n"
proof
  have v: "digits_value 10 (dec_str a) = a" if "0 \<le> a" for a by (rule numeral_str_value) (use that in simp_all)
  have d: "dec_str a = dec_str b \<Longrightarrow> a = b" if "0 \<le> a" "0 \<le> b" for a b
    using v[OF that(1)] v[OF that(2)] by metis
  have h: "is_digit (hd (dec_str a))" if "0 \<le> a" for a
  proof -
    have "list_all is_digit (dec_str a)" by (rule numeral_str_set) (use that in simp_all)
    then show ?thesis by (cases "dec_str a") simp_all
  qed
  have n: "dec_str a \<noteq> CHR ''-'' # r" if "0 \<le> a" for a r using h[OF that] by (auto simp: is_digit_def)
  assume e: "int_str m = int_str n"
  show "m = n"
  proof (cases "m < 0"; cases "n < 0")
    assume "m < 0" "n < 0"
    then show ?thesis using e d[of "- m" "- n"] by (simp add: int_str_def)
  next
    assume "m < 0" "\<not> n < 0"
    then show ?thesis using e n[of n "dec_str (- m)"] by (simp add: int_str_def)
  next
    assume "\<not> m < 0" "n < 0"
    then show ?thesis using e n[of m "dec_str (- n)"] by (simp add: int_str_def)
  next
    assume "\<not> m < 0" "\<not> n < 0"
    then show ?thesis using e d[of m n] by (simp add: int_str_def)
  qed
qed simp

lemma quotes_unique: "stringify H (JArr (map JStr xs)) @ r = stringify H (JArr (map JStr ys)) @ s \<Longrightarrow> xs = ys"
proof -
  have j: "xs = ys" if "join '','' (map quote xs) @ CHR '']'' # r = join '','' (map quote ys) @ CHR '']'' # s" for xs ys
    using that
  proof (induction xs arbitrary: ys)
    case Nil
    then show ?case by (cases ys rule: list.exhaust; cases "tl ys") (auto simp: quote_def quote_chars)
  next
    case (Cons x xs)
    then obtain y ys' where ys: "ys = y # ys'" by (cases ys) (cases xs; auto simp: quote_def quote_chars)
    obtain c r' where x: "join '','' (map quote (x # xs)) @ CHR '']'' # r = quote x @ c # r'" "c = (if xs = [] then CHR '']'' else CHR '','')"
        "xs \<noteq> [] \<Longrightarrow> r' = join '','' (map quote xs) @ CHR '']'' # r"
      by (cases xs) auto
    obtain d s' where y: "join '','' (map quote (y # ys')) @ CHR '']'' # s = quote y @ d # s'" "d = (if ys' = [] then CHR '']'' else CHR '','')"
        "ys' \<noteq> [] \<Longrightarrow> s' = join '','' (map quote ys') @ CHR '']'' # s"
      by (cases ys') auto
    have "quote x = quote y \<and> c = d \<and> r' = s'"
      by (rule whole_unique) (use Cons.prems x(1,2) y(1,2) ys in \<open>auto simp: delimiter_def\<close>)
    then show ?case using Cons.IH[of ys'] x(2,3) y(2,3) ys by (auto simp: quote_unique split: if_splits)
  qed
  assume "stringify H (JArr (map JStr xs)) @ r = stringify H (JArr (map JStr ys)) @ s"
  then show "xs = ys" by (intro j) (simp add: comp_def)
qed

lemma scalar_unique:
  "stringify H (JStr s) = stringify H (JStr t) \<longleftrightarrow> s = t" "stringify H (JBool a) = stringify H (JBool b) \<longleftrightarrow> a = b"
  "stringify H (JNum (jsint m)) = stringify H (JNum (jsint n)) \<longleftrightarrow> m = n"
  "stringify H (JArr (map JStr xs)) = stringify H (JArr (map JStr ys)) \<longleftrightarrow> xs = ys"
  using quotes_unique[of H xs "[]" ys "[]"] by (auto simp: quote_unique int_str_unique simp del: stringify.simps(5) split: if_splits)

text \<open>The text of an object determines the texts of its fields, once the names are known.\<close>

lemma object_unique:
  assumes "plain_numbers H" "map fst kvs = map fst lvs" "stringify H (JObj kvs) = stringify H (JObj lvs)"
  shows "map (\<lambda>kv. stringify H (snd kv)) kvs = map (\<lambda>kv. stringify H (snd kv)) lvs"
proof -
  let ?t = "\<lambda>kv. quote (fst kv) @ '':'' @ stringify H (snd kv)"
  note w = whole_stringify[OF assms(1)]
  have "join '','' (map ?t kvs) = join '','' (map ?t lvs)" using assms(3) by simp
  then show ?thesis using assms(2)
  proof (induction kvs arbitrary: lvs rule: induct_list012)
    case 1
    then show ?case by simp
  next
    case (2 x)
    then show ?case by (auto simp: Cons_eq_map_conv)
  next
    case (3 x y xs)
    from "3.prems"(2) obtain u v us where l: "lvs = u # v # us" "fst x = fst u" "map fst (y # xs) = map fst (v # us)" by (auto simp: Cons_eq_map_conv)
    have "stringify H (snd x) @ CHR '','' # join '','' (map ?t (y # xs)) = stringify H (snd u) @ CHR '','' # join '','' (map ?t (v # us))"
      using "3.prems"(1) l(1,2) by simp
    then have "stringify H (snd x) = stringify H (snd u) \<and> CHR '','' = CHR '','' \<and> join '','' (map ?t (y # xs)) = join '','' (map ?t (v # us))"
      by (rule whole_unique[rotated 4]) (simp_all only: w delimiter_def list.set insert_iff simp_thms)
    then show ?case using "3.IH"(2)[OF _ l(3)] unfolding l(1) list.map by (simp only: simp_thms)
  qed
qed

end
