(* ===== verification/AuditLog.thy ===== *)
theory AuditLog
  imports KeyStore JsonText
begin

text \<open>
  The audit log (\<^verbatim>\<open>src/web/lib/auditStore.ts\<close>): events appended to a file as lines, each carrying
  an HMAC over its predecessor's hash and its own canonical JSON text, rotation of old lines
  into a second file, verification of the chain, and queries. Appends run on a promise chain
  whose body catches its exceptions, so they do not interleave; rotation runs outside that
  chain, which is why it is split into its read and its write. A line that does not parse is
  \<open>Junk\<close>. The fan-out to the SIEM sink does not touch this state and is not part of the model.
\<close>

section \<open>Events\<close>

definition GENESIS_PREV :: string where "GENESIS_PREV = replicate 64 (CHR ''0'')"

definition MAX_LINES :: nat where "MAX_LINES = 50000"

definition ROLL_TO :: nat where "ROLL_TO = 25000"

definition MAX_DETAIL_BYTES :: nat where "MAX_DETAIL_BYTES = 2048"

record AuditEvent =
  ae_id :: string
  ae_ts :: string
  ae_key_id :: string
  ae_key_label :: string
  ae_key_prefix :: string
  ae_scopes :: "string list"
  ae_route :: string
  ae_method :: string
  ae_status :: int
  ae_ok :: bool
  ae_ip_hash :: "string option"
  ae_user_agent :: "string option"
  ae_reason :: "string option"
  ae_details :: "json option"
  ae_request_id :: "string option"
  ae_prev_hash :: string
  ae_hash :: string

datatype audit_line = Line AuditEvent | Junk

record audit_store =
  au_primary :: "audit_line list"
  au_rolled :: "audit_line list"
  au_key_file :: "string option"
  au_key_cache :: "string option"
  au_last_hash :: "string option"

text \<open>The fresh key is the draw of \<^verbatim>\<open>crypto.randomBytes(32)\<close>, used when no key file of at least 32
  bytes exists.\<close>

definition getChainKey :: "string \<Rightarrow> audit_store \<Rightarrow> string \<times> audit_store" where
  "getChainKey fresh st =
     (case au_key_cache st of
        Some k \<Rightarrow> (k, st)
      | None \<Rightarrow>
          (case au_key_file st of
             Some raw \<Rightarrow> if 32 \<le> length raw then (raw, st\<lparr>au_key_cache := Some raw\<rparr>)
                         else (fresh, st\<lparr>au_key_file := Some fresh, au_key_cache := Some fresh\<rparr>)
           | None \<Rightarrow> (fresh, st\<lparr>au_key_file := Some fresh, au_key_cache := Some fresh\<rparr>)))"

text \<open>The event without its two hash fields, keys in sorted order.\<close>

definition canonicalForHash :: "host \<Rightarrow> AuditEvent \<Rightarrow> string" where
  "canonicalForHash H ev = stringify H (JObj
     [(''details'', case ae_details ev of None \<Rightarrow> JNull | Some d \<Rightarrow> d), (''id'', JStr (ae_id ev)),
      (''ip_hash'', jnullable (ae_ip_hash ev)), (''key_id'', JStr (ae_key_id ev)),
      (''key_label'', JStr (ae_key_label ev)), (''key_prefix'', JStr (ae_key_prefix ev)),
      (''method'', JStr (ae_method ev)), (''ok'', JBool (ae_ok ev)), (''reason'', jnullable (ae_reason ev)),
      (''request_id'', jnullable (ae_request_id ev)), (''route'', JStr (ae_route ev)),
      (''scopes'', JArr (map JStr (ae_scopes ev))), (''status'', JNum (jsint (ae_status ev))),
      (''ts'', JStr (ae_ts ev)), (''user_agent'', jnullable (ae_user_agent ev))])"

definition chain_message :: "host \<Rightarrow> AuditEvent \<Rightarrow> string \<Rightarrow> string" where
  "chain_message H ev prev = prev @ ''|'' @ canonicalForHash H ev"

definition computeHash :: "host \<Rightarrow> string \<Rightarrow> AuditEvent \<Rightarrow> string \<Rightarrow> string" where
  "computeHash H key ev prev = host_hmac H key (chain_message H ev prev)"

fun last_hash_of :: "audit_line list \<Rightarrow> string option" where
  "last_hash_of [] = None"
| "last_hash_of (l # ls) =
     (case last_hash_of ls of
        Some h \<Rightarrow> Some h
      | None \<Rightarrow> (case l of Line ev \<Rightarrow> if length (ae_hash ev) = 64 then Some (ae_hash ev) else None | Junk \<Rightarrow> None))"

definition lastChainedHash :: "audit_store \<Rightarrow> string \<times> audit_store" where
  "lastChainedHash st =
     (case (if truthy (au_last_hash st) then au_last_hash st else None) of
        Some h \<Rightarrow> (h, st)
      | None \<Rightarrow>
          (case last_hash_of (au_primary st) of
             Some h \<Rightarrow> (h, st\<lparr>au_last_hash := Some h\<rparr>)
           | None \<Rightarrow> (GENESIS_PREV, st)))"

section \<open>Recording\<close>

definition hashIp :: "host \<Rightarrow> string option \<Rightarrow> string \<Rightarrow> string option" where
  "hashIp H ip keyId =
     (if truthy ip then Some (take 32 (host_sha256 H (keyId @ '':'' @ or_empty ip))) else None)"

definition safeDetails :: "host \<Rightarrow> json option \<Rightarrow> json option" where
  "safeDetails H d =
     (case d of
        Some (JObj kvs) \<Rightarrow>
          (let s = stringify H (JObj kvs) in
           if MAX_DETAIL_BYTES < length s
           then Some (JObj [(''_truncated'', JBool True), (''bytes'', JNum (jsint (int (length s))))])
           else Some (JObj kvs))
      | _ \<Rightarrow> None)"

definition audit_clientIp :: "headers \<Rightarrow> string option" where
  "audit_clientIp h =
     (if truthy (h ''x-forwarded-for'') then or_null (trim (hd (split_on (CHR '','') (or_empty (h ''x-forwarded-for'')))))
      else if truthy (h ''x-real-ip'') then or_null (trim (or_empty (h ''x-real-ip'')))
      else None)"

fun scope_str :: "Scope \<Rightarrow> string" where
  "scope_str S_read = ''read''" | "scope_str S_trade = ''trade''" | "scope_str S_admin = ''admin''"

record RecordInput =
  ai_req :: "headers option"
  ai_route :: string
  ai_method :: string
  ai_status :: int
  ai_key :: "StoredKey option"
  ai_reason :: "string option"
  ai_details :: "json option"

definition audit_event :: "host \<Rightarrow> int \<Rightarrow> string \<Rightarrow> RecordInput \<Rightarrow> AuditEvent" where
  "audit_event H now eid input =
     (let kid = (case ai_key input of None \<Rightarrow> ''anon'' | Some k \<Rightarrow> k_id k);
          hdr = (\<lambda>n. Option.bind (ai_req input) (\<lambda>h. h n))
      in \<lparr>ae_id = eid, ae_ts = toISOString now, ae_key_id = kid,
          ae_key_label = (case ai_key input of None \<Rightarrow> [] | Some k \<Rightarrow> k_label k),
          ae_key_prefix = (case ai_key input of None \<Rightarrow> [] | Some k \<Rightarrow> k_prefix k),
          ae_scopes = (case ai_key input of None \<Rightarrow> [] | Some k \<Rightarrow> map scope_str (k_scopes k)),
          ae_route = ai_route input, ae_method = toUpperCase (ai_method input), ae_status = ai_status input,
          ae_ok = (ai_status input < 400),
          ae_ip_hash = hashIp H (Option.bind (ai_req input) audit_clientIp) kid,
          ae_user_agent = map_option (take 200) (hdr ''user-agent''), ae_reason = ai_reason input,
          ae_details = safeDetails H (ai_details input),
          ae_request_id = or_null (take 128 (or_empty (hdr ''x-request-id''))),
          ae_prev_hash = [], ae_hash = []\<rparr>)"

text \<open>\<open>io\<close> says whether \<^verbatim>\<open>fs.appendFile\<close> succeeds; its exception is swallowed, after the cached hash
  has already moved on.\<close>

definition append_event ::
  "host \<Rightarrow> string \<Rightarrow> bool \<Rightarrow> AuditEvent \<Rightarrow> audit_store \<Rightarrow> AuditEvent \<times> audit_store" where
  "append_event H fresh io ev0 st =
     (case lastChainedHash st of (prev, st) \<Rightarrow>
        (case getChainKey fresh st of (key, st) \<Rightarrow>
           (let ev1 = ev0\<lparr>ae_prev_hash := prev\<rparr>;
                ev = ev1\<lparr>ae_hash := computeHash H key ev1 prev\<rparr>
            in (ev, st\<lparr>au_last_hash := Some (ae_hash ev),
                       au_primary := (if io then au_primary st @ [Line ev] else au_primary st)\<rparr>))))"

definition recordAuditEvent ::
  "host \<Rightarrow> int \<Rightarrow> string \<Rightarrow> string \<Rightarrow> bool \<Rightarrow> RecordInput \<Rightarrow> audit_store \<Rightarrow> AuditEvent \<times> audit_store" where
  "recordAuditEvent H now eid fresh io input st = append_event H fresh io (audit_event H now eid input) st"

text \<open>
  \<^verbatim>\<open>maybeRotate\<close>: whether \<^verbatim>\<open>stat.size\<close> reaches its threshold is an observation of the file system
  (\<open>big\<close>). \<open>rotate_read\<close> is what it reads, \<open>rotate_write\<close> what it writes from that.
\<close>

definition rotate_read :: "bool \<Rightarrow> audit_store \<Rightarrow> audit_line list option" where
  "rotate_read big st = (if big \<and> MAX_LINES < length (au_primary st) then Some (au_primary st) else None)"

definition rotate_write :: "audit_line list option \<Rightarrow> audit_store \<Rightarrow> audit_store" where
  "rotate_write snap st =
     (case snap of
        None \<Rightarrow> st
      | Some ls \<Rightarrow> st\<lparr>au_rolled := take (length ls - ROLL_TO) ls, au_primary := drop (length ls - ROLL_TO) ls\<rparr>)"

definition maybeRotate :: "bool \<Rightarrow> audit_store \<Rightarrow> audit_store" where
  "maybeRotate big st = rotate_write (rotate_read big st) st"

section \<open>Verification and queries\<close>

definition readAllLines :: "audit_store \<Rightarrow> AuditEvent list" where
  "readAllLines st = List.map_filter (\<lambda>l. case l of Line ev \<Rightarrow> Some ev | Junk \<Rightarrow> None) (au_rolled st @ au_primary st)"

datatype BreakReason = Missing_hash | Prev_mismatch | Hash_mismatch

record ChainVerifyResult =
  cv_ok :: bool
  cv_checked :: nat
  cv_skipped :: nat
  cv_first :: "nat option"
  cv_last_hash :: "string option"
  cv_break :: "(nat \<times> string \<times> BreakReason) option"

definition hasChain :: "AuditEvent \<Rightarrow> bool" where
  "hasChain ev \<longleftrightarrow> length (ae_hash ev) = 64 \<and> length (ae_prev_hash ev) = 64"

text \<open>The loop of \<^verbatim>\<open>verifyChain\<close>; \<open>prev\<close> is \<open>None\<close> until the chain has started.\<close>

fun verify_loop ::
  "host \<Rightarrow> string \<Rightarrow> nat \<Rightarrow> string option \<Rightarrow> ChainVerifyResult \<Rightarrow> AuditEvent list \<Rightarrow> ChainVerifyResult" where
  "verify_loop H key i prev res [] = res"
| "verify_loop H key i prev res (ev # evs) =
     (let fail = (\<lambda>res why. res\<lparr>cv_ok := False, cv_break := Some (i, ae_id ev, why)\<rparr>) in
      if \<not> hasChain ev then
        (case prev of
           None \<Rightarrow> verify_loop H key (Suc i) None (res\<lparr>cv_skipped := Suc (cv_skipped res)\<rparr>) evs
         | Some p \<Rightarrow> fail res Missing_hash)
      else
        (let res = (if prev = None then res\<lparr>cv_first := Some i\<rparr> else res);
             p = (case prev of None \<Rightarrow> ae_prev_hash ev | Some p \<Rightarrow> p)
         in if ae_prev_hash ev \<noteq> p then fail res Prev_mismatch
            else if computeHash H key ev p \<noteq> ae_hash ev then fail res Hash_mismatch
            else verify_loop H key (Suc i) (Some (ae_hash ev))
                   (res\<lparr>cv_checked := Suc (cv_checked res), cv_last_hash := Some (ae_hash ev)\<rparr>) evs))"

definition verify_start :: ChainVerifyResult where
  "verify_start = \<lparr>cv_ok = True, cv_checked = 0, cv_skipped = 0, cv_first = None, cv_last_hash = None, cv_break = None\<rparr>"

definition verifyChain :: "host \<Rightarrow> string \<Rightarrow> audit_store \<Rightarrow> ChainVerifyResult \<times> audit_store" where
  "verifyChain H fresh st =
     (case getChainKey fresh st of (key, st') \<Rightarrow>
        (verify_loop H key 0 None verify_start (readAllLines st), st'))"

record QueryInput =
  q_key_id :: "string option"
  q_method :: "string option"
  q_route :: "string option"
  q_ok :: "bool option"
  q_since :: "string option"
  q_limit :: "int option"
  q_offset :: "int option"

definition audit_matches :: "QueryInput \<Rightarrow> AuditEvent \<Rightarrow> bool" where
  "audit_matches q e \<longleftrightarrow>
     (truthy (q_key_id q) \<longrightarrow> ae_key_id e = or_empty (q_key_id q))
     \<and> (truthy (q_method q) \<longrightarrow> ae_method e = toUpperCase (or_empty (q_method q)))
     \<and> (truthy (q_route q) \<longrightarrow> includesStr (ae_route e) (or_empty (q_route q)))
     \<and> (case q_ok q of None \<Rightarrow> True | Some b \<Rightarrow> ae_ok e = b)
     \<and> (truthy (q_since q) \<longrightarrow> or_empty (q_since q) \<le> ae_ts e)"

text \<open>The part of \<^verbatim>\<open>queryAudit\<close> after the retention sweep.\<close>

definition queryAudit :: "QueryInput \<Rightarrow> audit_store \<Rightarrow> AuditEvent list \<times> nat \<times> int \<times> int" where
  "queryAudit q st =
     (let limit = min (max (case q_limit q of None \<Rightarrow> 100 | Some n \<Rightarrow> n) 1) 1000;
          offset = max (case q_offset q of None \<Rightarrow> 0 | Some n \<Rightarrow> n) 0;
          filtered = sort_desc ae_ts (filter (audit_matches q) (readAllLines st))
      in (take (nat limit) (drop (nat offset) filtered), length filtered, limit, offset))"

definition streamAuditFiltered :: "QueryInput \<Rightarrow> audit_store \<Rightarrow> AuditEvent list" where
  "streamAuditFiltered q st =
     take (nat (min (max (case q_limit q of None \<Rightarrow> 1000000 | Some n \<Rightarrow> n) 1) 1000000))
       (sort_desc ae_ts (filter (audit_matches q) (readAllLines st)))"

section \<open>Chains\<close>

fun chained :: "host \<Rightarrow> string \<Rightarrow> string \<Rightarrow> AuditEvent list \<Rightarrow> bool" where
  "chained H k p [] = True"
| "chained H k p (e # es) \<longleftrightarrow> hasChain e \<and> ae_prev_hash e = p \<and> ae_hash e = computeHash H k e p
     \<and> chained H k (ae_hash e) es"

definition tip :: "string \<Rightarrow> AuditEvent list \<Rightarrow> string" where
  "tip p evs = (if evs = [] then p else ae_hash (last evs))"

lemma tip_simps [simp]: "tip p [] = p" "tip p (e # es) = tip (ae_hash e) es" "tip p (es @ [e]) = ae_hash e"
  by (simp_all add: tip_def)

lemma chained_append:
  "chained H k p (xs @ ys) \<longleftrightarrow> chained H k p xs \<and> chained H k (tip p xs) ys"
  by (induction xs arbitrary: p) auto

lemma canonical_hashes [simp]:
  "canonicalForHash H (ev\<lparr>ae_hash := x\<rparr>) = canonicalForHash H ev"
  "canonicalForHash H (ev\<lparr>ae_prev_hash := x\<rparr>) = canonicalForHash H ev"
  by (simp_all add: canonicalForHash_def)

lemma computeHash_hashes [simp]:
  "computeHash H k (ev\<lparr>ae_hash := x\<rparr>) p = computeHash H k ev p"
  "computeHash H k (ev\<lparr>ae_prev_hash := x\<rparr>) p = computeHash H k ev p"
  by (simp_all add: computeHash_def chain_message_def)

lemma verify_started:
  "cv_ok res \<Longrightarrow> cv_ok (verify_loop H k i (Some p) res evs) \<longleftrightarrow> chained H k p evs"
  by (induction evs arbitrary: i p res) (auto simp: Let_def)

lemma verify_counts:
  "chained H k p evs \<Longrightarrow> cv_checked (verify_loop H k i (Some p) res evs) = cv_checked res + length evs
     \<and> cv_skipped (verify_loop H k i (Some p) res evs) = cv_skipped res
     \<and> cv_last_hash (verify_loop H k i (Some p) res evs)
       = (if evs = [] then cv_last_hash res else Some (tip p evs))"
  by (induction evs arbitrary: i p res) (auto simp: Let_def tip_def)

lemma verify_chained:
  assumes "chained H k p evs"
  shows "cv_ok (verify_loop H k 0 None verify_start evs)"
    and "cv_checked (verify_loop H k 0 None verify_start evs) = length evs"
    and "cv_skipped (verify_loop H k 0 None verify_start evs) = 0"
proof -
  have "cv_ok (verify_loop H k 0 None verify_start evs)
      \<and> cv_checked (verify_loop H k 0 None verify_start evs) = length evs
      \<and> cv_skipped (verify_loop H k 0 None verify_start evs) = 0"
  proof (cases evs)
    case Nil
    then show ?thesis by (simp add: verify_start_def)
  next
    case (Cons e es)
    with assms have c: "chained H k (ae_hash e) es" unfolding Cons chained.simps by blast
    from Cons assms show ?thesis
      using verify_started[of _ H k "Suc 0" "ae_hash e" es] c verify_counts[OF c, of "Suc 0"]
      by (auto simp: Let_def verify_start_def)
  qed
  then show "cv_ok (verify_loop H k 0 None verify_start evs)"
    "cv_checked (verify_loop H k 0 None verify_start evs) = length evs"
    "cv_skipped (verify_loop H k 0 None verify_start evs) = 0" by auto
qed

text \<open>Conversely, a run that accepts without skipping has seen a chain.\<close>

lemma verify_skips_grow: "cv_skipped res \<le> cv_skipped (verify_loop H k i prev res evs)"
proof (induction H k i prev res evs rule: verify_loop.induct)
  case (2 H key i prev res ev evs)
  then show ?case by (force simp: Let_def split: option.splits)
qed simp

lemma verify_ok_chained:
  assumes "cv_ok (verify_loop H k 0 None verify_start evs)" "cv_skipped (verify_loop H k 0 None verify_start evs) = 0"
  shows "\<exists>p. chained H k p evs \<and> cv_last_hash (verify_loop H k 0 None verify_start evs) = (if evs = [] then None else Some (tip p evs))
    \<and> cv_checked (verify_loop H k 0 None verify_start evs) = length evs"
proof (cases evs)
  case Nil
  then show ?thesis by (simp add: verify_start_def)
next
  case (Cons e es)
  have h: "hasChain e"
  proof (rule ccontr)
    assume "\<not> hasChain e"
    with Cons assms(2) verify_skips_grow[of "verify_start\<lparr>cv_skipped := Suc 0\<rparr>" H k "Suc 0" None es]
    show False by (simp add: verify_start_def Let_def)
  qed
  let ?p = "ae_prev_hash e"
  from assms(1) Cons h have "chained H k ?p evs"
    using verify_started[of _ H k "Suc 0" "ae_hash e" es]
    by (auto simp: Let_def verify_start_def split: if_splits)
  with Cons h verify_counts[of H k "ae_hash e" es "Suc 0"] show ?thesis
    by (intro exI[of _ ?p]) (auto simp: Let_def verify_start_def tip_def)
qed

section \<open>The log as written\<close>

definition au_inv :: "host \<Rightarrow> string \<Rightarrow> audit_store \<Rightarrow> bool" where
  "au_inv H k st \<longleftrightarrow>
     (\<exists>evs p. au_rolled st @ au_primary st = map Line evs \<and> chained H k p evs
        \<and> length p = 64 \<and> (au_primary st = [] \<longrightarrow> evs = [])
        \<and> (case au_last_hash st of None \<Rightarrow> evs = [] \<longrightarrow> p = GENESIS_PREV | Some h \<Rightarrow> h = tip p evs))
     \<and> 32 \<le> length k \<and> au_key_file st = Some k \<and> (au_key_cache st = Some k \<or> au_key_cache st = None)"

lemma last_hash_append [simp]:
  "last_hash_of (ls @ [Line e]) = (if length (ae_hash e) = 64 then Some (ae_hash e) else last_hash_of ls)"
  by (induction ls) (auto split: option.splits)

lemma getChainKey_inv:
  "au_inv H k st \<Longrightarrow> \<exists>st'. getChainKey fresh st = (k, st') \<and> au_primary st' = au_primary st \<and> au_rolled st' = au_rolled st
     \<and> au_last_hash st' = au_last_hash st \<and> au_key_cache st' = Some k \<and> au_key_file st' = Some k"
  by (auto simp: au_inv_def getChainKey_def)

lemma chained_tip_length: "\<lbrakk>chained H k p evs; evs \<noteq> []\<rbrakk> \<Longrightarrow> length (tip p evs) = 64"
  by (induction evs arbitrary: p) (auto simp: hasChain_def tip_def)

lemma chained_tip64: "\<lbrakk>chained H k p evs; length p = 64\<rbrakk> \<Longrightarrow> length (tip p evs) = 64"
  using chained_tip_length by (cases "evs = []") auto

lemma chained_split:
  assumes "chained H k p evs"
  shows "chained H k p (take n evs)" "chained H k (tip p (take n evs)) (drop n evs)"
  using assms chained_append[of H k p "take n evs" "drop n evs"] by simp_all

lemma lastChainedHash_inv:
  assumes "au_inv H k st" "au_rolled st @ au_primary st = map Line evs" "chained H k p evs"
    and "length p = 64" "au_primary st = [] \<longrightarrow> evs = []"
    and "case au_last_hash st of None \<Rightarrow> evs = [] \<longrightarrow> p = GENESIS_PREV | Some h \<Rightarrow> h = tip p evs"
  shows "\<exists>st'. lastChainedHash st = (tip p evs, st') \<and> au_primary st' = au_primary st \<and> au_rolled st' = au_rolled st
    \<and> au_key_cache st' = au_key_cache st \<and> au_key_file st' = au_key_file st"
proof (cases "evs = []")
  case True
  with assms(2,4,6) show ?thesis by (auto simp: lastChainedHash_def split: option.splits)
next
  case False
  then obtain es e where e: "evs = es @ [e]" by (metis rev_exhaust)
  have len: "length (ae_hash e) = 64" using chained_tip_length[OF assms(3) False] e by simp
  from False assms(5) have "au_primary st \<noteq> []" by auto
  then obtain ls l where l: "au_primary st = ls @ [l]" by (metis rev_exhaust)
  with assms(2) e have "l = Line e" by auto
  with l len have "last_hash_of (au_primary st) = Some (ae_hash e)" by simp
  moreover have "tip p evs = ae_hash e" "ae_hash e \<noteq> []" using e len by auto
  ultimately show ?thesis using assms(6)
    by (cases "au_last_hash st") (auto simp: lastChainedHash_def)
qed

lemma append_inv:
  assumes "au_inv H k st" "\<And>m. length (host_hmac H k m) = 64"
  shows "au_inv H k (snd (append_event H fresh True ev st))"
proof -
  from assms(1) obtain evs p where i: "au_rolled st @ au_primary st = map Line evs" "chained H k p evs"
    "length p = 64" "au_primary st = [] \<longrightarrow> evs = []"
    "case au_last_hash st of None \<Rightarrow> evs = [] \<longrightarrow> p = GENESIS_PREV | Some h \<Rightarrow> h = tip p evs"
    by (auto simp: au_inv_def)
  obtain s1 where s1: "lastChainedHash st = (tip p evs, s1)" "au_primary s1 = au_primary st" "au_rolled s1 = au_rolled st"
    "au_key_cache s1 = au_key_cache st" "au_key_file s1 = au_key_file st"
    using lastChainedHash_inv[OF assms(1) i] by blast
  have k: "32 \<le> length k" "au_key_file s1 = Some k" "au_key_cache s1 = Some k \<or> au_key_cache s1 = None"
    using assms(1) s1 by (auto simp: au_inv_def)
  then obtain s2 where s2: "getChainKey fresh s1 = (k, s2)" "au_primary s2 = au_primary s1" "au_rolled s2 = au_rolled s1"
    "au_key_cache s2 = Some k" "au_key_file s2 = Some k"
    by (auto simp: getChainKey_def)
  define e where "e = ev\<lparr>ae_prev_hash := tip p evs, ae_hash := computeHash H k ev (tip p evs)\<rparr>"
  have len: "length (tip p evs) = 64" using i(2,3) by (rule chained_tip64)
  then have "chained H k p (evs @ [e])"
    using i(2) assms(2) by (simp add: chained_append e_def hasChain_def) (simp add: computeHash_def)
  moreover have st': "snd (append_event H fresh True ev st) = s2\<lparr>au_last_hash := Some (ae_hash e), au_primary := au_primary s2 @ [Line e]\<rparr>"
    by (simp add: append_event_def s1(1) s2(1) Let_def e_def)
  moreover have "au_rolled s2 @ au_primary s2 @ [Line e] = map Line (evs @ [e])"
    using i(1) s1 s2 by (simp flip: append_assoc)
  ultimately show ?thesis
    unfolding au_inv_def using s2(4,5) k(1) i(3) by (auto intro!: exI[of _ "evs @ [e]"] exI[of _ p])
qed

lemma rotate_inv:
  assumes "au_inv H k st"
  shows "au_inv H k (maybeRotate big st)"
proof (cases "big \<and> MAX_LINES < length (au_primary st)")
  case True
  from assms obtain evs p where i: "au_rolled st @ au_primary st = map Line evs" "chained H k p evs"
    "length p = 64" "case au_last_hash st of None \<Rightarrow> evs = [] \<longrightarrow> p = GENESIS_PREV | Some h \<Rightarrow> h = tip p evs"
    by (auto simp: au_inv_def)
  let ?n = "length (au_rolled st)"
  have s: "au_primary st = map Line (drop ?n evs)" using i(1) by (metis append_eq_conv_conj drop_map)
  have ne: "drop ?n evs \<noteq> []" using True s by (auto simp: MAX_LINES_def)
  have "chained H k (tip p (take ?n evs)) (drop ?n evs)" by (rule chained_split[OF i(2)])
  moreover have "length (tip p (take ?n evs)) = 64"
    using chained_tip64[OF chained_split(1)[OF i(2)] i(3)] .
  moreover have "tip (tip p (take ?n evs)) (drop ?n evs) = tip p evs"
    using ne by (metis append_take_drop_id last_appendR append_is_Nil_conv tip_def)
  moreover have "maybeRotate big st = st\<lparr>au_rolled := take (length (au_primary st) - ROLL_TO) (au_primary st),
      au_primary := drop (length (au_primary st) - ROLL_TO) (au_primary st)\<rparr>"
    using True by (simp add: maybeRotate_def rotate_read_def rotate_write_def)
  moreover have "drop (length (au_primary st) - ROLL_TO) (au_primary st) \<noteq> []"
    using True by (auto simp: ROLL_TO_def MAX_LINES_def)
  ultimately show ?thesis
    using assms i(4) ne s unfolding au_inv_def
    by (auto split: option.splits intro!: exI[of _ "drop ?n evs"] exI[of _ "tip p (take ?n evs)"])
qed (use assms in \<open>auto simp: maybeRotate_def rotate_read_def rotate_write_def\<close>)

datatype au_op = ARecord int string string RecordInput | ARotate bool | ARestart

fun au_exec :: "host \<Rightarrow> au_op \<Rightarrow> audit_store \<Rightarrow> audit_store" where
  "au_exec H (ARecord t eid fresh input) st = snd (recordAuditEvent H t eid fresh True input st)"
| "au_exec H (ARotate big) st = maybeRotate big st"
| "au_exec H ARestart st = st\<lparr>au_key_cache := None, au_last_hash := None\<rparr>"

definition au_new :: "string \<Rightarrow> audit_store" where
  "au_new k = \<lparr>au_primary = [], au_rolled = [], au_key_file = Some k, au_key_cache = None, au_last_hash = None\<rparr>"


lemma au_new_inv: "32 \<le> length k \<Longrightarrow> au_inv H k (au_new k)"
  by (simp add: au_inv_def au_new_def GENESIS_PREV_def)

lemma exec_inv:
  assumes "\<And>m. length (host_hmac H k m) = 64"
  shows "au_inv H k st \<Longrightarrow> au_inv H k (au_exec H op st)"
proof (cases op)
  case (ARecord t eid fresh input)
  assume "au_inv H k st"
  then show ?thesis using append_inv[OF _ assms] ARecord by (simp add: recordAuditEvent_def)
next
  case (ARotate big)
  assume "au_inv H k st"
  then show ?thesis using ARotate rotate_inv by simp
next
  case ARestart
  assume "au_inv H k st"
  then obtain evs p where "au_rolled st @ au_primary st = map Line evs" "chained H k p evs" "length p = 64" "au_primary st = [] \<longrightarrow> evs = []"
      "32 \<le> length k" "au_key_file st = Some k" by (auto simp: au_inv_def)
  then show ?thesis
    unfolding ARestart au_inv_def
    by (auto simp: GENESIS_PREV_def intro!: exI[of _ evs] exI[of _ "if evs = [] then GENESIS_PREV else p"])
qed

lemma run_inv:
  assumes "\<And>m. length (host_hmac H k m) = 64" "au_inv H k st"
  shows "au_inv H k (fold (au_exec H) ops st)"
  using assms(2) by (induction ops arbitrary: st) (auto intro: exec_inv[OF assms(1)])

lemma readAllLines_map: "au_rolled st @ au_primary st = map Line evs \<Longrightarrow> readAllLines st = evs"
  unfolding readAllLines_def by (simp add: List.map_filter_def comp_def)

lemma inv_verifies:
  assumes "au_inv H k st"
  shows "let r = fst (verifyChain H fresh st) in cv_ok r \<and> cv_checked r = length (readAllLines st) \<and> cv_skipped r = 0"
proof -
  from assms obtain evs p where e: "au_rolled st @ au_primary st = map Line evs" "chained H k p evs"
    by (auto simp: au_inv_def)
  obtain st' where "getChainKey fresh st = (k, st')" using getChainKey_inv[OF assms] by blast
  then show ?thesis using verify_chained[OF e(2)] readAllLines_map[OF e(1)] by (simp add: verifyChain_def)
qed

text \<open>After any sequence of recorded events, rotations and process restarts starting from an
  empty log with a 32-byte key, the chain verifies: nothing is skipped and every event still
  on disk is checked.\<close>

theorem audit_chain_verifies:
  assumes "\<And>m. length (host_hmac H k m) = 64" "32 \<le> length k"
  shows "let st = fold (au_exec H) ops (au_new k); r = fst (verifyChain H fresh st)
    in cv_ok r \<and> cv_checked r = length (readAllLines st) \<and> cv_skipped r = 0"
proof -
  from au_new_inv[OF assms(2)] show ?thesis using inv_verifies[OF run_inv[OF assms(1)]] by (simp add: Let_def)
qed

section \<open>Evidence of tampering\<close>

lemma chained_unique:
  assumes "chained H k p xs" "chained H k q ys" "length xs = length ys" "xs \<noteq> [] \<longrightarrow> tip p xs = tip q ys"
    and "inj_on (host_hmac H k) ((\<lambda>e. chain_message H e (ae_prev_hash e)) ` (set xs \<union> set ys))"
  shows "map (\<lambda>e. (canonicalForHash H e, ae_prev_hash e, ae_hash e)) xs = map (\<lambda>e. (canonicalForHash H e, ae_prev_hash e, ae_hash e)) ys"
  using assms
proof (induction xs arbitrary: ys rule: rev_induct)
  case (snoc x xs)
  from snoc.prems(3) obtain zs y where y: "ys = zs @ [y]" "length zs = length xs" 
    by (cases ys rule: rev_cases) auto
  from snoc.prems(1,2,4) y have l: "hasChain x" "hasChain y" "ae_hash x = ae_hash y" "ae_prev_hash x = tip p xs" "ae_prev_hash y = tip q zs"
    "ae_hash x = host_hmac H k (chain_message H x (ae_prev_hash x))"
    "ae_hash y = host_hmac H k (chain_message H y (ae_prev_hash y))"
    by (auto simp: chained_append computeHash_def)
  have "chain_message H x (ae_prev_hash x) = chain_message H y (ae_prev_hash y)"
    by (rule inj_onD[OF snoc.prems(5)]) (use l y in auto)
  then have m: "ae_prev_hash x = ae_prev_hash y" "canonicalForHash H x = canonicalForHash H y"
    using l(1,2) by (auto simp: chain_message_def hasChain_def)
  have "inj_on (host_hmac H k) ((\<lambda>e. chain_message H e (ae_prev_hash e)) ` (set xs \<union> set zs))"
    using snoc.prems(5) y by (elim inj_on_subset) auto
  with snoc.IH[of zs] snoc.prems(1,2) y l m show ?case by (auto simp: chained_append)
qed simp

text \<open>What an event says: all its fields but the two hashes, its details as their text.\<close>

definition event_content :: "host \<Rightarrow> AuditEvent \<Rightarrow>
    (string \<times> string \<times> string \<times> string \<times> string \<times> string list) \<times> (string \<times> string \<times> int \<times> bool \<times> string option)
    \<times> (string option \<times> string option \<times> string option \<times> string)" where
  "event_content H e =
     ((ae_id e, ae_ts e, ae_key_id e, ae_key_label e, ae_key_prefix e, ae_scopes e), (ae_route e, ae_method e, ae_status e, ae_ok e, ae_reason e),
      (ae_request_id e, ae_ip_hash e, ae_user_agent e, case ae_details e of None \<Rightarrow> ''null'' | Some d \<Rightarrow> stringify H d))"

lemma canonical_determines:
  assumes "plain_numbers H" "canonicalForHash H e = canonicalForHash H e'"
  shows "event_content H e = event_content H e'"
proof -
  let ?d = "\<lambda>e. case ae_details e of None \<Rightarrow> JNull | Some d \<Rightarrow> d"
  let ?f = "\<lambda>e. [(''details'', ?d e), (''id'', JStr (ae_id e)),
      (''ip_hash'', jnullable (ae_ip_hash e)), (''key_id'', JStr (ae_key_id e)),
      (''key_label'', JStr (ae_key_label e)), (''key_prefix'', JStr (ae_key_prefix e)),
      (''method'', JStr (ae_method e)), (''ok'', JBool (ae_ok e)), (''reason'', jnullable (ae_reason e)),
      (''request_id'', jnullable (ae_request_id e)), (''route'', JStr (ae_route e)),
      (''scopes'', JArr (map JStr (ae_scopes e))), (''status'', JNum (jsint (ae_status e))),
      (''ts'', JStr (ae_ts e)), (''user_agent'', jnullable (ae_user_agent e))]"
  have "map (\<lambda>kv. stringify H (snd kv)) (?f e) = map (\<lambda>kv. stringify H (snd kv)) (?f e')"
    by (rule object_unique[OF assms(1)]) (use assms(2) in \<open>simp_all only: canonicalForHash_def list.map fst_conv\<close>)
  moreover have det: "(case ae_details e of None \<Rightarrow> ''null'' | Some d \<Rightarrow> stringify H d) = stringify H (?d e)" for e by (simp split: option.split)
  ultimately show ?thesis
    by (simp only: event_content_def det list.map list.inject snd_conv scalar_unique nullable_unique simp_thms)
qed

text \<open>C30: tamper evidence. Take two states of the log under the same key that both verify without skipped events, with the same number of events
  and the same final hash. If the HMAC separates the messages at hand, the two logs agree, event by event, on every field (the details as their JSON
  text), and on the links. Numbers in the details are assumed to print without quotes, brackets and commas.\<close>

theorem audit_log_tamper_evident:
  assumes "au_key_cache st1 = Some k" "au_key_cache st2 = Some k"
    and "r1 = fst (verifyChain H f1 st1)" "r2 = fst (verifyChain H f2 st2)"
    and "cv_ok r1" "cv_ok r2" "cv_skipped r1 = 0" "cv_skipped r2 = 0"
    and "cv_checked r1 = cv_checked r2" "cv_last_hash r1 = cv_last_hash r2"
    and "inj_on (host_hmac H k) ((\<lambda>e. chain_message H e (ae_prev_hash e)) ` (set (readAllLines st1) \<union> set (readAllLines st2)))"
    and "plain_numbers H"
  shows "map (\<lambda>e. (event_content H e, ae_prev_hash e, ae_hash e)) (readAllLines st1)
       = map (\<lambda>e. (event_content H e, ae_prev_hash e, ae_hash e)) (readAllLines st2)"
proof -
  have r: "r1 = verify_loop H k 0 None verify_start (readAllLines st1)"
    "r2 = verify_loop H k 0 None verify_start (readAllLines st2)"
    using assms(1-4) by (simp_all add: verifyChain_def getChainKey_def)
  obtain p where p: "chained H k p (readAllLines st1)"
    "cv_last_hash r1 = (if readAllLines st1 = [] then None else Some (tip p (readAllLines st1)))"
    "cv_checked r1 = length (readAllLines st1)"
    using verify_ok_chained[of H k "readAllLines st1"] assms(5,7) r by auto
  obtain q where q: "chained H k q (readAllLines st2)"
    "cv_last_hash r2 = (if readAllLines st2 = [] then None else Some (tip q (readAllLines st2)))"
    "cv_checked r2 = length (readAllLines st2)"
    using verify_ok_chained[of H k "readAllLines st2"] assms(6,8) r by auto
  have "map (\<lambda>e. (canonicalForHash H e, ae_prev_hash e, ae_hash e)) (readAllLines st1)
       = map (\<lambda>e. (canonicalForHash H e, ae_prev_hash e, ae_hash e)) (readAllLines st2)"
    using p q assms(9,10) by (intro chained_unique[OF p(1) q(1) _ _ assms(11)]) (auto split: if_splits)
  then show ?thesis
    using canonical_determines[OF assms(12)] by (fastforce simp: list_eq_iff_nth_eq)
qed

lemma readAllLines_append:
  "au_rolled st' = au_rolled st \<Longrightarrow> au_primary st' = au_primary st @ [Line e] \<Longrightarrow> readAllLines st' = readAllLines st @ [e]"
  by (simp add: readAllLines_def List.map_filter_def)

lemma record_event:
  obtains s2 where "snd (append_event H fresh io ev st) = s2" "au_rolled s2 = au_rolled st"
    "au_primary s2 = (if io then au_primary st @ [Line (fst (append_event H fresh io ev st))] else au_primary st)"
    "au_last_hash s2 = Some (ae_hash (fst (append_event H fresh io ev st)))"
    "ae_id (fst (append_event H fresh io ev st)) = ae_id ev"
  by (auto simp: append_event_def lastChainedHash_def getChainKey_def Let_def split: option.splits prod.splits if_splits)

definition test_hmac :: "string \<Rightarrow> string \<Rightarrow> string" where "test_hmac k m = replicate 64 (if hd m = CHR ''0'' then CHR ''1'' else CHR ''2'')"
definition chain_host :: host where "chain_host = sample_host\<lparr>host_hmac := test_hmac\<rparr>"
definition sample_input :: RecordInput where
  "sample_input = \<lparr>ai_req = None, ai_route = ''/v1/analyze'', ai_method = ''GET'', ai_status = 200, ai_key = None, ai_reason = None, ai_details = None\<rparr>"

lemma chain_host_hmac [simp]:
  "host_hmac chain_host k m = replicate 64 (if hd m = CHR ''0'' then CHR ''1'' else CHR ''2'')"
  by (simp add: chain_host_def test_hmac_def)

theorem audit_chain_verifies_witness:
  "let st = fold (au_exec chain_host) [ARecord 0 ''a'' [] sample_input, ARestart, ARotate True, ARecord 1 ''b'' [] sample_input]
        (au_new (replicate 32 (CHR ''k'')));
       r = fst (verifyChain chain_host [] st) in cv_ok r \<and> cv_checked r = length (readAllLines st) \<and> cv_skipped r = 0"
  by (rule audit_chain_verifies) simp_all

text \<open>Rotation. Rotating a full primary file keeps exactly the events that were in it, in
  order, with the newest 25000 lines in the primary file; whatever an earlier rotation had moved to the second
  file is gone.\<close>

theorem rotation_keeps_primary:
  assumes "MAX_LINES < length (au_primary st)"
  shows "readAllLines (maybeRotate True st) = readAllLines (st\<lparr>au_rolled := []\<rparr>)
    \<and> length (au_primary (maybeRotate True st)) = ROLL_TO"
  using assms by (simp add: maybeRotate_def rotate_read_def rotate_write_def readAllLines_def ROLL_TO_def MAX_LINES_def)

definition full_store :: audit_store where
  "full_store = (au_new (replicate 32 (CHR ''k'')))\<lparr>au_primary := replicate 50001 Junk\<rparr>"

theorem rotation_keeps_primary_witness:
  "readAllLines (maybeRotate True full_store) = readAllLines (full_store\<lparr>au_rolled := []\<rparr>)
    \<and> length (au_primary (maybeRotate True full_store)) = ROLL_TO"
  by (rule rotation_keeps_primary) (simp add: full_store_def MAX_LINES_def)

text \<open>An event appended between the read and the write of a rotation is lost: the caller gets it
  back as recorded, and it is in the log until the rotation writes its older snapshot.\<close>

theorem rotation_race_loses_event:
  assumes "MAX_LINES < length (au_primary st)" "\<forall>e \<in> set (readAllLines st). ae_id e \<noteq> eid"
    and "(ev, st1) = recordAuditEvent H t eid fresh True input st"
  shows "ev \<in> set (readAllLines st1) \<and> ev \<notin> set (readAllLines (rotate_write (rotate_read True st) st1))"
proof -
  let ?e = "audit_event H t eid input"
  have rec: "ev = fst (append_event H fresh True ?e st)" "st1 = snd (append_event H fresh True ?e st)"
    using assms(3) by (metis recordAuditEvent_def fst_conv, metis recordAuditEvent_def snd_conv)
  have st1: "au_rolled st1 = au_rolled st" "au_primary st1 = au_primary st @ [Line ev]" "ae_id ev = eid"
    using record_event[of H fresh True ?e st] rec by (auto simp: audit_event_def Let_def)
  have "set (readAllLines (rotate_write (rotate_read True st) st1)) \<subseteq> set (readAllLines st)"
    using assms(1) by (auto simp: rotate_read_def rotate_write_def readAllLines_def map_filter_def)
  then show ?thesis using st1 assms(2) readAllLines_append[OF st1(1,2)] by auto
qed

theorem rotation_race_loses_event_witness:
  "let (ev, st1) = recordAuditEvent chain_host 0 ''a'' [] True sample_input full_store
   in ev \<in> set (readAllLines st1) \<and> ev \<notin> set (readAllLines (rotate_write (rotate_read True full_store) st1))"
proof -
  obtain ev st1 where r: "(ev, st1) = recordAuditEvent chain_host 0 ''a'' [] True sample_input full_store"
    by (metis surj_pair)
  have "readAllLines full_store = []" by (simp add: readAllLines_def full_store_def au_new_def map_filter_def)
  with rotation_race_loses_event[OF _ _ r] have
    "ev \<in> set (readAllLines st1) \<and> ev \<notin> set (readAllLines (rotate_write (rotate_read True full_store) st1))"
    by (simp add: full_store_def MAX_LINES_def)
  then show ?thesis by (simp flip: r)
qed

lemma append_hash_length:
  "(\<And>key m. length (host_hmac H key m) = 64) \<Longrightarrow> length (ae_hash (fst (append_event H fresh io ev st))) = 64"
  by (simp add: append_event_def Let_def split: prod.splits) (simp add: computeHash_def)

lemma append_prev_cached:
  "au_last_hash st = Some h \<Longrightarrow> h \<noteq> [] \<Longrightarrow> ae_prev_hash (fst (append_event H fresh io ev st)) = h"
  by (simp add: append_event_def lastChainedHash_def Let_def split: prod.splits)

lemma verify_rejects_bad_link:
  assumes "chained H k p evs" "evs \<noteq> []" "ae_prev_hash ev \<noteq> ae_hash (last evs)"
  shows "\<not> cv_ok (verify_loop H key 0 None verify_start (evs @ [ev]))"
proof -
  obtain e es where e: "evs = e # es" using assms(2) by (cases evs) auto
  have "tip (ae_hash e) es = ae_hash (last evs)" by (simp add: e tip_def)
  then have "\<not> chained H key (ae_hash e) (es @ [ev])" using assms(3) by (simp add: chained_append)
  moreover have "hasChain e" using assms(1) e by simp
  ultimately show ?thesis using verify_started[of _ H key "Suc 0" "ae_hash e" "es @ [ev]"]
    by (auto simp: e Let_def verify_start_def)
qed

text \<open>An append whose write fails moves the cached hash all the same, so the next event that is
  written links to an event that is not in the file, and verification fails from then on.\<close>

theorem failed_append_breaks_chain:
  assumes "\<And>key m. length (host_hmac H key m) = 64" "32 \<le> length k"
    and "st = fold (au_exec H) ops (au_new k)" "readAllLines st \<noteq> []"
    and "(lost, st1) = recordAuditEvent H t1 i1 f1 False in1 st"
    and "ae_hash lost \<noteq> ae_hash (last (readAllLines st))"
    and "(ev, st2) = recordAuditEvent H t2 i2 f2 True in2 st1"
  shows "\<not> cv_ok (fst (verifyChain H f3 st2))"
proof -
  have inv: "au_inv H k st" unfolding assms(3)
    by (intro run_inv assms(1) au_new_inv assms(2))
  then obtain evs p where e: "au_rolled st @ au_primary st = map Line evs" "chained H k p evs"
    by (auto simp: au_inv_def)
  note ne = assms(4,6)[unfolded readAllLines_map[OF e(1)]]
  have lost: "lost = fst (append_event H f1 False (audit_event H t1 i1 in1) st)" "st1 = snd (append_event H f1 False (audit_event H t1 i1 in1) st)"
    using assms(5) by (metis recordAuditEvent_def fst_conv, metis recordAuditEvent_def snd_conv)
  have ev: "ev = fst (append_event H f2 True (audit_event H t2 i2 in2) st1)" "st2 = snd (append_event H f2 True (audit_event H t2 i2 in2) st1)"
    using assms(7) by (metis recordAuditEvent_def fst_conv, metis recordAuditEvent_def snd_conv)
  have st1: "au_rolled st1 = au_rolled st" "au_primary st1 = au_primary st" "au_last_hash st1 = Some (ae_hash lost)"
    using record_event[of H f1 False _ st] lost by auto
  have st2: "au_rolled st2 = au_rolled st" "au_primary st2 = au_primary st @ [Line ev]"
    using record_event[of H f2 True _ st1] ev st1 by auto
  have "length (ae_hash lost) = 64" unfolding lost(1) by (rule append_hash_length[OF assms(1)])
  then have "ae_hash lost \<noteq> []" by auto
  then have "ae_prev_hash ev = ae_hash lost" using st1(3) ev(1) append_prev_cached by simp
  moreover have "readAllLines st2 = evs @ [ev]"
    using readAllLines_append[OF st2] readAllLines_map[OF e(1)] by simp
  ultimately show ?thesis
    using verify_rejects_bad_link[OF e(2) ne(1), of ev] ne(2) by (auto simp: verifyChain_def split: prod.splits)
qed

definition link1 :: string where "link1 = replicate 64 (CHR ''1'')"

definition link2 :: string where "link2 = replicate 64 (CHR ''2'')"

definition event1 :: AuditEvent where
  "event1 = (audit_event chain_host 0 ''a'' sample_input)\<lparr>ae_prev_hash := GENESIS_PREV, ae_hash := link1\<rparr>"

definition log1 :: audit_store where
  "log1 = snd (recordAuditEvent chain_host 0 ''a'' [] True sample_input (au_new (replicate 32 (CHR ''k''))))"

lemma sample_hash [simp]:
  "computeHash chain_host k ev GENESIS_PREV = link1" "computeHash chain_host k ev link1 = link2"
  by (simp_all add: computeHash_def chain_message_def GENESIS_PREV_def link1_def link2_def)

lemma sample_links [simp]: "link1 \<noteq> []" "link2 \<noteq> []" "link1 \<noteq> link2" "link2 \<noteq> link1" "length link1 = 64" "length link2 = 64"
  by (simp_all add: link1_def link2_def)

lemma log1_eq: "log1 = \<lparr>au_primary = [Line event1], au_rolled = [], au_key_file = Some (replicate 32 (CHR ''k'')),
    au_key_cache = Some (replicate 32 (CHR ''k'')), au_last_hash = Some link1\<rparr>"
  by (simp add: log1_def recordAuditEvent_def append_event_def lastChainedHash_def getChainKey_def au_new_def Let_def event1_def)

theorem failed_append_breaks_chain_witness:
  "\<not> cv_ok (fst (verifyChain chain_host [] (snd (recordAuditEvent chain_host 2 ''c'' [] True sample_input
      (snd (recordAuditEvent chain_host 1 ''b'' [] False sample_input log1))))))"
proof (rule failed_append_breaks_chain[where ops = "[ARecord 0 ''a'' [] sample_input]"
    and k = "replicate 32 (CHR ''k'')" and st = log1, OF _ _ _ _ prod.collapse _ prod.collapse])
  show "readAllLines log1 \<noteq> []" by (simp add: log1_eq readAllLines_def map_filter_def)
  show "ae_hash (fst (recordAuditEvent chain_host 1 ''b'' [] False sample_input log1)) \<noteq> ae_hash (last (readAllLines log1))"
    by (simp add: log1_eq readAllLines_def map_filter_def recordAuditEvent_def append_event_def lastChainedHash_def getChainKey_def Let_def event1_def)
qed (simp_all add: log1_def)

definition log2 :: audit_store where
  "log2 = snd (recordAuditEvent chain_host 1 ''b'' [] True sample_input log1)"

definition event2 :: AuditEvent where
  "event2 = (audit_event chain_host 1 ''b'' sample_input)\<lparr>ae_prev_hash := link1, ae_hash := link2\<rparr>"

lemma log2_eq: "log2 = log1\<lparr>au_primary := [Line event1, Line event2], au_last_hash := Some link2\<rparr>"
  by (simp add: log2_def log1_eq recordAuditEvent_def append_event_def lastChainedHash_def getChainKey_def Let_def event2_def)

definition log2_split :: audit_store where
  "log2_split = log2\<lparr>au_rolled := [Line event1], au_primary := [Line event2]\<rparr>"

lemma log2_lines:
  "readAllLines log2 = [event1, event2]" "readAllLines log2_split = [event1, event2]"
  "au_key_cache log2 = Some (replicate 32 (CHR ''k''))" "au_key_cache log2_split = Some (replicate 32 (CHR ''k''))"
  by (simp_all add: log2_split_def log2_eq log1_eq readAllLines_def map_filter_def)

lemma log2_result:
  "verify_loop chain_host k 0 None verify_start [event1, event2]
   = \<lparr>cv_ok = True, cv_checked = 2, cv_skipped = 0, cv_first = Some 0, cv_last_hash = Some link2, cv_break = None\<rparr>"
  by (simp add: event1_def event2_def hasChain_def GENESIS_PREV_def[THEN arg_cong[of _ _ length]] verify_start_def)

lemma log2_verify:
  "verifyChain chain_host f log2 = (verify_loop chain_host (replicate 32 (CHR ''k'')) 0 None verify_start [event1, event2], log2)"
  "verifyChain chain_host f log2_split
   = (verify_loop chain_host (replicate 32 (CHR ''k'')) 0 None verify_start [event1, event2], log2_split)"
  by (simp_all add: verifyChain_def getChainKey_def log2_lines del: verify_loop.simps)

lemma log2_separated:
  "inj_on (host_hmac chain_host k) ((\<lambda>e. chain_message chain_host e (ae_prev_hash e)) ` (set [event1, event2] \<union> set [event1, event2]))"
proof -
  have "hd (chain_message chain_host event1 (ae_prev_hash event1)) = CHR ''0''"
    "hd (chain_message chain_host event2 (ae_prev_hash event2)) = CHR ''1''"
    by (simp_all add: chain_message_def event1_def event2_def link1_def GENESIS_PREV_def)
  then show ?thesis by (auto simp: inj_on_def)
qed

theorem audit_log_tamper_evident_witness:
  "map (\<lambda>e. (event_content chain_host e, ae_prev_hash e, ae_hash e)) (readAllLines log2)
   = map (\<lambda>e. (event_content chain_host e, ae_prev_hash e, ae_hash e)) (readAllLines log2_split)"
proof -
  have "plain_numbers chain_host" by (simp add: plain_numbers_def chain_host_def sample_host_def passed_def)
  then show ?thesis
    by (intro audit_log_tamper_evident[where k = "replicate 32 (CHR ''k'')" and H = chain_host, OF _ _ refl refl])
       (simp_all only: log2_lines log2_verify log2_result fst_conv ChainVerifyResult.simps log2_separated)
qed

end
