(* ===== verification/Http.thy ===== *)
theory Http
  imports AuditLog "HOL-Library.AList"
begin

text \<open>
  Responses as the routes and guards build them with \<^verbatim>\<open>NextResponse.json\<close> and \<^verbatim>\<open>headers.set\<close>.
\<close>

record NextResponse =
  rsp_status :: int
  rsp_headers :: "(string \<times> string) list"
  rsp_body :: json

text \<open>Header names are case-insensitive; setting a header replaces its value.\<close>

definition set_header :: "string \<times> string \<Rightarrow> (string \<times> string) list \<Rightarrow> (string \<times> string) list" where
  "set_header nv hs = AList.update (toLowerCase (fst nv)) (snd nv) hs"

definition set_headers :: "(string \<times> string) list \<Rightarrow> (string \<times> string) list \<Rightarrow> (string \<times> string) list" where
  "set_headers nvs hs = fold set_header nvs hs"

definition int_headers :: "(string \<times> int) list \<Rightarrow> (string \<times> string) list" where
  "int_headers = map (\<lambda>(n, v). (n, int_str v))"

definition error_response :: "int \<Rightarrow> string \<Rightarrow> string \<Rightarrow> (string \<times> json) list \<Rightarrow> (string \<times> string) list \<Rightarrow> NextResponse" where
  "error_response status code msg extra hs =
     \<lparr>rsp_status = status, rsp_headers = set_headers hs [],
      rsp_body = JObj [(''error'', JObj ([(''code'', JStr code), (''message'', JStr msg)] @ extra))]\<rparr>"

text \<open>A recorded event is the new last line of the log.\<close>

lemma recorded_line:
  obtains ev where "readAllLines (snd (recordAuditEvent H now eid fresh True input st)) = readAllLines st @ [ev]"
    "ae_status ev = ai_status input" "ae_route ev = ai_route input"
    "ae_key_id ev = (case ai_key input of None \<Rightarrow> ''anon'' | Some k \<Rightarrow> k_id k)"
proof -
  define ev0 where "ev0 = audit_event H now eid input"
  let ?a = "append_event H fresh True ev0 st"
  obtain s2 where s2: "snd ?a = s2" "au_rolled s2 = au_rolled st" "au_primary s2 = au_primary st @ [Line (fst ?a)]"
    using record_event[of H fresh True ev0 st] by auto
  have f: "ae_status (fst ?a) = ae_status ev0" "ae_key_id (fst ?a) = ae_key_id ev0" "ae_route (fst ?a) = ae_route ev0"
    by (auto simp: append_event_def Let_def split: prod.splits)
  show thesis
  proof (rule that[of "fst ?a"])
    show "readAllLines (snd (recordAuditEvent H now eid fresh True input st)) = readAllLines st @ [fst ?a]"
      using readAllLines_append[OF s2(2,3)] s2(1) by (simp add: recordAuditEvent_def ev0_def)
  qed (unfold f, simp_all add: ev0_def audit_event_def Let_def)
qed

end
