(* ===== verification/AdminGuard.thy ===== *)
theory AdminGuard
  imports Totp SsoSession SsoPolicy Http
begin

text \<open>
  The gate of the management API: who is an admin (\<^verbatim>\<open>src/web/lib/adminGuardCore.ts\<close>), the second factor on
  mutating calls (\<^verbatim>\<open>adminMfaGuard.ts\<close>), their composition with the audit log (\<^verbatim>\<open>adminGuard.ts\<close>), and the
  routes by which an admin key manages its own second factor (\<^verbatim>\<open>src/web/app/api/admin/mfa\<close>).

  The theorems: what a passed gate implies; that it is exact for an enrolled key; that every refusal is
  audited; that a session without an API key can never pass a mutating call; and that an enrollment route
  replaces a confirmed enrollment without asking for the second factor.
\<close>

section \<open>State and environment\<close>

record admin_world =
  dw_auth :: auth_world
  dw_sso :: sso_world
  dw_sso_policy :: "SsoPolicy cast_file"
  dw_totp :: totp_file
  dw_audit :: audit_store

text \<open>\<open>ae_admin_key\<close> is \<^verbatim>\<open>SIGNALCLAW_ADMIN_KEY\<close>; \<open>ae_decodeURI\<close> is \<^verbatim>\<open>decodeURIComponent\<close>, \<open>None\<close> where it throws.
  Readings of the clock: 0 to 3 authentication, 4 and 5 the session, from 6 on the audit lines, 20 the second factor.\<close>

record admin_env =
  ae_host :: host
  ae_hmac1 :: hmac_sha1
  ae_admin_key :: "string option"
  ae_require_mfa :: "string option"
  ae_sso :: sso_env
  ae_decodeURI :: "string \<Rightarrow> string option"
  ae_clock :: clock
  ae_id :: "nat \<Rightarrow> string"
  ae_fresh :: string
  ae_io :: bool

definition admin_audit ::
  "admin_env \<Rightarrow> nat \<Rightarrow> headers \<Rightarrow> string \<Rightarrow> string \<Rightarrow> int \<Rightarrow> StoredKey option \<Rightarrow> string option \<Rightarrow> admin_world \<Rightarrow> admin_world" where
  "admin_audit E i h route meth status key reason w =
     w\<lparr>dw_audit := snd (recordAuditEvent (ae_host E) (ae_clock E i) (ae_id E i) (ae_fresh E) (ae_io E)
         \<lparr>ai_req = Some h, ai_route = route, ai_method = meth, ai_status = status, ai_key = key, ai_reason = reason, ai_details = None\<rparr>
         (dw_audit w))\<rparr>"

definition admin_auth :: "admin_env \<Rightarrow> headers option \<Rightarrow> headers \<Rightarrow> admin_world \<Rightarrow> StoredKey option res \<times> admin_world" where
  "admin_auth E req h w =
     (case authenticate (ae_host E) (ae_admin_key E) (ae_clock E) req (extractKey h) (dw_auth w) of
        (out, aw) \<Rightarrow> (out, w\<lparr>dw_auth := aw\<rparr>))"

definition err_response :: "int \<Rightarrow> string \<Rightarrow> string \<Rightarrow> NextResponse" where
  "err_response status code msg = error_response status code msg [] []"

section \<open>Who is an admin\<close>

datatype AdminReason = Local_mode | Admin_key | Sso_session | Admin_required | Sso_required | Sso_domain

fun admin_reason_str :: "AdminReason \<Rightarrow> string" where
  "admin_reason_str Local_mode = ''local-mode''"
| "admin_reason_str Admin_key = ''admin-key''"
| "admin_reason_str Sso_session = ''sso-session''"
| "admin_reason_str Admin_required = ''forbidden:admin-required''"
| "admin_reason_str Sso_required = ''forbidden:sso-required''"
| "admin_reason_str Sso_domain = ''forbidden:sso-domain''"

record AdminDecision =
  dc_allowed :: bool
  dc_key :: "StoredKey option"
  dc_reason :: AdminReason
  dc_session :: "SsoSession option"
  dc_enforce_sso :: bool

text \<open>\<^verbatim>\<open>raw.split(/;\s*/)\<close>\<close>

definition cookie_parts :: "string \<Rightarrow> string list" where
  "cookie_parts raw = (case split_on (CHR '';'') raw of [] \<Rightarrow> [] | p # ps \<Rightarrow> p # map (dropWhile js_ws) ps)"

fun cookie_value :: "string \<Rightarrow> string list \<Rightarrow> string option" where
  "cookie_value name [] = None"
| "cookie_value name (part # ps) =
     (case indexOf (CHR ''='') part of
        None \<Rightarrow> cookie_value name ps
      | Some eq \<Rightarrow> if take eq part = name then Some (drop (Suc eq) part) else cookie_value name ps)"

definition readCookie :: "admin_env \<Rightarrow> headers \<Rightarrow> string \<Rightarrow> string option res" where
  "readCookie E h name =
     (if \<not> truthy (h ''cookie'') then Inr None
      else case cookie_value name (cookie_parts (or_empty (h ''cookie''))) of
        None \<Rightarrow> Inr None
      | Some v \<Rightarrow> (case ae_decodeURI E v of None \<Rightarrow> Inl (Thrown ''URIError'') | Some s \<Rightarrow> Inr (Some s)))"

definition emailDomain :: "string \<Rightarrow> string" where
  "emailDomain email =
     (if CHR ''@'' \<in> set email then toLowerCase (rev (takeWhile (\<lambda>c. c \<noteq> CHR ''@'') (rev email))) else [])"

definition forwarded_ip :: "headers \<Rightarrow> string" where
  "forwarded_ip h =
     (let first = trim (hd (split_on (CHR '','') (or_empty (h ''x-forwarded-for''))))
      in if first \<noteq> [] then first else or_empty (h ''x-real-ip''))"

definition read_session :: "admin_env \<Rightarrow> headers \<Rightarrow> string option \<Rightarrow> admin_world \<Rightarrow> SsoSession option \<times> admin_world" where
  "read_session E h tok w =
     (if \<not> truthy tok then (None, w)
      else case verifySessionCookie (ae_sso E) (\<lambda>i. ae_clock E (4 + i))
             \<lparr>vo_skipRegistry = False, vo_liveness = Some (Some (forwarded_ip h))\<rparr> tok (dw_sso w) of
        (s, sw) \<Rightarrow> (s, w\<lparr>dw_sso := sw\<rparr>))"

definition has_admin :: "StoredKey option \<Rightarrow> bool" where
  "has_admin k \<longleftrightarrow> (case k of None \<Rightarrow> False | Some k \<Rightarrow> S_admin \<in> set (k_scopes k))"

definition admin_decision :: "string option \<Rightarrow> SsoPolicy \<Rightarrow> StoredKey option \<Rightarrow> SsoSession option \<Rightarrow> AdminDecision" where
  "admin_decision adminEnv policy k session =
     (let d = (\<lambda>ok reason s. \<lparr>dc_allowed = ok, dc_key = k, dc_reason = reason, dc_session = s, dc_enforce_sso = sp_enforce policy\<rparr>) in
      if session \<noteq> None \<and> sp_enabled policy
      then (if sp_allowed_domains policy \<noteq> [] \<and> emailDomain (ss_email (the session)) \<notin> set (sp_allowed_domains policy)
            then d False Sso_domain None else d True Sso_session session)
      else if \<not> truthy adminEnv
      then (if sp_enforce policy \<and> sp_enabled policy then d False Sso_required None else d True Local_mode None)
      else if \<not> has_admin k then d False Admin_required None
      else d True Admin_key None)"

definition decideAdmin :: "admin_env \<Rightarrow> headers \<Rightarrow> admin_world \<Rightarrow> AdminDecision res \<times> admin_world" where
  "decideAdmin E h w =
     (case admin_auth E None h w of
        (Inl e, w) \<Rightarrow> (Inl e, w)
      | (Inr k, w) \<Rightarrow>
          (case readCookie E h ''sc_sso'' of
             Inl e \<Rightarrow> (Inl e, w)
           | Inr tok \<Rightarrow>
               (case read_session E h tok w of
                  (session, w) \<Rightarrow> (Inr (admin_decision (ae_admin_key E) (getSsoPolicy (dw_sso_policy w)) k session), w))))"

section \<open>The second factor\<close>

definition header_value :: "headers \<Rightarrow> string \<Rightarrow> string option" where
  "header_value h name = (if truthy (h name) then or_null (trim (or_empty (h name))) else None)"

definition extractCode :: "headers \<Rightarrow> string option" where
  "extractCode h = header_value h ''x-mfa-code''"

definition extractRecovery :: "headers \<Rightarrow> string option" where
  "extractRecovery h = header_value h ''x-mfa-recovery-code''"

fun verify_reason_str :: "VerifyReason \<Rightarrow> string" where
  "verify_reason_str Not_enrolled = ''not_enrolled''"
| "verify_reason_str Bad_format = ''bad_format''"
| "verify_reason_str Invalid_code = ''invalid''"
| "verify_reason_str Replay = ''replay''"

definition enforceAdminMfa ::
  "admin_env \<Rightarrow> headers \<Rightarrow> StoredKey option \<Rightarrow> string \<Rightarrow> string \<Rightarrow> admin_world \<Rightarrow> NextResponse option res \<times> admin_world" where
  "enforceAdminMfa E h key route meth w =
     (let audit = (\<lambda>status reason. admin_audit E 8 h route meth status key (Some reason)) in
      if \<not> truthy (ae_admin_key E) then (Inr None, w)
      else case key of
        None \<Rightarrow> (Inr (Some (err_response 401 ''mfa_required'' ''MFA required'')), audit 401 ''mfa_required:no_key'' w)
      | Some k \<Rightarrow>
          (case getRecord (k_id k) (dw_totp w) of
             Inl e \<Rightarrow> (Inl e, w)
           | Inr enrollment \<Rightarrow>
               if \<not> truthy (Option.bind enrollment tr_confirmed_at)
               then (Inr None, audit 200 ''mfa-not-enrolled'' w)
               else (case extractRecovery h of
                 Some recovery \<Rightarrow>
                   (case consumeRecoveryCode (ae_host E) (ae_clock E 20) (k_id k) recovery (dw_totp w) of
                      (Inl e, f) \<Rightarrow> (Inl e, w\<lparr>dw_totp := f\<rparr>)
                    | (Inr (True, n), f) \<Rightarrow> (Inr None, audit 200 (''mfa-recovery-used:remaining='' @ dec_str (int n)) (w\<lparr>dw_totp := f\<rparr>))
                    | (Inr (False, n), f) \<Rightarrow>
                        (Inr (Some (err_response 401 ''mfa_invalid'' ''recovery code rejected'')),
                         audit 401 ''mfa_invalid:recovery_rejected'' (w\<lparr>dw_totp := f\<rparr>)))
               | None \<Rightarrow>
                   (case extractCode h of
                      None \<Rightarrow> (Inr (Some (err_response 401 ''mfa_required'' ''X-MFA-Code header required'')), audit 401 ''mfa_required'' w)
                    | Some code \<Rightarrow>
                        (case verifyAndMark (ae_hmac1 E) (k_id k) code (ae_clock E 20) (dw_totp w) of
                           (Inl e, f) \<Rightarrow> (Inl e, w\<lparr>dw_totp := f\<rparr>)
                         | (Inr (Verified s), f) \<Rightarrow> (Inr None, w\<lparr>dw_totp := f\<rparr>)
                         | (Inr (Rejected why), f) \<Rightarrow>
                             (Inr (Some (err_response 401 ''mfa_invalid'' ''MFA code rejected'')),
                              audit 401 (''mfa_invalid:'' @ verify_reason_str why) (w\<lparr>dw_totp := f\<rparr>)))))))"

section \<open>The gate\<close>

text \<open>The answer: the refusal, if any, and the key.\<close>

definition requireAdmin ::
  "admin_env \<Rightarrow> headers \<Rightarrow> string \<Rightarrow> string \<Rightarrow> admin_world \<Rightarrow> (NextResponse option \<times> StoredKey option) res \<times> admin_world" where
  "requireAdmin E h route meth w =
     (case decideAdmin E h w of
        (Inl e, w) \<Rightarrow> (Inl e, w)
      | (Inr d, w) \<Rightarrow>
          if \<not> dc_allowed d
          then (Inr (Some (err_response 403 ''forbidden'' ''admin scope required''), dc_key d),
                admin_audit E 6 h route meth 403 (dc_key d) (Some (admin_reason_str (dc_reason d))) w)
          else
            (let w = admin_audit E 6 h route meth 200 (dc_key d) (Some (admin_reason_str (dc_reason d))) w in
             if meth = ''GET'' then (Inr (None, dc_key d), w)
             else case enforceAdminMfa E h (dc_key d) route meth w of
               (Inl e, w) \<Rightarrow> (Inl e, w)
             | (Inr denied, w) \<Rightarrow> (Inr (denied, dc_key d), w)))"

section \<open>Managing one's own second factor\<close>

definition LOCAL_KEY_ID :: string where "LOCAL_KEY_ID = ''local''"

definition keyIdFor :: "StoredKey option \<Rightarrow> string" where
  "keyIdFor key = (case key of None \<Rightarrow> LOCAL_KEY_ID | Some k \<Rightarrow> k_id k)"

definition keyLabelFor :: "StoredKey option \<Rightarrow> string" where
  "keyLabelFor key = (case key of None \<Rightarrow> ''local admin'' | Some k \<Rightarrow> k_label k)"

definition json_response :: "json \<Rightarrow> NextResponse" where
  "json_response body = \<lparr>rsp_status = 200, rsp_headers = [], rsp_body = body\<rparr>"

definition forbidden_response :: NextResponse where
  "forbidden_response = err_response 403 ''forbidden'' ''admin scope required''"

text \<open>A step of a route answers or goes on; a route that is still drawing recovery codes has no answer yet (\<open>None\<close>).\<close>

type_synonym route_answer = "NextResponse res option"

text \<open>\<open>mfa_admin\<close> is the check the routes below \<^verbatim>\<open>/api/admin/mfa\<close> start with: authentication with the request, then the
  admin scope where \<^verbatim>\<open>SIGNALCLAW_ADMIN_KEY\<close> is set. \<open>note\<close> adds the line of local mode that \<^verbatim>\<open>mfa/route.ts\<close> writes.\<close>

definition mfa_admin ::
  "bool \<Rightarrow> admin_env \<Rightarrow> headers \<Rightarrow> string \<Rightarrow> string \<Rightarrow> (StoredKey option \<Rightarrow> admin_world \<Rightarrow> route_answer \<times> admin_world)
   \<Rightarrow> admin_world \<Rightarrow> route_answer \<times> admin_world" where
  "mfa_admin note E h route meth body w =
     (case admin_auth E (Some h) h w of
        (Inl e, w) \<Rightarrow> (Some (Inl e), w)
      | (Inr key, w) \<Rightarrow>
          if truthy (ae_admin_key E) \<and> \<not> has_admin key
          then (Some (Inr forbidden_response), admin_audit E 6 h route meth 403 key (Some ''forbidden:admin-required'') w)
          else body key (if note \<and> \<not> truthy (ae_admin_key E) then admin_audit E 6 h route meth 200 key (Some ''local-mode'') w else w))"

definition enc_status :: "TotpStatus \<Rightarrow> (string \<times> json) list" where
  "enc_status s = [(''key_id'', JStr (ts_key_id s)), (''enrolled'', JBool (ts_enrolled s)), (''pending'', JBool (ts_pending s)),
     (''last_verified_at'', jnullable (ts_last_verified_at s)), (''created_at'', jnullable (ts_created_at s)),
     (''recovery_codes_remaining'', JNum (jsint (int (ts_remaining s))))]"

definition mfa_GET :: "admin_env \<Rightarrow> headers \<Rightarrow> admin_world \<Rightarrow> route_answer \<times> admin_world" where
  "mfa_GET E h = mfa_admin True E h ''/api/admin/mfa'' ''GET'' (\<lambda>key w.
     case statusFor (keyIdFor key) (dw_totp w) of
       Inl e \<Rightarrow> (Some (Inl e), w)
     | Inr s \<Rightarrow> (Some (Inr (json_response (JObj [(''status'', JObj (enc_status s))]))),
                admin_audit E 7 h ''/api/admin/mfa'' ''GET'' 200 key None w))"

definition mfa_status_GET :: "admin_env \<Rightarrow> headers \<Rightarrow> admin_world \<Rightarrow> route_answer \<times> admin_world" where
  "mfa_status_GET E h = mfa_admin False E h ''/api/admin/mfa/status'' ''GET'' (\<lambda>key w.
     case statusFor (keyIdFor key) (dw_totp w) of
       Inl e \<Rightarrow> (Some (Inl e), w)
     | Inr s \<Rightarrow> (Some (Inr (json_response (JObj (enc_status s @ [(''required_for_admin'', JBool (truthy (ae_require_mfa E)))])))),
                admin_audit E 7 h ''/api/admin/mfa/status'' ''GET'' 200 key None w))"

text \<open>\<open>rnd\<close>: the random bytes of the new secret.\<close>

definition mfa_POST :: "byte list \<Rightarrow> admin_env \<Rightarrow> headers \<Rightarrow> admin_world \<Rightarrow> route_answer \<times> admin_world" where
  "mfa_POST rnd E h = mfa_admin True E h ''/api/admin/mfa'' ''POST'' (\<lambda>key w.
     case startEnrollment rnd (ae_clock E 20) (keyIdFor key) (keyLabelFor key) (dw_totp w) of
       (Inl e, f) \<Rightarrow> (Some (Inl e), w\<lparr>dw_totp := f\<rparr>)
     | (Inr en, f) \<Rightarrow>
         (Some (Inr (json_response (JObj [(''key_id'', JStr (en_key_id en)), (''secret_b32'', JStr (en_secret en)),
            (''otpauth_uri'', JStr (en_otpauth_uri en)), (''digits'', JNum (jsint (int (en_digits en)))),
            (''step_seconds'', JNum (jsint (en_step_seconds en)))]))),
          admin_audit E 7 h ''/api/admin/mfa'' ''POST'' 200 key (Some ''mfa-enroll-init'') (w\<lparr>dw_totp := f\<rparr>)))"

text \<open>\<open>body\<close>: the parsed request body, \<open>None\<close> when \<^verbatim>\<open>req.json()\<close> throws.\<close>

definition enroll_label :: "json option \<Rightarrow> StoredKey option \<Rightarrow> string" where
  "enroll_label body key =
     (let l = (case body of None \<Rightarrow> [] | Some j \<Rightarrow> trim (or_empty (str_or_null (jfield j ''label'')))) in
      if l \<noteq> [] then l else case key of None \<Rightarrow> ''signalclaw-admin'' | Some k \<Rightarrow> k_label k)"

definition mfa_enroll_POST :: "byte list \<Rightarrow> json option \<Rightarrow> admin_env \<Rightarrow> headers \<Rightarrow> admin_world \<Rightarrow> route_answer \<times> admin_world" where
  "mfa_enroll_POST rnd body E h = mfa_admin False E h ''/api/admin/mfa/enroll'' ''POST'' (\<lambda>key w.
     case startEnrollment rnd (ae_clock E 20) (keyIdFor key) (enroll_label body key) (dw_totp w) of
       (Inl e, f) \<Rightarrow> (Some (Inl e), w\<lparr>dw_totp := f\<rparr>)
     | (Inr en, f) \<Rightarrow>
         (Some (Inr (json_response (JObj [(''secret'', JStr (en_secret en)), (''otpauth_uri'', JStr (en_otpauth_uri en)),
            (''algorithm'', JStr ''SHA1''), (''digits'', JNum (jsint (int TOTP_DIGITS))), (''period_seconds'', JNum (jsint TOTP_STEP_SECONDS))]))),
          admin_audit E 7 h ''/api/admin/mfa/enroll'' ''POST'' 200 key (Some ''mfa-enroll-init'') (w\<lparr>dw_totp := f\<rparr>)))"

definition body_code :: "json \<Rightarrow> string" where
  "body_code j = trim (or_empty (str_or_null (jfield j ''code'')))"

definition header_code :: "headers \<Rightarrow> string \<Rightarrow> string" where
  "header_code h name = trim (or_empty (h name))"

text \<open>A 6-digit code is required and verified; the routes differ in the answers.\<close>

definition with_code ::
  "admin_env \<Rightarrow> headers \<Rightarrow> string \<Rightarrow> string \<Rightarrow> StoredKey option \<Rightarrow> string \<Rightarrow> int \<times> string \<times> NextResponse
   \<Rightarrow> (VerifyReason \<Rightarrow> string \<times> NextResponse) \<Rightarrow> (admin_world \<Rightarrow> route_answer \<times> admin_world) \<Rightarrow> admin_world \<Rightarrow> route_answer \<times> admin_world" where
  "with_code E h route meth key code bad reject k w =
     (case bad of (status, reason, answer) \<Rightarrow>
      if \<not> code_format code then (Some (Inr answer), admin_audit E 7 h route meth status key (Some reason) w)
      else case verifyAndMark (ae_hmac1 E) (keyIdFor key) code (ae_clock E 20) (dw_totp w) of
        (Inl e, f) \<Rightarrow> (Some (Inl e), w\<lparr>dw_totp := f\<rparr>)
      | (Inr (Rejected why), f) \<Rightarrow>
          (Some (Inr (snd (reject why))), admin_audit E 7 h route meth 401 key (Some (fst (reject why))) (w\<lparr>dw_totp := f\<rparr>))
      | (Inr (Verified s), f) \<Rightarrow> k (w\<lparr>dw_totp := f\<rparr>))"

definition mfa_PUT :: "json option \<Rightarrow> admin_env \<Rightarrow> headers \<Rightarrow> admin_world \<Rightarrow> route_answer \<times> admin_world" where
  "mfa_PUT body E h = mfa_admin True E h ''/api/admin/mfa'' ''PUT'' (\<lambda>key w.
     case body of
       None \<Rightarrow> (Some (Inr (err_response 400 ''bad_json'' ''request body must be valid JSON'')), w)
     | Some j \<Rightarrow>
         with_code E h ''/api/admin/mfa'' ''PUT'' key (body_code j)
           (400, ''mfa-verify-bad-format'', err_response 400 ''bad_code'' ''code must be a 6-digit string'')
           (\<lambda>why. (''mfa-verify-fail:'' @ verify_reason_str why, err_response 401 ''mfa_invalid'' (''code rejected: '' @ verify_reason_str why)))
           (\<lambda>w. let w = admin_audit E 9 h ''/api/admin/mfa'' ''PUT'' 200 key (Some ''mfa-verify-ok'') w in
             case statusFor (keyIdFor key) (dw_totp w) of
               Inl e \<Rightarrow> (Some (Inl e), w)
             | Inr s \<Rightarrow> (Some (Inr (json_response (JObj [(''status'', JObj (enc_status s)), (''verified'', JBool True)]))), w)) w)"

definition disable_own :: "admin_env \<Rightarrow> headers \<Rightarrow> string \<Rightarrow> string \<Rightarrow> StoredKey option \<Rightarrow> admin_world \<Rightarrow> route_answer \<times> admin_world" where
  "disable_own E h route meth key w =
     (case totp_disable (keyIdFor key) (dw_totp w) of
        (Inl e, f) \<Rightarrow> (Some (Inl e), w\<lparr>dw_totp := f\<rparr>)
      | (Inr removed, f) \<Rightarrow>
          (Some (Inr (json_response (JObj [(''ok'', JBool True), (''removed'', JBool removed)]))),
           admin_audit E 9 h route meth 200 key (Some (if removed then ''mfa-disabled'' else ''mfa-not-enrolled'')) (w\<lparr>dw_totp := f\<rparr>)))"

definition mfa_DELETE :: "admin_env \<Rightarrow> headers \<Rightarrow> admin_world \<Rightarrow> route_answer \<times> admin_world" where
  "mfa_DELETE E h = mfa_admin True E h ''/api/admin/mfa'' ''DELETE'' (\<lambda>key w.
     case getRecord (keyIdFor key) (dw_totp w) of
       Inl e \<Rightarrow> (Some (Inl e), w)
     | Inr None \<Rightarrow> disable_own E h ''/api/admin/mfa'' ''DELETE'' key w
     | Inr (Some _) \<Rightarrow>
         with_code E h ''/api/admin/mfa'' ''DELETE'' key (header_code h ''x-mfa-code'')
           (401, ''mfa-disable-missing-code'', err_response 401 ''mfa_required'' ''X-MFA-Code header required to disable MFA'')
           (\<lambda>why. (''mfa-disable-reject:'' @ verify_reason_str why, err_response 401 ''mfa_invalid'' ''code rejected''))
           (disable_own E h ''/api/admin/mfa'' ''DELETE'' key) w)"

text \<open>\<open>draws\<close>: the draws of the recovery codes.\<close>

definition mfa_confirm_POST :: "byte list list \<Rightarrow> json option \<Rightarrow> admin_env \<Rightarrow> headers \<Rightarrow> admin_world \<Rightarrow> route_answer \<times> admin_world" where
  "mfa_confirm_POST draws body E h = mfa_admin False E h ''/api/admin/mfa/confirm'' ''POST'' (\<lambda>key w.
     case body of
       None \<Rightarrow> (Some (Inr (err_response 400 ''bad_json'' ''request body must be valid JSON'')), w)
     | Some j \<Rightarrow>
         with_code E h ''/api/admin/mfa/confirm'' ''POST'' key (body_code j)
           (400, ''mfa-confirm-bad-format'', err_response 400 ''bad_code'' ''code must be a 6-digit string'')
           (\<lambda>why. (''mfa-confirm-fail:'' @ verify_reason_str why, err_response 401 ''mfa_invalid'' (''code rejected: '' @ verify_reason_str why)))
           (\<lambda>w. case regenerateRecoveryCodes (ae_host E) draws (keyIdFor key) (dw_totp w) of
               (None, f) \<Rightarrow> (None, w\<lparr>dw_totp := f\<rparr>)
             | (Some (Inl e), f) \<Rightarrow> (Some (Inl e), w\<lparr>dw_totp := f\<rparr>)
             | (Some (Inr r), f) \<Rightarrow>
                 (case statusFor (keyIdFor key) f of
                    Inl e \<Rightarrow> (Some (Inl e), w\<lparr>dw_totp := f\<rparr>)
                  | Inr s \<Rightarrow>
                      (Some (Inr (json_response (JObj [(''enrolled'', JBool (ts_enrolled s)),
                         (''recovery_codes'', JArr (case r of None \<Rightarrow> [] | Some (codes, n) \<Rightarrow> map JStr codes)),
                         (''recovery_codes_remaining'', JNum (jsint (int (ts_remaining s))))]))),
                       admin_audit E 9 h ''/api/admin/mfa/confirm'' ''POST'' 200 key (Some ''mfa-confirm-ok'') (w\<lparr>dw_totp := f\<rparr>)))) w)"

definition mfa_disable_POST :: "admin_env \<Rightarrow> headers \<Rightarrow> admin_world \<Rightarrow> route_answer \<times> admin_world" where
  "mfa_disable_POST E h = mfa_admin False E h ''/api/admin/mfa/disable'' ''POST'' (\<lambda>key w.
     case getRecord (keyIdFor key) (dw_totp w) of
       Inl e \<Rightarrow> (Some (Inl e), w)
     | Inr existing \<Rightarrow>
         if \<not> truthy (Option.bind existing tr_confirmed_at) then disable_own E h ''/api/admin/mfa/disable'' ''POST'' key w
         else
           (let recovery = header_code h ''x-mfa-recovery-code'' in
            if recovery \<noteq> []
            then (case consumeRecoveryCode (ae_host E) (ae_clock E 20) (keyIdFor key) recovery (dw_totp w) of
                    (Inl e, f) \<Rightarrow> (Some (Inl e), w\<lparr>dw_totp := f\<rparr>)
                  | (Inr (False, n), f) \<Rightarrow>
                      (Some (Inr (err_response 401 ''mfa_invalid'' ''recovery code rejected'')),
                       admin_audit E 7 h ''/api/admin/mfa/disable'' ''POST'' 401 key (Some ''mfa-disable-recovery-reject'') (w\<lparr>dw_totp := f\<rparr>))
                  | (Inr (True, n), f) \<Rightarrow> disable_own E h ''/api/admin/mfa/disable'' ''POST'' key (w\<lparr>dw_totp := f\<rparr>))
            else with_code E h ''/api/admin/mfa/disable'' ''POST'' key (header_code h ''x-mfa-code'')
                   (401, ''mfa-disable-missing-code'', err_response 401 ''mfa_required'' ''X-MFA-Code or X-MFA-Recovery-Code header required'')
                   (\<lambda>why. (''mfa-disable-reject:'' @ verify_reason_str why, err_response 401 ''mfa_invalid'' ''code rejected''))
                   (disable_own E h ''/api/admin/mfa/disable'' ''POST'' key) w))"

definition regenerate_POST :: "byte list list \<Rightarrow> admin_env \<Rightarrow> headers \<Rightarrow> admin_world \<Rightarrow> route_answer \<times> admin_world" where
  "regenerate_POST draws E h =
     (let route = ''/api/admin/mfa/recovery-codes/regenerate'' in mfa_admin False E h route ''POST'' (\<lambda>key w.
     case isFullyEnrolled (keyIdFor key) (dw_totp w) of
       Inl e \<Rightarrow> (Some (Inl e), w)
     | Inr False \<Rightarrow> (Some (Inr (err_response 400 ''not_enrolled'' ''complete MFA enrollment first'')),
                   admin_audit E 7 h route ''POST'' 400 key (Some ''recovery-regen-not-enrolled'') w)
     | Inr True \<Rightarrow>
         with_code E h route ''POST'' key (header_code h ''x-mfa-code'')
           (401, ''recovery-regen-missing-code'', err_response 401 ''mfa_required'' ''X-MFA-Code header required'')
           (\<lambda>why. (''recovery-regen-reject:'' @ verify_reason_str why, err_response 401 ''mfa_invalid'' ''code rejected''))
           (\<lambda>w. case regenerateRecoveryCodes (ae_host E) draws (keyIdFor key) (dw_totp w) of
               (None, f) \<Rightarrow> (None, w\<lparr>dw_totp := f\<rparr>)
             | (Some (Inl e), f) \<Rightarrow> (Some (Inl e), w\<lparr>dw_totp := f\<rparr>)
             | (Some (Inr None), f) \<Rightarrow>
                 (Some (Inr (err_response 409 ''not_enrolled'' ''MFA was disabled'')),
                  admin_audit E 9 h route ''POST'' 409 key (Some ''recovery-regen-race'') (w\<lparr>dw_totp := f\<rparr>))
             | (Some (Inr (Some (codes, n))), f) \<Rightarrow>
                 (Some (Inr (json_response (JObj [(''recovery_codes'', JArr (map JStr codes)), (''recovery_codes_remaining'', JNum (jsint (int n)))]))),
                  admin_audit E 9 h route ''POST'' 200 key (Some (''recovery-regen:count='' @ dec_str (int (length codes)))) (w\<lparr>dw_totp := f\<rparr>))) w))"

section \<open>What the gate guarantees\<close>

lemma admin_audit_frame [simp]:
  "dw_auth (admin_audit E i h r m s k x w) = dw_auth w" "dw_sso (admin_audit E i h r m s k x w) = dw_sso w"
  "dw_sso_policy (admin_audit E i h r m s k x w) = dw_sso_policy w" "dw_totp (admin_audit E i h r m s k x w) = dw_totp w"
  by (simp_all add: admin_audit_def)

lemma admin_auth_frame:
  "admin_auth E req h w = (out, w') \<Longrightarrow> dw_sso w' = dw_sso w \<and> dw_sso_policy w' = dw_sso_policy w \<and> dw_totp w' = dw_totp w \<and> dw_audit w' = dw_audit w"
  by (auto simp: admin_auth_def split: prod.splits)

lemma read_session_frame:
  "read_session E h tok w = (s, w') \<Longrightarrow> dw_sso_policy w' = dw_sso_policy w \<and> dw_totp w' = dw_totp w \<and> dw_audit w' = dw_audit w"
  by (auto simp: read_session_def split: prod.splits if_splits)

lemma decideAdmin_Inr:
  assumes "decideAdmin E h w = (Inr d, w')"
  obtains k w1 tok s where "admin_auth E None h w = (Inr k, w1)" "readCookie E h ''sc_sso'' = Inr tok"
    "read_session E h tok w1 = (s, w')" "d = admin_decision (ae_admin_key E) (getSsoPolicy (dw_sso_policy w)) k s"
    "dw_totp w' = dw_totp w" "dw_audit w' = dw_audit w"
proof -
  obtain k w1 where a: "admin_auth E None h w = (Inr k, w1)"
    using assms by (auto simp: decideAdmin_def split: prod.splits sum.splits)
  obtain tok where c: "readCookie E h ''sc_sso'' = Inr tok"
    using assms a by (auto simp: decideAdmin_def split: prod.splits sum.splits)
  obtain s w2 where r: "read_session E h tok w1 = (s, w2)" by fastforce
  from assms a c r have "d = admin_decision (ae_admin_key E) (getSsoPolicy (dw_sso_policy w2)) k s" "w2 = w'"
    by (auto simp: decideAdmin_def)
  with admin_auth_frame[OF a] read_session_frame[OF r] a c r show thesis by (intro that) auto
qed

text \<open>A second factor for the key's record: a recovery code whose hash is stored, or the code of a step in the window
  after the last accepted one.\<close>

definition second_factor :: "admin_env \<Rightarrow> headers \<Rightarrow> TotpRecord \<Rightarrow> bool" where
  "second_factor E h rec \<longleftrightarrow>
     (\<exists>r. extractRecovery h = Some r \<and> host_sha256 (ae_host E) (canonical_code r) \<in> set (tr_recovery rec))
     \<or> (\<exists>code step. extractRecovery h = None \<and> extractCode h = Some code \<and> \<bar>step - currentStep (ae_clock E 20)\<bar> \<le> 1
          \<and> totpAtStep (ae_hmac1 E) (tr_secret rec) step = Inr code \<and> before (tr_last_step rec) step)"

lemma consume_True:
  assumes "fst (consumeRecoveryCode H now kid cand f) = Inr (True, n)" "getRecord kid f = Inr (Some rec)"
  shows "host_sha256 H (canonical_code cand) \<in> set (tr_recovery rec)"
proof -
  obtain rs where rs: "totp_readStore f = Inr rs" "find (for_key kid) rs = Some rec"
    using assms(2) by (cases "totp_readStore f") (auto simp: getRecord_def)
  have "\<exists>i. first_hit (host_sha256 H (canonical_code cand)) (tr_recovery rec) 0 None = Some i"
    using assms(1) by (auto simp: consumeRecoveryCode_eq rs Let_def canonical_code_def split: if_splits option.splits)
  with first_hit_remove[of "host_sha256 H (canonical_code cand)" "tr_recovery rec" 0] show ?thesis by auto
qed

lemma verify_Verified:
  assumes "fst (verifyAndMark hmac kid code now f) = Inr (Verified s)" "getRecord kid f = Inr (Some rec)"
  shows "\<bar>s - currentStep now\<bar> \<le> 1 \<and> totpAtStep hmac (tr_secret rec) s = Inr code \<and> before (tr_last_step rec) s"
proof -
  obtain rs where rs: "totp_readStore f = Inr rs" "find (for_key kid) rs = Some rec"
    using assms(2) by (cases "totp_readStore f") (auto simp: getRecord_def)
  let ?w = "map (\<lambda>d. currentStep now + d) [- TOTP_TOLERANCE_STEPS .. TOTP_TOLERANCE_STEPS]"
  have "verify_steps hmac rec code ?w = Verified s"
    using assms(1) by (auto simp: verifyAndMark_eq rs verifyCodeAgainst_def split: VerifyResult.splits if_splits)
  from verify_steps_Verified[OF this] show ?thesis
    unfolding window_steps by (auto simp: abs_le_iff split: option.splits)
qed

lemma enforceAdminMfa_passes:
  assumes "enforceAdminMfa E h key route meth w = (Inr None, w')" "truthy (ae_admin_key E)"
  shows "\<exists>k enrollment. key = Some k \<and> getRecord (k_id k) (dw_totp w) = Inr enrollment
    \<and> (\<forall>rec. enrollment = Some rec \<and> truthy (tr_confirmed_at rec) \<longrightarrow> second_factor E h rec)"
proof -
  obtain k where k: "key = Some k" using assms by (cases key) (auto simp: enforceAdminMfa_def Let_def)
  obtain en where en: "getRecord (k_id k) (dw_totp w) = Inr en"
    using assms k by (cases "getRecord (k_id k) (dw_totp w)") (auto simp: enforceAdminMfa_def Let_def)
  have "second_factor E h rec" if rec: "en = Some rec" "truthy (tr_confirmed_at rec)" for rec
  proof (cases "extractRecovery h")
    case (Some r)
    with assms k en rec obtain n where "fst (consumeRecoveryCode (ae_host E) (ae_clock E 20) (k_id k) r (dw_totp w)) = Inr (True, n)"
      by (auto simp: enforceAdminMfa_def Let_def split: prod.splits sum.splits bool.splits)
    with Some en rec consume_True show ?thesis by (auto simp: second_factor_def)
  next
    case None
    then obtain code where c: "extractCode h = Some code"
      using assms k en rec by (cases "extractCode h") (auto simp: enforceAdminMfa_def Let_def)
    with None assms k en rec obtain s where "fst (verifyAndMark (ae_hmac1 E) (k_id k) code (ae_clock E 20) (dw_totp w)) = Inr (Verified s)"
      by (auto simp: enforceAdminMfa_def Let_def split: prod.splits sum.splits VerifyResult.splits)
    with None c en rec verify_Verified show ?thesis by (fastforce simp: second_factor_def)
  qed
  with k en show ?thesis by blast
qed

definition session_of :: "admin_env \<Rightarrow> headers \<Rightarrow> string option \<Rightarrow> admin_world \<Rightarrow> SsoSession option" where
  "session_of E h tok w = fst (verifySessionCookie (ae_sso E) (\<lambda>i. ae_clock E (4 + i))
     \<lparr>vo_skipRegistry = False, vo_liveness = Some (Some (forwarded_ip h))\<rparr> tok (dw_sso w))"

lemma read_session_Some:
  "\<lbrakk>read_session E h tok w0 = (Some s, w1); dw_sso w0 = dw_sso w\<rbrakk> \<Longrightarrow> session_of E h tok w = Some s"
  by (auto simp: read_session_def session_of_def split: if_splits prod.splits)

text \<open>C3: The gate. A management call passes only in local mode, with a verified session of an allowed domain while single sign-on
  is enabled, or with an authenticated key of admin scope; and where \<^verbatim>\<open>SIGNALCLAW_ADMIN_KEY\<close> is set, a call
  that is not a \<^verbatim>\<open>GET\<close> passes only with a key, which presents a second factor if it has confirmed one.\<close>

theorem admin_gate_sound:
  assumes "requireAdmin E h route meth w = (Inr (None, key), w')"
  defines "policy \<equiv> getSsoPolicy (dw_sso_policy w)"
  shows "(\<not> truthy (ae_admin_key E) \<and> \<not> (sp_enforce policy \<and> sp_enabled policy)
      \<or> sp_enabled policy \<and> (\<exists>tok s. readCookie E h ''sc_sso'' = Inr tok \<and> session_of E h tok w = Some s
          \<and> (sp_allowed_domains policy = [] \<or> emailDomain (ss_email s) \<in> set (sp_allowed_domains policy)))
      \<or> has_admin key \<and> fst (admin_auth E None h w) = Inr key)
    \<and> (meth \<noteq> ''GET'' \<and> truthy (ae_admin_key E) \<longrightarrow>
        (\<exists>k enrollment. key = Some k \<and> getRecord (k_id k) (dw_totp w) = Inr enrollment
          \<and> (\<forall>rec. enrollment = Some rec \<and> truthy (tr_confirmed_at rec) \<longrightarrow> second_factor E h rec)))"
proof -
  obtain d w1 where d: "decideAdmin E h w = (Inr d, w1)"
    using assms(1) by (auto simp: requireAdmin_def split: prod.splits sum.splits)
  then obtain k w0 tok s where dd: "admin_auth E None h w = (Inr k, w0)" "read_session E h tok w0 = (s, w1)"
      "d = admin_decision (ae_admin_key E) policy k s" "dw_totp w1 = dw_totp w" "readCookie E h ''sc_sso'' = Inr tok"
    unfolding policy_def by (rule decideAdmin_Inr) blast
  have a: "dc_allowed d" "dc_key d = key"
    using assms(1) d by (auto simp: requireAdmin_def Let_def split: if_splits prod.splits sum.splits)
  have k: "dc_key d = k" by (simp add: dd(3) admin_decision_def Let_def)
  have 1: "\<not> truthy (ae_admin_key E) \<and> \<not> (sp_enforce policy \<and> sp_enabled policy)
      \<or> sp_enabled policy \<and> (\<exists>tok s. readCookie E h ''sc_sso'' = Inr tok \<and> session_of E h tok w = Some s
          \<and> (sp_allowed_domains policy = [] \<or> emailDomain (ss_email s) \<in> set (sp_allowed_domains policy)))
      \<or> has_admin key \<and> fst (admin_auth E None h w) = Inr key"
    using a k dd(1,5) read_session_Some[of E h tok w0 _ w1 w] dd(2) admin_auth_frame[OF dd(1)] unfolding dd(3)
    by (auto simp: admin_decision_def Let_def split: if_splits)
  have 2: "\<exists>k enrollment. key = Some k \<and> getRecord (k_id k) (dw_totp w) = Inr enrollment
      \<and> (\<forall>rec. enrollment = Some rec \<and> truthy (tr_confirmed_at rec) \<longrightarrow> second_factor E h rec)"
    if "meth \<noteq> ''GET''" "truthy (ae_admin_key E)"
  proof -
    let ?w = "admin_audit E 6 h route meth 200 (dc_key d) (Some (admin_reason_str (dc_reason d))) w1"
    have "enforceAdminMfa E h key route meth ?w = (Inr None, w')"
      using assms(1) d a that(1) by (auto simp: requireAdmin_def Let_def split: prod.splits sum.splits)
    from enforceAdminMfa_passes[OF this that(2)] show ?thesis by (simp add: dd(4))
  qed
  from 1 2 show ?thesis by blast
qed

section \<open>Refusals are audited\<close>

lemma admin_audit_line:
  assumes "ae_io E"
  obtains ev where "readAllLines (dw_audit (admin_audit E i h route meth status key reason w)) = readAllLines (dw_audit w) @ [ev]"
    "ae_status ev = status" "ae_route ev = route"
proof -
  let ?input = "\<lparr>ai_req = Some h, ai_route = route, ai_method = meth, ai_status = status, ai_key = key, ai_reason = reason, ai_details = None\<rparr>"
  obtain ev where "readAllLines (snd (recordAuditEvent (ae_host E) (ae_clock E i) (ae_id E i) (ae_fresh E) True ?input (dw_audit w)))
      = readAllLines (dw_audit w) @ [ev]" "ae_status ev = status" "ae_route ev = route"
    by (rule recorded_line[of "ae_host E" "ae_clock E i" "ae_id E i" "ae_fresh E" ?input "dw_audit w"]) simp
  with assms show thesis by (intro that) (auto simp: admin_audit_def)
qed

text \<open>\<open>last_line status route w\<close>: the last line of the log of \<open>w\<close> records this status for this route.\<close>

definition last_line :: "int \<Rightarrow> string \<Rightarrow> admin_world \<Rightarrow> bool" where
  "last_line status route w \<longleftrightarrow> readAllLines (dw_audit w) \<noteq> []
     \<and> ae_status (last (readAllLines (dw_audit w))) = status \<and> ae_route (last (readAllLines (dw_audit w))) = route"

lemma last_line_audit: "ae_io E \<Longrightarrow> last_line status route (admin_audit E i h route meth status key reason w)"
  by (rule admin_audit_line[of E i h route meth status key reason w]) (auto simp: last_line_def)

lemma err_response_status [simp]: "rsp_status (err_response s c m) = s"
  by (simp add: err_response_def error_response_def)

lemma enforceAdminMfa_refusal:
  assumes "enforceAdminMfa E h key route meth w = (Inr (Some r), w')" "ae_io E"
  shows "rsp_status r = 401 \<and> last_line 401 route w'"
  using assms last_line_audit[OF assms(2)]
  by (auto simp: enforceAdminMfa_def Let_def split: if_splits option.splits prod.splits sum.splits bool.splits VerifyResult.splits)

text \<open>Every refusal of the gate is a 403 of the first check or a 401 of the second factor, and is the last line of the
  audit log, with its status.\<close>

theorem admin_refusals_audited:
  assumes "requireAdmin E h route meth w = (Inr (Some r, key), w')" "ae_io E"
  shows "rsp_status r \<in> {401, 403} \<and> last_line (rsp_status r) route w'"
proof -
  obtain d w1 where d: "decideAdmin E h w = (Inr d, w1)"
    using assms(1) by (auto simp: requireAdmin_def split: prod.splits sum.splits)
  show ?thesis
  proof (cases "dc_allowed d")
    case True
    then obtain k w2 where "enforceAdminMfa E h k route meth w2 = (Inr (Some r), w')"
      using assms(1) d by (auto simp: requireAdmin_def Let_def split: if_splits prod.splits sum.splits)
    from enforceAdminMfa_refusal[OF this assms(2)] show ?thesis by simp
  next
    case False
    with assms(1) d last_line_audit[OF assms(2)] show ?thesis by (auto simp: requireAdmin_def)
  qed
qed

section \<open>Two consequences of the code as it is\<close>

lemma no_secret_no_key:
  assumes "extractKey h = []"
  shows "fst (admin_auth E None h w) = Inr None"
  using assms by (auto simp: admin_auth_def authenticate_def authenticateWithStatus_def Let_def split: prod.splits)

text \<open>A browser session alone cannot change anything: where \<^verbatim>\<open>SIGNALCLAW_ADMIN_KEY\<close> is set, a call without an API key
  never passes the gate unless it is a \<^verbatim>\<open>GET\<close>, whatever session it carries.\<close>

theorem session_alone_cannot_mutate:
  assumes "extractKey h = []" "truthy (ae_admin_key E)" "meth \<noteq> ''GET''"
  shows "fst (requireAdmin E h route meth w) \<noteq> Inr (None, key)"
proof
  assume "fst (requireAdmin E h route meth w) = Inr (None, key)"
  then obtain w' where r: "requireAdmin E h route meth w = (Inr (None, key), w')" by (cases "requireAdmin E h route meth w") auto
  obtain d w1 where d: "decideAdmin E h w = (Inr d, w1)"
    using r by (auto simp: requireAdmin_def split: prod.splits sum.splits)
  then obtain k w0 tok s where dd: "admin_auth E None h w = (Inr k, w0)"
      "d = admin_decision (ae_admin_key E) (getSsoPolicy (dw_sso_policy w)) k s"
    by (rule decideAdmin_Inr) blast
  have "dc_key d = None" using no_secret_no_key[OF assms(1), of E w] dd by (auto simp: admin_decision_def Let_def)
  then have "enforceAdminMfa E h None route meth
      (admin_audit E 6 h route meth 200 None (Some (admin_reason_str (dc_reason d))) w1) = (Inr None, w')"
    using r d assms(3) by (auto simp: requireAdmin_def Let_def split: if_splits prod.splits sum.splits)
  with enforceAdminMfa_passes assms(2) show False by blast
qed

text \<open>C37: An enrollment needs no second factor, and drops the old one: whoever holds the secret of an admin key, enrolled and confirmed or not,
  calls the enrollment route once, and from then on the second-factor check lets the key pass without any code.\<close>

theorem reenrollment_drops_second_factor:
  assumes "admin_auth E (Some h) h w = (Inr (Some k), w0)" "S_admin \<in> set (k_scopes k)" "totp_readStore (dw_totp w) = Inr rs"
  shows "fst (enforceAdminMfa E' h' (Some k) route meth (snd (mfa_enroll_POST rnd body E h w))) = Inr None"
proof -
  have w0: "dw_totp w0 = dw_totp w" using admin_auth_frame[OF assms(1)] by simp
  obtain en f where s: "startEnrollment rnd (ae_clock E 20) (k_id k) (enroll_label body (Some k)) (dw_totp w) = (Inr en, f)"
    using assms(3) by (cases "startEnrollment rnd (ae_clock E 20) (k_id k) (enroll_label body (Some k)) (dw_totp w)")
      (auto simp: startEnrollment_def Let_def)
  then obtain rec where rec: "getRecord (k_id k) f = Inr (Some rec)" "tr_confirmed_at rec = None"
    by (rule startEnrollment_stored) (auto simp: getRecord_def totp_readStore_def new_enrollment_def)
  have "dw_totp (snd (mfa_enroll_POST rnd body E h w)) = f"
    using assms(1,2) s w0 by (simp add: mfa_enroll_POST_def mfa_admin_def has_admin_def keyIdFor_def)
  with rec show ?thesis by (simp add: enforceAdminMfa_def Let_def)
qed

section \<open>Examples\<close>

text \<open>An installation with the admin secret \<^verbatim>\<open>adm\<close> in the environment, whose admin has confirmed a second factor.\<close>

definition sample_env :: admin_env where
  "sample_env = \<lparr>ae_host = sample_host, ae_hmac1 = toy_hmac, ae_admin_key = Some ''adm'', ae_require_mfa = None, ae_sso = sample_sso,
     ae_decodeURI = Some, ae_clock = (\<lambda>_. 150000), ae_id = (\<lambda>_. ''id''), ae_fresh = replicate 32 (CHR ''k''), ae_io = True\<rparr>"

definition sample_admin_world :: admin_world where
  "sample_admin_world = \<lparr>dw_auth = \<lparr>aw_keys = NoFile, aw_lock = sample_lockout\<rparr>, dw_sso = sample_sso_world, dw_sso_policy = NoFile,
     dw_totp = Stored [(new_enrollment ''env-admin'' toy_secret 0)\<lparr>tr_confirmed_at := Some ''t''\<rparr>], dw_audit = au_new (replicate 32 (CHR ''k''))\<rparr>"

definition mfa_headers :: "string option \<Rightarrow> headers" where
  "mfa_headers code n = (if n = ''x-api-key'' then Some ''adm'' else if n = ''x-mfa-code'' then code else None)"

abbreviation sample_enrolled :: TotpRecord where
  "sample_enrolled \<equiv> (new_enrollment ''env-admin'' toy_secret 0)\<lparr>tr_confirmed_at := Some ''t''\<rparr>"

lemma sample_gate:
  "fst (requireAdmin sample_env (mfa_headers (Some ''000005'')) ''/api/admin/freeze'' ''POST'' sample_admin_world)
   = Inr (None, Some (env_admin_key sample_host 150000 ''adm''))"
  by code_simp

theorem admin_gate_sound_witness:
  "second_factor sample_env (mfa_headers (Some ''000005'')) sample_enrolled"
proof -
  let ?r = "requireAdmin sample_env (mfa_headers (Some ''000005'')) ''/api/admin/freeze'' ''POST'' sample_admin_world"
  have r: "?r = (Inr (None, Some (env_admin_key sample_host 150000 ''adm'')), snd ?r)"
    using sample_gate by (cases ?r) simp
  have "truthy (ae_admin_key sample_env)"
    "getRecord (k_id (env_admin_key sample_host 150000 ''adm'')) (dw_totp sample_admin_world) = Inr (Some sample_enrolled)"
    by (simp_all add: sample_env_def env_admin_key_def sample_admin_world_def getRecord_def totp_readStore_def)
  with admin_gate_sound[OF r] show ?thesis by auto
qed

theorem admin_refusals_audited_witness:
  "last_line 401 ''/api/admin/freeze''
     (snd (requireAdmin sample_env (mfa_headers None) ''/api/admin/freeze'' ''POST'' sample_admin_world))"
proof -
  let ?r = "requireAdmin sample_env (mfa_headers None) ''/api/admin/freeze'' ''POST'' sample_admin_world"
  have "fst ?r = Inr (Some (err_response 401 ''mfa_required'' ''X-MFA-Code header required''), Some (env_admin_key sample_host 150000 ''adm''))"
    by code_simp
  then have r: "?r = (Inr (Some (err_response 401 ''mfa_required'' ''X-MFA-Code header required''), Some (env_admin_key sample_host 150000 ''adm'')), snd ?r)"
    by (cases ?r) simp
  from admin_refusals_audited[OF r] show ?thesis by (simp add: sample_env_def)
qed

theorem session_alone_cannot_mutate_witness:
  "fst (requireAdmin sample_env (\<lambda>n. if n = ''cookie'' then Some ''sc_sso=abc'' else None) ''/api/admin/freeze'' ''POST'' sample_admin_world)
   \<noteq> Inr (None, None)"
  by (rule session_alone_cannot_mutate) (simp_all add: extractKey_def or_empty_def sample_env_def)

theorem reenrollment_drops_second_factor_witness:
  "fst (enforceAdminMfa sample_env (mfa_headers None) (Some (env_admin_key sample_host 150000 ''adm'')) ''/api/admin/freeze'' ''POST''
     (snd (mfa_enroll_POST [7] None sample_env (mfa_headers None) sample_admin_world))) = Inr None"
proof -
  let ?a = "admin_auth sample_env (Some (mfa_headers None)) (mfa_headers None) sample_admin_world"
  have "fst ?a = Inr (Some (env_admin_key sample_host 150000 ''adm''))" by code_simp
  then have a: "?a = (Inr (Some (env_admin_key sample_host 150000 ''adm'')), snd ?a)" by (cases ?a) simp
  show ?thesis
    by (rule reenrollment_drops_second_factor[OF a])
       (simp_all add: env_admin_key_def sample_admin_world_def totp_readStore_def)
qed

end
