(* ===== verification/AdminRoute.thy ===== *)
theory AdminRoute
  imports AdminGuard
begin

text \<open>
  The gate that the routes below \<^verbatim>\<open>src/web/app/api/admin\<close> carry each in a copy of their own (\<^verbatim>\<open>keys/route.ts\<close> and its
  neighbours, \<^verbatim>\<open>scim/route.ts\<close>): authentication with the request, the admin scope where \<^verbatim>\<open>SIGNALCLAW_ADMIN_KEY\<close> is set, an audit line, and the second factor.
  Unlike the shared gate of \<^verbatim>\<open>AdminGuard\<close> it knows no sign-on sessions, and the lockout applies to it.

  The lemmas: what a passed gate implies, what it leaves unchanged, and that it answers with a refusal of its own or lets the call through.
\<close>

section \<open>The gate\<close>

definition route_admin :: "admin_env \<Rightarrow> headers \<Rightarrow> string \<Rightarrow> string \<Rightarrow> admin_world \<Rightarrow> NextResponse option res \<times> admin_world" where
  "route_admin E h route meth w =
     (case admin_auth E (Some h) h w of
        (Inl e, w) \<Rightarrow> (Inl e, w)
      | (Inr k, w) \<Rightarrow>
          if \<not> truthy (ae_admin_key E) then (Inr None, admin_audit E 6 h route meth 200 k (Some ''local-mode'') w)
          else if \<not> has_admin k
          then (Inr (Some forbidden_response), admin_audit E 6 h route meth 403 k (Some ''forbidden:admin-required'') w)
          else (let w = admin_audit E 6 h route meth 200 k None w in
            if meth = ''GET'' then (Inr None, w) else enforceAdminMfa E h k route meth w))"

text \<open>A later part of the same call reads the clock again and draws fresh ids.\<close>

definition later :: "nat \<Rightarrow> admin_env \<Rightarrow> admin_env" where
  "later n E = E\<lparr>ae_clock := (\<lambda>i. ae_clock E (n + i)), ae_id := (\<lambda>i. ae_id E (n + i))\<rparr>"

text \<open>An audit line of a handler, with its details.\<close>

definition admin_note ::
  "admin_env \<Rightarrow> headers \<Rightarrow> string \<Rightarrow> string \<Rightarrow> int \<Rightarrow> StoredKey option \<Rightarrow> string option \<Rightarrow> json option \<Rightarrow> admin_world \<Rightarrow> admin_world" where
  "admin_note E h route meth status key reason details w =
     w\<lparr>dw_audit := snd (recordAuditEvent (ae_host E) (ae_clock E 6) (ae_id E 6) (ae_fresh E) (ae_io E)
         \<lparr>ai_req = Some h, ai_route = route, ai_method = meth, ai_status = status, ai_key = key, ai_reason = reason, ai_details = details\<rparr>
         (dw_audit w))\<rparr>"

section \<open>What it does\<close>

lemma later_simps [simp]:
  "ae_host (later n E) = ae_host E" "ae_admin_key (later n E) = ae_admin_key E" "ae_hmac1 (later n E) = ae_hmac1 E" "ae_io (later n E) = ae_io E"
  "ae_fresh (later n E) = ae_fresh E" "ae_clock (later n E) i = ae_clock E (n + i)"
  by (simp_all add: later_def)

lemma admin_note_frame [simp]:
  "dw_auth (admin_note E h r m s k x d w) = dw_auth w" "dw_sso (admin_note E h r m s k x d w) = dw_sso w"
  "dw_sso_policy (admin_note E h r m s k x d w) = dw_sso_policy w" "dw_totp (admin_note E h r m s k x d w) = dw_totp w"
  by (simp_all add: admin_note_def)

lemma admin_note_line: "ae_io E \<Longrightarrow> last_line status route (admin_note E h route meth status key reason details w)"
proof -
  let ?input = "\<lparr>ai_req = Some h, ai_route = route, ai_method = meth, ai_status = status, ai_key = key, ai_reason = reason, ai_details = details\<rparr>"
  assume io: "ae_io E"
  obtain ev where "readAllLines (snd (recordAuditEvent (ae_host E) (ae_clock E 6) (ae_id E 6) (ae_fresh E) True ?input (dw_audit w)))
      = readAllLines (dw_audit w) @ [ev]" "ae_status ev = status" "ae_route ev = route"
    by (rule recorded_line[of "ae_host E" "ae_clock E 6" "ae_id E 6" "ae_fresh E" ?input "dw_audit w"]) simp
  with io show ?thesis by (auto simp: last_line_def admin_note_def)
qed

lemma enforceAdminMfa_keys [simp]: "dw_auth (snd (enforceAdminMfa E h key route meth w)) = dw_auth w"
  by (auto simp: enforceAdminMfa_def Let_def split: if_splits option.splits prod.splits sum.splits bool.splits VerifyResult.splits)

lemma route_admin_keys: "dw_auth (snd (route_admin E h route meth w)) = dw_auth (snd (admin_auth E (Some h) h w))"
  by (auto simp: route_admin_def Let_def split: prod.splits sum.splits)

text \<open>A call that passes where the admin secret is configured was made by an authenticated key of admin scope, which presented its second factor
  if it has one and the call is not a \<^verbatim>\<open>GET\<close>.\<close>

lemma route_admin_passes:
  assumes "route_admin E h route meth w = (Inr None, w')" "truthy (ae_admin_key E)"
  obtains k where "fst (admin_auth E (Some h) h w) = Inr (Some k)" "S_admin \<in> set (k_scopes k)"
    "meth \<noteq> ''GET'' \<Longrightarrow> \<exists>enrollment. getRecord (k_id k) (dw_totp w) = Inr enrollment
      \<and> (\<forall>rec. enrollment = Some rec \<and> truthy (tr_confirmed_at rec) \<longrightarrow> second_factor E h rec)"
proof -
  obtain k0 w1 where a: "admin_auth E (Some h) h w = (Inr k0, w1)"
    using assms(1) by (auto simp: route_admin_def split: prod.splits sum.splits)
  with assms obtain k where k: "k0 = Some k" "S_admin \<in> set (k_scopes k)"
    by (auto simp: route_admin_def has_admin_def split: if_splits option.splits)
  let ?w = "admin_audit E 6 h route meth 200 k0 None w1"
  have "\<exists>enrollment. getRecord (k_id k) (dw_totp w) = Inr enrollment
      \<and> (\<forall>rec. enrollment = Some rec \<and> truthy (tr_confirmed_at rec) \<longrightarrow> second_factor E h rec)" if "meth \<noteq> ''GET''"
  proof -
    have "enforceAdminMfa E h k0 route meth ?w = (Inr None, w')"
      using assms a k that by (auto simp: route_admin_def Let_def has_admin_def)
    from enforceAdminMfa_passes[OF this assms(2)] show ?thesis using k admin_auth_frame[OF a] by auto
  qed
  with a k show thesis by (intro that) auto
qed

end
