(* ===== verification/DualControl.thy ===== *)
theory DualControl
  imports JsonStore "HOL-Library.Word"
begin

unbundle bit_operations_syntax

text \<open>
  Maker/checker approvals of destructive admin actions
  (\<^verbatim>\<open>src/web/lib/dualControlStore.ts\<close>): the request rows, the sweep that expires them, the
  five operations on them and the token hash. The clock of a call is a \<^typ>\<open>clock\<close>: reading
  0 is \<^verbatim>\<open>loadState\<close>'s \<^verbatim>\<open>Date.now()\<close>, 1 the sweep's, 2 the operation's own, 3 the one of
  \<^verbatim>\<open>consumed_at\<close> or \<^verbatim>\<open>writeState\<close>, 4 \<^verbatim>\<open>writeState\<close>'s after it. Identifiers and tokens come
  from \<^verbatim>\<open>randomBytes\<close> and are arguments.

  The theorems: a run from an empty store keeps segregation of duties (an approver is
  never the requester), a token is redeemed only for the action, target and requester it
  was minted for, no run redeems more often than it approves, closed requests stay closed,
  and, for calls that interleave at an \<^verbatim>\<open>await\<close>, that one token can be redeemed twice.
\<close>

section \<open>Data\<close>

definition TTL_MS :: int where "TTL_MS = 30 * 60 * 1000"

definition APPROVAL_TTL_MS :: int where "APPROVAL_TTL_MS = 10 * 60 * 1000"

definition MAX_REASON_LEN :: nat where "MAX_REASON_LEN = 500"

definition DC_CACHE_TTL_MS :: int where "DC_CACHE_TTL_MS = 250"

datatype ApprovalStatus = Pending | Approved | Consumed | Cancelled | Expired

fun status_str :: "ApprovalStatus \<Rightarrow> string" where
  "status_str Pending = ''pending''"
| "status_str Approved = ''approved''"
| "status_str Consumed = ''consumed''"
| "status_str Cancelled = ''cancelled''"
| "status_str Expired = ''expired''"

record ApprovalRequest =
  ar_id :: string
  ar_action :: string
  ar_target :: string
  ar_reason :: string
  ar_requested_by :: string
  ar_requested_at :: string
  ar_expires_at :: string
  ar_status :: ApprovalStatus
  ar_approved_by :: "string option"
  ar_approved_at :: "string option"
  ar_token_hash :: "string option"
  ar_token_expires_at :: "string option"
  ar_consumed_at :: "string option"
  ar_cancelled_at :: "string option"
  ar_cancelled_by :: "string option"

type_synonym dc_state = "ApprovalRequest list"

type_synonym dc_store = "dc_state cstore"

section \<open>Persistence\<close>

text \<open>
  A row is kept when its \<^verbatim>\<open>id\<close> is a string. The other fields are not checked by the code; a
  row of the store's own writing has them all. The decoder reads a status that is not one of
  the five as \<open>Expired\<close>, which, like an unknown string in the code, no operation acts on.
\<close>

definition dec_status :: "string \<Rightarrow> ApprovalStatus" where
  "dec_status s =
     (if s = ''pending'' then Pending else if s = ''approved'' then Approved
      else if s = ''consumed'' then Consumed else if s = ''cancelled'' then Cancelled else Expired)"

definition dec_request :: "json \<Rightarrow> ApprovalRequest option" where
  "dec_request j =
     (let str = (\<lambda>k. or_empty (str_or_null (jfield j k)));
          nul = (\<lambda>k. str_or_null (jfield j k))
      in map_option (\<lambda>i.
        \<lparr>ar_id = i, ar_action = str ''action'', ar_target = str ''target'', ar_reason = str ''reason'',
         ar_requested_by = str ''requested_by'', ar_requested_at = str ''requested_at'',
         ar_expires_at = str ''expires_at'', ar_status = dec_status (str ''status''),
         ar_approved_by = nul ''approved_by'', ar_approved_at = nul ''approved_at'',
         ar_token_hash = nul ''approval_token_hash'',
         ar_token_expires_at = nul ''approval_token_expires_at'',
         ar_consumed_at = nul ''consumed_at'', ar_cancelled_at = nul ''cancelled_at'',
         ar_cancelled_by = nul ''cancelled_by''\<rparr>)
      (nul ''id''))"

definition enc_request :: "ApprovalRequest \<Rightarrow> json" where
  "enc_request r = JObj
     [(''id'', JStr (ar_id r)), (''action'', JStr (ar_action r)), (''target'', JStr (ar_target r)),
      (''reason'', JStr (ar_reason r)), (''requested_by'', JStr (ar_requested_by r)),
      (''requested_at'', JStr (ar_requested_at r)), (''expires_at'', JStr (ar_expires_at r)),
      (''status'', JStr (status_str (ar_status r))), (''approved_by'', jnullable (ar_approved_by r)),
      (''approved_at'', jnullable (ar_approved_at r)),
      (''approval_token_hash'', jnullable (ar_token_hash r)),
      (''approval_token_expires_at'', jnullable (ar_token_expires_at r)),
      (''consumed_at'', jnullable (ar_consumed_at r)), (''cancelled_at'', jnullable (ar_cancelled_at r)),
      (''cancelled_by'', jnullable (ar_cancelled_by r))]"

definition dec_dc_state :: "json \<Rightarrow> dc_state" where
  "dec_dc_state j =
     (case as_array (jfield j ''requests'') of
        None \<Rightarrow> [] | Some rows \<Rightarrow> List.map_filter dec_request rows)"

definition enc_dc_state :: "dc_state \<Rightarrow> json" where
  "enc_dc_state s = JObj [(''requests'', JArr (map enc_request s))]"

definition dc_readFromDisk :: "json_file \<Rightarrow> dc_state res" where
  "dc_readFromDisk = read_json [] dec_dc_state"

definition dc_loadState :: "int \<Rightarrow> dc_store \<Rightarrow> dc_state res \<times> dc_store" where
  "dc_loadState = ttl_load DC_CACHE_TTL_MS dc_readFromDisk"

definition dc_writeState :: "int \<Rightarrow> dc_state \<Rightarrow> dc_store \<Rightarrow> dc_store" where
  "dc_writeState = ttl_write enc_dc_state"

section \<open>The token hash\<close>

text \<open>
  \<^verbatim>\<open>Math.imul\<close>, \<^verbatim>\<open>^\<close> and \<^verbatim>\<open>>>>\<close> work on 32-bit integers: words, with multiplication wrapping.
\<close>

definition hash_step :: "(32 word \<times> 32 word) \<Rightarrow> char \<Rightarrow> 32 word \<times> 32 word" where
  "hash_step = (\<lambda>(h1, h2) c.
     (let ch = word_of_int (of_char c) in ((h1 XOR ch) * 2654435761, (h2 XOR ch) * 1597334677)))"

definition hashToken :: "string \<Rightarrow> string" where
  "hashToken tok =
     (let n = word_of_int (int (length tok));
          (h1, h2) = foldl hash_step (0xdeadbeef XOR n, 0x41c6ce57 XOR n) tok;
          h1' = ((h1 XOR drop_bit 16 h1) * 2246822507) XOR ((h2 XOR drop_bit 13 h2) * 3266489909);
          h2' = ((h2 XOR drop_bit 16 h2) * 2246822507) XOR ((h1' XOR drop_bit 13 h1') * 3266489909)
      in fixed_digits 16 8 (uint h2') @ fixed_digits 16 8 (uint h1'))"

section \<open>The sweep\<close>

definition sweep_row :: "host \<Rightarrow> int \<Rightarrow> ApprovalRequest \<Rightarrow> ApprovalRequest" where
  "sweep_row H now r =
     (if ar_status r = Pending \<and> date_le H (ar_expires_at r) now then r\<lparr>ar_status := Expired\<rparr>
      else if ar_status r = Approved \<and> truthy (ar_token_expires_at r)
           \<and> date_le H (or_empty (ar_token_expires_at r)) now
      then r\<lparr>ar_status := Expired, ar_token_hash := None\<rparr>
      else r)"

definition expireSweep :: "host \<Rightarrow> int \<Rightarrow> dc_state \<Rightarrow> dc_state" where
  "expireSweep H now s = map (sweep_row H now) s"

section \<open>Operations\<close>

definition action_ident :: "string \<Rightarrow> bool" where
  "action_ident s \<longleftrightarrow> s \<noteq> [] \<and> is_lower (hd s)
     \<and> list_all (\<lambda>c. is_lower c \<or> is_digit c \<or> c = CHR ''_'') (tl s)"

text \<open>\<^verbatim>\<open>/^[a-z][a-z0-9_]*\.[a-z][a-z0-9_]*$/\<close>\<close>

definition ACTION_RE :: "string \<Rightarrow> bool" where
  "ACTION_RE s = (case split_on (CHR ''.'') s of [a, b] \<Rightarrow> action_ident a \<and> action_ident b | _ \<Rightarrow> False)"

record RequestInput =
  ri_action :: string
  ri_target :: string
  ri_reason :: string
  ri_requested_by :: string

datatype RequestError = Bad_action | Bad_target | Bad_reason | Bad_requester

definition new_request :: "int \<Rightarrow> string \<Rightarrow> RequestInput \<Rightarrow> ApprovalRequest" where
  "new_request now rid input =
     \<lparr>ar_id = rid, ar_action = ri_action input, ar_target = ri_target input,
      ar_reason = trim (ri_reason input), ar_requested_by = ri_requested_by input,
      ar_requested_at = toISOString now, ar_expires_at = toISOString (now + TTL_MS),
      ar_status = Pending, ar_approved_by = None, ar_approved_at = None, ar_token_hash = None,
      ar_token_expires_at = None, ar_consumed_at = None, ar_cancelled_at = None,
      ar_cancelled_by = None\<rparr>"

definition check_request :: "RequestInput \<Rightarrow> RequestError option" where
  "check_request input =
     (if \<not> ACTION_RE (ri_action input) then Some Bad_action
      else if ri_target input = [] \<or> 200 < length (ri_target input) then Some Bad_target
      else if trim (ri_reason input) = [] then Some Bad_reason
      else if MAX_REASON_LEN < length (trim (ri_reason input)) then Some Bad_reason
      else if ri_requested_by input = [] then Some Bad_requester
      else None)"

definition is_duplicate :: "RequestInput \<Rightarrow> ApprovalRequest \<Rightarrow> bool" where
  "is_duplicate input r \<longleftrightarrow> ar_status r = Pending \<and> ar_action r = ri_action input
     \<and> ar_target r = ri_target input \<and> ar_requested_by r = ri_requested_by input"

definition requestApproval ::
  "host \<Rightarrow> clock \<Rightarrow> string \<Rightarrow> RequestInput \<Rightarrow> dc_store \<Rightarrow> (RequestError + ApprovalRequest) res \<times> dc_store"
where
  "requestApproval H c rid input st =
     (case check_request input of
        Some e \<Rightarrow> (Inr (Inl e), st)
      | None \<Rightarrow> with_load (dc_loadState (c 0)) (\<lambda>s0 st.
          let s = expireSweep H (c 1) s0 in
          case find (is_duplicate input) s of
            Some dup \<Rightarrow> (Inr dup, st)
          | None \<Rightarrow>
              (let req = new_request (c 2) rid input
               in (Inr req, dc_writeState (c 3) (s @ [req]) st))) st)"

datatype ApproveError = A_not_found | A_not_pending | A_expired | A_self_approval | A_bad_approver

definition mark_approved :: "int \<Rightarrow> string \<Rightarrow> string \<Rightarrow> ApprovalRequest \<Rightarrow> ApprovalRequest" where
  "mark_approved now approver token r =
     r\<lparr>ar_status := Approved, ar_approved_by := Some approver,
       ar_approved_at := Some (toISOString now), ar_token_hash := Some (hashToken token),
       ar_token_expires_at := Some (toISOString (now + APPROVAL_TTL_MS))\<rparr>"

definition approveRequest ::
  "host \<Rightarrow> clock \<Rightarrow> string \<Rightarrow> string \<Rightarrow> string \<Rightarrow> dc_store
   \<Rightarrow> (ApproveError + ApprovalRequest \<times> string) res \<times> dc_store"
where
  "approveRequest H c token rid approver st =
     (if approver = [] then (Inr (Inl A_bad_approver), st)
      else with_load (dc_loadState (c 0)) (\<lambda>s0 st.
        let s = expireSweep H (c 1) s0; P = (\<lambda>x. ar_id x = rid); f = mark_approved (c 2) approver token in
        case find P s of
          None \<Rightarrow> (Inl A_not_found, st)
        | Some r \<Rightarrow>
            if ar_status r = Expired then (Inl A_expired, st)
            else if ar_status r \<noteq> Pending then (Inl A_not_pending, st)
            else if ar_requested_by r = approver then (Inl A_self_approval, st)
            else (Inr (f r, token), dc_writeState (c 3) (upd_first P f s) st)) st)"

datatype CancelError = X_not_found | X_not_cancellable

definition mark_cancelled :: "int \<Rightarrow> string \<Rightarrow> ApprovalRequest \<Rightarrow> ApprovalRequest" where
  "mark_cancelled now actor r =
     r\<lparr>ar_status := Cancelled, ar_cancelled_at := Some (toISOString now),
       ar_cancelled_by := or_null actor, ar_token_hash := None\<rparr>"

definition cancelRequest ::
  "host \<Rightarrow> clock \<Rightarrow> string \<Rightarrow> string \<Rightarrow> dc_store \<Rightarrow> (CancelError + ApprovalRequest) res \<times> dc_store"
where
  "cancelRequest H c rid actor st = with_load (dc_loadState (c 0)) (\<lambda>s0 st.
     let s = expireSweep H (c 1) s0; P = (\<lambda>x. ar_id x = rid); f = mark_cancelled (c 2) actor in
     case find P s of
       None \<Rightarrow> (Inl X_not_found, st)
     | Some r \<Rightarrow>
         if ar_status r \<noteq> Pending \<and> ar_status r \<noteq> Approved then (Inl X_not_cancellable, st)
         else (Inr (f r), dc_writeState (c 3) (upd_first P f s) st)) st"

record ConsumeInput =
  ci_action :: string
  ci_target :: string
  ci_token :: string
  ci_caller :: string

datatype ConsumeError =
    C_missing_token | C_bad_token | C_not_approved | C_expired
  | C_action_mismatch | C_target_mismatch | C_wrong_caller

definition mark_consumed :: "int \<Rightarrow> ApprovalRequest \<Rightarrow> ApprovalRequest" where
  "mark_consumed now r =
     r\<lparr>ar_status := Consumed, ar_consumed_at := Some (toISOString now), ar_token_hash := None\<rparr>"

definition mark_token_expired :: "ApprovalRequest \<Rightarrow> ApprovalRequest" where
  "mark_token_expired r = r\<lparr>ar_status := Expired, ar_token_hash := None\<rparr>"

text \<open>
  \<open>consume_decide\<close> is the part of \<^verbatim>\<open>consumeApproval\<close> after \<^verbatim>\<open>await loadState()\<close>, up to the write: the
  loaded snapshot goes in, the outcome and the state to write (if any) come out.
\<close>

definition consume_decide ::
  "host \<Rightarrow> clock \<Rightarrow> ConsumeInput \<Rightarrow> dc_state \<Rightarrow> (ConsumeError + ApprovalRequest) \<times> dc_state option"
where
  "consume_decide H c input s0 =
     (let s = expireSweep H (c 1) s0;
          P = (\<lambda>x. ar_token_hash x = Some (hashToken (ci_token input))) in
      case find P s of
        None \<Rightarrow> (Inl C_bad_token, None)
      | Some r \<Rightarrow>
          if ar_status r \<noteq> Approved then (Inl C_not_approved, None)
          else if \<not> truthy (ar_token_expires_at r)
                  \<or> date_le H (or_empty (ar_token_expires_at r)) (c 2)
          then (Inl C_expired, Some (upd_first P mark_token_expired s))
          else if ar_action r \<noteq> ci_action input then (Inl C_action_mismatch, None)
          else if ar_target r \<noteq> ci_target input then (Inl C_target_mismatch, None)
          else if ar_requested_by r \<noteq> ci_caller input then (Inl C_wrong_caller, None)
          else (Inr (mark_consumed (c 3) r), Some (upd_first P (mark_consumed (c 3)) s)))"

definition consume_commit ::
  "clock \<Rightarrow> 'r \<times> dc_state option \<Rightarrow> dc_store \<Rightarrow> 'r \<times> dc_store" where
  "consume_commit c o1 st =
     (fst o1, case snd o1 of None \<Rightarrow> st | Some s \<Rightarrow> dc_writeState (c 4) s st)"

definition consumeApproval ::
  "host \<Rightarrow> clock \<Rightarrow> ConsumeInput \<Rightarrow> dc_store \<Rightarrow> (ConsumeError + ApprovalRequest) res \<times> dc_store"
where
  "consumeApproval H c input st =
     (if ci_token input = [] then (Inr (Inl C_missing_token), st)
      else with_load (dc_loadState (c 0)) (\<lambda>s0. consume_commit c (consume_decide H c input s0)) st)"

definition listRequests ::
  "host \<Rightarrow> clock \<Rightarrow> ApprovalStatus option \<Rightarrow> dc_store \<Rightarrow> ApprovalRequest list res \<times> dc_store" where
  "listRequests H c status = with_load (dc_loadState (c 0)) (\<lambda>s0 st.
     let s = expireSweep H (c 1) s0; rows = sort_desc ar_requested_at s
     in (case status of None \<Rightarrow> rows | Some x \<Rightarrow> filter (\<lambda>r. ar_status r = x) rows,
         dc_writeState (c 2) s st))"

definition getRequest ::
  "host \<Rightarrow> clock \<Rightarrow> string \<Rightarrow> dc_store \<Rightarrow> ApprovalRequest option res \<times> dc_store" where
  "getRequest H c rid = with_load (dc_loadState (c 0)) (\<lambda>s0 st.
     (find (\<lambda>x. ar_id x = rid) (expireSweep H (c 1) s0), st))"

text \<open>\<^verbatim>\<open>publicView\<close> drops the token hash from a row before it is sent.\<close>

definition publicView :: "ApprovalRequest \<Rightarrow> (string \<times> json) list" where
  "publicView r = (case enc_request r of
     JObj kvs \<Rightarrow> filter (\<lambda>(k, v). k \<noteq> ''approval_token_hash'') kvs | _ \<Rightarrow> [])"

section \<open>The file round trip\<close>

lemma dec_status_str [simp]: "dec_status (status_str x) = x"
  by (cases x) (simp_all add: dec_status_def)

lemma dec_enc_request [simp]: "dec_request (enc_request r) = Some r"
  by (simp add: dec_request_def enc_request_def or_empty_def)

lemma dec_enc_dc_state: "dec_dc_state (enc_dc_state s) = s"
  by (simp add: dec_dc_state_def enc_dc_state_def)

interpretation dc: json_codec dec_dc_state enc_dc_state "[]" "\<lambda>_. True"
  by unfold_locales (simp_all add: dec_enc_dc_state)

abbreviation dc_ready :: "dc_store \<Rightarrow> bool" where
  "dc_ready \<equiv> ready dc_readFromDisk"

abbreviation dc_rows :: "dc_store \<Rightarrow> dc_state" where
  "dc_rows \<equiv> contents dc_readFromDisk"

lemma dc_write [simp]:
  "dc_ready (dc_writeState now s st)" "dc_rows (dc_writeState now s st) = s"
  unfolding dc_writeState_def dc_readFromDisk_def by (simp_all add: dc.write_ready)

lemma dc_load [simp]:
  assumes "dc_ready st"
  shows "dc_ready (snd (dc_loadState now st))" "dc_rows (snd (dc_loadState now st)) = dc_rows st"
    "with_load (dc_loadState now) k st
      = (case k (dc_rows st) (snd (dc_loadState now st)) of (a, m) \<Rightarrow> (Inr a, m))"
  using assms unfolding dc_loadState_def by (simp_all add: ready_load)

section \<open>The abstract machine\<close>

text \<open>
  What maker/checker control promises, without clocks, tokens or files: a matter is open,
  then granted by somebody other than its maker, then done; or it closes. One operation
  lets some matters lapse and then takes at most one labelled step.
\<close>

datatype phase = Open | Granted string | Done string | Closed

record matter =
  m_action :: string
  m_target :: string
  m_maker :: string
  m_phase :: phase

datatype mc_label = Tau | File | Grant | Redeem string string string | Withdraw

definition lapses :: "matter \<Rightarrow> matter \<Rightarrow> bool" where
  "lapses m m' \<longleftrightarrow> m' = m
     \<or> ((m_phase m = Open \<or> (\<exists>a. m_phase m = Granted a)) \<and> m' = m\<lparr>m_phase := Closed\<rparr>)"

inductive mc_step :: "mc_label \<Rightarrow> matter list \<Rightarrow> matter list \<Rightarrow> bool" where
  lapse: "list_all2 lapses s s' \<Longrightarrow> mc_step Tau s s'"
| filed: "m_phase m = Open \<Longrightarrow> mc_step File s (s @ [m])"
| grant: "\<lbrakk>i < length s; m_phase (s ! i) = Open; a \<noteq> m_maker (s ! i)\<rbrakk>
    \<Longrightarrow> mc_step Grant s (s[i := (s ! i)\<lparr>m_phase := Granted a\<rparr>])"
| redeem: "\<lbrakk>i < length s; m_phase (s ! i) = Granted a\<rbrakk>
    \<Longrightarrow> mc_step (Redeem (m_action (s ! i)) (m_target (s ! i)) (m_maker (s ! i)))
          s (s[i := (s ! i)\<lparr>m_phase := Done a\<rparr>])"
| withdraw: "\<lbrakk>i < length s; m_phase (s ! i) = Open \<or> m_phase (s ! i) = Granted a\<rbrakk>
    \<Longrightarrow> mc_step Withdraw s (s[i := (s ! i)\<lparr>m_phase := Closed\<rparr>])"

inductive_cases mc_stepE: "mc_step l s s'"

definition mc_op :: "mc_label \<Rightarrow> matter list \<Rightarrow> matter list \<Rightarrow> bool" where
  "mc_op l s s' \<longleftrightarrow> (\<exists>t. mc_step Tau s t \<and> mc_step l t s')"

inductive mc_run :: "mc_label list \<Rightarrow> matter list \<Rightarrow> matter list \<Rightarrow> bool" where
  mc_Nil: "mc_run [] s s"
| mc_snoc: "\<lbrakk>mc_run ls s t; mc_op l t u\<rbrakk> \<Longrightarrow> mc_run (ls @ [l]) s u"

text \<open>The abstract invariant: whoever granted a matter is not its maker.\<close>

definition segregated :: "matter \<Rightarrow> bool" where
  "segregated m \<longleftrightarrow> (\<forall>a. m_phase m = Granted a \<or> m_phase m = Done a \<longrightarrow> a \<noteq> m_maker m)"

definition granted_now :: "matter \<Rightarrow> bool" where
  "granted_now m \<longleftrightarrow> (case m_phase m of Granted a \<Rightarrow> True | _ \<Rightarrow> False)"

definition is_redeem :: "mc_label \<Rightarrow> bool" where
  "is_redeem l \<longleftrightarrow> (case l of Redeem a t m \<Rightarrow> True | _ \<Rightarrow> False)"

lemma granted_now_iff: "granted_now m \<longleftrightarrow> (\<exists>a. m_phase m = Granted a)"
  by (simp add: granted_now_def split: phase.splits)

lemma granted_now_simps [simp]:
  "granted_now (m\<lparr>m_phase := p\<rparr>) \<longleftrightarrow> (\<exists>a. p = Granted a)"
  "m_phase m = Open \<Longrightarrow> \<not> granted_now m"
  "m_phase m = Granted a \<Longrightarrow> granted_now m"
  by (auto simp: granted_now_iff)

lemma mc_step_segregated:
  "mc_step l s s' \<Longrightarrow> list_all segregated s \<Longrightarrow> list_all segregated s'"
proof (induction rule: mc_step.induct)
  case (lapse s s')
  then show ?case
    by (induction rule: list_all2_induct) (auto simp: lapses_def segregated_def)
qed (auto simp: segregated_def list_all_length nth_list_update nth_append less_Suc_eq)

lemma lapse_count:
  "list_all2 lapses s s' \<Longrightarrow> length (filter granted_now s') \<le> length (filter granted_now s)"
  by (induction rule: list_all2_induct) (auto simp: lapses_def granted_now_iff)

lemma filter_length_update:
  "i < length s \<Longrightarrow> length (filter P (s[i := x])) + (if P (s ! i) then 1 else 0)
     = length (filter P s) + (if P x then 1 else 0)"
proof (induction s arbitrary: i)
  case (Cons y ys)
  then show ?case by (cases i) (auto simp: nth_Cons')
qed simp

lemma mc_step_count:
  "mc_step l s s' \<Longrightarrow> length (filter granted_now s') + (if is_redeem l then 1 else 0)
     \<le> length (filter granted_now s) + (if l = Grant then 1 else 0)"
proof (induction rule: mc_step.induct)
  case (lapse s s')
  then show ?case by (simp add: lapse_count is_redeem_def)
next
  case (filed m s)
  then show ?case by (simp add: is_redeem_def)
next
  case (grant i s a)
  with filter_length_update[of i s granted_now "(s ! i)\<lparr>m_phase := Granted a\<rparr>"] show ?case
    by (simp add: is_redeem_def)
next
  case (redeem i s a)
  with filter_length_update[of i s granted_now "(s ! i)\<lparr>m_phase := Done a\<rparr>"] show ?case
    by (simp add: is_redeem_def)
next
  case (withdraw i s a)
  with filter_length_update[of i s granted_now "(s ! i)\<lparr>m_phase := Closed\<rparr>"] show ?case
    by (auto simp: is_redeem_def split: if_splits)
qed

lemma mc_op_count:
  "mc_op l s s' \<Longrightarrow> length (filter granted_now s') + (if is_redeem l then 1 else 0)
     \<le> length (filter granted_now s) + (if l = Grant then 1 else 0)"
  unfolding mc_op_def using mc_step_count[of Tau] mc_step_count[of l]
  by (fastforce simp: is_redeem_def)

lemma mc_run_count:
  "mc_run ls s s' \<Longrightarrow> length (filter granted_now s') + length (filter is_redeem ls)
     \<le> length (filter granted_now s) + length (filter (\<lambda>l. l = Grant) ls)"
  by (induction rule: mc_run.induct) (auto dest!: mc_op_count split: if_splits)

lemma mc_run_segregated:
  "mc_run ls s s' \<Longrightarrow> list_all segregated s \<Longrightarrow> list_all segregated s'"
  by (induction rule: mc_run.induct) (auto simp: mc_op_def dest: mc_step_segregated)

text \<open>A matter never changes its action, target or maker, and a closed or done matter
  never changes at all.\<close>

definition settles :: "matter \<Rightarrow> matter \<Rightarrow> bool" where
  "settles m m' \<longleftrightarrow> m_action m' = m_action m \<and> m_target m' = m_target m \<and> m_maker m' = m_maker m
     \<and> (m_phase m = Closed \<or> (\<exists>a. m_phase m = Done a) \<longrightarrow> m' = m)"

definition extends :: "matter list \<Rightarrow> matter list \<Rightarrow> bool" where
  "extends s s' \<longleftrightarrow> length s \<le> length s' \<and> (\<forall>i<length s. settles (s ! i) (s' ! i))"

lemma mc_step_extends: "mc_step l s s' \<Longrightarrow> extends s s'"
  by (induction rule: mc_step.induct)
     (auto simp: extends_def settles_def lapses_def list_all2_conv_all_nth nth_list_update nth_append)

lemma extends_trans: "extends s t \<Longrightarrow> extends t u \<Longrightarrow> extends s u"
  unfolding extends_def settles_def by (auto; metis less_le_trans)

lemma mc_run_extends: "mc_run ls s s' \<Longrightarrow> extends s s'"
proof (induction rule: mc_run.induct)
  case (mc_Nil s)
  then show ?case by (simp add: extends_def settles_def)
next
  case (mc_snoc ls s t l u)
  then show ?case by (auto simp: mc_op_def intro: extends_trans dest: mc_step_extends)
qed

section \<open>Refinement\<close>

definition abs_request :: "ApprovalRequest \<Rightarrow> matter" where
  "abs_request r =
     \<lparr>m_action = ar_action r, m_target = ar_target r, m_maker = ar_requested_by r,
      m_phase = (case ar_status r of
          Pending \<Rightarrow> Open
        | Approved \<Rightarrow> Granted (or_empty (ar_approved_by r))
        | Consumed \<Rightarrow> Done (or_empty (ar_approved_by r))
        | Cancelled \<Rightarrow> Closed
        | Expired \<Rightarrow> Closed)\<rparr>"

abbreviation abs_rows :: "dc_state \<Rightarrow> matter list" where
  "abs_rows \<equiv> map abs_request"

lemma abs_request_sel [simp]:
  "m_action (abs_request r) = ar_action r" "m_target (abs_request r) = ar_target r"
  "m_maker (abs_request r) = ar_requested_by r"
  by (simp_all add: abs_request_def)

lemma lapses_refl [simp]: "lapses m m"
  by (simp add: lapses_def)

lemma mc_tau_refl [simp]: "mc_step Tau s s"
  by (simp add: mc_step.lapse list_all2_refl)

lemma mc_op_tau_refl [simp]: "mc_op Tau s s"
  unfolding mc_op_def using mc_tau_refl by blast

lemma sweep_tau [simp]: "mc_step Tau (abs_rows s) (abs_rows (expireSweep H now s))"
proof (rule mc_step.lapse)
  have "lapses (abs_request r) (abs_request (sweep_row H now r))" for r
    by (auto simp: lapses_def abs_request_def sweep_row_def)
  then show "list_all2 lapses (abs_rows s) (abs_rows (expireSweep H now s))"
    by (simp add: expireSweep_def list_all2_conv_all_nth)
qed

lemma length_expireSweep [simp]: "length (expireSweep H now s) = length s"
  by (simp add: expireSweep_def)

lemma mc_op_after_sweep:
  "mc_step l (abs_rows (expireSweep H now s)) t \<Longrightarrow> mc_op l (abs_rows s) t"
  unfolding mc_op_def using sweep_tau by blast

lemma upd_first_step:
  assumes "find P s = Some r"
    and "\<And>i. \<lbrakk>i < length s; s ! i = r\<rbrakk> \<Longrightarrow> mc_step l (abs_rows s) ((abs_rows s)[i := abs_request (f r)])"
  shows "mc_step l (abs_rows s) (abs_rows (upd_first P f s))"
proof -
  from assms(1) obtain i where "i < length s" "s ! i = r" "upd_first P f s = s[i := f r]"
    by (rule upd_first_update) auto
  with assms(2)[of i] show ?thesis by (simp add: map_update)
qed

lemma grant_step:
  assumes "find P s = Some r" "ar_status r = Pending" "ar_requested_by r \<noteq> a"
  shows "mc_step Grant (abs_rows s) (abs_rows (upd_first P (mark_approved now a tok) s))"
proof (rule upd_first_step[OF assms(1)])
  fix i assume "i < length s" "s ! i = r"
  with assms(2,3) mc_step.grant[of i "abs_rows s" a]
  show "mc_step Grant (abs_rows s) ((abs_rows s)[i := abs_request (mark_approved now a tok r)])"
    by (simp add: abs_request_def mark_approved_def or_empty_def)
qed

lemma withdraw_step:
  assumes "find P s = Some r" "ar_status r = Pending \<or> ar_status r = Approved"
  shows "mc_step Withdraw (abs_rows s) (abs_rows (upd_first P (mark_cancelled now a) s))"
proof (rule upd_first_step[OF assms(1)])
  fix i assume "i < length s" "s ! i = r"
  with assms(2) mc_step.withdraw[of i "abs_rows s" "or_empty (ar_approved_by r)"]
  show "mc_step Withdraw (abs_rows s) ((abs_rows s)[i := abs_request (mark_cancelled now a r)])"
    by (auto simp: abs_request_def mark_cancelled_def)
qed

lemma redeem_step:
  assumes "find P s = Some r" "ar_status r = Approved"
    and "ar_action r = a" "ar_target r = t" "ar_requested_by r = m"
  shows "mc_step (Redeem a t m)
    (abs_rows s) (abs_rows (upd_first P (mark_consumed now) s))"
proof (rule upd_first_step[OF assms(1)])
  fix i assume "i < length s" "s ! i = r"
  with assms(2-) mc_step.redeem[of i "abs_rows s" "or_empty (ar_approved_by r)"]
  show "mc_step (Redeem a t m) (abs_rows s) ((abs_rows s)[i := abs_request (mark_consumed now r)])"
    by (simp add: abs_request_def mark_consumed_def)
qed

lemma token_expiry_step:
  assumes "find P s = Some r" "ar_status r = Approved"
  shows "mc_step Tau (abs_rows s) (abs_rows (upd_first P mark_token_expired s))"
proof (rule mc_step.lapse)
  have "list_all2 (\<lambda>r r'. lapses (abs_request r) (abs_request r')) s (upd_first P mark_token_expired s)"
    by (rule list_all2_upd_first)
       (use assms in \<open>auto simp: lapses_def abs_request_def mark_token_expired_def\<close>)
  then show "list_all2 lapses (abs_rows s) (abs_rows (upd_first P mark_token_expired s))"
    by (simp add: list_all2_conv_all_nth)
qed

text \<open>
  Every operation on a ready store leaves a ready store and refines one operation of the
  abstract machine; the label says what the caller was told.
\<close>

lemma requestApproval_refines:
  assumes "dc_ready st" and "requestApproval H c rid input st = (out, st')"
  shows "dc_ready st' \<and> mc_op (if length (dc_rows st) < length (dc_rows st') then File else Tau)
    (abs_rows (dc_rows st)) (abs_rows (dc_rows st'))"
proof (cases "check_request input")
  case None
  let ?s = "expireSweep H (c 1) (dc_rows st)" and ?r = "new_request (c 2) rid input"
  have "mc_step File (abs_rows ?s) (abs_rows ?s @ [abs_request ?r])"
    by (rule mc_step.filed) (simp add: abs_request_def new_request_def)
  with None assms show ?thesis
    by (auto simp: requestApproval_def Let_def split: option.splits dest: mc_op_after_sweep)
qed (use assms in \<open>auto simp: requestApproval_def\<close>)

lemma approveRequest_refines:
  assumes "dc_ready st" and "approveRequest H c tok rid a st = (out, st')"
  shows "dc_ready st' \<and> mc_op (case out of Inr (Inr _) \<Rightarrow> Grant | _ \<Rightarrow> Tau)
    (abs_rows (dc_rows st)) (abs_rows (dc_rows st'))"
proof (cases "a = []")
  case False
  from False assms show ?thesis
    by (auto simp: approveRequest_def Let_def split: option.splits if_splits
        intro: mc_op_after_sweep[OF grant_step])
qed (use assms in \<open>auto simp: approveRequest_def\<close>)

lemma cancelRequest_refines:
  assumes "dc_ready st" and "cancelRequest H c rid a st = (out, st')"
  shows "dc_ready st' \<and> mc_op (case out of Inr (Inr _) \<Rightarrow> Withdraw | _ \<Rightarrow> Tau)
    (abs_rows (dc_rows st)) (abs_rows (dc_rows st'))"
proof -
  from assms show ?thesis
    by (auto simp: cancelRequest_def Let_def split: option.splits if_splits
        intro: mc_op_after_sweep[OF withdraw_step])
qed

lemma consumeApproval_refines:
  assumes "dc_ready st" and "consumeApproval H c input st = (out, st')"
  shows "dc_ready st' \<and> mc_op (case out of
      Inr (Inr _) \<Rightarrow> Redeem (ci_action input) (ci_target input) (ci_caller input) | _ \<Rightarrow> Tau)
    (abs_rows (dc_rows st)) (abs_rows (dc_rows st'))"
proof (cases "ci_token input = []")
  case False
  let ?s = "expireSweep H (c 1) (dc_rows st)" and ?P = "\<lambda>x. ar_token_hash x = Some (hashToken (ci_token input))"
  show ?thesis
  proof (cases "find ?P ?s")
    case None
    with False assms show ?thesis
      by (auto simp: consumeApproval_def consume_decide_def consume_commit_def Let_def)
  next
    case (Some r)
    from Some False assms show ?thesis
      by (auto simp: consumeApproval_def consume_decide_def consume_commit_def Let_def
          split: if_splits intro: mc_op_after_sweep[OF redeem_step] mc_op_after_sweep[OF token_expiry_step])
  qed
qed (use assms in \<open>auto simp: consumeApproval_def\<close>)

lemma listRequests_refines:
  assumes "dc_ready st" and "listRequests H c x st = (out, st')"
  shows "dc_ready st' \<and> mc_op Tau (abs_rows (dc_rows st)) (abs_rows (dc_rows st'))"
proof -
  from assms show ?thesis
    by (auto simp: listRequests_def Let_def intro: mc_op_after_sweep[OF mc_tau_refl])
qed

lemma getRequest_refines:
  assumes "dc_ready st" and "getRequest H c x st = (out, st')"
  shows "dc_ready st' \<and> mc_op Tau (abs_rows (dc_rows st)) (abs_rows (dc_rows st'))"
proof -
  from assms show ?thesis by (auto simp: getRequest_def)
qed

section \<open>Runs\<close>

text \<open>The operations a caller can invoke, each with its clock and its random draw, and the
  label of what happened.\<close>

datatype dc_op =
    DoRequest clock string RequestInput
  | DoApprove clock string string string
  | DoCancel clock string string
  | DoConsume clock ConsumeInput
  | DoList clock "ApprovalStatus option"
  | DoGet clock string

fun dc_exec :: "host \<Rightarrow> dc_op \<Rightarrow> dc_store \<Rightarrow> mc_label \<times> dc_store" where
  "dc_exec H (DoRequest c rid input) st =
     (case requestApproval H c rid input st of
        (out, st') \<Rightarrow> (if length (dc_rows st) < length (dc_rows st') then File else Tau, st'))"
| "dc_exec H (DoApprove c tok rid a) st =
     (case approveRequest H c tok rid a st of
        (out, st') \<Rightarrow> (case out of Inr (Inr _) \<Rightarrow> Grant | _ \<Rightarrow> Tau, st'))"
| "dc_exec H (DoCancel c rid a) st =
     (case cancelRequest H c rid a st of
        (out, st') \<Rightarrow> (case out of Inr (Inr _) \<Rightarrow> Withdraw | _ \<Rightarrow> Tau, st'))"
| "dc_exec H (DoConsume c input) st =
     (case consumeApproval H c input st of
        (out, st') \<Rightarrow> (case out of
            Inr (Inr _) \<Rightarrow> Redeem (ci_action input) (ci_target input) (ci_caller input)
          | _ \<Rightarrow> Tau, st'))"
| "dc_exec H (DoList c x) st = (case listRequests H c x st of (out, st') \<Rightarrow> (Tau, st'))"
| "dc_exec H (DoGet c rid) st = (case getRequest H c rid st of (out, st') \<Rightarrow> (Tau, st'))"

fun dc_run :: "host \<Rightarrow> dc_op list \<Rightarrow> mc_label list \<times> dc_store \<Rightarrow> mc_label list \<times> dc_store" where
  "dc_run H [] acc = acc"
| "dc_run H (op # ops) (ls, st) = (case dc_exec H op st of (l, st') \<Rightarrow> dc_run H ops (ls @ [l], st'))"

definition dc_empty :: dc_store where
  "dc_empty = \<lparr>cs_file = Absent, cs_cache = None\<rparr>"

abbreviation dc_labels :: "host \<Rightarrow> dc_op list \<Rightarrow> mc_label list" where
  "dc_labels H ops \<equiv> fst (dc_run H ops ([], dc_empty))"

abbreviation dc_after :: "host \<Rightarrow> dc_op list \<Rightarrow> dc_store" where
  "dc_after H ops \<equiv> snd (dc_run H ops ([], dc_empty))"

lemma dc_empty [simp]: "dc_ready dc_empty" "dc_rows dc_empty = []"
  by (simp_all add: dc_empty_def ready_def coherent_def contents_def dc_readFromDisk_def)

lemma dc_exec_refines:
  assumes "dc_ready st" and "dc_exec H op st = (l, st')"
  shows "dc_ready st' \<and> mc_op l (abs_rows (dc_rows st)) (abs_rows (dc_rows st'))"
proof (cases op)
  case (DoRequest c rid input)
  with assms requestApproval_refines[OF assms(1)] show ?thesis by (auto split: prod.splits)
next
  case (DoApprove c tok rid a)
  with assms approveRequest_refines[OF assms(1)] show ?thesis by (auto split: prod.splits)
next
  case (DoCancel c rid a)
  with assms cancelRequest_refines[OF assms(1)] show ?thesis by (auto split: prod.splits)
next
  case (DoConsume c input)
  with assms consumeApproval_refines[OF assms(1)] show ?thesis by (auto split: prod.splits)
next
  case (DoList c x)
  with assms listRequests_refines[OF assms(1)] show ?thesis by (auto split: prod.splits)
next
  case (DoGet c rid)
  with assms getRequest_refines[OF assms(1)] show ?thesis by (auto split: prod.splits)
qed

lemma dc_run_refines:
  assumes "dc_ready st" "mc_run ls s0 (abs_rows (dc_rows st))" "dc_run H ops (ls, st) = (ls', st')"
  shows "dc_ready st' \<and> mc_run ls' s0 (abs_rows (dc_rows st'))"
  using assms
proof (induction ops arbitrary: ls st)
  case (Cons op ops)
  obtain l m where e: "dc_exec H op st = (l, m)" by fastforce
  note dc_exec_refines[OF Cons.prems(1) e]
  with Cons.prems(2) have "dc_ready m" "mc_run (ls @ [l]) s0 (abs_rows (dc_rows m))"
    by (auto intro: mc_run.mc_snoc)
  with Cons.prems(3) e show ?case by (intro Cons.IH) auto
qed simp

lemma dc_run_empty:
  "dc_ready (dc_after H ops) \<and> mc_run (dc_labels H ops) [] (abs_rows (dc_rows (dc_after H ops)))"
  using dc_run_refines[of dc_empty "[]" "[]" H ops "dc_labels H ops" "dc_after H ops"]
  by (simp add: mc_run.mc_Nil)

section \<open>The invariant of the rows\<close>

text \<open>An approved or consumed row names an approver other than the requester, and only an
  approved row carries a token hash.\<close>

definition row_ok :: "ApprovalRequest \<Rightarrow> bool" where
  "row_ok r \<longleftrightarrow>
     (case ar_approved_by r of
        None \<Rightarrow> ar_status r \<in> {Pending, Cancelled, Expired}
      | Some a \<Rightarrow> a \<noteq> ar_requested_by r \<and> a \<noteq> [] \<and> ar_status r \<noteq> Pending)
     \<and> (ar_token_hash r = None \<or> ar_status r = Approved)
     \<and> ACTION_RE (ar_action r) \<and> ar_target r \<noteq> [] \<and> ar_reason r \<noteq> [] \<and> ar_requested_by r \<noteq> []"

definition dc_inv :: "dc_store \<Rightarrow> bool" where
  "dc_inv st \<longleftrightarrow> dc_ready st \<and> list_all row_ok (dc_rows st)"

lemma row_ok_sweep [inv_intros]: "row_ok r \<Longrightarrow> row_ok (sweep_row H now r)"
  by (auto simp: row_ok_def sweep_row_def split: option.splits)

lemma rows_ok_sweep [inv_intros]: "list_all row_ok s \<Longrightarrow> list_all row_ok (expireSweep H now s)"
  by (auto simp: expireSweep_def list_all_iff row_ok_sweep)

lemma row_ok_marks [inv_intros]:
  "\<lbrakk>row_ok r; ar_status r = Pending; a \<noteq> []; ar_requested_by r \<noteq> a\<rbrakk> \<Longrightarrow> row_ok (mark_approved now a tok r)"
  "\<lbrakk>row_ok r; ar_status r \<noteq> Pending\<rbrakk> \<Longrightarrow> row_ok (mark_token_expired r)"
  "\<lbrakk>row_ok r; ar_status r = Approved\<rbrakk> \<Longrightarrow> row_ok (mark_consumed now r)"
  by (auto simp: row_ok_def mark_approved_def mark_token_expired_def mark_consumed_def
      split: option.splits)

lemma row_ok_cancel [inv_intros]: "row_ok r \<Longrightarrow> row_ok (mark_cancelled now a r)"
  by (auto simp: row_ok_def mark_cancelled_def split: option.splits)

lemma row_ok_new [inv_intros]: "check_request input = None \<Longrightarrow> row_ok (new_request now rid input)"
  by (auto simp: row_ok_def new_request_def check_request_def split: if_splits)

lemma consume_decide_ok:
  assumes "list_all row_ok s" "snd (consume_decide H c input s) = Some s'"
  shows "list_all row_ok s'"
  using assms
  by (auto simp: consume_decide_def Let_def split: option.splits if_splits
      intro!: list_all_upd_first inv_intros)

lemma dc_exec_inv:
  assumes "dc_inv st"
  shows "dc_inv (snd (dc_exec H op st))"
proof (cases op)
  case (DoConsume c input)
  with assms show ?thesis
    by (auto simp: dc_inv_def consumeApproval_def consume_commit_def split: prod.splits option.splits
        dest!: arg_cong[of "consume_decide _ _ _ _" _ snd] consume_decide_ok[rotated])
qed (use assms in \<open>auto simp: dc_inv_def requestApproval_def approveRequest_def cancelRequest_def
      listRequests_def getRequest_def Let_def split: option.splits
      intro!: list_all_upd_first inv_intros\<close>)

lemma dc_run_inv: "dc_inv st \<Longrightarrow> dc_inv (snd (dc_run H ops (ls, st)))"
proof (induction ops arbitrary: ls st)
  case (Cons op ops)
  from dc_exec_inv[OF Cons.prems, of H op] Cons.IH show ?case
    by (cases "dc_exec H op st") simp
qed simp

lemma dc_after_inv: "dc_inv (dc_after H ops)"
  by (rule dc_run_inv) (simp add: dc_inv_def)

section \<open>Properties\<close>

text \<open>C15: every run of operations from an empty store, whatever the callers pass and
  whatever the clock says, is a run of the abstract maker/checker machine with the labels
  the callers were told: a grant is always by somebody other than the maker, and a
  redemption is for the action, target and requester of a granted matter.\<close>

theorem dual_control_refines:
  "mc_run (dc_labels H ops) [] (abs_rows (dc_rows (dc_after H ops)))"
  using dc_run_empty by blast

text \<open>C16: segregation of duties. After any run from an empty store every row that is
  approved or consumed names an approver different from its requester, and a token hash is
  only ever kept by a row that is approved.\<close>

theorem dual_control_segregation:
  "list_all row_ok (dc_rows (dc_after H ops))"
  using dc_after_inv by (simp add: dc_inv_def)

text \<open>In any run from an empty store no more redemptions succeed than approvals were
  given: an approval authorises at most one execution of the action (for calls that do not
  interleave).\<close>

theorem redemptions_le_approvals:
  "length (filter is_redeem (dc_labels H ops)) \<le> length (filter (\<lambda>l. l = Grant) (dc_labels H ops))"
  using mc_run_count[of "dc_labels H ops" "[]"] dc_run_empty[of H ops] by fastforce

text \<open>A redemption that succeeds after a run from an empty store redeems a request for
  exactly the action and target of the call, made by the caller, that some other admin had
  approved.\<close>

theorem redemption_needs_second_admin:
  assumes "consumeApproval H c input (dc_after H ops) = (Inr (Inr r), st')"
  shows "ar_action r = ci_action input \<and> ar_target r = ci_target input
    \<and> ar_requested_by r = ci_caller input
    \<and> (\<exists>a. ar_approved_by r = Some a \<and> a \<noteq> ci_caller input)"
proof -
  let ?st = "dc_after H ops" and ?P = "\<lambda>x. ar_token_hash x = Some (hashToken (ci_token input))"
  have inv: "dc_ready ?st" "list_all row_ok (dc_rows ?st)"
    using dc_after_inv by (simp_all add: dc_inv_def)
  with assms obtain r0 where f: "find ?P (expireSweep H (c 1) (dc_rows ?st)) = Some r0"
    and r0: "ar_status r0 = Approved" "ar_action r0 = ci_action input" "ar_target r0 = ci_target input"
      "ar_requested_by r0 = ci_caller input" "r = mark_consumed (c 3) r0"
    by (auto simp: consumeApproval_def consume_decide_def consume_commit_def Let_def
        split: if_splits option.splits)
  from find_SomeD[OF f] rows_ok_sweep[OF inv(2)] have "row_ok r0"
    by (auto simp: list_all_iff)
  with r0 show ?thesis
    by (auto simp: row_ok_def mark_consumed_def split: option.splits)
qed

text \<open>The window of an approval. A token hash that no other row carries is found in the row
  it was minted for, until the token's deadline.\<close>

lemma sweep_row_hash: "ar_token_hash (sweep_row H now r) = Some h \<Longrightarrow> ar_token_hash r = Some h"
  by (auto simp: sweep_row_def split: if_splits)

lemma truthy_iso [simp]: "truthy (Some (toISOString t))"
  by simp

lemma or_empty_Some [simp]: "or_empty (Some x) = x"
  by (simp add: or_empty_def)

lemma sweep_approved:
  assumes "ar_status r = Approved" "ar_token_expires_at r = Some (toISOString t)" "time_ok t"
  shows "sweep_row H now r = (if t \<le> now then r\<lparr>ar_status := Expired, ar_token_hash := None\<rparr> else r)"
  using assms by (simp add: sweep_row_def)

text \<open>An approval is good for ten minutes and no longer. Once a request has been
  approved, its requester can redeem the token for the approved action and target exactly
  while the clock is before the moment of approval plus \<^verbatim>\<open>APPROVAL_TTL_MS\<close> (provided no other
  row carries the same token hash, and the clock of the redeeming call does not run
  backwards).\<close>

theorem approval_window:
  assumes "dc_ready st"
    and "approveRequest H c tok rid a st = (Inr (Inr (r, tok)), st')"
    and "tok \<noteq> []" and "time_ok (c 2 + APPROVAL_TTL_MS)"
    and "list_all (\<lambda>x. ar_token_hash x \<noteq> Some (hashToken tok)) (dc_rows st)"
    and "c' 1 \<le> c' 2"
  shows "(\<exists>r' st''. consumeApproval H c' \<lparr>ci_action = ar_action r, ci_target = ar_target r, ci_token = tok,
             ci_caller = ar_requested_by r\<rparr> st' = (Inr (Inr r'), st''))
         \<longleftrightarrow> c' 2 < c 2 + APPROVAL_TTL_MS"
proof -
  let ?P = "\<lambda>x. ar_token_hash x = Some (hashToken tok)" and ?t = "c 2 + APPROVAL_TTL_MS"
  let ?s = "expireSweep H (c 1) (dc_rows st)" and ?f = "mark_approved (c 2) a tok"
  from assms(1,2) obtain r0 where r0: "find (\<lambda>x. ar_id x = rid) ?s = Some r0" "r = ?f r0"
    and st': "dc_ready st'" "dc_rows st' = upd_first (\<lambda>x. ar_id x = rid) ?f ?s"
    by (auto simp: approveRequest_def Let_def split: if_splits option.splits)
  from r0(1) obtain i where i: "i < length ?s" "?s ! i = r0" "dc_rows st' = ?s[i := r]"
    using st'(2) r0(2) by (metis upd_first_update)
  have none: "\<not> ?P (?s ! j)" if "j < length ?s" for j
    using assms(5) that by (auto simp: list_all_length expireSweep_def dest: sweep_row_hash)
  let ?s' = "expireSweep H (c' 1) (dc_rows st')"
  have row: "?s' ! j = (if j = i then sweep_row H (c' 1) r else sweep_row H (c' 1) (?s ! j))"
    if "j < length ?s" for j
    using i that by (simp add: expireSweep_def)
  have others: "\<not> ?P (?s' ! j)" if "j < length ?s'" "j \<noteq> i" for j
    using row[of j] none[of j] that i sweep_row_hash[of H "c' 1" "?s ! j"] by auto
  have r: "ar_status r = Approved" "ar_token_hash r = Some (hashToken tok)"
      "ar_token_expires_at r = Some (toISOString ?t)"
    by (simp_all add: r0(2) mark_approved_def)
  have sw: "sweep_row H (c' 1) r
      = (if ?t \<le> c' 1 then r\<lparr>ar_status := Expired, ar_token_hash := None\<rparr> else r)"
    using r assms(4) by (simp add: sweep_approved)
  have len: "i < length ?s'" using i by simp
  show ?thesis
  proof (cases "?t \<le> c' 1")
    case True
    then have "\<not> ?P (?s' ! j)" if "j < length ?s'" for j
      using others[of j] that row[of i] sw i by (cases "j = i") auto
    then have "find ?P ?s' = None" by (auto simp: find_None_iff in_set_conv_nth)
    with True assms(6) st'(1) show ?thesis
      by (auto simp: consumeApproval_def consume_decide_def consume_commit_def split: if_splits)
  next
    case False
    then have "?s' ! i = r" using sw row[of i] i by simp
    then have "find ?P ?s' = Some r"
      using find_unique[of i ?s' ?P] others len r(2) by simp
    with r st'(1) assms(3,4) show ?thesis
      by (auto simp: consumeApproval_def consume_decide_def consume_commit_def Let_def split: if_splits)
  qed
qed

text \<open>A request that has ended stays ended. Over any further run the row keeps its
  action, target and requester, and one that was consumed, cancelled or expired is never
  reopened.\<close>

theorem ended_requests_stay_ended:
  "extends (abs_rows (dc_rows (dc_after H ops))) (abs_rows (dc_rows (dc_after H (ops @ ops'))))"
proof -
  have app: "dc_run H (ops @ ops') acc = dc_run H ops' (dc_run H ops acc)" for acc
    by (induction ops arbitrary: acc) (auto split: prod.splits)
  let ?m = "dc_run H ops ([], dc_empty)"
  have "mc_run (fst (dc_run H ops' ([], snd ?m))) (abs_rows (dc_rows (snd ?m)))
      (abs_rows (dc_rows (snd (dc_run H ops' ([], snd ?m)))))"
    using dc_run_refines[of "snd ?m" "[]" _ H ops'] dc_run_empty[of H ops]
    by (metis mc_run.mc_Nil prod.collapse)
  moreover have "snd (dc_run H ops' (ls, st)) = snd (dc_run H ops' ([], st))" for ls st
    by (induction ops' arbitrary: ls st) (auto split: prod.splits, metis)
  ultimately show ?thesis
    unfolding app by (metis mc_run_extends prod.collapse)
qed

text \<open>
  Two calls of \<^verbatim>\<open>consumeApproval\<close> that interleave at \<^verbatim>\<open>await loadState()\<close>: both load before either
  writes. \<^verbatim>\<open>loadState\<close> hands each caller its own copy, and nothing re-reads or locks the file
  before the write.
\<close>

definition consume_interleaved ::
  "host \<Rightarrow> clock \<Rightarrow> clock \<Rightarrow> ConsumeInput \<Rightarrow> dc_store
   \<Rightarrow> ((ConsumeError + ApprovalRequest) \<times> (ConsumeError + ApprovalRequest) \<times> dc_store) option" where
  "consume_interleaved H c c' input st =
     (case dc_loadState (c 0) st of
        (Inr s1, st1) \<Rightarrow>
          (case dc_loadState (c' 0) st1 of
             (Inr s2, st2) \<Rightarrow>
               (case consume_commit c (consume_decide H c input s1) st2 of
                  (o1, st3) \<Rightarrow>
                    (case consume_commit c' (consume_decide H c' input s2) st3 of
                       (o2, st4) \<Rightarrow> Some (o1, o2, st4)))
           | _ \<Rightarrow> None)
      | _ \<Rightarrow> None)"

lemma dc_loadState_ready:
  assumes "dc_ready st"
  obtains m where "dc_loadState now st = (Inr (dc_rows st), m)" "dc_ready m" "dc_rows m = dc_rows st"
  using dc_load(1,2)[OF assms, where now = now]
    dc_load(3)[OF assms, where now = now and k = "\<lambda>s m. (s, m)"]
  by (cases "dc_loadState now st") (auto simp: with_load_def split: sum.splits)

text \<open>C18: single use does not survive interleaving. Whenever a redemption succeeds, two
  redemptions of the same token that both load the store before either writes it both
  succeed, so one approval authorises two executions.\<close>

theorem interleaved_redemptions_both_succeed:
  assumes "dc_ready st"
    and "consumeApproval H c input st = (Inr (Inr r), st')"
  shows "\<exists>st''. consume_interleaved H c c input st = Some (Inr r, Inr r, st'')"
proof -
  obtain m where m: "dc_loadState (c 0) st = (Inr (dc_rows st), m)" "dc_ready m" "dc_rows m = dc_rows st"
    using dc_loadState_ready[OF assms(1)] .
  obtain m' where "dc_loadState (c 0) m = (Inr (dc_rows m), m')"
    using dc_loadState_ready[OF m(2)] by metis
  with m assms show ?thesis
    by (auto simp: consume_interleaved_def consumeApproval_def consume_commit_def with_load_def
        split: if_splits)
qed

section \<open>A concrete run\<close>

definition sample_input :: RequestInput where
  "sample_input = \<lparr>ri_action = ''keys.revoke'', ri_target = ''k1'', ri_reason = ''leaked'',
     ri_requested_by = ''alice''\<rparr>"

definition sample_request :: ApprovalRequest where
  "sample_request = new_request 0 ''apr_1'' sample_input"

definition sample_redeem :: ConsumeInput where
  "sample_redeem = \<lparr>ci_action = ''keys.revoke'', ci_target = ''k1'', ci_token = ''tok'',
     ci_caller = ''alice''\<rparr>"

definition sample_ops :: "dc_op list" where
  "sample_ops = [DoRequest (\<lambda>_. 0) ''apr_1'' sample_input, DoApprove (\<lambda>_. 1000) ''tok'' ''apr_1'' ''bob'']"

lemma sample_check: "check_request sample_input = None"
  by code_simp

lemma sample_filed:
  "dc_ready (dc_after sample_host [hd sample_ops])"
  "dc_rows (dc_after sample_host [hd sample_ops]) = [sample_request]"
  by (simp_all add: sample_ops_def requestApproval_def sample_check expireSweep_def sample_request_def Let_def)

lemma sample_approve:
  "approveRequest sample_host (\<lambda>_. 1000) ''tok'' ''apr_1'' ''bob'' (dc_after sample_host [hd sample_ops])
   = (Inr (Inr (mark_approved 1000 ''bob'' ''tok'' sample_request, ''tok'')),
      snd (approveRequest sample_host (\<lambda>_. 1000) ''tok'' ''apr_1'' ''bob'' (dc_after sample_host [hd sample_ops])))"
  using sample_filed
  by (simp add: approveRequest_def expireSweep_def Let_def sweep_row_def sample_request_def
      new_request_def sample_input_def TTL_MS_def time_ok_def)

lemma sample_approved:
  "dc_ready (dc_after sample_host sample_ops)"
  "dc_rows (dc_after sample_host sample_ops) = [mark_approved 1000 ''bob'' ''tok'' sample_request]"
  by (simp_all add: sample_ops_def requestApproval_def sample_check[unfolded sample_input_def]
      approveRequest_def expireSweep_def sample_request_def Let_def sweep_row_def new_request_def
      sample_input_def TTL_MS_def time_ok_def)

lemma sample_redeemed:
  "consumeApproval sample_host (\<lambda>_. 2000) sample_redeem (dc_after sample_host sample_ops)
   = (Inr (Inr (mark_consumed 2000 (mark_approved 1000 ''bob'' ''tok'' sample_request))),
      snd (consumeApproval sample_host (\<lambda>_. 2000) sample_redeem (dc_after sample_host sample_ops)))"
  using sample_approved
  by (simp add: consumeApproval_def consume_decide_def consume_commit_def expireSweep_def Let_def
      sample_request_def sample_redeem_def sweep_row_def mark_approved_def new_request_def
      APPROVAL_TTL_MS_def sample_input_def time_ok_def)

theorem redemption_needs_second_admin_witness:
  "\<exists>a. ar_approved_by (mark_consumed 2000 (mark_approved 1000 ''bob'' ''tok'' sample_request)) = Some a
     \<and> a \<noteq> ''alice''"
  using redemption_needs_second_admin[OF sample_redeemed] by (auto simp: sample_redeem_def)

theorem approval_window_witness:
  "(\<exists>r' st''. consumeApproval sample_host (\<lambda>_. 2000) sample_redeem
      (snd (approveRequest sample_host (\<lambda>_. 1000) ''tok'' ''apr_1'' ''bob''
         (dc_after sample_host [hd sample_ops]))) = (Inr (Inr r'), st''))"
  using approval_window[OF sample_filed(1) sample_approve, of "\<lambda>_. 2000"] sample_filed(2)
  by (simp add: sample_redeem_def sample_request_def new_request_def sample_input_def
      mark_approved_def time_ok_def APPROVAL_TTL_MS_def)

theorem interleaved_redemptions_witness:
  "\<exists>r st''. consume_interleaved sample_host (\<lambda>_. 2000) (\<lambda>_. 2000) sample_redeem
     (dc_after sample_host sample_ops) = Some (Inr r, Inr r, st'')"
  using interleaved_redemptions_both_succeed[OF sample_approved(1) sample_redeemed] by blast

end
