(* ===== verification/JsSort.thy ===== *)
theory JsSort
  imports Prelude "HOL-Library.Multiset"
begin

text \<open>
  \<^verbatim>\<open>Array.prototype.sort\<close> with a comparator. The language requires the sort to be stable; for a
  comparator that is a total preorder the result is therefore determined, and it is the one of
  insertion from the right.
\<close>

type_synonym 'a cmp = "'a \<Rightarrow> 'a \<Rightarrow> int"

fun insert_cmp :: "'a cmp \<Rightarrow> 'a \<Rightarrow> 'a list \<Rightarrow> 'a list" where
  "insert_cmp cmp x [] = [x]"
| "insert_cmp cmp x (y # ys) = (if cmp x y \<le> 0 then x # y # ys else y # insert_cmp cmp x ys)"

definition sort_cmp :: "'a cmp \<Rightarrow> 'a list \<Rightarrow> 'a list" where
  "sort_cmp cmp xs = foldr (insert_cmp cmp) xs []"

lemma mset_insert_cmp [simp]: "mset (insert_cmp cmp x ys) = add_mset x (mset ys)"
  by (induction ys) auto

lemma mset_sort_cmp [simp]: "mset (sort_cmp cmp xs) = mset xs"
  by (induction xs) (auto simp: sort_cmp_def)

lemma set_sort_cmp [simp]: "set (sort_cmp cmp xs) = set xs"
  by (metis mset_sort_cmp set_mset_mset)

lemma length_sort_cmp [simp]: "length (sort_cmp cmp xs) = length xs"
  by (metis mset_sort_cmp size_mset)

text \<open>The comparators of the sources: by a key, one after the other, and reversed.\<close>

definition cmp_key :: "('a \<Rightarrow> 'k::linorder) \<Rightarrow> 'a cmp" where
  "cmp_key k a b = (if k a < k b then -1 else if k b < k a then 1 else 0)"

definition cmp_desc :: "('a \<Rightarrow> 'k::linorder) \<Rightarrow> 'a cmp" where
  "cmp_desc k a b = cmp_key k b a"

definition cmp_then :: "'a cmp \<Rightarrow> 'a cmp \<Rightarrow> 'a cmp" where
  "cmp_then c d a b = (if c a b \<noteq> 0 then c a b else d a b)"

text \<open>The contract of a comparator: the sign of \<open>cmp a b\<close> orders the values.\<close>

locale comparator =
  fixes cmp :: "'a cmp"
  assumes total: "cmp a b \<le> 0 \<or> cmp b a \<le> 0"
    and trans: "\<lbrakk>cmp a b \<le> 0; cmp b c \<le> 0\<rbrakk> \<Longrightarrow> cmp a c \<le> 0"
begin

lemma sorted_insert: "sorted_wrt (\<lambda>a b. cmp a b \<le> 0) ys \<Longrightarrow> sorted_wrt (\<lambda>a b. cmp a b \<le> 0) (insert_cmp cmp x ys)"
proof (induction ys)
  case Nil
  then show ?case by simp
next
  case (Cons y ys)
  have "set (insert_cmp cmp x ys) = insert x (set ys)" by (metis mset_insert_cmp set_mset_add_mset_insert set_mset_mset)
  with Cons total[of x y] show ?case by (auto intro: trans)
qed

lemma sorted_sort: "sorted_wrt (\<lambda>a b. cmp a b \<le> 0) (sort_cmp cmp xs)"
  by (induction xs) (auto simp: sort_cmp_def sorted_insert)

end

lemma comparator_key: "comparator (cmp_key k)"
  by unfold_locales (auto simp: cmp_key_def split: if_splits)

lemma comparator_desc: "comparator (cmp_desc k)"
  by unfold_locales (auto simp: cmp_desc_def cmp_key_def split: if_splits)

interpretation by_key: comparator "cmp_key k" for k :: "'a \<Rightarrow> 'k::linorder"
  by (rule comparator_key)

interpretation by_desc: comparator "cmp_desc k" for k :: "'a \<Rightarrow> 'k::linorder"
  by (rule comparator_desc)

end
