(* ===== verification/Activity.thy ===== *)
theory Activity
  imports JsonStore JsSort
begin

text \<open>
  The activity feed (\<^verbatim>\<open>src/web/lib/activityStore.ts\<close>): user-visible events with a read mark, bounded at 500. The
  clock reading and the drawn id of an event are arguments.

  The lemmas: the feed stays within its bound, its titles are never empty and its links local; the unread
  count is the number of unread rows whatever the filters; and marking all rows read leaves none unread.
\<close>

section \<open>Events\<close>

definition MAX_EVENTS :: nat where "MAX_EVENTS = 500"

definition VALID_KINDS :: "string list" where
  "VALID_KINDS = [''run.saved'', ''run.deleted'', ''webhook.delivered'', ''webhook.failed'', ''batch.completed'', ''key.created'',
     ''key.revoked'', ''key.rotated'', ''webhook.secret_rotated'', ''invite.created'', ''invite.revoked'', ''invite.accepted'',
     ''alert.fired'', ''system'']"

record ActivityEvent =
  av_id :: string
  av_kind :: string
  av_title :: string
  av_body :: string
  av_href :: "string option"
  av_created_at :: string
  av_read :: bool

type_synonym activity_file = "ActivityEvent list cast_file"

definition act_readStore :: "activity_file \<Rightarrow> ActivityEvent list res" where
  "act_readStore f = (case f of NoFile \<Rightarrow> Inr [] | BadFile \<Rightarrow> Inl IoFault | Stored es \<Rightarrow> Inr es)"

definition act_writeStore :: "ActivityEvent list \<Rightarrow> activity_file \<Rightarrow> activity_file" where
  "act_writeStore es f = Stored es"

definition act_clamp :: "string option \<Rightarrow> nat \<Rightarrow> string" where
  "act_clamp s mx = take mx (trim (or_empty s))"

record ActivityInput =
  an_kind :: string
  an_title :: string
  an_body :: "string option"
  an_href :: "string option"

text \<open>\<^verbatim>\<open>href.startsWith("/")\<close>\<close>

definition act_href :: "string option \<Rightarrow> string option" where
  "act_href h = (case h of Some (c # cs) \<Rightarrow> if c = CHR ''/'' then Some (take 240 (c # cs)) else None | _ \<Rightarrow> None)"

definition recordActivity :: "int \<Rightarrow> string \<Rightarrow> ActivityInput \<Rightarrow> activity_file \<Rightarrow> ActivityEvent res \<times> activity_file" where
  "recordActivity now eid input f =
     (if an_kind input \<notin> set VALID_KINDS then (Inl (Thrown (''invalid activity kind: '' @ an_kind input)), f)
      else if act_clamp (Some (an_title input)) 120 = [] then (Inl (Thrown ''activity title required''), f)
      else (let ev = \<lparr>av_id = eid, av_kind = an_kind input, av_title = act_clamp (Some (an_title input)) 120,
                      av_body = act_clamp (an_body input) 400, av_href = act_href (an_href input), av_created_at = toISOString now,
                      av_read = False\<rparr>
            in case act_readStore f of
                 Inl e \<Rightarrow> (Inl e, f)
               | Inr es \<Rightarrow>
                   (let es' = es @ [ev] in
                    (Inr ev, act_writeStore (if MAX_EVENTS < length es' then take MAX_EVENTS (sort_desc av_created_at es') else es') f))))"

definition recordSafe :: "int \<Rightarrow> string \<Rightarrow> ActivityInput \<Rightarrow> activity_file \<Rightarrow> activity_file" where
  "recordSafe now eid input f = snd (recordActivity now eid input f)"

section \<open>Queries and marks\<close>

record ActivityQuery =
  aq_kind :: "string option"
  aq_unreadOnly :: bool
  aq_limit :: "jsnum option"
  aq_offset :: "jsnum option"

record ActivityResult =
  aqr_events :: "ActivityEvent list"
  aqr_total :: nat
  aqr_unread :: nat
  aqr_limit :: rat
  aqr_offset :: rat

definition finite_or :: "rat \<Rightarrow> jsnum option \<Rightarrow> rat" where
  "finite_or d x = (case x of Some (Fin q) \<Rightarrow> q | _ \<Rightarrow> d)"

definition unread_of :: "ActivityEvent list \<Rightarrow> nat" where
  "unread_of es = foldl (\<lambda>n e. n + (if av_read e then 0 else 1)) 0 es"

text \<open>\<^verbatim>\<open>xs.slice(a, b)\<close> truncates its bounds to integers; here they are not negative.\<close>

definition slice_rat :: "rat \<Rightarrow> rat \<Rightarrow> 'a list \<Rightarrow> 'a list" where
  "slice_rat a b xs = drop (nat \<lfloor>a\<rfloor>) (take (nat \<lfloor>b\<rfloor>) xs)"

definition activity_rows :: "ActivityQuery \<Rightarrow> ActivityEvent list \<Rightarrow> ActivityEvent list" where
  "activity_rows q es =
     (let all = sort_desc av_created_at es;
          kinds = (if truthy (aq_kind q) \<and> or_empty (aq_kind q) \<in> set VALID_KINDS
                   then filter (\<lambda>e. av_kind e = or_empty (aq_kind q)) all else all)
      in if aq_unreadOnly q then filter (\<lambda>e. \<not> av_read e) kinds else kinds)"

definition queryActivity :: "ActivityQuery \<Rightarrow> activity_file \<Rightarrow> ActivityResult res" where
  "queryActivity q f = map_sum id (\<lambda>es.
     let rows = activity_rows q es;
         limit = min (max (finite_or 25 (aq_limit q)) 1) 200;
         offset = max (finite_or 0 (aq_offset q)) 0
     in \<lparr>aqr_events = slice_rat offset (offset + limit) rows, aqr_total = length rows,
         aqr_unread = unread_of (sort_desc av_created_at es), aqr_limit = limit, aqr_offset = offset\<rparr>) (act_readStore f)"

definition unreadCount :: "activity_file \<Rightarrow> nat res" where
  "unreadCount f = map_sum id unread_of (act_readStore f)"

definition markRead :: "string \<Rightarrow> activity_file \<Rightarrow> ActivityEvent option res \<times> activity_file" where
  "markRead i f =
     (case act_readStore f of
        Inl e \<Rightarrow> (Inl e, f)
      | Inr es \<Rightarrow>
          (case find (\<lambda>e. av_id e = i) es of
             None \<Rightarrow> (Inr None, f)
           | Some ev \<Rightarrow> (Inr (Some (ev\<lparr>av_read := True\<rparr>)), act_writeStore (upd_first (\<lambda>e. av_id e = i) (av_read_update (\<lambda>_. True)) es) f)))"

definition markAllRead :: "activity_file \<Rightarrow> nat res \<times> activity_file" where
  "markAllRead f =
     (case act_readStore f of
        Inl e \<Rightarrow> (Inl e, f)
      | Inr es \<Rightarrow>
          (let n = length (filter (\<lambda>e. \<not> av_read e) es) in
           (Inr n, if 0 < n then act_writeStore (map (av_read_update (\<lambda>_. True)) es) f else f)))"

definition deleteEvent :: "string \<Rightarrow> activity_file \<Rightarrow> bool res \<times> activity_file" where
  "deleteEvent i f =
     (case act_readStore f of
        Inl e \<Rightarrow> (Inl e, f)
      | Inr es \<Rightarrow>
          (let es' = filter (\<lambda>e. av_id e \<noteq> i) es in
           if length es' = length es then (Inr False, f) else (Inr True, act_writeStore es' f)))"

definition clearAll :: "activity_file \<Rightarrow> nat res \<times> activity_file" where
  "clearAll f = (case act_readStore f of Inl e \<Rightarrow> (Inl e, f) | Inr es \<Rightarrow> (Inr (length es), act_writeStore [] f))"

section \<open>Every run of operations\<close>

datatype activity_op = ARecordActivity int string ActivityInput | AMarkRead string | AMarkAll | ADelete string | AClear

fun activity_exec :: "activity_op \<Rightarrow> activity_file \<Rightarrow> activity_file" where
  "activity_exec (ARecordActivity t i input) f = recordSafe t i input f"
| "activity_exec (AMarkRead i) f = snd (markRead i f)"
| "activity_exec AMarkAll f = snd (markAllRead f)"
| "activity_exec (ADelete i) f = snd (deleteEvent i f)"
| "activity_exec AClear f = snd (clearAll f)"

definition activity_rows_of :: "activity_file \<Rightarrow> ActivityEvent list" where
  "activity_rows_of f = (case act_readStore f of Inl e \<Rightarrow> [] | Inr es \<Rightarrow> es)"

definition event_wf :: "ActivityEvent \<Rightarrow> bool" where
  "event_wf e \<longleftrightarrow> av_kind e \<in> set VALID_KINDS \<and> av_title e \<noteq> [] \<and> length (av_title e) \<le> 120 \<and> length (av_body e) \<le> 400
     \<and> (case av_href e of None \<Rightarrow> True | Some h \<Rightarrow> h \<noteq> [] \<and> hd h = CHR ''/'' \<and> length h \<le> 240)"

definition feed_ok :: "activity_file \<Rightarrow> bool" where
  "feed_ok f \<longleftrightarrow> list_all event_wf (activity_rows_of f) \<and> length (activity_rows_of f) \<le> MAX_EVENTS"

lemma act_rw [simp]:
  "act_readStore (act_writeStore es f) = Inr es" "activity_rows_of (act_writeStore es f) = es"
  by (simp_all add: act_readStore_def act_writeStore_def activity_rows_of_def)

lemma act_read_rows: "act_readStore f = Inr es \<Longrightarrow> activity_rows_of f = es"
  by (simp add: activity_rows_of_def)

lemma act_href_wf: "act_href h = Some s \<Longrightarrow> s \<noteq> [] \<and> hd s = CHR ''/'' \<and> length s \<le> 240"
  by (auto simp: act_href_def split: option.splits list.splits if_splits)

lemma wf_marked [simp]: "event_wf (av_read_update g e) = event_wf e"
  by (simp add: event_wf_def)

lemma marked_wf: "\<lbrakk>e \<in> set (upd_first q (av_read_update g) es); \<forall>x \<in> set es. event_wf x\<rbrakk> \<Longrightarrow> event_wf e"
  by (induction es) (auto split: if_splits)

lemma activity_exec_ok: "feed_ok f \<Longrightarrow> feed_ok (activity_exec p f)"
proof (cases "act_readStore f")
  case (Inl e)
  assume "feed_ok f"
  then show ?thesis using Inl
    by (cases p) (simp_all add: recordSafe_def recordActivity_def markRead_def markAllRead_def deleteEvent_def clearAll_def)
next
  case (Inr es)
  assume "feed_ok f"
  then have ok: "list_all event_wf es" "length es \<le> MAX_EVENTS" using act_read_rows[OF Inr] by (auto simp: feed_ok_def)
  show ?thesis
  proof (cases p)
    case (ARecordActivity t i input)
    then show ?thesis
      using ok \<open>feed_ok f\<close>
      by (auto simp: Inr recordSafe_def recordActivity_def Let_def feed_ok_def list_all_iff event_wf_def act_clamp_def
          dest!: act_href_wf in_set_takeD split: option.splits)
  qed (use ok \<open>feed_ok f\<close> in \<open>auto simp: Inr markRead_def markAllRead_def deleteEvent_def clearAll_def Let_def feed_ok_def list_all_iff
      dest: marked_wf split: option.splits intro: order_trans[OF length_filter_le]\<close>)
qed

interpretation feed: preserved activity_exec "\<lambda>_. True" feed_ok
  by unfold_locales (rule activity_exec_ok)

lemma unread_of_foldl: "foldl (\<lambda>n e. n + (if av_read e then 0 else 1)) k es = k + length (filter (\<lambda>e. \<not> av_read e) es)"
  by (induction es arbitrary: k) auto

lemma unread_of_length: "unread_of es = length (filter (\<lambda>e. \<not> av_read e) es)"
  by (simp add: unread_of_def unread_of_foldl)

lemma insert_desc_count: "length (filter P (insert_desc k x ys)) = (if P x then 1 else 0) + length (filter P ys)"
  by (induction ys) auto

lemma fold_desc_count: "length (filter P (fold (insert_desc k) xs ys)) = length (filter P xs) + length (filter P ys)"
  by (induction xs arbitrary: ys) (auto simp: insert_desc_count)

lemma sort_desc_count: "length (filter P (sort_desc k xs)) = length (filter P xs)"
  by (simp add: sort_desc_def fold_desc_count)

text \<open>The badge of a page is the number of unread events of the whole feed, whatever the filters of the query, and marking all
  events read clears it.\<close>

lemma unread_badge: "queryActivity q f = Inr res \<Longrightarrow> unreadCount f = Inr (aqr_unread res)"
  by (cases "act_readStore f") (auto simp: queryActivity_def unreadCount_def Let_def unread_of_length sort_desc_count)

lemma markAllRead_clears: "act_readStore f = Inr es \<Longrightarrow> unreadCount (snd (markAllRead f)) = Inr 0"
  by (auto simp: markAllRead_def unreadCount_def unread_of_length Let_def filter_map comp_def filter_empty_conv)

end
