(* ===== verification/Invites.thy ===== *)
theory Invites
  imports Http Activity
begin

text \<open>
  Seat-based onboarding: the store of invitations (\<^verbatim>\<open>src/web/lib/inviteStore.ts\<close>), the count of seats (\<^verbatim>\<open>seats.ts\<close>) and the route that
  turns an invitation into an API key (\<^verbatim>\<open>src/web/app/api/invites/[token]/accept/route.ts\<close>), over the key store. \<open>consumeInvite\<close>
  is split between its read and its write, so that two redemptions can overlap.

  The theorems: an invitation is redeemed at most as often as it allows and never with admin scope; an accepted
  invitation is one new key and one use, a refused one leaves no active key (one that throws may); redemptions stay within the seat limit in
  sequential use; and two overlapping redemptions both take the last use.
\<close>

section \<open>Invitations\<close>

record AcceptedRedemption =
  ac_key_id :: string
  ac_at :: string
  ac_ip_hash :: string

record Invite =
  in_token :: string
  in_label :: string
  in_scopes :: "Scope list"
  in_max_uses :: rat
  in_used_count :: nat
  in_accepted_by :: "AcceptedRedemption list"
  in_expires_at :: "string option"
  in_revoked :: bool
  in_created_at :: string
  in_created_by_key_id :: string

type_synonym invite_file = "Invite list cast_file"

definition inv_readStore :: "invite_file \<Rightarrow> Invite list res" where
  "inv_readStore f = (case f of NoFile \<Rightarrow> Inr [] | BadFile \<Rightarrow> Inl IoFault | Stored ivs \<Rightarrow> Inr ivs)"

definition inv_writeStore :: "Invite list \<Rightarrow> invite_file \<Rightarrow> invite_file" where
  "inv_writeStore ivs f = Stored ivs"

definition inv_hashIp :: "host \<Rightarrow> string \<Rightarrow> string" where
  "inv_hashIp H ip = take 32 (host_sha256 H ip)"

datatype InviteStatus = Pending | Exhausted | Expired | Revoked

fun invite_status_str :: "InviteStatus \<Rightarrow> string" where
  "invite_status_str Pending = ''pending''"
| "invite_status_str Exhausted = ''exhausted''"
| "invite_status_str Expired = ''expired''"
| "invite_status_str Revoked = ''revoked''"

definition statusOf :: "host \<Rightarrow> int \<Rightarrow> Invite \<Rightarrow> InviteStatus" where
  "statusOf H now iv =
     (if in_revoked iv then Revoked
      else if truthy (in_expires_at iv) \<and> (case date_parse H (or_empty (in_expires_at iv)) of None \<Rightarrow> False | Some t \<Rightarrow> t \<le> now) then Expired
      else if in_max_uses iv \<le> of_nat (in_used_count iv) then Exhausted
      else Pending)"

record InviteView =
  vi_token :: string
  vi_label :: string
  vi_scopes :: "Scope list"
  vi_max_uses :: rat
  vi_used_count :: nat
  vi_remaining :: rat
  vi_expires_at :: "string option"
  vi_revoked :: bool
  vi_created_at :: string
  vi_created_by_key_id :: string
  vi_accepted_by :: "(string \<times> string) list"
  vi_status :: InviteStatus

definition inv_publicView :: "host \<Rightarrow> int \<Rightarrow> Invite \<Rightarrow> InviteView" where
  "inv_publicView H now iv =
     \<lparr>vi_token = in_token iv, vi_label = in_label iv, vi_scopes = in_scopes iv, vi_max_uses = in_max_uses iv,
      vi_used_count = in_used_count iv, vi_remaining = max 0 (in_max_uses iv - of_nat (in_used_count iv)),
      vi_expires_at = in_expires_at iv, vi_revoked = in_revoked iv, vi_created_at = in_created_at iv,
      vi_created_by_key_id = in_created_by_key_id iv, vi_accepted_by = map (\<lambda>a. (ac_key_id a, ac_at a)) (in_accepted_by iv),
      vi_status = statusOf H now iv\<rparr>"

record RedeemerView =
  rd_token :: string
  rd_label :: string
  rd_scopes :: "Scope list"
  rd_expires_at :: "string option"
  rd_status :: InviteStatus

definition redeemerView :: "host \<Rightarrow> int \<Rightarrow> Invite \<Rightarrow> RedeemerView" where
  "redeemerView H now iv =
     \<lparr>rd_token = in_token iv, rd_label = in_label iv, rd_scopes = in_scopes iv, rd_expires_at = in_expires_at iv, rd_status = statusOf H now iv\<rparr>"

record CreateInviteInput =
  ci_label :: string
  ci_scopes :: "Scope list"
  ci_max_uses :: "jsnum option"
  ci_expires_in_seconds :: "jsnum option"
  ci_created_by_key_id :: "string option"

definition invite_uses :: "jsnum option \<Rightarrow> rat" where
  "invite_uses x = (case x of None \<Rightarrow> 1 | Some (Fin q) \<Rightarrow> if q < 1 then 1 else if 100 < q then 100 else q | Some _ \<Rightarrow> 1)"

text \<open>\<^verbatim>\<open>Math.min(Math.floor(x), 90 * 24 * 3600)\<close> seconds, for a positive \<open>x\<close>.\<close>

definition invite_ttl :: "jsnum option \<Rightarrow> int option" where
  "invite_ttl x =
     (case x of
        Some (Fin q) \<Rightarrow> if 0 < q then Some (min \<lfloor>q\<rfloor> (90 * 24 * 3600)) else None
      | Some PosInf \<Rightarrow> Some (90 * 24 * 3600)
      | _ \<Rightarrow> None)"

definition new_invite :: "clock \<Rightarrow> string \<Rightarrow> CreateInviteInput \<Rightarrow> Invite" where
  "new_invite c token input =
     \<lparr>in_token = token, in_label = (let l = take 80 (trim (ci_label input)) in if l = [] then ''invited member'' else l),
      in_scopes = create_scopes (ci_scopes input), in_max_uses = invite_uses (ci_max_uses input), in_used_count = 0, in_accepted_by = [],
      in_expires_at = map_option (\<lambda>ttl. toISOString (c 0 + ttl * 1000)) (invite_ttl (ci_expires_in_seconds input)), in_revoked = False,
      in_created_at = toISOString (c 1),
      in_created_by_key_id = take 64 (if truthy (ci_created_by_key_id input) then or_empty (ci_created_by_key_id input) else ''anon'')\<rparr>"

definition createInvite :: "clock \<Rightarrow> string \<Rightarrow> CreateInviteInput \<Rightarrow> invite_file \<Rightarrow> Invite res \<times> invite_file" where
  "createInvite c token input f =
     (case inv_readStore f of
        Inl e \<Rightarrow> (Inl e, f)
      | Inr ivs \<Rightarrow> (Inr (new_invite c token input), inv_writeStore (ivs @ [new_invite c token input]) f))"

definition listInvites :: "invite_file \<Rightarrow> Invite list res" where
  "listInvites f = map_sum id (sort_desc in_created_at) (inv_readStore f)"

definition getInvite :: "string \<Rightarrow> invite_file \<Rightarrow> Invite option res" where
  "getInvite token f = map_sum id (find (\<lambda>i. in_token i = token)) (inv_readStore f)"

definition revokeInvite :: "string \<Rightarrow> invite_file \<Rightarrow> bool res \<times> invite_file" where
  "revokeInvite token f =
     (case inv_readStore f of
        Inl e \<Rightarrow> (Inl e, f)
      | Inr ivs \<Rightarrow>
          (case find (\<lambda>i. in_token i = token) ivs of
             None \<Rightarrow> (Inr False, f)
           | Some iv \<Rightarrow>
               if in_revoked iv then (Inr True, f)
               else (Inr True, inv_writeStore (upd_first (\<lambda>i. in_token i = token) (in_revoked_update (\<lambda>_. True)) ivs) f)))"

definition use_invite :: "host \<Rightarrow> int \<Rightarrow> string \<Rightarrow> string \<Rightarrow> Invite \<Rightarrow> Invite" where
  "use_invite H now kid ip iv =
     iv\<lparr>in_used_count := Suc (in_used_count iv),
         in_accepted_by := in_accepted_by iv @ [\<lparr>ac_key_id = kid, ac_at = toISOString now, ac_ip_hash = inv_hashIp H ip\<rparr>]\<rparr>"

text \<open>What a redemption has found out before its write: that it fails, or the invitation and the rows to write. The write itself may throw
  (\<open>io\<close> is false), and leaves the file as it was.\<close>

definition consume_plan :: "host \<Rightarrow> clock \<Rightarrow> string \<Rightarrow> string \<Rightarrow> string \<Rightarrow> invite_file \<Rightarrow> (Invite \<times> Invite list) option res" where
  "consume_plan H c token kid ip f = map_sum id (\<lambda>ivs.
     case find (\<lambda>i. in_token i = token) ivs of
       None \<Rightarrow> None
     | Some iv \<Rightarrow>
         if statusOf H (c 0) iv \<noteq> Pending then None
         else Some (use_invite H (c 1) kid ip iv, upd_first (\<lambda>i. in_token i = token) (use_invite H (c 1) kid ip) ivs)) (inv_readStore f)"

definition consume_write :: "bool \<Rightarrow> (Invite \<times> Invite list) option res \<Rightarrow> invite_file \<Rightarrow> Invite option res \<times> invite_file" where
  "consume_write io p f =
     (case p of
        Inl e \<Rightarrow> (Inl e, f)
      | Inr None \<Rightarrow> (Inr None, f)
      | Inr (Some (iv, ivs)) \<Rightarrow> if io then (Inr (Some iv), inv_writeStore ivs f) else (Inl IoFault, f))"

definition consumeInvite :: "bool \<Rightarrow> host \<Rightarrow> clock \<Rightarrow> string \<Rightarrow> string \<Rightarrow> string \<Rightarrow> invite_file \<Rightarrow> Invite option res \<times> invite_file" where
  "consumeInvite io H c token kid ip f = consume_write io (consume_plan H c token kid ip f) f"

section \<open>Seats\<close>

text \<open>The limit is \<^verbatim>\<open>SIGNALCLAW_SEAT_LIMIT\<close>; \<open>num\<close> is \<^verbatim>\<open>Number\<close> on strings.\<close>

definition seatLimit :: "(string \<Rightarrow> jsnum) \<Rightarrow> string option \<Rightarrow> int" where
  "seatLimit num raw =
     (if \<not> truthy raw then 0
      else case num (or_empty raw) of Fin q \<Rightarrow> if q \<le> 0 then 0 else \<lfloor>q\<rfloor> | _ \<Rightarrow> 0)"

definition activeSeatCount :: "key_file \<Rightarrow> nat res" where
  "activeSeatCount ks = map_sum id (\<lambda>xs. length (filter (\<lambda>k. \<not> k_revoked k) xs)) (listKeys ks)"

record SeatUsage =
  su_used :: nat
  su_limit :: int
  su_remaining :: "int option"
  su_unlimited :: bool

text \<open>\<open>su_remaining\<close> is \<open>None\<close> for the infinite remainder of an unlimited workspace.\<close>

definition getSeatUsage :: "int \<Rightarrow> key_file \<Rightarrow> SeatUsage res" where
  "getSeatUsage limit ks = map_sum id (\<lambda>used.
     if limit = 0 then \<lparr>su_used = used, su_limit = 0, su_remaining = None, su_unlimited = True\<rparr>
     else \<lparr>su_used = used, su_limit = limit, su_remaining = Some (max 0 (limit - int used)), su_unlimited = False\<rparr>) (activeSeatCount ks)"

definition ensureSeatAvailable :: "int \<Rightarrow> key_file \<Rightarrow> unit res" where
  "ensureSeatAvailable limit ks =
     (case getSeatUsage limit ks of
        Inl e \<Rightarrow> Inl e
      | Inr u \<Rightarrow>
          if su_unlimited u then Inr ()
          else if su_limit u \<le> int (su_used u)
          then Inl (Thrown (''seat limit reached: '' @ int_str (int (su_used u)) @ ''/'' @ int_str (su_limit u)
                      @ '' keys in use; revoke one before minting another''))
          else Inr ())"

section \<open>Accepting an invitation\<close>

record accept_world =
  xw_keys :: key_file
  xw_invites :: invite_file
  xw_audit :: audit_store
  xw_activity :: activity_file

text \<open>
  The environment of one call. The clock: 0 and 1 the status, 2 the new key, 4 and 5 the redemption, from 6 on the audit lines and the
  activity. The environment also holds the drawn key id and secret, the seat limit read, the label the body carries, and which of the writes
  succeed: the append to the audit log (\<open>xe_io\<close>), the new key, the invitation, and the revocation of the key.
\<close>

record accept_env =
  xe_host :: host
  xe_clock :: clock
  xe_id :: "nat \<Rightarrow> string"
  xe_fresh :: string
  xe_io :: bool
  xe_io_mint :: bool
  xe_io_invite :: bool
  xe_io_revoke :: bool
  xe_key_id :: string
  xe_secret :: string
  xe_seat_limit :: int
  xe_label :: "string option"
  xe_headers :: headers

text \<open>A decline carries its status and its code; an acceptance the key, of which the caller sees the public view, and the secret.\<close>

datatype accept_result = Accepted StoredKey string | Declined int string

definition accept_audit :: "accept_env \<Rightarrow> string \<Rightarrow> int \<Rightarrow> string \<Rightarrow> accept_world \<Rightarrow> accept_world" where
  "accept_audit E token status reason w =
     w\<lparr>xw_audit := snd (recordAuditEvent (xe_host E) (xe_clock E 6) (xe_id E 6) (xe_fresh E) (xe_io E)
         \<lparr>ai_req = Some (xe_headers E), ai_route = ''/api/invites/'' @ token @ ''/accept'', ai_method = ''POST'', ai_status = status, ai_key = None,
          ai_reason = Some reason, ai_details = None\<rparr> (xw_audit w))\<rparr>"

text \<open>A \<^verbatim>\<open>NextRequest\<close> has no \<open>ip\<close> of its own, so without the headers the address is empty.\<close>

definition accept_ip :: "headers \<Rightarrow> string" where
  "accept_ip h =
     (if truthy (h ''x-forwarded-for'') then trim (hd (split_on (CHR '','') (or_empty (h ''x-forwarded-for''))))
      else if truthy (h ''x-real-ip'') then trim (or_empty (h ''x-real-ip'')) else [])"

definition accept_label :: "accept_env \<Rightarrow> Invite \<Rightarrow> string" where
  "accept_label E iv =
     (let l = take 80 (trim (or_empty (xe_label E))) in if l \<noteq> [] then l else in_label iv)"

text \<open>The ellipsis of the text, a character outside the model's, is written as dots.\<close>

definition accepted_activity :: "StoredKey \<Rightarrow> ActivityInput" where
  "accepted_activity k =
     \<lparr>an_kind = ''invite.accepted'', an_title = ''Invite redeemed '' @ [CHR 0xB7] @ '' '' @ k_label k,
      an_body = Some (''New key prefix '' @ k_prefix k @ ''...''), an_href = Some ''/settings/keys''\<rparr>"

text \<open>From the minted key on: take a use of the invitation, or revoke the key again.\<close>

definition accept_consume :: "accept_env \<Rightarrow> string \<Rightarrow> StoredKey \<Rightarrow> string \<Rightarrow> accept_world \<Rightarrow> accept_result res \<times> accept_world" where
  "accept_consume E token key secret w =
     (case consumeInvite (xe_io_invite E) (xe_host E) (\<lambda>i. xe_clock E (4 + i)) token (k_id key) (accept_ip (xe_headers E)) (xw_invites w) of
        (Inl e, f) \<Rightarrow> (Inl e, w\<lparr>xw_invites := f\<rparr>)
      | (Inr None, f) \<Rightarrow>
          (case revokeKey (k_id key) (xw_keys w) of
             (Inl e, ks) \<Rightarrow> (Inl e, w\<lparr>xw_invites := f, xw_keys := ks\<rparr>)
           | (Inr found, ks) \<Rightarrow>
               if found \<and> \<not> xe_io_revoke E then (Inl IoFault, w\<lparr>xw_invites := f\<rparr>)
               else (Inr (Declined 410 ''invite_exhausted''), accept_audit E token 410 ''invite_race_lost'' (w\<lparr>xw_invites := f, xw_keys := ks\<rparr>)))
      | (Inr (Some iv), f) \<Rightarrow>
          (Inr (Accepted key secret),
           accept_audit E token 200 ''invite_redeemed''
             (w\<lparr>xw_invites := f, xw_activity := recordSafe (xe_clock E 7) (xe_id E 7) (accepted_activity key) (xw_activity w)\<rparr>)))"

definition accept_POST :: "accept_env \<Rightarrow> string \<Rightarrow> accept_world \<Rightarrow> accept_result res \<times> accept_world" where
  "accept_POST E token w =
     (case getInvite token (xw_invites w) of
        Inl e \<Rightarrow> (Inl e, w)
      | Inr None \<Rightarrow> (Inr (Declined 404 ''not_found''), accept_audit E token 404 ''invite_not_found'' w)
      | Inr (Some iv) \<Rightarrow>
          (let status = statusOf (xe_host E) (xe_clock E 0) iv; code = ''invite_'' @ invite_status_str status in
           if status \<noteq> Pending then (Inr (Declined 410 code), accept_audit E token 410 code w)
           else case ensureSeatAvailable (xe_seat_limit E) (xw_keys w) of
             Inl e \<Rightarrow> (Inr (Declined 409 ''seat_limit''), accept_audit E token 409 ''seat_limit'' w)
           | Inr _ \<Rightarrow>
               (case createKey (xe_host E) (\<lambda>i. xe_clock E (2 + i)) (xe_key_id E) (xe_secret E)
                       \<lparr>cr_label = accept_label E iv, cr_scopes = in_scopes iv, cr_expires_at = None\<rparr> (xw_keys w) of
                  (Inl e, ks) \<Rightarrow> (Inl e, w\<lparr>xw_keys := ks\<rparr>)
                | (Inr (key, secret), ks) \<Rightarrow> if xe_io_mint E then accept_consume E token key secret (w\<lparr>xw_keys := ks\<rparr>) else (Inl IoFault, w))))"

section \<open>Every run of operations\<close>

definition invite_ok :: "Invite \<Rightarrow> bool" where
  "invite_ok iv \<longleftrightarrow> 1 \<le> in_max_uses iv \<and> in_max_uses iv \<le> 100 \<and> int (in_used_count iv) \<le> \<lceil>in_max_uses iv\<rceil>
     \<and> in_used_count iv = length (in_accepted_by iv) \<and> in_scopes iv \<noteq> [] \<and> set (in_scopes iv) \<subseteq> {S_read, S_trade}"

definition inv_rows :: "invite_file \<Rightarrow> Invite list" where
  "inv_rows f = (case inv_readStore f of Inl e \<Rightarrow> [] | Inr ivs \<Rightarrow> ivs)"

definition invites_ok :: "invite_file \<Rightarrow> bool" where
  "invites_ok f \<longleftrightarrow> list_all invite_ok (inv_rows f)"

datatype invite_op = ICreate clock string CreateInviteInput | IRevoke string | IConsume bool host clock string string string

fun invite_exec :: "invite_op \<Rightarrow> invite_file \<Rightarrow> invite_file" where
  "invite_exec (ICreate c t input) f = snd (createInvite c t input f)"
| "invite_exec (IRevoke t) f = snd (revokeInvite t f)"
| "invite_exec (IConsume io H c t kid ip) f = snd (consumeInvite io H c t kid ip f)"

lemma inv_rw [simp]: "inv_readStore (inv_writeStore ivs f) = Inr ivs" "inv_rows (inv_writeStore ivs f) = ivs"
  by (simp_all add: inv_readStore_def inv_writeStore_def inv_rows_def)

lemma inv_rows_read: "inv_readStore f = Inr ivs \<Longrightarrow> inv_rows f = ivs"
  by (simp add: inv_rows_def)

lemma create_scopes_ok: "create_scopes ss \<noteq> [] \<and> set (create_scopes ss) \<subseteq> {S_read, S_trade}"
  by (auto simp: create_scopes_def Let_def)

lemma new_invite_ok: "invite_ok (new_invite c t input)"
  using create_scopes_ok[of "ci_scopes input"]
  by (auto simp: invite_ok_def new_invite_def invite_uses_def split: option.splits jsnum.splits)

lemma use_invite_ok: "\<lbrakk>invite_ok iv; statusOf H now iv = Pending\<rbrakk> \<Longrightarrow> invite_ok (use_invite H t kid ip iv)"
proof -
  assume ok: "invite_ok iv" and "statusOf H now iv = Pending"
  then have "of_nat (in_used_count iv) < in_max_uses iv" by (auto simp: statusOf_def split: if_splits)
  then have "int (in_used_count iv) < \<lceil>in_max_uses iv\<rceil>" by (simp add: less_ceiling_iff)
  then show ?thesis using ok by (auto simp: invite_ok_def use_invite_def)
qed

lemma consume_cases:
  obtains (fails) e where "consumeInvite io H c t kid ip f = (Inl e, f)" "io \<Longrightarrow> inv_readStore f = Inl e"
  | (none) "consumeInvite io H c t kid ip f = (Inr None, f)"
  | (used) iv ivs where "inv_readStore f = Inr ivs" "find (\<lambda>i. in_token i = t) ivs = Some iv" "statusOf H (c 0) iv = Pending"
      "consumeInvite io H c t kid ip f = (Inr (Some (use_invite H (c 1) kid ip iv)),
         inv_writeStore (upd_first (\<lambda>i. in_token i = t) (use_invite H (c 1) kid ip) ivs) f)"
proof (cases "inv_readStore f")
  case (Inl e)
  then show thesis using fails by (simp add: consumeInvite_def consume_plan_def consume_write_def)
next
  case (Inr ivs)
  then show thesis
    using none used[OF Inr] fails
    by (cases "find (\<lambda>i. in_token i = t) ivs"; cases "statusOf H (c 0) (the (find (\<lambda>i. in_token i = t) ivs)) = Pending"; cases io)
      (auto simp: consumeInvite_def consume_plan_def consume_write_def)
qed

lemma invite_exec_ok: "invites_ok f \<Longrightarrow> invites_ok (invite_exec p f)"
proof (cases p)
  case (ICreate c t input)
  assume "invites_ok f"
  then show ?thesis using ICreate new_invite_ok
    by (cases "inv_readStore f") (auto simp: createInvite_def invites_ok_def dest: inv_rows_read)
next
  case (IRevoke t)
  assume ok: "invites_ok f"
  show ?thesis
  proof (cases "inv_readStore f")
    case (Inr ivs)
    then have "list_all invite_ok ivs" using ok inv_rows_read by (simp add: invites_ok_def)
    then have "list_all invite_ok (upd_first (\<lambda>i. in_token i = t) (in_revoked_update (\<lambda>_. True)) ivs)"
      by (rule list_all_upd_first) (simp add: invite_ok_def)
    then show ?thesis using Inr IRevoke ok by (auto simp: revokeInvite_def invites_ok_def split: option.splits)
  qed (use IRevoke ok in \<open>simp add: revokeInvite_def\<close>)
next
  case (IConsume io H c t kid ip)
  assume ok: "invites_ok f"
  show ?thesis
  proof (cases rule: consume_cases[of io H c t kid ip f])
    case (used iv ivs)
    then have "list_all invite_ok ivs" using ok inv_rows_read by (simp add: invites_ok_def)
    then have "list_all invite_ok (upd_first (\<lambda>i. in_token i = t) (use_invite H (c 1) kid ip) ivs)"
      by (rule list_all_upd_first) (use used use_invite_ok in auto)
    then show ?thesis using used IConsume by (simp add: invites_ok_def)
  qed (use IConsume ok in simp_all)
qed

interpretation invites: preserved invite_exec "\<lambda>_. True" invites_ok
  by unfold_locales (rule invite_exec_ok)

section \<open>The route\<close>

definition active_keys :: "key_file \<Rightarrow> StoredKey list" where
  "active_keys f = filter (\<lambda>k. \<not> k_revoked k) (ks_rows f)"

lemma accept_audit_simps [simp]:
  "xw_keys (accept_audit E t s r w) = xw_keys w" "xw_invites (accept_audit E t s r w) = xw_invites w"
  by (simp_all add: accept_audit_def)

lemma seat_available:
  assumes "ensureSeatAvailable limit f = Inr ()" "limit \<noteq> 0"
  shows "int (length (active_keys f)) < limit"
proof -
  obtain ks where ks: "readStore f = Inr ks"
    using assms(1) by (cases "readStore f") (auto simp: ensureSeatAvailable_def getSeatUsage_def activeSeatCount_def listKeys_def)
  have "length (filter (\<lambda>k. \<not> k_revoked k) (sort_desc k_created_at ks)) = length (filter (\<lambda>k. \<not> k_revoked k) ks)"
    by (rule sort_desc_count)
  then show ?thesis
    using assms ks by (auto simp: ensureSeatAvailable_def getSeatUsage_def activeSeatCount_def listKeys_def active_keys_def split: if_splits)
qed

text \<open>The outcomes of the route: nothing happens, or the invitation was pending, a seat was free, and a key was minted, which then either took a use
  or was revoked again.\<close>

lemma accept_cases:
  obtains (nothing) "xw_keys (snd (accept_POST E t w)) = xw_keys w" "xw_invites (snd (accept_POST E t w)) = xw_invites w"
      "\<And>k s. fst (accept_POST E t w) \<noteq> Inr (Accepted k s)"
  | (minted) ivs iv key ks where "inv_readStore (xw_invites w) = Inr ivs" "find (\<lambda>i. in_token i = t) ivs = Some iv"
      "statusOf (xe_host E) (xe_clock E 0) iv = Pending" "ensureSeatAvailable (xe_seat_limit E) (xw_keys w) = Inr ()"
      "readStore (xw_keys w) = Inr ks" "k_id key = xe_key_id E" "\<not> k_revoked key" "k_scopes key = create_scopes (in_scopes iv)"
      "accept_POST E t w = accept_consume E t key (xe_secret E) (w\<lparr>xw_keys := writeStore (ks @ [key]) (xw_keys w)\<rparr>)"
proof (cases "inv_readStore (xw_invites w)")
  case (Inl e)
  then show thesis by (intro that(1)) (simp_all add: accept_POST_def getInvite_def)
next
  case (Inr ivs)
  note rd = Inr
  show thesis
  proof (cases "find (\<lambda>i. in_token i = t) ivs")
    case None
    with rd show thesis by (intro that(1)) (simp_all add: accept_POST_def getInvite_def)
  next
    case (Some iv)
    show thesis
    proof (cases "statusOf (xe_host E) (xe_clock E 0) iv = Pending \<and> ensureSeatAvailable (xe_seat_limit E) (xw_keys w) = Inr ()")
      case False
      with rd Some show thesis
        by (intro that(1); cases "ensureSeatAvailable (xe_seat_limit E) (xw_keys w)") (auto simp: accept_POST_def getInvite_def Let_def)
    next
      case True
      show thesis
      proof (cases "readStore (xw_keys w)")
        case (Inl e)
        with rd Some True show thesis by (intro that(1)) (simp_all add: accept_POST_def getInvite_def createKey_def Let_def)
      next
        case (Inr ks)
        show thesis
        proof (cases "xe_io_mint E")
          case False
          with rd Some True Inr show thesis by (intro that(1)) (simp_all add: accept_POST_def getInvite_def createKey_def Let_def)
        qed (use rd Some True Inr in \<open>intro that(2)[OF rd Some _ _ Inr], auto simp: accept_POST_def getInvite_def createKey_def Let_def\<close>)
      qed
    qed
  qed
qed

lemma consume_after_mint:
  assumes "inv_readStore (xw_invites w) = Inr ivs"
  obtains (lost) ks' b where "accept_consume E t key s w
        = (Inr (Declined 410 ''invite_exhausted''), accept_audit E t 410 ''invite_race_lost'' (w\<lparr>xw_keys := ks'\<rparr>))"
      "revokeKey (k_id key) (xw_keys w) = (Inr b, ks')"
  | (failed) e where "accept_consume E t key s w = (Inl e, w)"
      "\<not> xe_io_invite E \<or> \<not> xe_io_revoke E \<or> (\<exists>e. fst (revokeKey (k_id key) (xw_keys w)) = Inl e)"
  | (taken) iv w' where "accept_consume E t key s w = (Inr (Accepted key s), w')" "xw_keys w' = xw_keys w"
      "find (\<lambda>i. in_token i = t) ivs = Some iv" "statusOf (xe_host E) (xe_clock E 4) iv = Pending"
      "inv_rows (xw_invites w') = upd_first (\<lambda>i. in_token i = t) (use_invite (xe_host E) (xe_clock E 5) (k_id key) (accept_ip (xe_headers E))) ivs"
proof (cases rule: consume_cases[of "xe_io_invite E" "xe_host E" "\<lambda>i. xe_clock E (4 + i)" t "k_id key" "accept_ip (xe_headers E)" "xw_invites w"])
  case (fails e)
  with assms show thesis using failed[of e] by (cases "xe_io_invite E") (simp_all add: accept_consume_def)
next
  case none
  show thesis
  proof (cases "revokeKey (k_id key) (xw_keys w)")
    case (Pair o' ks')
    with none show thesis
      using lost failed
      by (cases o'; cases "xe_io_revoke E") (auto simp: accept_consume_def revokeKey_def split: sum.splits option.splits if_splits)
  qed
next
  case (used iv is')
  then have "is' = ivs" using assms by simp
  with used show thesis by (intro taken[of "snd (accept_consume E t key s w)" iv]) (simp_all add: accept_consume_def)
qed

lemma active_snoc: "readStore f = Inr ks \<Longrightarrow> \<not> k_revoked key \<Longrightarrow> active_keys (writeStore (ks @ [key]) f) = active_keys f @ [key]"
  by (simp add: active_keys_def ks_rows_def readStore_def writeStore_def)

lemma revoke_active_le: "length (active_keys (snd (revokeKey kid f))) \<le> length (active_keys f)"
proof (cases "readStore f")
  case (Inr ks)
  have "length (filter (\<lambda>k. \<not> k_revoked k) (upd_first P (k_revoked_update (\<lambda>_. True)) ks)) \<le> length (filter (\<lambda>k. \<not> k_revoked k) ks)" for P
    by (induction ks) auto
  with Inr show ?thesis
    by (auto simp: revokeKey_def active_keys_def ks_rows_def readStore_def writeStore_def split: option.splits)
qed (simp add: revokeKey_def)

lemma revoke_last:
  assumes "readStore f = Inr ks" "k_id key \<notin> set (map k_id ks)" "\<not> k_revoked key"
  shows "active_keys (snd (revokeKey (k_id key) (writeStore (ks @ [key]) f))) = active_keys f"
    "fst (revokeKey (k_id key) (writeStore (ks @ [key]) f)) = Inr True"
proof -
  have n: "find (\<lambda>x. k_id x = k_id key) ks = None" using assms(2) by (auto simp: find_None_iff image_iff)
  then have f: "find (\<lambda>x. k_id x = k_id key) (ks @ [key]) = Some key" by (simp add: find_snoc)
  have u: "upd_first (\<lambda>x. k_id x = k_id key) g (ks @ [key]) = ks @ [g key]" for g
    using n by (induction ks) (auto split: if_splits)
  show "active_keys (snd (revokeKey (k_id key) (writeStore (ks @ [key]) f))) = active_keys f"
      "fst (revokeKey (k_id key) (writeStore (ks @ [key]) f)) = Inr True"
    using f u assms by (simp_all add: revokeKey_def active_keys_def ks_rows_def readStore_def writeStore_def)
qed

section \<open>Properties\<close>

text \<open>An invitation is never overspent in sequential use: from any sound store, whatever invitations are created, revoked and redeemed one after
  the other, every invitation has been redeemed at most as often as it allows (at most 100 times), has a record of every redemption, and
  grants read or trade scope only.\<close>

theorem invites_never_overspent: "invites_ok f \<Longrightarrow> invites_ok (fold invite_exec ps f)"
  by (rule invites.run) (simp_all add: list_all_iff)

text \<open>C34: One accepted invitation is one key and one use. When the route hands out a key, that key is the only new active one, it has the
  invitation's scopes and no admin scope, and the invitation has one more use, recorded for this key. When it declines, the active keys and
  the invitations are as before, even when a key had been minted already. When it throws, the invitations are as before; the active keys are too,
  unless a key was minted and the write of the invitation, or that of the key's revocation, threw: then this key stays active, and nobody has its
  secret.\<close>

theorem accept_is_one_key_one_use:
  assumes "xe_key_id E \<notin> set (map k_id (ks_rows (xw_keys w)))"
  shows "case fst (accept_POST E t w) of
      Inr (Accepted key s) \<Rightarrow> active_keys (xw_keys (snd (accept_POST E t w))) = active_keys (xw_keys w) @ [key] \<and> S_admin \<notin> set (k_scopes key)
        \<and> (\<exists>iv. find (\<lambda>i. in_token i = t) (inv_rows (xw_invites w)) = Some iv \<and> k_scopes key = create_scopes (in_scopes iv)
            \<and> find (\<lambda>i. in_token i = t) (inv_rows (xw_invites (snd (accept_POST E t w))))
                = Some (use_invite (xe_host E) (xe_clock E 5) (k_id key) (accept_ip (xe_headers E)) iv))
    | Inr (Declined status code) \<Rightarrow>
        active_keys (xw_keys (snd (accept_POST E t w))) = active_keys (xw_keys w) \<and> xw_invites (snd (accept_POST E t w)) = xw_invites w
    | Inl e \<Rightarrow> xw_invites (snd (accept_POST E t w)) = xw_invites w
        \<and> (active_keys (xw_keys (snd (accept_POST E t w))) = active_keys (xw_keys w)
           \<or> (\<not> xe_io_invite E \<or> \<not> xe_io_revoke E)
               \<and> (\<exists>key. k_id key = xe_key_id E \<and> active_keys (xw_keys (snd (accept_POST E t w))) = active_keys (xw_keys w) @ [key]))"
proof (cases rule: accept_cases[of E t w])
  case nothing
  then show ?thesis by (auto split: sum.splits accept_result.splits)
next
  case (minted ivs iv key ks)
  let ?w = "w\<lparr>xw_keys := writeStore (ks @ [key]) (xw_keys w)\<rparr>"
  have fresh: "k_id key \<notin> set (map k_id ks)" using assms minted(5,6) by simp
  note rv = revoke_last[OF minted(5) fresh minted(7)] and more = active_snoc[OF minted(5,7)]
  have rd: "inv_readStore (xw_invites ?w) = Inr ivs" using minted(1) by simp
  have adm: "S_admin \<notin> set (k_scopes key)" using create_scopes_ok[of "in_scopes iv"] minted(8) by auto
  from rd show ?thesis
  proof (cases rule: consume_after_mint[where E = E and t = t and key = key and s = "xe_secret E"])
    case (lost ks' b)
    then show ?thesis using rv minted(9) by simp
  next
    case (failed e)
    then show ?thesis using rv(2) more minted(6,9) by auto
  next
    case (taken iv' w')
    have "find (\<lambda>i. in_token i = t) (inv_rows (xw_invites w'))
        = Some (use_invite (xe_host E) (xe_clock E 5) (k_id key) (accept_ip (xe_headers E)) iv')"
      unfolding taken(5) by (rule find_upd_first_same[OF taken(3)]) (use find_SomeD[OF taken(3)] in \<open>simp add: use_invite_def\<close>)
    then show ?thesis
      using taken minted adm more inv_rows_read[OF minted(1)] by simp
  qed
qed

text \<open>The key that is left over: for a pending invitation and a free seat, a throwing write of the invitation leaves the minted key active.\<close>

lemma failed_invite_write_leaves_key:
  assumes "inv_readStore (xw_invites w) = Inr ivs" "find (\<lambda>i. in_token i = t) ivs = Some iv"
    and "statusOf (xe_host E) (xe_clock E 0) iv = Pending" "statusOf (xe_host E) (xe_clock E 4) iv = Pending"
    and "ensureSeatAvailable (xe_seat_limit E) (xw_keys w) = Inr ()" "readStore (xw_keys w) = Inr ks"
    and "xe_io_mint E" "\<not> xe_io_invite E"
  shows "\<exists>key w'. accept_POST E t w = (Inl IoFault, w') \<and> active_keys (xw_keys w') = active_keys (xw_keys w) @ [key] \<and> xw_invites w' = xw_invites w"
  using assms by (simp add: accept_POST_def getInvite_def createKey_def accept_consume_def consumeInvite_def consume_plan_def consume_write_def
      active_snoc Let_def)

definition accept_exec :: "accept_env \<times> string \<Rightarrow> accept_world \<Rightarrow> accept_world" where
  "accept_exec p w = snd (accept_POST (fst p) (snd p) w)"

lemma accept_seats:
  assumes "xe_seat_limit E = limit" "0 < limit" "int (length (active_keys (xw_keys w))) \<le> limit"
  shows "int (length (active_keys (xw_keys (snd (accept_POST E t w))))) \<le> limit"
proof (cases rule: accept_cases[of E t w])
  case nothing
  then show ?thesis using assms(3) by simp
next
  case (minted ivs iv key ks)
  let ?w = "w\<lparr>xw_keys := writeStore (ks @ [key]) (xw_keys w)\<rparr>"
  have room: "int (length (active_keys (xw_keys ?w))) \<le> limit"
    using seat_available[OF minted(4)] assms(1,2) active_snoc[OF minted(5,7)] by simp
  have "inv_readStore (xw_invites ?w) = Inr ivs" using minted(1) by simp
  then show ?thesis
  proof (cases rule: consume_after_mint[where E = E and t = t and key = key and s = "xe_secret E"])
    case (lost ks' b)
    then show ?thesis using room minted(9) revoke_active_le[of "k_id key" "xw_keys ?w"] by simp
  next
    case (failed e)
    then show ?thesis using room minted(9) by simp
  next
    case (taken iv' w')
    then show ?thesis using room minted(9) by simp
  qed
qed

interpretation seats: preserved accept_exec "\<lambda>p. xe_seat_limit (fst p) = limit \<and> 0 < limit" "\<lambda>w. int (length (active_keys (xw_keys w))) \<le> limit"
  for limit
  by unfold_locales (simp add: accept_exec_def accept_seats)

text \<open>Redemptions respect the seat limit: in any sequence of accepted and refused invitations under a limit, a workspace within its limit
  stays within it.\<close>

theorem seats_within_limit:
  assumes "list_all (\<lambda>p. xe_seat_limit (fst p) = limit) ps" "0 < limit" "int (length (active_keys (xw_keys w))) \<le> limit"
  shows "int (length (active_keys (xw_keys (fold accept_exec ps w)))) \<le> limit"
  by (rule seats.run) (use assms in \<open>simp_all add: list_all_iff\<close>)

text \<open>Overlap. Two redemptions that both read the store before either writes both succeed, although the invitation had one use left, and the
  store then counts one of them only: the second write puts back the row the first one changed.\<close>

theorem overlapping_redemptions_overspend:
  assumes "inv_readStore f = Inr ivs" "find (\<lambda>i. in_token i = t) ivs = Some iv"
    and "statusOf H (c1 0) iv = Pending" "statusOf H (c2 0) iv = Pending"
  shows "\<exists>i1 f1 i2 f2. consume_write True (consume_plan H c1 t k1 ip1 f) f = (Inr (Some i1), f1)
    \<and> consume_write True (consume_plan H c2 t k2 ip2 f) f1 = (Inr (Some i2), f2)
    \<and> find (\<lambda>i. in_token i = t) (inv_rows f2) = Some (use_invite H (c2 1) k2 ip2 iv)"
proof -
  have "in_token (use_invite H (c2 1) k2 ip2 iv) = t" using find_SomeD[OF assms(2)] by (simp add: use_invite_def)
  with assms find_upd_first_same[OF assms(2), of "use_invite H (c2 1) k2 ip2"] show ?thesis
    by (simp add: consume_plan_def consume_write_def)
qed

section \<open>Witnesses\<close>

definition sample_invite :: Invite where
  "sample_invite = new_invite (\<lambda>_. 1000) ''inv_a''
     \<lparr>ci_label = ''desk'', ci_scopes = [S_trade], ci_max_uses = Some (Fin 1), ci_expires_in_seconds = None, ci_created_by_key_id = None\<rparr>"

definition sample_accept :: accept_env where
  "sample_accept = \<lparr>xe_host = sample_host, xe_clock = (\<lambda>i. 2000 + int i), xe_id = (\<lambda>_. ''a''), xe_fresh = ''n'', xe_io = True, xe_io_mint = True, xe_io_invite = True, xe_io_revoke = True, xe_key_id = ''k9'',
     xe_secret = ''sc_live_x'', xe_seat_limit = 2, xe_label = None, xe_headers = (\<lambda>_. None)\<rparr>"

definition sample_onboarding :: accept_world where
  "sample_onboarding = \<lparr>xw_keys = Stored [sample_key], xw_invites = Stored [sample_invite], xw_audit = \<lparr>au_primary = [], au_rolled = [], au_key_file = None, au_key_cache = None, au_last_hash = None\<rparr>,
     xw_activity = NoFile\<rparr>"

theorem invites_never_overspent_witness:
  "invites_ok (fold invite_exec [IConsume True sample_host (\<lambda>_. 2000) ''inv_a'' ''k1'' ''10.0.0.1'', IConsume False sample_host (\<lambda>_. 3000) ''inv_a'' ''k2'' []]
     (Stored [sample_invite]))"
  by (rule invites_never_overspent) (simp add: invites_ok_def inv_rows_def inv_readStore_def sample_invite_def new_invite_ok)

lemma sample_status: "statusOf H now sample_invite = Pending"
  by (simp add: statusOf_def sample_invite_def new_invite_def invite_uses_def invite_ttl_def)

lemma sample_accepted: "\<exists>key s. fst (accept_POST sample_accept ''inv_a'' sample_onboarding) = Inr (Accepted key s)"
proof -
  have "in_token sample_invite = ''inv_a''" by (simp add: sample_invite_def new_invite_def)
  moreover have "ensureSeatAvailable (xe_seat_limit sample_accept) (xw_keys sample_onboarding) = Inr ()"
    by (simp add: sample_accept_def sample_onboarding_def ensureSeatAvailable_def getSeatUsage_def activeSeatCount_def listKeys_def readStore_def sort_desc_def
        sample_key_def)
  moreover have "xe_io_mint sample_accept \<and> xe_io_invite sample_accept" by (simp add: sample_accept_def)
  ultimately show ?thesis
    by (simp add: accept_POST_def getInvite_def inv_readStore_def sample_onboarding_def sample_status createKey_def readStore_def Let_def accept_consume_def
        consumeInvite_def consume_plan_def consume_write_def)
qed

text \<open>The invitation gives one more key beside the one there is.\<close>

theorem accept_is_one_key_one_use_witness:
  "\<exists>key s. fst (accept_POST sample_accept ''inv_a'' sample_onboarding) = Inr (Accepted key s)
    \<and> active_keys (xw_keys (snd (accept_POST sample_accept ''inv_a'' sample_onboarding))) = [sample_key, key] \<and> S_admin \<notin> set (k_scopes key)"
proof -
  have "xe_key_id sample_accept \<notin> set (map k_id (ks_rows (xw_keys sample_onboarding)))"
    by (simp add: sample_accept_def sample_onboarding_def ks_rows_def readStore_def sample_key_def)
  from accept_is_one_key_one_use[OF this, of "''inv_a''"] sample_accepted show ?thesis
    by (auto simp: sample_onboarding_def active_keys_def ks_rows_def readStore_def sample_key_def)
qed

theorem seats_within_limit_witness:
  "int (length (active_keys (xw_keys (fold accept_exec [(sample_accept, ''inv_a''), (sample_accept\<lparr>xe_key_id := ''k10''\<rparr>, ''inv_a'')] sample_onboarding)))) \<le> 2"
  by (rule seats_within_limit) (simp_all add: sample_accept_def sample_onboarding_def active_keys_def ks_rows_def readStore_def sample_key_def)

text \<open>Two members redeem the one use of the invitation: the store records the second only.\<close>

theorem overlapping_redemptions_overspend_witness:
  "\<exists>i1 f1 i2 f2. consume_write True (consume_plan sample_host (\<lambda>_. 2000) ''inv_a'' ''k1'' ''10.0.0.1'' (Stored [sample_invite])) (Stored [sample_invite]) = (Inr (Some i1), f1)
    \<and> consume_write True (consume_plan sample_host (\<lambda>_. 2000) ''inv_a'' ''k2'' ''10.0.0.2'' (Stored [sample_invite])) f1 = (Inr (Some i2), f2)
    \<and> find (\<lambda>i. in_token i = ''inv_a'') (inv_rows f2) = Some (use_invite sample_host 2000 ''k2'' ''10.0.0.2'' sample_invite)"
proof (rule overlapping_redemptions_overspend)
  show "inv_readStore (Stored [sample_invite]) = Inr [sample_invite]" by (simp add: inv_readStore_def)
  show "find (\<lambda>i. in_token i = ''inv_a'') [sample_invite] = Some sample_invite" by (simp add: sample_invite_def new_invite_def)
qed (rule sample_status)+

end
