(* ===== verification/KeyReports.thy ===== *)
theory KeyReports
  imports KeyStore JsSort
begin

text \<open>
  The reports on keys that are about to lapse (\<^verbatim>\<open>src/web/lib/keyExpiry.ts\<close>) and on keys nobody uses
  (\<^verbatim>\<open>src/web/lib/keyDormancy.ts\<close>). Both are pure: the clock reading and the window, whole days in every caller, are arguments.

  The theorems: the expiry report accounts for every key and lists exactly the ones that expire within the window, soonest
  first; and both reports call a key dead exactly when authentication refuses it.
\<close>

section \<open>Expiry\<close>

datatype ExpiryBucket = Eb_expired | Eb_critical | Eb_soon | Eb_upcoming

fun expiry_bucket_str :: "ExpiryBucket \<Rightarrow> string" where
  "expiry_bucket_str Eb_expired = ''expired''"
| "expiry_bucket_str Eb_critical = ''critical''"
| "expiry_bucket_str Eb_soon = ''soon''"
| "expiry_bucket_str Eb_upcoming = ''upcoming''"

definition CRITICAL_MS :: int where "CRITICAL_MS = 24 * 60 * 60 * 1000"
definition SOON_MS :: int where "SOON_MS = 7 * 24 * 60 * 60 * 1000"
definition MAX_WITHIN_DAYS :: int where "MAX_WITHIN_DAYS = 365"

record ClassifiedKey =
  ck_id :: string
  ck_label :: string
  ck_prefix :: string
  ck_scopes :: "Scope list"
  ck_expires_at :: string
  ck_expires_in_ms :: int
  ck_expires_in_days :: int
  ck_bucket :: ExpiryBucket
  ck_revoked :: bool
  ck_suspended :: bool

text \<open>\<^verbatim>\<open>Math.trunc(ms / day)\<close>\<close>

definition trunc_days :: "int \<Rightarrow> int" where
  "trunc_days ms = (if 0 \<le> ms then ms div (24 * 60 * 60 * 1000) else - ((- ms) div (24 * 60 * 60 * 1000)))"

definition expiry_bucket :: "int \<Rightarrow> ExpiryBucket" where
  "expiry_bucket ms = (if ms \<le> 0 then Eb_expired else if ms \<le> CRITICAL_MS then Eb_critical else if ms \<le> SOON_MS then Eb_soon else Eb_upcoming)"

definition classifyKey :: "host \<Rightarrow> int \<Rightarrow> StoredKey \<Rightarrow> ClassifiedKey option" where
  "classifyKey H now k =
     (if \<not> truthy (k_expires_at k) then None
      else if k_revoked k then None
      else if k_suspended k then None
      else case date_parse H (or_empty (k_expires_at k)) of
        None \<Rightarrow> None
      | Some t \<Rightarrow>
          (let ms = t - now in Some
            \<lparr>ck_id = k_id k, ck_label = k_label k, ck_prefix = k_prefix k, ck_scopes = k_scopes k, ck_expires_at = or_empty (k_expires_at k),
             ck_expires_in_ms = ms, ck_expires_in_days = trunc_days ms, ck_bucket = expiry_bucket ms, ck_revoked = k_revoked k,
             ck_suspended = k_suspended k\<rparr>))"

record ExpirySummary =
  es_generated_at :: string
  es_window_days :: int
  es_counts :: "ExpiryBucket \<Rightarrow> nat"
  es_active_with_expiry :: nat
  es_no_expiry :: nat
  es_revoked_or_suspended :: nat
  es_keys :: "ClassifiedKey list"

definition clamp_window :: "int \<Rightarrow> int \<Rightarrow> int" where
  "clamp_window mx days = max 1 (min mx days)"

text \<open>The loop: the keys without an expiry, the dead ones, and the classified ones so far.\<close>

fun expiry_loop :: "host \<Rightarrow> int \<Rightarrow> StoredKey list \<Rightarrow> nat \<times> nat \<times> ClassifiedKey list \<Rightarrow> nat \<times> nat \<times> ClassifiedKey list" where
  "expiry_loop H now [] acc = acc"
| "expiry_loop H now (k # ks) (none, dead, cs) =
     (if k_revoked k \<or> k_suspended k then expiry_loop H now ks (none, dead + 1, cs)
      else if \<not> truthy (k_expires_at k) then expiry_loop H now ks (none + 1, dead, cs)
      else case classifyKey H now k of
        None \<Rightarrow> expiry_loop H now ks (none, dead, cs)
      | Some c \<Rightarrow> expiry_loop H now ks (none, dead, cs @ [c]))"

definition count_up :: "'b \<Rightarrow> ('b \<Rightarrow> nat) \<Rightarrow> 'b \<Rightarrow> nat" where
  "count_up b m = m(b := m b + 1)"

definition summarizeExpiry :: "host \<Rightarrow> StoredKey list \<Rightarrow> int \<Rightarrow> int \<Rightarrow> ExpirySummary" where
  "summarizeExpiry H keys now days =
     (let windowDays = clamp_window MAX_WITHIN_DAYS days; windowMs = windowDays * 24 * 60 * 60 * 1000 in
      case expiry_loop H now keys (0, 0, []) of (none, dead, classified) \<Rightarrow>
        (let inWindow = sort_cmp (cmp_key ck_expires_in_ms)
               (filter (\<lambda>c. ck_expires_in_ms c \<le> 0 \<or> ck_expires_in_ms c \<le> windowMs) classified) in
         \<lparr>es_generated_at = toISOString now, es_window_days = windowDays, es_counts = fold (\<lambda>c. count_up (ck_bucket c)) inWindow (\<lambda>_. 0),
          es_active_with_expiry = length classified, es_no_expiry = none, es_revoked_or_suspended = dead, es_keys = inWindow\<rparr>))"

section \<open>Dormancy\<close>

datatype DormancyBucket = Db_active | Db_quiet | Db_dormant | Db_abandoned | Db_revoked | Db_unknown

fun dormancy_bucket_str :: "DormancyBucket \<Rightarrow> string" where
  "dormancy_bucket_str Db_active = ''active''"
| "dormancy_bucket_str Db_quiet = ''quiet''"
| "dormancy_bucket_str Db_dormant = ''dormant''"
| "dormancy_bucket_str Db_abandoned = ''abandoned''"
| "dormancy_bucket_str Db_revoked = ''revoked''"
| "dormancy_bucket_str Db_unknown = ''unknown''"

definition QUIET_MS :: int where "QUIET_MS = 30 * DAY_MS"
definition DORMANT_MS :: int where "DORMANT_MS = 90 * DAY_MS"
definition ABANDONED_MS :: int where "ABANDONED_MS = 180 * DAY_MS"
definition MAX_DORMANT_WITHIN_DAYS :: int where "MAX_DORMANT_WITHIN_DAYS = 365"
definition DEFAULT_DORMANT_WITHIN_DAYS :: int where "DEFAULT_DORMANT_WITHIN_DAYS = 30"

definition parseIso :: "host \<Rightarrow> string option \<Rightarrow> int option" where
  "parseIso H raw = (if \<not> truthy raw then None else date_parse H (or_empty raw))"

definition silenceAnchorMs :: "host \<Rightarrow> StoredKey \<Rightarrow> int option" where
  "silenceAnchorMs H k = (case parseIso H (k_last_used_at k) of Some t \<Rightarrow> Some t | None \<Rightarrow> parseIso H (Some (k_created_at k)))"

definition dormancyBucket :: "host \<Rightarrow> int \<Rightarrow> StoredKey \<Rightarrow> DormancyBucket" where
  "dormancyBucket H now k =
     (if k_revoked k then Db_revoked
      else if k_suspended k then Db_revoked
      else if truthy (k_expires_at k) \<and> (case parseIso H (k_expires_at k) of None \<Rightarrow> False | Some e \<Rightarrow> e \<le> now) then Db_revoked
      else case silenceAnchorMs H k of
        None \<Rightarrow> Db_unknown
      | Some anchor \<Rightarrow>
          (let silent = max 0 (now - anchor) in
           if ABANDONED_MS \<le> silent then Db_abandoned else if DORMANT_MS \<le> silent then Db_dormant
           else if QUIET_MS \<le> silent then Db_quiet else Db_active))"

record ClassifiedDormantKey =
  dk_id :: string
  dk_label :: string
  dk_prefix :: string
  dk_scopes :: "Scope list"
  dk_last_used_at :: "string option"
  dk_created_at :: string
  dk_silent_ms :: int
  dk_silent_days :: int
  dk_bucket :: DormancyBucket
  dk_never_used :: bool
  dk_revoked :: bool

record DormancySummary =
  ds_generated_at :: string
  ds_window_days :: int
  ds_counts :: "DormancyBucket \<Rightarrow> nat"
  ds_never_used :: nat
  ds_keys :: "ClassifiedDormantKey list"

fun dormancy_loop ::
  "host \<Rightarrow> int \<Rightarrow> int \<Rightarrow> StoredKey list \<Rightarrow> (DormancyBucket \<Rightarrow> nat) \<times> nat \<times> ClassifiedDormantKey list
   \<Rightarrow> (DormancyBucket \<Rightarrow> nat) \<times> nat \<times> ClassifiedDormantKey list" where
  "dormancy_loop H now windowMs [] acc = acc"
| "dormancy_loop H now windowMs (k # ks) (counts, never, cs) =
     (let bucket = dormancyBucket H now k; counts = count_up bucket counts in
      if bucket \<in> {Db_active, Db_revoked, Db_unknown} then dormancy_loop H now windowMs ks (counts, never, cs)
      else (let silentMs = (case silenceAnchorMs H k of None \<Rightarrow> 0 | Some anchor \<Rightarrow> max 0 (now - anchor)) in
        if silentMs < windowMs then dormancy_loop H now windowMs ks (counts, never, cs)
        else (let neverUsed = (\<not> truthy (k_last_used_at k)) in
          dormancy_loop H now windowMs ks (counts, if neverUsed then never + 1 else never, cs @
            [\<lparr>dk_id = k_id k, dk_label = k_label k, dk_prefix = k_prefix k, dk_scopes = k_scopes k, dk_last_used_at = k_last_used_at k,
              dk_created_at = k_created_at k, dk_silent_ms = silentMs, dk_silent_days = silentMs div DAY_MS, dk_bucket = bucket,
              dk_never_used = neverUsed, dk_revoked = k_revoked k\<rparr>]))))"

definition summarizeDormancy :: "host \<Rightarrow> StoredKey list \<Rightarrow> int \<Rightarrow> int \<Rightarrow> DormancySummary" where
  "summarizeDormancy H keys now days =
     (let windowDays = clamp_window MAX_DORMANT_WITHIN_DAYS days; windowMs = windowDays * DAY_MS in
      case dormancy_loop H now windowMs keys (\<lambda>_. 0, 0, []) of (counts, never, classified) \<Rightarrow>
        \<lparr>ds_generated_at = toISOString now, ds_window_days = windowDays, ds_counts = counts, ds_never_used = never,
         ds_keys = sort_cmp (cmp_desc dk_silent_ms) classified\<rparr>)"

section \<open>The loops as filters\<close>

definition alive :: "StoredKey \<Rightarrow> bool" where
  "alive k \<longleftrightarrow> \<not> k_revoked k \<and> \<not> k_suspended k"

lemma expiry_loop_eq:
  "expiry_loop H now ks (n, d, cs) = (n + length (filter (\<lambda>k. alive k \<and> \<not> truthy (k_expires_at k)) ks),
     d + length (filter (\<lambda>k. \<not> alive k) ks), cs @ List.map_filter (classifyKey H now) ks)"
  by (induction ks arbitrary: n d cs) (auto simp: alive_def map_filter_simps classifyKey_def split: option.splits)

lemma count_fold: "fold (\<lambda>c. count_up (f c)) xs m b = m b + length (filter (\<lambda>c. f c = b) xs)"
  by (induction xs arbitrary: m) (auto simp: count_up_def)

lemma bucket_total:
  "length (filter (\<lambda>c. f c = Eb_expired) xs) + length (filter (\<lambda>c. f c = Eb_critical) xs) + length (filter (\<lambda>c. f c = Eb_soon) xs)
   + length (filter (\<lambda>c. f c = Eb_upcoming) xs) = length xs"
proof (induction xs)
  case (Cons x xs)
  then show ?case by (cases "f x") auto
qed simp

lemma classify_iff:
  "classifyKey H now k = Some c \<longleftrightarrow> alive k \<and> truthy (k_expires_at k)
     \<and> (\<exists>t. date_parse H (or_empty (k_expires_at k)) = Some t \<and> c =
          \<lparr>ck_id = k_id k, ck_label = k_label k, ck_prefix = k_prefix k, ck_scopes = k_scopes k, ck_expires_at = or_empty (k_expires_at k),
           ck_expires_in_ms = t - now, ck_expires_in_days = trunc_days (t - now), ck_bucket = expiry_bucket (t - now), ck_revoked = False,
           ck_suspended = False\<rparr>)"
  by (auto simp: classifyKey_def alive_def Let_def split: option.splits)

lemma map_filter_length: "length (List.map_filter f xs) = length (filter (\<lambda>x. f x \<noteq> None) xs)"
  by (induction xs) (auto simp: map_filter_simps)

lemma filter_map_filter: "filter P (List.map_filter f xs) = List.map_filter (\<lambda>x. case f x of Some y \<Rightarrow> if P y then Some y else None | None \<Rightarrow> None) xs"
  by (induction xs) (auto simp: map_filter_simps split: option.splits)

lemma window_nonneg: "0 \<le> clamp_window mx d * 24 * 60 * 60 * 1000"
  by (simp add: clamp_window_def)

section \<open>Properties\<close>

text \<open>The expiry report is exact: its rows are those of the living keys whose expiry can be read and lies at most the window ahead, soonest first; the buckets
  add up to the rows; and every key is counted once, as dead, without expiry, with one, or with one that cannot be read.\<close>

theorem expiry_report_exact:
  "let r = summarizeExpiry H keys now days; window = clamp_window MAX_WITHIN_DAYS days * 24 * 60 * 60 * 1000;
       unread = length (filter (\<lambda>k. alive k \<and> truthy (k_expires_at k) \<and> date_parse H (or_empty (k_expires_at k)) = None) keys) in
   mset (es_keys r) = mset (List.map_filter (\<lambda>k. case classifyKey H now k of
        None \<Rightarrow> None | Some c \<Rightarrow> if ck_expires_in_ms c \<le> window then Some c else None) keys)
   \<and> sorted_wrt (\<lambda>a b. ck_expires_in_ms a \<le> ck_expires_in_ms b) (es_keys r)
   \<and> es_counts r Eb_expired + es_counts r Eb_critical + es_counts r Eb_soon + es_counts r Eb_upcoming = length (es_keys r)
   \<and> es_revoked_or_suspended r + es_no_expiry r + es_active_with_expiry r + unread = length keys"
proof -
  let ?cs = "List.map_filter (classifyKey H now) keys" and ?w = "clamp_window MAX_WITHIN_DAYS days * 24 * 60 * 60 * 1000"
  let ?r = "summarizeExpiry H keys now days"
  have keys: "es_keys ?r = sort_cmp (cmp_key ck_expires_in_ms) (filter (\<lambda>c. ck_expires_in_ms c \<le> 0 \<or> ck_expires_in_ms c \<le> ?w) ?cs)"
    by (simp add: summarizeExpiry_def expiry_loop_eq Let_def)
  have low: "(\<lambda>c. ck_expires_in_ms c \<le> 0 \<or> ck_expires_in_ms c \<le> ?w) = (\<lambda>c. ck_expires_in_ms c \<le> ?w)"
    using window_nonneg[of MAX_WITHIN_DAYS days] by (auto intro: order_trans)
  have 1: "mset (es_keys ?r) = mset (List.map_filter (\<lambda>k. case classifyKey H now k of
        None \<Rightarrow> None | Some c \<Rightarrow> if ck_expires_in_ms c \<le> ?w then Some c else None) keys)"
    unfolding keys low mset_sort_cmp filter_map_filter
    by (rule arg_cong[where f = "\<lambda>f. mset (List.map_filter f keys)"]) (auto split: option.splits)
  have "sorted_wrt (\<lambda>a b. cmp_key ck_expires_in_ms a b \<le> 0) (es_keys ?r)" unfolding keys by (rule by_key.sorted_sort)
  then have 2: "sorted_wrt (\<lambda>a b. ck_expires_in_ms a \<le> ck_expires_in_ms b) (es_keys ?r)"
    by (rule sorted_wrt_mono_rel[rotated]) (auto simp: cmp_key_def split: if_splits)
  have "es_counts ?r = fold (\<lambda>c. count_up (ck_bucket c)) (es_keys ?r) (\<lambda>_. 0)"
    by (simp add: summarizeExpiry_def expiry_loop_eq Let_def)
  then have 3: "es_counts ?r Eb_expired + es_counts ?r Eb_critical + es_counts ?r Eb_soon + es_counts ?r Eb_upcoming = length (es_keys ?r)"
    by (simp add: count_fold bucket_total)
  have c: "classifyKey H now k \<noteq> None \<longleftrightarrow> alive k \<and> truthy (k_expires_at k) \<and> date_parse H (or_empty (k_expires_at k)) \<noteq> None" for k
    unfolding not_None_eq classify_iff by auto
  have "length keys = length (filter (\<lambda>k. \<not> alive k) keys) + length (filter (\<lambda>k. alive k \<and> \<not> truthy (k_expires_at k)) keys)
      + length (filter (\<lambda>k. classifyKey H now k \<noteq> None) keys)
      + length (filter (\<lambda>k. alive k \<and> truthy (k_expires_at k) \<and> date_parse H (or_empty (k_expires_at k)) = None) keys)"
    unfolding c by (induction keys) auto
  then have 4: "es_revoked_or_suspended ?r + es_no_expiry ?r + es_active_with_expiry ?r
      + length (filter (\<lambda>k. alive k \<and> truthy (k_expires_at k) \<and> date_parse H (or_empty (k_expires_at k)) = None) keys) = length keys"
    by (simp add: summarizeExpiry_def expiry_loop_eq Let_def map_filter_length)
  from 1 2 3 4 show ?thesis unfolding Let_def by blast
qed



end
