(* ===== verification/RouteAllowlist.thy ===== *)
theory RouteAllowlist
  imports JsonStore "HOL-Library.Sublist"
begin

text \<open>
  The per-key route allowlist (\<^verbatim>\<open>src/web/lib/routeAllowlist.ts\<close>): validation of a submitted list
  and the prefix match against a request path. The theorems say that a match is a prefix
  match on whole path segments, and what an accepted list looks like.
\<close>

section \<open>Operations\<close>

definition MAX_ROUTE_ENTRIES :: nat where "MAX_ROUTE_ENTRIES = 32"

definition MAX_ROUTE_ENTRY_LEN :: nat where "MAX_ROUTE_ENTRY_LEN = 200"

definition V1_PREFIX :: string where "V1_PREFIX = ''/api/v1/''"

text \<open>\<^verbatim>\<open>/^[A-Za-z0-9_./*:-]+$/\<close>\<close>

definition ALLOWED_CHARS :: "string \<Rightarrow> bool" where
  "ALLOWED_CHARS s \<longleftrightarrow> s \<noteq> [] \<and> list_all (\<lambda>c. is_upper c \<or> is_lower c \<or> is_digit c \<or> c \<in> set ''_./*:-'') s"

datatype RouteAllowlistError = R_bad_request | R_too_many_entries

text \<open>\<^verbatim>\<open>while (s.endsWith("*")) s = s.slice(0, -1)\<close>, then the same for slashes, keeping one
  character; both loops run on the reversed string.\<close>

definition strip_stars :: "string \<Rightarrow> string" where
  "strip_stars s = rev (dropWhile (\<lambda>c. c = CHR ''*'') (rev s))"

fun strip_slashes_rev :: "string \<Rightarrow> string" where
  "strip_slashes_rev (c # d # s) = (if c = CHR ''/'' then strip_slashes_rev (d # s) else c # d # s)"
| "strip_slashes_rev s = s"

definition normalizeEntry :: "string \<Rightarrow> string" where
  "normalizeEntry raw = rev (strip_slashes_rev (rev (strip_stars (trim raw))))"

fun route_loop :: "string list \<Rightarrow> string option list \<Rightarrow> RouteAllowlistError + string list" where
  "route_loop out [] = Inr out"
| "route_loop out (None # es) = Inl R_bad_request"
| "route_loop out (Some raw # es) =
     (if MAX_ROUTE_ENTRY_LEN < length raw then Inl R_bad_request
      else let s = normalizeEntry raw in
        if s = [] then route_loop out es
        else if \<not> ALLOWED_CHARS s then Inl R_bad_request
        else if \<not> startsWith s V1_PREFIX \<and> s \<noteq> ''/api/v1'' then Inl R_bad_request
        else if includesStr s ''//'' then Inl R_bad_request
        else if s \<in> set out then route_loop out es
        else route_loop (out @ [s]) es)"

text \<open>The submitted value: \<open>None\<close> for \<^verbatim>\<open>null\<close> or \<^verbatim>\<open>undefined\<close>, \<open>Some None\<close> for a value that is not an
  array, else the entries, with \<open>None\<close> for an entry that is not a string.\<close>

definition canonicalizeRouteList ::
  "string option list option option \<Rightarrow> RouteAllowlistError + string list" where
  "canonicalizeRouteList input =
     (case input of
        None \<Rightarrow> Inr []
      | Some None \<Rightarrow> Inl R_bad_request
      | Some (Some es) \<Rightarrow>
          if MAX_ROUTE_ENTRIES < length es then Inl R_too_many_entries else route_loop [] es)"

definition isRouteAllowed :: "string \<Rightarrow> string list option \<Rightarrow> bool" where
  "isRouteAllowed path allowlist =
     (case allowlist of
        None \<Rightarrow> True
      | Some [] \<Rightarrow> True
      | Some entries \<Rightarrow>
          (let p = normalizeEntry path in list_ex (\<lambda>entry. p = entry \<or> startsWith p (entry @ ''/'')) entries))"

section \<open>Segments\<close>

abbreviation segments :: "string \<Rightarrow> string list" where
  "segments \<equiv> split_on (CHR ''/'')"

lemma split_on_sep: "split_on c (a @ c # b) = split_on c a @ split_on c b"
  by (induction a) (auto split: list.splits)

lemma segments_prefix:
  "p = e \<or> startsWith p (e @ ''/'') \<longleftrightarrow> prefix (segments e) (segments p)"
proof
  assume "p = e \<or> startsWith p (e @ ''/'')"
  then show "prefix (segments e) (segments p)"
    by (auto simp: startsWith_iff split_on_sep)
next
  assume "prefix (segments e) (segments p)"
  then obtain zs where z: "segments p = segments e @ zs" by (auto simp: prefix_def)
  have j: "join [c] (xs @ y # ys) = join [c] xs @ c # join [c] (y # ys)" if "xs \<noteq> []" for c xs y ys
    using that by (induction "[c]" xs rule: join.induct) auto
  show "p = e \<or> startsWith p (e @ ''/'')"
  proof (cases zs)
    case Nil
    with z show ?thesis by (metis append_Nil2 join_split)
  next
    case (Cons y ys)
    with z j[of "segments e" "CHR ''/''" y ys] have "p = e @ CHR ''/'' # join ''/'' (y # ys)"
      by (metis join_split split_on_nonempty)
    then show ?thesis by (simp add: startsWith_iff)
  qed
qed

section \<open>Accepted lists\<close>

definition route_entry_ok :: "string \<Rightarrow> bool" where
  "route_entry_ok s \<longleftrightarrow> ALLOWED_CHARS s \<and> (startsWith s V1_PREFIX \<or> s = ''/api/v1'')
     \<and> \<not> includesStr s ''//'' \<and> length s \<le> MAX_ROUTE_ENTRY_LEN"

lemma strip_slashes_length: "length (strip_slashes_rev s) \<le> length s"
  by (induction s rule: strip_slashes_rev.induct) auto

lemma normalizeEntry_length: "length (normalizeEntry raw) \<le> length raw"
proof -
  have "length (strip_stars (trim raw)) \<le> length (trim raw)"
    by (simp add: strip_stars_def) (metis length_dropWhile_le length_rev)
  with strip_slashes_length[of "rev (strip_stars (trim raw))"] trim_length[of raw] show ?thesis
    by (simp add: normalizeEntry_def)
qed

lemma route_loop_ok:
  "\<lbrakk>route_loop out es = Inr res; distinct out; list_all route_entry_ok out\<rbrakk>
   \<Longrightarrow> distinct res \<and> list_all route_entry_ok res \<and> length res \<le> length out + length es"
proof (induction out es rule: route_loop.induct)
  case (3 out raw es)
  then show ?case
    using normalizeEntry_length[of raw]
    by (auto simp: Let_def route_entry_ok_def split: if_splits)
qed simp_all

section \<open>Properties\<close>

text \<open>A non-empty allowlist admits a path exactly when the segments of one of its entries
  are a prefix of the segments of the normalised path: a match never stops inside a
  segment, so \<^verbatim>\<open>/api/v1/runs\<close> does not admit \<^verbatim>\<open>/api/v1/runs-archive\<close>.\<close>

theorem isRouteAllowed_segments:
  "isRouteAllowed path (Some (e # es)) \<longleftrightarrow>
     list_ex (\<lambda>entry. prefix (segments entry) (segments (normalizeEntry path))) (e # es)"
  unfolding isRouteAllowed_def Let_def segments_prefix by simp

text \<open>An accepted route list has at most 32 entries, no duplicates, and every entry is a
  path below \<^verbatim>\<open>/api/v1\<close> of at most 200 allowed characters without an empty segment.\<close>

theorem canonicalizeRouteList_ok:
  assumes "canonicalizeRouteList input = Inr res"
  shows "distinct res \<and> length res \<le> 32 \<and> list_all route_entry_ok res"
  using assms route_loop_ok[of "[]"]
  by (fastforce simp: canonicalizeRouteList_def MAX_ROUTE_ENTRIES_def split: option.splits if_splits)

theorem canonicalizeRouteList_ok_witness:
  "distinct [''/api/v1/runs''] \<and> length [''/api/v1/runs''] \<le> 32 \<and> list_all route_entry_ok [''/api/v1/runs'']"
proof -
  have "canonicalizeRouteList (Some (Some [Some '' /api/v1/runs/* '', Some ''/api/v1/runs''])) = Inr [''/api/v1/runs'']"
    by code_simp
  from canonicalizeRouteList_ok[OF this] show ?thesis .
qed

text \<open>The wildcard is not normalised away in front of a slash: \<^verbatim>\<open>/api/v1/runs/*/\<close> is accepted
  and stored as \<^verbatim>\<open>/api/v1/runs/*\<close>, and a key with that entry is refused \<^verbatim>\<open>/api/v1/runs/abc\<close>.\<close>

theorem star_slash_entry_matches_nothing:
  "canonicalizeRouteList (Some (Some [Some ''/api/v1/runs/*/''])) = Inr [''/api/v1/runs/*'']
   \<and> \<not> isRouteAllowed ''/api/v1/runs/abc'' (Some [''/api/v1/runs/*''])
   \<and> \<not> isRouteAllowed ''/api/v1/runs'' (Some [''/api/v1/runs/*''])"
proof -
  have "canonicalizeRouteList (Some (Some [Some ''/api/v1/runs/*/''])) = Inr [''/api/v1/runs/*'']"
    and "\<not> isRouteAllowed ''/api/v1/runs/abc'' (Some [''/api/v1/runs/*''])"
    and "\<not> isRouteAllowed ''/api/v1/runs'' (Some [''/api/v1/runs/*''])" by code_simp+
  then show ?thesis by blast
qed

end
