(* ===== verification/Metering.thy ===== *)
theory Metering
  imports JsonStore
begin

text \<open>
  The contract shared by the per-minute rate limiter and the monthly quota: a request takes a
  slot of its key in the current window, and is admitted exactly while the key has used
  fewer slots than its limit. What follows from the contract about a whole sequence of
  requests is proved here once; \<^verbatim>\<open>RateLimit\<close> and \<^verbatim>\<open>MonthlyQuota\<close> interpret it with the code's
  operations.
\<close>

text \<open>A sequence of requests, each with its time and key, and the admissions it gets.\<close>

fun meter_run :: "(int \<Rightarrow> string \<Rightarrow> 's \<Rightarrow> bool \<times> 's) \<Rightarrow> (int \<times> string) list \<Rightarrow> 's \<Rightarrow> (string \<times> bool) list" where
  "meter_run slot [] s = []"
| "meter_run slot ((t, k) # evs) s =
     (case slot t k s of (a, s') \<Rightarrow> (k, a) # meter_run slot evs s')"

definition admitted :: "string \<Rightarrow> (string \<times> bool) list \<Rightarrow> nat" where
  "admitted k outs = length (filter (\<lambda>(k', a). k' = k \<and> a) outs)"

definition requests_of :: "string \<Rightarrow> (int \<times> string) list \<Rightarrow> nat" where
  "requests_of k evs = length (filter (\<lambda>(t, k'). k' = k) evs)"

lemma admitted_Nil [simp]: "admitted k [] = 0"
  by (simp add: admitted_def)

lemma admitted_Cons [simp]: "admitted k ((k', a) # outs) = (if k' = k \<and> a then 1 else 0) + admitted k outs"
  by (simp add: admitted_def)

lemma requests_of_Nil [simp]: "requests_of k [] = 0"
  by (simp add: requests_of_def)

lemma requests_of_Cons [simp]: "requests_of k ((t, k') # evs) = (if k' = k then 1 else 0) + requests_of k evs"
  by (simp add: requests_of_def)

locale metered =
  fixes inv :: "'s \<Rightarrow> bool"
    and limit :: "string \<Rightarrow> 's \<Rightarrow> int option"
    and used :: "string \<Rightarrow> 'w \<Rightarrow> 's \<Rightarrow> int"
    and window :: "int \<Rightarrow> 'w"
    and slot :: "int \<Rightarrow> string \<Rightarrow> 's \<Rightarrow> bool \<times> 's"
  assumes slot_inv: "inv s \<Longrightarrow> inv (snd (slot t k s))"
    and slot_limit: "inv s \<Longrightarrow> limit k' (snd (slot t k s)) = limit k' s"
    and slot_decision: "inv s \<Longrightarrow> fst (slot t k s)
      \<longleftrightarrow> (case limit k s of None \<Rightarrow> True | Some n \<Rightarrow> used k (window t) s < n)"
    and slot_used: "inv s \<Longrightarrow> used k (window t) (snd (slot t k s))
      = used k (window t) s + (if fst (slot t k s) then 1 else 0)"
    and slot_other: "\<lbrakk>inv s; k' \<noteq> k\<rbrakk> \<Longrightarrow> used k' w (snd (slot t k s)) = used k' w s"
begin

text \<open>Inside one window a limited key gets exactly as many requests through as it has slots
  left, whatever other keys do in between.\<close>

lemma window_exact:
  "\<lbrakk>inv s; list_all (\<lambda>(t, k). window t = w) evs; limit k s = Some n; used k w s \<le> n\<rbrakk>
   \<Longrightarrow> admitted k (meter_run slot evs s) = min (requests_of k evs) (nat (n - used k w s))"
proof (induction evs arbitrary: s)
  case (Cons ev evs)
  obtain t k' where ev: "ev = (t, k')" by (cases ev)
  obtain a s' where st: "slot t k' s = (a, s')" by (cases "slot t k' s")
  have w: "window t = w" using Cons.prems(2) ev by simp
  have s': "inv s'" "limit k s' = Some n"
    using slot_inv[of s t k'] slot_limit[of s k t k'] Cons.prems(1,3) st by auto
  show ?case
  proof (cases "k' = k")
    case True
    then have a: "a \<longleftrightarrow> used k w s < n"
      using slot_decision[of s t k] Cons.prems(1,3) st w by simp
    have u: "used k w s' = used k w s + (if a then 1 else 0)"
      using slot_used[of s k t] Cons.prems(1) st w True by simp
    from Cons.IH[OF s'(1) _ s'(2)] Cons.prems a u True ev st show ?thesis by auto
  next
    case False
    then have "used k w s' = used k w s"
      using slot_other[of s k k' w t] Cons.prems(1) st by simp
    with Cons.IH[OF s'(1) _ s'(2)] Cons.prems False ev st show ?thesis by auto
  qed
qed simp

lemma unlimited_all:
  "\<lbrakk>inv s; limit k s = None\<rbrakk> \<Longrightarrow> admitted k (meter_run slot evs s) = requests_of k evs"
proof (induction evs arbitrary: s)
  case (Cons ev evs)
  obtain t k' where ev: "ev = (t, k')" by (cases ev)
  obtain a s' where st: "slot t k' s = (a, s')" by (cases "slot t k' s")
  have "inv s'" "limit k s' = None" "k' = k \<Longrightarrow> a"
    using slot_inv[of s t k'] slot_limit[of s k t k'] slot_decision[of s t k'] Cons.prems st by auto
  with Cons.IH[of s'] ev st show ?case by auto
qed simp

end

end
