(* ===== verification/RateLimit.thy ===== *)
theory RateLimit
  imports Metering
begin

text \<open>
  The per-minute rate limiter (\<^verbatim>\<open>src/web/lib/rateLimitStore.ts\<close>): limits and counters per key in
  a module-level cache that is loaded once and flushed to its file after a change. The
  operations are total on the cache; the only exception is a failed first load. The
  records \<^verbatim>\<open>limits\<close> and \<^verbatim>\<open>counters\<close> are maps.
\<close>

definition WINDOW_SECONDS :: int where "WINDOW_SECONDS = 60"

definition DEFAULT_PER_MINUTE :: "string option \<Rightarrow> int" where
  "DEFAULT_PER_MINUTE env =
     (case env of
        None \<Rightarrow> 60
      | Some raw \<Rightarrow> if raw = [] then 60
                    else case parseInt10 raw of None \<Rightarrow> 60 | Some n \<Rightarrow> if 0 < n then n else 60)"

record Counter =
  c_window_start :: int
  c_count :: int

record rl_state =
  rl_limits :: "string \<rightharpoonup> int"
  rl_counters :: "string \<rightharpoonup> Counter"

record rl_store =
  rl_file :: "rl_state cast_file"
  rl_cache :: "rl_state option"
  rl_writeQueued :: bool

definition rl_readStore :: "rl_store \<Rightarrow> rl_state res \<times> rl_store" where
  "rl_readStore st =
     (case rl_cache st of
        Some s \<Rightarrow> (Inr s, st)
      | None \<Rightarrow>
          (case rl_file st of
             BadFile \<Rightarrow> (Inl IoFault, st)
           | NoFile \<Rightarrow> (let s = \<lparr>rl_limits = Map.empty, rl_counters = Map.empty\<rparr>
                        in (Inr s, st\<lparr>rl_cache := Some s\<rparr>))
           | Stored s \<Rightarrow> (Inr s, st\<lparr>rl_cache := Some s\<rparr>)))"

text \<open>A flush that finds another one running returns without writing.\<close>

definition rl_flush :: "rl_store \<Rightarrow> rl_store" where
  "rl_flush st =
     (if rl_writeQueued st then st
      else case rl_cache st of None \<Rightarrow> st | Some s \<Rightarrow> st\<lparr>rl_file := Stored s\<rparr>)"

definition limit_of :: "string option \<Rightarrow> string \<Rightarrow> rl_state \<Rightarrow> int" where
  "limit_of env k s = (case rl_limits s k of None \<Rightarrow> DEFAULT_PER_MINUTE env | Some n \<Rightarrow> n)"

definition getLimitForKey :: "string option \<Rightarrow> string \<Rightarrow> rl_store \<Rightarrow> int res \<times> rl_store" where
  "getLimitForKey env k = with_load rl_readStore (\<lambda>s st. (limit_of env k s, st))"

definition setLimitForKey ::
  "string option \<Rightarrow> string \<Rightarrow> jsnum option \<Rightarrow> rl_store \<Rightarrow> int res \<times> rl_store" where
  "setLimitForKey env k lmt st =
     (case rl_readStore st of
        (Inl e, st) \<Rightarrow> (Inl e, st)
      | (Inr s, st) \<Rightarrow>
          (let put = (\<lambda>v. (let s' = s\<lparr>rl_limits := (rl_limits s)(k := v)\<rparr>
                           in (Inr (limit_of env k s'), rl_flush (st\<lparr>rl_cache := Some s'\<rparr>))))
           in case lmt of
                None \<Rightarrow> put None
              | Some x \<Rightarrow>
                  if \<not> isFinite x \<or> num_lt x (jsint 1) \<or> num_lt (jsint 100000) x
                  then (Inl (Thrown ''limit must be between 1 and 100000''), st)
                  else put (Some (num_floor x))))"

definition window_start_of :: "int \<Rightarrow> int" where
  "window_start_of now = (let nowSec = now div 1000 in nowSec - js_rem nowSec WINDOW_SECONDS)"

definition getCounter :: "string \<Rightarrow> int \<Rightarrow> rl_store \<Rightarrow> Counter res \<times> rl_store" where
  "getCounter k now = with_load rl_readStore (\<lambda>s st.
     (case rl_counters s k of
        None \<Rightarrow> \<lparr>c_window_start = window_start_of now, c_count = 0\<rparr>
      | Some cur \<Rightarrow> if c_window_start cur \<noteq> window_start_of now
                    then \<lparr>c_window_start = window_start_of now, c_count = 0\<rparr> else cur, st))"

record RateDecision =
  rd_allowed :: bool
  rd_limit :: int
  rd_remaining :: int
  rd_reset_at :: int
  rd_retry_after :: int
  rd_window_start :: int
  rd_used :: int

definition rl_consume :: "string option \<Rightarrow> string \<Rightarrow> int \<Rightarrow> rl_store \<Rightarrow> RateDecision res \<times> rl_store" where
  "rl_consume env k now = with_load rl_readStore (\<lambda>s st.
     let limit = limit_of env k s;
         nowSec = now div 1000;
         windowStart = window_start_of now;
         count = (case rl_counters s k of
                    None \<Rightarrow> 0
                  | Some cur \<Rightarrow> if c_window_start cur = windowStart then c_count cur else 0);
         resetAt = windowStart + WINDOW_SECONDS
     in if limit \<le> count then
          (\<lparr>rd_allowed = False, rd_limit = limit, rd_remaining = 0, rd_reset_at = resetAt,
            rd_retry_after = max 1 (resetAt - nowSec), rd_window_start = windowStart, rd_used = count\<rparr>, st)
        else
          (\<lparr>rd_allowed = True, rd_limit = limit, rd_remaining = limit - (count + 1), rd_reset_at = resetAt,
            rd_retry_after = 0, rd_window_start = windowStart, rd_used = count + 1\<rparr>,
           rl_flush (st\<lparr>rl_cache := Some (s\<lparr>rl_counters := (rl_counters s)(k \<mapsto>
             \<lparr>c_window_start = windowStart, c_count = count + 1\<rparr>)\<rparr>)\<rparr>)))"

text \<open>Header values are kept as name/value pairs, in the order they are set.\<close>

definition applyRateHeaders :: "RateDecision \<Rightarrow> (string \<times> int) list" where
  "applyRateHeaders d =
     [(''X-RateLimit-Limit'', rd_limit d), (''X-RateLimit-Remaining'', max 0 (rd_remaining d)),
      (''X-RateLimit-Reset'', rd_reset_at d), (''X-RateLimit-Window'', WINDOW_SECONDS)]
     @ (if rd_allowed d then [] else [(''Retry-After'', rd_retry_after d)])"

section \<open>The contract\<close>

definition rl_ready :: "rl_store \<Rightarrow> bool" where
  "rl_ready st \<longleftrightarrow> rl_cache st \<noteq> None \<or> rl_file st \<noteq> BadFile"

definition rl_view :: "rl_store \<Rightarrow> rl_state" where
  "rl_view st = (case fst (rl_readStore st) of
     Inr s \<Rightarrow> s | Inl e \<Rightarrow> \<lparr>rl_limits = Map.empty, rl_counters = Map.empty\<rparr>)"

definition rl_used :: "string \<Rightarrow> int \<Rightarrow> rl_store \<Rightarrow> int" where
  "rl_used k w st = (case rl_counters (rl_view st) k of
     None \<Rightarrow> 0 | Some c \<Rightarrow> if c_window_start c = w then c_count c else 0)"

definition rl_slot :: "string option \<Rightarrow> int \<Rightarrow> string \<Rightarrow> rl_store \<Rightarrow> bool \<times> rl_store" where
  "rl_slot env t k st = (case rl_consume env k t st of
     (Inl e, st') \<Rightarrow> (False, st') | (Inr d, st') \<Rightarrow> (rd_allowed d, st'))"

lemma rl_read_ready:
  assumes "rl_ready st"
  obtains m where "rl_readStore st = (Inr (rl_view st), m)" "rl_cache m = Some (rl_view st)"
proof
  let ?m = "snd (rl_readStore st)"
  show "rl_readStore st = (Inr (rl_view st), ?m)" "rl_cache ?m = Some (rl_view st)"
    using assms
    by (cases "rl_cache st"; cases "rl_file st"; simp add: rl_ready_def rl_view_def rl_readStore_def Let_def)+
qed

lemma rl_cached [simp]: "rl_cache st = Some s \<Longrightarrow> rl_view st = s \<and> rl_ready st"
  by (simp add: rl_view_def rl_readStore_def rl_ready_def)

lemma rl_flush_cache [simp]: "rl_cache (rl_flush st) = rl_cache st"
  by (simp add: rl_flush_def split: option.splits)

lemma rl_consume_ready:
  assumes "rl_ready st"
  shows "\<exists>d st'. rl_consume env k t st = (Inr d, st') \<and> rl_ready st'
    \<and> rd_limit d = limit_of env k (rl_view st)
    \<and> (rd_allowed d \<longleftrightarrow> rl_used k (window_start_of t) st < limit_of env k (rl_view st))
    \<and> rl_limits (rl_view st') = rl_limits (rl_view st)
    \<and> rl_used k (window_start_of t) st' = rd_used d
    \<and> rd_used d = rl_used k (window_start_of t) st + (if rd_allowed d then 1 else 0)
    \<and> (\<forall>k' w. k' \<noteq> k \<longrightarrow> rl_used k' w st' = rl_used k' w st)"
proof -
  obtain m where m: "rl_readStore st = (Inr (rl_view st), m)" "rl_cache m = Some (rl_view st)"
    using rl_read_ready[OF assms] .
  then show ?thesis
    by (auto simp: rl_consume_def with_load_def Let_def rl_used_def limit_of_def split: option.splits)
qed

interpretation rate: metered rl_ready "\<lambda>k st. Some (limit_of env k (rl_view st))" rl_used window_start_of "rl_slot env"
  for env
proof
  fix s t k k' w
  assume "rl_ready s"
  note c = rl_consume_ready[OF this, of env k t]
  show "rl_ready (snd (rl_slot env t k s))" using c by (auto simp: rl_slot_def)
  show "Some (limit_of env k' (rl_view (snd (rl_slot env t k s)))) = Some (limit_of env k' (rl_view s))"
    using c by (auto simp: rl_slot_def limit_of_def)
  show "fst (rl_slot env t k s) \<longleftrightarrow> (case Some (limit_of env k (rl_view s)) of None \<Rightarrow> True
      | Some n \<Rightarrow> rl_used k (window_start_of t) s < n)" using c by (auto simp: rl_slot_def)
  show "rl_used k (window_start_of t) (snd (rl_slot env t k s))
      = rl_used k (window_start_of t) s + (if fst (rl_slot env t k s) then 1 else 0)"
    using c by (auto simp: rl_slot_def)
  show "rl_used k' w (snd (rl_slot env t k s)) = rl_used k' w s" if "k' \<noteq> k"
    using c that by (auto simp: rl_slot_def)
qed

section \<open>Properties\<close>

text \<open>Within one window a key gets exactly its remaining allowance: of any sequence of
  requests, in any interleaving with other keys, the first \<^verbatim>\<open>limit - used\<close> of the key are
  admitted and no more.\<close>

theorem rate_window_exact:
  assumes "rl_ready st" "list_all (\<lambda>(t, k). window_start_of t = w) evs"
    and "rl_used k w st \<le> limit_of env k (rl_view st)"
  shows "admitted k (meter_run (rl_slot env) evs st)
    = min (requests_of k evs) (nat (limit_of env k (rl_view st) - rl_used k w st))"
  using rate.window_exact[OF assms(1,2) refl assms(3)] .

text \<open>The numbers sent to the client are consistent: an admitted request reports used plus
  remaining equal to the limit, a refused one reports nothing remaining and a
  \<^verbatim>\<open>retry_after\<close> between 1 and 60 seconds that leads exactly to the window's end.\<close>

theorem rate_decision_numbers:
  assumes "rl_ready st" "0 \<le> now" "rl_consume env k now st = (Inr d, st')"
  shows "rd_reset_at d = rd_window_start d + 60 \<and> rd_window_start d \<le> now div 1000 \<and> now div 1000 < rd_reset_at d
    \<and> (if rd_allowed d then rd_used d + rd_remaining d = rd_limit d \<and> 0 \<le> rd_remaining d \<and> rd_retry_after d = 0
       else rd_remaining d = 0 \<and> 1 \<le> rd_retry_after d \<and> rd_retry_after d \<le> 60
            \<and> now div 1000 + rd_retry_after d = rd_reset_at d)"
proof -
  obtain m where m: "rl_readStore st = (Inr (rl_view st), m)" using rl_read_ready[OF assms(1)] .
  have "0 \<le> now div 1000" using assms(2) by simp
  then have r: "0 \<le> js_rem (now div 1000) 60" "js_rem (now div 1000) 60 < 60"
    using js_rem_nonneg[of "now div 1000" 60] by auto
  from assms(3) m show ?thesis
    unfolding rl_consume_def with_load_def
    by (auto simp: Let_def window_start_of_def WINDOW_SECONDS_def split: if_splits) (use r in linarith)+
qed

definition sample_rates :: rl_store where
  "sample_rates = \<lparr>rl_file = Stored \<lparr>rl_limits = [''k1'' \<mapsto> 2], rl_counters = Map.empty\<rparr>,
     rl_cache = None, rl_writeQueued = False\<rparr>"

lemma sample_rates: "rl_ready sample_rates" "limit_of env ''k1'' (rl_view sample_rates) = 2"
  "rl_used ''k1'' w sample_rates = 0"
  by (simp_all add: rl_ready_def sample_rates_def limit_of_def rl_view_def rl_readStore_def rl_used_def)

theorem rate_window_exact_witness:
  "admitted ''k1'' (meter_run (rl_slot None)
     [(60000, ''k1''), (61000, ''k2''), (62000, ''k1''), (119999, ''k1'')] sample_rates) = 2"
  using rate_window_exact[of sample_rates 60 "[(60000, ''k1''), (61000, ''k2''), (62000, ''k1''), (119999, ''k1'')]"
      "''k1''" None]
  by (simp add: sample_rates window_start_of_def js_rem_def WINDOW_SECONDS_def)

theorem rate_decision_numbers_witness:
  "\<exists>d st'. rl_consume None ''k1'' 61000 sample_rates = (Inr d, st') \<and> rd_reset_at d = rd_window_start d + 60"
  using rl_consume_ready[OF sample_rates(1), of None "''k1''" 61000]
    rate_decision_numbers[OF sample_rates(1), of 61000 None "''k1''"] by auto

end
