(* ===== verification/MonthlyQuota.thy ===== *)
theory MonthlyQuota
  imports Metering
begin

text \<open>
  The per-key monthly quota (\<^verbatim>\<open>src/web/lib/monthlyQuotaStore.ts\<close>): the same contract as the rate
  limiter with the calendar month as the window, where a quota of 0 means no limit. The
  flush serialises its writes: a call that finds one running marks it pending and the
  running one writes again, so the file ends with the latest cache; in the model the
  flush writes the cache.
\<close>

definition DEFAULT_MONTHLY_QUOTA :: "string option \<Rightarrow> int" where
  "DEFAULT_MONTHLY_QUOTA env =
     (case env of
        None \<Rightarrow> 0
      | Some raw \<Rightarrow> if raw = [] then 0
                    else case parseInt10 raw of None \<Rightarrow> 0 | Some n \<Rightarrow> if 0 \<le> n then n else 0)"

record MonthCounter =
  mc_period :: string
  mc_count :: int

record mq_state =
  mq_quotas :: "string \<rightharpoonup> int"
  mq_counters :: "string \<rightharpoonup> MonthCounter"

record mq_store =
  mq_file :: "mq_state cast_file"
  mq_cache :: "mq_state option"

definition mq_readStore :: "mq_store \<Rightarrow> mq_state res \<times> mq_store" where
  "mq_readStore st =
     (case mq_cache st of
        Some s \<Rightarrow> (Inr s, st)
      | None \<Rightarrow>
          (case mq_file st of
             BadFile \<Rightarrow> (Inl IoFault, st)
           | NoFile \<Rightarrow> (let s = \<lparr>mq_quotas = Map.empty, mq_counters = Map.empty\<rparr>
                        in (Inr s, st\<lparr>mq_cache := Some s\<rparr>))
           | Stored s \<Rightarrow> (Inr s, st\<lparr>mq_cache := Some s\<rparr>)))"

definition mq_flush :: "mq_store \<Rightarrow> mq_store" where
  "mq_flush st = (case mq_cache st of None \<Rightarrow> st | Some s \<Rightarrow> st\<lparr>mq_file := Stored s\<rparr>)"

definition periodOf :: "int \<Rightarrow> string" where
  "periodOf now =
     (case civil_from_days (now div DAY_MS) of
        (y, m, d) \<Rightarrow> (if 0 \<le> y then dec_str y else ''-'' @ dec_str (- y)) @ ''-'' @ fixed_digits 10 2 m)"

text \<open>\<^verbatim>\<open>Date.UTC(y, month + 1, 1)\<close>: the first instant of the next month.\<close>

definition next_month_ms :: "int \<Rightarrow> int" where
  "next_month_ms now =
     (case civil_from_days (now div DAY_MS) of
        (y, m, d) \<Rightarrow> days_from_civil (if m = 12 then (y + 1, 1, 1) else (y, m + 1, 1)) * DAY_MS)"

definition nextPeriodResetIso :: "int \<Rightarrow> string" where
  "nextPeriodResetIso now = toISOString (next_month_ms now)"

record QuotaDecision =
  qd_allowed :: bool
  qd_unlimited :: bool
  qd_limit :: int
  qd_used :: int
  qd_remaining :: int
  qd_period :: string
  qd_reset_at :: string

definition quota_of :: "string option \<Rightarrow> string \<Rightarrow> mq_state \<Rightarrow> int" where
  "quota_of env k s = (case mq_quotas s k of None \<Rightarrow> DEFAULT_MONTHLY_QUOTA env | Some n \<Rightarrow> n)"

definition getQuotaForKey :: "string option \<Rightarrow> string \<Rightarrow> mq_store \<Rightarrow> int res \<times> mq_store" where
  "getQuotaForKey env k = with_load mq_readStore (\<lambda>s st. (quota_of env k s, st))"

definition setQuotaForKey ::
  "string option \<Rightarrow> string \<Rightarrow> jsnum option \<Rightarrow> mq_store \<Rightarrow> int res \<times> mq_store" where
  "setQuotaForKey env k quota st =
     (case mq_readStore st of
        (Inl e, st) \<Rightarrow> (Inl e, st)
      | (Inr s, st) \<Rightarrow>
          (let put = (\<lambda>v. (let s' = s\<lparr>mq_quotas := (mq_quotas s)(k := v)\<rparr>
                           in (Inr (quota_of env k s'), mq_flush (st\<lparr>mq_cache := Some s'\<rparr>))))
           in case quota of
                None \<Rightarrow> put None
              | Some x \<Rightarrow>
                  if \<not> isFinite x \<or> num_lt x (jsint 0) \<or> num_lt (jsint 100000000) x
                  then (Inl (Thrown ''quota must be between 0 and 100000000''), st)
                  else put (Some (num_floor x))))"

definition count_in :: "string \<Rightarrow> string \<Rightarrow> mq_state \<Rightarrow> int" where
  "count_in k period s = (case mq_counters s k of
     None \<Rightarrow> 0 | Some c \<Rightarrow> if mc_period c = period then mc_count c else 0)"

definition getUsage :: "string \<Rightarrow> int \<Rightarrow> mq_store \<Rightarrow> (string \<times> int) res \<times> mq_store" where
  "getUsage k now = with_load mq_readStore (\<lambda>s st. ((periodOf now, count_in k (periodOf now) s), st))"

definition reserve :: "string option \<Rightarrow> string \<Rightarrow> int \<Rightarrow> mq_store \<Rightarrow> QuotaDecision res \<times> mq_store" where
  "reserve env k now = with_load mq_readStore (\<lambda>s st.
     let limit = quota_of env k s;
         period = periodOf now;
         reset = nextPeriodResetIso now;
         count = count_in k period s;
         bump = mq_flush (st\<lparr>mq_cache := Some (s\<lparr>mq_counters := (mq_counters s)(k \<mapsto>
           \<lparr>mc_period = period, mc_count = count + 1\<rparr>)\<rparr>)\<rparr>)
     in if limit = 0 then
          (\<lparr>qd_allowed = True, qd_unlimited = True, qd_limit = 0, qd_used = count + 1, qd_remaining = 0,
            qd_period = period, qd_reset_at = reset\<rparr>, bump)
        else if limit \<le> count then
          (\<lparr>qd_allowed = False, qd_unlimited = False, qd_limit = limit, qd_used = count, qd_remaining = 0,
            qd_period = period, qd_reset_at = reset\<rparr>, st)
        else
          (\<lparr>qd_allowed = True, qd_unlimited = False, qd_limit = limit, qd_used = count + 1,
            qd_remaining = max 0 (limit - (count + 1)), qd_period = period, qd_reset_at = reset\<rparr>, bump))"

definition applyQuotaHeaders :: "QuotaDecision \<Rightarrow> (string \<times> string) list" where
  "applyQuotaHeaders d =
     (if qd_unlimited d
      then [(''X-Quota-Limit'', ''unlimited''), (''X-Quota-Used'', dec_str (qd_used d)),
            (''X-Quota-Remaining'', ''unlimited'')]
      else [(''X-Quota-Limit'', dec_str (qd_limit d)), (''X-Quota-Used'', dec_str (qd_used d)),
            (''X-Quota-Remaining'', dec_str (max 0 (qd_remaining d)))])
     @ [(''X-Quota-Period'', qd_period d), (''X-Quota-Reset'', qd_reset_at d)]"

section \<open>The contract\<close>

definition mq_ready :: "mq_store \<Rightarrow> bool" where
  "mq_ready st \<longleftrightarrow> mq_cache st \<noteq> None \<or> mq_file st \<noteq> BadFile"

definition mq_view :: "mq_store \<Rightarrow> mq_state" where
  "mq_view st = (case fst (mq_readStore st) of
     Inr s \<Rightarrow> s | Inl e \<Rightarrow> \<lparr>mq_quotas = Map.empty, mq_counters = Map.empty\<rparr>)"

definition mq_limit :: "string option \<Rightarrow> string \<Rightarrow> mq_store \<Rightarrow> int option" where
  "mq_limit env k st = (let q = quota_of env k (mq_view st) in if q = 0 then None else Some q)"

definition mq_slot :: "string option \<Rightarrow> int \<Rightarrow> string \<Rightarrow> mq_store \<Rightarrow> bool \<times> mq_store" where
  "mq_slot env t k st = (case reserve env k t st of
     (Inl e, st') \<Rightarrow> (False, st') | (Inr d, st') \<Rightarrow> (qd_allowed d, st'))"

lemma mq_read_ready:
  assumes "mq_ready st"
  obtains m where "mq_readStore st = (Inr (mq_view st), m)" "mq_cache m = Some (mq_view st)"
proof
  let ?m = "snd (mq_readStore st)"
  show "mq_readStore st = (Inr (mq_view st), ?m)" "mq_cache ?m = Some (mq_view st)"
    using assms
    by (cases "mq_cache st"; cases "mq_file st"; simp add: mq_ready_def mq_view_def mq_readStore_def Let_def)+
qed

lemma mq_cached [simp]: "mq_cache st = Some s \<Longrightarrow> mq_view st = s \<and> mq_ready st"
  by (simp add: mq_view_def mq_readStore_def mq_ready_def)

lemma mq_flush_cache [simp]: "mq_cache (mq_flush st) = mq_cache st"
  by (simp add: mq_flush_def split: option.splits)

lemma count_in_update [simp]:
  "count_in k' p (s\<lparr>mq_counters := (mq_counters s)(k \<mapsto> \<lparr>mc_period = q, mc_count = n\<rparr>)\<rparr>)
   = (if k' = k then (if q = p then n else 0) else count_in k' p s)"
  by (simp add: count_in_def)

lemma quota_of_counters [simp]: "quota_of env k (s\<lparr>mq_counters := x\<rparr>) = quota_of env k s"
  by (simp add: quota_of_def)

lemma reserve_ready:
  assumes "mq_ready st"
  shows "\<exists>d st'. reserve env k t st = (Inr d, st') \<and> mq_ready st'
    \<and> (qd_allowed d \<longleftrightarrow> (case mq_limit env k st of None \<Rightarrow> True
          | Some n \<Rightarrow> count_in k (periodOf t) (mq_view st) < n))
    \<and> (\<forall>k'. mq_limit env k' st' = mq_limit env k' st)
    \<and> count_in k (periodOf t) (mq_view st') = qd_used d
    \<and> qd_used d = count_in k (periodOf t) (mq_view st) + (if qd_allowed d then 1 else 0)
    \<and> (\<forall>k' w. k' \<noteq> k \<longrightarrow> count_in k' w (mq_view st') = count_in k' w (mq_view st))"
proof -
  obtain m where m: "mq_readStore st = (Inr (mq_view st), m)" "mq_cache m = Some (mq_view st)"
    using mq_read_ready[OF assms] .
  then show ?thesis
    by (auto simp: reserve_def with_load_def Let_def mq_limit_def)
qed

interpretation quota: metered mq_ready "mq_limit env" "\<lambda>k w st. count_in k w (mq_view st)" periodOf "mq_slot env"
  for env
proof
  fix s t k k' w
  assume "mq_ready s"
  note c = reserve_ready[OF this, of env k t]
  show "mq_ready (snd (mq_slot env t k s))" using c by (auto simp: mq_slot_def)
  show "mq_limit env k' (snd (mq_slot env t k s)) = mq_limit env k' s"
    using c by (auto simp: mq_slot_def)
  show "fst (mq_slot env t k s) \<longleftrightarrow> (case mq_limit env k s of None \<Rightarrow> True
      | Some n \<Rightarrow> count_in k (periodOf t) (mq_view s) < n)" using c by (auto simp: mq_slot_def)
  show "count_in k (periodOf t) (mq_view (snd (mq_slot env t k s)))
      = count_in k (periodOf t) (mq_view s) + (if fst (mq_slot env t k s) then 1 else 0)"
    using c by (auto simp: mq_slot_def)
  show "count_in k' w (mq_view (snd (mq_slot env t k s))) = count_in k' w (mq_view s)" if "k' \<noteq> k"
    using c that by (auto simp: mq_slot_def)
qed

section \<open>Properties\<close>

text \<open>Within one calendar month a key with a quota gets exactly the requests it has left,
  and a key without one (quota 0) gets them all, in any interleaving with other keys.\<close>

theorem quota_month_exact:
  assumes "mq_ready st" "list_all (\<lambda>(t, k). periodOf t = p) evs"
    and "quota_of env k (mq_view st) = 0 \<or> count_in k p (mq_view st) \<le> quota_of env k (mq_view st)"
  shows "admitted k (meter_run (mq_slot env) evs st)
    = (if quota_of env k (mq_view st) = 0 then requests_of k evs
       else min (requests_of k evs) (nat (quota_of env k (mq_view st) - count_in k p (mq_view st))))"
proof (cases "quota_of env k (mq_view st) = 0")
  case True
  with quota.unlimited_all[OF assms(1), of env k evs] show ?thesis by (simp add: mq_limit_def)
next
  case False
  with quota.window_exact[OF assms(1,2), of env k "quota_of env k (mq_view st)"] assms(3) show ?thesis
    by (simp add: mq_limit_def)
qed

definition sample_quotas :: mq_store where
  "sample_quotas = \<lparr>mq_file = Stored \<lparr>mq_quotas = [''k1'' \<mapsto> 1], mq_counters = Map.empty\<rparr>, mq_cache = None\<rparr>"

lemma sample_quotas:
  "mq_ready sample_quotas" "mq_view sample_quotas = \<lparr>mq_quotas = [''k1'' \<mapsto> 1], mq_counters = Map.empty\<rparr>"
  by (simp_all add: mq_ready_def sample_quotas_def mq_view_def mq_readStore_def)

theorem quota_month_exact_witness:
  "admitted ''k1'' (meter_run (mq_slot None) [(1000, ''k1''), (2000, ''k2''), (86400000, ''k1'')] sample_quotas) = 1"
proof -
  have p: "periodOf 1000 = ''1970-01''" "periodOf 2000 = ''1970-01''" "periodOf 86400000 = ''1970-01''"
    by code_simp+
  show ?thesis
    using quota_month_exact[of sample_quotas "''1970-01''" "[(1000, ''k1''), (2000, ''k2''), (86400000, ''k1'')]" None "''k1''"]
    by (simp add: sample_quotas p quota_of_def count_in_def)
qed

end
