(* ===== verification/KeyUsage.thy ===== *)
theory KeyUsage
  imports AuthLockout "HOL-Library.AList" "HOL-Library.Multiset"
begin

text \<open>
  Per-key usage analytics (\<^verbatim>\<open>src/web/lib/keyUsageStore.ts\<close>): requests counted per key, UTC day,
  route class and status class in one JSON file, with the oldest days dropped, and the
  summary the settings page shows. JavaScript objects and maps are association lists in
  the order of first insertion. Writes run one after the other on a promise chain that
  goes on after a failed link, so the model runs them in sequence.
\<close>

definition RETENTION_DAYS :: nat where "RETENTION_DAYS = 35"

datatype StatusClass = SC2 | SC3 | SC4 | SC5

record status_row =
  r_2xx :: nat
  r_3xx :: nat
  r_4xx :: nat
  r_5xx :: nat

record DayBucket =
  b_day :: string
  b_routes :: "(string \<times> status_row) list"

record KeyUsage =
  u_key_id :: string
  u_total :: nat
  u_last_request_at :: "string option"
  u_buckets :: "DayBucket list"

type_synonym usage_state = "(string \<times> KeyUsage) list"

definition classifyStatus :: "int \<Rightarrow> StatusClass" where
  "classifyStatus status =
     (if 500 \<le> status then SC5 else if 400 \<le> status then SC4 else if 300 \<le> status then SC3 else SC2)"

definition utcDay :: "int \<Rightarrow> string" where
  "utcDay now = take 10 (toISOString now)"

definition ku_readStore :: "usage_state cast_file \<Rightarrow> usage_state res" where
  "ku_readStore f = (case f of NoFile \<Rightarrow> Inr [] | BadFile \<Rightarrow> Inl IoFault | Stored s \<Rightarrow> Inr s)"

text \<open>\<^verbatim>\<open>localeCompare\<close> on two ISO dates orders them as their characters do.\<close>

definition pruneBuckets :: "DayBucket list \<Rightarrow> DayBucket list" where
  "pruneBuckets bs =
     (if length bs \<le> RETENTION_DAYS then bs
      else (let sorted = sort_key b_day bs in drop (length sorted - RETENTION_DAYS) sorted))"

fun bump_row :: "StatusClass \<Rightarrow> status_row \<Rightarrow> status_row" where
  "bump_row SC2 r = r\<lparr>r_2xx := r_2xx r + 1\<rparr>"
| "bump_row SC3 r = r\<lparr>r_3xx := r_3xx r + 1\<rparr>"
| "bump_row SC4 r = r\<lparr>r_4xx := r_4xx r + 1\<rparr>"
| "bump_row SC5 r = r\<lparr>r_5xx := r_5xx r + 1\<rparr>"

definition zero_row :: status_row where
  "zero_row = \<lparr>r_2xx = 0, r_3xx = 0, r_4xx = 0, r_5xx = 0\<rparr>"

definition bump_bucket :: "string \<Rightarrow> StatusClass \<Rightarrow> DayBucket \<Rightarrow> DayBucket" where
  "bump_bucket route sc b =
     (let row = (case map_of (b_routes b) route of None \<Rightarrow> zero_row | Some r \<Rightarrow> r)
      in b\<lparr>b_routes := AList.update route (bump_row sc row) (b_routes b)\<rparr>)"

definition new_usage :: "string \<Rightarrow> KeyUsage" where
  "new_usage k = \<lparr>u_key_id = k, u_total = 0, u_last_request_at = None, u_buckets = []\<rparr>"

definition bump_usage :: "string \<Rightarrow> StatusClass \<Rightarrow> int \<Rightarrow> KeyUsage \<Rightarrow> KeyUsage" where
  "bump_usage route sc now entry =
     (let day = utcDay now;
          bs = (if find (\<lambda>b. b_day b = day) (u_buckets entry) = None
                then u_buckets entry @ [\<lparr>b_day = day, b_routes = []\<rparr>] else u_buckets entry);
          bs = upd_first (\<lambda>b. b_day b = day) (bump_bucket route sc) bs
      in entry\<lparr>u_total := u_total entry + 1, u_last_request_at := Some (toISOString now), u_buckets := pruneBuckets bs\<rparr>)"

definition recordRequest ::
  "string \<Rightarrow> string \<Rightarrow> int \<Rightarrow> int \<Rightarrow> usage_state cast_file \<Rightarrow> unit res \<times> usage_state cast_file" where
  "recordRequest k route_class status now f =
     (let sc = classifyStatus status;
          route = (if route_class = [] then ''other'' else route_class)
      in case ku_readStore f of
           Inl e \<Rightarrow> (Inl e, f)
         | Inr s \<Rightarrow>
             (let entry = (case map_of s k of None \<Rightarrow> new_usage k | Some u \<Rightarrow> u)
              in (Inr (), Stored (AList.update k (bump_usage route sc now entry) s))))"

definition ku_getUsage :: "string \<Rightarrow> usage_state cast_file \<Rightarrow> KeyUsage option res" where
  "ku_getUsage k f = map_sum id (\<lambda>s. map_of s k) (ku_readStore f)"

definition listUsage :: "usage_state cast_file \<Rightarrow> KeyUsage list res" where
  "listUsage f = map_sum id (map snd) (ku_readStore f)"

section \<open>Summaries\<close>

record tally =
  t_total :: nat
  t_success :: nat
  t_client_error :: nat
  t_server_error :: nat

record UsageSummary =
  us_key_id :: string
  us_total :: nat
  us_last_request_at :: "string option"
  us_window_days :: "int option"
  us_window :: tally
  us_daily :: "(string \<times> tally) list"
  us_by_route :: "(string \<times> tally) list"

definition no_tally :: tally where
  "no_tally = \<lparr>t_total = 0, t_success = 0, t_client_error = 0, t_server_error = 0\<rparr>"

definition add_row :: "status_row \<Rightarrow> tally \<Rightarrow> tally" where
  "add_row c t =
     t\<lparr>t_total := t_total t + (r_2xx c + r_3xx c + r_4xx c + r_5xx c), t_success := t_success t + (r_2xx c + r_3xx c),
       t_client_error := t_client_error t + r_4xx c, t_server_error := t_server_error t + r_5xx c\<rparr>"

definition add_tally :: "tally \<Rightarrow> tally \<Rightarrow> tally" where
  "add_tally a b = \<lparr>t_total = t_total a + t_total b, t_success = t_success a + t_success b,
     t_client_error = t_client_error a + t_client_error b, t_server_error = t_server_error a + t_server_error b\<rparr>"

text \<open>The body of the loop over one day's routes: the day's point and the accumulated routes.\<close>

fun add_route :: "string \<times> status_row \<Rightarrow> tally \<times> (string \<times> tally) list \<Rightarrow> tally \<times> (string \<times> tally) list" where
  "add_route (route, counts) (pt, acc) =
     (add_row counts pt,
      AList.update route (add_row counts (case map_of acc route of None \<Rightarrow> no_tally | Some r \<Rightarrow> r)) acc)"

definition bucket_of :: "DayBucket list \<Rightarrow> string \<Rightarrow> DayBucket option" where
  "bucket_of bs day = map_of (rev (map (\<lambda>b. (b_day b, b)) bs)) day"

fun walk_days :: "DayBucket list \<Rightarrow> string list \<Rightarrow> (string \<times> tally) list \<Rightarrow> (string \<times> tally) list \<times> (string \<times> tally) list" where
  "walk_days bs [] acc = ([], acc)"
| "walk_days bs (day # days) acc =
     (case (case bucket_of bs day of None \<Rightarrow> (no_tally, acc) | Some b \<Rightarrow> fold add_route (b_routes b) (no_tally, acc)) of
        (pt, acc) \<Rightarrow> (case walk_days bs days acc of (pts, acc) \<Rightarrow> ((day, pt) # pts, acc)))"

definition day_axis :: "int option \<Rightarrow> int \<Rightarrow> string list" where
  "day_axis window now =
     (case window of None \<Rightarrow> [] | Some n \<Rightarrow> map (\<lambda>i. utcDay (now - int i * DAY_MS)) (rev [0..<nat n]))"

definition summarise :: "KeyUsage option \<Rightarrow> jsnum \<Rightarrow> int \<Rightarrow> UsageSummary" where
  "summarise usage days now =
     (let window = clamp 1 (int RETENTION_DAYS) days;
          axis = day_axis window now
      in case usage of
           None \<Rightarrow> \<lparr>us_key_id = [], us_total = 0, us_last_request_at = None, us_window_days = window,
                     us_window = no_tally, us_daily = map (\<lambda>d. (d, no_tally)) axis, us_by_route = []\<rparr>
         | Some u \<Rightarrow>
             (case walk_days (u_buckets u) axis [] of (daily, routes) \<Rightarrow>
                \<lparr>us_key_id = u_key_id u, us_total = u_total u, us_last_request_at = u_last_request_at u,
                 us_window_days = window, us_window = fold (\<lambda>p w. add_tally w (snd p)) daily no_tally,
                 us_daily = daily, us_by_route = rev (sort_key (t_total \<circ> snd) (rev routes))\<rparr>))"


section \<open>Counting is exact\<close>

fun row_count :: "StatusClass \<Rightarrow> status_row \<Rightarrow> nat" where
  "row_count SC2 r = r_2xx r" | "row_count SC3 r = r_3xx r" | "row_count SC4 r = r_4xx r" | "row_count SC5 r = r_5xx r"

definition bucket_hits :: "DayBucket \<Rightarrow> string \<Rightarrow> StatusClass \<Rightarrow> nat" where
  "bucket_hits b route sc = (case map_of (b_routes b) route of None \<Rightarrow> 0 | Some r \<Rightarrow> row_count sc r)"

definition hits :: "DayBucket list \<Rightarrow> string \<Rightarrow> string \<Rightarrow> StatusClass \<Rightarrow> nat" where
  "hits bs day route sc = (case find (\<lambda>b. b_day b = day) bs of None \<Rightarrow> 0 | Some b \<Rightarrow> bucket_hits b route sc)"

lemma bump_row_count: "row_count c (bump_row sc r) = row_count c r + (if c = sc then 1 else 0)"
  by (cases c; cases sc) simp_all

lemma zero_row_count [simp]: "row_count c zero_row = 0"
  by (cases c) (simp_all add: zero_row_def)

lemma bump_bucket_hits [simp]:
  "bucket_hits (bump_bucket route sc b) r c = bucket_hits b r c + (if r = route \<and> c = sc then 1 else 0)"
  by (simp add: bucket_hits_def bump_bucket_def Let_def update_conv bump_row_count split: option.splits)

lemma bump_bucket_day [simp]: "b_day (bump_bucket route sc b) = b_day b"
  by (simp add: bump_bucket_def Let_def)

lemma hits_Nil [simp]: "hits [] day r c = 0"
  by (simp add: hits_def)

lemma hits_Cons: "hits (b # bs) day r c = (if b_day b = day then bucket_hits b r c else hits bs day r c)"
  by (simp add: hits_def)

lemma hits_append_new:
  "hits (bs @ [\<lparr>b_day = d, b_routes = []\<rparr>]) day r c = hits bs day r c"
  by (induction bs) (auto simp: hits_Cons bucket_hits_def)

lemma hits_bump:
  "find (\<lambda>b. b_day b = d) bs \<noteq> None \<Longrightarrow>
   hits (upd_first (\<lambda>b. b_day b = d) (bump_bucket route sc) bs) day r c
   = hits bs day r c + (if day = d \<and> r = route \<and> c = sc then 1 else 0)"
  by (induction bs) (auto simp: hits_Cons)

definition with_day :: "string \<Rightarrow> DayBucket list \<Rightarrow> DayBucket list" where
  "with_day d bs = (if find (\<lambda>b. b_day b = d) bs = None then bs @ [\<lparr>b_day = d, b_routes = []\<rparr>] else bs)"

lemma with_day_props:
  "find (\<lambda>b. b_day b = d) (with_day d bs) \<noteq> None"
  "set (map b_day (with_day d bs)) = insert d (set (map b_day bs))"
  "distinct (map b_day bs) \<Longrightarrow> distinct (map b_day (with_day d bs))"
  "hits (with_day d bs) day r c = hits bs day r c"
  by (auto simp: with_day_def find_None_iff hits_append_new dest: find_SomeD)

lemma bump_usage_buckets:
  "u_buckets (bump_usage route sc now u)
   = pruneBuckets (upd_first (\<lambda>b. b_day b = utcDay now) (bump_bucket route sc) (with_day (utcDay now) (u_buckets u)))"
  by (simp add: bump_usage_def Let_def with_day_def)

lemma upd_days: "map b_day (upd_first P (bump_bucket route sc) bs) = map b_day bs"
  by (induction bs) auto

lemma pruneBuckets_props:
  "length (pruneBuckets bs) \<le> RETENTION_DAYS"
  "set (pruneBuckets bs) \<subseteq> set bs"
  "distinct (map b_day bs) \<Longrightarrow> distinct (map b_day (pruneBuckets bs))"
  by (auto simp: pruneBuckets_def Let_def drop_map[symmetric] distinct_map dest: in_set_dropD
      elim!: inj_on_subset)

text \<open>As long as the days fit into the retention nothing is dropped.\<close>

lemma bump_usage_exact:
  assumes "distinct (map b_day (u_buckets u))"
    and "card (insert (utcDay now) (set (map b_day (u_buckets u)))) \<le> RETENTION_DAYS"
    and u'_def: "u' = bump_usage route sc now u"
  shows "distinct (map b_day (u_buckets u')) \<and> set (map b_day (u_buckets u')) = insert (utcDay now) (set (map b_day (u_buckets u)))
    \<and> hits (u_buckets u') day r c = hits (u_buckets u) day r c + (if day = utcDay now \<and> r = route \<and> c = sc then 1 else 0)
    \<and> u_total u' = Suc (u_total u)"
proof -
  let ?d = "utcDay now"
  let ?bs = "upd_first (\<lambda>b. b_day b = ?d) (bump_bucket route sc) (with_day ?d (u_buckets u))"
  have days: "set (map b_day ?bs) = insert ?d (set (map b_day (u_buckets u)))" "distinct (map b_day ?bs)"
    using with_day_props(2)[of ?d "u_buckets u"] with_day_props(3)[OF assms(1), of ?d] unfolding upd_days by auto
  then have "length ?bs \<le> RETENTION_DAYS" using assms(2) by (metis distinct_card length_map)
  then have "u_buckets u' = ?bs" by (simp add: u'_def bump_usage_buckets pruneBuckets_def)
  then show ?thesis
    using days hits_bump[OF with_day_props(1)] with_day_props(4)
    by (simp add: u'_def bump_usage_def Let_def)
qed


section \<open>Runs\<close>

type_synonym usage_request = "string \<times> string \<times> int \<times> int"

definition route_name :: "string \<Rightarrow> string" where
  "route_name rc = (if rc = [] then ''other'' else rc)"

fun ku_exec :: "usage_request \<Rightarrow> usage_state cast_file \<Rightarrow> usage_state cast_file" where
  "ku_exec (k, rc, st, t) f = snd (recordRequest k rc st t f)"

fun bump_for :: "usage_request \<Rightarrow> KeyUsage \<Rightarrow> KeyUsage" where
  "bump_for (k, rc, st, t) u = bump_usage (route_name rc) (classifyStatus st) t u"

definition requests_by :: "string \<Rightarrow> usage_request list \<Rightarrow> usage_request list" where
  "requests_by k = filter (\<lambda>q. fst q = k)"

definition usage_in :: "string \<Rightarrow> usage_state cast_file \<Rightarrow> KeyUsage" where
  "usage_in k f = (case f of Stored s \<Rightarrow> (case map_of s k of None \<Rightarrow> new_usage k | Some u \<Rightarrow> u) | _ \<Rightarrow> new_usage k)"

lemma ku_exec_ready: "f \<noteq> BadFile \<Longrightarrow> ku_exec q f \<noteq> BadFile"
  by (cases q; cases f) (auto simp: recordRequest_def ku_readStore_def Let_def)

lemma usage_in_exec:
  "f \<noteq> BadFile \<Longrightarrow> usage_in k (ku_exec q f) = (if fst q = k then bump_for q (usage_in k f) else usage_in k f)"
  by (cases q; cases f) (auto simp: usage_in_def recordRequest_def ku_readStore_def Let_def route_name_def update_conv split: option.splits)

lemma usage_in_run:
  "f \<noteq> BadFile \<Longrightarrow> usage_in k (fold ku_exec qs f) = fold bump_for (requests_by k qs) (usage_in k f)"
  by (induction qs arbitrary: f) (auto simp: requests_by_def usage_in_exec ku_exec_ready)

fun day_of :: "usage_request \<Rightarrow> string" where "day_of (k, rc, st, t) = utcDay t"

fun is_hit :: "string \<Rightarrow> string \<Rightarrow> StatusClass \<Rightarrow> usage_request \<Rightarrow> bool" where
  "is_hit day route sc (k, rc, st, t) \<longleftrightarrow> day = utcDay t \<and> route = route_name rc \<and> sc = classifyStatus st"

lemma bumps_exact:
  assumes "distinct (map b_day (u_buckets u))"
    and "card (set (map b_day (u_buckets u)) \<union> day_of ` set qs) \<le> RETENTION_DAYS"
  shows "hits (u_buckets (fold bump_for qs u)) day r c = hits (u_buckets u) day r c + length (filter (is_hit day r c) qs)"
  using assms
proof (induction qs arbitrary: u)
  case (Cons q qs)
  obtain k rc st t where q: "q = (k, rc, st, t)" by (cases q)
  let ?A = "set (map b_day (u_buckets u))"
  have "card (insert (utcDay t) ?A) \<le> card (?A \<union> day_of ` set (q # qs))"
    by (intro card_mono) (auto simp: q)
  then have le: "card (insert (utcDay t) ?A) \<le> RETENTION_DAYS" using Cons.prems(2) by simp
  note e = bump_usage_exact[OF Cons.prems(1) le refl, of "route_name rc" "classifyStatus st"]
  have "?A \<union> day_of ` set (q # qs) = insert (utcDay t) ?A \<union> day_of ` set qs" by (auto simp: q)
  with Cons.prems(2) e have "card (set (map b_day (u_buckets (bump_for q u))) \<union> day_of ` set qs) \<le> RETENTION_DAYS"
    by (simp add: q)
  from Cons.IH[OF _ this] e show ?case by (simp add: q)
qed simp

lemma bumps_total: "u_total (fold bump_for qs u) = u_total u + length qs"
  by (induction qs arbitrary: u) (auto simp: bump_usage_def Let_def)

lemma bumps_bounded:
  "\<lbrakk>length (u_buckets u) \<le> RETENTION_DAYS; distinct (map b_day (u_buckets u))\<rbrakk>
   \<Longrightarrow> length (u_buckets (fold bump_for qs u)) \<le> RETENTION_DAYS \<and> distinct (map b_day (u_buckets (fold bump_for qs u)))"
proof (induction qs arbitrary: u)
  case (Cons q qs)
  obtain k rc st t where q: "q = (k, rc, st, t)" by (cases q)
  have "distinct (map b_day (upd_first (\<lambda>b. b_day b = utcDay t) (bump_bucket (route_name rc) (classifyStatus st)) (with_day (utcDay t) (u_buckets u))))"
    unfolding upd_days by (rule with_day_props(3)[OF Cons.prems(2)])
  then have "length (u_buckets (bump_for q u)) \<le> RETENTION_DAYS" "distinct (map b_day (u_buckets (bump_for q u)))"
    unfolding q bump_for.simps bump_usage_buckets using pruneBuckets_props(1,3) by blast+
  from Cons.IH[OF this] show ?case by simp
qed simp

text \<open>After any sequence of recorded requests each key's lifetime total is the number of its
  requests and at most 35 day buckets are kept; and while its requests fall on at most 35 days,
  every counter is exactly the number of its requests of that day, route and status class.\<close>

theorem usage_counts_exact:
  "let u = usage_in k (fold ku_exec qs NoFile); mine = requests_by k qs
   in u_total u = length mine \<and> length (u_buckets u) \<le> RETENTION_DAYS \<and> distinct (map b_day (u_buckets u))
      \<and> (card (day_of ` set mine) \<le> RETENTION_DAYS \<longrightarrow>
           hits (u_buckets u) day r c = length (filter (is_hit day r c) mine))"
proof -
  have u: "usage_in k (fold ku_exec qs NoFile) = fold bump_for (requests_by k qs) (new_usage k)"
    by (simp add: usage_in_run) (simp add: usage_in_def)
  show ?thesis
    using bumps_total[of "requests_by k qs" "new_usage k"] bumps_bounded[of "new_usage k" "requests_by k qs"]
      bumps_exact[of "new_usage k" "requests_by k qs" day r c]
    by (simp add: Let_def u) (simp add: new_usage_def)
qed

theorem usage_counts_exact_witness:
  "hits (u_buckets (usage_in ''k'' (fold ku_exec [(''k'', ''api_v1'', 200, 0), (''j'', ''api_v1'', 500, 0), (''k'', ''api_v1'', 204, 7)] NoFile)))
     (utcDay 0) ''api_v1'' SC2 = 2"
proof -
  let ?qs = "[(''k'', ''api_v1'', 200, 0), (''j'', ''api_v1'', 500, 0), (''k'', ''api_v1'', 204, 7)] :: usage_request list"
  have d: "utcDay 7 = utcDay 0" by code_simp

  have mine: "requests_by ''k'' ?qs = [(''k'', ''api_v1'', 200, 0), (''k'', ''api_v1'', 204, 7)]" by (simp add: requests_by_def)
  then have "card (day_of ` set (requests_by ''k'' ?qs)) \<le> RETENTION_DAYS" by (simp add: d RETENTION_DAYS_def)
  with usage_counts_exact[of "''k''" ?qs "utcDay 0" "''api_v1''" SC2] mine show ?thesis
    by (simp add: Let_def d route_name_def classifyStatus_def)
qed


section \<open>Summaries agree with themselves\<close>

text \<open>A column of a tally: the number it shows, and what a row of counters adds to it.\<close>

locale tally_column =
  fixes col :: "tally \<Rightarrow> nat" and row :: "status_row \<Rightarrow> nat"
  assumes col_none: "col no_tally = 0"
    and col_row: "col (add_row c t) = col t + row c"
    and col_add: "col (add_tally a b) = col a + col b"
begin

definition column :: "(string \<times> tally) list \<Rightarrow> nat" where
  "column ps = sum_list (map (col \<circ> snd) ps)"

lemma column_update:
  "column (AList.update k (add_row c (case map_of acc k of None \<Rightarrow> no_tally | Some r \<Rightarrow> r)) acc) = column acc + row c"
  by (induction acc) (auto simp: column_def col_row col_none)

lemma column_routes:
  "fold add_route rs (pt, acc) = (pt', acc') \<Longrightarrow> col pt' + column acc = column acc' + col pt"
proof (induction rs arbitrary: pt acc)
  case (Cons r rs)
  obtain k c where r: "r = (k, c)" by (cases r)
  from Cons.prems have "fold add_route rs (add_row c pt,
      AList.update k (add_row c (case map_of acc k of None \<Rightarrow> no_tally | Some r \<Rightarrow> r)) acc) = (pt', acc')"
    by (simp add: r)
  from Cons.IH[OF this] show ?case by (simp add: column_update col_row)
qed simp

lemma column_walk: "walk_days bs days acc = (pts, acc') \<Longrightarrow> column acc' = column acc + column pts"
proof (induction days arbitrary: acc pts acc')
  case (Cons day days)
  obtain pt acc1 where d: "(case bucket_of bs day of None \<Rightarrow> (no_tally, acc)
      | Some b \<Rightarrow> fold add_route (b_routes b) (no_tally, acc)) = (pt, acc1)"
    by (meson surj_pair)
  obtain pts2 acc2 where w: "walk_days bs days acc1 = (pts2, acc2)" by (meson surj_pair)
  have "column acc1 = column acc + col pt"
  proof (cases "bucket_of bs day")
    case None
    with d show ?thesis by (simp add: col_none)
  next
    case (Some b)
    with d column_routes[of "b_routes b" no_tally acc pt acc1] show ?thesis by (simp add: col_none)
  qed
  with Cons.IH[OF w] Cons.prems d w show ?case by (auto simp: column_def)
qed (simp add: column_def)

lemma column_fold: "col (fold (\<lambda>p w. add_tally w (snd p)) ps t) = col t + column ps"
  by (induction ps arbitrary: t) (auto simp: column_def col_add)

lemma summary_column:
  "col (us_window (summarise usage days now)) = column (us_daily (summarise usage days now))
   \<and> col (us_window (summarise usage days now)) = column (us_by_route (summarise usage days now))"
proof (cases usage)
  case None
  have "column (map (\<lambda>d. (d, no_tally)) ds) = 0" for ds by (induction ds) (auto simp: column_def col_none)
  with None show ?thesis by (simp add: summarise_def Let_def col_none) (simp add: column_def)
next
  case (Some u)
  obtain pts routes where w: "walk_days (u_buckets u) (day_axis (clamp 1 (int RETENTION_DAYS) days) now) [] = (pts, routes)"
    by (meson surj_pair)
  have "column (rev (sort_key (t_total \<circ> snd) (rev routes))) = column routes"
    unfolding column_def by (metis (no_types) mset_map mset_rev mset_sort sum_mset_sum_list)
  moreover have "column routes = column pts" using column_walk[OF w] by (simp add: column_def)
  ultimately show ?thesis using Some w by (simp add: summarise_def Let_def column_fold col_none)
qed

end

interpretation total_col: tally_column t_total "\<lambda>c. r_2xx c + r_3xx c + r_4xx c + r_5xx c"
  by unfold_locales (simp_all add: no_tally_def add_row_def add_tally_def)

interpretation success_col: tally_column t_success "\<lambda>c. r_2xx c + r_3xx c"
  by unfold_locales (simp_all add: no_tally_def add_row_def add_tally_def)

interpretation client_col: tally_column t_client_error r_4xx
  by unfold_locales (simp_all add: no_tally_def add_row_def add_tally_def)

interpretation server_col: tally_column t_server_error r_5xx
  by unfold_locales (simp_all add: no_tally_def add_row_def add_tally_def)

definition balanced :: "tally \<Rightarrow> bool" where
  "balanced t \<longleftrightarrow> t_total t = t_success t + t_client_error t + t_server_error t"

lemma balanced_simps [simp]:
  "balanced no_tally" "balanced t \<Longrightarrow> balanced (add_row c t)" "\<lbrakk>balanced a; balanced b\<rbrakk> \<Longrightarrow> balanced (add_tally a b)"
  by (simp_all add: balanced_def no_tally_def add_row_def add_tally_def)

lemma balanced_routes: "balanced pt \<Longrightarrow> balanced (fst (fold add_route rs (pt, acc)))"
proof (induction rs arbitrary: pt acc)
  case (Cons r rs)
  then show ?case by (cases r) simp
qed simp

lemma balanced_walk: "list_all (balanced \<circ> snd) (fst (walk_days bs days acc))"
proof (induction days arbitrary: acc)
  case (Cons day days)
  have "balanced (fst (case bucket_of bs day of None \<Rightarrow> (no_tally, acc)
      | Some b \<Rightarrow> fold add_route (b_routes b) (no_tally, acc)))"
    by (simp add: balanced_routes split: option.splits)
  with Cons show ?case by (simp add: case_prod_unfold)
qed simp

lemma balanced_fold:
  "\<lbrakk>balanced t; list_all (balanced \<circ> snd) ps\<rbrakk> \<Longrightarrow> balanced (fold (\<lambda>p w. add_tally w (snd p)) ps t)"
  by (induction ps arbitrary: t) auto

text \<open>The summary of a key's usage is consistent: for each of the four figures the window
  figure is the sum over the days and also the sum over the routes, and successes, client
  errors and server errors add up to the total.\<close>

theorem usage_summary_consistent:
  "let s = summarise usage days now; w = us_window s
   in list_all (\<lambda>col. col w = sum_list (map (col \<circ> snd) (us_daily s)) \<and> col w = sum_list (map (col \<circ> snd) (us_by_route s)))
        [t_total, t_success, t_client_error, t_server_error]
      \<and> t_total w = t_success w + t_client_error w + t_server_error w"
proof -
  have "balanced (us_window (summarise usage days now))"
  proof (cases usage)
    case (Some u)
    then show ?thesis
      using balanced_fold[OF balanced_simps(1) balanced_walk, of "u_buckets u"]
      by (auto simp: summarise_def Let_def split: prod.splits) (metis fst_conv)
  qed (simp add: summarise_def Let_def)
  moreover note total_col.summary_column[of usage days now] success_col.summary_column[of usage days now]
    client_col.summary_column[of usage days now] server_col.summary_column[of usage days now]
  ultimately show ?thesis
    unfolding Let_def balanced_def total_col.column_def success_col.column_def client_col.column_def server_col.column_def
      list.pred_inject(2) by (blast intro: list.pred_inject(1))
qed

end
