(* ===== verification/Idempotency.thy ===== *)
theory Idempotency
  imports Http
begin

text \<open>
  Retries of mutating calls: the store of cached responses (\<^verbatim>\<open>src/web/lib/idempotencyStore.ts\<close>) and the wrapper
  that consults it around a route's handler (\<^verbatim>\<open>idempotency.ts\<close>). The wrapper is split at the call of the handler
  (\<open>idem_begin\<close>, \<open>idem_end\<close>), so that two requests can overlap.

  The theorems: within the 24 hours of a record, and while the store has room, a key and header value
  execute a handler successfully at most once in sequential use; the replayed response is the cached one, a
  different request under the same header value is refused; and two overlapping requests both execute.
\<close>

section \<open>Records\<close>

definition TTL_MS :: int where "TTL_MS = 24 * 60 * 60 * 1000"
definition ID_MAX_RECORDS :: nat where "ID_MAX_RECORDS = 2000"
definition MAX_HEADER_LEN :: nat where "MAX_HEADER_LEN = 255"

text \<open>The cached body is the text of a JSON value; the model keeps the value.\<close>

record IdempotencyRecord =
  ir_key_id :: string
  ir_header :: string
  ir_fingerprint :: string
  ir_status :: int
  ir_body :: json
  ir_content_type :: string
  ir_cached_headers :: "(string \<times> string) list"
  ir_created_at :: string
  ir_expires_at :: string

text \<open>\<open>id_queued\<close>: the snapshot whose write is under way. While one is, further snapshots only reach the cache.\<close>

record id_store =
  id_file :: "IdempotencyRecord list cast_file"
  id_cache :: "IdempotencyRecord list option"
  id_queued :: "IdempotencyRecord list option"

definition id_readStore :: "id_store \<Rightarrow> IdempotencyRecord list res \<times> id_store" where
  "id_readStore st =
     (case id_cache st of
        Some rs \<Rightarrow> (Inr rs, st)
      | None \<Rightarrow>
          (case id_file st of
             NoFile \<Rightarrow> (Inr [], st\<lparr>id_cache := Some []\<rparr>)
           | BadFile \<Rightarrow> (Inl IoFault, st)
           | Stored rs \<Rightarrow> (Inr rs, st\<lparr>id_cache := Some rs\<rparr>)))"

definition id_writeStore :: "IdempotencyRecord list \<Rightarrow> id_store \<Rightarrow> id_store" where
  "id_writeStore rs st =
     (if id_queued st \<noteq> None then st\<lparr>id_cache := Some rs\<rparr> else st\<lparr>id_cache := Some rs, id_queued := Some rs\<rparr>)"

text \<open>The microtask ends: the snapshot it captured is in the file, unless the write failed.\<close>

definition id_written :: "bool \<Rightarrow> id_store \<Rightarrow> id_store" where
  "id_written io st =
     (case id_queued st of
        None \<Rightarrow> st
      | Some rs \<Rightarrow> st\<lparr>id_file := (if io then Stored rs else id_file st), id_queued := None\<rparr>)"

definition time_of :: "host \<Rightarrow> string \<Rightarrow> int" where
  "time_of H s = (case date_parse H s of Some t \<Rightarrow> t | None \<Rightarrow> 0)"

definition live_record :: "host \<Rightarrow> int \<Rightarrow> IdempotencyRecord \<Rightarrow> bool" where
  "live_record H now r \<longleftrightarrow> (case date_parse H (ir_expires_at r) of None \<Rightarrow> False | Some t \<Rightarrow> now < t)"

definition id_gc :: "host \<Rightarrow> IdempotencyRecord list \<Rightarrow> int \<Rightarrow> IdempotencyRecord list" where
  "id_gc H rs now =
     (let live = filter (live_record H now) rs in
      if length live \<le> ID_MAX_RECORDS then live
      else drop (length live - ID_MAX_RECORDS) (sort_key (\<lambda>r. time_of H (ir_created_at r)) live))"

datatype HeaderError = H_missing | H_empty | H_too_long | H_bad_chars

definition header_char :: "char \<Rightarrow> bool" where
  "header_char c \<longleftrightarrow> is_digit c \<or> is_lower c \<or> is_upper c \<or> c \<in> set ''._:-/+=''"

definition validateHeader :: "string option \<Rightarrow> HeaderError + string" where
  "validateHeader v =
     (case v of
        None \<Rightarrow> Inl H_missing
      | Some raw \<Rightarrow>
          (let s = trim raw in
           if s = [] then Inl H_empty
           else if MAX_HEADER_LEN < length s then Inl H_too_long
           else if \<not> list_all header_char s then Inl H_bad_chars
           else Inr s))"

fun header_code_str :: "HeaderError \<Rightarrow> string" where
  "header_code_str H_missing = ''missing''"
| "header_code_str H_empty = ''empty''"
| "header_code_str H_too_long = ''too_long''"
| "header_code_str H_bad_chars = ''bad_chars''"

fun header_message :: "HeaderError \<Rightarrow> string" where
  "header_message H_missing = ''no Idempotency-Key header''"
| "header_message H_empty = ''Idempotency-Key header is empty''"
| "header_message H_too_long = ''Idempotency-Key must be at most 255 chars''"
| "header_message H_bad_chars = ''Idempotency-Key may contain only [A-Za-z0-9._:'' @ [CHR 0x5C] @ ''-/+=]''"

definition fingerprint :: "host \<Rightarrow> string \<Rightarrow> string \<Rightarrow> string \<Rightarrow> string" where
  "fingerprint H meth route body = host_sha256 H (toUpperCase meth @ [CHR 0x0A] @ route @ [CHR 0x0A] @ body)"

datatype LookupResult = Miss | Hit IdempotencyRecord | Conflict IdempotencyRecord

abbreviation same_slot :: "string \<Rightarrow> string \<Rightarrow> IdempotencyRecord \<Rightarrow> bool" where
  "same_slot k hv r \<equiv> ir_key_id r = k \<and> ir_header r = hv"

definition id_lookup :: "host \<Rightarrow> string \<Rightarrow> string \<Rightarrow> string \<Rightarrow> int \<Rightarrow> id_store \<Rightarrow> LookupResult res \<times> id_store" where
  "id_lookup H k hv fp now st =
     with_load id_readStore (\<lambda>rs st.
       let live = id_gc H rs now;
           st = (if length live \<noteq> length rs then id_writeStore live st else st)
       in (case find (same_slot k hv) live of
             None \<Rightarrow> Miss
           | Some r \<Rightarrow> if ir_fingerprint r \<noteq> fp then Conflict r else Hit r, st)) st"

definition id_storeRec :: "host \<Rightarrow> int \<Rightarrow> IdempotencyRecord \<Rightarrow> id_store \<Rightarrow> unit res \<times> id_store" where
  "id_storeRec H now rec st =
     with_load id_readStore (\<lambda>rs st.
       ((), id_writeStore (filter (\<lambda>r. \<not> same_slot (ir_key_id rec) (ir_header rec) r) (id_gc H rs now) @ [rec]) st)) st"

definition listForKey :: "host \<Rightarrow> int \<Rightarrow> string \<Rightarrow> nat \<Rightarrow> id_store \<Rightarrow> IdempotencyRecord list res \<times> id_store" where
  "listForKey H now k n st =
     with_load id_readStore (\<lambda>rs st.
       (take n (sort_key (\<lambda>r. - time_of H (ir_created_at r)) (filter (\<lambda>r. ir_key_id r = k) (id_gc H rs now))), st)) st"

definition listAll :: "host \<Rightarrow> int \<Rightarrow> nat \<Rightarrow> id_store \<Rightarrow> IdempotencyRecord list res \<times> id_store" where
  "listAll H now n st =
     with_load id_readStore (\<lambda>rs st. (take n (sort_key (\<lambda>r. - time_of H (ir_created_at r)) (id_gc H rs now)), st)) st"

section \<open>The wrapper\<close>

record 'a idem_world =
  iw_store :: id_store
  iw_audit :: audit_store
  iw_app :: 'a

text \<open>\<open>ie_parse\<close> is \<^verbatim>\<open>JSON.parse\<close>. Clock readings: 0 the lookup, 1 the record, 2 its storing, 3 the audit line.\<close>

record idem_env =
  ie_host :: host
  ie_clock :: clock
  ie_id :: string
  ie_fresh :: string
  ie_io :: bool
  ie_parse :: "string \<Rightarrow> json option"

record idem_call =
  ic_headers :: headers
  ic_method :: "string option"
  ic_key :: StoredKey
  ic_route :: string
  ic_raw :: string

definition ic_meth :: "idem_call \<Rightarrow> string" where
  "ic_meth c = (case ic_method c of None \<Rightarrow> ''POST'' | Some m \<Rightarrow> m)"

definition ic_request_id :: "idem_call \<Rightarrow> (string \<times> string) list" where
  "ic_request_id c = (if truthy (ic_headers c ''x-request-id'') then [(''x-request-id'', or_empty (ic_headers c ''x-request-id''))] else [])"

definition idem_audit :: "idem_env \<Rightarrow> idem_call \<Rightarrow> int \<Rightarrow> string \<Rightarrow> json option \<Rightarrow> 'a idem_world \<Rightarrow> 'a idem_world" where
  "idem_audit E c status reason details w =
     w\<lparr>iw_audit := snd (recordAuditEvent (ie_host E) (ie_clock E 3) (ie_id E) (ie_fresh E) (ie_io E)
         \<lparr>ai_req = Some (ic_headers c), ai_route = ic_route c, ai_method = ic_meth c, ai_status = status, ai_key = Some (ic_key c),
          ai_reason = Some reason, ai_details = details\<rparr> (iw_audit w))\<rparr>"

text \<open>What the wrapper does before the handler: answer (or throw), or run it, with a slot to cache the result in if the request has
  a header.\<close>

datatype idem_step = Answer "NextResponse res" | Run json "(string \<times> string) option"

definition parse_body :: "idem_env \<Rightarrow> string \<Rightarrow> json option" where
  "parse_body E raw = (if raw = [] then Some JNull else ie_parse E raw)"

definition replay_response :: "idem_call \<Rightarrow> string \<Rightarrow> IdempotencyRecord \<Rightarrow> NextResponse" where
  "replay_response c v rec =
     \<lparr>rsp_status = ir_status rec,
      rsp_headers = set_headers ([(''content-type'', ir_content_type rec)] @ ir_cached_headers rec
        @ [(''Idempotent-Replayed'', ''true''), (''Idempotency-Key'', v)] @ ic_request_id c) [],
      rsp_body = ir_body rec\<rparr>"

definition idem_begin :: "idem_env \<Rightarrow> idem_call \<Rightarrow> 'a idem_world \<Rightarrow> idem_step \<times> 'a idem_world" where
  "idem_begin E c w =
     (case parse_body E (ic_raw c) of
        None \<Rightarrow> (Answer (Inr (error_response 400 ''bad_json'' ''request body must be valid JSON'' [] [])), w)
      | Some body \<Rightarrow>
          if \<not> truthy (ic_headers c ''idempotency-key'') then (Run body None, w)
          else case validateHeader (ic_headers c ''idempotency-key'') of
            Inl e \<Rightarrow> (Answer (Inr (error_response 400 ''bad_idempotency_key'' (header_message e) [] [])),
                      idem_audit E c 400 (''idempotency:bad_header:'' @ header_code_str e) None w)
          | Inr v \<Rightarrow>
              (let fp = fingerprint (ie_host E) (ic_meth c) (ic_route c) (ic_raw c) in
               case id_lookup (ie_host E) (k_id (ic_key c)) v fp (ie_clock E 0) (iw_store w) of
                 (Inl e, s) \<Rightarrow> (Answer (Inl e), w\<lparr>iw_store := s\<rparr>)
               | (Inr (Conflict rec), s) \<Rightarrow>
                   (Answer (Inr (error_response 409 ''idempotency_conflict''
                      ''this Idempotency-Key was used with a different request body or path''
                      [(''idempotency_key'', JStr v), (''first_seen_at'', JStr (ir_created_at rec))]
                      ([(''Idempotency-Key'', v)] @ ic_request_id c))),
                    idem_audit E c 409 ''idempotency:conflict'' (Some (JObj [(''idempotency_key'', JStr v)])) (w\<lparr>iw_store := s\<rparr>))
               | (Inr (Hit rec), s) \<Rightarrow>
                   (Answer (Inr (replay_response c v rec)),
                    idem_audit E c (ir_status rec) ''idempotency:replay''
                      (Some (JObj [(''idempotency_key'', JStr v), (''first_seen_at'', JStr (ir_created_at rec))])) (w\<lparr>iw_store := s\<rparr>))
               | (Inr Miss, s) \<Rightarrow> (Run body (Some (v, fp)), w\<lparr>iw_store := s\<rparr>)))"

definition safe_headers :: "(string \<times> string) list \<Rightarrow> (string \<times> string) list" where
  "safe_headers hs = List.map_filter (\<lambda>n. if truthy (map_of hs n) then Some (n, or_empty (map_of hs n)) else None)
     [''location'', ''etag'', ''x-resource-id'']"

definition new_record :: "idem_env \<Rightarrow> idem_call \<Rightarrow> string \<Rightarrow> string \<Rightarrow> NextResponse \<Rightarrow> IdempotencyRecord" where
  "new_record E c v fp r =
     \<lparr>ir_key_id = k_id (ic_key c), ir_header = v, ir_fingerprint = fp, ir_status = rsp_status r, ir_body = rsp_body r,
      ir_content_type = (if truthy (map_of (rsp_headers r) ''content-type'') then or_empty (map_of (rsp_headers r) ''content-type'') else ''application/json''),
      ir_cached_headers = safe_headers (rsp_headers r),
      ir_created_at = toISOString (ie_clock E 1), ir_expires_at = toISOString (ie_clock E 1 + 24 * 60 * 60 * 1000)\<rparr>"

text \<open>After the handler. A failure to cache is ignored.\<close>

definition idem_end :: "idem_env \<Rightarrow> idem_call \<Rightarrow> (string \<times> string) option \<Rightarrow> NextResponse res \<Rightarrow> 'a idem_world \<Rightarrow> NextResponse res \<times> 'a idem_world" where
  "idem_end E c slot out w =
     (case (slot, out) of
        (Some (v, fp), Inr r) \<Rightarrow>
          (let r = r\<lparr>rsp_headers := set_headers [(''Idempotency-Key'', v), (''Idempotent-Replayed'', ''false'')] (rsp_headers r)\<rparr> in
           if 200 \<le> rsp_status r \<and> rsp_status r < 300
           then (Inr r, w\<lparr>iw_store := snd (id_storeRec (ie_host E) (ie_clock E 2) (new_record E c v fp r) (iw_store w))\<rparr>)
           else (Inr r, w))
      | _ \<Rightarrow> (out, w))"

definition withIdempotency ::
  "idem_env \<Rightarrow> idem_call \<Rightarrow> (json \<Rightarrow> string \<Rightarrow> 'a \<Rightarrow> NextResponse res \<times> 'a) \<Rightarrow> 'a idem_world \<Rightarrow> NextResponse res \<times> 'a idem_world" where
  "withIdempotency E c handler w =
     (case idem_begin E c w of
        (Answer a, w) \<Rightarrow> (a, w)
      | (Run body slot, w) \<Rightarrow>
          (case handler body (ic_raw c) (iw_app w) of (out, app) \<Rightarrow> idem_end E c slot out (w\<lparr>iw_app := app\<rparr>)))"

section \<open>At most one execution\<close>

lemma id_gc_room: "length rs \<le> ID_MAX_RECORDS \<Longrightarrow> id_gc H rs now = filter (live_record H now) rs"
  using order_trans[OF length_filter_le[of "live_record H now" rs]] by (simp add: id_gc_def Let_def)

lemma id_writeStore_cache [simp]: "id_cache (id_writeStore rs st) = Some rs"
  by (simp add: id_writeStore_def)

lemma id_readStore_Inr: "id_readStore st = (Inr rs, st') \<Longrightarrow> id_cache st' = Some rs"
  by (auto simp: id_readStore_def split: option.splits cast_file.splits)

lemma id_readStore_cached: "id_cache st = Some rs \<Longrightarrow> id_readStore st = (Inr rs, st)"
  by (simp add: id_readStore_def)

text \<open>\<open>room n st\<close>: a read finds at most \<open>ID_MAX_RECORDS - n\<close> records. \<open>taken\<close>: the slot has a record that lives until \<open>t\<close>.\<close>

definition room :: "nat \<Rightarrow> id_store \<Rightarrow> bool" where
  "room n st \<longleftrightarrow> (\<forall>rs st'. id_readStore st = (Inr rs, st') \<longrightarrow> length rs + n \<le> ID_MAX_RECORDS)"

definition taken :: "host \<Rightarrow> string \<Rightarrow> string \<Rightarrow> int \<Rightarrow> id_store \<Rightarrow> bool" where
  "taken H k v t st \<longleftrightarrow> (\<exists>rs r. id_cache st = Some rs \<and> r \<in> set rs \<and> same_slot k v r \<and> live_record H (t - 1) r)"

lemma live_record_mono: "live_record H t r \<Longrightarrow> now \<le> t \<Longrightarrow> live_record H now r"
  by (auto simp: live_record_def split: option.splits)

lemma id_lookup_cases:
  assumes "id_lookup H k' v' fp now st = (out, st2)" "room n st"
  obtains e where "out = Inl e" "st2 = st" "id_cache st = None"
  | rs where "id_cache st2 = Some (filter (live_record H now) rs)" "room n st2" "fst (id_readStore st) = Inr rs"
      "out = Inr (case find (same_slot k' v') (filter (live_record H now) rs) of
         None \<Rightarrow> Miss | Some r \<Rightarrow> if ir_fingerprint r \<noteq> fp then Conflict r else Hit r)"
proof (cases "id_readStore st")
  case (Pair x st1)
  show thesis
  proof (cases x)
    case (Inl e)
    with Pair have "st1 = st" "id_cache st = None" by (auto simp: id_readStore_def split: option.splits cast_file.splits)
    with Pair Inl assms(1) show thesis by (intro that(1)[of e]) (auto simp: id_lookup_def with_load_def)
  next
    case (Inr rs)
    let ?live = "filter (live_record H now) rs"
    have len: "length rs + n \<le> ID_MAX_RECORDS" using assms(2) Pair Inr by (simp add: room_def)
    then have gc: "id_gc H rs now = ?live" by (simp add: id_gc_room)
    have c1: "id_cache st1 = Some rs" using id_readStore_Inr Pair Inr by blast
    have same: "?live = rs" if "length ?live = length rs" using that by (metis filter_id_conv length_filter_less less_irrefl)
    from assms(1) Pair Inr have st2: "st2 = (if length ?live \<noteq> length rs then id_writeStore ?live st1 else st1)"
        and out: "out = Inr (case find (same_slot k' v') ?live of None \<Rightarrow> Miss | Some r \<Rightarrow> if ir_fingerprint r \<noteq> fp then Conflict r else Hit r)"
      by (auto simp: id_lookup_def with_load_def gc Let_def)
    have c2: "id_cache st2 = Some ?live" using c1 same by (cases "length ?live = length rs") (simp_all add: st2)
    then have "room n st2" using len le_trans[OF add_le_mono1[OF length_filter_le]] by (auto simp: room_def id_readStore_cached)
    with c2 out Pair Inr show thesis by (intro that(2)) auto
  qed
qed

lemma taken_filter:
  assumes "taken H k v t st" "fst (id_readStore st) = Inr rs" "now < t"
  obtains r where "r \<in> set (filter (live_record H now) rs)" "same_slot k v r" "live_record H (t - 1) r"
proof -
  obtain rs' r where r: "id_cache st = Some rs'" "r \<in> set rs'" "same_slot k v r" "live_record H (t - 1) r"
    using assms(1) by (auto simp: taken_def)
  with assms(2,3) live_record_mono[OF r(4), of now] show thesis by (intro that[of r]) (auto simp: id_readStore_cached)
qed

lemma idem_audit_frame [simp]: "iw_store (idem_audit E c s r d w) = iw_store w" "iw_app (idem_audit E c s r d w) = iw_app w"
  by (simp_all add: idem_audit_def)

text \<open>The part before the handler keeps the room and the record of a taken slot, and runs no handler for that slot.\<close>

lemma idem_begin_step:
  assumes b: "idem_begin E c w = (step, w2)" and room: "room n (iw_store w)" and H: "ie_host E = H"
  shows "room n (iw_store w2)" "iw_app w2 = iw_app w"
    and "step = Run body (Some (v, fp)) \<Longrightarrow> id_cache (iw_store w2) \<noteq> None"
    and "taken H k v t (iw_store w) \<Longrightarrow> ie_clock E 0 < t \<Longrightarrow>
      taken H k v t (iw_store w2) \<and> \<not> (k_id (ic_key c) = k \<and> step = Run body (Some (v, fp)))"
proof -
  have "room n (iw_store w2) \<and> iw_app w2 = iw_app w \<and> (step = Run body (Some (v, fp)) \<longrightarrow> id_cache (iw_store w2) \<noteq> None)
    \<and> (taken H k v t (iw_store w) \<and> ie_clock E 0 < t \<longrightarrow> taken H k v t (iw_store w2)
        \<and> \<not> (k_id (ic_key c) = k \<and> step = Run body (Some (v, fp))))"
  proof (cases "parse_body E (ic_raw c)")
    case None
    with b room show ?thesis by (auto simp: idem_begin_def)
  next
    case (Some j)
    consider (plain) "\<not> truthy (ic_headers c ''idempotency-key'')"
      | (bad) e where "truthy (ic_headers c ''idempotency-key'')" "validateHeader (ic_headers c ''idempotency-key'') = Inl e"
      | (ok) v' where "truthy (ic_headers c ''idempotency-key'')" "validateHeader (ic_headers c ''idempotency-key'') = Inr v'"
      by (cases "validateHeader (ic_headers c ''idempotency-key'')") auto
    then show ?thesis
    proof cases
      case plain
      with Some b room show ?thesis by (auto simp: idem_begin_def)
    next
      case bad
      with Some b room show ?thesis by (auto simp: idem_begin_def)
    next
      case ok
      define fp' where "fp' = fingerprint H (ic_meth c) (ic_route c) (ic_raw c)"
      obtain out st2 where l: "id_lookup H (k_id (ic_key c)) v' fp' (ie_clock E 0) (iw_store w) = (out, st2)" by fastforce
      have bb: "iw_app w2 = iw_app w \<and> iw_store w2 = st2 \<and> (step = Run body (Some (v, fp)) \<longrightarrow> v = v' \<and> out = Inr Miss)"
      proof (cases out)
        case (Inl e)
        with b l ok Some H show ?thesis by (auto simp: idem_begin_def Let_def fp'_def)
      next
        case (Inr d)
        with b l ok Some H show ?thesis by (cases d) (auto simp: idem_begin_def Let_def fp'_def)
      qed
      from l room show ?thesis
      proof (cases rule: id_lookup_cases)
        case (1 e)
        with bb room show ?thesis by (auto simp: taken_def)
      next
        case (2 rs)
        have "taken H k v t st2 \<and> \<not> (k_id (ic_key c) = k \<and> step = Run body (Some (v, fp)))"
          if "taken H k v t (iw_store w)" "ie_clock E 0 < t"
        proof -
          from taken_filter[OF that(1) 2(3) that(2)] obtain r where
            r: "r \<in> set (filter (live_record H (ie_clock E 0)) rs)" "same_slot k v r" "live_record H (t - 1) r" by blast
          then have "taken H k v t st2" using 2(1) by (auto simp: taken_def)
          moreover have "find (same_slot k v) (filter (live_record H (ie_clock E 0)) rs) \<noteq> None"
            using r by (auto simp: find_None_iff)
          ultimately show ?thesis using bb 2(4) by (auto split: option.splits if_splits)
        qed
        with bb 2(1,2) show ?thesis by simp
      qed
    qed
  qed
  then show "room n (iw_store w2)" "iw_app w2 = iw_app w"
    "step = Run body (Some (v, fp)) \<Longrightarrow> id_cache (iw_store w2) \<noteq> None"
    "taken H k v t (iw_store w) \<Longrightarrow> ie_clock E 0 < t \<Longrightarrow>
      taken H k v t (iw_store w2) \<and> \<not> (k_id (ic_key c) = k \<and> step = Run body (Some (v, fp)))" by blast+
qed

definition ok_status :: "NextResponse res \<Rightarrow> bool" where
  "ok_status out \<longleftrightarrow> (case out of Inl e \<Rightarrow> False | Inr r \<Rightarrow> 200 \<le> rsp_status r \<and> rsp_status r < 300)"

lemma id_storeRec_cached:
  assumes "id_cache st = Some rs" "length rs \<le> ID_MAX_RECORDS"
  shows "id_cache (snd (id_storeRec H now rec st))
    = Some (filter (\<lambda>r. \<not> same_slot (ir_key_id rec) (ir_header rec) r) (filter (live_record H now) rs) @ [rec])"
  using assms by (simp add: id_storeRec_def with_load_def id_readStore_cached id_gc_room)

lemma idem_end_store:
  "iw_store (snd (idem_end E c slot out w)) =
     (case slot of
        Some (v, fp) \<Rightarrow> if ok_status out
          then snd (id_storeRec (ie_host E) (ie_clock E 2)
             (new_record E c v fp ((projr out)\<lparr>rsp_headers := set_headers [(''Idempotency-Key'', v), (''Idempotent-Replayed'', ''false'')] (rsp_headers (projr out))\<rparr>)) (iw_store w))
          else iw_store w
      | None \<Rightarrow> iw_store w)"
  by (auto simp: idem_end_def ok_status_def Let_def split: option.splits sum.splits)

lemma new_record_slot [simp]:
  "ir_key_id (new_record E c v fp r) = k_id (ic_key c)" "ir_header (new_record E c v fp r) = v"
  by (simp_all add: new_record_def)

lemma new_record_lives:
  assumes "time_ok (ie_clock E 1 + TTL_MS)" "now < ie_clock E 1 + TTL_MS"
  shows "live_record H now (new_record E c v fp r)"
  using assms by (simp add: new_record_def live_record_def TTL_MS_def)

lemma idem_end_step:
  assumes room: "room (Suc n) (iw_store w)" and H: "ie_host E = H"
    and cache: "\<And>v fp. slot = Some (v, fp) \<Longrightarrow> id_cache (iw_store w) \<noteq> None"
  shows "room n (iw_store (snd (idem_end E c slot out w)))"
    and "\<lbrakk>slot = Some (v, fp); ok_status out; time_ok (ie_clock E 1 + TTL_MS); t \<le> ie_clock E 1 + TTL_MS\<rbrakk>
      \<Longrightarrow> taken H (k_id (ic_key c)) v t (iw_store (snd (idem_end E c slot out w)))"
    and "\<lbrakk>taken H k v t (iw_store w); ie_clock E 2 < t; \<not> (k_id (ic_key c) = k \<and> (\<exists>fp. slot = Some (v, fp)))\<rbrakk>
      \<Longrightarrow> taken H k v t (iw_store (snd (idem_end E c slot out w)))"
proof -
  have keep: "room n (iw_store w)" using room by (auto simp: room_def)
  have st: "\<exists>rs rec. id_cache (iw_store w) = Some rs \<and> length rs < ID_MAX_RECORDS
      \<and> id_cache (iw_store (snd (idem_end E c slot out w)))
        = Some (filter (\<lambda>r. \<not> same_slot (k_id (ic_key c)) v' r) (filter (live_record H (ie_clock E 2)) rs) @ [new_record E c v' fp' rec])"
    if sl: "slot = Some (v', fp')" "ok_status out" for v' fp'
  proof -
    obtain rs where rs: "id_cache (iw_store w) = Some rs" using cache[OF sl(1)] by blast
    then have "length rs < ID_MAX_RECORDS" using room by (auto simp: room_def id_readStore_cached)
    with rs sl H show ?thesis by (auto simp: idem_end_store id_storeRec_cached)
  qed
  show "room n (iw_store (snd (idem_end E c slot out w)))"
  proof (cases "\<exists>v' fp'. slot = Some (v', fp') \<and> ok_status out")
    case True
    then obtain v' fp' rs rec where c2: "id_cache (iw_store (snd (idem_end E c slot out w)))
        = Some (filter (\<lambda>r. \<not> same_slot (k_id (ic_key c)) v' r) (filter (live_record H (ie_clock E 2)) rs) @ [new_record E c v' fp' rec])"
        "id_cache (iw_store w) = Some rs" using st by blast
    define rs' where "rs' = filter (\<lambda>r. \<not> same_slot (k_id (ic_key c)) v' r) (filter (live_record H (ie_clock E 2)) rs)"
    have "length rs + Suc n \<le> ID_MAX_RECORDS" using room c2(2) by (auto simp: room_def id_readStore_cached)
    moreover have "length rs' \<le> length rs"
      unfolding rs'_def by (rule order_trans[OF length_filter_le length_filter_le])
    ultimately show ?thesis using c2(1)[folded rs'_def] by (auto simp: room_def id_readStore_cached)
  next
    case False
    then have "iw_store (snd (idem_end E c slot out w)) = iw_store w" by (auto simp: idem_end_store split: option.splits)
    with keep show ?thesis by simp
  qed
  show "taken H (k_id (ic_key c)) v t (iw_store (snd (idem_end E c slot out w)))"
    if sl: "slot = Some (v, fp)" "ok_status out" "time_ok (ie_clock E 1 + TTL_MS)" "t \<le> ie_clock E 1 + TTL_MS"
  proof -
    obtain rs rec where "id_cache (iw_store (snd (idem_end E c slot out w)))
        = Some (filter (\<lambda>r. \<not> same_slot (k_id (ic_key c)) v r) (filter (live_record H (ie_clock E 2)) rs) @ [new_record E c v fp rec])"
      using st[OF sl(1,2)] by blast
    moreover have "live_record H (t - 1) (new_record E c v fp rec)" using new_record_lives[OF sl(3)] sl(4) by simp
    ultimately show ?thesis unfolding taken_def
      by (intro exI[of _ "_ @ [new_record E c v fp rec]"] exI[of _ "new_record E c v fp rec"]) simp
  qed
  show "taken H k v t (iw_store (snd (idem_end E c slot out w)))"
    if k: "taken H k v t (iw_store w)" "ie_clock E 2 < t" "\<not> (k_id (ic_key c) = k \<and> (\<exists>fp. slot = Some (v, fp)))"
  proof (cases "\<exists>v' fp'. slot = Some (v', fp') \<and> ok_status out")
    case True
    then obtain v' fp' where s: "slot = Some (v', fp')" "ok_status out" by blast
    obtain rs rec where c2: "id_cache (iw_store (snd (idem_end E c slot out w)))
        = Some (filter (\<lambda>r. \<not> same_slot (k_id (ic_key c)) v' r) (filter (live_record H (ie_clock E 2)) rs) @ [new_record E c v' fp' rec])"
        "id_cache (iw_store w) = Some rs" using st[OF s] by blast
    from taken_filter[OF k(1) _ k(2), of rs] c2(2) obtain r where r: "r \<in> set (filter (live_record H (ie_clock E 2)) rs)"
        "same_slot k v r" "live_record H (t - 1) r" by (auto simp: id_readStore_cached)
    with k(3) s have "\<not> same_slot (k_id (ic_key c)) v' r" by auto
    with r c2(1) show ?thesis by (auto simp: taken_def)
  next
    case False
    then have "iw_store (snd (idem_end E c slot out w)) = iw_store w" by (auto simp: idem_end_store split: option.splits)
    with k show ?thesis by simp
  qed
qed

type_synonym 'a idem_request = "idem_env \<times> idem_call \<times> (json \<Rightarrow> string \<Rightarrow> 'a \<Rightarrow> NextResponse res \<times> 'a)"

text \<open>Whether a request runs its handler under this key and header value, and the handler succeeds.\<close>

definition executes :: "string \<Rightarrow> string \<Rightarrow> 'a idem_request \<Rightarrow> 'a idem_world \<Rightarrow> bool" where
  "executes k v q w = (case q of (E, c, handler) \<Rightarrow>
     (case idem_begin E c w of
        (Run body (Some (v', fp)), w2) \<Rightarrow> k_id (ic_key c) = k \<and> v' = v \<and> ok_status (fst (handler body (ic_raw c) (iw_app w2)))
      | _ \<Rightarrow> False))"

definition serve :: "'a idem_request \<Rightarrow> 'a idem_world \<Rightarrow> 'a idem_world" where
  "serve q w = (case q of (E, c, handler) \<Rightarrow> snd (withIdempotency E c handler w))"

fun executions :: "string \<Rightarrow> string \<Rightarrow> 'a idem_request list \<Rightarrow> 'a idem_world \<Rightarrow> nat" where
  "executions k v [] w = 0"
| "executions k v (q # qs) w = (if executes k v q w then 1 else 0) + executions k v qs (serve q w)"

text \<open>All clock readings of a request lie in the 24 hours from \<open>t0\<close> on.\<close>

definition in_day :: "host \<Rightarrow> int \<Rightarrow> 'a idem_request \<Rightarrow> bool" where
  "in_day H t0 q = (case q of (E, c, handler) \<Rightarrow> ie_host E = H \<and> (\<forall>i\<in>{0, 1, 2}. t0 \<le> ie_clock E i \<and> ie_clock E i < t0 + TTL_MS))"

lemma serve_step:
  assumes room: "room (Suc n) (iw_store w)" and day: "in_day H t0 q" and t0: "time_ok t0" "time_ok (t0 + 2 * TTL_MS)"
  shows "room n (iw_store (serve q w))"
    and "executes k v q w \<Longrightarrow> taken H k v (t0 + TTL_MS) (iw_store (serve q w))"
    and "taken H k v (t0 + TTL_MS) (iw_store w) \<Longrightarrow> taken H k v (t0 + TTL_MS) (iw_store (serve q w)) \<and> \<not> executes k v q w"
proof -
  obtain E c handler where q: "q = (E, c, handler)" by (cases q) auto
  have H: "ie_host E = H" and clk: "\<forall>i\<in>{0, 1, 2}. t0 \<le> ie_clock E i \<and> ie_clock E i < t0 + TTL_MS"
    using day by (auto simp: in_day_def q)
  have ok: "time_ok (ie_clock E 1 + TTL_MS)" using clk t0 by (auto simp: time_ok_def TTL_MS_def)
  obtain step w2 where b: "idem_begin E c w = (step, w2)" by fastforce
  note B = idem_begin_step[OF b room H]
  have "room n (iw_store (serve q w)) \<and> (executes k v q w \<longrightarrow> taken H k v (t0 + TTL_MS) (iw_store (serve q w)))
    \<and> (taken H k v (t0 + TTL_MS) (iw_store w) \<longrightarrow> taken H k v (t0 + TTL_MS) (iw_store (serve q w)) \<and> \<not> executes k v q w)"
  proof (cases step)
    case (Answer a)
    then have "serve q w = w2" "\<not> executes k v q w" by (auto simp: serve_def q withIdempotency_def b executes_def)
    moreover have "room n (iw_store w2)" using B(1) by (auto simp: room_def)
    ultimately show ?thesis using B(4)[of k v "t0 + TTL_MS" undefined undefined] clk by auto
  next
    case (Run body slot)
    obtain out app where h: "handler body (ic_raw c) (iw_app w2) = (out, app)" by fastforce
    have s: "serve q w = snd (idem_end E c slot out (w2\<lparr>iw_app := app\<rparr>))"
      by (simp add: serve_def q withIdempotency_def b Run h)
    have room2: "room (Suc n) (iw_store (w2\<lparr>iw_app := app\<rparr>))" using B(1) by simp
    have cache: "slot = Some (v', fp') \<Longrightarrow> id_cache (iw_store (w2\<lparr>iw_app := app\<rparr>)) \<noteq> None" for v' fp'
      using B(3) Run by simp
    note N = idem_end_step[OF room2 H cache]
    have ex: "executes k v q w \<longleftrightarrow> k_id (ic_key c) = k \<and> (\<exists>fp. slot = Some (v, fp)) \<and> ok_status out"
      by (auto simp: executes_def q b Run h split: option.splits)
    have "taken H k v (t0 + TTL_MS) (iw_store (serve q w))" if "executes k v q w"
      using that N(2)[where v = v and t = "t0 + TTL_MS" and out = out] ok clk unfolding ex s by auto
    moreover have "taken H k v (t0 + TTL_MS) (iw_store (serve q w)) \<and> \<not> executes k v q w" if t: "taken H k v (t0 + TTL_MS) (iw_store w)"
    proof -
      have "taken H k v (t0 + TTL_MS) (iw_store w2)" "\<not> (k_id (ic_key c) = k \<and> (\<exists>fp. slot = Some (v, fp)))"
        using B(4)[OF t] clk Run by auto
      then show ?thesis using N(3)[where k = k and v = v and t = "t0 + TTL_MS" and out = out] clk ex unfolding s by auto
    qed
    moreover have "room n (iw_store (serve q w))" using N(1) by (simp add: s)
    ultimately show ?thesis by blast
  qed
  then show "room n (iw_store (serve q w))"
    "executes k v q w \<Longrightarrow> taken H k v (t0 + TTL_MS) (iw_store (serve q w))"
    "taken H k v (t0 + TTL_MS) (iw_store w) \<Longrightarrow> taken H k v (t0 + TTL_MS) (iw_store (serve q w)) \<and> \<not> executes k v q w" by blast+
qed

lemma executions_taken:
  "\<lbrakk>room (length qs) (iw_store w); list_all (in_day H t0) qs; time_ok t0; time_ok (t0 + 2 * TTL_MS); taken H k v (t0 + TTL_MS) (iw_store w)\<rbrakk>
   \<Longrightarrow> executions k v qs w = 0"
proof (induction qs arbitrary: w)
  case Nil
  then show ?case by simp
next
  case (Cons q qs)
  then show ?case using serve_step(1)[of "length qs" w H t0 q] serve_step(3)[of "length qs" w H t0 q k v] by simp
qed

text \<open>C6: At most once. Requests are served one after the other, from any state in which the store has room for them, with all their
  clock readings within 24 hours: under one key and one header value, at most one of them executes its handler
  successfully, whatever the other requests are.\<close>

theorem idempotent_at_most_once:
  assumes "room (length qs) (iw_store w)" "list_all (in_day H t0) qs" "time_ok t0" "time_ok (t0 + 2 * TTL_MS)"
  shows "executions k v qs w \<le> 1"
  using assms
proof (induction qs arbitrary: w)
  case Nil
  then show ?case by simp
next
  case (Cons q qs)
  have s: "room (length qs) (iw_store (serve q w))" using Cons.prems serve_step(1)[of "length qs" w H t0 q] by simp
  show ?case
  proof (cases "executes k v q w")
    case True
    then have "taken H k v (t0 + TTL_MS) (iw_store (serve q w))"
      using Cons.prems serve_step(2)[of "length qs" w H t0 q k v] by simp
    then have "executions k v qs (serve q w) = 0" using executions_taken[OF s, of H t0 k v] Cons.prems by simp
    then show ?thesis by simp
  next
    case False
    with Cons.IH[OF s] Cons.prems show ?thesis by simp
  qed
qed

section \<open>Retries\<close>

lemma idem_begin_slot:
  assumes "parse_body E (ic_raw c) = Some body" "truthy (ic_headers c ''idempotency-key'')"
    and "validateHeader (ic_headers c ''idempotency-key'') = Inr v" "id_cache (iw_store w) = Some rs" "length rs \<le> ID_MAX_RECORDS"
    and "find (same_slot (k_id (ic_key c)) v) (filter (live_record (ie_host E) (ie_clock E 0)) rs) = Some rec"
  shows "\<exists>w2. idem_begin E c w = (Answer (Inr
      (if ir_fingerprint rec = fingerprint (ie_host E) (ic_meth c) (ic_route c) (ic_raw c) then replay_response c v rec
       else error_response 409 ''idempotency_conflict'' ''this Idempotency-Key was used with a different request body or path''
              [(''idempotency_key'', JStr v), (''first_seen_at'', JStr (ir_created_at rec))] ([(''Idempotency-Key'', v)] @ ic_request_id c))), w2)
    \<and> iw_app w2 = iw_app w"
  using assms
  by (auto simp: idem_begin_def Let_def id_lookup_def with_load_def id_readStore_cached id_gc_room split: if_splits)

lemma idem_begin_run:
  assumes "idem_begin E c w = (Run body (Some (v, fp)), w0)"
  shows "fp = fingerprint (ie_host E) (ic_meth c) (ic_route c) (ic_raw c)" "validateHeader (ic_headers c ''idempotency-key'') = Inr v"
    "truthy (ic_headers c ''idempotency-key'')" "parse_body E (ic_raw c) = Some body"
  using assms by (auto simp: idem_begin_def Let_def split: option.splits if_splits sum.splits prod.splits LookupResult.splits)

text \<open>The slot of a request whose handler succeeded answers the next request under it.\<close>

lemma answered_after_end:
  assumes first: "idem_begin E c w = (Run body (Some (v, fp)), w0)" and room: "room 1 (iw_store w)"
    and mid: "iw_store u = iw_store w0" "idem_end E c (Some (v, fp)) (Inr out) u = (Inr r, w1)" "200 \<le> rsp_status out" "rsp_status out < 300"
    and second: "iw_store w1' = iw_store w1" "k_id (ic_key c') = k_id (ic_key c)" "ie_host E' = ie_host E" "parse_body E' (ic_raw c') \<noteq> None"
      "truthy (ic_headers c' ''idempotency-key'')" "validateHeader (ic_headers c' ''idempotency-key'') = Inr v"
    and time: "time_ok (ie_clock E 1 + TTL_MS)" "ie_clock E' 0 < ie_clock E 1 + TTL_MS"
  obtains rec w2 where "idem_begin E' c' w1' = (Answer (Inr
      (if fp = fingerprint (ie_host E) (ic_meth c') (ic_route c') (ic_raw c') then replay_response c' v rec
       else error_response 409 ''idempotency_conflict'' ''this Idempotency-Key was used with a different request body or path''
              [(''idempotency_key'', JStr v), (''first_seen_at'', JStr (ir_created_at rec))] ([(''Idempotency-Key'', v)] @ ic_request_id c'))), w2)"
    "iw_app w2 = iw_app w1'" "ir_status rec = rsp_status out" "ir_body rec = rsp_body out"
proof -
  have "room (Suc 0) (iw_store u)" "id_cache (iw_store u) \<noteq> None"
    using idem_begin_step(1)[OF first room refl] idem_begin_step(3)[OF first room refl refl] mid(1) by simp_all
  then obtain rs where rs: "id_cache (iw_store u) = Some rs" "length rs < ID_MAX_RECORDS"
    by (auto simp: room_def id_readStore_cached)
  define rec where "rec = new_record E c v fp (out\<lparr>rsp_headers := set_headers [(''Idempotency-Key'', v), (''Idempotent-Replayed'', ''false'')] (rsp_headers out)\<rparr>)"
  define rs1 where "rs1 = filter (\<lambda>r. \<not> same_slot (k_id (ic_key c)) v r) (filter (live_record (ie_host E) (ie_clock E 2)) rs)"
  have c1: "id_cache (iw_store w1') = Some (rs1 @ [rec])"
    using idem_end_store[of E c "Some (v, fp)" "Inr out" u] mid(2-4) rs second(1)
    by (simp add: id_storeRec_cached rec_def rs1_def ok_status_def)
  have "length rs1 \<le> length rs" unfolding rs1_def by (rule order_trans[OF length_filter_le length_filter_le])
  then have len: "length (rs1 @ [rec]) \<le> ID_MAX_RECORDS" using rs(2) by simp
  have live: "live_record (ie_host E) (ie_clock E' 0) rec" unfolding rec_def by (rule new_record_lives[OF time])
  have "find (same_slot (k_id (ic_key c)) v) (filter (live_record (ie_host E) (ie_clock E' 0)) rs1) = None"
    by (auto simp: find_None_iff rs1_def)
  then have "find (same_slot (k_id (ic_key c)) v) (filter (live_record (ie_host E) (ie_clock E' 0)) (rs1 @ [rec])) = Some rec"
    using live by (simp add: find_snoc rec_def)
  moreover obtain body' where "parse_body E' (ic_raw c') = Some body'" using second(4) by blast
  moreover have "ir_fingerprint rec = fp" "ir_status rec = rsp_status out" "ir_body rec = rsp_body out"
    by (simp_all add: rec_def new_record_def)
  ultimately show thesis
    using idem_begin_slot[OF _ second(5,6) c1 len, of E' body'] second(2,3) that by auto
qed

text \<open>A retry. After a request whose handler succeeded, and while the store has room, the next request under the same key and header value within 24
  hours, with a body that parses, runs no handler: the same request gets the cached status and body, a different one a 409.\<close>

theorem retry_is_replayed_or_refused:
  assumes first: "idem_begin E c w = (Run body (Some (v, fp)), w0)" "withIdempotency E c handler w = (Inr r, w1)"
      "200 \<le> rsp_status r" "rsp_status r < 300" and room: "room 1 (iw_store w)"
    and second: "k_id (ic_key c') = k_id (ic_key c)" "ie_host E' = ie_host E" "parse_body E' (ic_raw c') \<noteq> None"
      "truthy (ic_headers c' ''idempotency-key'')" "validateHeader (ic_headers c' ''idempotency-key'') = Inr v"
    and time: "time_ok (ie_clock E 1 + TTL_MS)" "ie_clock E' 0 < ie_clock E 1 + TTL_MS"
  shows "\<exists>a w2. withIdempotency E' c' handler' w1 = (Inr a, w2) \<and> iw_app w2 = iw_app w1
    \<and> (if fp = fingerprint (ie_host E) (ic_meth c') (ic_route c') (ic_raw c')
       then rsp_status a = rsp_status r \<and> rsp_body a = rsp_body r else rsp_status a = 409)"
proof -
  obtain out app where h: "handler body (ic_raw c) (iw_app w0) = (out, app)" by fastforce
  let ?w = "w0\<lparr>iw_app := app\<rparr>"
  have e: "idem_end E c (Some (v, fp)) out ?w = (Inr r, w1)" using first(2) by (simp add: withIdempotency_def first(1) h)
  then obtain o' where o: "out = Inr o'" "rsp_status r = rsp_status o'" "rsp_body r = rsp_body o'"
    by (auto simp: idem_end_def Let_def split: sum.splits if_splits)
  obtain rec w2 where "idem_begin E' c' w1 = (Answer (Inr
      (if fp = fingerprint (ie_host E) (ic_meth c') (ic_route c') (ic_raw c') then replay_response c' v rec
       else error_response 409 ''idempotency_conflict'' ''this Idempotency-Key was used with a different request body or path''
              [(''idempotency_key'', JStr v), (''first_seen_at'', JStr (ir_created_at rec))] ([(''Idempotency-Key'', v)] @ ic_request_id c'))), w2)"
    "iw_app w2 = iw_app w1" "ir_status rec = rsp_status o'" "ir_body rec = rsp_body o'"
    by (rule answered_after_end[OF first(1) room _ e[unfolded o(1)] _ _ refl second time]) (use first(3,4) o(2) in simp_all)
  then show ?thesis by (auto simp: withIdempotency_def replay_response_def error_response_def o)
qed

section \<open>Examples\<close>

text \<open>A handler that counts its executions and answers 201.\<close>

definition counting :: "json \<Rightarrow> string \<Rightarrow> nat \<Rightarrow> NextResponse res \<times> nat" where
  "counting body raw n = (Inr \<lparr>rsp_status = 201, rsp_headers = [], rsp_body = JNum (jsint (int n))\<rparr>, Suc n)"

definition idem_sample :: "int \<Rightarrow> idem_env" where
  "idem_sample t = \<lparr>ie_host = sample_host, ie_clock = (\<lambda>_. t), ie_id = ''id'', ie_fresh = replicate 32 (CHR ''k''), ie_io = True, ie_parse = (\<lambda>s. Some (JStr s))\<rparr>"

definition call_sample :: "string \<Rightarrow> idem_call" where
  "call_sample raw = \<lparr>ic_headers = (\<lambda>n. if n = ''idempotency-key'' then Some ''abc'' else None), ic_method = Some ''POST'',
     ic_key = env_admin_key sample_host 0 ''adm'', ic_route = ''/api/v1/runs'', ic_raw = raw\<rparr>"

definition idem_world0 :: "nat idem_world" where
  "idem_world0 = \<lparr>iw_store = \<lparr>id_file = NoFile, id_cache = None, id_queued = None\<rparr>, iw_audit = au_new (replicate 32 (CHR ''k'')), iw_app = 0\<rparr>"

lemma room_fresh: "n \<le> ID_MAX_RECORDS \<Longrightarrow> room n (iw_store idem_world0)"
  by (simp add: room_def idem_world0_def id_readStore_def)

theorem idempotent_at_most_once_witness:
  "executions ''env-admin'' ''abc'' [(idem_sample 5, call_sample ''x'', counting), (idem_sample 9, call_sample ''x'', counting),
      (idem_sample 11, call_sample ''y'', counting)] idem_world0 \<le> 1"
  by (rule idempotent_at_most_once[of _ _ sample_host 0])
     (simp_all add: room_fresh ID_MAX_RECORDS_def in_day_def idem_sample_def TTL_MS_def time_ok_def)

lemma first_sample:
  "idem_begin (idem_sample 5) (call_sample ''x'') idem_world0
   = (Run (JStr ''x'') (Some (''abc'', ''POST'' @ [CHR 0x0A] @ ''/api/v1/runs'' @ [CHR 0x0A] @ ''x'')),
      idem_world0\<lparr>iw_store := (iw_store idem_world0)\<lparr>id_cache := Some []\<rparr>\<rparr>)"
  by code_simp

theorem retry_is_replayed_or_refused_witness:
  "\<exists>a w2. withIdempotency (idem_sample 9) (call_sample ''x'') counting
      (snd (withIdempotency (idem_sample 5) (call_sample ''x'') counting idem_world0)) = (Inr a, w2)
    \<and> iw_app w2 = 1 \<and> rsp_status a = 201 \<and> rsp_body a = JNum (jsint 0)"
proof -
  let ?f = "withIdempotency (idem_sample 5) (call_sample ''x'') counting idem_world0"
  let ?r = "\<lparr>rsp_status = 201, rsp_headers = [(''idempotency-key'', ''abc''), (''idempotent-replayed'', ''false'')], rsp_body = JNum (jsint (int 0))\<rparr>"
  have "fst ?f = Inr ?r" by code_simp
  then have f: "?f = (Inr ?r, snd ?f)" by (cases ?f) simp
  have app: "iw_app (snd ?f) = 1" by code_simp
  have v: "validateHeader (ic_headers (call_sample ''x'') ''idempotency-key'') = Inr ''abc''" by code_simp
  have "\<exists>a w2. withIdempotency (idem_sample 9) (call_sample ''x'') counting (snd ?f) = (Inr a, w2) \<and> iw_app w2 = iw_app (snd ?f)
    \<and> (if ''POST'' @ [CHR 0x0A] @ ''/api/v1/runs'' @ [CHR 0x0A] @ ''x''
          = fingerprint (ie_host (idem_sample 5)) (ic_meth (call_sample ''x'')) (ic_route (call_sample ''x'')) (ic_raw (call_sample ''x''))
       then rsp_status a = rsp_status ?r \<and> rsp_body a = rsp_body ?r else rsp_status a = 409)"
    by (rule retry_is_replayed_or_refused[OF first_sample f _ _ room_fresh])
       (use v in \<open>simp_all add: ID_MAX_RECORDS_def idem_sample_def call_sample_def parse_body_def TTL_MS_def time_ok_def\<close>)
  moreover have "''POST'' @ [CHR 0x0A] @ ''/api/v1/runs'' @ [CHR 0x0A] @ ''x''
      = fingerprint (ie_host (idem_sample 5)) (ic_meth (call_sample ''x'')) (ic_route (call_sample ''x'')) (ic_raw (call_sample ''x''))"
    by code_simp
  ultimately show ?thesis using app by auto
qed

text \<open>Overlapping retries. When the second request begins before the first has ended, both run the handler.\<close>

lemma overlapping_retries_both_run:
  "case idem_begin (idem_sample 5) (call_sample ''x'') idem_world0 of (s1, w1) \<Rightarrow>
     (case idem_begin (idem_sample 6) (call_sample ''x'') w1 of (s2, w2) \<Rightarrow> s1 = s2
       \<and> s2 = Run (JStr ''x'') (Some (''abc'', ''POST'' @ [CHR 0x0A] @ ''/api/v1/runs'' @ [CHR 0x0A] @ ''x'')))"
  by code_simp

text \<open>A burst. The snapshot being written is the one of the first of two stores; after its write and a restart, the second
  record is gone.\<close>

definition burst_record :: "string \<Rightarrow> IdempotencyRecord" where
  "burst_record v = new_record (idem_sample 5) (call_sample ''x'') v ''fp'' \<lparr>rsp_status = 200, rsp_headers = [], rsp_body = JNull\<rparr>"

lemma burst_write_lost:
  "let st = id_written True (snd (id_storeRec sample_host 5 (burst_record ''b'')
        (snd (id_storeRec sample_host 5 (burst_record ''a'') (iw_store idem_world0)))))
   in map ir_header (the (id_cache st)) = [''a'', ''b''] \<and> id_file st = Stored [burst_record ''a''] \<and> id_queued st = None"
  by code_simp

end
