(* ===== verification/JsNumber.thy ===== *)
theory JsNumber
  imports Prelude "HOL-Library.Log_Nat"
begin

text \<open>
  Numbers the routes read from text: \<^verbatim>\<open>Number.parseInt\<close>, with the rounding of long numerals to doubles.
\<close>

text \<open>The double closest to an integer, ties to even; \<open>None\<close> from \<open>2 ^ 1024\<close> on.\<close>

definition round_double :: "int \<Rightarrow> int option" where
  "round_double n =
     (if \<bar>n\<bar> < 2 ^ 53 then Some n
      else (let u = 2 ^ nat (bitlen \<bar>n\<bar> - 53); q = \<bar>n\<bar> div u; r = \<bar>n\<bar> mod u;
                m = (q + (if u < 2 * r \<or> (2 * r = u \<and> odd q) then 1 else 0)) * u
            in if 2 ^ 1024 \<le> m then None else Some (sgn n * m)))"

text \<open>\<^verbatim>\<open>Number.parseInt(s, 10)\<close>, \<open>None\<close> where the result is not finite.\<close>

definition js_parseInt :: "string \<Rightarrow> int option" where
  "js_parseInt s =
     (let t = dropWhile js_ws s;
          signed = (case t of [] \<Rightarrow> False | c # cs \<Rightarrow> c = CHR ''-'' \<or> c = CHR ''+'');
          ds = takeWhile is_digit (if signed then tl t else t)
      in if ds = [] then None
         else round_double (if signed \<and> hd t = CHR ''-'' then - digits_value 10 ds else digits_value 10 ds))"

text \<open>The same with the infinities: \<open>NaN\<close> only where there are no digits.\<close>

definition js_parseNum :: "string \<Rightarrow> jsnum" where
  "js_parseNum s =
     (case js_parseInt s of
        Some n \<Rightarrow> jsint n
      | None \<Rightarrow> (case parseInt10 s of None \<Rightarrow> NaN | Some n \<Rightarrow> if n < 0 then NegInf else PosInf))"

end
