(* ===== verification/LegalHold.thy ===== *)
theory LegalHold
  imports JsonStore
begin

text \<open>
  Legal holds (\<^verbatim>\<open>src/web/lib/legalHoldStore.ts\<close>): the matters under which automated deletion of
  a group of records is suspended. A row is added when a matter is opened and gets its three
  release fields when it is released; rows are never removed. The clock reading and the fresh
  id of an operation are its arguments.

  The lemmas: what is written is read back, an open matter blocks its scopes until it is
  released, and no operation other than that release lifts it.
\<close>

section \<open>Rows\<close>

datatype LegalHoldScope = Sc_runs | Sc_audit | Sc_webhook_deliveries | Sc_user_data

definition LEGAL_HOLD_SCOPES :: "(string \<times> LegalHoldScope) list" where
  "LEGAL_HOLD_SCOPES = [(''runs'', Sc_runs), (''audit'', Sc_audit),
     (''webhook_deliveries'', Sc_webhook_deliveries), (''user_data'', Sc_user_data)]"

fun hold_scope_str :: "LegalHoldScope \<Rightarrow> string" where
  "hold_scope_str Sc_runs = ''runs''"
| "hold_scope_str Sc_audit = ''audit''"
| "hold_scope_str Sc_webhook_deliveries = ''webhook_deliveries''"
| "hold_scope_str Sc_user_data = ''user_data''"

record LegalHold =
  lh_id :: string
  lh_matter :: string
  lh_reason :: string
  lh_scopes :: "LegalHoldScope list"
  lh_opened_at :: string
  lh_opened_by :: string
  lh_released_at :: "string option"
  lh_released_by :: "string option"
  lh_released_reason :: "string option"

definition str_default :: "string \<Rightarrow> json option \<Rightarrow> string" where
  "str_default d j = (case str_or_null j of None \<Rightarrow> d | Some s \<Rightarrow> s)"

text \<open>Entries that are not one of the four scope names are dropped, in order.\<close>

definition known_scopes :: "string list \<Rightarrow> LegalHoldScope list" where
  "known_scopes = List.map_filter (map_of LEGAL_HOLD_SCOPES)"

definition lh_normalize :: "json \<Rightarrow> LegalHold option" where
  "lh_normalize h =
     (if falsy h \<or> \<not> is_object h then None
      else case (str_or_null (jfield h ''id''), str_or_null (jfield h ''matter'')) of
        (Some i, Some m) \<Rightarrow>
          (let scopes = (case as_array (jfield h ''scopes'') of None \<Rightarrow> [] | Some xs \<Rightarrow> known_scopes (the_strings xs)) in
           if scopes = [] then None
           else Some \<lparr>lh_id = i, lh_matter = m, lh_reason = str_default [] (jfield h ''reason''), lh_scopes = scopes,
                      lh_opened_at = str_default (toISOString 0) (jfield h ''opened_at''),
                      lh_opened_by = str_default ''unknown'' (jfield h ''opened_by''),
                      lh_released_at = str_or_null (jfield h ''released_at''),
                      lh_released_by = str_or_null (jfield h ''released_by''),
                      lh_released_reason = str_or_null (jfield h ''released_reason'')\<rparr>)
      | _ \<Rightarrow> None)"

definition dec_holds :: "json \<Rightarrow> LegalHold list" where
  "dec_holds j = (case j of JArr xs \<Rightarrow> List.map_filter lh_normalize xs | _ \<Rightarrow> [])"

definition enc_hold :: "LegalHold \<Rightarrow> json" where
  "enc_hold h = JObj
     [(''id'', JStr (lh_id h)), (''matter'', JStr (lh_matter h)), (''reason'', JStr (lh_reason h)),
      (''scopes'', JArr (map (\<lambda>s. JStr (hold_scope_str s)) (lh_scopes h))),
      (''opened_at'', JStr (lh_opened_at h)), (''opened_by'', JStr (lh_opened_by h)),
      (''released_at'', jnullable (lh_released_at h)), (''released_by'', jnullable (lh_released_by h)),
      (''released_reason'', jnullable (lh_released_reason h))]"

definition lh_readAll :: "json_file \<Rightarrow> LegalHold list res" where
  "lh_readAll = read_json [] dec_holds"

definition lh_writeAll :: "LegalHold list \<Rightarrow> json_file \<Rightarrow> json_file" where
  "lh_writeAll rows f = Holds (JArr (map enc_hold rows))"

section \<open>Operations\<close>

definition listHolds :: "json_file \<Rightarrow> LegalHold list res" where
  "listHolds f = map_sum id (sort_desc lh_opened_at) (lh_readAll f)"

definition listActiveHolds :: "json_file \<Rightarrow> LegalHold list res" where
  "listActiveHolds f = map_sum id (filter (\<lambda>h. lh_released_at h = None)) (lh_readAll f)"

definition activeScopes :: "json_file \<Rightarrow> LegalHoldScope set res" where
  "activeScopes f = map_sum id (\<lambda>hs. \<Union> (set (map (set \<circ> lh_scopes) hs))) (listActiveHolds f)"

record OpenHoldInput =
  oh_matter :: string
  oh_reason :: "string option"
  oh_scopes :: "string list"
  oh_opened_by :: string

definition dedupeScopes :: "string list \<Rightarrow> LegalHoldScope list" where
  "dedupeScopes xs = dedup (known_scopes xs)"

text \<open>\<^verbatim>\<open>x || "unknown"\<close>\<close>

definition or_unknown :: "string \<Rightarrow> string" where
  "or_unknown s = (if s = [] then ''unknown'' else s)"

definition new_hold :: "int \<Rightarrow> string \<Rightarrow> OpenHoldInput \<Rightarrow> LegalHold" where
  "new_hold now hid input =
     \<lparr>lh_id = hid, lh_matter = trim (oh_matter input), lh_reason = take 1000 (or_empty (oh_reason input)),
      lh_scopes = dedupeScopes (oh_scopes input), lh_opened_at = toISOString now, lh_opened_by = or_unknown (oh_opened_by input),
      lh_released_at = None, lh_released_by = None, lh_released_reason = None\<rparr>"

definition openHold :: "int \<Rightarrow> string \<Rightarrow> OpenHoldInput \<Rightarrow> json_file \<Rightarrow> LegalHold res \<times> json_file" where
  "openHold now hid input f =
     (let matter = trim (oh_matter input)
      in if length matter < 1 \<or> 200 < length matter then (Inl (Thrown ''matter_required''), f)
         else if dedupeScopes (oh_scopes input) = [] then (Inl (Thrown ''scopes_required''), f)
         else case lh_readAll f of
           Inl e \<Rightarrow> (Inl e, f)
         | Inr rows \<Rightarrow> (Inr (new_hold now hid input), lh_writeAll (rows @ [new_hold now hid input]) f))"

record ReleaseInput =
  rl_id :: string
  rl_released_by :: string
  rl_released_reason :: string

definition released :: "int \<Rightarrow> ReleaseInput \<Rightarrow> LegalHold \<Rightarrow> LegalHold" where
  "released now input h =
     h\<lparr>lh_released_at := Some (toISOString now), lh_released_by := Some (or_unknown (rl_released_by input)),
       lh_released_reason := Some (take 1000 (trim (rl_released_reason input)))\<rparr>"

definition releaseHold :: "int \<Rightarrow> ReleaseInput \<Rightarrow> json_file \<Rightarrow> LegalHold res \<times> json_file" where
  "releaseHold now input f =
     (if length (trim (rl_released_reason input)) < 4 then (Inl (Thrown ''release_reason_required''), f)
      else case lh_readAll f of
        Inl e \<Rightarrow> (Inl e, f)
      | Inr rows \<Rightarrow>
          (case find (\<lambda>h. lh_id h = rl_id input) rows of
             None \<Rightarrow> (Inl (Thrown ''not_found''), f)
           | Some h \<Rightarrow>
               if truthy (lh_released_at h) then (Inl (Thrown ''already_released''), f)
               else (Inr (released now input h), lh_writeAll (upd_first (\<lambda>h. lh_id h = rl_id input) (released now input) rows) f)))"

definition holdsBlocking :: "LegalHoldScope list \<Rightarrow> json_file \<Rightarrow> LegalHold list res" where
  "holdsBlocking scopes f =
     (if scopes = [] then Inr []
      else map_sum id (filter (\<lambda>h. list_ex (\<lambda>s. s \<in> set scopes) (lh_scopes h))) (listActiveHolds f))"

definition assertNoLegalHold :: "LegalHoldScope list \<Rightarrow> json_file \<Rightarrow> unit res" where
  "assertNoLegalHold scopes f =
     (case holdsBlocking scopes f of
        Inl e \<Rightarrow> Inl e
      | Inr [] \<Rightarrow> Inr ()
      | Inr bs \<Rightarrow> Inl (Thrown (''legal_hold_active: '' @ join '', '' (map lh_matter bs))))"

section \<open>Reading back\<close>

lemma known_scopes_str [simp]: "known_scopes (map hold_scope_str ss) = ss"
proof -
  have "map_of LEGAL_HOLD_SCOPES (hold_scope_str s) = Some s" for s
    by (cases s) (simp_all add: LEGAL_HOLD_SCOPES_def)
  then show ?thesis by (simp add: known_scopes_def)
qed

lemma the_strings_JStr [simp]: "the_strings (map (\<lambda>s. JStr (f s)) xs) = map f xs"
  using json_readers(13)[of "map f xs"] by (simp add: comp_def)

lemma normalize_enc_hold: "lh_scopes h \<noteq> [] \<Longrightarrow> lh_normalize (enc_hold h) = Some h"
  by (simp add: lh_normalize_def enc_hold_def Let_def str_default_def)

definition holds_ok :: "LegalHold list \<Rightarrow> bool" where
  "holds_ok = list_all (\<lambda>h. lh_scopes h \<noteq> [])"

definition enc_holds :: "LegalHold list \<Rightarrow> json" where
  "enc_holds rows = JArr (map enc_hold rows)"

interpretation lh: json_codec dec_holds enc_holds "[]" holds_ok
proof
  fix rows assume "holds_ok rows"
  then show "dec_holds (enc_holds rows) = rows"
    by (induction rows) (auto simp: holds_ok_def dec_holds_def enc_holds_def normalize_enc_hold map_filter_def)
qed (simp add: holds_ok_def)

lemma lh_read_write [simp]: "holds_ok rows \<Longrightarrow> lh_readAll (lh_writeAll rows f) = Inr rows"
  using lh.read_written[of rows] by (simp add: lh_readAll_def lh_writeAll_def enc_holds_def)

lemma lh_normalize_scopes: "lh_normalize j = Some h \<Longrightarrow> lh_scopes h \<noteq> []"
  by (auto simp: lh_normalize_def Let_def split: option.splits if_splits)

lemma lh_read_ok: "lh_readAll f = Inr rows \<Longrightarrow> holds_ok rows"
  using lh_normalize_scopes
  by (fastforce simp: lh_readAll_def read_json_def dec_holds_def holds_ok_def list_all_iff map_filter_def
      split: json_file.splits json.splits)

lemma known_scopes_dedup: "set (dedupeScopes xs) = set (known_scopes xs)"
  by (simp add: dedupeScopes_def)

section \<open>Sequences of operations\<close>

datatype hold_op = HOpen int string OpenHoldInput | HRelease int ReleaseInput

fun hold_exec :: "hold_op \<Rightarrow> json_file \<Rightarrow> json_file" where
  "hold_exec (HOpen t i input) f = snd (openHold t i input f)"
| "hold_exec (HRelease t input) f = snd (releaseHold t input f)"

text \<open>\<open>hold_blocks i ss f\<close>: the file has an unreleased row with the id \<open>i\<close> that covers one of the scopes \<open>ss\<close>; its id is its own.\<close>

definition hold_blocks :: "string \<Rightarrow> LegalHoldScope list \<Rightarrow> json_file \<Rightarrow> bool" where
  "hold_blocks i ss f \<longleftrightarrow>
     (\<exists>rows h. lh_readAll f = Inr rows \<and> h \<in> set rows \<and> lh_id h = i \<and> lh_released_at h = None \<and> set (lh_scopes h) \<inter> set ss \<noteq> {})"

definition spares :: "string \<Rightarrow> hold_op \<Rightarrow> bool" where
  "spares i p = (case p of HOpen _ _ _ \<Rightarrow> True | HRelease _ input \<Rightarrow> rl_id input \<noteq> i)"

lemma new_hold_simps [simp]:
  "lh_id (new_hold t i input) = i" "lh_released_at (new_hold t i input) = None"
  "lh_scopes (new_hold t i input) = dedupeScopes (oh_scopes input)"
  by (simp_all add: new_hold_def)

lemma openHold_cases:
  obtains e where "openHold t hid input f = (Inl e, f)"
  | rows where "openHold t hid input f = (Inr (new_hold t hid input), lh_writeAll (rows @ [new_hold t hid input]) f)"
      "lh_readAll f = Inr rows" "holds_ok (rows @ [new_hold t hid input])"
proof (cases "fst (openHold t hid input f)")
  case (Inl e)
  then have "openHold t hid input f = (Inl e, f)"
    by (auto simp: openHold_def Let_def split: if_splits sum.splits)
  then show thesis by (rule that(1))
next
  case (Inr row)
  then obtain rows where "lh_readAll f = Inr rows" "dedupeScopes (oh_scopes input) \<noteq> []"
      "openHold t hid input f = (Inr (new_hold t hid input), lh_writeAll (rows @ [new_hold t hid input]) f)"
    by (auto simp: openHold_def Let_def split: if_splits sum.splits)
  then show thesis using lh_read_ok by (intro that(2)) (auto simp: holds_ok_def)
qed

lemma releaseHold_cases:
  obtains e where "releaseHold t input f = (Inl e, f)"
  | rows h where "releaseHold t input f = (Inr (released t input h), lh_writeAll (upd_first (\<lambda>x. lh_id x = rl_id input) (released t input) rows) f)"
      "lh_readAll f = Inr rows" "find (\<lambda>x. lh_id x = rl_id input) rows = Some h" "\<not> truthy (lh_released_at h)"
      "holds_ok (upd_first (\<lambda>x. lh_id x = rl_id input) (released t input) rows)"
proof (cases "fst (releaseHold t input f)")
  case (Inl e)
  then have "releaseHold t input f = (Inl e, f)"
    by (auto simp: releaseHold_def split: if_splits sum.splits option.splits)
  then show thesis by (rule that(1))
next
  case (Inr h')
  then obtain rows h where "lh_readAll f = Inr rows" "find (\<lambda>x. lh_id x = rl_id input) rows = Some h" "\<not> truthy (lh_released_at h)"
      "releaseHold t input f = (Inr (released t input h), lh_writeAll (upd_first (\<lambda>x. lh_id x = rl_id input) (released t input) rows) f)"
    by (auto simp: releaseHold_def split: if_splits sum.splits option.splits)
  then show thesis
    using lh_read_ok by (intro that(2)) (auto simp: holds_ok_def released_def intro!: list_all_upd_first)
qed

lemma hold_exec_blocks:
  assumes "spares i p" "hold_blocks i ss f"
  shows "hold_blocks i ss (hold_exec p f)"
proof -
  from assms(2) obtain rows h where h: "lh_readAll f = Inr rows" "h \<in> set rows" "lh_id h = i" "lh_released_at h = None"
      "set (lh_scopes h) \<inter> set ss \<noteq> {}" by (auto simp: hold_blocks_def)
  show ?thesis
  proof (cases p)
    case (HOpen t hid input)
    show ?thesis
    proof (cases rule: openHold_cases[of t hid input f])
      case 1
      with assms(2) HOpen show ?thesis by simp
    next
      case (2 rows')
      with h HOpen show ?thesis by (auto simp: hold_blocks_def)
    qed
  next
    case (HRelease t input)
    show ?thesis
    proof (cases rule: releaseHold_cases[of t input f])
      case 1
      with assms(2) HRelease show ?thesis by simp
    next
      case (2 rows' h0)
      have "h \<in> set (upd_first (\<lambda>x. lh_id x = rl_id input) (released t input) rows)"
        using h(2,3) assms(1) HRelease by (induction rows) (auto simp: spares_def)
      with 2 h HRelease show ?thesis unfolding hold_blocks_def by auto
    qed
  qed
qed

interpretation hold_run: preserved hold_exec "spares i" "hold_blocks i ss"
  by unfold_locales (rule hold_exec_blocks)

text \<open>A row that blocks shows up in \<^const>\<open>holdsBlocking\<close>.\<close>

lemma hold_blocks_blocking:
  assumes "hold_blocks i ss f"
  obtains h hs where "holdsBlocking ss f = Inr hs" "h \<in> set hs" "lh_id h = i"
proof -
  from assms obtain rows h where h: "lh_readAll f = Inr rows" "h \<in> set rows" "lh_id h = i" "lh_released_at h = None"
      "set (lh_scopes h) \<inter> set ss \<noteq> {}" by (auto simp: hold_blocks_def)
  then have "ss \<noteq> []" "list_ex (\<lambda>s. s \<in> set ss) (lh_scopes h)" by (auto simp: list_ex_iff)
  with h show thesis
    by (intro that[of "filter (\<lambda>h. list_ex (\<lambda>s. s \<in> set ss) (lh_scopes h)) (filter (\<lambda>h. lh_released_at h = None) rows)" h])
       (auto simp: holdsBlocking_def listActiveHolds_def)
qed

lemma openHold_blocks:
  assumes "openHold t hid input f = (Inr row, f')" "set (known_scopes (oh_scopes input)) \<inter> set ss \<noteq> {}"
  shows "hold_blocks hid ss f'"
proof (cases rule: openHold_cases[of t hid input f])
  case 1
  with assms(1) show ?thesis by simp
next
  case (2 rows)
  with assms show ?thesis
    unfolding hold_blocks_def
    by (intro exI[of _ "rows @ [new_hold t hid input]"] exI[of _ "new_hold t hid input"]) (auto simp: known_scopes_dedup)
qed

section \<open>An example\<close>

definition sample_matter :: OpenHoldInput where
  "sample_matter = \<lparr>oh_matter = ''Smith v. Jones'', oh_reason = None, oh_scopes = [''runs'', ''audit''], oh_opened_by = ''counsel''\<rparr>"

lemma sample_scopes: "known_scopes (oh_scopes sample_matter) = [Sc_runs, Sc_audit]"
  by (simp add: sample_matter_def known_scopes_def LEGAL_HOLD_SCOPES_def map_filter_simps)

lemma sample_hold: "\<exists>row f. openHold 0 ''h1'' sample_matter Absent = (Inr row, f)"
proof -
  have "trim ''Smith v. Jones'' = ''Smith v. Jones''" by code_simp
  then show ?thesis using sample_scopes by (simp add: openHold_def Let_def sample_matter_def dedupeScopes_def dedup_def lh_readAll_def)
qed

end
