(* ===== verification/RunStore.thy ===== *)
theory RunStore
  imports Http JsSort
begin

text \<open>
  Saved analysis runs (\<^verbatim>\<open>src/web/lib/runStore.ts\<close>) and the rules that decide which API key may
  read or change a run (\<^verbatim>\<open>src/web/lib/runAcl.ts\<close>). The file is cast to the store's type when it
  is read, after the fields older rows lack have been filled in. Numbers of a run come from
  JSON, so a missing or null number is \<open>None\<close>. String collation (\<^verbatim>\<open>localeCompare\<close>) is the
  argument \<open>lc\<close>.
\<close>

section \<open>Data\<close>

definition MAX_RUNS :: nat where "MAX_RUNS = 500"
definition MAX_NOTES_LEN :: nat where "MAX_NOTES_LEN = 2000"
definition MAX_TAGS_PER_RUN :: nat where "MAX_TAGS_PER_RUN = 8"

record RunSnapshot =
  sn_label :: string
  sn_realized_vol :: "rat option"
  sn_trend_slope :: "rat option"
  sn_drawdown :: "rat option"
  sn_confidence :: "rat option"
  sn_risk_scale :: "rat option"
  sn_as_of :: string

record RunPayload =
  pl_ticker :: string
  pl_dates :: "string list"
  pl_close :: "rat option list"
  pl_regime :: "string option list"
  pl_counts :: "(string \<times> rat) list"
  pl_snapshot :: "RunSnapshot option"
  pl_disclaimer :: string

text \<open>\<open>None\<close> in the tags, notes and pin of a row: the field is missing, or not of its type.\<close>

record SavedRun =
  run_id :: string
  run_label :: string
  run_ticker :: string
  run_lookback_days :: int
  run_created_at :: string
  run_tags :: "string list option"
  run_notes :: "string option"
  run_pinned :: "bool option"
  run_pinned_at :: "string option"
  run_created_by_key_id :: "string option"
  run_created_by_key_label :: "string option"
  run_payload :: RunPayload

type_synonym run_file = "SavedRun list cast_file"

section \<open>Notes, tags and dates\<close>

definition note_char :: "char \<Rightarrow> bool" where
  "note_char c \<longleftrightarrow> (let n = (of_char c :: nat) in \<not> (n \<le> 8 \<or> (11 \<le> n \<and> n \<le> 31) \<or> n = 127))"

definition normalizeNotes :: "json \<Rightarrow> string" where
  "normalizeNotes j = (case j of JStr s \<Rightarrow> take MAX_NOTES_LEN (trim (filter note_char s)) | _ \<Rightarrow> [])"

definition tag_char :: "char \<Rightarrow> bool" where
  "tag_char c \<longleftrightarrow> is_lower c \<or> is_digit c \<or> c = CHR ''-''"

text \<open>\<^verbatim>\<open>/^[a-z0-9][a-z0-9-]{0,23}$/\<close>\<close>

definition TAG_RE :: "string \<Rightarrow> bool" where
  "TAG_RE t \<longleftrightarrow> t \<noteq> [] \<and> length t \<le> 24 \<and> list_all tag_char t \<and> hd t \<noteq> CHR ''-''"

text \<open>\<^verbatim>\<open>s.replace(/\s+/g, "-")\<close>; the flag says that the last character was white space.\<close>

fun dash_spaces :: "bool \<Rightarrow> string \<Rightarrow> string" where
  "dash_spaces ws [] = []"
| "dash_spaces ws (c # cs) =
     (if js_ws c then (if ws then dash_spaces True cs else CHR ''-'' # dash_spaces True cs)
      else c # dash_spaces False cs)"

definition normalizeTag :: "string \<Rightarrow> string" where
  "normalizeTag raw = filter tag_char (dash_spaces False (toLowerCase (trim raw)))"

text \<open>The loop of \<^verbatim>\<open>normalizeTags\<close>; \<open>out\<close> is the output so far and the set of tags seen.\<close>

fun tag_loop :: "string list \<Rightarrow> json list \<Rightarrow> string list" where
  "tag_loop out [] = out"
| "tag_loop out (JStr raw # js) =
     (let t = normalizeTag raw in
      if \<not> TAG_RE t \<or> t \<in> set out then tag_loop out js
      else if MAX_TAGS_PER_RUN \<le> length (out @ [t]) then out @ [t]
      else tag_loop (out @ [t]) js)"
| "tag_loop out (j # js) = tag_loop out js"

definition normalizeTags :: "json \<Rightarrow> string list" where
  "normalizeTags j = (case j of JArr xs \<Rightarrow> tag_loop [] xs | _ \<Rightarrow> [])"

definition BARE_DATE_RE :: "string \<Rightarrow> bool" where
  "BARE_DATE_RE s \<longleftrightarrow> length s = 10 \<and> s ! 4 = CHR ''-'' \<and> s ! 7 = CHR ''-''
     \<and> list_all is_digit (take 4 s) \<and> list_all is_digit (take 2 (drop 5 s)) \<and> list_all is_digit (drop 8 s)"

definition parse_bound :: "host \<Rightarrow> string \<Rightarrow> string option \<Rightarrow> int option" where
  "parse_bound H suffix raw =
     (let s = trim (or_empty raw) in
      if s = [] then None else date_parse H (if BARE_DATE_RE s then s @ suffix else s))"

definition parseSinceMs :: "host \<Rightarrow> string option \<Rightarrow> int option" where
  "parseSinceMs H = parse_bound H ''T00:00:00.000Z''"

definition parseUntilMs :: "host \<Rightarrow> string option \<Rightarrow> int option" where
  "parseUntilMs H = parse_bound H ''T23:59:59.999Z''"

section \<open>The file\<close>

definition tags_of :: "SavedRun \<Rightarrow> string list" where
  "tags_of r = (case run_tags r of None \<Rightarrow> [] | Some ts \<Rightarrow> ts)"

definition ensureTags :: "SavedRun \<Rightarrow> SavedRun" where
  "ensureTags r = r\<lparr>run_tags := Some (tags_of r), run_notes := Some (or_empty (run_notes r)),
     run_pinned := Some (run_pinned r = Some True)\<rparr>"

definition rs_readStore :: "run_file \<Rightarrow> SavedRun list res" where
  "rs_readStore f = (case f of NoFile \<Rightarrow> Inr [] | BadFile \<Rightarrow> Inl IoFault | Stored rs \<Rightarrow> Inr (map ensureTags rs))"

definition rs_writeStore :: "SavedRun list \<Rightarrow> run_file \<Rightarrow> run_file" where
  "rs_writeStore rs f = Stored rs"

section \<open>Operations\<close>

text \<open>Five operations share their frame: read, find the run, change it in place, write.\<close>

definition edit_run :: "string \<Rightarrow> (SavedRun \<Rightarrow> SavedRun) \<Rightarrow> run_file \<Rightarrow> SavedRun option res \<times> run_file" where
  "edit_run i g f =
     (case rs_readStore f of
        Inl e \<Rightarrow> (Inl e, f)
      | Inr rs \<Rightarrow>
          (case find (\<lambda>r. run_id r = i) rs of
             None \<Rightarrow> (Inr None, f)
           | Some r \<Rightarrow> (Inr (Some (ensureTags (g r))), rs_writeStore (upd_first (\<lambda>r. run_id r = i) g rs) f)))"

definition set_pin :: "int \<Rightarrow> bool \<Rightarrow> SavedRun \<Rightarrow> SavedRun" where
  "set_pin now pinned r =
     r\<lparr>run_pinned := Some pinned, run_pinned_at := (if pinned then Some (toISOString now) else None)\<rparr>"

definition setRunPinned :: "int \<Rightarrow> string \<Rightarrow> bool \<Rightarrow> run_file \<Rightarrow> SavedRun option res \<times> run_file" where
  "setRunPinned now i pinned = edit_run i (set_pin now pinned)"

definition renameRun :: "string \<Rightarrow> string \<Rightarrow> run_file \<Rightarrow> SavedRun option res \<times> run_file" where
  "renameRun i label = edit_run i (\<lambda>r. r\<lparr>run_label := label\<rparr>)"

definition setRunTags :: "string \<Rightarrow> json \<Rightarrow> run_file \<Rightarrow> SavedRun option res \<times> run_file" where
  "setRunTags i tags = edit_run i (\<lambda>r. r\<lparr>run_tags := Some (normalizeTags tags)\<rparr>)"

definition setRunNotes :: "string \<Rightarrow> json \<Rightarrow> run_file \<Rightarrow> SavedRun option res \<times> run_file" where
  "setRunNotes i notes = edit_run i (\<lambda>r. r\<lparr>run_notes := Some (normalizeNotes notes)\<rparr>)"

text \<open>The rows of \<^verbatim>\<open>listPinnedRuns\<close>: those pinned, by the time of the pin, or of the run when the pin has none.\<close>

definition listPinnedRuns :: "int \<Rightarrow> run_file \<Rightarrow> SavedRun list res" where
  "listPinnedRuns limit f = map_sum id (\<lambda>rs.
     take (nat (max 1 (min limit 50)))
       (sort_desc (\<lambda>r. case run_pinned_at r of Some t \<Rightarrow> t | None \<Rightarrow> run_created_at r)
         (filter (\<lambda>r. run_pinned r = Some True) rs))) (rs_readStore f)"

definition getRun :: "string \<Rightarrow> run_file \<Rightarrow> SavedRun option res" where
  "getRun i f = map_sum id (find (\<lambda>r. run_id r = i)) (rs_readStore f)"

record NewRun =
  nr_label :: string
  nr_ticker :: string
  nr_lookback_days :: int
  nr_tags :: json
  nr_notes :: "string option"
  nr_pinned :: "bool option"
  nr_pinned_at :: "string option"
  nr_created_by_key_id :: "string option"
  nr_created_by_key_label :: "string option"
  nr_payload :: RunPayload

definition createRun :: "int \<Rightarrow> string \<Rightarrow> NewRun \<Rightarrow> run_file \<Rightarrow> SavedRun res \<times> run_file" where
  "createRun now rid input f =
     (case rs_readStore f of
        Inl e \<Rightarrow> (Inl e, f)
      | Inr rs \<Rightarrow>
          (let run = \<lparr>run_id = rid, run_label = nr_label input, run_ticker = nr_ticker input,
                      run_lookback_days = nr_lookback_days input, run_created_at = toISOString now,
                      run_tags = Some (normalizeTags (nr_tags input)), run_notes = nr_notes input,
                      run_pinned = nr_pinned input, run_pinned_at = nr_pinned_at input,
                      run_created_by_key_id = nr_created_by_key_id input,
                      run_created_by_key_label = nr_created_by_key_label input, run_payload = nr_payload input\<rparr>;
               rs' = rs @ [run]
           in (Inr run, rs_writeStore (if MAX_RUNS < length rs' then take MAX_RUNS (sort_desc run_created_at rs') else rs') f)))"

definition deleteRun :: "string \<Rightarrow> run_file \<Rightarrow> bool res \<times> run_file" where
  "deleteRun i f =
     (case rs_readStore f of
        Inl e \<Rightarrow> (Inl e, f)
      | Inr rs \<Rightarrow>
          (let rs' = filter (\<lambda>r. run_id r \<noteq> i) rs in
           if length rs' = length rs then (Inr False, f) else (Inr True, rs_writeStore rs' f)))"

datatype BulkAction = B_delete | B_pin | B_unpin | B_add_tags | B_remove_tags | B_set_tags

record BulkResult =
  br_requested :: nat
  br_matched :: nat
  br_affected :: nat
  br_ids :: "string list"

definition bulk_pin :: "int \<Rightarrow> bool \<Rightarrow> SavedRun \<Rightarrow> SavedRun option" where
  "bulk_pin now target r = (if (run_pinned r = Some True) = target then None else Some (set_pin now target r))"

definition bulk_tags :: "BulkAction \<Rightarrow> string list \<Rightarrow> SavedRun \<Rightarrow> SavedRun option" where
  "bulk_tags act incoming r =
     (let before = normalizeTags (JArr (map JStr (tags_of r)));
          next = (if act = B_set_tags then incoming
                  else if act = B_add_tags then normalizeTags (JArr (map JStr (before @ incoming)))
                  else filter (\<lambda>t. t \<notin> set incoming) before)
      in if before = next then None else Some (r\<lparr>run_tags := Some next\<rparr>))"

text \<open>The loops over the matched rows: the change of a row, if there is one, and the ids of the rows changed.\<close>

definition bulk_change :: "string list \<Rightarrow> (SavedRun \<Rightarrow> SavedRun option) \<Rightarrow> SavedRun list \<Rightarrow> SavedRun list \<times> string list" where
  "bulk_change ms g rs =
     (map (\<lambda>r. if run_id r \<in> set ms then (case g r of None \<Rightarrow> r | Some r' \<Rightarrow> r') else r) rs,
      map run_id (filter (\<lambda>r. run_id r \<in> set ms \<and> g r \<noteq> None) rs))"

definition bulk_row :: "int \<Rightarrow> BulkAction \<Rightarrow> json \<Rightarrow> SavedRun \<Rightarrow> SavedRun option" where
  "bulk_row now act tags =
     (if act = B_pin \<or> act = B_unpin then bulk_pin now (act = B_pin) else bulk_tags act (normalizeTags tags))"

definition bulkRunOp :: "int \<Rightarrow> string list \<Rightarrow> BulkAction \<Rightarrow> json \<Rightarrow> run_file \<Rightarrow> BulkResult res \<times> run_file" where
  "bulkRunOp now ids act tags f =
     (let uniq = dedup (filter (\<lambda>v. v \<noteq> []) ids) in
      case rs_readStore f of
        Inl e \<Rightarrow> (Inl e, f)
      | Inr rs \<Rightarrow>
          (let matched = filter (\<lambda>i. i \<in> set (map run_id rs)) uniq;
               result = (\<lambda>aff. \<lparr>br_requested = length uniq, br_matched = length matched, br_affected = length aff, br_ids = aff\<rparr>)
           in if act = B_delete
              then (let rs' = filter (\<lambda>r. run_id r \<notin> set matched) rs in
                    (Inr (result matched), if length rs' \<noteq> length rs then rs_writeStore rs' f else f))
              else (case bulk_change matched (bulk_row now act tags) rs of
                      (rs', aff) \<Rightarrow> (Inr (result aff), if aff \<noteq> [] then rs_writeStore rs' f else f))))"

text \<open>The counts of \<^verbatim>\<open>listTags\<close>: every occurrence of a tag on a run, most frequent first.\<close>

fun count_tag :: "(string \<times> nat) list \<Rightarrow> string \<Rightarrow> (string \<times> nat) list" where
  "count_tag [] t = [(t, 1)]"
| "count_tag ((u, n) # us) t = (if u = t then (u, Suc n) # us else (u, n) # count_tag us t)"

definition listTags :: "string cmp \<Rightarrow> run_file \<Rightarrow> (string \<times> nat) list res" where
  "listTags lc f = map_sum id (\<lambda>rs.
     sort_cmp (cmp_then (cmp_desc snd) (\<lambda>a b. lc (fst a) (fst b)))
       (foldl count_tag [] (concat (map tags_of rs)))) (rs_readStore f)"

section \<open>Access rules\<close>

datatype RunAclDecision = Acl_admin | Acl_owner | Acl_unowned | Acl_not_owner string

definition acl_allowed :: "RunAclDecision \<Rightarrow> bool" where
  "acl_allowed d = (case d of Acl_not_owner _ \<Rightarrow> False | _ \<Rightarrow> True)"

definition decideRunMutation :: "string option \<Rightarrow> StoredKey \<Rightarrow> RunAclDecision" where
  "decideRunMutation owner key =
     (if S_admin \<in> set (k_scopes key) then Acl_admin
      else if \<not> truthy owner then Acl_unowned
      else if owner = Some (k_id key) then Acl_owner
      else Acl_not_owner (or_empty owner))"

definition decideRunRead :: "string option \<Rightarrow> StoredKey \<Rightarrow> RunAclDecision" where
  "decideRunRead owner key =
     (if S_admin \<in> set (k_scopes key) then Acl_admin
      else if \<not> truthy owner then Acl_unowned
      else if owner = Some (k_id key) then Acl_owner
      else Acl_not_owner (or_empty owner))"

datatype RunOwnerFilter = Owner_all | Owner_or_unowned string

definition ownerFilterForKey :: "StoredKey \<Rightarrow> RunOwnerFilter" where
  "ownerFilterForKey key = (if S_admin \<in> set (k_scopes key) then Owner_all else Owner_or_unowned (k_id key))"

definition runMatchesOwnerFilter :: "string option \<Rightarrow> RunOwnerFilter \<Rightarrow> bool" where
  "runMatchesOwnerFilter owner flt =
     (case flt of Owner_all \<Rightarrow> True | Owner_or_unowned k \<Rightarrow> \<not> truthy owner \<or> owner = Some k)"

section \<open>Queries\<close>

datatype RunSort = By_recent | By_oldest | By_ticker | By_confidence | By_bars

record QueryOpts =
  qo_q :: "string option"
  qo_regime :: "string option"
  qo_ticker :: "string option"
  qo_tag :: "string option"
  qo_pinned :: "bool option"
  qo_since :: "string option"
  qo_until :: "string option"
  qo_minConfidence :: "jsnum option"
  qo_maxConfidence :: "jsnum option"
  qo_minBars :: "jsnum option"
  qo_maxBars :: "jsnum option"
  qo_limit :: "int option"
  qo_offset :: "int option"
  qo_sort :: RunSort
  qo_ownerFilter :: "RunOwnerFilter option"

definition owner_visible :: "RunOwnerFilter option \<Rightarrow> SavedRun \<Rightarrow> bool" where
  "owner_visible flt r =
     (case flt of
        Some (Owner_or_unowned k) \<Rightarrow> run_created_by_key_id r = None \<or> run_created_by_key_id r = Some k
      | _ \<Rightarrow> True)"

definition text_match :: "string \<Rightarrow> SavedRun \<Rightarrow> bool" where
  "text_match q r \<longleftrightarrow> includesStr (toLowerCase (run_label r)) q \<or> includesStr (toLowerCase (run_ticker r)) q
     \<or> includesStr (toLowerCase (run_id r)) q \<or> list_ex (\<lambda>t. includesStr t q) (tags_of r)
     \<or> includesStr (toLowerCase (or_empty (run_notes r))) q"

definition snap_label :: "SavedRun \<Rightarrow> string" where
  "snap_label r = (case pl_snapshot (run_payload r) of None \<Rightarrow> [] | Some s \<Rightarrow> sn_label s)"

definition confidence_of :: "SavedRun \<Rightarrow> rat option" where
  "confidence_of r = Option.bind (pl_snapshot (run_payload r)) sn_confidence"

definition bars_of :: "SavedRun \<Rightarrow> nat" where
  "bars_of r = length (pl_dates (run_payload r))"

definition created_between :: "host \<Rightarrow> int option \<Rightarrow> int option \<Rightarrow> SavedRun \<Rightarrow> bool" where
  "created_between H since until r \<longleftrightarrow>
     (case since of None \<Rightarrow> True | Some s \<Rightarrow> (case date_parse H (run_created_at r) of None \<Rightarrow> False | Some t \<Rightarrow> s \<le> t))
     \<and> (case until of None \<Rightarrow> True | Some u \<Rightarrow> (case date_parse H (run_created_at r) of None \<Rightarrow> False | Some t \<Rightarrow> t \<le> u))"

definition conf_bound :: "jsnum option \<Rightarrow> rat option" where
  "conf_bound x = (case x of Some (Fin q) \<Rightarrow> if 0 \<le> q \<and> q \<le> 1 then Some q else None | _ \<Rightarrow> None)"

definition bars_bound :: "jsnum option \<Rightarrow> int option" where
  "bars_bound x = (case x of Some (Fin q) \<Rightarrow> if 0 \<le> q then Some \<lfloor>q\<rfloor> else None | _ \<Rightarrow> None)"

definition in_bounds :: "QueryOpts \<Rightarrow> SavedRun \<Rightarrow> bool" where
  "in_bounds opts r \<longleftrightarrow>
     (case conf_bound (qo_minConfidence opts) of None \<Rightarrow> True | Some b \<Rightarrow> (case confidence_of r of None \<Rightarrow> False | Some c \<Rightarrow> b \<le> c))
     \<and> (case conf_bound (qo_maxConfidence opts) of None \<Rightarrow> True | Some b \<Rightarrow> (case confidence_of r of None \<Rightarrow> False | Some c \<Rightarrow> c \<le> b))
     \<and> (case bars_bound (qo_minBars opts) of None \<Rightarrow> True | Some b \<Rightarrow> b \<le> int (bars_of r))
     \<and> (case bars_bound (qo_maxBars opts) of None \<Rightarrow> True | Some b \<Rightarrow> int (bars_of r) \<le> b)"

text \<open>The filters after the tenant filter, in the order of the code.\<close>

definition run_matches :: "host \<Rightarrow> QueryOpts \<Rightarrow> SavedRun \<Rightarrow> bool" where
  "run_matches H opts r =
     (let q = toLowerCase (trim (or_empty (qo_q opts)));
          regime = toLowerCase (trim (or_empty (qo_regime opts)));
          ticker = toUpperCase (trim (or_empty (qo_ticker opts)));
          tagRaw = toLowerCase (trim (or_empty (qo_tag opts)));
          tag = (if TAG_RE tagRaw then tagRaw else [])
      in (q \<noteq> [] \<longrightarrow> text_match q r)
       \<and> (regime \<noteq> [] \<and> regime \<noteq> ''all'' \<longrightarrow> toLowerCase (snap_label r) = regime)
       \<and> (ticker \<noteq> [] \<longrightarrow> toUpperCase (run_ticker r) = ticker)
       \<and> (tag \<noteq> [] \<longrightarrow> tag \<in> set (tags_of r))
       \<and> (qo_pinned opts = Some True \<longrightarrow> run_pinned r = Some True)
       \<and> created_between H (parseSinceMs H (qo_since opts)) (parseUntilMs H (qo_until opts)) r
       \<and> in_bounds opts r)"

text \<open>A run without a confidence sorts as \<^verbatim>\<open>-Infinity\<close>.\<close>

definition cmp_confidence :: "SavedRun cmp" where
  "cmp_confidence a b =
     (case (confidence_of a, confidence_of b) of
        (None, None) \<Rightarrow> 0 | (None, Some _) \<Rightarrow> 1 | (Some _, None) \<Rightarrow> -1
      | (Some x, Some y) \<Rightarrow> if x < y then 1 else if y < x then -1 else 0)"

definition cmp_recent :: "SavedRun cmp" where
  "cmp_recent = cmp_desc run_created_at"

fun run_cmp :: "string cmp \<Rightarrow> RunSort \<Rightarrow> SavedRun cmp" where
  "run_cmp lc By_recent = cmp_recent"
| "run_cmp lc By_oldest = cmp_key run_created_at"
| "run_cmp lc By_ticker = cmp_then (\<lambda>a b. lc (run_ticker a) (run_ticker b)) cmp_recent"
| "run_cmp lc By_confidence = cmp_then cmp_confidence cmp_recent"
| "run_cmp lc By_bars = cmp_then (cmp_desc bars_of) cmp_recent"

record QueryResult =
  qr_runs :: "SavedRun list"
  qr_total :: nat
  qr_limit :: int
  qr_offset :: int

text \<open>The rows a query selects, in its order; \<open>query_rows\<close> is what a page is cut from.\<close>

definition query_rows :: "host \<Rightarrow> string cmp \<Rightarrow> QueryOpts \<Rightarrow> SavedRun list \<Rightarrow> SavedRun list" where
  "query_rows H lc opts rs =
     sort_cmp (run_cmp lc (qo_sort opts)) (filter (run_matches H opts) (filter (owner_visible (qo_ownerFilter opts)) rs))"

definition query_result :: "host \<Rightarrow> string cmp \<Rightarrow> QueryOpts \<Rightarrow> SavedRun list \<Rightarrow> QueryResult" where
  "query_result H lc opts rs =
     (let limit = min (max (case qo_limit opts of None \<Rightarrow> 25 | Some n \<Rightarrow> n) 1) 200;
          offset = max (case qo_offset opts of None \<Rightarrow> 0 | Some n \<Rightarrow> n) 0;
          rows = query_rows H lc opts rs
      in \<lparr>qr_runs = take (nat limit) (drop (nat offset) rows), qr_total = length rows, qr_limit = limit, qr_offset = offset\<rparr>)"

definition queryRuns :: "host \<Rightarrow> string cmp \<Rightarrow> QueryOpts \<Rightarrow> run_file \<Rightarrow> QueryResult res" where
  "queryRuns H lc opts f = map_sum id (query_result H lc opts) (rs_readStore f)"

section \<open>The spreadsheet export\<close>

definition CSV_HEADER :: "string list" where
  "CSV_HEADER = [''run_id'', ''label'', ''ticker'', ''lookback_days'', ''created_at'', ''tags'', ''regime_label'',
     ''confidence'', ''risk_scale'', ''bar_date'', ''close'', ''bar_regime'']"

abbreviation DQ :: char where "DQ \<equiv> CHR 0x22"
abbreviation LF :: char where "LF \<equiv> CHR 0x0A"
abbreviation CR :: char where "CR \<equiv> CHR 0x0D"

definition csv_esc :: "string \<Rightarrow> string" where
  "csv_esc s =
     (if list_ex (\<lambda>c. c = DQ \<or> c = CHR '','' \<or> c = LF \<or> c = CR) s
      then DQ # concat (map (\<lambda>c. if c = DQ then [DQ, DQ] else [c]) s) @ [DQ] else s)"

definition rat_cell :: "host \<Rightarrow> rat option \<Rightarrow> string" where
  "rat_cell H x = (case x of None \<Rightarrow> [] | Some q \<Rightarrow> num_text H (Fin q))"

definition nth_opt :: "'a list \<Rightarrow> nat \<Rightarrow> 'a option" where
  "nth_opt xs i = (if i < length xs then Some (xs ! i) else None)"

text \<open>The cells of a run: its own ones repeated for every bar, or once when it has no bars.\<close>

definition run_cells :: "host \<Rightarrow> SavedRun \<Rightarrow> string list list" where
  "run_cells H r =
     (let snap = pl_snapshot (run_payload r);
          own = [run_id r, run_label r, run_ticker r, int_str (run_lookback_days r), run_created_at r, join ''|'' (tags_of r),
                 snap_label r, rat_cell H (Option.bind snap sn_confidence), rat_cell H (Option.bind snap sn_risk_scale)];
          dates = pl_dates (run_payload r)
      in if dates = [] then [own @ [[], [], []]]
         else map (\<lambda>i. own @ [dates ! i, rat_cell H (Option.bind (nth_opt (pl_close (run_payload r)) i) id),
                               or_empty (Option.bind (nth_opt (pl_regime (run_payload r)) i) id)]) [0..<length dates])"

definition csv_line :: "string list \<Rightarrow> string" where
  "csv_line cells = join '','' (map csv_esc cells)"

definition csv_cells :: "host \<Rightarrow> SavedRun list \<Rightarrow> string list list" where
  "csv_cells H runs = concat (map (run_cells H) runs)"

definition runsToCSV :: "host \<Rightarrow> SavedRun list \<Rightarrow> string" where
  "runsToCSV H runs = join [LF] (join '','' CSV_HEADER # map csv_line (csv_cells H runs)) @ [LF]"

section \<open>Tags are canonical\<close>

definition tags_ok :: "string list \<Rightarrow> bool" where
  "tags_ok ts \<longleftrightarrow> list_all TAG_RE ts \<and> distinct ts \<and> length ts \<le> MAX_TAGS_PER_RUN"

lemma tag_char_fixed: "tag_char c \<Longrightarrow> \<not> js_ws c \<and> to_lower_char c = c"
  by (auto simp: tag_char_def js_ws_def to_lower_char_def Let_def is_lower_def is_digit_def)

lemma dash_spaces_id: "list_all (\<lambda>c. \<not> js_ws c) s \<Longrightarrow> dash_spaces b s = s"
  by (induction s arbitrary: b) auto

lemma normalizeTag_fixed:
  assumes "TAG_RE t"
  shows "normalizeTag t = t"
proof -
  have c: "list_all tag_char t" "t \<noteq> []" using assms by (auto simp: TAG_RE_def)
  then have ws: "list_all (\<lambda>c. \<not> js_ws c) t" and low: "toLowerCase t = t"
    using tag_char_fixed by (auto simp: list_all_iff toLowerCase_def intro: map_idI)
  moreover have "trim t = t" using ws c(2) by (intro trim_id) (auto simp: list_all_iff)
  ultimately show ?thesis using c(1) by (simp add: normalizeTag_def dash_spaces_id list_all_iff)
qed

lemma tag_loop_ok: "\<lbrakk>tags_ok out; length out < MAX_TAGS_PER_RUN\<rbrakk> \<Longrightarrow> tags_ok (tag_loop out js)"
proof (induction out js rule: tag_loop.induct)
  case (2 out raw js)
  then show ?case by (auto simp: Let_def tags_ok_def)
qed auto

lemma normalizeTags_ok: "tags_ok (normalizeTags j)"
  by (auto simp: normalizeTags_def tags_ok_def[of "[]"] MAX_TAGS_PER_RUN_def intro!: tag_loop_ok split: json.splits)

lemma tag_loop_fixed: "tags_ok (out @ ts) \<Longrightarrow> tag_loop out (map JStr ts) = out @ ts"
proof (induction ts arbitrary: out)
  case Nil
  then show ?case by simp
next
  case (Cons t ts)
  then have t: "TAG_RE t" "t \<notin> set out" by (auto simp: tags_ok_def)
  have full: "ts = []" if "MAX_TAGS_PER_RUN \<le> Suc (length out)" using Cons.prems that by (cases ts) (auto simp: tags_ok_def)
  show ?case using Cons.IH[of "out @ [t]"] Cons.prems t full by (auto simp: normalizeTag_fixed Let_def)
qed

lemma normalizeTags_fixed: "tags_ok ts \<Longrightarrow> normalizeTags (JArr (map JStr ts)) = ts"
  using tag_loop_fixed[of "[]" ts] by (simp add: normalizeTags_def)

section \<open>Sequences of operations\<close>

datatype run_op =
    RPin int string bool
  | RRename string string
  | RTags string json
  | RNotes string json
  | RCreate int string NewRun
  | RDelete string
  | RBulk int "string list" BulkAction json

fun run_exec :: "run_op \<Rightarrow> run_file \<Rightarrow> run_file" where
  "run_exec (RPin t i b) f = snd (setRunPinned t i b f)"
| "run_exec (RRename i l) f = snd (renameRun i l f)"
| "run_exec (RTags i j) f = snd (setRunTags i j f)"
| "run_exec (RNotes i j) f = snd (setRunNotes i j f)"
| "run_exec (RCreate t i input) f = snd (createRun t i input f)"
| "run_exec (RDelete i) f = snd (deleteRun i f)"
| "run_exec (RBulk t is act tags) f = snd (bulkRunOp t is act tags f)"

definition run_ok :: "SavedRun \<Rightarrow> bool" where
  "run_ok r \<longleftrightarrow> tags_ok (tags_of r)"

definition run_rows :: "run_file \<Rightarrow> SavedRun list" where
  "run_rows f = (case rs_readStore f of Inl e \<Rightarrow> [] | Inr rs \<Rightarrow> rs)"

definition runs_ok :: "run_file \<Rightarrow> bool" where
  "runs_ok f \<longleftrightarrow> list_all run_ok (run_rows f) \<and> length (run_rows f) \<le> MAX_RUNS"

lemma ensureTags_simps [simp]:
  "run_id (ensureTags r) = run_id r" "run_created_at (ensureTags r) = run_created_at r" "tags_of (ensureTags r) = tags_of r"
  "run_created_by_key_id (ensureTags r) = run_created_by_key_id r" "run_ok (ensureTags r) = run_ok r"
  "ensureTags (ensureTags r) = ensureTags r"
  by (simp_all add: ensureTags_def tags_of_def run_ok_def or_empty_def)

lemma rs_read_write [simp]: "rs_readStore (rs_writeStore rs f) = Inr (map ensureTags rs)"
  by (simp add: rs_readStore_def rs_writeStore_def)

lemma run_rows_write [simp]: "run_rows (rs_writeStore rs f) = map ensureTags rs"
  by (simp add: run_rows_def)

lemma rs_read_rows: "rs_readStore f = Inr rs \<Longrightarrow> run_rows f = rs"
  by (simp add: run_rows_def)

lemma rows_ensured: "rs_readStore f = Inr rs \<Longrightarrow> map ensureTags rs = rs"
  by (auto simp: rs_readStore_def comp_def split: cast_file.splits)

lemma runs_ok_write: "\<lbrakk>list_all run_ok rs; length rs \<le> MAX_RUNS\<rbrakk> \<Longrightarrow> runs_ok (rs_writeStore rs f)"
  by (simp add: runs_ok_def list_all_length)

text \<open>What the operations do to the rows: at most one row changes and keeps its id and owner, or one row is added, or rows go.\<close>

lemma edit_run_rows:
  "snd (edit_run i g f) = f
   \<or> (\<exists>rs. rs_readStore f = Inr rs \<and> snd (edit_run i g f) = rs_writeStore (upd_first (\<lambda>r. run_id r = i) g rs) f)"
  by (auto simp: edit_run_def split: sum.splits option.splits)

lemma edit_run_ok:
  assumes "runs_ok f" "\<And>r. run_ok r \<Longrightarrow> run_ok (g r)"
  shows "runs_ok (snd (edit_run i g f))"
  using edit_run_rows[of i g f]
proof (elim disjE exE conjE)
  fix rs assume rs: "rs_readStore f = Inr rs" and w: "snd (edit_run i g f) = rs_writeStore (upd_first (\<lambda>r. run_id r = i) g rs) f"
  from assms(1) rs have "list_all run_ok rs" "length rs \<le> MAX_RUNS" by (auto simp: runs_ok_def rs_read_rows)
  with assms(2) show ?thesis unfolding w by (intro runs_ok_write list_all_upd_first) auto
qed (use assms(1) in simp)

lemma tags_ok_filter: "tags_ok ts \<Longrightarrow> tags_ok (filter P ts)"
  by (auto simp: tags_ok_def list_all_iff intro: order_trans[OF length_filter_le])

lemma run_ok_tags [simp]: "run_ok (r\<lparr>run_tags := Some ts\<rparr>) = tags_ok ts"
  by (simp add: run_ok_def tags_of_def)

lemma bulk_tags_ok: "bulk_tags act incoming r = Some r' \<Longrightarrow> tags_ok incoming \<Longrightarrow> run_ok r'"
  by (auto simp: bulk_tags_def Let_def normalizeTags_ok tags_ok_filter split: if_splits)

lemma bulk_row_ok: "run_ok r \<Longrightarrow> bulk_row t act tags r = Some r' \<Longrightarrow> run_ok r'"
  using bulk_tags_ok[OF _ normalizeTags_ok]
  by (auto simp: bulk_row_def bulk_pin_def set_pin_def run_ok_def tags_of_def split: if_splits)

lemma bulk_change_ok:
  assumes "list_all run_ok rs"
  shows "list_all run_ok (fst (bulk_change ms (bulk_row t act tags) rs))"
  using assms bulk_row_ok by (auto simp: bulk_change_def list_all_iff split: option.splits)

lemma bulk_change_length [simp]: "length (fst (bulk_change ms g rs)) = length rs"
  by (simp add: bulk_change_def)

lemma bulk_ok:
  assumes "runs_ok f"
  shows "runs_ok (snd (bulkRunOp t is act tags f))"
proof (cases "rs_readStore f")
  case (Inl e)
  with assms show ?thesis by (simp add: bulkRunOp_def Let_def)
next
  case (Inr rs)
  from assms Inr have ok: "list_all run_ok rs" "length rs \<le> MAX_RUNS" by (auto simp: runs_ok_def rs_read_rows)
  show ?thesis
  proof (cases "act = B_delete")
    case True
    have "length (filter P rs) \<le> MAX_RUNS" for P using ok(2) length_filter_le order_trans by blast
    with True Inr ok assms show ?thesis
      by (auto simp: bulkRunOp_def Let_def list_all_iff intro!: runs_ok_write)
  next
    case False
    with Inr assms show ?thesis
      using bulk_change_ok[OF ok(1)] ok(2)
      by (simp add: bulkRunOp_def Let_def split_beta runs_ok_write)
  qed
qed

lemma create_ok:
  assumes "runs_ok f"
  shows "runs_ok (snd (createRun t i input f))"
proof (cases "rs_readStore f")
  case (Inl e)
  with assms show ?thesis by (simp add: createRun_def)
next
  case (Inr rs)
  from assms Inr have ok: "list_all run_ok rs" "length rs \<le> MAX_RUNS" by (auto simp: runs_ok_def rs_read_rows)
  with Inr show ?thesis
    by (auto simp: createRun_def Let_def list_all_iff run_ok_def tags_of_def[of "SavedRun.make _ _ _ _ _ _ _ _ _ _ _ _"]
        SavedRun.defs tags_of_def normalizeTags_ok dest!: in_set_takeD intro!: runs_ok_write)
qed

lemma delete_ok: "runs_ok f \<Longrightarrow> runs_ok (snd (deleteRun i f))"
  by (auto simp: deleteRun_def Let_def runs_ok_def rs_read_rows list_all_iff
      intro: order_trans[OF length_filter_le] split: sum.splits)

lemma run_exec_ok: "runs_ok f \<Longrightarrow> runs_ok (run_exec p f)"
proof (cases p)
  case (RPin t i b)
  assume "runs_ok f"
  then show ?thesis unfolding RPin by (auto simp: setRunPinned_def set_pin_def run_ok_def tags_of_def intro!: edit_run_ok)
next
  case (RRename i l)
  assume "runs_ok f"
  then show ?thesis unfolding RRename by (auto simp: renameRun_def run_ok_def tags_of_def intro!: edit_run_ok)
next
  case (RTags i j)
  assume "runs_ok f"
  then show ?thesis unfolding RTags by (auto simp: setRunTags_def run_ok_def tags_of_def normalizeTags_ok intro!: edit_run_ok)
next
  case (RNotes i j)
  assume "runs_ok f"
  then show ?thesis unfolding RNotes by (auto simp: setRunNotes_def run_ok_def tags_of_def intro!: edit_run_ok)
qed (auto simp: create_ok delete_ok bulk_ok)

interpretation run_store: preserved run_exec "\<lambda>_. True" runs_ok
  by unfold_locales (rule run_exec_ok)

section \<open>Pages\<close>

lemma query_rows_page [simp]: "query_rows H lc (opts\<lparr>qo_limit := a, qo_offset := b\<rparr>) rs = query_rows H lc opts rs"
  by (simp add: query_rows_def run_matches_def in_bounds_def Let_def)

lemma mset_query_rows: "mset (query_rows H lc opts rs)
    = mset (filter (\<lambda>r. owner_visible (qo_ownerFilter opts) r \<and> run_matches H opts r) rs)"
  by (simp add: query_rows_def conj_commute)

lemma chunks_concat:
  assumes "0 < n"
  shows "concat (map (\<lambda>k. take n (drop (n * k) xs)) [0..<m]) = take (n * m) xs"
proof (induction m)
  case 0
  then show ?case by simp
next
  case (Suc m)
  then show ?case by (simp add: take_add add.commute[of n])
qed

definition page_opts :: "nat \<Rightarrow> nat \<Rightarrow> QueryOpts \<Rightarrow> QueryOpts" where
  "page_opts n k opts = opts\<lparr>qo_limit := Some (int n), qo_offset := Some (int (n * k))\<rparr>"

lemma query_page:
  assumes "rs_readStore f = Inr rs" "1 \<le> n" "n \<le> 200"
  shows "queryRuns H lc (page_opts n k opts) f = Inr \<lparr>qr_runs = take n (drop (n * k) (query_rows H lc opts rs)),
    qr_total = length (query_rows H lc opts rs), qr_limit = int n, qr_offset = int (n * k)\<rparr>"
proof -
  have "min (max (int n) 1) 200 = int n" "max (int (n * k)) 0 = int (n * k)" using assms(2,3) by auto
  with assms(1) show ?thesis by (simp add: queryRuns_def query_result_def page_opts_def Let_def del: of_nat_mult)
qed

section \<open>Tenants\<close>

definition readable :: "StoredKey \<Rightarrow> SavedRun \<Rightarrow> bool" where
  "readable key r \<longleftrightarrow> acl_allowed (decideRunRead (run_created_by_key_id r) key)"

lemma readable_iff:
  "readable key r \<longleftrightarrow> S_admin \<in> set (k_scopes key) \<or> \<not> truthy (run_created_by_key_id r) \<or> run_created_by_key_id r = Some (k_id key)"
  by (auto simp: readable_def acl_allowed_def decideRunRead_def)

lemma mutation_is_read: "decideRunMutation owner key = decideRunRead owner key"
  by (simp add: decideRunMutation_def decideRunRead_def)

lemma visible_readable: "owner_visible (Some (ownerFilterForKey key)) r \<Longrightarrow> readable key r"
  by (auto simp: owner_visible_def ownerFilterForKey_def readable_iff split: if_splits)

lemma visible_iff_readable:
  "run_created_by_key_id r \<noteq> Some [] \<Longrightarrow> owner_visible (Some (ownerFilterForKey key)) r \<longleftrightarrow> readable key r"
  by (cases "run_created_by_key_id r") (auto simp: owner_visible_def ownerFilterForKey_def readable_iff)

lemma filter_stronger: "(\<And>x. P x \<Longrightarrow> Q x) \<Longrightarrow> filter P (filter Q xs) = filter P xs"
  by (induction xs) auto

text \<open>A query under the key's filter sees the readable rows only.\<close>

lemma query_rows_tenant:
  assumes "filter (readable key) rs = filter (readable key) rs'" "qo_ownerFilter opts = Some (ownerFilterForKey key)"
  shows "query_rows H lc opts rs = query_rows H lc opts rs'"
proof -
  have "filter (owner_visible (qo_ownerFilter opts)) rs = filter (owner_visible (qo_ownerFilter opts)) rs'"
    using filter_stronger[of "owner_visible (qo_ownerFilter opts)" "readable key"] visible_readable assms by metis
  then show ?thesis by (simp add: query_rows_def)
qed

lemma distinct_find:
  assumes "distinct (map run_id rs)" "r \<in> set rs" "run_id r = i"
  shows "find (\<lambda>r. run_id r = i) rs = Some r"
  using assms by (induction rs) (auto simp: image_iff)

lemma find_tenant:
  assumes "distinct (map run_id rs)"
  shows "(case find (\<lambda>r. run_id r = i) rs of Some r \<Rightarrow> if readable key r then Some r else None | None \<Rightarrow> None)
    = find (\<lambda>r. run_id r = i) (filter (readable key) rs)"
  using assms
proof (induction rs)
  case Nil
  then show ?case by simp
next
  case (Cons r rs)
  then have "find (\<lambda>x. run_id x = run_id r) (filter P rs) = None" for P by (auto simp: find_None_iff image_iff)
  with Cons show ?case by (auto split: option.splits)
qed

section \<open>Reading the export back\<close>

text \<open>
  A reader of comma-separated files as RFC 4180 describes them: its mode, the cell, the cells of the row
  and the rows read so far, each in reverse. \<open>CQuote\<close>: a quote has been seen inside a quoted cell.
\<close>

datatype csv_mode = CStart | CPlain | CQuoted | CQuote

type_synonym csv_state = "csv_mode \<times> string \<times> string list \<times> string list list"

fun csv_plain :: "char \<Rightarrow> string \<Rightarrow> string list \<Rightarrow> string list list \<Rightarrow> csv_mode \<Rightarrow> csv_state" where
  "csv_plain c cell row rows m =
     (if c = CHR '','' then (CStart, [], rev cell # row, rows)
      else if c = LF then (CStart, [], [], rev (rev cell # row) # rows)
      else (m, c # cell, row, rows))"

fun csv_step :: "char \<Rightarrow> csv_state \<Rightarrow> csv_state" where
  "csv_step c (CStart, cell, row, rows) = (if c = DQ then (CQuoted, [], row, rows) else csv_plain c cell row rows CPlain)"
| "csv_step c (CPlain, cell, row, rows) = csv_plain c cell row rows CPlain"
| "csv_step c (CQuoted, cell, row, rows) = (if c = DQ then (CQuote, cell, row, rows) else (CQuoted, c # cell, row, rows))"
| "csv_step c (CQuote, cell, row, rows) = (if c = DQ then (CQuoted, DQ # cell, row, rows) else csv_plain c cell row rows CPlain)"

definition csv_read :: "string \<Rightarrow> string list list option" where
  "csv_read s = (case fold csv_step s (CStart, [], [], []) of (CStart, [], [], rows) \<Rightarrow> Some (rev rows) | _ \<Rightarrow> None)"

lemma csv_quoted:
  "fold csv_step (concat (map (\<lambda>c. if c = DQ then [DQ, DQ] else [c]) s)) (CQuoted, cell, row, rows) = (CQuoted, rev s @ cell, row, rows)"
  by (induction s arbitrary: cell) auto

lemma csv_unquoted:
  "\<not> list_ex (\<lambda>c. c = DQ \<or> c = CHR '','' \<or> c = LF \<or> c = CR) s \<Longrightarrow>
   fold csv_step s (CPlain, cell, row, rows) = (CPlain, rev s @ cell, row, rows)"
  by (induction s arbitrary: cell) auto

text \<open>After an escaped cell, the reader is at its end with the cell read.\<close>

lemma csv_cell:
  obtains m where "fold csv_step (csv_esc s) (CStart, [], row, rows) = (m, rev s, row, rows)" "m \<noteq> CQuoted"
proof (cases "list_ex (\<lambda>c. c = DQ \<or> c = CHR '','' \<or> c = LF \<or> c = CR) s")
  case True
  then show thesis by (intro that[of CQuote]) (simp_all add: csv_esc_def csv_quoted)
next
  case False
  then show thesis
    using csv_unquoted[of "tl s" "[hd s]" row rows] that[of CStart] that[of CPlain]
    by (cases s) (auto simp: csv_esc_def)
qed

lemma csv_sep:
  "m \<noteq> CQuoted \<Longrightarrow> csv_step (CHR '','') (m, cell, row, rows) = (CStart, [], rev cell # row, rows)"
  "m \<noteq> CQuoted \<Longrightarrow> csv_step LF (m, cell, row, rows) = (CStart, [], [], rev (rev cell # row) # rows)"
  by (cases m; simp)+

lemma csv_row:
  "cells \<noteq> [] \<Longrightarrow> fold csv_step (csv_line cells @ [LF]) (CStart, [], row, rows) = (CStart, [], [], (rev row @ cells) # rows)"
proof (induction cells arbitrary: row)
  case Nil
  then show ?case by simp
next
  case (Cons x xs)
  obtain m where m: "fold csv_step (csv_esc x) (CStart, [], row, rows) = (m, rev x, row, rows)" "m \<noteq> CQuoted"
    by (rule csv_cell)
  then show ?case
    using Cons.IH[of "x # row"] csv_sep[OF m(2)]
    by (cases "xs = []") (simp_all add: csv_line_def join_Cons)
qed

lemma csv_rows:
  "list_all (\<lambda>cells. cells \<noteq> []) rs \<Longrightarrow>
   fold csv_step (concat (map (\<lambda>cells. csv_line cells @ [LF]) rs)) (CStart, [], [], rows) = (CStart, [], [], rev rs @ rows)"
proof (induction rs arbitrary: rows)
  case Nil
  then show ?case by simp
next
  case (Cons r rs)
  then show ?case using csv_row[of r "[]" rows] by simp
qed

lemma join_lines: "xs \<noteq> [] \<Longrightarrow> join [c] xs @ [c] = concat (map (\<lambda>x. x @ [c]) xs)"
  by (induction xs) (auto simp: join_Cons)

lemma run_cells_nonempty: "list_all (\<lambda>cells. cells \<noteq> []) (csv_cells H runs)"
  by (auto simp: csv_cells_def run_cells_def Let_def list_all_iff)

lemma csv_header_plain: "join '','' CSV_HEADER = csv_line CSV_HEADER"
  by (simp add: csv_line_def CSV_HEADER_def csv_esc_def)

section \<open>Examples\<close>

definition sample_payload :: RunPayload where
  "sample_payload = \<lparr>pl_ticker = ''SPY'', pl_dates = [''2024-01-02''], pl_close = [Some 470], pl_regime = [None], pl_counts = [],
     pl_snapshot = None, pl_disclaimer = []\<rparr>"

definition sample_run :: "string \<Rightarrow> int \<Rightarrow> SavedRun" where
  "sample_run i t = \<lparr>run_id = i, run_label = ''SPY'', run_ticker = ''SPY'', run_lookback_days = 90, run_created_at = toISOString t,
     run_tags = Some [''core''], run_notes = None, run_pinned = None, run_pinned_at = None,
     run_created_by_key_id = Some ''k2'', run_created_by_key_label = None, run_payload = sample_payload\<rparr>"

definition sample_query :: QueryOpts where
  "sample_query = \<lparr>qo_q = None, qo_regime = None, qo_ticker = Some ''SPY'', qo_tag = None, qo_pinned = None, qo_since = None,
     qo_until = None, qo_minConfidence = None, qo_maxConfidence = None, qo_minBars = None, qo_maxBars = None, qo_limit = None,
     qo_offset = None, qo_sort = By_oldest, qo_ownerFilter = Some (Owner_or_unowned ''k2'')\<rparr>"

lemma sample_run_simps [simp]:
  "run_id (sample_run i t) = i" "run_created_at (sample_run i t) = toISOString t" "run_created_by_key_id (sample_run i t) = Some ''k2''"
  by (simp_all add: sample_run_def)

lemma sample_run_ok: "run_ok (sample_run i t)"
proof -
  have "TAG_RE ''core''" by code_simp
  then show ?thesis by (simp add: run_ok_def sample_run_def tags_of_def tags_ok_def MAX_TAGS_PER_RUN_def)
qed

section \<open>Properties\<close>

text \<open>The store stays within its bounds: from any store whose rows have canonical tags (at most eight, distinct,
  each of the form the tag rule allows) and number at most 500, every sequence of operations leads to such a store.\<close>

theorem run_store_bounded:
  "runs_ok f \<Longrightarrow> runs_ok (fold run_exec ps f)"
  by (rule run_store.run) (simp_all add: list_all_iff)

theorem run_store_bounded_witness:
  "runs_ok (fold run_exec [RTags ''r1'' (JArr [JStr ''Core Bets'', JStr ''core  bets'']), RPin 5 ''r1'' True,
      RBulk 6 [''r1''] B_delete JNull] (Stored [sample_run ''r1'' 0, sample_run ''r2'' 1]))"
  by (rule run_store_bounded) (simp add: runs_ok_def run_rows_def rs_readStore_def MAX_RUNS_def sample_run_ok)

text \<open>Paging through a query visits every selected run exactly once: the pages of a given size, in order, make
  up one list, which is a permutation of the rows that the caller may see and that match the filters, and every
  page reports its length as the total.\<close>

theorem query_pages_partition:
  assumes "rs_readStore f = Inr rs" "1 \<le> n" "n \<le> 200"
  shows "\<exists>full. mset full = mset (filter (\<lambda>r. owner_visible (qo_ownerFilter opts) r \<and> run_matches H opts r) rs)
    \<and> concat (map (\<lambda>k. qr_runs (projr (queryRuns H lc (page_opts n k opts) f))) [0..<Suc (length full div n)]) = full
    \<and> (\<forall>k. qr_total (projr (queryRuns H lc (page_opts n k opts) f)) = length full)"
proof (intro exI conjI allI)
  let ?full = "query_rows H lc opts rs"
  show "mset ?full = mset (filter (\<lambda>r. owner_visible (qo_ownerFilter opts) r \<and> run_matches H opts r) rs)"
    by (rule mset_query_rows)
  have "length ?full < n * Suc (length ?full div n)"
    using assms(2) dividend_less_times_div[of n "length ?full"] by simp
  then show "concat (map (\<lambda>k. qr_runs (projr (queryRuns H lc (page_opts n k opts) f))) [0..<Suc (length ?full div n)]) = ?full"
    unfolding query_page[OF assms] using assms(2) chunks_concat[of n ?full "Suc (length ?full div n)"] by simp
  show "qr_total (projr (queryRuns H lc (page_opts n k opts) f)) = length ?full" for k
    by (simp add: query_page[OF assms])
qed

theorem query_pages_partition_witness:
  "\<exists>full. mset full = mset (filter (\<lambda>r. owner_visible (qo_ownerFilter sample_query) r \<and> run_matches sample_host sample_query r)
        (map ensureTags [sample_run ''r1'' 0, sample_run ''r2'' 1]))
    \<and> concat (map (\<lambda>k. qr_runs (projr (queryRuns sample_host (cmp_key id) (page_opts 1 k sample_query)
        (Stored [sample_run ''r1'' 0, sample_run ''r2'' 1])))) [0..<Suc (length full div 1)]) = full
    \<and> (\<forall>k. qr_total (projr (queryRuns sample_host (cmp_key id) (page_opts 1 k sample_query)
        (Stored [sample_run ''r1'' 0, sample_run ''r2'' 1]))) = length full)"
  by (rule query_pages_partition) (simp_all add: rs_readStore_def)

text \<open>The export can be read back: a reader of comma-separated files gets from it the header and the cells of
  every run, whatever characters (quotes, commas, line breaks) labels, tags and tickers contain.\<close>

theorem csv_export_roundtrip: "csv_read (runsToCSV H runs) = Some (CSV_HEADER # csv_cells H runs)"
proof -
  have "runsToCSV H runs = concat (map (\<lambda>cells. csv_line cells @ [LF]) (CSV_HEADER # csv_cells H runs))"
    unfolding runsToCSV_def csv_header_plain by (subst join_lines) (simp_all add: comp_def)
  moreover have "list_all (\<lambda>cells. cells \<noteq> []) (CSV_HEADER # csv_cells H runs)"
    using run_cells_nonempty by (simp add: CSV_HEADER_def)
  ultimately show ?thesis by (simp only: csv_read_def csv_rows) simp
qed

end
