(* ===== verification/Egress.thy ===== *)
theory Egress
  imports IpMatch JsonStore
begin

text \<open>
  The destination policy of outgoing webhooks (\<^verbatim>\<open>src/web/lib/egressPolicy.ts\<close>): the persisted policy and
  the evaluation of a URL against it. The URL parser of the runtime (\<^verbatim>\<open>new URL\<close>) and the name lookup are
  arguments.

  The lemmas: while private destinations are not allowed, a URL that passes has only resolved addresses
  outside the blocks of the deny list, which are spelled out as ranges of addresses; with an allow-list, all of them are on it.
\<close>

section \<open>The policy\<close>

record EgressPolicy =
  eg_allow_private :: bool
  eg_cidrs :: "string list"
  eg_updated_at :: "string option"
  eg_updated_by :: "string option"

definition DEFAULT_EGRESS :: EgressPolicy where
  "DEFAULT_EGRESS = \<lparr>eg_allow_private = False, eg_cidrs = [], eg_updated_at = None, eg_updated_by = None\<rparr>"

text \<open>Reading \<^verbatim>\<open>j.allow_private\<close> of a file that holds \<^verbatim>\<open>null\<close> throws, like every other failure it gives the default.\<close>

definition dec_egress :: "json \<Rightarrow> EgressPolicy" where
  "dec_egress j =
     (if j = JNull then DEFAULT_EGRESS
      else \<lparr>eg_allow_private = jtruthy (jfield j ''allow_private''),
            eg_cidrs = (case as_array (jfield j ''cidrs'') of None \<Rightarrow> [] | Some xs \<Rightarrow> the_strings xs),
            eg_updated_at = str_or_null (jfield j ''updated_at''), eg_updated_by = str_or_null (jfield j ''updated_by'')\<rparr>)"

definition enc_egress :: "EgressPolicy \<Rightarrow> json" where
  "enc_egress p = JObj
     [(''allow_private'', JBool (eg_allow_private p)), (''cidrs'', JArr (map JStr (eg_cidrs p))),
      (''updated_at'', jnullable (eg_updated_at p)), (''updated_by'', jnullable (eg_updated_by p))]"

definition eg_getPolicy :: "json_file \<Rightarrow> EgressPolicy" where
  "eg_getPolicy f = (case f of Holds j \<Rightarrow> dec_egress j | _ \<Rightarrow> DEFAULT_EGRESS)"

datatype EgressSetError = Eg_bad_cidr CidrError | Eg_too_many_cidrs

definition json_entries :: "json \<Rightarrow> string option list option" where
  "json_entries j = (case j of JArr xs \<Rightarrow> Some (map (\<lambda>x. str_or_null (Some x)) xs) | _ \<Rightarrow> None)"

definition eg_setPolicy ::
  "int \<Rightarrow> json option \<Rightarrow> json option \<Rightarrow> string option \<Rightarrow> json_file \<Rightarrow> (EgressSetError + EgressPolicy \<times> EgressPolicy) \<times> json_file" where
  "eg_setPolicy now allow cidrs actor f =
     (let before = eg_getPolicy f;
          allow_private = (case allow of Some (JBool b) \<Rightarrow> b | _ \<Rightarrow> eg_allow_private before);
          entries = (case cidrs of None \<Rightarrow> Some (map Some (eg_cidrs before)) | Some JNull \<Rightarrow> Some (map Some (eg_cidrs before))
                     | Some j \<Rightarrow> json_entries j)
      in case canonicalizeCidrList entries of
           Inl e \<Rightarrow> (Inl (Eg_bad_cidr e), f)
         | Inr cs \<Rightarrow>
             if MAX_CIDR_ENTRIES < length cs then (Inl Eg_too_many_cidrs, f)
             else let next = \<lparr>eg_allow_private = allow_private, eg_cidrs = cs, eg_updated_at = Some (toISOString now), eg_updated_by = actor\<rparr>
                  in (Inr (next, before), Holds (enc_egress next)))"

section \<open>Evaluating a destination\<close>

definition V4_DENY_CIDRS :: "string list" where
  "V4_DENY_CIDRS = [''0.0.0.0/8'', ''10.0.0.0/8'', ''100.64.0.0/10'', ''127.0.0.0/8'', ''169.254.0.0/16'', ''172.16.0.0/12'',
     ''192.0.0.0/24'', ''192.0.2.0/24'', ''192.168.0.0/16'', ''198.18.0.0/15'', ''198.51.100.0/24'', ''203.0.113.0/24'',
     ''224.0.0.0/4'', ''240.0.0.0/4'']"

definition V6_DENY_CIDRS :: "string list" where
  "V6_DENY_CIDRS = [''::/128'', ''::1/128'', ''fc00::/7'', ''fe80::/10'', ''ff00::/8'', ''::ffff:0:0/96'', ''64:ff9b::/96'']"

definition PRIVATE_DENY :: "ParsedCidr list" where
  "PRIVATE_DENY = map (\<lambda>c. the (parseCidr c)) V4_DENY_CIDRS @ map (\<lambda>c. the (parseCidr c)) V6_DENY_CIDRS"

record URL =
  url_protocol :: string
  url_hostname :: string
  url_username :: string
  url_password :: string

datatype EgressCode = Bad_url | Bad_scheme | No_host | Userinfo | No_addresses | Dns_failed | Private_destination | Not_in_allowlist

fun egress_code_str :: "EgressCode \<Rightarrow> string" where
  "egress_code_str Bad_url = ''bad_url''"
| "egress_code_str Bad_scheme = ''bad_scheme''"
| "egress_code_str No_host = ''no_host''"
| "egress_code_str Userinfo = ''userinfo''"
| "egress_code_str No_addresses = ''no_addresses''"
| "egress_code_str Dns_failed = ''dns_failed''"
| "egress_code_str Private_destination = ''private_destination''"
| "egress_code_str Not_in_allowlist = ''not_in_allowlist''"

datatype EvalResult = Eval_ok "string list" | Eval_bad EgressCode string

definition parseAllowlist :: "EgressPolicy \<Rightarrow> ParsedCidr list" where
  "parseAllowlist p = List.map_filter parseCidr (eg_cidrs p)"

definition parseIpLiteral :: "string \<Rightarrow> string option" where
  "parseIpLiteral host =
     (let h = strip_brackets host in if parseCidr h = None then None else Some h)"

text \<open>\<open>resolve\<close> answers a host name with its addresses or the text of the lookup's error.\<close>

type_synonym resolver = "string \<Rightarrow> string + string list"

definition host_addresses :: "resolver \<Rightarrow> string \<Rightarrow> EvalResult" where
  "host_addresses resolve host =
     (case parseIpLiteral host of
        Some lit \<Rightarrow> Eval_ok [lit]
      | None \<Rightarrow>
          (case resolve host of
             Inl e \<Rightarrow> Eval_bad Dns_failed (''DNS lookup for '' @ host @ '' failed: '' @ e)
           | Inr [] \<Rightarrow> Eval_bad No_addresses (''host '' @ host @ '' did not resolve'')
           | Inr as \<Rightarrow> Eval_ok as))"

definition check_addresses :: "EgressPolicy \<Rightarrow> string list \<Rightarrow> EvalResult" where
  "check_addresses policy addresses =
     (case find (\<lambda>a. \<not> eg_allow_private policy \<and> ipMatchesAny a PRIVATE_DENY) addresses of
        Some a \<Rightarrow> Eval_bad Private_destination (''resolved address '' @ a @ '' is in a blocked range (private/loopback/link-local/multicast)'')
      | None \<Rightarrow>
          (let allow = parseAllowlist policy in
           case (if allow \<noteq> [] then find (\<lambda>a. \<not> ipMatchesAny a allow) addresses else None) of
             Some a \<Rightarrow> Eval_bad Not_in_allowlist (''resolved address '' @ a @ '' is not in the outbound allowlist'')
           | None \<Rightarrow> Eval_ok addresses))"

definition evaluateUrl :: "(string \<Rightarrow> URL option) \<Rightarrow> resolver \<Rightarrow> string \<Rightarrow> EgressPolicy \<Rightarrow> EvalResult" where
  "evaluateUrl parse_url resolve url policy =
     (case parse_url url of
        None \<Rightarrow> Eval_bad Bad_url ''URL is not valid''
      | Some u \<Rightarrow>
          if url_protocol u \<noteq> ''http:'' \<and> url_protocol u \<noteq> ''https:'' then Eval_bad Bad_scheme ''URL must be http(s)''
          else if url_hostname u = [] then Eval_bad No_host ''URL has no host''
          else if url_username u \<noteq> [] \<or> url_password u \<noteq> [] then Eval_bad Userinfo ''URL must not contain userinfo''
          else (case host_addresses resolve (url_hostname u) of
                  Eval_bad c r \<Rightarrow> Eval_bad c r
                | Eval_ok as \<Rightarrow> check_addresses policy as))"

section \<open>The denied ranges\<close>

text \<open>The blocks of \<^const>\<open>PRIVATE_DENY\<close> as ranges: first address and size.\<close>

definition v4_denied :: "int \<Rightarrow> bool" where
  "v4_denied v \<longleftrightarrow> list_ex (\<lambda>(a, n). a \<le> v \<and> v < a + n)
     [(0, 16777216), (167772160, 16777216), (1681915904, 4194304), (2130706432, 16777216), (2851995648, 65536), (2886729728, 1048576),
      (3221225472, 256), (3221225984, 256), (3232235520, 65536), (3323068416, 131072), (3325256704, 256), (3405803776, 256),
      (3758096384, 268435456), (4026531840, 268435456)]"

definition v6_denied :: "int \<Rightarrow> bool" where
  "v6_denied v \<longleftrightarrow> list_ex (\<lambda>(a, n). a \<le> v \<and> v < a + n)
     [(0, 1), (1, 1), (0xfc00 * 2 ^ 112, 2 ^ 121), (0xfe80 * 2 ^ 112, 2 ^ 118), (0xff00 * 2 ^ 112, 2 ^ 120),
      (0xffff * 2 ^ 32, 2 ^ 32), (0x64 * 2 ^ 112 + 0xff9b * 2 ^ 96, 2 ^ 32)]"

lemma private_deny_eq:
  "PRIVATE_DENY = [V4 8 0, V4 8 167772160, V4 10 1681915904, V4 8 2130706432, V4 16 2851995648, V4 12 2886729728,
     V4 24 3221225472, V4 24 3221225984, V4 16 3232235520, V4 15 3323068416, V4 24 3325256704, V4 24 3405803776,
     V4 4 3758096384, V4 4 4026531840,
     V6 128 0, V6 128 1, V6 7 (0xfc00 * 2 ^ 112), V6 10 (0xfe80 * 2 ^ 112), V6 8 (0xff00 * 2 ^ 112),
     V6 96 (0xffff * 2 ^ 32), V6 96 (0x64 * 2 ^ 112 + 0xff9b * 2 ^ 96)]"
  by code_simp

lemma mask_range:
  assumes "0 < bits" "bits < mx" "val mod 2 ^ nat (mx - bits) = 0"
  shows "maskBig v bits mx = val \<longleftrightarrow> val \<le> v \<and> v < val + 2 ^ nat (mx - bits)"
proof -
  let ?n = "2 ^ nat (mx - bits) :: int"
  have n: "0 < ?n" by simp
  obtain q where q: "val = q * ?n" using assms(3) by (metis dvd_def dvd_eq_mod_eq_0 mult.commute)
  have "v div ?n = q \<longleftrightarrow> q * ?n \<le> v \<and> v < q * ?n + ?n"
    using div_bounds[OF n, of v] int_div_pos_eq[of v ?n q "v - q * ?n"] by (auto simp: mult.commute)
  then show ?thesis using n by (simp add: maskBig_mult[OF assms(1,2)] q)
qed

lemma denied_v4:
  assumes "normalizeIp a = Some s" "CHR '':'' \<notin> set s" "parseV4 s = Some v"
  shows "ipMatchesAny a PRIVATE_DENY \<longleftrightarrow> v4_denied v"
  using assms by (simp add: ipMatchesAny_def private_deny_eq v4_denied_def V4_MAX_def mask_range)

lemma denied_v6:
  assumes "normalizeIp a = Some s" "CHR '':'' \<in> set s" "parseV6 s = Some v"
  shows "ipMatchesAny a PRIVATE_DENY \<longleftrightarrow> v6_denied v"
proof -
  have "maskBig v 128 128 = v" by (simp add: maskBig_def)
  with assms show ?thesis by (auto simp: ipMatchesAny_def private_deny_eq v6_denied_def V6_MAX_def mask_range)
qed

text \<open>\<open>outside_denied a\<close>: where \<open>a\<close> reads as an IPv4 or IPv6 address, it is in none of the denied ranges. A text that reads as neither is
  not denied by the code, and so counts as outside; so does the discard block (see the end of this theory).\<close>

definition outside_denied :: "string \<Rightarrow> bool" where
  "outside_denied a \<longleftrightarrow>
     (case normalizeIp a of
        None \<Rightarrow> True
      | Some s \<Rightarrow> if CHR '':'' \<in> set s then (case parseV6 s of None \<Rightarrow> True | Some v \<Rightarrow> \<not> v6_denied v)
                  else (case parseV4 s of None \<Rightarrow> True | Some v \<Rightarrow> \<not> v4_denied v))"

lemma outside_iff: "outside_denied a \<longleftrightarrow> \<not> ipMatchesAny a PRIVATE_DENY"
proof (cases "normalizeIp a")
  case None
  then show ?thesis by (simp add: outside_denied_def ipMatchesAny_def)
next
  case (Some s)
  then show ?thesis
    using denied_v4[OF Some] denied_v6[OF Some]
    by (cases "CHR '':'' \<in> set s"; cases "parseV4 s"; cases "parseV6 s") (auto simp: outside_denied_def ipMatchesAny_def)
qed

text \<open>What a passed evaluation means.\<close>

lemma evaluateUrl_ok:
  assumes "evaluateUrl parse_url resolve url policy = Eval_ok as"
  obtains u where "parse_url url = Some u" "url_protocol u = ''http:'' \<or> url_protocol u = ''https:''"
    "url_username u = []" "url_password u = []" "as \<noteq> []"
    "parseIpLiteral (url_hostname u) = Some (hd as) \<and> as = [hd as] \<or> resolve (url_hostname u) = Inr as"
    "list_all (\<lambda>a. eg_allow_private policy \<or> outside_denied a) as"
    "list_all (\<lambda>a. parseAllowlist policy = [] \<or> ipMatchesAny a (parseAllowlist policy)) as"
proof -
  from assms obtain u as' where u: "parse_url url = Some u" "url_protocol u = ''http:'' \<or> url_protocol u = ''https:''"
      "url_username u = []" "url_password u = []" "host_addresses resolve (url_hostname u) = Eval_ok as'" "check_addresses policy as' = Eval_ok as"
    by (auto simp: evaluateUrl_def split: option.splits if_splits EvalResult.splits)
  from u(5) have a: "as' \<noteq> []" "parseIpLiteral (url_hostname u) = Some (hd as') \<and> as' = [hd as'] \<or> resolve (url_hostname u) = Inr as'"
    by (auto simp: host_addresses_def split: option.splits sum.splits list.splits)
  from u(6) have c: "as' = as" "find (\<lambda>a. \<not> eg_allow_private policy \<and> ipMatchesAny a PRIVATE_DENY) as = None"
      "parseAllowlist policy \<noteq> [] \<Longrightarrow> find (\<lambda>a. \<not> ipMatchesAny a (parseAllowlist policy)) as = None"
    by (auto simp: check_addresses_def Let_def split: option.splits if_splits)
  show thesis
    using u a c by (intro that[of u]) (auto simp: find_None_iff list_all_iff outside_iff)
qed

section \<open>Reading back\<close>

interpretation egress: json_codec dec_egress enc_egress DEFAULT_EGRESS "\<lambda>_. True"
  by unfold_locales (simp_all add: dec_egress_def enc_egress_def)

lemma eg_set_get:
  assumes "eg_setPolicy now allow cidrs actor f = (Inr (p, b), f')"
  shows "eg_getPolicy f' = p" "b = eg_getPolicy f"
  using assms egress.dec_enc[of p]
  by (auto simp: eg_setPolicy_def eg_getPolicy_def Let_def split: sum.splits if_splits)

text \<open>The comment above the IPv6 blocks lists the discard-only block \<^verbatim>\<open>100::/64\<close>; the list does not have it.\<close>

lemma discard_block_not_denied: "\<not> ipMatchesAny ''100::1'' PRIVATE_DENY"
  unfolding outside_iff[symmetric] by code_simp

end
