(* ===== verification/Webhooks.thy ===== *)
theory Webhooks
  imports Egress AuditLog JsSort
begin

text \<open>
  Webhook subscriptions and their deliveries (\<^verbatim>\<open>src/web/lib/webhookStore.ts\<close>): creation under the
  destination policy of \<^verbatim>\<open>Egress\<close>, rotation of the signing secret with a grace window, delivery with
  retries, the delivery log, and replays. The network is an argument: \<open>de_fetch\<close> answers the
  \<open>n\<close>-th attempt of a delivery with a status or the message of its exception. A delivery returns, beside
  its log entry, the requests it made.
\<close>

section \<open>Data\<close>

definition EVENT_KINDS :: "string list" where
  "EVENT_KINDS = [''entered'', ''exited'', ''upgraded'', ''downgraded'', ''score_jump'']"

record Webhook =
  wh_id :: string
  wh_url :: string
  wh_events :: "string list"
  wh_tickers :: "string list"
  wh_secret :: string
  wh_enabled :: bool
  wh_created_at :: string
  wh_last_status :: "int option"
  wh_last_error :: "string option"
  wh_last_delivered_at :: "string option"
  wh_previous_secret :: "string option"
  wh_previous_secret_expires_at :: "string option"
  wh_secret_rotated_at :: "string option"

record WebhookIn =
  wi_url :: string
  wi_events :: "string list option"
  wi_tickers :: "string list option"
  wi_secret :: "string option"
  wi_enabled :: "bool option"

text \<open>The optional fields of an event: \<open>None\<close> is a missing field, which \<^verbatim>\<open>JSON.stringify\<close> leaves out.\<close>

record PickEvent =
  pe_kind :: string
  pe_ticker :: string
  pe_as_of :: string
  pe_new_label :: "json option"
  pe_prior_label :: "json option"
  pe_score_delta :: "json option"

record DeliveryAttempt =
  da_id :: string
  da_subscription_id :: string
  da_url :: string
  da_status :: "int option"
  da_error :: "string option"
  da_attempt :: nat
  da_delivered_at :: string
  da_signature :: "string option"
  da_event_count :: nat
  da_events :: "PickEvent list option"
  da_replay_of :: "string option"

record hook_world =
  hw_subs :: "Webhook list cast_file"
  hw_log :: "DeliveryAttempt list cast_file"
  hw_policy :: json_file

definition read_cast :: "'a list cast_file \<Rightarrow> 'a list res" where
  "read_cast f = (case f of NoFile \<Rightarrow> Inr [] | BadFile \<Rightarrow> Inl IoFault | Stored xs \<Rightarrow> Inr xs)"

lemma read_cast_simps [simp]:
  "read_cast NoFile = Inr []" "read_cast BadFile = Inl IoFault" "read_cast (Stored xs) = Inr xs"
  by (simp_all add: read_cast_def)

abbreviation readSubs :: "hook_world \<Rightarrow> Webhook list res" where
  "readSubs w \<equiv> read_cast (hw_subs w)"

abbreviation readLog :: "hook_world \<Rightarrow> DeliveryAttempt list res" where
  "readLog w \<equiv> read_cast (hw_log w)"

definition writeSubs :: "Webhook list \<Rightarrow> hook_world \<Rightarrow> hook_world" where
  "writeSubs subs w = w\<lparr>hw_subs := Stored subs\<rparr>"

definition appendLog :: "DeliveryAttempt list \<Rightarrow> hook_world \<Rightarrow> unit res \<times> hook_world" where
  "appendLog attempts w =
     (if attempts = [] then (Inr (), w)
      else case readLog w of
        Inl e \<Rightarrow> (Inl e, w)
      | Inr old \<Rightarrow> (Inr (), w\<lparr>hw_log := Stored (take 500 (attempts @ old))\<rparr>))"

section \<open>Subscriptions\<close>

text \<open>A failed lookup is not held against a new subscription.\<close>

definition validateUrl :: "(string \<Rightarrow> URL option) \<Rightarrow> resolver \<Rightarrow> string \<Rightarrow> hook_world \<Rightarrow> (EgressCode \<times> string) option" where
  "validateUrl parse_url resolve u w =
     (case parse_url u of
        None \<Rightarrow> Some (Bad_url, ''URL is not valid'')
      | Some p \<Rightarrow>
          if url_protocol p \<noteq> ''http:'' \<and> url_protocol p \<noteq> ''https:'' then Some (Bad_scheme, ''URL must be http(s)'')
          else case evaluateUrl parse_url resolve u (eg_getPolicy (hw_policy w)) of
            Eval_ok _ \<Rightarrow> None
          | Eval_bad c r \<Rightarrow> if c = Dns_failed \<or> c = No_addresses then None else Some (c, r))"

definition sanitizeEvents :: "string list option \<Rightarrow> string list" where
  "sanitizeEvents events =
     (let xs = filter (\<lambda>e. e \<in> set EVENT_KINDS) (case events of None \<Rightarrow> [] | Some es \<Rightarrow> es)
      in if xs \<noteq> [] then dedup xs else EVENT_KINDS)"

text \<open>\<^verbatim>\<open>/^[A-Z][A-Z0-9.\-]{0,9}$/\<close>\<close>

definition ticker_ok :: "string \<Rightarrow> bool" where
  "ticker_ok t \<longleftrightarrow> t \<noteq> [] \<and> length t \<le> 10 \<and> is_upper (hd t)
     \<and> list_all (\<lambda>c. is_upper c \<or> is_digit c \<or> c = CHR ''.'' \<or> c = CHR ''-'') t"

definition sanitizeTickers :: "string list option \<Rightarrow> string list" where
  "sanitizeTickers ts = filter ticker_ok (map (\<lambda>t. toUpperCase (trim t)) (case ts of None \<Rightarrow> [] | Some xs \<Rightarrow> xs))"

definition listWebhooks :: "string cmp \<Rightarrow> hook_world \<Rightarrow> Webhook list res" where
  "listWebhooks lc w = map_sum id (sort_cmp (\<lambda>a b. lc (wh_created_at b) (wh_created_at a))) (readSubs w)"

definition getWebhook :: "string \<Rightarrow> hook_world \<Rightarrow> Webhook option res" where
  "getWebhook i w = map_sum id (find (\<lambda>s. wh_id s = i)) (readSubs w)"

definition createWebhook ::
  "(string \<Rightarrow> URL option) \<Rightarrow> resolver \<Rightarrow> int \<Rightarrow> string \<Rightarrow> WebhookIn \<Rightarrow> hook_world \<Rightarrow> ((EgressCode \<times> string) + Webhook) res \<times> hook_world" where
  "createWebhook parse_url resolve now wid input w =
     (case validateUrl parse_url resolve (wi_url input) w of
        Some e \<Rightarrow> (Inr (Inl e), w)
      | None \<Rightarrow>
          (let wh = \<lparr>wh_id = wid, wh_url = trim (wi_url input), wh_events = sanitizeEvents (wi_events input),
                     wh_tickers = sanitizeTickers (wi_tickers input), wh_secret = trim (or_empty (wi_secret input)),
                     wh_enabled = (wi_enabled input \<noteq> Some False), wh_created_at = toISOString now, wh_last_status = None,
                     wh_last_error = None, wh_last_delivered_at = None, wh_previous_secret = None,
                     wh_previous_secret_expires_at = None, wh_secret_rotated_at = None\<rparr>
           in case readSubs w of
                Inl e \<Rightarrow> (Inl e, w)
              | Inr subs \<Rightarrow> (Inr (Inr wh), writeSubs (subs @ [wh]) w)))"

datatype RotateError = R_not_found | R_invalid_grace

definition rotated_hook :: "int \<Rightarrow> string \<Rightarrow> int \<Rightarrow> Webhook \<Rightarrow> Webhook" where
  "rotated_hook now newSecret grace s =
     (let previous = or_null (wh_secret s);
          expires = (if truthy previous \<and> 0 < grace then Some (toISOString (now + grace * 1000)) else None)
      in s\<lparr>wh_secret := newSecret, wh_previous_secret := (if expires \<noteq> None then previous else None),
           wh_previous_secret_expires_at := expires, wh_secret_rotated_at := Some (toISOString now)\<rparr>)"

definition rotate_grace :: "jsnum option \<Rightarrow> int" where
  "rotate_grace g = (case g of Some (Fin q) \<Rightarrow> \<lfloor>q\<rfloor> | _ \<Rightarrow> 3600)"

text \<open>The secret given, or else \<open>fresh\<close>, the draw of \<^verbatim>\<open>crypto.randomBytes(32)\<close>.\<close>

definition rotateWebhookSecret ::
  "int \<Rightarrow> string \<Rightarrow> string \<Rightarrow> string option \<Rightarrow> jsnum option \<Rightarrow> hook_world \<Rightarrow> (RotateError + Webhook \<times> string \<times> int) res \<times> hook_world" where
  "rotateWebhookSecret now fresh i secret graceSeconds w =
     (let grace = rotate_grace graceSeconds;
          provided = trim (or_empty secret);
          newSecret = (if provided \<noteq> [] then provided else fresh)
      in if grace < 0 \<or> 7 * 24 * 3600 < grace then (Inr (Inl R_invalid_grace), w)
         else case readSubs w of
           Inl e \<Rightarrow> (Inl e, w)
         | Inr subs \<Rightarrow>
             (case find (\<lambda>s. wh_id s = i) subs of
                None \<Rightarrow> (Inr (Inl R_not_found), w)
              | Some s \<Rightarrow> (Inr (Inr (rotated_hook now newSecret grace s, newSecret, grace)),
                           writeSubs (upd_first (\<lambda>s. wh_id s = i) (rotated_hook now newSecret grace) subs) w)))"

definition deleteWebhook :: "string \<Rightarrow> hook_world \<Rightarrow> bool res \<times> hook_world" where
  "deleteWebhook i w =
     (case readSubs w of
        Inl e \<Rightarrow> (Inl e, w)
      | Inr subs \<Rightarrow>
          (let next = filter (\<lambda>s. wh_id s \<noteq> i) subs in
           if length next = length subs then (Inr False, w) else (Inr True, writeSubs next w)))"

definition set_status :: "DeliveryAttempt \<Rightarrow> Webhook \<Rightarrow> Webhook" where
  "set_status a s = s\<lparr>wh_last_status := da_status a, wh_last_error := da_error a, wh_last_delivered_at := Some (da_delivered_at a)\<rparr>"

text \<open>\<^verbatim>\<open>updateWebhookStatus\<close>, with the patch its two callers make of a delivery.\<close>

definition updateWebhookStatus :: "string \<Rightarrow> DeliveryAttempt \<Rightarrow> hook_world \<Rightarrow> unit res \<times> hook_world" where
  "updateWebhookStatus i a w =
     (case readSubs w of
        Inl e \<Rightarrow> (Inl e, w)
      | Inr subs \<Rightarrow>
          (case find (\<lambda>s. wh_id s = i) subs of
             None \<Rightarrow> (Inr (), w)
           | Some _ \<Rightarrow> (Inr (), writeSubs (upd_first (\<lambda>s. wh_id s = i) (set_status a) subs) w)))"

section \<open>Signatures\<close>

definition macHex :: "host \<Rightarrow> string \<Rightarrow> string \<Rightarrow> string \<Rightarrow> string" where
  "macHex H secret body ts = host_hmac H secret (ts @ ''.'' @ body)"

definition prev_active :: "host \<Rightarrow> int \<Rightarrow> Webhook \<Rightarrow> bool" where
  "prev_active H now s \<longleftrightarrow> truthy (wh_previous_secret s) \<and> truthy (wh_previous_secret_expires_at s)
     \<and> (case date_parse H (or_empty (wh_previous_secret_expires_at s)) of None \<Rightarrow> False | Some t \<Rightarrow> now < t)"

definition signBodyForSub :: "host \<Rightarrow> int \<Rightarrow> Webhook \<Rightarrow> string \<Rightarrow> string \<Rightarrow> string option" where
  "signBodyForSub H now s body ts =
     (if wh_secret s = [] then None
      else Some (''t='' @ ts @ '','' @ join '',''
        ([''v1='' @ macHex H (wh_secret s) body ts]
         @ (if prev_active H now s then [''v1='' @ macHex H (or_empty (wh_previous_secret s)) body ts] else []))))"

section \<open>Delivery\<close>

definition hook_matches :: "Webhook \<Rightarrow> PickEvent \<Rightarrow> bool" where
  "hook_matches s ev \<longleftrightarrow> wh_enabled s \<and> (wh_events s \<noteq> [] \<longrightarrow> pe_kind ev \<in> set (wh_events s))
     \<and> (wh_tickers s \<noteq> [] \<longrightarrow> toUpperCase (pe_ticker ev) \<in> set (wh_tickers s))"

text \<open>Clock readings of a delivery: 0 the body, 1 the timestamp, 2 the signature, 3 the log entry.\<close>

record deliver_env =
  de_host :: host
  de_clock :: clock
  de_body_id :: string
  de_attempt_id :: string
  de_parse_url :: "string \<Rightarrow> URL option"
  de_resolve :: resolver
  de_fetch :: "nat \<Rightarrow> string + int"
  de_maxAttempts :: "nat option"
  de_backoffMs :: "int option"

record HttpRequest =
  hr_url :: string
  hr_headers :: "(string \<times> string) list"
  hr_body :: string

definition opt_field :: "string \<Rightarrow> json option \<Rightarrow> (string \<times> json) list" where
  "opt_field n v = (case v of None \<Rightarrow> [] | Some j \<Rightarrow> [(n, j)])"

definition event_json :: "PickEvent \<Rightarrow> json" where
  "event_json e = JObj ([(''kind'', JStr (pe_kind e)), (''ticker'', JStr (pe_ticker e)), (''as_of'', JStr (pe_as_of e))]
     @ opt_field ''new_label'' (pe_new_label e) @ opt_field ''prior_label'' (pe_prior_label e) @ opt_field ''score_delta'' (pe_score_delta e))"

definition delivery_body :: "deliver_env \<Rightarrow> Webhook \<Rightarrow> PickEvent list \<Rightarrow> string" where
  "delivery_body E s events = stringify (de_host E) (JObj
     [(''id'', JStr (de_body_id E)), (''delivered_at'', JStr (toISOString (de_clock E 0))),
      (''subscription_id'', JStr (wh_id s)), (''events'', JArr (map event_json events))])"

definition delivery_request :: "deliver_env \<Rightarrow> Webhook \<Rightarrow> PickEvent list \<Rightarrow> HttpRequest \<times> string option" where
  "delivery_request E s events =
     (let body = delivery_body E s events;
          ts = int_str (de_clock E 1 div 1000);
          signature = signBodyForSub (de_host E) (de_clock E 2) s body ts
      in (\<lparr>hr_url = wh_url s,
           hr_headers = [(''content-type'', ''application/json''), (''user-agent'', ''SignalClaw-Webhook/1.0''),
                         (''x-signalclaw-event-count'', int_str (int (length events)))]
             @ (case signature of None \<Rightarrow> [] | Some sg \<Rightarrow> [(''x-signalclaw-signature'', sg), (''x-signalclaw-timestamp'', ts)]),
           hr_body = body\<rparr>, signature))"

text \<open>
  The retry loop: what it reports (the status, the error, the attempt number), how many requests it made and
  the pauses between them. \<open>left\<close> attempts remain of \<open>mx\<close>; \<open>st\<close> and \<open>err\<close> are those of the last attempt.
\<close>

record loop_result =
  lo_status :: "int option"
  lo_error :: "string option"
  lo_attempt :: nat
  lo_calls :: nat
  lo_sleeps :: "int list"

definition loop_after :: "int list \<Rightarrow> loop_result \<Rightarrow> loop_result" where
  "loop_after pause r = r\<lparr>lo_calls := Suc (lo_calls r), lo_sleeps := pause @ lo_sleeps r\<rparr>"

fun deliver_loop :: "(nat \<Rightarrow> string + int) \<Rightarrow> int \<Rightarrow> nat \<Rightarrow> nat \<Rightarrow> int option \<Rightarrow> string option \<Rightarrow> loop_result" where
  "deliver_loop fetch backoff mx 0 st err = \<lparr>lo_status = st, lo_error = err, lo_attempt = mx, lo_calls = 0, lo_sleeps = []\<rparr>"
| "deliver_loop fetch backoff mx (Suc left) st err =
     (let attempt = mx - left;
          pause = (if attempt < mx then [backoff * 2 ^ (attempt - 1)] else []);
          stop = (\<lambda>s n. \<lparr>lo_status = Some s, lo_error = None, lo_attempt = n, lo_calls = 1, lo_sleeps = []\<rparr>)
      in case fetch attempt of
           Inl e \<Rightarrow> loop_after pause (deliver_loop fetch backoff mx left None (Some e))
         | Inr s \<Rightarrow>
             if 200 \<le> s \<and> s < 300 then stop s attempt
             else if s < 500 \<and> s \<noteq> 429 then stop s mx
             else loop_after pause (deliver_loop fetch backoff mx left (Some s) None))"

definition max_attempts :: "deliver_env \<Rightarrow> nat" where
  "max_attempts E = (case de_maxAttempts E of None \<Rightarrow> 3 | Some n \<Rightarrow> n)"

definition delivery_entry :: "deliver_env \<Rightarrow> Webhook \<Rightarrow> PickEvent list \<Rightarrow> string option \<Rightarrow> int option \<Rightarrow> string option \<Rightarrow> nat \<Rightarrow> DeliveryAttempt" where
  "delivery_entry E s events signature st err n =
     \<lparr>da_id = de_attempt_id E, da_subscription_id = wh_id s, da_url = wh_url s, da_status = st, da_error = err, da_attempt = n,
      da_delivered_at = toISOString (de_clock E 3), da_signature = signature, da_event_count = length events,
      da_events = Some events, da_replay_of = None\<rparr>"

definition deliverOne :: "deliver_env \<Rightarrow> Webhook \<Rightarrow> PickEvent list \<Rightarrow> hook_world \<Rightarrow> DeliveryAttempt \<times> HttpRequest list" where
  "deliverOne E s events w =
     (case delivery_request E s events of (req, signature) \<Rightarrow>
        (case evaluateUrl (de_parse_url E) (de_resolve E) (wh_url s) (eg_getPolicy (hw_policy w)) of
           Eval_bad c r \<Rightarrow>
             (delivery_entry E s events signature None (Some (''egress_blocked:'' @ egress_code_str c @ '': '' @ r)) 0, [])
         | Eval_ok _ \<Rightarrow>
             (let lo = deliver_loop (de_fetch E) (case de_backoffMs E of None \<Rightarrow> 250 | Some b \<Rightarrow> b) (max_attempts E) (max_attempts E) None None
              in (delivery_entry E s events signature (lo_status lo) (lo_error lo) (lo_attempt lo), replicate (lo_calls lo) req))))"

definition getDelivery :: "string \<Rightarrow> hook_world \<Rightarrow> DeliveryAttempt option res" where
  "getDelivery i w = map_sum id (find (\<lambda>d. da_id d = i)) (readLog w)"

datatype ReplayError = P_not_found | P_no_events | P_subscription_missing

definition replayDelivery ::
  "deliver_env \<Rightarrow> string \<Rightarrow> hook_world \<Rightarrow> ((ReplayError + DeliveryAttempt) res \<times> HttpRequest list) \<times> hook_world" where
  "replayDelivery E i w =
     (case getDelivery i w of
        Inl e \<Rightarrow> ((Inl e, []), w)
      | Inr None \<Rightarrow> ((Inr (Inl P_not_found), []), w)
      | Inr (Some prior) \<Rightarrow>
          (case da_events prior of
             None \<Rightarrow> ((Inr (Inl P_no_events), []), w)
           | Some [] \<Rightarrow> ((Inr (Inl P_no_events), []), w)
           | Some events \<Rightarrow>
               (case getWebhook (da_subscription_id prior) w of
                  Inl e \<Rightarrow> ((Inl e, []), w)
                | Inr None \<Rightarrow> ((Inr (Inl P_subscription_missing), []), w)
                | Inr (Some s) \<Rightarrow>
                    (case deliverOne E s events w of (a0, reqs) \<Rightarrow>
                       (let a = a0\<lparr>da_replay_of := Some (da_id prior)\<rparr> in
                        case updateWebhookStatus (wh_id s) a w of
                          (Inl e, w) \<Rightarrow> ((Inl e, reqs), w)
                        | (Inr _, w) \<Rightarrow>
                            (case appendLog [a] w of (Inl e, w) \<Rightarrow> ((Inl e, reqs), w) | (Inr _, w) \<Rightarrow> ((Inr (Inr a), reqs), w)))))))"

text \<open>The loop of \<^verbatim>\<open>dispatchEvents\<close> over the subscriptions read at its start; delivery \<open>n\<close> has the environment \<open>E n\<close>.\<close>

fun dispatch_loop ::
  "(nat \<Rightarrow> deliver_env) \<Rightarrow> PickEvent list \<Rightarrow> nat \<Rightarrow> Webhook list \<Rightarrow> DeliveryAttempt list \<Rightarrow> HttpRequest list \<Rightarrow> hook_world
   \<Rightarrow> (DeliveryAttempt list res \<times> HttpRequest list) \<times> hook_world" where
  "dispatch_loop E events n [] ds reqs w = ((Inr ds, reqs), w)"
| "dispatch_loop E events n (s # subs) ds reqs w =
     (let matched = filter (hook_matches s) events in
      if matched = [] then dispatch_loop E events (Suc n) subs ds reqs w
      else case deliverOne (E n) s matched w of (a, rq) \<Rightarrow>
        (case updateWebhookStatus (wh_id s) a w of
           (Inl e, w) \<Rightarrow> ((Inl e, reqs @ rq), w)
         | (Inr _, w) \<Rightarrow> dispatch_loop E events (Suc n) subs (ds @ [a]) (reqs @ rq) w))"

definition dispatchEvents ::
  "(nat \<Rightarrow> deliver_env) \<Rightarrow> PickEvent list \<Rightarrow> hook_world \<Rightarrow> (DeliveryAttempt list res \<times> HttpRequest list) \<times> hook_world" where
  "dispatchEvents E events w =
     (case readSubs w of
        Inl e \<Rightarrow> ((Inl e, []), w)
      | Inr subs \<Rightarrow>
          (case dispatch_loop E events 0 subs [] [] w of
             ((Inl e, reqs), w) \<Rightarrow> ((Inl e, reqs), w)
           | ((Inr ds, reqs), w) \<Rightarrow> (case appendLog ds w of (Inl e, w) \<Rightarrow> ((Inl e, reqs), w) | (Inr _, w) \<Rightarrow> ((Inr ds, reqs), w))))"

definition delivered_ok :: "DeliveryAttempt \<Rightarrow> bool" where
  "delivered_ok d \<longleftrightarrow> (case da_status d of None \<Rightarrow> False | Some s \<Rightarrow> 200 \<le> s \<and> s < 300)"

text \<open>The part of \<^verbatim>\<open>listDeliveries\<close> after the retention sweep; the status filter is \<open>Some True\<close> for \<^verbatim>\<open>"ok"\<close>.\<close>

definition deliveries_page :: "int \<Rightarrow> string option \<Rightarrow> bool option \<Rightarrow> DeliveryAttempt list \<Rightarrow> DeliveryAttempt list" where
  "deliveries_page limit sub status rows =
     take (nat (max 1 (min 500 limit)))
       (filter (\<lambda>d. case status of None \<Rightarrow> True | Some b \<Rightarrow> delivered_ok d = b)
         (filter (\<lambda>d. truthy sub \<longrightarrow> da_subscription_id d = or_empty sub) rows))"

section \<open>The retry loop\<close>

definition final_answer :: "string + int \<Rightarrow> bool" where
  "final_answer x = (case x of Inl _ \<Rightarrow> False | Inr s \<Rightarrow> (200 \<le> s \<and> s < 300) \<or> (s < 500 \<and> s \<noteq> 429))"

definition outcome_of :: "string + int \<Rightarrow> int option \<times> string option" where
  "outcome_of x = (case x of Inl e \<Rightarrow> (None, Some e) | Inr s \<Rightarrow> (Some s, None))"

lemma upt_pauses: "a < b \<Longrightarrow> map f [a..<b] = f a # map f [Suc a..<b]"
  by (simp add: upt_conv_Cons)

text \<open>From attempt \<open>a\<close> on, with attempts left up to \<open>mx\<close>: the loop stops at the first final answer or at \<open>mx\<close>.\<close>

lemma deliver_loop_from:
  assumes "a + left = Suc mx" "1 \<le> a" "1 \<le> left"
  shows "\<exists>k. a \<le> k \<and> k \<le> mx \<and> (\<forall>j. a \<le> j \<and> j < k \<longrightarrow> \<not> final_answer (fetch j)) \<and> (k < mx \<longrightarrow> final_answer (fetch k))
    \<and> lo_calls (deliver_loop fetch b mx left st err) = Suc k - a
    \<and> (lo_status (deliver_loop fetch b mx left st err), lo_error (deliver_loop fetch b mx left st err)) = outcome_of (fetch k)
    \<and> lo_sleeps (deliver_loop fetch b mx left st err) = map (\<lambda>j. b * 2 ^ (j - 1)) [a..<k]
    \<and> lo_attempt (deliver_loop fetch b mx left st err)
        = (case fetch k of Inr s \<Rightarrow> if 200 \<le> s \<and> s < 300 then k else mx | Inl _ \<Rightarrow> mx)"
  using assms
proof (induction left arbitrary: a st err)
  case 0
  then show ?case by simp
next
  case (Suc left)
  have a: "mx - left = a" using Suc.prems by simp
  show ?case
  proof (cases "final_answer (fetch a)")
    case True
    then show ?thesis
      using Suc.prems a by (intro exI[of _ a]) (auto simp: final_answer_def outcome_of_def Let_def split: sum.splits)
  next
    case go: False
    show ?thesis
    proof (cases "left = 0")
      case True
      with Suc.prems have "a = mx" by simp
      with go True show ?thesis
        by (intro exI[of _ a]) (auto simp: final_answer_def outcome_of_def loop_after_def Let_def split: sum.splits)
    next
      case False
      define st' err' where "st' = fst (outcome_of (fetch a))" and "err' = snd (outcome_of (fetch a))"
      have step: "deliver_loop fetch b mx (Suc left) st err = loop_after [b * 2 ^ (a - 1)] (deliver_loop fetch b mx left st' err')"
        using go False a Suc.prems by (auto simp: final_answer_def outcome_of_def st'_def err'_def Let_def split: sum.splits)
      from Suc.IH[of "Suc a" st' err'] Suc.prems False obtain k where k: "Suc a \<le> k" "k \<le> mx"
          "\<forall>j. Suc a \<le> j \<and> j < k \<longrightarrow> \<not> final_answer (fetch j)" "k < mx \<longrightarrow> final_answer (fetch k)"
          "lo_calls (deliver_loop fetch b mx left st' err') = Suc k - Suc a"
          "(lo_status (deliver_loop fetch b mx left st' err'), lo_error (deliver_loop fetch b mx left st' err')) = outcome_of (fetch k)"
          "lo_sleeps (deliver_loop fetch b mx left st' err') = map (\<lambda>j. b * 2 ^ (j - 1)) [Suc a..<k]"
          "lo_attempt (deliver_loop fetch b mx left st' err') = (case fetch k of Inr s \<Rightarrow> if 200 \<le> s \<and> s < 300 then k else mx | Inl _ \<Rightarrow> mx)"
        by auto
      have "\<not> final_answer (fetch j)" if "a \<le> j" "j < k" for j
        using go k(3) that by (cases "j = a") auto
      with k show ?thesis unfolding step by (intro exI[of _ k]) (auto simp: loop_after_def upt_pauses)
    qed
  qed
qed

section \<open>Requests\<close>

lemma update_frame [simp]:
  "hw_policy (snd (updateWebhookStatus i a w)) = hw_policy w" "hw_log (snd (updateWebhookStatus i a w)) = hw_log w"
  by (auto simp: updateWebhookStatus_def writeSubs_def split: sum.splits option.splits)

definition judged_ok :: "deliver_env \<Rightarrow> Webhook \<Rightarrow> hook_world \<Rightarrow> bool" where
  "judged_ok E s w \<longleftrightarrow> (\<exists>as. evaluateUrl (de_parse_url E) (de_resolve E) (wh_url s) (eg_getPolicy (hw_policy w)) = Eval_ok as)"

lemma deliverOne_requests:
  assumes "r \<in> set (snd (deliverOne E s events w))"
  shows "r = fst (delivery_request E s events)" "judged_ok E s w"
  using assms by (auto simp: deliverOne_def judged_ok_def Let_def split: prod.splits EvalResult.splits)

lemma deliverOne_entry [simp]:
  "da_subscription_id (fst (deliverOne E s events w)) = wh_id s" "da_url (fst (deliverOne E s events w)) = wh_url s"
  "da_events (fst (deliverOne E s events w)) = Some events"
  by (auto simp: deliverOne_def delivery_entry_def Let_def split: prod.splits EvalResult.splits)

lemma dispatch_loop_requests:
  assumes "r \<in> set (snd (fst (dispatch_loop E events n subs ds reqs w)))"
  shows "r \<in> set reqs \<or> (\<exists>m s. s \<in> set subs \<and> filter (hook_matches s) events \<noteq> []
    \<and> r = fst (delivery_request (E m) s (filter (hook_matches s) events)) \<and> judged_ok (E m) s w)"
  using assms
proof (induction E events n subs ds reqs w rule: dispatch_loop.induct)
  case (1 E events n ds reqs w)
  then show ?case by simp
next
  case (2 E events n s subs ds reqs w)
  show ?case
  proof (cases "filter (hook_matches s) events = []")
    case True
    with 2 show ?thesis by auto
  next
    case False
    obtain a rq where d: "deliverOne (E n) s (filter (hook_matches s) events) w = (a, rq)" by fastforce
    obtain out w' where u: "updateWebhookStatus (wh_id s) a w = (out, w')" by fastforce
    have w': "judged_ok e s' w' \<longleftrightarrow> judged_ok e s' w" for e s'
      using update_frame(1)[of "wh_id s" a w] by (simp add: u judged_ok_def)
    have rq: "x = fst (delivery_request (E n) s (filter (hook_matches s) events)) \<and> judged_ok (E n) s w" if "x \<in> set rq" for x
      using deliverOne_requests[of x "E n" s "filter (hook_matches s) events" w] that by (simp add: d)
    show ?thesis
    proof (cases out)
      case (Inl e)
      with 2(3) False d u have "r \<in> set reqs \<or> r \<in> set rq" by (simp add: Let_def)
      with rq False show ?thesis by fastforce
    next
      case (Inr x)
      with 2(2)[OF refl False, of a rq out w'] 2(3) False d u have "r \<in> set (reqs @ rq) \<or> (\<exists>m s. s \<in> set subs \<and> filter (hook_matches s) events \<noteq> []
          \<and> r = fst (delivery_request (E m) s (filter (hook_matches s) events)) \<and> judged_ok (E m) s w')"
        by (simp add: Let_def)
      with rq False show ?thesis unfolding w' by fastforce
    qed
  qed
qed

lemma filter_nonempty: "filter P xs \<noteq> [] \<longleftrightarrow> (\<exists>x \<in> set xs. P x)"
  by (induction xs) auto

section \<open>Log entries\<close>

lemma dispatch_loop_entries:
  assumes "dispatch_loop E events n subs ds reqs w = ((Inr out, reqs'), w')"
  shows "map da_subscription_id out
      = map da_subscription_id ds @ map wh_id (filter (\<lambda>s. \<exists>ev \<in> set events. hook_matches s ev) subs) \<and> hw_log w' = hw_log w"
  using assms
proof (induction E events n subs ds reqs w rule: dispatch_loop.induct)
  case (1 E events n ds reqs w)
  then show ?case by simp
next
  case (2 E events n s subs ds reqs w)
  show ?case
  proof (cases "filter (hook_matches s) events = []")
    case True
    with 2(1)[OF refl True] 2(3) show ?thesis by (auto simp: filter_empty_conv Let_def)
  next
    case False
    obtain a rq where d: "deliverOne (E n) s (filter (hook_matches s) events) w = (a, rq)" by fastforce
    obtain x w1 where u: "updateWebhookStatus (wh_id s) a w = (x, w1)" by fastforce
    from 2(3) False d u obtain y where y: "x = Inr y" by (cases x) (auto simp: Let_def)
    have "da_subscription_id a = wh_id s" using deliverOne_entry(1)[of "E n" s "filter (hook_matches s) events" w] by (simp add: d)
    moreover have "hw_log w1 = hw_log w" using update_frame(2)[of "wh_id s" a w] by (simp add: u)
    ultimately show ?thesis
      using 2(2)[OF refl False, of a rq x w1] 2(3) False d u y by (auto simp: Let_def filter_nonempty)
  qed
qed

section \<open>Examples\<close>

definition sample_hook :: Webhook where
  "sample_hook = \<lparr>wh_id = ''w1'', wh_url = ''https://hooks.example.com/in'', wh_events = [''entered''], wh_tickers = [], wh_secret = ''old'',
     wh_enabled = True, wh_created_at = toISOString 0, wh_last_status = None, wh_last_error = None, wh_last_delivered_at = None,
     wh_previous_secret = None, wh_previous_secret_expires_at = None, wh_secret_rotated_at = None\<rparr>"

definition sample_event :: PickEvent where
  "sample_event = \<lparr>pe_kind = ''entered'', pe_ticker = ''SPY'', pe_as_of = ''2024-01-02'', pe_new_label = None, pe_prior_label = None,
     pe_score_delta = None\<rparr>"

definition sample_denv :: deliver_env where
  "sample_denv = \<lparr>de_host = sample_host, de_clock = (\<lambda>_. 0), de_body_id = ''b1'', de_attempt_id = ''a1'',
     de_parse_url = (\<lambda>_. Some \<lparr>url_protocol = ''https:'', url_hostname = ''hooks.example.com'', url_username = [], url_password = []\<rparr>),
     de_resolve = (\<lambda>_. Inr [''93.184.216.34'']), de_fetch = (\<lambda>_. Inr 200), de_maxAttempts = None, de_backoffMs = None\<rparr>"

definition sample_hooks :: hook_world where
  "sample_hooks = \<lparr>hw_subs = Stored [sample_hook], hw_log = NoFile, hw_policy = Absent\<rparr>"

lemma sample_judged: "evaluateUrl (de_parse_url sample_denv) (de_resolve sample_denv) (wh_url sample_hook) DEFAULT_EGRESS = Eval_ok [''93.184.216.34'']"
proof -
  have "outside_denied ''93.184.216.34''" "parseIpLiteral ''hooks.example.com'' = None" by code_simp+
  then show ?thesis
    by (simp add: sample_denv_def evaluateUrl_def host_addresses_def check_addresses_def outside_iff parseAllowlist_def DEFAULT_EGRESS_def Let_def)
qed

lemma sample_dispatch:
  "\<exists>a r w. dispatchEvents (\<lambda>_. sample_denv) [sample_event] sample_hooks = ((Inr [a], [r]), w)"
proof -
  have p: "eg_getPolicy (hw_policy sample_hooks) = DEFAULT_EGRESS" by (simp add: sample_hooks_def eg_getPolicy_def)
  have "deliver_loop (de_fetch sample_denv) 250 3 3 None None
      = \<lparr>lo_status = Some 200, lo_error = None, lo_attempt = 1, lo_calls = 1, lo_sleeps = []\<rparr>"
    by (simp add: sample_denv_def numeral_3_eq_3)
  then obtain a r where d: "deliverOne sample_denv sample_hook [sample_event] sample_hooks = (a, [r])"
    by (simp add: deliverOne_def p sample_judged max_attempts_def split_beta sample_denv_def[THEN arg_cong, of de_maxAttempts]
        sample_denv_def[THEN arg_cong, of de_backoffMs])
  have "hook_matches sample_hook sample_event" by (simp add: hook_matches_def sample_hook_def sample_event_def)
  moreover have "readSubs sample_hooks = Inr [sample_hook]" "readLog sample_hooks = Inr []" by (simp_all add: sample_hooks_def)
  ultimately show ?thesis
    by (simp add: dispatchEvents_def d updateWebhookStatus_def appendLog_def writeSubs_def)
qed

section \<open>Properties\<close>

text \<open>C10: Where requests go: every request a dispatch makes goes to the URL of an enabled subscription with a matching event, and every address that the check of
  this URL found is outside the denied IPv4 and IPv6 ranges, unless the policy allows private destinations (it does not by default), and is
  on the allow-list, if the policy has one. An address that reads as neither IPv4 nor IPv6 counts as outside, and the ranges are those of the deny list.\<close>

theorem webhook_requests_public:
  assumes "r \<in> set (snd (fst (dispatchEvents E events w)))"
  shows "\<exists>n subs s u as. readSubs w = Inr subs \<and> s \<in> set subs \<and> wh_enabled s \<and> (\<exists>ev \<in> set events. hook_matches s ev)
    \<and> hr_url r = wh_url s \<and> de_parse_url (E n) (wh_url s) = Some u \<and> as \<noteq> []
    \<and> (parseIpLiteral (url_hostname u) = Some (hd as) \<and> as = [hd as] \<or> de_resolve (E n) (url_hostname u) = Inr as)
    \<and> list_all (\<lambda>a. eg_allow_private (eg_getPolicy (hw_policy w)) \<or> outside_denied a) as
    \<and> list_all (\<lambda>a. parseAllowlist (eg_getPolicy (hw_policy w)) = [] \<or> ipMatchesAny a (parseAllowlist (eg_getPolicy (hw_policy w)))) as"
proof -
  obtain subs where subs: "readSubs w = Inr subs" using assms(1) by (cases "readSubs w") (auto simp: dispatchEvents_def)
  have "r \<in> set (snd (fst (dispatch_loop E events 0 subs [] [] w)))"
    using assms(1) by (simp add: dispatchEvents_def subs split: prod.splits sum.splits)
  from dispatch_loop_requests[OF this] obtain n s where s: "s \<in> set subs" "filter (hook_matches s) events \<noteq> []"
      "r = fst (delivery_request (E n) s (filter (hook_matches s) events))" "judged_ok (E n) s w" by auto
  from s(4) obtain as where "evaluateUrl (de_parse_url (E n)) (de_resolve (E n)) (wh_url s) (eg_getPolicy (hw_policy w)) = Eval_ok as"
    by (auto simp: judged_ok_def)
  then obtain u where u: "de_parse_url (E n) (wh_url s) = Some u" "as \<noteq> []"
      "parseIpLiteral (url_hostname u) = Some (hd as) \<and> as = [hd as] \<or> de_resolve (E n) (url_hostname u) = Inr as"
      "list_all (\<lambda>a. eg_allow_private (eg_getPolicy (hw_policy w)) \<or> outside_denied a) as"
      "list_all (\<lambda>a. parseAllowlist (eg_getPolicy (hw_policy w)) = [] \<or> ipMatchesAny a (parseAllowlist (eg_getPolicy (hw_policy w)))) as"
    by (rule evaluateUrl_ok) blast
  have "hr_url r = wh_url s" by (simp add: s(3) delivery_request_def Let_def)
  moreover have "wh_enabled s" "\<exists>ev \<in> set events. hook_matches s ev" using s(2) by (auto simp: filter_nonempty hook_matches_def)
  ultimately show ?thesis using subs s(1) u by blast
qed

theorem webhook_requests_public_witness:
  "\<exists>r \<in> set (snd (fst (dispatchEvents (\<lambda>_. sample_denv) [sample_event] sample_hooks))).
    \<exists>n subs s u as. readSubs sample_hooks = Inr subs \<and> s \<in> set subs \<and> wh_enabled s \<and> (\<exists>ev \<in> set [sample_event]. hook_matches s ev)
    \<and> hr_url r = wh_url s \<and> de_parse_url sample_denv (wh_url s) = Some u \<and> as \<noteq> []
    \<and> (parseIpLiteral (url_hostname u) = Some (hd as) \<and> as = [hd as] \<or> de_resolve sample_denv (url_hostname u) = Inr as)
    \<and> list_all outside_denied as"
proof -
  obtain r where r: "r \<in> set (snd (fst (dispatchEvents (\<lambda>_. sample_denv) [sample_event] sample_hooks)))"
    using sample_dispatch by auto
  have "\<not> eg_allow_private (eg_getPolicy (hw_policy sample_hooks))" by (simp add: sample_hooks_def eg_getPolicy_def DEFAULT_EGRESS_def)
  with webhook_requests_public[OF r] r show ?thesis by simp blast
qed

text \<open>C33: The retry loop of a delivery always ends: it makes at least one request and at most \<open>mx\<close>, stops at the
  first answer that is neither a server error nor 429 (an exception counts as a retryable failure), reports the outcome of the
  last request it made, and pauses between two requests for a time that doubles.\<close>

theorem delivery_retries_exact:
  fixes fetch :: "nat \<Rightarrow> string + int" and b :: int
  assumes "1 \<le> mx"
  shows "let lo = deliver_loop fetch b mx mx None None in
    1 \<le> lo_calls lo \<and> lo_calls lo \<le> mx
    \<and> (\<forall>k. 1 \<le> k \<and> k < lo_calls lo \<longrightarrow> \<not> final_answer (fetch k)) \<and> (lo_calls lo < mx \<longrightarrow> final_answer (fetch (lo_calls lo)))
    \<and> (lo_status lo, lo_error lo) = outcome_of (fetch (lo_calls lo))
    \<and> lo_sleeps lo = map (\<lambda>k. b * 2 ^ (k - 1)) [1..<lo_calls lo]"
proof -
  define lo where "lo = deliver_loop fetch b mx mx None None"
  from deliver_loop_from[of 1 mx mx fetch b None None] assms obtain k where
    "1 \<le> k" "k \<le> mx" "\<forall>j. 1 \<le> j \<and> j < k \<longrightarrow> \<not> final_answer (fetch j)" "k < mx \<longrightarrow> final_answer (fetch k)"
    "lo_calls lo = k" "(lo_status lo, lo_error lo) = outcome_of (fetch k)" "lo_sleeps lo = map (\<lambda>j. b * 2 ^ (j - 1)) [1..<k]"
    unfolding lo_def by auto
  then show ?thesis unfolding lo_def[symmetric] by (auto simp: Let_def)
qed

theorem delivery_retries_exact_witness:
  "let lo = deliver_loop (\<lambda>k. if k < 2 then Inr 503 else Inr 200) 250 3 3 None None in
    1 \<le> lo_calls lo \<and> lo_calls lo \<le> 3
    \<and> (\<forall>k. 1 \<le> k \<and> k < lo_calls lo \<longrightarrow> \<not> final_answer (if k < 2 then Inr 503 else Inr 200))
    \<and> (lo_calls lo < 3 \<longrightarrow> final_answer (if lo_calls lo < 2 then Inr 503 else Inr 200))
    \<and> (lo_status lo, lo_error lo) = outcome_of (if lo_calls lo < 2 then Inr 503 else Inr 200)
    \<and> lo_sleeps lo = map (\<lambda>k. 250 * 2 ^ (k - 1)) [1..<lo_calls lo]"
  by (rule delivery_retries_exact) simp

text \<open>A delivery whose receiver answers 404 makes a single request and is logged as its third attempt: the number of attempts
  in the log is the configured maximum whenever no attempt succeeded.\<close>

theorem rejected_delivery_overcounts:
  "fetch 1 = Inr 404 \<Longrightarrow> lo_calls (deliver_loop fetch b 3 3 None None) = 1 \<and> lo_attempt (deliver_loop fetch b 3 3 None None) = 3"
  by (simp add: numeral_3_eq_3)

theorem rejected_delivery_overcounts_witness:
  "lo_calls (deliver_loop (\<lambda>_. Inr 404) 250 3 3 None None) = 1 \<and> lo_attempt (deliver_loop (\<lambda>_. Inr 404) 250 3 3 None None) = 3"
  by (rule rejected_delivery_overcounts) simp

text \<open>Rotation keeps receivers working: after a rotation the stored subscription signs every body with the new secret,
  and with the old one too exactly as long as the grace window lasts; a grace of zero ends the old secret at once.\<close>

theorem rotation_grace_window:
  assumes "rotateWebhookSecret now fresh i secret g w = (Inr (Inr (h, new, grace)), w')"
    and "getWebhook i w = Inr (Some s)" "wh_secret s \<noteq> []" "fresh \<noteq> []" "time_ok (now + grace * 1000)"
  shows "getWebhook i w' = Inr (Some h) \<and> new \<noteq> []
    \<and> signBodyForSub H t h body ts = Some (''t='' @ ts @ '',v1='' @ macHex H new body ts
        @ (if 0 < grace \<and> t < now + grace * 1000 then '',v1='' @ macHex H (wh_secret s) body ts else []))"
proof -
  from assms(2) obtain subs where subs: "readSubs w = Inr subs" "find (\<lambda>s. wh_id s = i) subs = Some s"
    by (cases "readSubs w") (auto simp: getWebhook_def)
  from assms(1) subs have h: "h = rotated_hook now new grace s" "w' = writeSubs (upd_first (\<lambda>s. wh_id s = i) (rotated_hook now new grace) subs) w"
      "new = (if trim (or_empty secret) \<noteq> [] then trim (or_empty secret) else fresh)"
    by (auto simp: rotateWebhookSecret_def Let_def split: if_splits)
  have new: "new \<noteq> []" using h(3) assms(4) by auto
  have "wh_id h = i" using find_SomeD[OF subs(2)] by (simp add: h(1) rotated_hook_def Let_def)
  then have "getWebhook i w' = Inr (Some h)"
    using find_upd_first_same[OF subs(2), of "rotated_hook now new grace"] by (simp add: getWebhook_def h writeSubs_def)
  moreover have "prev_active H t h \<longleftrightarrow> 0 < grace \<and> t < now + grace * 1000"
    using assms(3,5) by (auto simp: prev_active_def h(1) rotated_hook_def Let_def or_null_def or_empty_def)
  moreover have "wh_secret h = new" "0 < grace \<Longrightarrow> wh_previous_secret h = Some (wh_secret s)"
    using assms(3) by (simp_all add: h(1) rotated_hook_def Let_def or_null_def)
  ultimately show ?thesis using new by (auto simp: signBodyForSub_def or_empty_def)
qed

theorem rotation_grace_window_witness:
  "\<exists>h w'. rotateWebhookSecret 0 ''fresh'' ''w1'' None None sample_hooks = (Inr (Inr (h, ''fresh'', 3600)), w')
    \<and> getWebhook ''w1'' w' = Inr (Some h)
    \<and> signBodyForSub sample_host 1000 h ''{}'' ''1'' = Some (''t='' @ ''1'' @ '',v1='' @ macHex sample_host ''fresh'' ''{}'' ''1''
        @ '',v1='' @ macHex sample_host ''old'' ''{}'' ''1'')"
proof -
  have "trim (or_empty None) = []" by code_simp
  then obtain h w' where r: "rotateWebhookSecret 0 ''fresh'' ''w1'' None None sample_hooks = (Inr (Inr (h, ''fresh'', 3600)), w')"
    by (simp add: rotateWebhookSecret_def rotate_grace_def sample_hooks_def sample_hook_def Let_def)
  have "getWebhook ''w1'' sample_hooks = Inr (Some sample_hook)" by (simp add: getWebhook_def sample_hooks_def sample_hook_def)
  from rotation_grace_window[OF r this, of sample_host 1000 "''{}''" "''1''"] r show ?thesis
    by (auto simp: sample_hook_def time_ok_def)
qed

text \<open>A dispatch that ends without an exception has made one log entry for every subscription with a matching event, in the
  order of the subscriptions and ahead of the older entries, and the log keeps the newest 500.\<close>

theorem dispatch_logs_every_match:
  assumes "dispatchEvents E events w = ((Inr ds, reqs), w')" "readSubs w = Inr subs" "readLog w = Inr old"
  shows "map da_subscription_id ds = map wh_id (filter (\<lambda>s. \<exists>ev \<in> set events. hook_matches s ev) subs)
    \<and> readLog w' = Inr (if ds = [] then old else take 500 (ds @ old))"
proof -
  from assms(1,2) obtain w1 where w1: "dispatch_loop E events 0 subs [] [] w = ((Inr ds, reqs), w1)" "appendLog ds w1 = (Inr (), w')"
    by (auto simp: dispatchEvents_def split: prod.splits sum.splits)
  from dispatch_loop_entries[OF w1(1)] have "hw_log w1 = hw_log w"
      "map da_subscription_id ds = map wh_id (filter (\<lambda>s. \<exists>ev \<in> set events. hook_matches s ev) subs)" by auto
  with w1(2) assms(3) show ?thesis by (auto simp: appendLog_def split: if_splits)
qed

theorem dispatch_logs_every_match_witness:
  "\<exists>ds reqs w'. dispatchEvents (\<lambda>_. sample_denv) [sample_event] sample_hooks = ((Inr ds, reqs), w')
    \<and> map da_subscription_id ds = [''w1''] \<and> readLog w' = Inr (take 500 ds)"
proof -
  obtain a r w' where d: "dispatchEvents (\<lambda>_. sample_denv) [sample_event] sample_hooks = ((Inr [a], [r]), w')" using sample_dispatch by blast
  from dispatch_logs_every_match[OF d, of "[sample_hook]" "[]"] d show ?thesis
    by (simp add: sample_hooks_def sample_hook_def sample_event_def hook_matches_def)
qed

end
