(* ===== verification/IsoOrder.thy ===== *)
theory IsoOrder
  imports JsDate
begin

text \<open>
  The stores compare instants as strings: \<^verbatim>\<open>r.created_at >= cutoff\<close>. This theory shows that on the strings
  \<^verbatim>\<open>toISOString\<close> prints for the years 0 to 9999 the order of the strings is the order of the instants.
\<close>

section \<open>Strings of equal length\<close>

lemma lex_append:
  fixes u v :: "'a::linorder list"
  shows "length u = length v \<Longrightarrow> u @ x < v @ y \<longleftrightarrow> u < v \<or> (u = v \<and> x < y)"
  by (induction u v rule: list_induct2) auto

lemma digit_char_less: "\<lbrakk>0 \<le> a; a < 10; 0 \<le> b; b < 10\<rbrakk> \<Longrightarrow> digit_char a < digit_char b \<longleftrightarrow> a < b"
  by (auto simp: digit_char_def less_char_def)

lemma digit_char_eq: "\<lbrakk>0 \<le> a; a < 10; 0 \<le> b; b < 10\<rbrakk> \<Longrightarrow> digit_char a = digit_char b \<longleftrightarrow> a = b"
proof
  assume "0 \<le> a" "a < 10" "0 \<le> b" "b < 10" "digit_char a = digit_char b"
  then have "char_digit (digit_char a) = char_digit (digit_char b)" by simp
  with \<open>0 \<le> a\<close> \<open>a < 10\<close> \<open>0 \<le> b\<close> \<open>b < 10\<close> show "a = b" by simp
qed simp

lemma less_div_mod:
  fixes a b n :: int
  assumes "0 < n"
  shows "a < b \<longleftrightarrow> a div n < b div n \<or> (a div n = b div n \<and> a mod n < b mod n)"
proof -
  have d: "x < y" if "x div n < y div n" for x y
    using that zdiv_mono1[of y x n] assms by linarith
  have "a < b \<longleftrightarrow> a mod n < b mod n" if "a div n = b div n"
    by (subst (1 2) div_mult_mod_eq[of _ n, symmetric]) (simp only: that add_less_cancel_left)
  then show ?thesis using d[of a b] d[of b a] by (cases "a div n" "b div n" rule: linorder_cases) auto
qed

lemma eq_div_mod:
  fixes a b :: int
  shows "a = b \<longleftrightarrow> a div 10 = b div 10 \<and> a mod 10 = b mod 10"
  by (metis div_mult_mod_eq)

lemma div_mod_of: "\<lbrakk>(a::int) = n * q + r; 0 \<le> r; r < n\<rbrakk> \<Longrightarrow> a div n = q \<and> a mod n = r"
  using int_div_pos_eq[of a n q r] int_mod_pos_eq[of a n q r] by simp

lemma fixed_digits_order:
  "\<lbrakk>0 \<le> a; a < 10 ^ w; 0 \<le> b; b < 10 ^ w\<rbrakk> \<Longrightarrow>
     (fixed_digits 10 w a < fixed_digits 10 w b \<longleftrightarrow> a < b) \<and> (fixed_digits 10 w a = fixed_digits 10 w b \<longleftrightarrow> a = b)"
proof (induction w arbitrary: a b)
  case 0
  then show ?case by simp
next
  case (Suc w)
  have q: "0 \<le> a div 10" "a div 10 < 10 ^ w" "0 \<le> b div 10" "b div 10 < 10 ^ w"
    using Suc.prems by (auto simp: pos_imp_zdiv_nonneg_iff intro: div_less_of_less_mult)
  show ?case
    using Suc.IH[OF q] less_div_mod[of 10 a b] eq_div_mod[of a b]
    by (auto simp: lex_append digit_char_less digit_char_eq)
qed

section \<open>Days in calendar order\<close>

text \<open>Months counted from the first month of year 0.\<close>

definition month_start :: "int \<Rightarrow> int" where
  "month_start k = days_from_civil (k div 12, k mod 12 + 1, 1)"

definition month_days :: "int \<Rightarrow> int" where
  "month_days k = month_length (k div 12) (k mod 12 + 1)"

lemma month_days_pos: "0 < month_days k"
  by (simp add: month_days_def month_length_def)

lemma month_start_next: "month_start (k + 1) = month_start k + month_days k"
proof (cases "k mod 12 = 11")
  case True
  with mult_div_mod_eq[of 12 k] have "k + 1 = 12 * (k div 12 + 1) + 0" by (simp only: distrib_left)
  from div_mod_of[OF this] have "(k + 1) div 12 = k div 12 + 1" "(k + 1) mod 12 = 0" by simp_all
  with True next_year[of "k div 12"] show ?thesis by (simp add: month_start_def month_days_def)
next
  case False
  then have r: "k mod 12 + 1 < 12" "1 \<le> k mod 12 + 1" "0 \<le> k mod 12 + 1" using pos_mod_bound[of 12 k] pos_mod_sign[of 12 k] by linarith+
  have "k + 1 = 12 * (k div 12) + (k mod 12 + 1)" using mult_div_mod_eq[of 12 k] by linarith
  from div_mod_of[OF this r(3,1)] have e: "(k + 1) div 12 = k div 12" "(k + 1) mod 12 = k mod 12 + 1" by blast+
  with r next_month[of "k mod 12 + 1" "k div 12"] show ?thesis
    unfolding month_start_def month_days_def e by (simp only: add.assoc)
qed

lemma month_start_mono: "j < k \<Longrightarrow> month_start j + month_days j \<le> month_start k"
proof (induction k rule: int_gr_induct)
  case base
  then show ?case by (simp add: month_start_next)
next
  case (step i)
  with month_days_pos[of i] show ?case by (simp add: month_start_next)
qed

lemma civil_month_length:
  assumes "civil_from_days z = (y, m, d)"
  shows "d \<le> month_length y m"
proof -
  define n where "n = z + 719468"
  define k where "k = year_of n"
  define doy where "doy = n - year_days k"
  define mp where "mp = (5 * doy + 2) div 153"
  have c: "m = (if mp < 10 then mp + 3 else mp - 9)" "d = doy - (153 * mp + 2) div 5 + 1"
      "y = (if m \<le> 2 then k + 1 else k)"
    using assms by (auto simp: civil_from_days_def n_def k_def doy_def mp_def Let_def)
  have doy: "0 \<le> doy" "doy < 365 + (if leap_year (k + 1) then 1 else 0)"
    using year_of_bounds[of n] year_length[of "k + 1"] by (auto simp: doy_def k_def split: if_splits)
  then have "0 \<le> mp" "mp \<le> 11" by (auto simp: mp_def split: if_splits)
  then have mp: "mp \<in> {0,1,2,3,4,5,6,7,8,9,10,11}" by (rule int_upto_11)
  have b: "153 * mp \<le> 5 * doy + 2" "5 * doy + 2 < 153 * mp + 153"
    unfolding mp_def by (rule div_bounds, simp)+
  show ?thesis using mp b doy(2) by (elim insertE emptyE) (auto simp: c month_length_def split: if_splits)
qed

lemma civil_month:
  assumes "civil_from_days z = (y, m, d)"
  shows "z = month_start (12 * y + m - 1) + d - 1" "d \<le> month_days (12 * y + m - 1)" "1 \<le> d"
proof -
  note b = civil_from_days_bounds[OF assms]
  have k: "(12 * y + m - 1) div 12 = y" "(12 * y + m - 1) mod 12 = m - 1"
    using div_mod_of[of "12 * y + m - 1" 12 y "m - 1"] b(1,2) by auto
  have "days_from_civil (y, m, 1) + d - 1 = days_from_civil (y, m, d)" by (simp add: days_from_civil.simps)
  then show "z = month_start (12 * y + m - 1) + d - 1" using b(5) by (simp only: month_start_def k) simp
  show "d \<le> month_days (12 * y + m - 1)" using civil_month_length[OF assms] by (simp add: month_days_def k)
  show "1 \<le> d" by (rule b(3))
qed

lemma civil_order:
  assumes z: "civil_from_days z = (y, m, d)" and z': "civil_from_days z' = (y', m', d')"
  shows "z < z' \<longleftrightarrow> y < y' \<or> (y = y' \<and> (m < m' \<or> (m = m' \<and> d < d')))" "z = z' \<longleftrightarrow> y = y' \<and> m = m' \<and> d = d'"
proof -
  let ?k = "12 * y + m - 1" and ?k' = "12 * y' + m' - 1"
  note c = civil_month[OF z] and c' = civil_month[OF z'] and b = civil_from_days_bounds[OF z] and b' = civil_from_days_bounds[OF z']
  have lt: "?k < ?k' \<longleftrightarrow> y < y' \<or> (y = y' \<and> m < m')" and eq: "?k = ?k' \<longleftrightarrow> y = y' \<and> m = m'"
    using b(1,2) b'(1,2) by (cases y y' rule: linorder_cases; auto)+
  consider "?k < ?k'" | "?k = ?k'" | "?k' < ?k" by linarith
  then show "z < z' \<longleftrightarrow> y < y' \<or> (y = y' \<and> (m < m' \<or> (m = m' \<and> d < d')))"
  proof cases
    case 1
    then show ?thesis using month_start_mono[OF 1] c c' lt by auto
  next
    case 2
    then show ?thesis using c c' eq by auto
  next
    case 3
    then show ?thesis using month_start_mono[OF 3] c c' lt eq by auto
  qed
  show "z = z' \<longleftrightarrow> y = y' \<and> m = m' \<and> d = d'"
  proof
    assume "z = z'"
    then show "y = y' \<and> m = m' \<and> d = d'" using z z' by simp
  next
    assume "y = y' \<and> m = m' \<and> d = d'"
    then have "days_from_civil (y, m, d) = days_from_civil (y', m', d')" by simp
    then show "z = z'" by (simp only: b(5) b'(5))
  qed
qed

section \<open>Instants\<close>

text \<open>\<open>iso_time t\<close>: \<open>t\<close> is in one of the years 0 to 9999.\<close>

definition iso_time :: "int \<Rightarrow> bool" where
  "iso_time t \<longleftrightarrow> -62167219200000 \<le> t \<and> t < 253402300800000"

lemma iso_time_ok: "iso_time t \<Longrightarrow> time_ok t"
  by (auto simp: iso_time_def time_ok_def)

lemma iso_time_year:
  assumes "iso_time t" "civil_from_days (t div DAY_MS) = (y, m, d)"
  shows "0 \<le> y" "y \<le> 9999"
proof -
  note c = civil_month[OF assms(2)] and b = civil_from_days_bounds[OF assms(2)]
  let ?k = "12 * y + m - 1"
  have s: "month_start 0 = -719528" "month_start 120000 = 2932897" by (simp_all add: month_start_def year_days_def days_from_civil.simps)
  have t: "-719528 \<le> t div DAY_MS" "t div DAY_MS < 2932897"
    using assms(1) by (auto simp: iso_time_def DAY_MS_def)
  have "0 \<le> ?k" using month_start_mono[of ?k 0] c t s by linarith
  moreover have m: "month_start 120000 \<le> month_start ?k" if "120000 \<le> ?k"
    using month_start_mono[of 120000 ?k] month_days_pos[of 120000] that by (cases "?k = 120000") simp_all
  have "?k < 120000" by (rule ccontr) (use m c t s in linarith)
  ultimately show "0 \<le> y" "y \<le> 9999" using b(1,2) by linarith+
qed

lemma clock_order:
  fixes h mi s u h' mi' s' u' :: int
  assumes "0 \<le> mi" "mi < 60" "0 \<le> s" "s < 60" "0 \<le> u" "u < 1000" "0 \<le> mi'" "mi' < 60" "0 \<le> s'" "s' < 60" "0 \<le> u'" "u' < 1000"
  shows "h * 3600000 + mi * 60000 + s * 1000 + u < h' * 3600000 + mi' * 60000 + s' * 1000 + u'
    \<longleftrightarrow> h < h' \<or> (h = h' \<and> (mi < mi' \<or> (mi = mi' \<and> (s < s' \<or> (s = s' \<and> u < u')))))"
  using assms by (cases h h' rule: linorder_cases; cases mi mi' rule: linorder_cases; cases s s' rule: linorder_cases) auto

theorem toISOString_less:
  assumes "iso_time t" "iso_time t'"
  shows "toISOString t < toISOString t' \<longleftrightarrow> t < t'"
proof -
  obtain y m d where c: "civil_from_days (t div DAY_MS) = (y, m, d)" by (cases "civil_from_days (t div DAY_MS)")
  obtain y' m' d' where c': "civil_from_days (t' div DAY_MS) = (y', m', d')" by (cases "civil_from_days (t' div DAY_MS)")
  define k where "k = t mod DAY_MS"
  define k' where "k' = t' mod DAY_MS"
  note b = civil_from_days_bounds[OF c] and b' = civil_from_days_bounds[OF c'] and Y = iso_time_year[OF assms(1) c] and Y' = iso_time_year[OF assms(2) c']
  have kb: "0 \<le> k" "k < 86400000" "0 \<le> k'" "k' < 86400000" by (simp_all add: k_def k'_def DAY_MS_def)
  define h mi s u where "h = k div 3600000" and "mi = k div 60000 mod 60" and "s = k div 1000 mod 60" and "u = k mod 1000"
  define h' mi' s' u' where "h' = k' div 3600000" and "mi' = k' div 60000 mod 60" and "s' = k' div 1000 mod 60" and "u' = k' mod 1000"
  have hb: "0 \<le> h" "h < 100" "0 \<le> h'" "h' < 100" using kb by (auto simp: h_def h'_def)
  have parts: "0 \<le> mi" "mi < 60" "0 \<le> s" "s < 60" "0 \<le> u" "u < 1000" "0 \<le> mi'" "mi' < 60" "0 \<le> s'" "s' < 60" "0 \<le> u'" "u' < 1000"
    by (simp_all add: mi_def s_def u_def mi'_def s'_def u'_def)
  have clock: "k < k' \<longleftrightarrow> h < h' \<or> (h = h' \<and> (mi < mi' \<or> (mi = mi' \<and> (s < s' \<or> (s = s' \<and> u < u')))))"
    using clock_order[OF parts, of h h'] clock_parts[of k] clock_parts[of k']
    unfolding h_def mi_def s_def u_def h'_def mi'_def s'_def u'_def by simp
  have days: "t < t' \<longleftrightarrow> t div DAY_MS < t' div DAY_MS \<or> (t div DAY_MS = t' div DAY_MS \<and> k < k')"
    unfolding k_def k'_def by (rule less_div_mod) (simp add: DAY_MS_def)
  have order: "t < t' \<longleftrightarrow> y < y' \<or> (y = y' \<and> (m < m' \<or> (m = m' \<and> (d < d' \<or> (d = d' \<and> k < k')))))"
    unfolding days civil_order[OF c c'] by (cases "y = y'"; cases "m = m'"; cases "d = d'") simp_all
  have f: "fixed_digits 10 4 y < fixed_digits 10 4 y' \<longleftrightarrow> y < y'" "fixed_digits 10 4 y = fixed_digits 10 4 y' \<longleftrightarrow> y = y'"
      "fixed_digits 10 3 u < fixed_digits 10 3 u' \<longleftrightarrow> u < u'" "fixed_digits 10 3 u = fixed_digits 10 3 u' \<longleftrightarrow> u = u'"
    using fixed_digits_order[of y 4 y'] fixed_digits_order[of u 3 u'] Y Y' parts by auto
  have g: "(fixed_digits 10 2 a < fixed_digits 10 2 a' \<longleftrightarrow> a < a') \<and> (fixed_digits 10 2 a = fixed_digits 10 2 a' \<longleftrightarrow> a = a')"
      if "0 \<le> a" "a < 100" "0 \<le> a'" "a' < 100" for a a' :: int
    using fixed_digits_order[of a 2 a'] that by simp
  have iso: "toISOString t = fixed_digits 10 4 y @ ''-'' @ fixed_digits 10 2 m @ ''-'' @ fixed_digits 10 2 d @ ''T'' @ fixed_digits 10 2 h
      @ '':'' @ fixed_digits 10 2 mi @ '':'' @ fixed_digits 10 2 s @ ''.'' @ fixed_digits 10 3 u @ ''Z''"
    "toISOString t' = fixed_digits 10 4 y' @ ''-'' @ fixed_digits 10 2 m' @ ''-'' @ fixed_digits 10 2 d' @ ''T'' @ fixed_digits 10 2 h'
      @ '':'' @ fixed_digits 10 2 mi' @ '':'' @ fixed_digits 10 2 s' @ ''.'' @ fixed_digits 10 3 u' @ ''Z''"
    using c c' Y Y' by (simp_all add: toISOString_def year_str_def k_def k'_def h_def mi_def s_def u_def h'_def mi'_def s'_def u'_def Let_def)
  show ?thesis
    unfolding iso order clock
    using b(1-4) b'(1-4) hb parts
    by (simp add: lex_append f g del: fixed_digits.simps)
qed

lemma toISOString_le: "\<lbrakk>iso_time t; iso_time t'\<rbrakk> \<Longrightarrow> toISOString t \<le> toISOString t' \<longleftrightarrow> t \<le> t'"
  using toISOString_less[of t' t] by (simp add: not_less[symmetric])

end
