(* ===== verification/Retention.thy ===== *)
theory Retention
  imports LegalHold RunStore Webhooks IsoOrder
begin

text \<open>
  The retention policy and its sweep (\<^verbatim>\<open>src/web/lib/retentionStore.ts\<close>), over the run store, the audit log and
  the delivery log, held back by legal holds; and the three listings that sweep first (\<^verbatim>\<open>listRuns\<close>,
  \<^verbatim>\<open>queryAudit\<close>, \<^verbatim>\<open>listDeliveries\<close>).

  The theorems: a sweep removes exactly the records older than the policy allows, records under an open hold survive
  every sweep, and the audit chain still verifies after any mix of records, rotations, restarts and sweeps.
\<close>

section \<open>The policy\<close>

record SweepCounts =
  sc_runs :: jsnum
  sc_audit :: jsnum
  sc_webhook_deliveries :: jsnum

record RetentionPolicy =
  rt_runs_days :: int
  rt_audit_days :: int
  rt_webhook_deliveries_days :: int
  rt_updated_at :: string
  rt_last_sweep_at :: "string option"
  rt_last_sweep_counts :: "SweepCounts option"

definition DEFAULT_RETENTION :: RetentionPolicy where
  "DEFAULT_RETENTION = \<lparr>rt_runs_days = 0, rt_audit_days = 0, rt_webhook_deliveries_days = 0, rt_updated_at = toISOString 0,
     rt_last_sweep_at = None, rt_last_sweep_counts = None\<rparr>"

definition MAX_DAYS :: int where "MAX_DAYS = 3650"

text \<open>\<^verbatim>\<open>Number(x)\<close>; \<open>lit\<close> is its value on strings, arrays and objects.\<close>

definition js_Number :: "(json \<Rightarrow> jsnum) \<Rightarrow> json option \<Rightarrow> jsnum" where
  "js_Number lit x =
     (case x of None \<Rightarrow> NaN | Some JNull \<Rightarrow> Fin 0 | Some (JBool b) \<Rightarrow> Fin (if b then 1 else 0) | Some (JNum n) \<Rightarrow> n | Some j \<Rightarrow> lit j)"

definition num_trunc :: "jsnum \<Rightarrow> int" where
  "num_trunc x = (case x of Fin q \<Rightarrow> if 0 \<le> q then \<lfloor>q\<rfloor> else \<lceil>q\<rceil> | _ \<Rightarrow> 0)"

definition clampDays :: "(json \<Rightarrow> jsnum) \<Rightarrow> json option \<Rightarrow> int" where
  "clampDays lit input =
     (let n = js_Number lit input in
      if \<not> isFinite n then 0
      else if num_trunc n \<le> 0 then 0
      else if MAX_DAYS < num_trunc n then MAX_DAYS
      else num_trunc n)"

text \<open>\<^verbatim>\<open>Number(x) || 0\<close>\<close>

definition num_or_0 :: "(json \<Rightarrow> jsnum) \<Rightarrow> json option \<Rightarrow> jsnum" where
  "num_or_0 lit x = (if js_Number lit x = NaN then Fin 0 else js_Number lit x)"

definition dec_counts :: "(json \<Rightarrow> jsnum) \<Rightarrow> json option \<Rightarrow> SweepCounts option" where
  "dec_counts lit j =
     (case j of
        None \<Rightarrow> None
      | Some v \<Rightarrow> if falsy v \<or> \<not> is_object v then None
                  else Some \<lparr>sc_runs = num_or_0 lit (jfield v ''runs''), sc_audit = num_or_0 lit (jfield v ''audit''),
                             sc_webhook_deliveries = num_or_0 lit (jfield v ''webhook_deliveries'')\<rparr>)"

definition dec_retention :: "(json \<Rightarrow> jsnum) \<Rightarrow> json \<Rightarrow> RetentionPolicy" where
  "dec_retention lit j =
     \<lparr>rt_runs_days = clampDays lit (jfield j ''runs_days''), rt_audit_days = clampDays lit (jfield j ''audit_days''),
      rt_webhook_deliveries_days = clampDays lit (jfield j ''webhook_deliveries_days''),
      rt_updated_at = str_default (rt_updated_at DEFAULT_RETENTION) (jfield j ''updated_at''),
      rt_last_sweep_at = str_or_null (jfield j ''last_sweep_at''), rt_last_sweep_counts = dec_counts lit (jfield j ''last_sweep_counts'')\<rparr>"

definition enc_counts :: "SweepCounts option \<Rightarrow> json" where
  "enc_counts c = (case c of None \<Rightarrow> JNull
     | Some s \<Rightarrow> JObj [(''runs'', JNum (sc_runs s)), (''audit'', JNum (sc_audit s)), (''webhook_deliveries'', JNum (sc_webhook_deliveries s))])"

definition enc_retention :: "RetentionPolicy \<Rightarrow> json" where
  "enc_retention p = JObj
     [(''runs_days'', JNum (jsint (rt_runs_days p))), (''audit_days'', JNum (jsint (rt_audit_days p))),
      (''webhook_deliveries_days'', JNum (jsint (rt_webhook_deliveries_days p))), (''updated_at'', JStr (rt_updated_at p)),
      (''last_sweep_at'', jnullable (rt_last_sweep_at p)), (''last_sweep_counts'', enc_counts (rt_last_sweep_counts p))]"

definition rt_getPolicy :: "(json \<Rightarrow> jsnum) \<Rightarrow> json_file \<Rightarrow> RetentionPolicy res" where
  "rt_getPolicy lit = read_json DEFAULT_RETENTION (dec_retention lit)"

definition rt_writeAtomic :: "RetentionPolicy \<Rightarrow> json_file \<Rightarrow> json_file" where
  "rt_writeAtomic p f = Holds (enc_retention p)"

text \<open>An update leaves out the fields it does not change.\<close>

record PolicyUpdate =
  pu_runs_days :: "json option"
  pu_audit_days :: "json option"
  pu_webhook_deliveries_days :: "json option"

definition upd_days :: "(json \<Rightarrow> jsnum) \<Rightarrow> json option \<Rightarrow> int \<Rightarrow> int" where
  "upd_days lit u cur = (case u of None \<Rightarrow> cur | Some j \<Rightarrow> clampDays lit (Some j))"

definition rt_setPolicy :: "(json \<Rightarrow> jsnum) \<Rightarrow> int \<Rightarrow> PolicyUpdate \<Rightarrow> json_file \<Rightarrow> RetentionPolicy res \<times> json_file" where
  "rt_setPolicy lit now u f =
     (case rt_getPolicy lit f of
        Inl e \<Rightarrow> (Inl e, f)
      | Inr cur \<Rightarrow>
          (let next = cur\<lparr>rt_runs_days := upd_days lit (pu_runs_days u) (rt_runs_days cur),
                          rt_audit_days := upd_days lit (pu_audit_days u) (rt_audit_days cur),
                          rt_webhook_deliveries_days := upd_days lit (pu_webhook_deliveries_days u) (rt_webhook_deliveries_days cur),
                          rt_updated_at := toISOString now\<rparr>
           in (Inr next, rt_writeAtomic next f)))"

section \<open>The sweep\<close>

record sweep_world =
  rw_policy :: json_file
  rw_holds :: json_file
  rw_runs :: run_file
  rw_audit :: audit_store
  rw_hooks :: hook_world
  rw_last_auto :: int

text \<open>
  What one sweep reads from outside: the clock (0 the start, 1 to 3 the cutoffs of the three sweeps, 4 the throttle)
  and whether reading a file fails (0 the runs, 1 and 2 the two audit files, 3 the deliveries) for another reason than its absence.
\<close>

record sweep_env =
  se_lit :: "json \<Rightarrow> jsnum"
  se_clock :: clock
  se_fails :: "nat \<Rightarrow> bool"

definition cutoffIso :: "int \<Rightarrow> int \<Rightarrow> string" where
  "cutoffIso now days = toISOString (now - days * 86400000)"

text \<open>A file that does not parse is left alone.\<close>

definition sweep_file :: "('a \<Rightarrow> string) \<Rightarrow> bool \<Rightarrow> string \<Rightarrow> 'a list cast_file \<Rightarrow> nat res \<times> 'a list cast_file" where
  "sweep_file stamp fails cutoff f =
     (if fails then (Inl IoFault, f)
      else case f of
        NoFile \<Rightarrow> (Inr 0, f)
      | BadFile \<Rightarrow> (Inr 0, f)
      | Stored rows \<Rightarrow>
          (let keep = filter (\<lambda>r. cutoff \<le> stamp r) rows; removed = length rows - length keep
           in (Inr removed, if 0 < removed then Stored keep else f)))"

definition sweepRunsFile :: "sweep_env \<Rightarrow> int \<Rightarrow> sweep_world \<Rightarrow> nat res \<times> sweep_world" where
  "sweepRunsFile E days w =
     (case sweep_file run_created_at (se_fails E 0) (cutoffIso (se_clock E 1) days) (rw_runs w) of (n, f) \<Rightarrow> (n, w\<lparr>rw_runs := f\<rparr>))"

definition line_expired :: "string \<Rightarrow> audit_line \<Rightarrow> bool" where
  "line_expired cutoff l = (case l of Line ev \<Rightarrow> ae_ts ev < cutoff | Junk \<Rightarrow> False)"

definition sweep_lines :: "string \<Rightarrow> audit_line list \<Rightarrow> audit_line list" where
  "sweep_lines cutoff ls = filter (\<lambda>l. \<not> line_expired cutoff l) ls"

definition sweepAuditFiles :: "sweep_env \<Rightarrow> int \<Rightarrow> sweep_world \<Rightarrow> nat res \<times> sweep_world" where
  "sweepAuditFiles E days w =
     (let cutoff = cutoffIso (se_clock E 2) days;
          a = rw_audit w;
          a1 = a\<lparr>au_primary := sweep_lines cutoff (au_primary a)\<rparr>;
          a2 = a1\<lparr>au_rolled := sweep_lines cutoff (au_rolled a)\<rparr>
      in if se_fails E 1 then (Inl IoFault, w)
         else if se_fails E 2 then (Inl IoFault, w\<lparr>rw_audit := a1\<rparr>)
         else (Inr (length (au_primary a) - length (au_primary a2) + (length (au_rolled a) - length (au_rolled a2))), w\<lparr>rw_audit := a2\<rparr>))"

definition sweepWebhookDeliveriesFile :: "sweep_env \<Rightarrow> int \<Rightarrow> sweep_world \<Rightarrow> nat res \<times> sweep_world" where
  "sweepWebhookDeliveriesFile E days w =
     (case sweep_file da_delivered_at (se_fails E 3) (cutoffIso (se_clock E 3) days) (hw_log (rw_hooks w)) of
        (n, f) \<Rightarrow> (n, w\<lparr>rw_hooks := rw_hooks w\<lparr>hw_log := f\<rparr>\<rparr>))"

text \<open>One of the three groups: nothing when its policy is off, skipped under a hold, swept otherwise. The result is the
  count and the holds it was skipped for.\<close>

definition sweep_group ::
  "int \<Rightarrow> LegalHold list \<Rightarrow> (int \<Rightarrow> sweep_world \<Rightarrow> nat res \<times> sweep_world) \<Rightarrow> sweep_world \<Rightarrow> (nat \<times> LegalHold list) res \<times> sweep_world" where
  "sweep_group days holds sweep w =
     (if 0 < days then
        (if holds \<noteq> [] then (Inr (0, holds), w)
         else (case sweep days w of (n, w') \<Rightarrow> (map_sum id (\<lambda>k. (k, [])) n, w')))
      else (Inr (0, []), w))"

definition seq_res :: "('w \<Rightarrow> 'a res \<times> 'w) \<Rightarrow> ('a \<Rightarrow> 'w \<Rightarrow> 'b res \<times> 'w) \<Rightarrow> 'w \<Rightarrow> 'b res \<times> 'w" where
  "seq_res f g w = (case f w of (Inl e, w') \<Rightarrow> (Inl e, w') | (Inr x, w') \<Rightarrow> g x w')"

record SweepResult =
  sw_ran_at :: string
  sw_policy :: RetentionPolicy
  sw_counts :: SweepCounts
  sw_skipped_runs :: "LegalHold list"
  sw_skipped_audit :: "LegalHold list"
  sw_skipped_deliveries :: "LegalHold list"

definition record_sweep :: "sweep_env \<Rightarrow> RetentionPolicy \<Rightarrow> nat \<times> LegalHold list \<Rightarrow> nat \<times> LegalHold list \<Rightarrow> nat \<times> LegalHold list
    \<Rightarrow> sweep_world \<Rightarrow> SweepResult res \<times> sweep_world" where
  "record_sweep E policy runs audit deliveries w =
     (let counts = \<lparr>sc_runs = jsint (int (fst runs)), sc_audit = jsint (int (fst audit)), sc_webhook_deliveries = jsint (int (fst deliveries))\<rparr>;
          persisted = policy\<lparr>rt_last_sweep_at := Some (toISOString (se_clock E 0)), rt_last_sweep_counts := Some counts\<rparr>
      in (Inr \<lparr>sw_ran_at = toISOString (se_clock E 0), sw_policy = persisted, sw_counts = counts, sw_skipped_runs = snd runs,
               sw_skipped_audit = snd audit, sw_skipped_deliveries = snd deliveries\<rparr>,
          w\<lparr>rw_policy := rt_writeAtomic persisted (rw_policy w)\<rparr>))"

definition sweep_groups :: "sweep_env \<Rightarrow> RetentionPolicy \<Rightarrow> LegalHold list \<Rightarrow> LegalHold list \<Rightarrow> LegalHold list \<Rightarrow> sweep_world \<Rightarrow> SweepResult res \<times> sweep_world" where
  "sweep_groups E policy runHolds auditHolds webhookHolds =
     seq_res (sweep_group (rt_runs_days policy) runHolds (sweepRunsFile E)) (\<lambda>runs.
     seq_res (sweep_group (rt_audit_days policy) auditHolds (sweepAuditFiles E)) (\<lambda>audit.
     seq_res (sweep_group (rt_webhook_deliveries_days policy) webhookHolds (sweepWebhookDeliveriesFile E))
       (record_sweep E policy runs audit)))"

definition runRetentionSweep :: "sweep_env \<Rightarrow> sweep_world \<Rightarrow> SweepResult res \<times> sweep_world" where
  "runRetentionSweep E w =
     (case (rt_getPolicy (se_lit E) (rw_policy w), holdsBlocking [Sc_runs, Sc_user_data] (rw_holds w),
            holdsBlocking [Sc_audit] (rw_holds w), holdsBlocking [Sc_webhook_deliveries] (rw_holds w)) of
        (Inr policy, Inr runHolds, Inr auditHolds, Inr webhookHolds) \<Rightarrow> sweep_groups E policy runHolds auditHolds webhookHolds w
      | _ \<Rightarrow> (Inl IoFault, w))"

definition AUTO_SWEEP_INTERVAL_MS :: int where "AUTO_SWEEP_INTERVAL_MS = 3600000"

definition maybeAutoSweep :: "sweep_env \<Rightarrow> sweep_world \<Rightarrow> SweepResult option res \<times> sweep_world" where
  "maybeAutoSweep E w =
     (case rt_getPolicy (se_lit E) (rw_policy w) of
        Inl e \<Rightarrow> (Inl e, w)
      | Inr p \<Rightarrow>
          if rt_runs_days p = 0 \<and> rt_audit_days p = 0 \<and> rt_webhook_deliveries_days p = 0 then (Inr None, w)
          else if se_clock E 4 - rw_last_auto w < AUTO_SWEEP_INTERVAL_MS then (Inr None, w)
          else (case runRetentionSweep E (w\<lparr>rw_last_auto := se_clock E 4\<rparr>) of
                  (Inl e, w') \<Rightarrow> (Inr None, w')
                | (Inr r, w') \<Rightarrow> (Inr (Some r), w')))"

text \<open>The listings ignore an exception of the sweep.\<close>

definition listRuns :: "sweep_env \<Rightarrow> sweep_world \<Rightarrow> SavedRun list res \<times> sweep_world" where
  "listRuns E w = (let w' = snd (maybeAutoSweep E w) in (map_sum id (sort_desc run_created_at) (rs_readStore (rw_runs w')), w'))"

definition listDeliveries :: "sweep_env \<Rightarrow> int \<Rightarrow> string option \<Rightarrow> bool option \<Rightarrow> sweep_world \<Rightarrow> DeliveryAttempt list res \<times> sweep_world" where
  "listDeliveries E limit sub status w =
     (let w' = snd (maybeAutoSweep E w) in (map_sum id (deliveries_page limit sub status) (readLog (rw_hooks w')), w'))"

definition sweepAndQueryAudit :: "sweep_env \<Rightarrow> QueryInput \<Rightarrow> sweep_world \<Rightarrow> (AuditEvent list \<times> nat \<times> int \<times> int) \<times> sweep_world" where
  "sweepAndQueryAudit E q w = (let w' = snd (maybeAutoSweep E w) in (queryAudit q (rw_audit w'), w'))"

section \<open>What a sweep leaves alone\<close>

lemma js_Number_num [simp]: "js_Number lit (Some (JNum n)) = n"
  by (simp add: js_Number_def)

lemma num_trunc_int [simp]: "num_trunc (jsint n) = n"
  by (simp add: num_trunc_def)

lemma clampDays_range: "0 \<le> clampDays lit x \<and> clampDays lit x \<le> MAX_DAYS"
  by (auto simp: clampDays_def Let_def MAX_DAYS_def)

definition days_ok :: "int \<Rightarrow> bool" where
  "days_ok d \<longleftrightarrow> 0 \<le> d \<and> d \<le> MAX_DAYS"

definition counts_ok :: "SweepCounts option \<Rightarrow> bool" where
  "counts_ok c \<longleftrightarrow> (case c of None \<Rightarrow> True | Some s \<Rightarrow> sc_runs s \<noteq> NaN \<and> sc_audit s \<noteq> NaN \<and> sc_webhook_deliveries s \<noteq> NaN)"

definition retention_ok :: "RetentionPolicy \<Rightarrow> bool" where
  "retention_ok p \<longleftrightarrow> days_ok (rt_runs_days p) \<and> days_ok (rt_audit_days p) \<and> days_ok (rt_webhook_deliveries_days p)
     \<and> counts_ok (rt_last_sweep_counts p)"

lemma clampDays_int: "days_ok d \<Longrightarrow> clampDays lit (Some (JNum (jsint d))) = d"
  by (auto simp: clampDays_def days_ok_def MAX_DAYS_def Let_def)

lemma dec_enc_counts: "counts_ok c \<Longrightarrow> dec_counts lit (Some (enc_counts c)) = c"
  by (cases c) (auto simp: dec_counts_def enc_counts_def num_or_0_def counts_ok_def)

interpretation retention: json_codec "dec_retention lit" enc_retention DEFAULT_RETENTION retention_ok for lit
proof
  fix p assume "retention_ok p"
  then show "dec_retention lit (enc_retention p) = p"
    by (simp add: dec_retention_def enc_retention_def clampDays_int dec_enc_counts retention_ok_def str_default_def)
qed (simp add: retention_ok_def DEFAULT_RETENTION_def days_ok_def MAX_DAYS_def counts_ok_def)

lemma dec_retention_ok: "retention_ok (dec_retention lit j)"
  using clampDays_range by (auto simp: retention_ok_def dec_retention_def days_ok_def counts_ok_def dec_counts_def num_or_0_def split: option.splits)

lemma rt_getPolicy_ok: "rt_getPolicy lit f = Inr p \<Longrightarrow> retention_ok p"
  using dec_retention_ok retention.wf_dflt by (auto simp: rt_getPolicy_def read_json_def split: json_file.splits)

text \<open>The contract of an operation that leaves a part of the world alone, whether it returns or throws.\<close>

locale leaves_alone =
  fixes view :: "sweep_world \<Rightarrow> 'v" and f :: "sweep_world \<Rightarrow> 'a res \<times> sweep_world"
  assumes kept: "view (snd (f w)) = view w"
begin

lemma then_kept:
  assumes "\<And>x w. view (snd (g x w)) = view w"
  shows "view (snd (seq_res f g w)) = view w"
  using kept[of w] assms by (cases "f w"; cases "fst (f w)") (auto simp: seq_res_def)

end

lemma leaves_seq: "\<lbrakk>leaves_alone view f; \<And>x. leaves_alone view (g x)\<rbrakk> \<Longrightarrow> leaves_alone view (seq_res f g)"
  using leaves_alone.then_kept unfolding leaves_alone_def by metis

lemma leaves_group: "holds \<noteq> [] \<or> leaves_alone view (f days) \<Longrightarrow> leaves_alone view (sweep_group days holds f)"
  by (auto simp: leaves_alone_def sweep_group_def split_beta)

lemma sweep_frames:
  "leaves_alone rw_holds (sweepRunsFile E d)" "leaves_alone rw_audit (sweepRunsFile E d)" "leaves_alone rw_hooks (sweepRunsFile E d)"
  "leaves_alone rw_holds (sweepAuditFiles E d)" "leaves_alone rw_runs (sweepAuditFiles E d)" "leaves_alone rw_hooks (sweepAuditFiles E d)"
  "leaves_alone rw_holds (sweepWebhookDeliveriesFile E d)" "leaves_alone rw_runs (sweepWebhookDeliveriesFile E d)"
  "leaves_alone rw_audit (sweepWebhookDeliveriesFile E d)"
  by (auto simp: leaves_alone_def sweepRunsFile_def sweepAuditFiles_def sweepWebhookDeliveriesFile_def split_beta Let_def)

lemma record_frames:
  "leaves_alone rw_holds (record_sweep E p r a d)" "leaves_alone rw_runs (record_sweep E p r a d)"
  "leaves_alone rw_audit (record_sweep E p r a d)" "leaves_alone rw_hooks (record_sweep E p r a d)"
  by (simp_all add: leaves_alone_def record_sweep_def Let_def)

lemma groups_frames:
  "leaves_alone rw_holds (sweep_groups E p rh ah dh)"
  "rh \<noteq> [] \<Longrightarrow> leaves_alone rw_runs (sweep_groups E p rh ah dh)"
  "ah \<noteq> [] \<Longrightarrow> leaves_alone rw_audit (sweep_groups E p rh ah dh)"
  "dh \<noteq> [] \<Longrightarrow> leaves_alone rw_hooks (sweep_groups E p rh ah dh)"
  unfolding sweep_groups_def
  by (auto intro!: leaves_seq leaves_group sweep_frames record_frames)

interpretation sweep_holds: leaves_alone rw_holds "runRetentionSweep E"
  by unfold_locales (auto simp: runRetentionSweep_def leaves_alone.kept[OF groups_frames(1)] split: sum.splits)

lemma sweep_skips:
  "holdsBlocking [Sc_runs, Sc_user_data] (rw_holds w) = Inr (h # hs) \<Longrightarrow> rw_runs (snd (runRetentionSweep E w)) = rw_runs w"
  "holdsBlocking [Sc_audit] (rw_holds w) = Inr (h # hs) \<Longrightarrow> rw_audit (snd (runRetentionSweep E w)) = rw_audit w"
  "holdsBlocking [Sc_webhook_deliveries] (rw_holds w) = Inr (h # hs) \<Longrightarrow> rw_hooks (snd (runRetentionSweep E w)) = rw_hooks w"
  by (auto simp: runRetentionSweep_def leaves_alone.kept[OF groups_frames(2)] leaves_alone.kept[OF groups_frames(3)]
      leaves_alone.kept[OF groups_frames(4)] split: sum.splits)

section \<open>Held records\<close>

datatype sweep_op = SwSweep sweep_env | SwAuto sweep_env | SwPolicy "json \<Rightarrow> jsnum" int PolicyUpdate | SwHold hold_op

fun sweep_exec :: "sweep_op \<Rightarrow> sweep_world \<Rightarrow> sweep_world" where
  "sweep_exec (SwSweep E) w = snd (runRetentionSweep E w)"
| "sweep_exec (SwAuto E) w = snd (maybeAutoSweep E w)"
| "sweep_exec (SwPolicy lit t u) w = w\<lparr>rw_policy := snd (rt_setPolicy lit t u (rw_policy w))\<rparr>"
| "sweep_exec (SwHold p) w = w\<lparr>rw_holds := hold_exec p (rw_holds w)\<rparr>"

definition sweep_spares :: "string \<Rightarrow> sweep_op \<Rightarrow> bool" where
  "sweep_spares i p = (case p of SwHold q \<Rightarrow> spares i q | _ \<Rightarrow> True)"

text \<open>The records a scope covers, as far as the sweep can delete them.\<close>

definition same_records :: "LegalHoldScope \<Rightarrow> sweep_world \<Rightarrow> sweep_world \<Rightarrow> bool" where
  "same_records sc w0 w =
     (case sc of
        Sc_runs \<Rightarrow> rw_runs w = rw_runs w0
      | Sc_user_data \<Rightarrow> rw_runs w = rw_runs w0
      | Sc_audit \<Rightarrow> rw_audit w = rw_audit w0
      | Sc_webhook_deliveries \<Rightarrow> hw_log (rw_hooks w) = hw_log (rw_hooks w0))"

definition held_inv :: "string \<Rightarrow> LegalHoldScope \<Rightarrow> sweep_world \<Rightarrow> sweep_world \<Rightarrow> bool" where
  "held_inv i sc w0 w \<longleftrightarrow> hold_blocks i [sc] (rw_holds w) \<and> same_records sc w0 w"

lemma hold_blocks_mono: "hold_blocks i ss f \<Longrightarrow> set ss \<subseteq> set ss' \<Longrightarrow> hold_blocks i ss' f"
  unfolding hold_blocks_def by blast

lemma blocking_Cons:
  assumes "hold_blocks i ss f"
  obtains h hs where "holdsBlocking ss f = Inr (h # hs)"
  using hold_blocks_blocking[OF assms] by (metis list.set_cases)

lemma sweep_held:
  assumes "held_inv i sc w0 w"
  shows "held_inv i sc w0 (snd (runRetentionSweep E w))"
proof -
  have b: "hold_blocks i [sc] (rw_holds w)" and s: "same_records sc w0 w" using assms by (auto simp: held_inv_def)
  have "same_records sc w0 (snd (runRetentionSweep E w))"
  proof (cases sc)
    case Sc_runs
    then have "hold_blocks i [Sc_runs, Sc_user_data] (rw_holds w)" using hold_blocks_mono[OF b] by simp
    then show ?thesis using Sc_runs s by (elim blocking_Cons) (simp add: same_records_def sweep_skips(1))
  next
    case Sc_user_data
    then have "hold_blocks i [Sc_runs, Sc_user_data] (rw_holds w)" using hold_blocks_mono[OF b] by simp
    then show ?thesis using Sc_user_data s by (elim blocking_Cons) (simp add: same_records_def sweep_skips(1))
  next
    case Sc_audit
    with b s show ?thesis by (auto elim!: blocking_Cons simp: same_records_def sweep_skips(2))
  next
    case Sc_webhook_deliveries
    with b s show ?thesis by (auto elim!: blocking_Cons simp: same_records_def sweep_skips(3))
  qed
  with b show ?thesis by (simp add: held_inv_def sweep_holds.kept)
qed

lemma auto_sweep_cases:
  "snd (maybeAutoSweep E w) = w \<or> snd (maybeAutoSweep E w) = snd (runRetentionSweep E (w\<lparr>rw_last_auto := se_clock E 4\<rparr>))"
  by (auto simp: maybeAutoSweep_def split: sum.splits prod.splits)

lemma held_inv_frame:
  "held_inv i sc w0 (w\<lparr>rw_last_auto := t\<rparr>) = held_inv i sc w0 w" "held_inv i sc w0 (w\<lparr>rw_policy := f\<rparr>) = held_inv i sc w0 w"
  by (auto simp: held_inv_def same_records_def split: LegalHoldScope.splits)

lemma sweep_exec_held: "sweep_spares i p \<Longrightarrow> held_inv i sc w0 w \<Longrightarrow> held_inv i sc w0 (sweep_exec p w)"
proof (cases p)
  case (SwSweep E)
  assume "held_inv i sc w0 w"
  then show ?thesis using SwSweep sweep_held by simp
next
  case (SwAuto E)
  assume "held_inv i sc w0 w"
  then show ?thesis
    using SwAuto auto_sweep_cases[of E w] sweep_held[of i sc w0 "w\<lparr>rw_last_auto := se_clock E 4\<rparr>" E] by (auto simp: held_inv_frame)
next
  case (SwPolicy lit t u)
  assume "held_inv i sc w0 w"
  then show ?thesis using SwPolicy by (simp add: held_inv_frame)
next
  case (SwHold q)
  assume "sweep_spares i p" "held_inv i sc w0 w"
  then show ?thesis
    using SwHold hold_exec_blocks[of i q "[sc]" "rw_holds w"]
    by (auto simp: sweep_spares_def held_inv_def same_records_def split: LegalHoldScope.splits)
qed

interpretation held_run: preserved sweep_exec "sweep_spares i" "held_inv i sc w0"
  by unfold_locales (rule sweep_exec_held)

section \<open>The chain after a sweep\<close>

definition swept_log :: "string \<Rightarrow> audit_store \<Rightarrow> audit_store" where
  "swept_log cutoff a = a\<lparr>au_primary := sweep_lines cutoff (au_primary a), au_rolled := sweep_lines cutoff (au_rolled a)\<rparr>"

lemma sweepAuditFiles_log:
  "\<not> se_fails E 2 \<Longrightarrow> rw_audit (snd (sweepAuditFiles E days w)) = rw_audit w
     \<or> rw_audit (snd (sweepAuditFiles E days w)) = swept_log (cutoffIso (se_clock E 2) days) (rw_audit w)"
  by (simp add: sweepAuditFiles_def swept_log_def Let_def)

lemma group_log:
  assumes "\<not> se_fails E 2"
  shows "rw_audit (snd (sweep_group days holds (sweepAuditFiles E) w)) = rw_audit w
    \<or> (\<exists>c. rw_audit (snd (sweep_group days holds (sweepAuditFiles E) w)) = swept_log c (rw_audit w))"
  using sweepAuditFiles_log[OF assms] by (auto simp: sweep_group_def split_beta)

lemma seq_cases:
  obtains e where "seq_res f g w = (Inl e, snd (f w))" | x where "fst (f w) = Inr x" "seq_res f g w = g x (snd (f w))"
  by (cases "f w"; cases "fst (f w)") (auto simp: seq_res_def)

lemma sweep_log:
  assumes "\<not> se_fails E 2"
  shows "rw_audit (snd (runRetentionSweep E w)) = rw_audit w \<or> (\<exists>c. rw_audit (snd (runRetentionSweep E w)) = swept_log c (rw_audit w))"
proof -
  let ?ok = "\<lambda>w'. rw_audit w' = rw_audit w \<or> (\<exists>c. rw_audit w' = swept_log c (rw_audit w))"
  have "?ok (snd (sweep_groups E p rh ah dh w))" for p rh ah dh
  proof -
    let ?g1 = "sweep_group (rt_runs_days p) rh (sweepRunsFile E)" and ?g2 = "sweep_group (rt_audit_days p) ah (sweepAuditFiles E)"
      and ?g3 = "sweep_group (rt_webhook_deliveries_days p) dh (sweepWebhookDeliveriesFile E)"
    have a1: "rw_audit (snd (?g1 w)) = rw_audit w" by (rule leaves_alone.kept[OF leaves_group]) (simp add: sweep_frames)
    have a3: "rw_audit (snd (seq_res ?g3 (record_sweep E p r a) v)) = rw_audit v" for r a v
      by (rule leaves_alone.kept[OF leaves_seq[OF leaves_group]]) (simp_all add: sweep_frames record_frames)
    have a2: "?ok (snd (?g2 (snd (?g1 w))))" using group_log[OF assms, of "rt_audit_days p" ah "snd (?g1 w)"] a1 by simp
    have a23: "?ok (snd (seq_res ?g2 (\<lambda>a. seq_res ?g3 (record_sweep E p r a)) (snd (?g1 w))))" for r
      using a2 by (rule_tac seq_cases[of ?g2 "\<lambda>a. seq_res ?g3 (record_sweep E p r a)" "snd (?g1 w)"]) (simp_all add: a3)
    show ?thesis
      unfolding sweep_groups_def using a1 a23
      by (rule_tac seq_cases[of ?g1 "\<lambda>r. seq_res ?g2 (\<lambda>a. seq_res ?g3 (record_sweep E p r a))" w]) simp_all
  qed
  then show ?thesis by (auto simp: runRetentionSweep_def split: sum.splits)
qed

lemma sweep_lines_append: "sweep_lines c (xs @ ys) = sweep_lines c xs @ sweep_lines c ys"
  by (simp add: sweep_lines_def)

lemma sweep_lines_events: "sweep_lines c (map Line evs) = map Line (filter (\<lambda>e. \<not> ae_ts e < c) evs)"
  by (simp add: sweep_lines_def filter_map comp_def line_expired_def)

text \<open>In a log in the order of its timestamps, the sweep cuts off a prefix.\<close>

lemma sorted_filter_drop:
  assumes "sorted (map ae_ts evs)"
  shows "\<exists>n. filter (\<lambda>e. \<not> ae_ts e < c) evs = drop n evs"
  using assms
proof (induction evs)
  case Nil
  then show ?case by simp
next
  case (Cons e evs)
  show ?case
  proof (cases "ae_ts e < c")
    case True
    with Cons obtain n where "filter (\<lambda>e. \<not> ae_ts e < c) (e # evs) = drop n evs" by auto
    then show ?thesis by (intro exI[of _ "Suc n"]) simp
  next
    case False
    with Cons.prems have "\<forall>x \<in> set (e # evs). \<not> ae_ts x < c" by auto
    then show ?thesis by (intro exI[of _ 0]) (simp add: filter_id_conv)
  qed
qed

lemma swept_inv:
  assumes "au_inv H k a" "sorted (map ae_ts (readAllLines a))"
  shows "au_inv H k (swept_log c a)" "\<exists>n. readAllLines (swept_log c a) = drop n (readAllLines a)"
proof -
  from assms(1) obtain evs p where i: "au_rolled a @ au_primary a = map Line evs" "chained H k p evs" "length p = 64"
      "au_primary a = [] \<longrightarrow> evs = []" "case au_last_hash a of None \<Rightarrow> evs = [] \<longrightarrow> p = GENESIS_PREV | Some h \<Rightarrow> h = tip p evs"
      and key: "32 \<le> length k" "au_key_file a = Some k" "au_key_cache a = Some k \<or> au_key_cache a = None"
    by (auto simp: au_inv_def)
  have "sorted (map ae_ts evs)" using assms(2) readAllLines_map[OF i(1)] by simp
  from sorted_filter_drop[OF this] obtain n where n: "filter (\<lambda>e. \<not> ae_ts e < c) evs = drop n evs" by blast
  have lines: "sweep_lines c (au_rolled a) @ sweep_lines c (au_primary a) = map Line (drop n evs)"
    unfolding sweep_lines_append[symmetric] i(1) sweep_lines_events n ..
  have rd: "readAllLines (swept_log c a) = drop n evs"
    by (rule readAllLines_map) (simp add: swept_log_def lines)
  have empty: "drop n evs = []" if "sweep_lines c (au_primary a) = []"
  proof (cases "au_primary a = []")
    case True
    with i(4) show ?thesis by simp
  next
    case False
    then obtain ls y where y: "au_primary a = ls @ [y]" by (cases "au_primary a" rule: rev_cases) auto
    with i(1) have "map Line evs = (au_rolled a @ ls) @ [y]" by simp
    then obtain e where l: "au_primary a = ls @ [Line e]" "evs \<noteq> []" "last evs = e"
      using y by (metis Nil_is_map_conv last_map last_snoc snoc_eq_iff_butlast)
    with that have "ae_ts e < c" by (auto simp: sweep_lines_append sweep_lines_def line_expired_def split: if_splits)
    then have "last evs \<notin> set (drop n evs)" using l(3) unfolding n[symmetric] by simp
    then show ?thesis using l(2) by (metis drop_all last_drop last_in_set leI)
  qed
  let ?p = "if drop n evs = [] \<and> au_last_hash a = None then GENESIS_PREV else tip p (take n evs)"
  have "tip (tip p (take n evs)) (drop n evs) = tip p evs"
    by (cases "drop n evs = []") (auto simp: tip_def last_drop)
  moreover have "length ?p = 64" using chained_tip64[OF chained_split(1)[OF i(2)] i(3)] by (simp add: GENESIS_PREV_def)
  moreover have "chained H k ?p (drop n evs)" using chained_split(2)[OF i(2)] by auto
  ultimately show "au_inv H k (swept_log c a)"
    unfolding au_inv_def using lines empty i(5) key
    by (auto simp: swept_log_def split: option.splits intro!: exI[of _ "drop n evs"] exI[of _ ?p])
  show "\<exists>n. readAllLines (swept_log c a) = drop n (readAllLines a)" using rd readAllLines_map[OF i(1)] by auto
qed

text \<open>
  The life of the log beside the sweeps: the operations of \<^verbatim>\<open>AuditLog\<close> and sweeps, each with the clock reading that
  orders them. \<open>log_inv t\<close>: the chain is sound, and its timestamps are in order and not after \<open>t\<close>.
\<close>

datatype log_op = LRecord bool string string RecordInput | LRotate bool | LRestart | LSweep sweep_env

fun log_exec :: "host \<Rightarrow> int \<times> log_op \<Rightarrow> sweep_world \<Rightarrow> sweep_world" where
  "log_exec H (t, LRecord io eid fresh input) w = w\<lparr>rw_audit := snd (recordAuditEvent H t eid fresh io input (rw_audit w))\<rparr>"
| "log_exec H (t, LRotate big) w = w\<lparr>rw_audit := au_exec H (ARotate big) (rw_audit w)\<rparr>"
| "log_exec H (t, LRestart) w = w\<lparr>rw_audit := au_exec H ARestart (rw_audit w)\<rparr>"
| "log_exec H (t, LSweep E) w = snd (runRetentionSweep E w)"

definition log_inv :: "host \<Rightarrow> string \<Rightarrow> int \<Rightarrow> sweep_world \<Rightarrow> bool" where
  "log_inv H k t w \<longleftrightarrow> au_inv H k (rw_audit w) \<and> sorted (map ae_ts (readAllLines (rw_audit w)))
     \<and> (\<forall>e \<in> set (readAllLines (rw_audit w)). ae_ts e \<le> toISOString t)"

text \<open>Nothing goes wrong with the files: an append succeeds, and a sweep can read \<^verbatim>\<open>audit.jsonl.1\<close>.\<close>

definition log_op_ok :: "log_op \<Rightarrow> bool" where
  "log_op_ok p = (case p of LRecord io eid fresh input \<Rightarrow> io | LSweep E \<Rightarrow> \<not> se_fails E 2 | _ \<Rightarrow> True)"

lemma record_ts:
  "readAllLines (snd (recordAuditEvent H t eid fresh True input st)) = readAllLines st @ [e] \<Longrightarrow> ae_ts e = toISOString t"
proof -
  assume *: "readAllLines (snd (recordAuditEvent H t eid fresh True input st)) = readAllLines st @ [e]"
  let ?a = "append_event H fresh True (audit_event H t eid input) st"
  obtain s2 where s2: "snd ?a = s2" "au_rolled s2 = au_rolled st" "au_primary s2 = au_primary st @ [Line (fst ?a)]"
    using record_event[of H fresh True "audit_event H t eid input" st] by auto
  then have "e = fst ?a" using readAllLines_append[OF s2(2,3)] * by (simp add: recordAuditEvent_def)
  then show "ae_ts e = toISOString t" by (auto simp: append_event_def audit_event_def Let_def split: prod.splits)
qed

lemma rotate_lines: "\<exists>n. readAllLines (maybeRotate big st) = drop n (readAllLines st)"
proof (cases "big \<and> MAX_LINES < length (au_primary st)")
  case True
  have "readAllLines (maybeRotate big st) = List.map_filter (\<lambda>l. case l of Line ev \<Rightarrow> Some ev | Junk \<Rightarrow> None) (au_primary st)"
    using True by (simp add: maybeRotate_def rotate_read_def rotate_write_def readAllLines_def)
  moreover have "drop (length (List.map_filter (\<lambda>l. case l of Line ev \<Rightarrow> Some ev | Junk \<Rightarrow> None) (au_rolled st))) (readAllLines st)
      = List.map_filter (\<lambda>l. case l of Line ev \<Rightarrow> Some ev | Junk \<Rightarrow> None) (au_primary st)"
    by (simp add: readAllLines_def map_filter_def)
  ultimately show ?thesis by metis
next
  case False
  then have "maybeRotate big st = st" by (auto simp: maybeRotate_def rotate_read_def rotate_write_def)
  then show ?thesis by (intro exI[of _ 0]) simp
qed

lemma log_inv_drop:
  assumes "au_inv H k (rw_audit w')" "readAllLines (rw_audit w') = drop n (readAllLines (rw_audit w))"
    "sorted (map ae_ts (readAllLines (rw_audit w)))" "\<forall>e \<in> set (readAllLines (rw_audit w)). ae_ts e \<le> toISOString t"
  shows "log_inv H k t w'"
  using assms by (auto simp: log_inv_def drop_map[symmetric] intro: sorted_wrt_drop dest: in_set_dropD)

lemma log_exec_inv:
  assumes "log_inv H k s w" "s \<le> t" "iso_time s" "iso_time t" "log_op_ok p" "\<And>m. length (host_hmac H k m) = 64"
  shows "log_inv H k t (log_exec H (t, p) w)"
proof -
  have i: "au_inv H k (rw_audit w)" "sorted (map ae_ts (readAllLines (rw_audit w)))"
      "\<forall>e \<in> set (readAllLines (rw_audit w)). ae_ts e \<le> toISOString t"
    using assms(1) toISOString_le[OF assms(3,4)] assms(2) by (auto simp: log_inv_def)
  show ?thesis
  proof (cases p)
    case (LRecord io eid fresh input)
    then have io: io using assms(5) by (simp add: log_op_ok_def)
    obtain e where e: "readAllLines (snd (recordAuditEvent H t eid fresh True input (rw_audit w))) = readAllLines (rw_audit w) @ [e]"
      using recorded_line[of H t eid fresh input "rw_audit w"] by metis
    have "au_inv H k (au_exec H (ARecord t eid fresh input) (rw_audit w))" by (rule exec_inv[OF assms(6) i(1)])
    with e record_ts[OF e] i io show ?thesis by (auto simp: LRecord log_inv_def sorted_append)
  next
    case (LRotate big)
    have "au_inv H k (au_exec H (ARotate big) (rw_audit w))" by (rule exec_inv[OF assms(6) i(1)])
    with i rotate_lines[of big "rw_audit w"] show ?thesis by (auto simp: LRotate intro: log_inv_drop)
  next
    case LRestart
    have "au_inv H k (au_exec H ARestart (rw_audit w))" by (rule exec_inv[OF assms(6) i(1)])
    with i show ?thesis by (auto simp: LRestart log_inv_def readAllLines_def)
  next
    case (LSweep E)
    with assms(5) have "\<not> se_fails E 2" by (simp add: log_op_ok_def)
    from sweep_log[OF this, of w] show ?thesis
    proof (elim disjE exE)
      assume "rw_audit (snd (runRetentionSweep E w)) = rw_audit w"
      with i show ?thesis by (simp add: LSweep log_inv_def)
    next
      fix c assume c: "rw_audit (snd (runRetentionSweep E w)) = swept_log c (rw_audit w)"
      with swept_inv[OF i(1,2), of c] i show ?thesis by (auto simp: LSweep intro: log_inv_drop)
    qed
  qed
qed

lemma log_run_inv:
  assumes "\<And>m. length (host_hmac H k m) = 64"
  shows "\<lbrakk>log_inv H k s w; sorted (s # map fst ps); list_all iso_time (s # map fst ps); list_all (log_op_ok \<circ> snd) ps\<rbrakk> \<Longrightarrow>
    \<exists>t. log_inv H k t (fold (log_exec H) ps w)"
proof (induction ps arbitrary: s w)
  case Nil
  then show ?case by auto
next
  case (Cons tp ps)
  obtain t p where tp: "tp = (t, p)" by fastforce
  from Cons.prems have "log_inv H k t (log_exec H (t, p) w)"
    by (intro log_exec_inv[OF _ _ _ _ _ assms]) (auto simp: tp)
  with Cons.IH[of t "log_exec H (t, p) w"] Cons.prems show ?case by (auto simp: tp)
qed

section \<open>Examples\<close>

definition sample_senv :: "int \<Rightarrow> sweep_env" where
  "sample_senv t = \<lparr>se_lit = (\<lambda>_. NaN), se_clock = (\<lambda>_. t), se_fails = (\<lambda>_. False)\<rparr>"

definition sample_retention :: RetentionPolicy where
  "sample_retention = DEFAULT_RETENTION\<lparr>rt_runs_days := 1, rt_audit_days := 1\<rparr>"

definition sample_sweep :: sweep_world where
  "sample_sweep = \<lparr>rw_policy = Holds (enc_retention sample_retention), rw_holds = Absent,
     rw_runs = Stored [sample_run ''r1'' 0, sample_run ''r2'' 172800000], rw_audit = au_new (replicate 32 (CHR ''k'')),
     rw_hooks = sample_hooks, rw_last_auto = 0\<rparr>"

lemma sample_policy_read: "rt_getPolicy lit (Holds (enc_retention sample_retention)) = Inr sample_retention"
  using retention.dec_enc[of sample_retention lit]
  by (simp add: rt_getPolicy_def sample_retention_def DEFAULT_RETENTION_def retention_ok_def days_ok_def MAX_DAYS_def counts_ok_def)

definition sample_ct :: "SavedRun \<Rightarrow> int" where
  "sample_ct r = (if run_id r = ''r1'' then 0 else 172800000)"

lemma sample_sweep_reads:
  "rt_getPolicy lit (rw_policy sample_sweep) = Inr sample_retention" "ss \<noteq> [] \<Longrightarrow> holdsBlocking ss (rw_holds sample_sweep) = Inr []"
  by (simp_all add: sample_sweep_def sample_policy_read holdsBlocking_def listActiveHolds_def lh_readAll_def)

definition full_runs :: "SavedRun list" where
  "full_runs = map (\<lambda>n. ensureTags (sample_run (replicate n (CHR ''x'')) (int n))) [0..<MAX_RUNS]"

section \<open>Properties\<close>

text \<open>C9: An open matter keeps its records: as long as the hold on a scope is not released, no sequence of sweeps, automatic
  sweeps, policy changes, new holds and releases of other holds changes the records of that scope.\<close>

theorem held_records_survive_sweeps:
  assumes "openHold t i input (rw_holds w) = (Inr row, f)" "sc \<in> set (known_scopes (oh_scopes input))" "list_all (sweep_spares i) ps"
  shows "same_records sc w (fold sweep_exec ps (w\<lparr>rw_holds := f\<rparr>))"
proof -
  have "hold_blocks i [sc] f" using openHold_blocks[OF assms(1)] assms(2) by auto
  then have "held_inv i sc w (w\<lparr>rw_holds := f\<rparr>)" by (auto simp: held_inv_def same_records_def split: LegalHoldScope.splits)
  from held_run.run[OF assms(3) this] show ?thesis by (simp add: held_inv_def)
qed

theorem held_records_survive_sweeps_witness:
  "\<exists>row f. openHold 0 ''h1'' sample_matter (rw_holds sample_sweep) = (Inr row, f)
    \<and> same_records Sc_runs sample_sweep (fold sweep_exec [SwSweep (sample_senv 172800000), SwAuto (sample_senv 172800000),
        SwHold (HRelease 1 \<lparr>rl_id = ''h2'', rl_released_by = [], rl_released_reason = ''done''\<rparr>), SwSweep (sample_senv 172800000)]
        (sample_sweep\<lparr>rw_holds := f\<rparr>))"
proof -
  obtain row f where o: "openHold 0 ''h1'' sample_matter (rw_holds sample_sweep) = (Inr row, f)"
    using sample_hold by (auto simp: sample_sweep_def)
  show ?thesis
    by (intro exI conjI, rule o, rule held_records_survive_sweeps[OF o]) (simp_all add: sample_scopes sweep_spares_def spares_def)
qed

text \<open>A sweep removes exactly the expired runs: when nothing holds the runs back, it keeps those created within the policy's
  number of days before the sweep and no others, reports how many it removed, and a second sweep at the same time removes nothing.\<close>

theorem retention_sweep_exact:
  assumes "runRetentionSweep E w = (Inr res, w')" "rt_getPolicy (se_lit E) (rw_policy w) = Inr p" "0 < rt_runs_days p"
    and "holdsBlocking [Sc_runs, Sc_user_data] (rw_holds w) = Inr []" "rw_runs w = Stored rs"
    and "\<forall>r \<in> set rs. iso_time (ct r) \<and> run_created_at r = toISOString (ct r)"
    and "cutoff = se_clock E 1 - rt_runs_days p * DAY_MS" "iso_time cutoff"
  shows "rw_runs w' = Stored (filter (\<lambda>r. cutoff \<le> ct r) rs)
    \<and> sc_runs (sw_counts res) = jsint (int (length (filter (\<lambda>r. ct r < cutoff) rs)))
    \<and> fst (sweepRunsFile E (rt_runs_days p) w') = (if se_fails E 0 then Inl IoFault else Inr 0)"
proof -
  let ?keep = "filter (\<lambda>r. cutoff \<le> ct r) rs" and ?c = "cutoffIso (se_clock E 1) (rt_runs_days p)"
  have keep: "filter (\<lambda>r. ?c \<le> run_created_at r) rs = ?keep"
    using assms(6-8) by (intro filter_cong refl) (auto simp: cutoffIso_def toISOString_le DAY_MS_def)
  have len: "length rs - length ?keep = length (filter (\<lambda>r. ct r < cutoff) rs)"
    using sum_length_filter_compl[of "\<lambda>r. cutoff \<le> ct r" rs] by (simp add: not_le)
  have again: "filter (\<lambda>r. ?c \<le> run_created_at r) ?keep = ?keep" unfolding keep[symmetric] by simp
  from assms(1,2,4) obtain ah dh where g: "sweep_groups E p [] ah dh w = (Inr res, w')"
    by (auto simp: runRetentionSweep_def split: sum.splits)
  define w1 where "w1 = w\<lparr>rw_runs := Stored ?keep\<rparr>"
  have g1: "sweep_group (rt_runs_days p) [] (sweepRunsFile E) w = (Inr (length rs - length ?keep, []), w1)" and nf: "\<not> se_fails E 0"
  proof -
    show nf: "\<not> se_fails E 0"
    proof
      assume "se_fails E 0"
      then have "sweep_group (rt_runs_days p) [] (sweepRunsFile E) w = (Inl IoFault, w)"
        using assms(3) by (simp add: sweep_group_def sweepRunsFile_def sweep_file_def)
      then show False using g by (simp add: sweep_groups_def seq_res_def)
    qed
    have "?keep = rs" if "length rs - length ?keep = 0" using that by (metis diff_is_0_eq filter_id_conv length_filter_less not_le)
    then show "sweep_group (rt_runs_days p) [] (sweepRunsFile E) w = (Inr (length rs - length ?keep, []), w1)"
      using assms(3,5) nf keep by (auto simp: sweep_group_def sweepRunsFile_def sweep_file_def Let_def w1_def)
  qed
  let ?g2 = "sweep_group (rt_audit_days p) ah (sweepAuditFiles E)" and ?g3 = "sweep_group (rt_webhook_deliveries_days p) dh (sweepWebhookDeliveriesFile E)"
  have f2: "rw_runs (snd (?g2 v)) = rw_runs v" and f3: "rw_runs (snd (?g3 v)) = rw_runs v" for v
    by (rule leaves_alone.kept[OF leaves_group], simp add: sweep_frames)+
  from g g1 have "rw_runs w' = rw_runs w1 \<and> sc_runs (sw_counts res) = jsint (int (length rs - length ?keep))"
    using f2[of w1] f3[of "snd (?g2 w1)"]
    by (auto simp: sweep_groups_def record_sweep_def seq_res_def Let_def split: prod.splits sum.splits)
  with len again nf show ?thesis by (auto simp: w1_def sweepRunsFile_def sweep_file_def split_beta)
qed

theorem retention_sweep_exact_witness:
  "\<exists>res w'. runRetentionSweep (sample_senv 172800000) sample_sweep = (Inr res, w')
    \<and> rw_runs w' = Stored [sample_run ''r2'' 172800000] \<and> sc_runs (sw_counts res) = jsint 1"
proof -
  obtain res w' where r: "runRetentionSweep (sample_senv 172800000) sample_sweep = (Inr res, w')"
    by (simp add: runRetentionSweep_def sample_sweep_reads)
      (simp add: sweep_groups_def seq_res_def sweep_group_def sample_retention_def DEFAULT_RETENTION_def sweepRunsFile_def sweepAuditFiles_def
        sweep_file_def record_sweep_def sample_sweep_def sample_senv_def Let_def split_beta)
  have "rw_runs w' = Stored (filter (\<lambda>r. 86400000 \<le> sample_ct r) [sample_run ''r1'' 0, sample_run ''r2'' 172800000])
    \<and> sc_runs (sw_counts res) = jsint (int (length (filter (\<lambda>r. sample_ct r < 86400000) [sample_run ''r1'' 0, sample_run ''r2'' 172800000])))
    \<and> fst (sweepRunsFile (sample_senv 172800000) (rt_runs_days sample_retention) w') = (if se_fails (sample_senv 172800000) 0 then Inl IoFault else Inr 0)"
    by (rule retention_sweep_exact[OF r])
      (simp_all add: sample_sweep_reads, simp_all add: sample_sweep_def sample_retention_def sample_senv_def
        sample_ct_def sample_run_def iso_time_def DAY_MS_def)
  with r show ?thesis by (simp add: sample_ct_def sample_run_def)
qed

text \<open>C12: Sweeps do not cost the audit log its evidence. Start from an empty log and run recorded events, rotations, restarts and retention sweeps one
  after the other, in the order of the clock. As long as every append succeeds and every sweep can read the rotated file (each failure breaks the chain, see
  \<open>failed_append_breaks_chain\<close>), the chain verifies, with every event that is left checked and none skipped.\<close>

theorem audit_chain_survives_sweeps:
  assumes "\<And>m. length (host_hmac H k m) = 64" "32 \<le> length k" "rw_audit w = au_new k"
    and "sorted (map fst ps)" "list_all iso_time (map fst ps)" "list_all (log_op_ok \<circ> snd) ps"
  shows "let st = rw_audit (fold (log_exec H) ps w); r = fst (verifyChain H fresh st)
    in cv_ok r \<and> cv_checked r = length (readAllLines st) \<and> cv_skipped r = 0"
proof (cases ps)
  case Nil
  then show ?thesis using inv_verifies[OF au_new_inv[OF assms(2)]] assms(3) by (simp add: Let_def)
next
  case (Cons tp ps')
  have "log_inv H k (fst tp) w" using au_new_inv[OF assms(2)] assms(3) by (simp add: log_inv_def au_new_def readAllLines_def map_filter_def)
  from log_run_inv[OF assms(1) this, of ps] assms(4-6) Cons obtain t where "log_inv H k t (fold (log_exec H) ps w)" by auto
  then have "au_inv H k (rw_audit (fold (log_exec H) ps w))" by (simp add: log_inv_def)
  from inv_verifies[OF this] show ?thesis by (simp add: Let_def)
qed

theorem audit_chain_survives_sweeps_witness:
  "let st = rw_audit (fold (log_exec chain_host) [(0, LRecord True ''a'' [] sample_input), (172800000, LRecord True ''b'' [] sample_input),
         (172800000, LSweep (sample_senv 172800000)), (172800001, LRestart), (172800002, LRecord True ''c'' [] sample_input)] sample_sweep);
       r = fst (verifyChain chain_host [] st)
   in cv_ok r \<and> cv_checked r = length (readAllLines st) \<and> cv_skipped r = 0"
  by (rule audit_chain_survives_sweeps[where k = "replicate 32 (CHR ''k'')"])
    (simp_all add: sample_sweep_def sample_senv_def log_op_ok_def iso_time_def)

text \<open>C35: The bound on the number of runs pays no attention to holds or owners: when the store is full, saving a run through one key
  deletes the oldest run, although another key owns it and a legal hold covers all runs.\<close>

theorem eviction_ignores_hold_and_owner:
  assumes "rs_readStore f = Inr rs" "length rs = MAX_RUNS" "distinct (rid # map run_id rs)"
    and "r \<in> set rs" "\<forall>x \<in> set rs. x \<noteq> r \<longrightarrow> run_created_at r < run_created_at x" "run_created_at r < toISOString now"
    and "hold_blocks i [Sc_runs] holds" "nr_created_by_key_id input = Some (k_id key)"
    and "\<not> acl_allowed (decideRunMutation (run_created_by_key_id r) key)"
  shows "r \<notin> set (run_rows (snd (createRun now rid input f)))"
proof -
  obtain run where run: "snd (createRun now rid input f) = rs_writeStore (take MAX_RUNS (sort_desc run_created_at (rs @ [run]))) f"
      "run_created_at run = toISOString now" "run_id run = rid"
    using assms(1,2) by (auto simp: createRun_def Let_def)
  let ?s = "sort_desc run_created_at (rs @ [run])"
  have ids: "distinct (map run_id (rs @ [run]))" using assms(3) run(3) by auto
  then have same: "x = r" if "x \<in> set ?s" "run_id x = run_id r" for x
    using that assms(3,4) run(3) by (auto simp: distinct_map inj_on_def image_iff)
  have len: "length ?s = Suc MAX_RUNS" using assms(2) by simp
  have "distinct ?s"
    using distinct_card[OF conjunct1[OF ids[unfolded distinct_map]]] by (intro card_distinct) simp
  moreover have "run_created_at (?s ! MAX_RUNS) \<le> run_created_at x" if "x \<in> set (take MAX_RUNS ?s)" for x
    using that sort_desc_props(3)[of run_created_at "rs @ [run]"] len
    by (auto simp: in_set_conv_nth sorted_wrt_iff_nth_less)
  moreover have "?s ! MAX_RUNS \<in> set ?s" using len by (intro nth_mem) simp
  moreover have "?s ! MAX_RUNS \<notin> set (take MAX_RUNS ?s)"
    using \<open>distinct ?s\<close> len by (auto simp: in_set_conv_nth nth_eq_iff_index_eq)
  ultimately have "r \<notin> set (take MAX_RUNS ?s)"
    using assms(5,6) run(2) by fastforce
  then have "run_id x \<noteq> run_id r" if "x \<in> set (take MAX_RUNS ?s)" for x
    using same[of x] that by (metis in_set_takeD)
  then show ?thesis using run(1) by (auto simp: image_iff) (metis ensureTags_simps(1))
qed

theorem eviction_ignores_hold_and_owner_witness:
  "\<exists>holds input. hold_blocks ''h1'' [Sc_runs] holds \<and> nr_created_by_key_id input = Some (k_id sample_key)
    \<and> ensureTags (sample_run [] 0) \<in> set (run_rows (Stored full_runs))
    \<and> ensureTags (sample_run [] 0) \<notin> set (run_rows (snd (createRun 1000 ''new'' input (Stored full_runs))))"
proof -
  obtain row f where o: "openHold 0 ''h1'' sample_matter Absent = (Inr row, f)" using sample_hold by blast
  have h: "hold_blocks ''h1'' [Sc_runs] f" using openHold_blocks[OF o] by (simp add: sample_scopes)
  define input where "input = \<lparr>nr_label = ''SPY'', nr_ticker = ''SPY'', nr_lookback_days = 90, nr_tags = JNull, nr_notes = None, nr_pinned = None,
     nr_pinned_at = None, nr_created_by_key_id = Some ''k1'', nr_created_by_key_label = None, nr_payload = sample_payload\<rparr>"
  have iso: "toISOString 0 < toISOString (int n)" if "0 < n" "n \<le> 1000" for n
    using that toISOString_less[of 0 "int n"] by (simp add: iso_time_def)
  have rd: "rs_readStore (Stored full_runs) = Inr full_runs" by (simp add: rs_readStore_def full_runs_def comp_def)
  have key: "nr_created_by_key_id input = Some (k_id sample_key)" by (simp add: input_def sample_key_def)
  have mem: "ensureTags (sample_run [] 0) \<in> set full_runs" by (auto simp: full_runs_def MAX_RUNS_def intro!: image_eqI[of _ _ 0])
  have ids: "map run_id full_runs = map (\<lambda>n. replicate n (CHR ''x'')) [0..<MAX_RUNS]" by (simp add: full_runs_def)
  have "''new'' \<noteq> replicate n (CHR ''x'')" for n by (cases n) simp_all
  then have dist: "distinct (''new'' # map run_id full_runs)" unfolding ids by (auto simp: distinct_map inj_on_def)
  have old: "\<forall>x \<in> set full_runs. x \<noteq> ensureTags (sample_run [] 0) \<longrightarrow> run_created_at (ensureTags (sample_run [] 0)) < run_created_at x"
  proof (intro ballI impI)
    fix x assume "x \<in> set full_runs" "x \<noteq> ensureTags (sample_run [] 0)"
    then obtain n where n: "n < MAX_RUNS" "x = ensureTags (sample_run (replicate n (CHR ''x'')) (int n))" by (auto simp: full_runs_def)
    with \<open>x \<noteq> _\<close> have "n \<noteq> 0" by (cases n) auto
    with n iso[of n] show "run_created_at (ensureTags (sample_run [] 0)) < run_created_at x" by (simp add: MAX_RUNS_def)
  qed
  have len: "length full_runs = MAX_RUNS" by (simp add: full_runs_def)
  have now: "run_created_at (ensureTags (sample_run [] 0)) < toISOString 1000" using iso[of 1000] by simp
  have "\<not> acl_allowed (decideRunMutation (run_created_by_key_id (ensureTags (sample_run [] 0))) sample_key)"
    by (simp add: decideRunMutation_def acl_allowed_def sample_key_def)
  from eviction_ignores_hold_and_owner[OF rd len dist mem old now h key this] show ?thesis
    using h key rd mem by (intro exI conjI) (simp_all add: run_rows_def)
qed

end
