(* ===== verification/AdminKeys.thy ===== *)
theory AdminKeys
  imports AdminRoute DualControl Invites KeyReports RouteAllowlist RateLimit MonthlyQuota KeyUsage Idempotency JsNumber Retention
begin

text \<open>
  The routes by which administrators manage API keys (\<^verbatim>\<open>src/web/app/api/admin/keys\<close>: minting, listing, role, label, expiry, address and route lists,
  suspension, rotation, revocation, limits and reports) and the approvals that suspension and revocation need
  (\<^verbatim>\<open>src/web/app/api/admin/approvals\<close>). Each route is its gate followed by its handler; they act on the key file, the approvals, the limits and the
  activity feed.

  The theorems on these routes are in \<^verbatim>\<open>TwoPerson\<close>. Writes of the key file, of the approvals and of the limits succeed.
\<close>

section \<open>State and environment\<close>

record keys_world =
  kw_admin :: admin_world
  kw_dual :: dc_store
  kw_activity :: activity_file
  kw_rate :: rl_store
  kw_quota :: mq_store
  kw_usage :: "usage_state cast_file"
  kw_idem :: id_store

definition keys_of :: "keys_world \<Rightarrow> key_file" where
  "keys_of w = aw_keys (dw_auth (kw_admin w))"

definition set_keys :: "key_file \<Rightarrow> keys_world \<Rightarrow> keys_world" where
  "set_keys f w = w\<lparr>kw_admin := (kw_admin w)\<lparr>dw_auth := (dw_auth (kw_admin w))\<lparr>aw_keys := f\<rparr>\<rparr>\<rparr>"

text \<open>
  The environment of one call: the gate's, what is drawn (key id, secret, ids of the event and of the request, approval token), the seat
  limit and the default limits read, \<^verbatim>\<open>Number\<close> on strings, arrays and objects, and message and code of a file-system exception.
  The clock, after the gate's readings: 30 to 36 the second authentication and its audit line, 40 to 44 the approvals, 50 to 56 a further
  audit line, 58 and 59 the change, 60 to 66 the last authentication and audit line, 70 the view, 71 the activity.
\<close>

record keys_env =
  ke_admin :: admin_env
  ke_key_id :: string
  ke_secret :: string
  ke_event_id :: string
  ke_apr_id :: string
  ke_token :: string
  ke_seats :: int
  ke_rate_default :: "string option"
  ke_quota_default :: "string option"
  ke_number :: "json \<Rightarrow> jsnum"
  ke_fault :: string
  ke_fault_code :: "string option"

text \<open>\<open>kq_body\<close> is the parsed body, \<open>None\<close> where \<^verbatim>\<open>req.json()\<close> throws.\<close>

record keys_request =
  kq_headers :: headers
  kq_body :: "json option"
  kq_query :: "string \<Rightarrow> string option"

type_synonym keys_answer = "NextResponse res \<times> keys_world"

abbreviation ke_host :: "keys_env \<Rightarrow> host" where
  "ke_host E \<equiv> ae_host (ke_admin E)"

abbreviation ke_clock :: "keys_env \<Rightarrow> clock" where
  "ke_clock E \<equiv> ae_clock (ke_admin E)"

definition exn_message :: "keys_env \<Rightarrow> exn \<Rightarrow> string" where
  "exn_message E e = (case e of Thrown m \<Rightarrow> m | IoFault \<Rightarrow> ke_fault E)"

section \<open>What the routes share\<close>

definition keys_route ::
  "keys_env \<Rightarrow> keys_request \<Rightarrow> string \<Rightarrow> string \<Rightarrow> (keys_world \<Rightarrow> keys_answer) \<Rightarrow> keys_world \<Rightarrow> keys_answer" where
  "keys_route E q route meth handler w =
     (case route_admin (ke_admin E) (kq_headers q) route meth (kw_admin w) of
        (Inl e, aw) \<Rightarrow> (Inl e, w\<lparr>kw_admin := aw\<rparr>)
      | (Inr (Some denied), aw) \<Rightarrow> (Inr denied, w\<lparr>kw_admin := aw\<rparr>)
      | (Inr None, aw) \<Rightarrow> handler (w\<lparr>kw_admin := aw\<rparr>))"

text \<open>A handler authenticates again, from the reading \<open>n\<close> of the clock on.\<close>

definition again :: "nat \<Rightarrow> keys_env \<Rightarrow> keys_request \<Rightarrow> keys_world \<Rightarrow> StoredKey option res \<times> keys_world" where
  "again n E q w =
     (case admin_auth (later n (ke_admin E)) (Some (kq_headers q)) (kq_headers q) (kw_admin w) of (k, aw) \<Rightarrow> (k, w\<lparr>kw_admin := aw\<rparr>))"

definition keys_note ::
  "nat \<Rightarrow> keys_env \<Rightarrow> keys_request \<Rightarrow> string \<Rightarrow> string \<Rightarrow> int \<Rightarrow> StoredKey option \<Rightarrow> string \<Rightarrow> json option \<Rightarrow> keys_world \<Rightarrow> keys_world" where
  "keys_note n E q route meth status key reason details w =
     w\<lparr>kw_admin := admin_note (later n (ke_admin E)) (kq_headers q) route meth status key (Some reason) details (kw_admin w)\<rparr>"

definition bad_json :: NextResponse where
  "bad_json = err_response 400 ''bad_json'' ''request body must be valid JSON''"

definition key_not_found :: NextResponse where
  "key_not_found = err_response 404 ''not_found'' ''key not found''"

definition with_body :: "keys_request \<Rightarrow> (json \<Rightarrow> keys_world \<Rightarrow> keys_answer) \<Rightarrow> keys_world \<Rightarrow> keys_answer" where
  "with_body q k w = (case kq_body q of None \<Rightarrow> (Inr bad_json, w) | Some j \<Rightarrow> k j w)"

text \<open>The key must exist and not be revoked; \<open>msg\<close> is the message of the route for a revoked one.\<close>

definition with_key :: "string \<Rightarrow> string \<Rightarrow> (StoredKey \<Rightarrow> keys_world \<Rightarrow> keys_answer) \<Rightarrow> keys_world \<Rightarrow> keys_answer" where
  "with_key i msg k w =
     (case getKey i (keys_of w) of
        Inl e \<Rightarrow> (Inl e, w)
      | Inr None \<Rightarrow> (Inr key_not_found, w)
      | Inr (Some x) \<Rightarrow> if k_revoked x then (Inr (err_response 409 ''revoked'' msg), w) else k x w)"

text \<open>The \<^verbatim>\<open>catch\<close> around a change: an exception whose message starts with the code becomes a 400, with the code stripped from
  the message; without a code there is no \<^verbatim>\<open>catch\<close>.\<close>

definition strip_code :: "string \<Rightarrow> string \<Rightarrow> string" where
  "strip_code p m = (let r = drop (length p) m in if startsWith r '':'' then dropWhile js_ws (tl r) else m)"

fun caught :: "string option \<Rightarrow> exn \<Rightarrow> NextResponse res" where
  "caught (Some p) (Thrown m) = (if startsWith m p then Inr (err_response 400 p (strip_code p m)) else Inl (Thrown m))"
| "caught c e = Inl e"

definition with_change ::
  "string option \<Rightarrow> (key_file \<Rightarrow> StoredKey option res \<times> key_file) \<Rightarrow> (StoredKey \<Rightarrow> keys_world \<Rightarrow> keys_answer) \<Rightarrow> keys_world \<Rightarrow> keys_answer" where
  "with_change code upd k w =
     (case upd (keys_of w) of
        (Inl e, f) \<Rightarrow> (caught code e, set_keys f w)
      | (Inr None, f) \<Rightarrow> (Inr key_not_found, set_keys f w)
      | (Inr (Some u), f) \<Rightarrow> k u (set_keys f w))"

text \<open>The views of a key.\<close>

fun role_str :: "KeyRole \<Rightarrow> string" where
  "role_str Role_owner = ''owner''" | "role_str Role_admin = ''admin''" | "role_str Role_member = ''member''" | "role_str Role_viewer = ''viewer''"

definition scopes_json :: "Scope list \<Rightarrow> json" where
  "scopes_json ss = JArr (map (\<lambda>s. JStr (scope_str s)) ss)"

definition strings_json :: "string list \<Rightarrow> json" where
  "strings_json ss = JArr (map JStr ss)"

definition key_view_json :: "KeyView \<Rightarrow> (string \<times> json) list" where
  "key_view_json v =
     [(''id'', JStr (kv_id v)), (''label'', JStr (kv_label v)), (''prefix'', JStr (kv_prefix v)), (''scopes'', scopes_json (kv_scopes v)),
      (''role'', JStr (role_str (kv_role v))), (''effective_scopes'', scopes_json (kv_effective_scopes v)), (''created_at'', JStr (kv_created_at v)),
      (''last_used_at'', jnullable (kv_last_used_at v)), (''revoked'', JBool (kv_revoked v)), (''ip_allowlist'', strings_json (kv_ip_allowlist v)),
      (''route_allowlist'', strings_json (kv_route_allowlist v)), (''expires_at'', jnullable (kv_expires_at v)), (''expired'', JBool (kv_expired v)),
      (''suspended'', JBool (kv_suspended v)), (''suspended_at'', jnullable (kv_suspended_at v)), (''suspended_reason'', jnullable (kv_suspended_reason v))]"

definition view_json :: "keys_env \<Rightarrow> StoredKey \<Rightarrow> (string \<times> json) list" where
  "view_json E k = key_view_json (key_publicView (ke_host E) (ke_clock E 70) k)"

text \<open>The end of a change: a last authentication, for the audit line, and the view of the key.\<close>

definition changed ::
  "keys_env \<Rightarrow> keys_request \<Rightarrow> string \<Rightarrow> string \<Rightarrow> json option \<Rightarrow> StoredKey \<Rightarrow> keys_world \<Rightarrow> keys_answer" where
  "changed E q route reason details u w =
     (case again 60 E q w of
        (Inl e, w) \<Rightarrow> (Inl e, w)
      | (Inr k, w) \<Rightarrow> (Inr (json_response (JObj (view_json E u))), keys_note 60 E q route ''PUT'' 200 k reason details w))"

definition key_route :: "string \<Rightarrow> string \<Rightarrow> string" where
  "key_route i tail = ''/api/admin/keys/'' @ i @ tail"

text \<open>A route that shows one key.\<close>

definition show_key :: "keys_env \<Rightarrow> keys_request \<Rightarrow> string \<Rightarrow> string \<Rightarrow> (StoredKey \<Rightarrow> (string \<times> json) list) \<Rightarrow> keys_world \<Rightarrow> keys_answer" where
  "show_key E q i tail view = keys_route E q (key_route i tail) ''GET'' (\<lambda>w.
     case getKey i (keys_of w) of
       Inl e \<Rightarrow> (Inl e, w)
     | Inr None \<Rightarrow> (Inr key_not_found, w)
     | Inr (Some k) \<Rightarrow> (Inr (json_response (JObj ((''key_id'', JStr i) # view k))), w))"

section \<open>Role, label and expiry\<close>

definition role_GET :: "keys_env \<Rightarrow> keys_request \<Rightarrow> string \<Rightarrow> keys_world \<Rightarrow> keys_answer" where
  "role_GET E q i = show_key E q i ''/role'' (\<lambda>k. let v = key_publicView (ke_host E) (ke_clock E 70) k in
     [(''role'', JStr (role_str (kv_role v))), (''effective_scopes'', scopes_json (kv_effective_scopes v))])"

definition role_name :: "KeyRole option \<Rightarrow> string" where
  "role_name r = (case r of None \<Rightarrow> ''unset'' | Some r \<Rightarrow> role_str r)"

definition role_PUT :: "keys_env \<Rightarrow> keys_request \<Rightarrow> string \<Rightarrow> keys_world \<Rightarrow> keys_answer" where
  "role_PUT E q i = keys_route E q (key_route i ''/role'') ''PUT'' (with_body q (\<lambda>j w.
     case str_or_null (jfield j ''role'') of
       None \<Rightarrow> (Inr (err_response 400 ''bad_request'' ''role must be a string''), w)
     | Some raw \<Rightarrow>
         (let next = toLowerCase (trim raw) in
          if next \<notin> set (map fst ALL_ROLES)
          then (Inr (err_response 400 ''invalid_role'' (''role must be one of: '' @ join '', '' (map fst ALL_ROLES))), w)
          else with_key i ''cannot edit a revoked key'' (\<lambda>existing w.
            if i = ''env-admin'' then (Inr (err_response 409 ''forbidden_target'' ''cannot change role of the env admin''), w)
            else with_change (Some ''invalid_role'') (setKeyRole i next) (\<lambda>u w.
              changed E q (key_route i ''/role'') (''role:'' @ role_name (k_role existing) @ ''->'' @ role_name (k_role u)) None u w) w) w)))"

definition label_PUT :: "keys_env \<Rightarrow> keys_request \<Rightarrow> string \<Rightarrow> keys_world \<Rightarrow> keys_answer" where
  "label_PUT E q i = keys_route E q (key_route i ''/label'') ''PUT'' (with_body q (\<lambda>j w.
     case str_or_null (jfield j ''label'') of
       None \<Rightarrow> (Inr (err_response 400 ''bad_request'' ''label must be a string''), w)
     | Some raw \<Rightarrow>
         with_key i ''cannot edit a revoked key'' (\<lambda>existing w.
           if i = ''env-admin'' then (Inr (err_response 409 ''forbidden_target'' ''cannot rename the env admin''), w)
           else with_change (Some ''invalid_label'') (setKeyLabel i (Some raw)) (\<lambda>u w.
             changed E q (key_route i ''/label'') (''label:'' @ take 60 (k_label existing) @ ''->'' @ take 60 (k_label u)) None u w) w) w))"

definition expiry_GET :: "keys_env \<Rightarrow> keys_request \<Rightarrow> string \<Rightarrow> keys_world \<Rightarrow> keys_answer" where
  "expiry_GET E q i = show_key E q i ''/expiry'' (\<lambda>k. [(''expires_at'', jnullable (k_expires_at k))])"

text \<open>\<open>None\<close>: neither a string nor \<^verbatim>\<open>null\<close>.\<close>

definition expiry_arg :: "json option \<Rightarrow> string option option" where
  "expiry_arg raw = (case raw of Some JNull \<Rightarrow> Some None | Some (JStr s) \<Rightarrow> Some (if s = [] then None else Some s) | _ \<Rightarrow> None)"

definition or_null_text :: "string option \<Rightarrow> string" where
  "or_null_text s = (case s of None \<Rightarrow> ''null'' | Some x \<Rightarrow> x)"

definition expiry_PUT :: "keys_env \<Rightarrow> keys_request \<Rightarrow> string \<Rightarrow> keys_world \<Rightarrow> keys_answer" where
  "expiry_PUT E q i = keys_route E q (key_route i ''/expiry'') ''PUT'' (with_body q (\<lambda>j w.
     case expiry_arg (jfield j ''expires_at'') of
       None \<Rightarrow> (Inr (err_response 400 ''bad_request'' ''expires_at must be an ISO 8601 string or null''), w)
     | Some stamp \<Rightarrow>
         with_key i ''cannot edit a revoked key'' (\<lambda>existing.
           with_change (Some ''invalid_expiry'') (setKeyExpiry (ke_host E) (ke_clock E 58) i stamp) (\<lambda>u w.
             changed E q (key_route i ''/expiry'')
               (''expiry:'' @ or_null_text (k_expires_at existing) @ ''->'' @ or_null_text (k_expires_at u)) None u w)) w))"

section \<open>Address and route lists\<close>

text \<open>The elements of an array, \<open>None\<close> where one is not a string.\<close>

definition string_elems :: "json list \<Rightarrow> string option list" where
  "string_elems js = map (\<lambda>j. str_or_null (Some j)) js"

definition cidr_code :: "CidrError \<Rightarrow> string" where
  "cidr_code e = (case e of IpMatch.Bad_type \<Rightarrow> ''bad_type'' | Bad_cidr \<Rightarrow> ''bad_cidr'' | IpMatch.Too_many \<Rightarrow> ''too_many'')"

text \<open>The message of the first entry that is refused.\<close>

fun cidr_fault :: "string list \<Rightarrow> string option list \<Rightarrow> string" where
  "cidr_fault out [] = []"
| "cidr_fault out (None # es) = ''ip_allowlist entries must be strings''"
| "cidr_fault out (Some raw # es) =
     (if trim raw = [] then cidr_fault out es
      else case parseCidr (trim raw) of
        None \<Rightarrow> ''invalid CIDR or IP literal: '' @ raw
      | Some p \<Rightarrow>
          (let canon = cidrToString p in
           if canon \<in> set out then cidr_fault out es
           else if MAX_CIDR_ENTRIES < length (out @ [canon])
           then ''ip_allowlist exceeds maximum of '' @ int_str (int MAX_CIDR_ENTRIES) @ '' entries''
           else cidr_fault (out @ [canon]) es))"

definition ip_list_GET :: "keys_env \<Rightarrow> keys_request \<Rightarrow> string \<Rightarrow> keys_world \<Rightarrow> keys_answer" where
  "ip_list_GET E q i = show_key E q i ''/ip-allowlist'' (\<lambda>k.
     [(''ip_allowlist'', strings_json (case k_ip_allowlist k of None \<Rightarrow> [] | Some xs \<Rightarrow> xs)), (''max_entries'', JNum (jsint (int MAX_CIDR_ENTRIES)))])"

definition list_reason :: "string \<Rightarrow> string list option \<Rightarrow> string list \<Rightarrow> string" where
  "list_reason name old entries_out =
     name @ '':'' @ int_str (int (length (case old of None \<Rightarrow> [] | Some xs \<Rightarrow> xs))) @ ''->'' @ int_str (int (length entries_out))"

definition ip_list_PUT :: "keys_env \<Rightarrow> keys_request \<Rightarrow> string \<Rightarrow> keys_world \<Rightarrow> keys_answer" where
  "ip_list_PUT E q i = keys_route E q (key_route i ''/ip-allowlist'') ''PUT'' (with_body q (\<lambda>j w.
     let entries = map_option string_elems (as_array (jfield j ''ip_allowlist'')) in
     case canonicalizeCidrList entries of
       Inl e \<Rightarrow> (Inr (err_response 400 (cidr_code e)
           (case entries of None \<Rightarrow> ''ip_allowlist must be an array of strings'' | Some es \<Rightarrow> cidr_fault [] es)), w)
     | Inr entries_out \<Rightarrow>
         with_key i ''cannot edit a revoked key'' (\<lambda>existing.
           with_change None (setKeyIpAllowlist i entries_out) (\<lambda>u w.
             changed E q (key_route i ''/ip-allowlist'') (list_reason ''ip_allowlist'' (k_ip_allowlist existing) entries_out) None u w)) w))"

definition route_list_code :: "RouteAllowlistError \<Rightarrow> string" where
  "route_list_code e = (case e of R_bad_request \<Rightarrow> ''bad_request'' | R_too_many_entries \<Rightarrow> ''too_many_entries'')"

fun route_fault :: "host \<Rightarrow> string option list \<Rightarrow> string" where
  "route_fault H [] = []"
| "route_fault H (None # es) = ''each route_allowlist entry must be a string''"
| "route_fault H (Some raw # es) =
     (if MAX_ROUTE_ENTRY_LEN < length raw then ''route_allowlist entry exceeds '' @ int_str (int MAX_ROUTE_ENTRY_LEN) @ '' chars''
      else let s = normalizeEntry raw; shown = stringify H (JStr raw) in
        if s = [] then route_fault H es
        else if \<not> ALLOWED_CHARS s then ''invalid characters in route_allowlist entry: '' @ shown
        else if \<not> startsWith s V1_PREFIX \<and> s \<noteq> ''/api/v1'' then ''route_allowlist entries must start with '' @ V1_PREFIX @ '' (got '' @ shown @ '')''
        else if includesStr s ''//'' then ''route_allowlist entry has empty path segment: '' @ shown
        else route_fault H es)"

definition route_list_fault :: "host \<Rightarrow> RouteAllowlistError \<Rightarrow> string option list option option \<Rightarrow> string" where
  "route_list_fault H e input =
     (if e = R_too_many_entries then ''route_allowlist supports a maximum of '' @ int_str (int MAX_ROUTE_ENTRIES) @ '' entries''
      else case input of Some (Some es) \<Rightarrow> route_fault H es | _ \<Rightarrow> ''route_allowlist must be an array of path strings'')"

definition route_list_GET :: "keys_env \<Rightarrow> keys_request \<Rightarrow> string \<Rightarrow> keys_world \<Rightarrow> keys_answer" where
  "route_list_GET E q i = show_key E q i ''/route-allowlist'' (\<lambda>k.
     [(''route_allowlist'', strings_json (case k_route_allowlist k of None \<Rightarrow> [] | Some xs \<Rightarrow> xs)), (''max_entries'', JNum (jsint (int MAX_ROUTE_ENTRIES)))])"

definition route_list_arg :: "json option \<Rightarrow> string option list option option" where
  "route_list_arg j = (case j of None \<Rightarrow> None | Some JNull \<Rightarrow> None | Some v \<Rightarrow> Some (map_option string_elems (as_array (Some v))))"

definition route_list_PUT :: "keys_env \<Rightarrow> keys_request \<Rightarrow> string \<Rightarrow> keys_world \<Rightarrow> keys_answer" where
  "route_list_PUT E q i = keys_route E q (key_route i ''/route-allowlist'') ''PUT'' (\<lambda>w.
     if i = ''env-admin'' then (Inr (err_response 409 ''env_admin'' ''the env admin key cannot be route-restricted''), w)
     else with_body q (\<lambda>j w.
       let arg = route_list_arg (jfield j ''route_allowlist'') in
       case canonicalizeRouteList arg of
         Inl e \<Rightarrow> (Inr (err_response 400 (route_list_code e) (route_list_fault (ke_host E) e arg)), w)
       | Inr entries_out \<Rightarrow>
           with_key i ''cannot edit a revoked key'' (\<lambda>existing.
             with_change None (setKeyRouteAllowlist i entries_out) (\<lambda>u w.
               changed E q (key_route i ''/route-allowlist'') (list_reason ''route_allowlist'' (k_route_allowlist existing) entries_out) None u w)) w) w)"

section \<open>Minting, listing and rotating\<close>

definition keys_GET :: "keys_env \<Rightarrow> keys_request \<Rightarrow> keys_world \<Rightarrow> keys_answer" where
  "keys_GET E q = keys_route E q ''/api/admin/keys'' ''GET'' (\<lambda>w.
     (map_sum id (\<lambda>ks. json_response (JObj [(''keys'', JArr (map (\<lambda>k. JObj (view_json E k)) ks))])) (listKeys (keys_of w)), w))"

definition body_scopes :: "json \<Rightarrow> Scope list" where
  "body_scopes j = List.map_filter (\<lambda>s. if s = JStr ''read'' then Some S_read else if s = JStr ''trade'' then Some S_trade else None)
     (case as_array (jfield j ''scopes'') of None \<Rightarrow> [] | Some ss \<Rightarrow> ss)"

definition body_expiry :: "json \<Rightarrow> string option" where
  "body_expiry j = (case str_or_null (jfield j ''expires_at'') of Some s \<Rightarrow> if trim s \<noteq> [] then Some s else None | None \<Rightarrow> None)"

text \<open>The ellipsis of the text, a character outside the model's, is written as dots.\<close>

definition created_activity :: "StoredKey \<Rightarrow> ActivityInput" where
  "created_activity k =
     \<lparr>an_kind = ''key.created'', an_title = ''API key created '' @ [CHR 0xB7] @ '' '' @ k_label k,
      an_body = Some (''Scopes: '' @ (if k_scopes k = [] then ''none'' else join '', '' (map scope_str (k_scopes k))) @ ''. Prefix '' @ k_prefix k @ ''...''),
      an_href = Some ''/settings/keys''\<rparr>"

text \<open>The refusal of \<^verbatim>\<open>ensureSeatAvailable\<close>; an exception of the file system has no status and may have a code.\<close>

definition seat_refusal :: "keys_env \<Rightarrow> exn \<Rightarrow> NextResponse" where
  "seat_refusal E e =
     (let code = (case e of Thrown m \<Rightarrow> ''seat_limit'' | IoFault \<Rightarrow> if truthy (ke_fault_code E) then or_empty (ke_fault_code E) else ''seat_limit'');
          msg = exn_message E e
      in err_response 409 code (if msg = [] then ''no seats available'' else msg))"

definition keys_POST :: "keys_env \<Rightarrow> keys_request \<Rightarrow> keys_world \<Rightarrow> keys_answer" where
  "keys_POST E q = keys_route E q ''/api/admin/keys'' ''POST'' (with_body q (\<lambda>j w.
     let label = or_empty (str_or_null (jfield j ''label'')) in
     if trim label = [] then (Inr (err_response 400 ''bad_label'' ''label must be a non-empty string''), w)
     else if 80 < length label then (Inr (err_response 400 ''label_too_long'' ''label exceeds 80 chars''), w)
     else case ensureSeatAvailable (ke_seats E) (keys_of w) of
       Inl e \<Rightarrow> (Inr (seat_refusal E e), w)
     | Inr _ \<Rightarrow>
         (case createKey (ke_host E) (\<lambda>n. ke_clock E (58 + n)) (ke_key_id E) (ke_secret E)
                 \<lparr>cr_label = label, cr_scopes = body_scopes j, cr_expires_at = body_expiry j\<rparr> (keys_of w) of
            (Inl e, f) \<Rightarrow> (caught (Some ''invalid_expiry'') e, set_keys f w)
          | (Inr (key, secret), f) \<Rightarrow>
              (Inr (json_response (JObj (view_json E key @ [(''secret'', JStr secret)]))),
               (set_keys f w)\<lparr>kw_activity := recordSafe (ke_clock E 71) (ke_event_id E) (created_activity key) (kw_activity w)\<rparr>))))"

text \<open>\<^verbatim>\<open>grace_seconds\<close> is only checked.\<close>

definition bad_grace :: "keys_env \<Rightarrow> json option \<Rightarrow> bool" where
  "bad_grace E body =
     (case body of
        None \<Rightarrow> False
      | Some j \<Rightarrow>
          (case jfield j ''grace_seconds'' of
             None \<Rightarrow> False
           | Some v \<Rightarrow> (let g = js_Number (ke_number E) (Some v) in \<not> isFinite g \<or> num_lt g (jsint 0) \<or> num_lt (jsint (7 * 24 * 3600)) g)))"

definition rotated_activity :: "StoredKey \<Rightarrow> ActivityInput" where
  "rotated_activity k =
     \<lparr>an_kind = ''key.rotated'', an_title = ''Rotated API key '' @ [CHR 0xB7] @ '' '' @ k_label k,
      an_body = Some (k_prefix k @ '' '' @ [CHR 0xB7] @ '' scopes '' @ join '', '' (map scope_str (k_scopes k))), an_href = Some ''/settings/keys''\<rparr>"

definition rotate_POST :: "keys_env \<Rightarrow> keys_request \<Rightarrow> string \<Rightarrow> keys_world \<Rightarrow> keys_answer" where
  "rotate_POST E q i = keys_route E q (key_route i ''/rotate'') ''POST'' (\<lambda>w.
     if bad_grace E (kq_body q) then (Inr (err_response 400 ''invalid'' ''grace_seconds must be 0..604800''), w)
     else case rotateKey (ke_host E) (ke_clock E 58) (ke_secret E) i (keys_of w) of
       (Inl e, f) \<Rightarrow> (Inl e, set_keys f w)
     | (Inr None, f) \<Rightarrow> (Inr (err_response 404 ''not_rotatable'' ''key not found or revoked''), set_keys f w)
     | (Inr (Some (key, secret)), f) \<Rightarrow>
         (Inr (json_response (JObj (view_json E key @ [(''secret'', JStr secret)]))),
          (set_keys f w)\<lparr>kw_activity := recordSafe (ke_clock E 71) (ke_event_id E) (rotated_activity key) (kw_activity w)\<rparr>))"

section \<open>Two administrators\<close>

text \<open>Codes and messages of the refusals of \<^verbatim>\<open>dualControlStore.ts\<close>; a message that names the request is built from the row found.\<close>

definition dc_found :: "host \<Rightarrow> clock \<Rightarrow> (ApprovalRequest \<Rightarrow> bool) \<Rightarrow> dc_store \<Rightarrow> ApprovalRequest option" where
  "dc_found H c P st = (case fst (dc_loadState (c 0) st) of Inl e \<Rightarrow> None | Inr s \<Rightarrow> find P (expireSweep H (c 1) s))"

definition found_status :: "ApprovalRequest option \<Rightarrow> string" where
  "found_status r = ''request is '' @ (case r of None \<Rightarrow> [] | Some r \<Rightarrow> status_str (ar_status r))"

fun request_refusal :: "RequestInput \<Rightarrow> RequestError \<Rightarrow> string \<times> string" where
  "request_refusal input Bad_action = (''bad_action'', ''action must match <namespace>.<verb>'')"
| "request_refusal input Bad_target = (''bad_target'', ''target is required'')"
| "request_refusal input Bad_reason = (''bad_reason'', if trim (ri_reason input) = [] then ''reason is required''
     else ''reason must be <= '' @ int_str (int MAX_REASON_LEN) @ '' characters'')"
| "request_refusal input Bad_requester = (''bad_requester'', ''requested_by is required'')"

fun consume_refusal :: "ConsumeInput \<Rightarrow> ApprovalRequest option \<Rightarrow> ConsumeError \<Rightarrow> string \<times> string" where
  "consume_refusal input r C_missing_token = (''missing_token'', ''approval token required'')"
| "consume_refusal input r C_bad_token = (''bad_token'', ''approval token not recognised'')"
| "consume_refusal input r C_not_approved = (''not_approved'', found_status r)"
| "consume_refusal input r C_expired = (''expired'', ''approval token has expired'')"
| "consume_refusal input r C_action_mismatch = (''action_mismatch'',
     ''token was minted for '' @ (case r of None \<Rightarrow> [] | Some r \<Rightarrow> ar_action r) @ '', not '' @ ci_action input)"
| "consume_refusal input r C_target_mismatch = (''target_mismatch'', ''token was minted for a different target'')"
| "consume_refusal input r C_wrong_caller = (''wrong_caller'', ''approval tokens can only be redeemed by the original requester'')"

fun approve_refusal :: "ApprovalRequest option \<Rightarrow> ApproveError \<Rightarrow> string \<times> string" where
  "approve_refusal r A_not_found = (''not_found'', ''approval request not found'')"
| "approve_refusal r A_not_pending = (''not_pending'', found_status r)"
| "approve_refusal r A_expired = (''expired'', ''approval request has expired'')"
| "approve_refusal r A_self_approval = (''self_approval'', ''the requester cannot approve their own request'')"
| "approve_refusal r A_bad_approver = (''bad_approver'', ''approver is required'')"

fun cancel_refusal :: "ApprovalRequest option \<Rightarrow> CancelError \<Rightarrow> string \<times> string" where
  "cancel_refusal r X_not_found = (''not_found'', ''approval request not found'')"
| "cancel_refusal r X_not_cancellable = (''not_cancellable'', found_status r)"

definition refuse :: "int \<Rightarrow> string \<times> string \<Rightarrow> NextResponse" where
  "refuse status cm = err_response status (fst cm) (snd cm)"

definition consume_status :: "ConsumeError \<Rightarrow> int" where
  "consume_status e = (if e \<in> {C_missing_token, C_bad_token} then 401 else if e = C_expired then 410 else 409)"

definition pending_response :: "ApprovalRequest \<Rightarrow> NextResponse" where
  "pending_response r =
     \<lparr>rsp_status = 202, rsp_headers = [], rsp_body = JObj [(''pending_approval'', JObj (publicView r)),
        (''message'', JStr ''dual-control approval required. A second admin must approve, then retry with x-approval-token.'')]\<rparr>"

text \<open>The gate of a destructive change, in front of the change \<open>k\<close>. It is skipped in local mode and where the second authentication finds no key; without a
  token it files a request; with one it redeems it. \<open>extra\<close> is what the refused redemption adds to the details.\<close>

definition dual_gate ::
  "keys_env \<Rightarrow> keys_request \<Rightarrow> string \<Rightarrow> string \<Rightarrow> string \<Rightarrow> string \<Rightarrow> string \<Rightarrow> (string \<times> json) list \<Rightarrow> (keys_world \<Rightarrow> keys_answer)
   \<Rightarrow> keys_world \<Rightarrow> keys_answer" where
  "dual_gate E q route meth action target reason extra k w =
     (if \<not> truthy (ae_admin_key (ke_admin E)) then k w
      else case again 30 E q w of
        (Inl e, w) \<Rightarrow> (Inl e, w)
      | (Inr None, w) \<Rightarrow> k w
      | (Inr (Some caller), w) \<Rightarrow>
          (let c = (\<lambda>n. ke_clock E (40 + n)); token = kq_headers q ''x-approval-token'' in
           if \<not> truthy token then
             (let input = \<lparr>ri_action = action, ri_target = target, ri_reason = reason, ri_requested_by = k_id caller\<rparr> in
              case requestApproval (ke_host E) c (ke_apr_id E) input (kw_dual w) of
                (Inl e, d) \<Rightarrow> (Inl e, w\<lparr>kw_dual := d\<rparr>)
              | (Inr (Inl er), d) \<Rightarrow> (Inr (refuse 400 (request_refusal input er)), w\<lparr>kw_dual := d\<rparr>)
              | (Inr (Inr r), d) \<Rightarrow>
                  (Inr (pending_response r),
                   keys_note 30 E q route meth 202 (Some caller) (''dual_control:request:'' @ action)
                     (Some (JObj [(''request_id'', JStr (ar_id r)), (''target'', JStr target)])) (w\<lparr>kw_dual := d\<rparr>)))
           else
             (let input = \<lparr>ci_action = action, ci_target = target, ci_token = or_empty token, ci_caller = k_id caller\<rparr>;
                  found = dc_found (ke_host E) c (\<lambda>x. ar_token_hash x = Some (hashToken (or_empty token))) (kw_dual w) in
              case consumeApproval (ke_host E) c input (kw_dual w) of
                (Inl e, d) \<Rightarrow> (Inl e, w\<lparr>kw_dual := d\<rparr>)
              | (Inr (Inl er), d) \<Rightarrow>
                  (Inr (refuse (consume_status er) (consume_refusal input found er)),
                   keys_note 30 E q route meth (consume_status er) (Some caller) (''dual_control:consume:'' @ fst (consume_refusal input found er))
                     (Some (JObj ((''target'', JStr target) # extra))) (w\<lparr>kw_dual := d\<rparr>))
              | (Inr (Inr r), d) \<Rightarrow>
                  k (keys_note 50 E q route meth 200 (Some caller) (''dual_control:consume:'' @ action)
                       (Some (JObj [(''request_id'', JStr (ar_id r)), (''target'', JStr target), (''approved_by'', jnullable (ar_approved_by r))]))
                       (w\<lparr>kw_dual := d\<rparr>)))))"

definition revoke_reason :: "keys_request \<Rightarrow> string" where
  "revoke_reason q = (case kq_headers q ''x-reason'' of None \<Rightarrow> ''key revocation'' | Some r \<Rightarrow> r)"

definition key_DELETE :: "keys_env \<Rightarrow> keys_request \<Rightarrow> string \<Rightarrow> keys_world \<Rightarrow> keys_answer" where
  "key_DELETE E q i = keys_route E q (key_route i []) ''DELETE''
     (dual_gate E q (key_route i []) ''DELETE'' ''keys.revoke'' i (revoke_reason q) [] (\<lambda>w.
       case revokeKey i (keys_of w) of
         (Inl e, f) \<Rightarrow> (Inl e, set_keys f w)
       | (Inr False, f) \<Rightarrow> (Inr key_not_found, set_keys f w)
       | (Inr True, f) \<Rightarrow> (Inr (json_response (JObj [(''ok'', JBool True)])), set_keys f w)))"

definition suspend_GET :: "keys_env \<Rightarrow> keys_request \<Rightarrow> string \<Rightarrow> keys_world \<Rightarrow> keys_answer" where
  "suspend_GET E q i = show_key E q i ''/suspend'' (\<lambda>k.
     [(''suspended'', JBool (k_suspended k)), (''suspended_at'', jnullable (k_suspended_at k)), (''suspended_reason'', jnullable (k_suspended_reason k))])"

text \<open>The reason of the body: \<open>None\<close> where it is neither a string nor \<^verbatim>\<open>null\<close> nor missing.\<close>

definition suspend_reason :: "json \<Rightarrow> string option option" where
  "suspend_reason j = (case jfield j ''reason'' of None \<Rightarrow> Some None | Some JNull \<Rightarrow> Some None | Some (JStr s) \<Rightarrow> Some (Some s) | _ \<Rightarrow> None)"

definition suspend_action :: "bool \<Rightarrow> string" where
  "suspend_action susp = (if susp then ''keys.suspend'' else ''keys.unsuspend'')"

definition request_reason :: "keys_request \<Rightarrow> string option \<Rightarrow> string \<Rightarrow> string" where
  "request_reason q reason action =
     (case reason of Some r \<Rightarrow> r | None \<Rightarrow> (case kq_headers q ''x-reason'' of Some r \<Rightarrow> r | None \<Rightarrow> action @ '' requested''))"

definition suspended_name :: "StoredKey \<Rightarrow> string" where
  "suspended_name k = (if k_suspended k then ''suspended'' else ''active'')"

definition suspend_PUT :: "keys_env \<Rightarrow> keys_request \<Rightarrow> string \<Rightarrow> keys_world \<Rightarrow> keys_answer" where
  "suspend_PUT E q i = keys_route E q (key_route i ''/suspend'') ''PUT'' (with_body q (\<lambda>j w.
     case jfield j ''suspended'' of
       Some (JBool susp) \<Rightarrow>
         (case suspend_reason j of
            None \<Rightarrow> (Inr (err_response 400 ''bad_request'' ''reason must be a string or null''), w)
          | Some reason \<Rightarrow>
              with_key i ''cannot suspend a revoked key'' (\<lambda>existing w.
                if i = ''env-admin'' then (Inr (err_response 409 ''env_admin'' ''cannot suspend the env admin key''), w)
                else (let action = suspend_action susp in
                  dual_gate E q (key_route i ''/suspend'') ''PUT'' action i (request_reason q reason action) [(''action'', JStr action)]
                    (with_change None (setKeySuspended (ke_clock E 58) i susp reason) (\<lambda>u.
                      changed E q (key_route i ''/suspend'') (''suspend:'' @ suspended_name existing @ ''->'' @ suspended_name u)
                        (if truthy reason then Some (JObj [(''reason'', JStr (take 200 (or_empty reason)))]) else None) u)) w)) w)
     | _ \<Rightarrow> (Inr (err_response 400 ''bad_request'' ''suspended must be a boolean''), w)))"

text \<open>The approvals. Their gate is the shared one, which also admits sign-on sessions; \<open>h\<close> gets its answer and the key.\<close>

definition shared_route ::
  "keys_env \<Rightarrow> keys_request \<Rightarrow> string \<Rightarrow> string \<Rightarrow> (StoredKey option \<Rightarrow> keys_world \<Rightarrow> keys_answer) \<Rightarrow> keys_world \<Rightarrow> keys_answer" where
  "shared_route E q route meth handler w =
     (case requireAdmin (ke_admin E) (kq_headers q) route meth (kw_admin w) of
        (Inl e, aw) \<Rightarrow> (Inl e, w\<lparr>kw_admin := aw\<rparr>)
      | (Inr (Some denied, key), aw) \<Rightarrow> (Inr denied, w\<lparr>kw_admin := aw\<rparr>)
      | (Inr (None, key), aw) \<Rightarrow> handler key (w\<lparr>kw_admin := aw\<rparr>))"

definition APPROVALS_ROUTE :: string where "APPROVALS_ROUTE = ''/api/admin/approvals''"

definition VALID_STATUSES :: "ApprovalStatus list" where
  "VALID_STATUSES = [DualControl.Pending, Approved, Consumed, Cancelled, DualControl.Expired]"

definition approvals_GET :: "keys_env \<Rightarrow> keys_request \<Rightarrow> keys_world \<Rightarrow> keys_answer" where
  "approvals_GET E q = shared_route E q APPROVALS_ROUTE ''GET'' (\<lambda>key w.
     let param = kq_query q ''status''; status = (if truthy param then find (\<lambda>s. status_str s = or_empty param) VALID_STATUSES else None) in
     if truthy param \<and> status = None
     then (Inr (err_response 400 ''bad_request'' (''status must be one of '' @ join '', '' (map status_str VALID_STATUSES))), w)
     else case listRequests (ke_host E) (\<lambda>n. ke_clock E (40 + n)) status (kw_dual w) of
       (Inl e, d) \<Rightarrow> (Inl e, w\<lparr>kw_dual := d\<rparr>)
     | (Inr rows, d) \<Rightarrow> (Inr (json_response (JObj [(''requests'', JArr (map (\<lambda>r. JObj (publicView r)) rows))])), w\<lparr>kw_dual := d\<rparr>))"

definition body_text :: "json \<Rightarrow> string \<Rightarrow> string" where
  "body_text j k = or_empty (str_or_null (jfield j k))"

definition key_or_local :: "StoredKey option \<Rightarrow> string" where
  "key_or_local key = (case key of None \<Rightarrow> ''local'' | Some k \<Rightarrow> k_id k)"

definition approvals_POST :: "keys_env \<Rightarrow> keys_request \<Rightarrow> keys_world \<Rightarrow> keys_answer" where
  "approvals_POST E q = shared_route E q APPROVALS_ROUTE ''POST'' (\<lambda>key. with_body q (\<lambda>j w.
     let input = \<lparr>ri_action = body_text j ''action'', ri_target = body_text j ''target'', ri_reason = body_text j ''reason'',
                  ri_requested_by = key_or_local key\<rparr> in
     case requestApproval (ke_host E) (\<lambda>n. ke_clock E (40 + n)) (ke_apr_id E) input (kw_dual w) of
       (Inl e, d) \<Rightarrow> (Inl e, w\<lparr>kw_dual := d\<rparr>)
     | (Inr (Inl er), d) \<Rightarrow> (Inr (refuse 400 (request_refusal input er)), w\<lparr>kw_dual := d\<rparr>)
     | (Inr (Inr r), d) \<Rightarrow>
         (Inr \<lparr>rsp_status = 202, rsp_headers = [], rsp_body = JObj (publicView r)\<rparr>,
          keys_note 50 E q APPROVALS_ROUTE ''POST'' 202 key (''dual_control:request:'' @ ar_action r)
            (Some (JObj [(''request_id'', JStr (ar_id r)), (''target'', JStr (ar_target r))])) (w\<lparr>kw_dual := d\<rparr>))))"

definition approve_status :: "ApproveError \<Rightarrow> int" where
  "approve_status e = (if e = A_not_found then 404 else if e = A_self_approval then 403 else if e = A_expired then 410 else 409)"

definition approval_route :: "string \<Rightarrow> string \<Rightarrow> string" where
  "approval_route rid tail = APPROVALS_ROUTE @ ''/'' @ rid @ tail"

definition approve_POST :: "keys_env \<Rightarrow> keys_request \<Rightarrow> string \<Rightarrow> keys_world \<Rightarrow> keys_answer" where
  "approve_POST E q rid =
     (let route = approval_route rid ''/approve''; c = (\<lambda>n. ke_clock E (40 + n)) in
      shared_route E q route ''POST'' (\<lambda>key w.
        if \<not> truthy (map_option k_id key)
        then (Inr (err_response 409 ''no_second_admin''
               ''dual-control approvals require multi-admin mode (set SIGNALCLAW_ADMIN_KEY and use distinct admin keys)''), w)
        else case approveRequest (ke_host E) c (ke_token E) rid (or_empty (map_option k_id key)) (kw_dual w) of
          (Inl e, d) \<Rightarrow> (Inl e, w\<lparr>kw_dual := d\<rparr>)
        | (Inr (Inl er), d) \<Rightarrow>
            (let cm = approve_refusal (dc_found (ke_host E) c (\<lambda>x. ar_id x = rid) (kw_dual w)) er in
             (Inr (refuse (approve_status er) cm),
              keys_note 50 E q route ''POST'' (approve_status er) key (''dual_control:approve:'' @ fst cm) (Some (JObj [(''request_id'', JStr rid)]))
                (w\<lparr>kw_dual := d\<rparr>)))
        | (Inr (Inr (r, token)), d) \<Rightarrow>
            (Inr (json_response (JObj [(''request'', JObj (publicView r)), (''approval_token'', JStr token),
               (''approval_token_expires_at'', jnullable (ar_token_expires_at r))])),
             keys_note 50 E q route ''POST'' 200 key (''dual_control:approve:'' @ ar_action r)
               (Some (JObj [(''request_id'', JStr (ar_id r)), (''target'', JStr (ar_target r)), (''requested_by'', JStr (ar_requested_by r))]))
               (w\<lparr>kw_dual := d\<rparr>))))"

definition cancel_POST :: "keys_env \<Rightarrow> keys_request \<Rightarrow> string \<Rightarrow> keys_world \<Rightarrow> keys_answer" where
  "cancel_POST E q rid =
     (let route = approval_route rid ''/cancel''; c = (\<lambda>n. ke_clock E (40 + n)) in
      shared_route E q route ''POST'' (\<lambda>key w.
        case cancelRequest (ke_host E) c rid (key_or_local key) (kw_dual w) of
          (Inl e, d) \<Rightarrow> (Inl e, w\<lparr>kw_dual := d\<rparr>)
        | (Inr (Inl er), d) \<Rightarrow>
            (Inr (refuse (if er = X_not_found then 404 else 409) (cancel_refusal (dc_found (ke_host E) c (\<lambda>x. ar_id x = rid) (kw_dual w)) er)),
             w\<lparr>kw_dual := d\<rparr>)
        | (Inr (Inr r), d) \<Rightarrow>
            (Inr (json_response (JObj (publicView r))),
             keys_note 50 E q route ''POST'' 200 key (''dual_control:cancel:'' @ ar_action r)
               (Some (JObj [(''request_id'', JStr (ar_id r)), (''target'', JStr (ar_target r))])) (w\<lparr>kw_dual := d\<rparr>))))"

section \<open>Limits and reports\<close>

text \<open>A body that must be an object, and a field of it that must be a finite number or \<^verbatim>\<open>null\<close>.\<close>

definition with_limit ::
  "keys_request \<Rightarrow> string \<Rightarrow> NextResponse \<Rightarrow> (jsnum option \<Rightarrow> keys_world \<Rightarrow> keys_answer) \<Rightarrow> keys_world \<Rightarrow> keys_answer" where
  "with_limit q field bad k = with_body q (\<lambda>j w.
     if falsy j \<or> \<not> is_object j then (Inr (err_response 400 ''bad_body'' ''request body must be a JSON object''), w)
     else case jfield j field of
       Some JNull \<Rightarrow> k None w
     | Some (JNum x) \<Rightarrow> if isFinite x then k (Some x) w else (Inr bad, w)
     | _ \<Rightarrow> (Inr bad, w))"

definition json_int :: "int \<Rightarrow> json" where
  "json_int n = JNum (jsint n)"

definition rate_json :: "keys_env \<Rightarrow> string \<Rightarrow> int \<Rightarrow> NextResponse" where
  "rate_json E i limit = json_response (JObj [(''key_id'', JStr i), (''limit_per_minute'', json_int limit),
     (''default_per_minute'', json_int (DEFAULT_PER_MINUTE (ke_rate_default E))), (''window_seconds'', json_int WINDOW_SECONDS),
     (''is_override'', JBool (limit \<noteq> DEFAULT_PER_MINUTE (ke_rate_default E)))])"

definition rate_GET :: "keys_env \<Rightarrow> keys_request \<Rightarrow> string \<Rightarrow> keys_world \<Rightarrow> keys_answer" where
  "rate_GET E q i = keys_route E q (key_route i ''/rate-limit'') ''GET'' (\<lambda>w.
     case getLimitForKey (ke_rate_default E) i (kw_rate w) of (out, st) \<Rightarrow> (map_sum id (rate_json E i) out, w\<lparr>kw_rate := st\<rparr>))"

definition refused_text :: "keys_env \<Rightarrow> exn \<Rightarrow> string \<Rightarrow> string" where
  "refused_text E e dflt = (if exn_message E e = [] then dflt else exn_message E e)"

definition rate_PUT :: "keys_env \<Rightarrow> keys_request \<Rightarrow> string \<Rightarrow> keys_world \<Rightarrow> keys_answer" where
  "rate_PUT E q i = keys_route E q (key_route i ''/rate-limit'') ''PUT''
     (with_limit q ''limit'' (err_response 400 ''bad_limit'' ''limit must be a positive number or null'') (\<lambda>x w.
       case setLimitForKey (ke_rate_default E) i x (kw_rate w) of
         (Inl e, st) \<Rightarrow> (Inr (err_response 400 ''bad_limit'' (refused_text E e ''limit rejected'')), w\<lparr>kw_rate := st\<rparr>)
       | (Inr next, st) \<Rightarrow> (Inr (rate_json E i next), w\<lparr>kw_rate := st\<rparr>)))"

definition quota_json :: "keys_env \<Rightarrow> string \<Rightarrow> int \<Rightarrow> string \<Rightarrow> int \<Rightarrow> NextResponse" where
  "quota_json E i limit period used = json_response (JObj [(''key_id'', JStr i), (''monthly_quota'', json_int limit),
     (''default_monthly_quota'', json_int (DEFAULT_MONTHLY_QUOTA (ke_quota_default E))),
     (''is_override'', JBool (limit \<noteq> DEFAULT_MONTHLY_QUOTA (ke_quota_default E))), (''unlimited'', JBool (limit = 0)), (''period'', JStr period),
     (''used'', json_int used), (''remaining'', if limit = 0 then JNull else json_int (max 0 (limit - used))),
     (''resets_at'', JStr (nextPeriodResetIso (ke_clock E 59)))])"

definition quota_GET :: "keys_env \<Rightarrow> keys_request \<Rightarrow> string \<Rightarrow> keys_world \<Rightarrow> keys_answer" where
  "quota_GET E q i = keys_route E q (key_route i ''/monthly-quota'') ''GET'' (\<lambda>w.
     case getQuotaForKey (ke_quota_default E) i (kw_quota w) of
       (Inl e, st) \<Rightarrow> (Inl e, w\<lparr>kw_quota := st\<rparr>)
     | (Inr quota, st) \<Rightarrow>
         (case getUsage i (ke_clock E 58) st of
            (Inl e, st) \<Rightarrow> (Inl e, w\<lparr>kw_quota := st\<rparr>)
          | (Inr (period, used), st) \<Rightarrow> (Inr (quota_json E i quota period used), w\<lparr>kw_quota := st\<rparr>)))"

definition quota_PUT :: "keys_env \<Rightarrow> keys_request \<Rightarrow> string \<Rightarrow> keys_world \<Rightarrow> keys_answer" where
  "quota_PUT E q i = keys_route E q (key_route i ''/monthly-quota'') ''PUT''
     (with_limit q ''quota'' (err_response 400 ''bad_quota'' ''quota must be a non-negative number or null'') (\<lambda>x w.
       let rejected = (\<lambda>e. err_response 400 ''bad_quota'' (refused_text E e ''quota rejected'')) in
       case setQuotaForKey (ke_quota_default E) i x (kw_quota w) of
         (Inl e, st) \<Rightarrow> (Inr (rejected e), w\<lparr>kw_quota := st\<rparr>)
       | (Inr next, st) \<Rightarrow>
           (case getUsage i (ke_clock E 58) st of
              (Inl e, st) \<Rightarrow> (Inr (rejected e), w\<lparr>kw_quota := st\<rparr>)
            | (Inr (period, used), st) \<Rightarrow> (Inr (quota_json E i next (periodOf (ke_clock E 60)) used), w\<lparr>kw_quota := st\<rparr>))))"

text \<open>\<^verbatim>\<open>within_days\<close>: \<open>None\<close> where it is not a number between 1 and \<open>mx\<close>.\<close>

definition within_days :: "string option \<Rightarrow> int \<Rightarrow> int \<Rightarrow> int option" where
  "within_days raw dflt mx =
     (if \<not> truthy raw then Some dflt
      else (let n = js_parseNum (or_empty raw) in
        if \<not> isFinite n \<or> num_lt n (jsint 1) \<or> num_lt (jsint mx) n then None else Some (num_floor n)))"

definition window_route :: "keys_env \<Rightarrow> keys_request \<Rightarrow> string \<Rightarrow> int \<Rightarrow> int \<Rightarrow> (int \<Rightarrow> StoredKey list \<Rightarrow> json) \<Rightarrow> keys_world \<Rightarrow> keys_answer" where
  "window_route E q route dflt mx report = keys_route E q route ''GET'' (\<lambda>w.
     case within_days (kq_query q ''within_days'') dflt mx of
       None \<Rightarrow> (Inr (err_response 400 ''bad_within_days'' (''within_days must be an integer between 1 and '' @ int_str mx)), w)
     | Some days \<Rightarrow> (map_sum id (\<lambda>ks. json_response (report days ks)) (listKeys (keys_of w)), w))"

definition nat_json :: "nat \<Rightarrow> json" where
  "nat_json n = json_int (int n)"

definition expiring_row :: "ClassifiedKey \<Rightarrow> json" where
  "expiring_row c = JObj [(''id'', JStr (ck_id c)), (''label'', JStr (ck_label c)), (''prefix'', JStr (ck_prefix c)), (''scopes'', scopes_json (ck_scopes c)),
     (''expires_at'', JStr (ck_expires_at c)), (''expires_in_ms'', json_int (ck_expires_in_ms c)), (''expires_in_days'', json_int (ck_expires_in_days c)),
     (''bucket'', JStr (expiry_bucket_str (ck_bucket c))), (''revoked'', JBool (ck_revoked c)), (''suspended'', JBool (ck_suspended c))]"

definition expiring_GET :: "keys_env \<Rightarrow> keys_request \<Rightarrow> keys_world \<Rightarrow> keys_answer" where
  "expiring_GET E q = window_route E q ''/api/admin/keys/expiring'' 30 MAX_WITHIN_DAYS (\<lambda>days ks.
     let s = summarizeExpiry (ke_host E) ks (ke_clock E 58) days in
     JObj [(''generated_at'', JStr (es_generated_at s)), (''window_days'', json_int (es_window_days s)),
       (''counts'', JObj ([(expiry_bucket_str b, nat_json (es_counts s b)). b \<leftarrow> [Eb_expired, Eb_critical, Eb_soon, Eb_upcoming]]
          @ [(''active_with_expiry'', nat_json (es_active_with_expiry s)), (''no_expiry'', nat_json (es_no_expiry s)),
             (''revoked_or_suspended'', nat_json (es_revoked_or_suspended s))])), (''keys'', JArr (map expiring_row (es_keys s)))])"

definition dormant_row :: "ClassifiedDormantKey \<Rightarrow> json" where
  "dormant_row c = JObj [(''id'', JStr (dk_id c)), (''label'', JStr (dk_label c)), (''prefix'', JStr (dk_prefix c)), (''scopes'', scopes_json (dk_scopes c)),
     (''last_used_at'', jnullable (dk_last_used_at c)), (''created_at'', JStr (dk_created_at c)), (''silent_ms'', json_int (dk_silent_ms c)),
     (''silent_days'', json_int (dk_silent_days c)), (''bucket'', JStr (dormancy_bucket_str (dk_bucket c))), (''never_used'', JBool (dk_never_used c)),
     (''revoked'', JBool (dk_revoked c))]"

definition dormant_GET :: "keys_env \<Rightarrow> keys_request \<Rightarrow> keys_world \<Rightarrow> keys_answer" where
  "dormant_GET E q = window_route E q ''/api/admin/keys/dormant'' DEFAULT_DORMANT_WITHIN_DAYS MAX_DORMANT_WITHIN_DAYS (\<lambda>days ks.
     let s = summarizeDormancy (ke_host E) ks (ke_clock E 58) days in
     JObj [(''generated_at'', JStr (ds_generated_at s)), (''window_days'', json_int (ds_window_days s)),
       (''counts'', JObj ([(dormancy_bucket_str b, nat_json (ds_counts s b)). b \<leftarrow> [Db_quiet, Db_dormant, Db_abandoned]]
          @ [(''never_used'', nat_json (ds_never_used s))]
          @ [(dormancy_bucket_str b, nat_json (ds_counts s b)). b \<leftarrow> [Db_active, Db_revoked, Db_unknown]])),
       (''keys'', JArr (map dormant_row (ds_keys s)))])"

definition usage_days :: "keys_env \<Rightarrow> string option \<Rightarrow> int option" where
  "usage_days E raw =
     (case raw of
        None \<Rightarrow> Some 14
      | Some s \<Rightarrow> (let n = js_Number (ke_number E) (Some (JStr s)) in
          if \<not> isFinite n \<or> num_lt n (jsint 1) \<or> num_lt (jsint (int RETENTION_DAYS)) n then None else Some (num_floor n)))"

definition tally_json :: "tally \<Rightarrow> (string \<times> json) list" where
  "tally_json t = [(''total'', nat_json (t_total t)), (''success'', nat_json (t_success t)), (''client_error'', nat_json (t_client_error t)),
     (''server_error'', nat_json (t_server_error t))]"

definition usage_GET :: "keys_env \<Rightarrow> keys_request \<Rightarrow> string \<Rightarrow> keys_world \<Rightarrow> keys_answer" where
  "usage_GET E q i = shared_route E q (key_route i ''/usage'') ''GET'' (\<lambda>key w.
     case usage_days E (kq_query q ''days'') of
       None \<Rightarrow> (Inr (err_response 400 ''invalid_days'' (''days must be an integer in [1, '' @ int_str (int RETENTION_DAYS) @ '']'')), w)
     | Some days \<Rightarrow>
         (case listKeys (keys_of w) of
            Inl e \<Rightarrow> (Inl e, w)
          | Inr ks \<Rightarrow>
              if \<not> list_ex (\<lambda>k. k_id k = i) ks then (Inr key_not_found, w)
              else case ku_getUsage i (kw_usage w) of
                Inl e \<Rightarrow> (Inl e, w)
              | Inr raw \<Rightarrow>
                  (let s = summarise raw (jsint days) (ke_clock E 58) in
                   (Inr (json_response (JObj [(''key_id'', JStr i), (''window_days'', case us_window_days s of None \<Rightarrow> JNull | Some n \<Rightarrow> json_int n),
                      (''total_lifetime'', nat_json (us_total s)), (''last_request_at'', jnullable (us_last_request_at s)),
                      (''window'', JObj (tally_json (us_window s))),
                      (''daily'', JArr (map (\<lambda>(d, t). JObj ((''day'', JStr d) # tally_json t)) (us_daily s))),
                      (''by_route'', JArr (map (\<lambda>(r, t). JObj ((''route_class'', JStr r) # tally_json t)) (us_by_route s)))])), w))))"

definition idempotency_limit :: "string option \<Rightarrow> nat" where
  "idempotency_limit raw =
     (let x = js_parseNum (case raw of None \<Rightarrow> ''50'' | Some s \<Rightarrow> s) in
      case x of NaN \<Rightarrow> 50 | PosInf \<Rightarrow> 200 | NegInf \<Rightarrow> 1 | Fin q \<Rightarrow> if q = 0 then 50 else nat (min (max \<lfloor>q\<rfloor> 1) 200))"

definition idempotency_row :: "host \<Rightarrow> IdempotencyRecord \<Rightarrow> json" where
  "idempotency_row H r = JObj [(''header'', JStr (ir_header r)), (''fingerprint_prefix'', JStr (take 12 (ir_fingerprint r))), (''status'', json_int (ir_status r)),
     (''created_at'', JStr (ir_created_at r)), (''expires_at'', JStr (ir_expires_at r)), (''bytes'', nat_json (length (stringify H (ir_body r))))]"

definition idempotency_GET :: "keys_env \<Rightarrow> keys_request \<Rightarrow> string \<Rightarrow> keys_world \<Rightarrow> keys_answer" where
  "idempotency_GET E q i = keys_route E q (key_route i ''/idempotency'') ''GET'' (\<lambda>w.
     case listForKey (ke_host E) (ke_clock E 58) i (idempotency_limit (kq_query q ''limit'')) (kw_idem w) of
       (Inl e, st) \<Rightarrow> (Inl e, w\<lparr>kw_idem := st\<rparr>)
     | (Inr rs, st) \<Rightarrow>
         (Inr (json_response (JObj [(''key_id'', JStr i), (''count'', nat_json (length rs)), (''records'', JArr (map (idempotency_row (ke_host E)) rs))])),
          w\<lparr>kw_idem := st\<rparr>))"

end
