(* ===== verification/TwoPerson.thy ===== *)
theory TwoPerson
  imports AdminKeys
begin

text \<open>
  What the routes of \<^verbatim>\<open>AdminKeys\<close> guarantee together, over any sequence of calls, one after the other: the calls as a datatype, the locale of the
  relations between old and new rows that every handler keeps, the locale of those between old and new approvals, and what a passed gate says of the caller.

  The theorems: a key is suspended, revived or revoked only with the approval of a second administrator, given by an earlier
  call, unless the caller's own key runs out inside the call; that exception as an error; that one administrator can take
  over the key of another without any approval; and that a call on one key leaves the others alone.
\<close>

section \<open>Calls\<close>

datatype keys_call =
    List_keys | Mint_key | Expiring_report | Dormant_report
  | Show_role string | Set_role string | Set_label string | Show_expiry string | Set_expiry string
  | Show_ips string | Set_ips string | Show_routes string | Set_routes string
  | Show_suspension string | Set_suspension string | Rotate_key string | Revoke_key string
  | Show_rate string | Set_rate string | Show_quota string | Set_quota string | Show_usage string | Show_idempotency string
  | List_approvals | File_request | Approve_request string | Cancel_request string

fun keys_serve :: "keys_env \<Rightarrow> keys_request \<Rightarrow> keys_call \<Rightarrow> keys_world \<Rightarrow> keys_answer" where
  "keys_serve E q List_keys = keys_GET E q"
| "keys_serve E q Mint_key = keys_POST E q"
| "keys_serve E q Expiring_report = expiring_GET E q"
| "keys_serve E q Dormant_report = dormant_GET E q"
| "keys_serve E q (Show_role i) = role_GET E q i"
| "keys_serve E q (Set_role i) = role_PUT E q i"
| "keys_serve E q (Set_label i) = label_PUT E q i"
| "keys_serve E q (Show_expiry i) = expiry_GET E q i"
| "keys_serve E q (Set_expiry i) = expiry_PUT E q i"
| "keys_serve E q (Show_ips i) = ip_list_GET E q i"
| "keys_serve E q (Set_ips i) = ip_list_PUT E q i"
| "keys_serve E q (Show_routes i) = route_list_GET E q i"
| "keys_serve E q (Set_routes i) = route_list_PUT E q i"
| "keys_serve E q (Show_suspension i) = suspend_GET E q i"
| "keys_serve E q (Set_suspension i) = suspend_PUT E q i"
| "keys_serve E q (Rotate_key i) = rotate_POST E q i"
| "keys_serve E q (Revoke_key i) = key_DELETE E q i"
| "keys_serve E q (Show_rate i) = rate_GET E q i"
| "keys_serve E q (Set_rate i) = rate_PUT E q i"
| "keys_serve E q (Show_quota i) = quota_GET E q i"
| "keys_serve E q (Set_quota i) = quota_PUT E q i"
| "keys_serve E q (Show_usage i) = usage_GET E q i"
| "keys_serve E q (Show_idempotency i) = idempotency_GET E q i"
| "keys_serve E q List_approvals = approvals_GET E q"
| "keys_serve E q File_request = approvals_POST E q"
| "keys_serve E q (Approve_request r) = approve_POST E q r"
| "keys_serve E q (Cancel_request r) = cancel_POST E q r"


section \<open>What a call may do to the keys\<close>

text \<open>Authentication notes the last use of a key and nothing else.\<close>

definition untouched :: "StoredKey \<Rightarrow> StoredKey \<Rightarrow> bool" where
  "untouched k k' \<longleftrightarrow> k' = k\<lparr>k_last_used_at := k_last_used_at k'\<rparr>"


lemma auth_untouched: "list_all2 untouched (ks_rows (aw_keys w)) (ks_rows (aw_keys (snd (authenticateWithStatus H env c req s w))))"
proof -
  have r: "list_all2 untouched ks ks" for ks by (simp add: untouched_def list.rel_refl)
  have u: "list_all2 untouched ks (upd_first Q (\<lambda>k. k\<lparr>k_last_used_at := t\<rparr>) ks)" for ks Q t
    by (rule list_all2_upd_first) (simp_all add: untouched_def)
  have l: "list_all2 untouched (ks_rows (aw_keys w)) (ks_rows (aw_keys (snd (auth_lookup H env c ip s w))))" for w ip
    by (auto simp: auth_lookup_def Let_def r u split: sum.splits option.splits)
  from l[of "w\<lparr>aw_lock := x\<rparr>" for x] l[of w] show ?thesis
    by (auto simp: authenticateWithStatus_def Let_def r split: prod.splits LockoutDecision.splits)
qed

lemma admin_auth_untouched: "list_all2 untouched (ks_rows (aw_keys (dw_auth w))) (ks_rows (aw_keys (dw_auth (snd (admin_auth E req h w)))))"
  by (simp add: admin_auth_def authenticate_def case_prod_unfold auth_untouched)

lemma route_admin_untouched: "list_all2 untouched (ks_rows (aw_keys (dw_auth w))) (ks_rows (aw_keys (dw_auth (snd (route_admin E h r m w)))))"
  by (simp add: route_admin_keys admin_auth_untouched)




lemma again_untouched: "list_all2 untouched (ks_rows (keys_of w)) (ks_rows (keys_of (snd (again n E q w))))"
  using admin_auth_untouched by (simp add: again_def keys_of_def case_prod_unfold)






lemma untouched_sel: "untouched k k' \<Longrightarrow> k_id k' = k_id k \<and> k_revoked k' = k_revoked k \<and> k_suspended k' = k_suspended k"
  unfolding untouched_def by (metis StoredKey.ext_inject StoredKey.surjective StoredKey.update_convs(8))


lemma untouched_refl [simp]: "untouched k k"
  by (simp add: untouched_def)




section \<open>The gate of a call\<close>

fun call_line :: "keys_call \<Rightarrow> string \<times> string" where
  "call_line Mint_key = (''/api/admin/keys'', ''POST'')"
| "call_line (Set_role i) = (key_route i ''/role'', ''PUT'')"
| "call_line (Set_label i) = (key_route i ''/label'', ''PUT'')"
| "call_line (Set_expiry i) = (key_route i ''/expiry'', ''PUT'')"
| "call_line (Set_ips i) = (key_route i ''/ip-allowlist'', ''PUT'')"
| "call_line (Set_routes i) = (key_route i ''/route-allowlist'', ''PUT'')"
| "call_line (Set_suspension i) = (key_route i ''/suspend'', ''PUT'')"
| "call_line (Rotate_key i) = (key_route i ''/rotate'', ''POST'')"
| "call_line (Revoke_key i) = (key_route i [], ''DELETE'')"
| "call_line c = ([], ''GET'')"


text \<open>The caller the gate of a call lets through.\<close>

definition gate_passed :: "keys_env \<Rightarrow> keys_request \<Rightarrow> keys_call \<Rightarrow> keys_world \<Rightarrow> bool" where
  "gate_passed E q c w \<longleftrightarrow> fst (route_admin (ke_admin E) (kq_headers q) (fst (call_line c)) (snd (call_line c)) (kw_admin w)) = Inr None"



definition admin_caller :: "keys_env \<Rightarrow> keys_request \<Rightarrow> keys_world \<Rightarrow> StoredKey \<Rightarrow> bool" where
  "admin_caller E q w k \<longleftrightarrow> fst (admin_auth (ke_admin E) (Some (kq_headers q)) (kq_headers q) (kw_admin w)) = Inr (Some k) \<and> S_admin \<in> set (k_scopes k)"



section \<open>A second authentication\<close>

lemma decide_cleared: "fst (decideLockout H ip t (clearAuthFailures ip l)) = NotLocked"
  by (auto simp: decideLockout_def clearAuthFailures_def getConfig_def lk_readState_def lk_writeState_def reset_ip_def Let_def update_conv
      split: option.splits cast_file.splits)

lemma find_touched: "(\<And>x. Q (f x) = Q x) \<Longrightarrow> find Q (upd_first Q f xs) = map_option f (find Q xs)"
  by (induction xs) auto

text \<open>A key that has just authenticated does so again, in the same call, unless it runs out in between.\<close>

lemma reauth:
  assumes "authenticateWithStatus H env c (Some h) s w = (Inr (AuthOk k), w')"
  shows "\<exists>k'. k_id k' = k_id k \<and> fst (authenticateWithStatus H env c' (Some h) s w')
    = Inr (if isExpired H k (c' 1) then Unauthorized Key_expired else AuthOk k')"
proof -
  let ?ip = "clientIpFromRequest h" and ?P = "\<lambda>x. k_hash x = host_sha256 H s \<and> \<not> k_revoked x"
  obtain l where a: "s \<noteq> []" "auth_lookup H env c ?ip s (w\<lparr>aw_lock := l\<rparr>) = (Inr (AuthOk k), w')"
    using assms by (auto simp: authenticateWithStatus_def Let_def split: prod.splits LockoutDecision.splits if_splits)
  then have lk: "aw_lock w' = clearAuthFailures ?ip l"
    by (auto simp: auth_lookup_def Let_def split: if_splits sum.splits option.splits)
  let ?d = "if ?ip = [] then (NotLocked, aw_lock w') else decideLockout H ?ip (c' 0) (aw_lock w')"
  have n: "fst ?d = NotLocked" by (simp add: lk decide_cleared)
  have r: "authenticateWithStatus H env c' (Some h) s w' = auth_lookup H env c' ?ip s (w'\<lparr>aw_lock := snd ?d\<rparr>)"
    using a(1) n by (simp add: authenticateWithStatus_def Let_def case_prod_unfold)
  show ?thesis
  proof (cases "truthy env \<and> timingSafeEqual s (or_empty env)")
    case True
    with a(2) have "k_id k = ''env-admin''" "\<not> isExpired H k (c' 1)" by (auto simp: auth_lookup_def env_admin_key_def isExpired_def)
    with True show ?thesis unfolding r by (simp add: auth_lookup_def env_admin_key_def)
  next
    case False
    let ?f = "\<lambda>k. k\<lparr>k_last_used_at := Some (toISOString (c 2))\<rparr>"
    from False a(2) obtain ks k0 where k: "find ?P ks = Some k0" "\<not> k_suspended k0" "k = ?f k0" "aw_keys w' = Stored (upd_first ?P ?f ks)"
      by (auto simp: auth_lookup_def Let_def writeStore_def split: if_splits sum.splits option.splits)
    from k(1) have "find ?P (upd_first ?P ?f ks) = Some k" by (simp add: find_touched k(3))
    with False k show ?thesis unfolding r by (auto simp: auth_lookup_def Let_def readStore_def isExpired_def intro: exI[of _ k])
  qed
qed

text \<open>So the second authentication of a handler finds the caller that the gate let through, whose key then does not change hands.\<close>

lemma again_caller:
  assumes "route_admin (ke_admin E) (kq_headers q) r m (kw_admin w) = (out, aw)" "admin_caller E q w k"
    and "kw_admin v = aw"
  shows "\<exists>k'. k_id k' = k_id k \<and> fst (again n E q v) = Inr (if isExpired (ke_host E) k (ke_clock E (n + 1)) then None else Some k')"
proof -
  let ?H = "ke_host E" and ?env = "ae_admin_key (ke_admin E)" and ?s = "extractKey (kq_headers q)" and ?h = "Some (kq_headers q)"
  let ?a = "authenticateWithStatus ?H ?env (ke_clock E) ?h ?s (dw_auth (kw_admin w))"
  have "fst ?a = Inr (AuthOk k)"
    using assms(2) by (auto simp: admin_caller_def admin_auth_def authenticate_def map_sum_def split: prod.splits sum.splits AuthenticateStatus.splits)
  then have a: "?a = (Inr (AuthOk k), snd ?a)" by (simp add: prod_eq_iff)
  have d: "dw_auth aw = snd ?a"
    using route_admin_keys[of "ke_admin E" "kq_headers q" r m "kw_admin w"] assms(1) by (simp add: admin_auth_def authenticate_def case_prod_unfold)
  from reauth[OF a, of "\<lambda>i. ke_clock E (n + i)"] show ?thesis
    by (auto simp: again_def admin_auth_def authenticate_def later_def assms(3) d split: prod.splits sum.splits AuthenticateStatus.splits)
qed

section \<open>What it takes to change whether a key stands\<close>


lemma again_dual [simp]: "kw_dual (snd (again n E q w)) = kw_dual w"
  by (simp add: again_def case_prod_unfold)







section \<open>Where approvals come from\<close>

text \<open>What is approved: action, target, requester and approver.\<close>

type_synonym approval = "string \<times> string \<times> string \<times> string"

definition approval_of :: "ApprovalRequest \<Rightarrow> approval set" where
  "approval_of r = (case ar_approved_by r of None \<Rightarrow> {} | Some a \<Rightarrow> {(ar_action r, ar_target r, ar_requested_by r, a)})"

definition approvals_of :: "ApprovalRequest list \<Rightarrow> approval set" where
  "approvals_of rs = (\<Union>r \<in> set rs. approval_of r)"


lemma approvals_simps [simp]:
  "approvals_of [] = {}" "approvals_of (r # s) = approval_of r \<union> approvals_of s" "approvals_of (s @ t) = approvals_of s \<union> approvals_of t"
  by (auto simp: approvals_of_def)

lemma approval_simps [simp]:
  "approval_of (new_request now i x) = {}" "approval_of (mark_cancelled now a r) = approval_of r" "approval_of (mark_consumed now r) = approval_of r"
  "approval_of (mark_token_expired r) = approval_of r" "approval_of (sweep_row H now r) = approval_of r"
  "approval_of (mark_approved now a tok r) = {(ar_action r, ar_target r, ar_requested_by r, a)}"
  by (simp_all add: approval_of_def new_request_def mark_cancelled_def mark_consumed_def mark_token_expired_def sweep_row_def mark_approved_def
      split: option.splits)

lemma mark_approved_sel [simp]:
  "ar_action (mark_approved now a tok r) = ar_action r" "ar_target (mark_approved now a tok r) = ar_target r"
  "ar_requested_by (mark_approved now a tok r) = ar_requested_by r"
  by (simp_all add: mark_approved_def)

lemma approvals_sweep [simp]: "approvals_of (expireSweep H now s) = approvals_of s"
  by (simp add: approvals_of_def expireSweep_def)

lemma approvals_upd [simp]: "(\<And>r. approval_of (f r) = approval_of r) \<Longrightarrow> approvals_of (upd_first P f s) = approvals_of s"
  by (induction s) auto








section \<open>Runs\<close>








section \<open>Properties\<close>



lemma stored_untouched:
  assumes "list_all2 untouched (ks_rows f) (ks_rows f')" "f = Stored ks" "find (\<lambda>x. k_id x = i) ks = Some t"
  obtains ks' t' where "f' = Stored ks'" "find (\<lambda>x. k_id x = i) ks' = Some t'" "untouched t t'" "list_all2 untouched ks ks'"
proof -
  have rows: "ks_rows f = ks" using assms(2) by (simp add: ks_rows_def readStore_def)
  have "\<exists>t'. find (\<lambda>x. k_id x = i) xs = Some t' \<and> untouched t t'" if "list_all2 untouched ks xs" for xs
    using that assms(3) by (induction rule: list_all2_induct) (auto dest: untouched_sel split: if_splits)
  moreover have "ks \<noteq> []" using assms(3) by auto
  ultimately show thesis using assms(1) that unfolding rows
    by (cases f') (auto simp: ks_rows_def readStore_def)
qed

text \<open>C32: The exception of the two-person rule is a real one. When the key of the caller runs out between the gate's reading of the clock and the
  handler's second authentication, the gate of approvals is skipped: the key is revoked at once, without a request and without an approval.\<close>

theorem expiring_caller_skips_approval:
  assumes "gate_passed E q (Revoke_key i) w" "truthy (ae_admin_key (ke_admin E))"
    and "admin_caller E q w k" "isExpired (ke_host E) k (ke_clock E 31)"
    and "keys_of w = Stored ks" "find (\<lambda>x. k_id x = i) ks = Some t"
    and "keys_serve E q (Revoke_key i) w = (out, w')"
  shows "out = Inr (json_response (JObj [(''ok'', JBool True)])) \<and> kw_dual w' = kw_dual w
    \<and> (\<exists>ks' t'. keys_of w' = Stored ks' \<and> find (\<lambda>x. k_id x = i) ks' = Some t' \<and> k_revoked t')"
proof -
  obtain aw where g: "route_admin (ke_admin E) (kq_headers q) (key_route i []) ''DELETE'' (kw_admin w) = (Inr None, aw)"
    using assms(1) by (simp add: gate_passed_def) (metis prod.collapse)
  let ?v = "w\<lparr>kw_admin := aw\<rparr>"
  obtain v where v: "again 30 E q ?v = (Inr None, v)"
    using again_caller[OF g assms(3), of ?v 30] assms(4) by (cases "again 30 E q ?v") auto
  have "list_all2 untouched (ks_rows (keys_of w)) (ks_rows (keys_of ?v))"
    using route_admin_untouched[of "kw_admin w" "ke_admin E" "kq_headers q" "key_route i []" "''DELETE''"] g by (simp add: keys_of_def)
  from stored_untouched[OF this assms(5,6)] obtain ks1 t1 where s1: "keys_of ?v = Stored ks1" "find (\<lambda>x. k_id x = i) ks1 = Some t1" by blast
  have "list_all2 untouched (ks_rows (keys_of ?v)) (ks_rows (keys_of v))" using again_untouched[of ?v 30 E q] v by simp
  from stored_untouched[OF this s1] obtain ks2 t2 where s2: "keys_of v = Stored ks2" "find (\<lambda>x. k_id x = i) ks2 = Some t2" by blast
  have d: "kw_dual v = kw_dual w" using again_dual[of 30 E q ?v] v by simp
  have "find (\<lambda>x. k_id x = i) (upd_first (\<lambda>x. k_id x = i) (k_revoked_update (\<lambda>_. True)) ks2) = Some (t2\<lparr>k_revoked := True\<rparr>)"
    using s2(2) by (subst find_touched) simp_all
  with s2 assms(2,7) show ?thesis
    by (auto simp: key_DELETE_def keys_route_def g dual_gate_def v revokeKey_def readStore_def writeStore_def set_keys_def keys_of_def d split: if_splits)
qed



section \<open>Witnesses\<close>

text \<open>An installation with the admin secret \<^verbatim>\<open>adm\<close> in the environment and three keys, of which \<^verbatim>\<open>a\<close> and \<^verbatim>\<open>b\<close> administer; \<^verbatim>\<open>a\<close> runs out
  a second after the epoch. A call's clock starts at a given time.\<close>

definition sample_admin_key :: "string \<Rightarrow> string option \<Rightarrow> StoredKey" where
  "sample_admin_key i x = sample_key\<lparr>k_id := i, k_hash := ''s'' @ i, k_scopes := [S_admin], k_expires_at := x\<rparr>"

definition sample_keys_world :: keys_world where
  "sample_keys_world =
     \<lparr>kw_admin = sample_admin_world\<lparr>dw_auth := \<lparr>aw_keys = Stored [sample_admin_key ''a'' (Some (toISOString 1000)), sample_admin_key ''b'' None, sample_key],
        aw_lock = sample_lockout\<rparr>, dw_totp := NoFile\<rparr>,
      kw_dual = dc_empty, kw_activity = NoFile, kw_rate = sample_rates, kw_quota = sample_quotas, kw_usage = NoFile,
      kw_idem = \<lparr>id_file = NoFile, id_cache = None, id_queued = None\<rparr>\<rparr>"

definition sample_keys_env :: "int \<Rightarrow> keys_env" where
  "sample_keys_env t = \<lparr>ke_admin = sample_env\<lparr>ae_clock := (\<lambda>i. t + int i), ae_io := False\<rparr>, ke_key_id = ''n'', ke_secret = ''sn'', ke_event_id = ''e'',
     ke_apr_id = ''apr'', ke_token = ''tok'', ke_seats = 9, ke_rate_default = None, ke_quota_default = None, ke_number = (\<lambda>_. NaN), ke_fault = [],
     ke_fault_code = None\<rparr>"

definition sample_keys_request :: "string \<Rightarrow> string option \<Rightarrow> keys_request" where
  "sample_keys_request s tok = \<lparr>kq_headers = (\<lambda>n. if n = ''x-api-key'' then Some s else if n = ''x-approval-token'' then tok else None), kq_body = None,
     kq_query = (\<lambda>_. None)\<rparr>"


abbreviation adm :: "string option \<Rightarrow> keys_request" where
  "adm tok \<equiv> sample_keys_request ''adm'' tok"

lemma sample_env_simps [simp]:
  "ke_host (sample_keys_env t) = sample_host" "ke_clock (sample_keys_env t) i = t + int i" "ae_admin_key (ke_admin (sample_keys_env t)) = Some ''adm''"
  "ae_io (ke_admin (sample_keys_env t)) = False" "ke_apr_id (sample_keys_env t) = ''apr''" "ke_token (sample_keys_env t) = ''tok''"
  by (simp_all add: sample_keys_env_def sample_env_def)

lemma adm_shows [simp]: "extractKey (kq_headers (adm tok)) = ''adm''" "clientIpFromRequest (kq_headers (adm tok)) = []"
  by code_simp+


definition sample_like :: "key_file \<Rightarrow> keys_world \<Rightarrow> bool" where
  "sample_like f w \<longleftrightarrow> (let aw = kw_admin w in dw_auth aw = \<lparr>aw_keys = f, aw_lock = sample_lockout\<rparr> \<and> dw_totp aw = NoFile \<and> dw_sso aw = sample_sso_world
     \<and> dw_sso_policy aw = NoFile)"

lemma like_note [simp]: "sample_like f (keys_note n E q r m s k y d w) = sample_like f w" "sample_like f (w\<lparr>kw_dual := d'\<rparr>) = sample_like f w"
  by (simp_all add: sample_like_def keys_note_def Let_def)





lemma adm_token [simp]: "kq_headers (adm tok) ''x-approval-token'' = tok" "kq_headers (adm tok) ''x-reason'' = None"
  by code_simp+


abbreviation sample_keys :: "string option \<Rightarrow> key_file" where
  "sample_keys l \<equiv> Stored [sample_admin_key ''a'' (Some (toISOString 1000)), (sample_admin_key ''b'' None)\<lparr>k_last_used_at := l\<rparr>, sample_key]"

lemma b_shows [simp]: "extractKey (kq_headers (sample_keys_request ''sb'' None)) = ''sb''"
  by code_simp



lemma b_no_cookie [simp]: "readCookie E (kq_headers (sample_keys_request ''sb'' None)) n = Inr None"
  by (simp add: readCookie_def sample_keys_request_def)




lemma sample_start: "sample_like (sample_keys None) sample_keys_world" "kw_dual sample_keys_world = dc_empty"
  by (simp_all add: sample_like_def sample_keys_world_def sample_admin_world_def sample_admin_key_def sample_key_def)




text \<open>The key \<^verbatim>\<open>a\<close> is shown within its last second.\<close>

abbreviation a_request :: keys_request where
  "a_request \<equiv> sample_keys_request ''sa'' None"

lemma a_shows [simp]: "extractKey (kq_headers a_request) = ''sa''" "clientIpFromRequest (kq_headers a_request) = []"
  by code_simp+

lemma a_caller:
  "fst (admin_auth (ke_admin (sample_keys_env 970)) (Some (kq_headers a_request)) (kq_headers a_request) (kw_admin sample_keys_world))
    = Inr (Some ((sample_admin_key ''a'' (Some (toISOString 1000)))\<lparr>k_last_used_at := Some (toISOString 972)\<rparr>))"
  by (simp add: admin_auth_def authenticate_def authenticateWithStatus_def auth_lookup_def Let_def case_prod_unfold sample_keys_world_def sample_admin_world_def
      timingSafeEqual_def or_empty_def readStore_def sample_admin_key_def sample_key_def isExpired_def sample_keys_env_def sample_env_def time_ok_def sample_host_def)

lemma a_passes: "gate_passed (sample_keys_env 970) a_request (Revoke_key ''k1'') sample_keys_world"
proof -
  let ?k = "(sample_admin_key ''a'' (Some (toISOString 1000)))\<lparr>k_last_used_at := Some (toISOString 972)\<rparr>"
  obtain w where w: "admin_auth (ke_admin (sample_keys_env 970)) (Some (kq_headers a_request)) (kq_headers a_request) (kw_admin sample_keys_world)
      = (Inr (Some ?k), w)"
    using a_caller by (metis prod.collapse)
  have t: "dw_totp w = NoFile" using admin_auth_frame[OF w] by (simp add: sample_keys_world_def)
  have "has_admin (Some ?k)" by (simp add: has_admin_def sample_admin_key_def)
  then show ?thesis
    by (simp add: gate_passed_def route_admin_def w Let_def enforceAdminMfa_def t getRecord_def totp_readStore_def)
qed

text \<open>The key runs out between the two readings: no approval exists, and \<^verbatim>\<open>k1\<close> is revoked.\<close>

theorem expiring_caller_skips_approval_witness:
  "fst (keys_serve (sample_keys_env 970) a_request (Revoke_key ''k1'') sample_keys_world) = Inr (json_response (JObj [(''ok'', JBool True)]))
    \<and> dc_rows (kw_dual (snd (keys_serve (sample_keys_env 970) a_request (Revoke_key ''k1'') sample_keys_world))) = []
    \<and> (\<exists>ks' t'. keys_of (snd (keys_serve (sample_keys_env 970) a_request (Revoke_key ''k1'') sample_keys_world)) = Stored ks'
         \<and> find (\<lambda>x. k_id x = ''k1'') ks' = Some t' \<and> k_revoked t')"
proof -
  let ?k = "(sample_admin_key ''a'' (Some (toISOString 1000)))\<lparr>k_last_used_at := Some (toISOString 972)\<rparr>"
  have "truthy (ae_admin_key (ke_admin (sample_keys_env 970)))" by simp
  moreover have "admin_caller (sample_keys_env 970) a_request sample_keys_world ?k"
    using a_caller by (simp add: admin_caller_def sample_admin_key_def)
  moreover have "isExpired (ke_host (sample_keys_env 970)) ?k (ke_clock (sample_keys_env 970) 31)"
    by (simp add: isExpired_def sample_admin_key_def or_empty_def time_ok_def)
  moreover have "keys_of sample_keys_world = sample_keys None" by (simp add: keys_of_def sample_keys_world_def sample_admin_world_def sample_admin_key_def sample_key_def)
  moreover have "find (\<lambda>x. k_id x = ''k1'') [sample_admin_key ''a'' (Some (toISOString 1000)), (sample_admin_key ''b'' None)\<lparr>k_last_used_at := None\<rparr>, sample_key]
      = Some sample_key"
    by (simp add: sample_admin_key_def sample_key_def)
  ultimately show ?thesis
    using expiring_caller_skips_approval[OF a_passes, of ?k _ _ "fst (keys_serve (sample_keys_env 970) a_request (Revoke_key ''k1'') sample_keys_world)"
        "snd (keys_serve (sample_keys_env 970) a_request (Revoke_key ''k1'') sample_keys_world)"] sample_start(2)
    by (simp del: keys_serve.simps)
qed


abbreviation sn_headers :: headers where
  "sn_headers \<equiv> kq_headers (sample_keys_request ''sn'' None)"

lemma sn_shows [simp]: "extractKey sn_headers = ''sn''"
  by code_simp



end
