(* ===== verification/Privacy.thy ===== *)
theory Privacy
  imports LegalHold
begin

text \<open>
  Export and erasure of the workspace's data (\<^verbatim>\<open>src/web/lib/privacyStore.ts\<close>): the table of the files the
  application owns, the bundle made of their contents, and the erasure that a legal hold blocks. The data directory is a map from
  file names to their texts.
\<close>

section \<open>The stores\<close>

datatype StoreCategory = Cat_user | Cat_compliance

datatype StoreFormat = F_json | F_jsonl

record StoreSpec =
  sp_name :: string
  sp_file :: string
  sp_format :: StoreFormat
  sp_category :: StoreCategory

definition spec :: "string \<Rightarrow> string \<Rightarrow> StoreFormat \<Rightarrow> StoreCategory \<Rightarrow> StoreSpec" where
  "spec n f fm c = \<lparr>sp_name = n, sp_file = f, sp_format = fm, sp_category = c\<rparr>"

definition PRIVACY_STORES :: "StoreSpec list" where
  "PRIVACY_STORES =
     [spec ''runs'' ''runs.json'' F_json Cat_user, spec ''watches'' ''watches.json'' F_json Cat_user,
      spec ''watchlist'' ''watchlist.json'' F_json Cat_user, spec ''alerts'' ''alerts.json'' F_json Cat_user,
      spec ''comments'' ''comments.json'' F_json Cat_user, spec ''activity'' ''activity.json'' F_json Cat_user,
      spec ''settings'' ''settings.json'' F_json Cat_user, spec ''invites'' ''invites.json'' F_json Cat_user,
      spec ''digest_subs'' ''digest-subs.json'' F_json Cat_user, spec ''webhook_subs'' ''webhooks.json'' F_json Cat_user,
      spec ''audit'' ''audit.jsonl'' F_jsonl Cat_compliance, spec ''audit_rolled'' ''audit.jsonl.1'' F_jsonl Cat_compliance,
      spec ''api_keys'' ''keys.json'' F_json Cat_compliance, spec ''rate_limits'' ''ratelimits.json'' F_json Cat_compliance,
      spec ''idempotency'' ''idempotency.json'' F_json Cat_compliance, spec ''retention_policy'' ''retention.json'' F_json Cat_compliance,
      spec ''egress_policy'' ''egress-policy.json'' F_json Cat_compliance,
      spec ''webhook_deliveries'' ''webhook-deliveries.json'' F_json Cat_compliance,
      spec ''digest_deliveries'' ''digest-deliveries.json'' F_json Cat_compliance]"

type_synonym data_dir = "string \<rightharpoonup> string"

section \<open>Export\<close>

text \<open>\<open>parse\<close> is \<^verbatim>\<open>JSON.parse\<close>; a text it rejects is exported as it is, marked.\<close>

definition parse_or_raw :: "(string \<Rightarrow> json option) \<Rightarrow> string \<Rightarrow> json" where
  "parse_or_raw parse s = (case parse s of Some j \<Rightarrow> j | None \<Rightarrow> JObj [(''_parse_error'', JBool True), (''raw'', JStr s)])"

definition parseStore :: "(string \<Rightarrow> json option) \<Rightarrow> StoreSpec \<Rightarrow> string option \<Rightarrow> json" where
  "parseStore parse sp raw =
     (if \<not> truthy raw then (if sp_format sp = F_jsonl then JArr [] else JNull)
      else if sp_format sp = F_jsonl
        then JArr (map (parse_or_raw parse) (filter (\<lambda>s. s \<noteq> []) (map trim (split_on (CHR 0x0A) (or_empty raw)))))
      else parse_or_raw parse (or_empty raw))"

record ExportBundle =
  eb_exported_at :: string
  eb_generator :: string
  eb_stores :: "(string \<times> StoreCategory \<times> json) list"

definition collectExport :: "(string \<Rightarrow> json option) \<Rightarrow> int \<Rightarrow> data_dir \<Rightarrow> ExportBundle" where
  "collectExport parse now dir =
     \<lparr>eb_exported_at = toISOString now, eb_generator = ''signalclaw-next/privacy-export'',
      eb_stores = map (\<lambda>sp. (sp_name sp, sp_category sp, parseStore parse sp (dir (sp_file sp)))) PRIVACY_STORES\<rparr>"

definition exportFilename :: "int \<Rightarrow> string" where
  "exportFilename now =
     ''signalclaw-export-'' @ map (\<lambda>c. if c = CHR '':'' \<or> c = CHR ''.'' then CHR ''-'' else c) (toISOString now) @ ''.json''"

section \<open>Erasure\<close>

record EraseOptions =
  eo_wipeCompliance :: bool
  eo_wipeAudit :: bool

definition is_audit :: "StoreSpec \<Rightarrow> bool" where
  "is_audit sp \<longleftrightarrow> sp_name sp = ''audit'' \<or> sp_name sp = ''audit_rolled''"

definition erases :: "EraseOptions \<Rightarrow> StoreSpec \<Rightarrow> bool" where
  "erases opts sp =
     (if sp_category sp = Cat_user then True
      else if is_audit sp then eo_wipeAudit opts
      else eo_wipeCompliance opts)"

definition describeErase :: "EraseOptions \<Rightarrow> string list \<times> string list" where
  "describeErase opts =
     (map sp_file (filter (erases opts) PRIVACY_STORES), map sp_file (filter (\<lambda>sp. \<not> erases opts sp) PRIVACY_STORES))"

definition erase_scopes :: "EraseOptions \<Rightarrow> LegalHoldScope list" where
  "erase_scopes opts = [Sc_runs, Sc_user_data] @ (if eo_wipeAudit opts then [Sc_audit] else [])
     @ (if eo_wipeCompliance opts then [Sc_webhook_deliveries] else [])"

definition eraseBlockingHolds :: "EraseOptions \<Rightarrow> json_file \<Rightarrow> LegalHold list res" where
  "eraseBlockingHolds opts holds = holdsBlocking (erase_scopes opts) holds"

text \<open>\<open>fails f\<close>: removing \<open>f\<close> fails for another reason than its absence.\<close>

definition unlinkIfPresent :: "(string \<Rightarrow> bool) \<Rightarrow> string \<Rightarrow> data_dir \<Rightarrow> nat res \<times> data_dir" where
  "unlinkIfPresent fails f dir =
     (if fails f then (Inl IoFault, dir)
      else case dir f of None \<Rightarrow> (Inr 0, dir) | Some txt \<Rightarrow> (Inr (length txt), dir(f := None)))"

fun erase_loop :: "(string \<Rightarrow> bool) \<Rightarrow> string list \<Rightarrow> string list \<Rightarrow> nat \<Rightarrow> data_dir \<Rightarrow> (string list \<times> nat) res \<times> data_dir" where
  "erase_loop fails [] removed bytes dir = (Inr (removed, bytes), dir)"
| "erase_loop fails (f # fs) removed bytes dir =
     (case unlinkIfPresent fails f dir of
        (Inl e, dir') \<Rightarrow> (Inl e, dir')
      | (Inr n, dir') \<Rightarrow> erase_loop fails fs (removed @ [f]) (bytes + n) dir')"

record EraseSummary =
  es_erased_at :: string
  es_removed :: "string list"
  es_preserved :: "string list"
  es_bytes_freed :: nat

definition eraseAll :: "(string \<Rightarrow> bool) \<Rightarrow> int \<Rightarrow> EraseOptions \<Rightarrow> json_file \<Rightarrow> data_dir \<Rightarrow> EraseSummary res \<times> data_dir" where
  "eraseAll fails now opts holds dir =
     (case eraseBlockingHolds opts holds of
        Inl e \<Rightarrow> (Inl e, dir)
      | Inr (b # bs) \<Rightarrow> (Inl (Thrown (''legal_hold_active: '' @ join '', '' (map lh_matter (b # bs)))), dir)
      | Inr [] \<Rightarrow>
          (case erase_loop fails (fst (describeErase opts)) [] 0 dir of
             (Inl e, dir') \<Rightarrow> (Inl e, dir')
           | (Inr (removed, bytes), dir') \<Rightarrow>
               (Inr \<lparr>es_erased_at = toISOString now, es_removed = removed, es_preserved = snd (describeErase opts), es_bytes_freed = bytes\<rparr>, dir')))"

section \<open>Lemmas\<close>

definition dir_bytes :: "data_dir \<Rightarrow> string list \<Rightarrow> nat" where
  "dir_bytes dir fs = sum_list (map (\<lambda>f. case dir f of None \<Rightarrow> 0 | Some t \<Rightarrow> length t) fs)"

lemma erase_loop_touches: "f \<notin> set fs \<Longrightarrow> snd (erase_loop fails fs removed bytes dir) f = dir f"
proof (induction fs arbitrary: removed bytes dir)
  case Nil
  then show ?case by simp
next
  case (Cons g fs)
  then show ?case by (auto simp: unlinkIfPresent_def split: option.splits)
qed

lemma erase_loop_done:
  assumes "distinct fs" "list_all (\<lambda>f. \<not> fails f) fs"
  shows "erase_loop fails fs removed bytes dir = (Inr (removed @ fs, bytes + dir_bytes dir fs), \<lambda>f. if f \<in> set fs then None else dir f)"
  using assms
proof (induction fs arbitrary: removed bytes dir)
  case Nil
  then show ?case by (simp add: dir_bytes_def)
next
  case (Cons g fs)
  have "dir_bytes (dir(g := None)) fs = dir_bytes dir fs"
    using Cons.prems(1) by (auto simp: dir_bytes_def intro!: arg_cong[of _ _ sum_list])
  with Cons show ?case
    by (auto simp: unlinkIfPresent_def dir_bytes_def fun_eq_iff split: option.splits)
qed

lemma stores_distinct: "distinct (map sp_file PRIVACY_STORES)" "distinct (map sp_name PRIVACY_STORES)"
  by (simp_all add: PRIVACY_STORES_def spec_def)

lemma describeErase_split:
  "distinct (fst (describeErase opts))" "set (fst (describeErase opts)) \<union> set (snd (describeErase opts)) = set (map sp_file PRIVACY_STORES)"
  "set (fst (describeErase opts)) \<inter> set (snd (describeErase opts)) = {}"
proof -
  show "distinct (fst (describeErase opts))"
    using stores_distinct(1) by (auto simp: describeErase_def distinct_map intro: inj_on_subset)
  show "set (fst (describeErase opts)) \<union> set (snd (describeErase opts)) = set (map sp_file PRIVACY_STORES)"
    by (auto simp: describeErase_def)
  show "set (fst (describeErase opts)) \<inter> set (snd (describeErase opts)) = {}"
    using stores_distinct(1) by (auto simp: describeErase_def distinct_map inj_on_def)
qed

text \<open>The files of a scope: those the holds' own description names.\<close>

definition scope_files :: "LegalHoldScope \<Rightarrow> string set" where
  "scope_files sc =
     (case sc of
        Sc_runs \<Rightarrow> {''runs.json''}
      | Sc_audit \<Rightarrow> {''audit.jsonl'', ''audit.jsonl.1''}
      | Sc_webhook_deliveries \<Rightarrow> {''webhook-deliveries.json''}
      | Sc_user_data \<Rightarrow> sp_file ` {sp \<in> set PRIVACY_STORES. sp_category sp = Cat_user})"

lemma erased_in_scope:
  assumes "f \<in> scope_files sc" "f \<in> set (fst (describeErase opts))"
  shows "sc \<in> set (erase_scopes opts)"
  using assms
  by (cases sc) (auto simp: scope_files_def describeErase_def erase_scopes_def erases_def is_audit_def PRIVACY_STORES_def spec_def split: if_splits)

section \<open>Properties\<close>

text \<open>C11: Erasure never touches held data: while a hold on a scope is open, an erasure with whatever options leaves every file of the
  scope as it is, whether it throws or returns.\<close>

theorem erase_respects_holds:
  assumes "hold_blocks i [sc] holds" "f \<in> scope_files sc"
  shows "snd (eraseAll fails now opts holds dir) f = dir f"
proof (cases "f \<in> set (fst (describeErase opts))")
  case True
  have "sc \<in> set (erase_scopes opts)" by (rule erased_in_scope[OF assms(2) True])
  moreover have "hold_blocks i (erase_scopes opts) holds"
    using assms(1) \<open>sc \<in> _\<close> unfolding hold_blocks_def by fastforce
  then obtain h hs where "holdsBlocking (erase_scopes opts) holds = Inr hs" "h \<in> set hs" by (rule hold_blocks_blocking)
  ultimately show ?thesis by (cases hs) (auto simp: eraseAll_def eraseBlockingHolds_def)
next
  case False
  then show ?thesis
    using erase_loop_touches[OF False, of fails "[]" 0 dir] by (auto simp: eraseAll_def split: sum.splits list.splits prod.splits)
qed

theorem erase_respects_holds_witness:
  "\<exists>f. hold_blocks ''h1'' [Sc_audit] f
    \<and> snd (eraseAll (\<lambda>_. False) 5 \<lparr>eo_wipeCompliance = True, eo_wipeAudit = True\<rparr> f [''audit.jsonl'' \<mapsto> ''{}'']) ''audit.jsonl'' = Some ''{}''"
proof -
  obtain row f where o: "openHold 0 ''h1'' sample_matter Absent = (Inr row, f)" using sample_hold by blast
  have h: "hold_blocks ''h1'' [Sc_audit] f" using openHold_blocks[OF o] by (simp add: sample_scopes)
  have "''audit.jsonl'' \<in> scope_files Sc_audit" by (simp add: scope_files_def)
  from erase_respects_holds[OF h this] h show ?thesis by (intro exI[of _ f]) simp
qed

text \<open>Without a hold, an erasure that meets no failure removes every user file and, on request, the compliance files and the audit
  log, keeps every other file of the directory, and reports the bytes it freed.\<close>

theorem erase_complete:
  assumes "eraseBlockingHolds opts holds = Inr []" "\<forall>f. \<not> fails f"
  shows "\<exists>s. eraseAll fails now opts holds dir
      = (Inr s, \<lambda>f. if f \<in> sp_file ` {sp \<in> set PRIVACY_STORES. erases opts sp} then None else dir f)
    \<and> es_bytes_freed s = dir_bytes dir (es_removed s)
    \<and> set (es_removed s) \<union> set (es_preserved s) = set (map sp_file PRIVACY_STORES) \<and> set (es_removed s) \<inter> set (es_preserved s) = {}"
proof -
  have "set (fst (describeErase opts)) = sp_file ` {sp \<in> set PRIVACY_STORES. erases opts sp}" by (auto simp: describeErase_def)
  then show ?thesis
    using erase_loop_done[OF describeErase_split(1), of fails opts "[]" 0 dir] describeErase_split(2,3)[of opts] assms
    by (simp add: eraseAll_def list_all_iff)
qed

end
