(* ===== verification/Concurrency.thy ===== *)
theory Concurrency
  imports JsonStore
begin

text \<open>
  The workspace's cap on concurrent requests (\<^verbatim>\<open>src/web/lib/concurrencyStore.ts\<close>): a persisted
  policy behind a one-second cache, and the process-local counter \<^verbatim>\<open>inFlight\<close>. Acquiring and
  releasing a slot are synchronous, so each is one step; the step relation interleaves
  requests that start and finish.
\<close>

definition MIN_LIMIT :: int where "MIN_LIMIT = 1"

definition MAX_LIMIT :: int where "MAX_LIMIT = 10000"

definition CC_CACHE_TTL_MS :: int where "CC_CACHE_TTL_MS = 1000"

record ConcurrencyPolicy =
  cp_limit :: "int option"
  cp_updated_at :: "string option"
  cp_updated_by :: "string option"

definition DEFAULT_POLICY :: ConcurrencyPolicy where
  "DEFAULT_POLICY = \<lparr>cp_limit = None, cp_updated_at = None, cp_updated_by = None\<rparr>"

definition dec_policy :: "json \<Rightarrow> ConcurrencyPolicy" where
  "dec_policy j =
     (if falsy j \<or> \<not> is_object j then DEFAULT_POLICY
      else \<lparr>cp_limit = (case as_number (jfield j ''limit'') of
                None \<Rightarrow> None
              | Some n \<Rightarrow> if isFinite n \<and> \<not> num_lt n (jsint MIN_LIMIT) \<and> \<not> num_lt (jsint MAX_LIMIT) n
                          then Some (num_floor n) else None),
            cp_updated_at = str_or_null (jfield j ''updated_at''),
            cp_updated_by = str_or_null (jfield j ''updated_by'')\<rparr>)"

definition enc_policy :: "ConcurrencyPolicy \<Rightarrow> json" where
  "enc_policy p = JObj
     [(''limit'', case cp_limit p of None \<Rightarrow> JNull | Some n \<Rightarrow> JNum (jsint n)),
      (''updated_at'', jnullable (cp_updated_at p)), (''updated_by'', jnullable (cp_updated_by p))]"

type_synonym cc_store = "ConcurrencyPolicy cstore"

definition cc_readFromDisk :: "json_file \<Rightarrow> ConcurrencyPolicy res" where
  "cc_readFromDisk = read_json DEFAULT_POLICY dec_policy"

definition getConcurrencyPolicy :: "int \<Rightarrow> cc_store \<Rightarrow> ConcurrencyPolicy res \<times> cc_store" where
  "getConcurrencyPolicy = ttl_load CC_CACHE_TTL_MS cc_readFromDisk"

definition cc_writeToDisk :: "int \<Rightarrow> ConcurrencyPolicy \<Rightarrow> cc_store \<Rightarrow> cc_store" where
  "cc_writeToDisk = ttl_write enc_policy"

definition setConcurrencyPolicy ::
  "clock \<Rightarrow> jsnum \<Rightarrow> string option \<Rightarrow> cc_store
   \<Rightarrow> (unit + ConcurrencyPolicy \<times> ConcurrencyPolicy) res \<times> cc_store" where
  "setConcurrencyPolicy c n actor st =
     (if \<not> isInteger n then (Inr (Inl ()), st)
      else if num_lt n (jsint MIN_LIMIT) \<or> num_lt (jsint MAX_LIMIT) n then (Inr (Inl ()), st)
      else with_load (getConcurrencyPolicy (c 0)) (\<lambda>before st.
        let next = \<lparr>cp_limit = Some (num_floor n), cp_updated_at = Some (toISOString (c 1)), cp_updated_by = actor\<rparr>
        in (Inr (next, before), cc_writeToDisk (c 2) next st)) st)"

definition clearConcurrencyPolicy ::
  "clock \<Rightarrow> string option \<Rightarrow> cc_store \<Rightarrow> (ConcurrencyPolicy \<times> ConcurrencyPolicy) res \<times> cc_store" where
  "clearConcurrencyPolicy c actor = with_load (getConcurrencyPolicy (c 0)) (\<lambda>before st.
     let next = \<lparr>cp_limit = None, cp_updated_at = Some (toISOString (c 1)), cp_updated_by = actor\<rparr>
     in ((next, before), cc_writeToDisk (c 2) next st))"

section \<open>The counter\<close>

datatype AcquireDecision = Acquired (aq_inFlight: int) (aq_limit: "int option") | Refused (aq_inFlight: int) int int

definition tryAcquire :: "ConcurrencyPolicy \<Rightarrow> int \<Rightarrow> AcquireDecision \<times> int" where
  "tryAcquire p inFlight =
     (case cp_limit p of
        None \<Rightarrow> (Acquired (inFlight + 1) None, inFlight + 1)
      | Some n \<Rightarrow>
          if n \<le> inFlight then (Refused inFlight n 1, inFlight)
          else (Acquired (inFlight + 1) (Some n), inFlight + 1))"

definition release :: "int \<Rightarrow> int" where
  "release inFlight = max 0 (inFlight - 1)"

fun applyConcurrencyHeaders :: "AcquireDecision \<Rightarrow> (string \<times> int) list" where
  "applyConcurrencyHeaders (Acquired f lm) =
     (case lm of None \<Rightarrow> [] | Some n \<Rightarrow> [(''x-concurrency-limit'', n)]) @ [(''x-concurrency-in-flight'', f)]"
| "applyConcurrencyHeaders (Refused f n r) =
     [(''x-concurrency-limit'', n), (''x-concurrency-in-flight'', f), (''retry-after'', r)]"

text \<open>
  The process: the counter and the number of admitted requests still running. A request
  starts under some policy of \<open>P\<close> and runs when it is admitted; a running request finishes and
  releases its slot.
\<close>

inductive cc_step :: "(ConcurrencyPolicy \<Rightarrow> bool) \<Rightarrow> int \<times> nat \<Rightarrow> int \<times> nat \<Rightarrow> bool" for P where
  start: "\<lbrakk>P p; tryAcquire p f = (Acquired g l, f')\<rbrakk> \<Longrightarrow> cc_step P (f, r) (f', Suc r)"
| refused: "\<lbrakk>P p; tryAcquire p f = (Refused g n ra, f')\<rbrakk> \<Longrightarrow> cc_step P (f, r) (f', r)"
| finish: "cc_step P (f, Suc r) (release f, r)"

inductive_cases cc_stepE: "cc_step P (f, r) s"

section \<open>Lemmas\<close>

definition wf_policy :: "ConcurrencyPolicy \<Rightarrow> bool" where
  "wf_policy p \<longleftrightarrow> (case cp_limit p of None \<Rightarrow> True | Some n \<Rightarrow> 1 \<le> n \<and> n \<le> 10000)"

lemma jsint_range [simp]:
  "num_lt (jsint a) (jsint b) \<longleftrightarrow> a < b"
  by simp

lemma dec_enc_policy: "wf_policy p \<Longrightarrow> dec_policy (enc_policy p) = p"
  by (cases p) (auto simp: dec_policy_def enc_policy_def wf_policy_def MIN_LIMIT_def MAX_LIMIT_def split: option.splits)

interpretation cc: json_codec dec_policy enc_policy DEFAULT_POLICY wf_policy
  by unfold_locales (simp_all add: dec_enc_policy wf_policy_def DEFAULT_POLICY_def)

lemma dec_policy_wf: "wf_policy (dec_policy j)"
proof -
  have "1 \<le> num_floor n \<and> num_floor n \<le> 10000"
    if "isFinite n" "\<not> num_lt n (jsint 1)" "\<not> num_lt (jsint 10000) n" for n
    using that by (cases n) (auto simp: not_less le_floor_iff floor_le_iff)
  then show ?thesis
    by (auto simp: dec_policy_def wf_policy_def DEFAULT_POLICY_def MIN_LIMIT_def MAX_LIMIT_def split: option.splits)
qed

lemma read_policy_wf: "cc_readFromDisk f = Inr p \<Longrightarrow> wf_policy p"
  by (cases f) (auto simp: cc_readFromDisk_def dec_policy_wf cc.wf_dflt)

lemma cc_load [simp]:
  assumes "ready cc_readFromDisk st"
  shows "with_load (getConcurrencyPolicy t) k st
    = (case k (contents cc_readFromDisk st) (snd (getConcurrencyPolicy t st)) of (a, m) \<Rightarrow> (Inr a, m))"
  using assms unfolding getConcurrencyPolicy_def by (simp add: ready_load)

section \<open>Properties\<close>

text \<open>The counter never leaks a slot and the cap holds: in every interleaving of requests
  starting and finishing, each under a policy with a limit of at most \<open>n\<close>, the counter equals
  the number of running requests and does not exceed \<open>n\<close>.\<close>

theorem concurrency_cap:
  assumes "(cc_step (\<lambda>p. \<exists>m. cp_limit p = Some m \<and> m \<le> n))\<^sup>*\<^sup>* (0, 0) (f, r)" "0 \<le> n"
  shows "f = int r \<and> f \<le> n"
proof -
  have "fst s = int (snd s) \<and> fst s \<le> n"
    if "(cc_step (\<lambda>p. \<exists>m. cp_limit p = Some m \<and> m \<le> n))\<^sup>*\<^sup>* (0, 0) s" for s
    using that
  proof (induction rule: rtranclp_induct)
    case base
    then show ?case using assms(2) by simp
  next
    case (step a b)
    from step.hyps(2) step.IH show ?case
      by (cases rule: cc_step.cases) (auto simp: tryAcquire_def release_def split: option.splits if_splits)
  qed
  from this[OF assms(1)] show ?thesis by simp
qed

text \<open>Whatever the policy file holds, a policy that is read from it has no limit or one
  between 1 and 10,000, and a policy that was set is the policy every later read returns.\<close>

theorem concurrency_policy_persists:
  assumes "ready cc_readFromDisk st" "setConcurrencyPolicy c n actor st = (Inr (Inr (p, before)), st')"
  shows "fst (getConcurrencyPolicy now st') = Inr p \<and> cp_limit p = Some (num_floor n)
    \<and> 1 \<le> num_floor n \<and> num_floor n \<le> 10000 \<and> jsint (num_floor n) = n \<and> wf_policy before"
proof -
  have n: "isInteger n" "\<not> num_lt n (jsint MIN_LIMIT)" "\<not> num_lt (jsint MAX_LIMIT) n"
    using assms(2) by (auto simp: setConcurrencyPolicy_def split: if_splits)
  obtain k where k: "n = jsint k" using isInteger_floor[OF n(1)] by blast
  then have r: "1 \<le> num_floor n" "num_floor n \<le> 10000" "jsint (num_floor n) = n"
    using n(2,3) by (auto simp: MIN_LIMIT_def MAX_LIMIT_def)
  have p: "p = \<lparr>cp_limit = Some (num_floor n), cp_updated_at = Some (toISOString (c 1)), cp_updated_by = actor\<rparr>"
    and b: "before = contents cc_readFromDisk st"
    and st': "st' = cc_writeToDisk (c 2) p (snd (getConcurrencyPolicy (c 0) st))"
    using assms n by (auto simp: setConcurrencyPolicy_def Let_def)
  have w: "wf_policy p" using r by (simp add: p wf_policy_def)
  have "fst (getConcurrencyPolicy now st') = Inr p"
    unfolding getConcurrencyPolicy_def st' cc_writeToDisk_def cc_readFromDisk_def
    by (rule cc.load_after_write[OF w])
  moreover have "wf_policy before"
    using assms(1) read_policy_wf by (auto simp: b contents_def ready_def)
  ultimately show ?thesis using p r by auto
qed

theorem concurrency_cap_witness:
  "\<exists>f. (cc_step (\<lambda>p. \<exists>m. cp_limit p = Some m \<and> m \<le> 3))\<^sup>*\<^sup>* (0, 0) (f, 1) \<and> f = 1 \<and> f \<le> 3"
proof -
  let ?P = "\<lambda>p. \<exists>m. cp_limit p = Some m \<and> m \<le> (3 :: int)"
  let ?p = "\<lparr>cp_limit = Some 3, cp_updated_at = None, cp_updated_by = None\<rparr>"
  have "cc_step ?P (0, 0) (1, Suc 0)"
    by (rule cc_step.start[of ?P ?p]) (auto simp: tryAcquire_def)
  then have s: "(cc_step ?P)\<^sup>*\<^sup>* (0, 0) (1, 1)" by auto
  from concurrency_cap[OF this] s show ?thesis by auto
qed

definition fresh_store :: "'s cstore" where
  "fresh_store = \<lparr>cs_file = Absent, cs_cache = None\<rparr>"

theorem concurrency_policy_persists_witness:
  "\<exists>p b st'. setConcurrencyPolicy (\<lambda>_. 5) (jsint 8) None fresh_store = (Inr (Inr (p, b)), st')
     \<and> fst (getConcurrencyPolicy 9000 st') = Inr p"
proof -
  have r: "ready cc_readFromDisk fresh_store"
    by (simp add: ready_def coherent_def fresh_store_def cc_readFromDisk_def)
  obtain p b st' where s: "setConcurrencyPolicy (\<lambda>_. 5) (jsint 8) None fresh_store = (Inr (Inr (p, b)), st')"
    using r by (simp add: setConcurrencyPolicy_def MIN_LIMIT_def MAX_LIMIT_def Let_def)
  from concurrency_policy_persists[OF r s] s show ?thesis by blast
qed

end
