(* ===== verification/Freeze.thy ===== *)
theory Freeze
  imports JsonStore
begin

text \<open>
  The workspace freeze (\<^verbatim>\<open>src/web/lib/freezeStore.ts\<close>): a persisted flag with its history
  fields behind a one-second cache. Clock readings of a mutation: 0 the load, 1 the stamp,
  2 the write.
\<close>

definition FREEZE_MAX_REASON_LEN :: nat where "FREEZE_MAX_REASON_LEN = 500"

definition FREEZE_CACHE_TTL_MS :: int where "FREEZE_CACHE_TTL_MS = 1000"

record FreezeState =
  frozen :: bool
  fz_reason :: "string option"
  frozen_at :: "string option"
  frozen_by :: "string option"
  unfrozen_at :: "string option"
  unfrozen_by :: "string option"

definition DEFAULT_FREEZE :: FreezeState where
  "DEFAULT_FREEZE = \<lparr>frozen = False, fz_reason = None, frozen_at = None, frozen_by = None,
     unfrozen_at = None, unfrozen_by = None\<rparr>"

definition dec_freeze :: "json \<Rightarrow> FreezeState" where
  "dec_freeze j =
     (if falsy j \<or> \<not> is_object j then DEFAULT_FREEZE
      else \<lparr>frozen = jtruthy (jfield j ''frozen''), fz_reason = str_or_null (jfield j ''reason''),
            frozen_at = str_or_null (jfield j ''frozen_at''), frozen_by = str_or_null (jfield j ''frozen_by''),
            unfrozen_at = str_or_null (jfield j ''unfrozen_at''),
            unfrozen_by = str_or_null (jfield j ''unfrozen_by'')\<rparr>)"

definition enc_freeze :: "FreezeState \<Rightarrow> json" where
  "enc_freeze s = JObj
     [(''frozen'', JBool (frozen s)), (''reason'', jnullable (fz_reason s)),
      (''frozen_at'', jnullable (frozen_at s)), (''frozen_by'', jnullable (frozen_by s)),
      (''unfrozen_at'', jnullable (unfrozen_at s)), (''unfrozen_by'', jnullable (unfrozen_by s))]"

type_synonym freeze_store = "FreezeState cstore"

definition fz_readFromDisk :: "json_file \<Rightarrow> FreezeState res" where
  "fz_readFromDisk = read_json DEFAULT_FREEZE dec_freeze"

definition getFreezeState :: "int \<Rightarrow> freeze_store \<Rightarrow> FreezeState res \<times> freeze_store" where
  "getFreezeState = ttl_load FREEZE_CACHE_TTL_MS fz_readFromDisk"

definition fz_writeToDisk :: "int \<Rightarrow> FreezeState \<Rightarrow> freeze_store \<Rightarrow> freeze_store" where
  "fz_writeToDisk = ttl_write enc_freeze"

datatype FreezeError = F_bad_reason | F_already_frozen | F_not_frozen

definition freezeWorkspace ::
  "clock \<Rightarrow> string \<Rightarrow> string option \<Rightarrow> freeze_store \<Rightarrow> (FreezeError + FreezeState \<times> FreezeState) res \<times> freeze_store"
where
  "freezeWorkspace c raw actor st =
     (let reason = trim raw in
      if reason = [] then (Inr (Inl F_bad_reason), st)
      else if FREEZE_MAX_REASON_LEN < length reason then (Inr (Inl F_bad_reason), st)
      else with_load (getFreezeState (c 0)) (\<lambda>before st.
        if frozen before then (Inl F_already_frozen, st)
        else let next = \<lparr>frozen = True, fz_reason = Some reason, frozen_at = Some (toISOString (c 1)),
                         frozen_by = actor, unfrozen_at = None, unfrozen_by = None\<rparr>
             in (Inr (next, before), fz_writeToDisk (c 2) next st)) st)"

definition unfreezeWorkspace ::
  "clock \<Rightarrow> string option \<Rightarrow> freeze_store \<Rightarrow> (FreezeError + FreezeState \<times> FreezeState) res \<times> freeze_store" where
  "unfreezeWorkspace c actor = with_load (getFreezeState (c 0)) (\<lambda>before st.
     if \<not> frozen before then (Inl F_not_frozen, st)
     else let next = \<lparr>frozen = False, fz_reason = fz_reason before, frozen_at = frozen_at before,
                      frozen_by = frozen_by before, unfrozen_at = Some (toISOString (c 1)), unfrozen_by = actor\<rparr>
          in (Inr (next, before), fz_writeToDisk (c 2) next st))"

section \<open>Lemmas\<close>

lemma dec_enc_freeze: "dec_freeze (enc_freeze s) = s"
  by (simp add: dec_freeze_def enc_freeze_def)

interpretation fz: json_codec dec_freeze enc_freeze DEFAULT_FREEZE "\<lambda>_. True"
  by unfold_locales (simp_all add: dec_enc_freeze)

abbreviation fz_ready :: "freeze_store \<Rightarrow> bool" where
  "fz_ready \<equiv> ready fz_readFromDisk"

abbreviation freeze_now :: "freeze_store \<Rightarrow> FreezeState" where
  "freeze_now \<equiv> contents fz_readFromDisk"

lemma fz_write [simp]: "fz_ready (fz_writeToDisk t s st)" "freeze_now (fz_writeToDisk t s st) = s"
  unfolding fz_writeToDisk_def fz_readFromDisk_def by (simp_all add: fz.write_ready)

lemma fz_load [simp]:
  assumes "fz_ready st"
  shows "fz_ready (snd (getFreezeState t st))" "freeze_now (snd (getFreezeState t st)) = freeze_now st"
    "with_load (getFreezeState t) k st = (case k (freeze_now st) (snd (getFreezeState t st)) of (a, m) \<Rightarrow> (Inr a, m))"
  using assms unfolding getFreezeState_def by (simp_all add: ready_load)

lemma fz_get:
  assumes "fz_ready st"
  shows "fst (getFreezeState t st) = Inr (freeze_now st)"
proof -
  from assms obtain s where "fz_readFromDisk (cs_file st) = Inr s" by (auto simp: ready_def)
  then show ?thesis
    using ttl_load_coherent(1)[of fz_readFromDisk st FREEZE_CACHE_TTL_MS t] assms
    by (simp add: getFreezeState_def ready_def contents_def)
qed

section \<open>Properties\<close>

text \<open>The freeze is a two-state switch. From a store that can be read, freezing with a
  usable reason succeeds exactly when the workspace is not frozen and then every read, from
  the cache or from the file, finds it frozen with that reason; unfreezing succeeds exactly
  when it is frozen and keeps who froze it, when and why.\<close>

theorem freeze_switch:
  assumes "fz_ready st" "trim raw \<noteq> []" "length (trim raw) \<le> 500"
  shows "((\<exists>s st'. freezeWorkspace c raw actor st = (Inr (Inr (s, freeze_now st)), st') \<and> frozen s
            \<and> fz_reason s = Some (trim raw) \<and> frozen_by s = actor \<and> fst (getFreezeState t st') = Inr s)
         \<longleftrightarrow> \<not> frozen (freeze_now st))
    \<and> ((\<exists>s st'. unfreezeWorkspace c actor st = (Inr (Inr (s, freeze_now st)), st') \<and> \<not> frozen s
            \<and> fz_reason s = fz_reason (freeze_now st) \<and> frozen_by s = frozen_by (freeze_now st)
            \<and> unfrozen_by s = actor \<and> fst (getFreezeState t st') = Inr s)
         \<longleftrightarrow> frozen (freeze_now st))"
  using assms
  by (auto simp: freezeWorkspace_def unfreezeWorkspace_def Let_def FREEZE_MAX_REASON_LEN_def fz_get)

theorem freeze_switch_witness:
  "\<exists>s st'. freezeWorkspace (\<lambda>_. 5) ''leak'' None \<lparr>cs_file = Absent, cs_cache = None\<rparr> = (Inr (Inr (s, DEFAULT_FREEZE)), st')
     \<and> frozen s \<and> fst (getFreezeState 99 st') = Inr s"
proof -
  let ?st = "\<lparr>cs_file = Absent, cs_cache = None\<rparr> :: freeze_store"
  have r: "fz_ready ?st" "freeze_now ?st = DEFAULT_FREEZE"
    by (simp_all add: ready_def coherent_def contents_def fz_readFromDisk_def)
  have t: "trim ''leak'' = ''leak''" by code_simp
  show ?thesis
    using freeze_switch[OF r(1), of "''leak''" "\<lambda>_. 5" None 99] r(2) t
    by (auto simp: DEFAULT_FREEZE_def)
qed

end
