(* ===== verification/NetworkPolicy.thy ===== *)
theory NetworkPolicy
  imports IpMatch KeyStore
begin

text \<open>
  The two source-address policies: the workspace allowlist
  (\<^verbatim>\<open>src/web/lib/networkPolicyStore.ts\<close>) with its memo of parsed blocks, and the per-key
  allowlist (\<^verbatim>\<open>src/web/lib/keyIpPolicy.ts\<close>).
\<close>

section \<open>The workspace policy\<close>

record NetworkPolicy =
  np_enabled :: bool
  np_cidrs :: "string list"
  np_updated_at :: "string option"
  np_updated_by :: "string option"

definition DEFAULT_NET_POLICY :: NetworkPolicy where
  "DEFAULT_NET_POLICY = \<lparr>np_enabled = False, np_cidrs = [], np_updated_at = None, np_updated_by = None\<rparr>"

definition dec_net_policy :: "json \<Rightarrow> NetworkPolicy" where
  "dec_net_policy j =
     (if falsy j \<or> \<not> is_object j then DEFAULT_NET_POLICY
      else \<lparr>np_enabled = jtruthy (jfield j ''enabled''),
            np_cidrs = (case as_array (jfield j ''cidrs'') of None \<Rightarrow> [] | Some xs \<Rightarrow> the_strings xs),
            np_updated_at = str_or_null (jfield j ''updated_at''),
            np_updated_by = str_or_null (jfield j ''updated_by'')\<rparr>)"

definition enc_net_policy :: "NetworkPolicy \<Rightarrow> json" where
  "enc_net_policy p = JObj
     [(''enabled'', JBool (np_enabled p)), (''cidrs'', JArr (map JStr (np_cidrs p))),
      (''updated_at'', jnullable (np_updated_at p)), (''updated_by'', jnullable (np_updated_by p))]"

definition getPolicy :: "json_file \<Rightarrow> NetworkPolicy res" where
  "getPolicy = read_json DEFAULT_NET_POLICY dec_net_policy"

datatype NetUpdateError = N_cidr CidrError | N_empty_allowlist

text \<open>The submitted \<^verbatim>\<open>cidrs\<close>: \<open>None\<close> when it is not an array, else its entries.\<close>

definition updatePolicy ::
  "int \<Rightarrow> bool \<Rightarrow> string option list option \<Rightarrow> string option \<Rightarrow> json_file
   \<Rightarrow> (NetUpdateError + NetworkPolicy \<times> NetworkPolicy) res \<times> json_file" where
  "updatePolicy now enabled cidrs actor f =
     (case canonicalizeCidrList cidrs of
        Inl e \<Rightarrow> (Inr (Inl (N_cidr e)), f)
      | Inr canon \<Rightarrow>
          if enabled \<and> canon = [] then (Inr (Inl N_empty_allowlist), f)
          else (case getPolicy f of
                  Inl e \<Rightarrow> (Inl e, f)
                | Inr before \<Rightarrow>
                    (let next = \<lparr>np_enabled = enabled, np_cidrs = canon, np_updated_at = Some (toISOString now),
                                 np_updated_by = actor\<rparr>
                     in (Inr (Inr (next, before)), Holds (enc_net_policy next)))))"

definition parse_all :: "string list \<Rightarrow> ParsedCidr list" where
  "parse_all cs = List.map_filter parseCidr cs"

type_synonym cidr_cache = "(string \<times> ParsedCidr list) option"

definition parsedCidrs :: "NetworkPolicy \<Rightarrow> cidr_cache \<Rightarrow> ParsedCidr list \<times> cidr_cache" where
  "parsedCidrs policy cache =
     (let sig = join '','' (np_cidrs policy);
          fresh = (parse_all (np_cidrs policy), Some (sig, parse_all (np_cidrs policy)))
      in case cache of
           Some (sig', parsed) \<Rightarrow> if sig' = sig then (parsed, cache) else fresh
         | None \<Rightarrow> fresh)"

definition isLoopback :: "string \<Rightarrow> bool" where
  "isLoopback ip =
     (case normalizeIp ip of
        None \<Rightarrow> False
      | Some n \<Rightarrow> n \<noteq> [] \<and> (n = ''127.0.0.1'' \<or> n = ''::1''))"

datatype CheckDecision = PolicyDisabled | Loopback | Matched | NoIp | NotMatched string

fun net_allowed :: "CheckDecision \<Rightarrow> bool" where
  "net_allowed NoIp = False"
| "net_allowed (NotMatched ip) = False"
| "net_allowed d = True"

definition decideAllowed :: "headers \<Rightarrow> NetworkPolicy \<Rightarrow> cidr_cache \<Rightarrow> CheckDecision \<times> cidr_cache" where
  "decideAllowed req policy cache =
     (if \<not> np_enabled policy then (PolicyDisabled, cache)
      else let ip = clientIpFromRequest req in
        if ip = [] then (NoIp, cache)
        else if isLoopback ip then (Loopback, cache)
        else case parsedCidrs policy cache of
          (parsed, cache') \<Rightarrow>
            if parsed = [] then (PolicyDisabled, cache')
            else if ipMatchesAny ip parsed then (Matched, cache') else (NotMatched ip, cache'))"

section \<open>The per-key policy\<close>

datatype IpDecision = IpAllowed | IpDenied string

definition decideKeyIpAllowed :: "headers \<Rightarrow> StoredKey \<Rightarrow> IpDecision" where
  "decideKeyIpAllowed req key =
     (case k_ip_allowlist key of
        None \<Rightarrow> IpAllowed
      | Some xs \<Rightarrow>
          if xs = [] then IpAllowed
          else let parsed = parse_all xs in
            if parsed = [] then IpAllowed
            else let ip = clientIpFromRequest req in
              if ip \<noteq> [] \<and> ipMatchesAny ip parsed then IpAllowed
              else IpDenied (if ip \<noteq> [] then ''ip_not_allowed:'' @ ip else ''ip_not_allowed:unknown''))"

section \<open>Lemmas\<close>

lemma dec_enc_net_policy: "dec_net_policy (enc_net_policy p) = p"
  by (simp add: dec_net_policy_def enc_net_policy_def)

interpretation net: json_codec dec_net_policy enc_net_policy DEFAULT_NET_POLICY "\<lambda>_. True"
  by unfold_locales (simp_all add: dec_enc_net_policy)

lemma parse_all_nonempty:
  assumes "canonical xs" "xs \<noteq> []"
  shows "parse_all xs \<noteq> []"
proof -
  obtain y ys where y: "xs = y # ys" using assms(2) by (cases xs) auto
  then obtain c where "parseCidr y = Some c" using canonical_parses[OF assms(1), of y] by auto
  then show ?thesis by (simp add: parse_all_def y List.map_filter_simps)
qed

lemma hex_not_comma: "\<not> is_hex (CHR '','')" "\<not> is_digit (CHR '','')"
  by (simp_all add: is_hex_def is_digit_def)

lemma cidr_no_comma:
  assumes "wf_cidr c"
  shows "CHR '','' \<notin> set (cidrToString c)"
proof (cases c)
  case (V4 bits v)
  have "CHR '','' \<notin> set (dec_str bits)"
    using assms V4 numeral_str_set[of 10 bits is_digit] hex_not_comma by (auto simp: list_all_iff)
  with V4 v4_addr_chars[of v "[3, 2, 1, 0]"] hex_not_comma show ?thesis
    unfolding V4 cidrToString.simps by auto
next
  case (V6 bits v)
  have d: "CHR '','' \<notin> set (dec_str bits)"
    using assms V6 numeral_str_set[of 10 bits is_digit] hex_not_comma by (auto simp: list_all_iff)
  have g: "CHR '','' \<notin> set (hex_str (x mod 65536))" for x :: int
    using hex14_hex_str[of "x mod 65536"] pos_mod_bound[of 65536 x] hex_not_comma
    by (auto simp: hex14_def list_all_iff)
  have "CHR '','' \<notin> set (v6_addr (map (\<lambda>i. hex_str (v div 65536 ^ i mod 65536)) is))"
    if "length is = 8" for "is"
    using v6_addr_chars(1)[of "map (\<lambda>i. hex_str (v div 65536 ^ i mod 65536)) is"] that g by auto
  from this[of "[7, 6, 5, 4, 3, 2, 1, 0]"] d show ?thesis
    unfolding V6 cidrToString.simps by auto
qed

lemma canonical_join_inj:
  assumes "canonical xs" "canonical ys" "join '','' xs = join '','' ys"
  shows "xs = ys"
proof -
  have nc: "\<forall>p\<in>set zs. CHR '','' \<notin> set p" and ne: "join '','' zs = [] \<longleftrightarrow> zs = []" if "canonical zs" for zs
  proof -
    show "\<forall>p\<in>set zs. CHR '','' \<notin> set p" using that cidr_no_comma by (auto simp: canonical_def)
    have "z \<noteq> []" if "z \<in> set zs" for z using that \<open>canonical zs\<close> cidr_trim(2) unfolding canonical_def by metis
    then show "join '','' zs = [] \<longleftrightarrow> zs = []" by (cases zs) (auto simp: join_Cons)
  qed
  show ?thesis
  proof (cases "xs = []")
    case True
    with assms ne show ?thesis by metis
  next
    case False
    then have "ys \<noteq> []" using assms ne by metis
    with False show ?thesis
      using split_join[OF False nc[OF assms(1)]] split_join[of ys, OF _ nc[OF assms(2)]] assms(3) by metis
  qed
qed

definition memo_ok :: "cidr_cache \<Rightarrow> bool" where
  "memo_ok cache \<longleftrightarrow> (case cache of None \<Rightarrow> True
     | Some (sig, ps) \<Rightarrow> \<exists>cs. canonical cs \<and> sig = join '','' cs \<and> ps = parse_all cs)"

lemma parsedCidrs_memo:
  assumes "memo_ok cache" "canonical (np_cidrs p)"
  shows "fst (parsedCidrs p cache) = parse_all (np_cidrs p)" "memo_ok (snd (parsedCidrs p cache))"
  using assms canonical_join_inj[of _ "np_cidrs p"]
  by (auto simp: parsedCidrs_def memo_ok_def Let_def split: option.splits prod.splits)

lemma updatePolicy_canonical:
  assumes "updatePolicy now en cidrs actor f = (Inr (Inr (p, before)), f')"
  shows "canonical (np_cidrs p)" "np_enabled p \<Longrightarrow> np_cidrs p \<noteq> []" "getPolicy f' = Inr p" "np_enabled p = en"
  using assms canonicalize_canonical
  by (auto simp: updatePolicy_def Let_def getPolicy_def dec_enc_net_policy split: sum.splits if_splits)

section \<open>Properties\<close>

text \<open>A policy that was saved enabled is what the next read returns, and it never
  degrades to allowing everybody: a request passes exactly when its client address is known
  and is loopback or inside one of the saved blocks, also when the parsed blocks come from
  the memo.\<close>

theorem network_policy_enforced:
  assumes "updatePolicy now True cidrs actor f = (Inr (Inr (p, before)), f')" "memo_ok cache"
  shows "getPolicy f' = Inr p
    \<and> (net_allowed (fst (decideAllowed req p cache))
       \<longleftrightarrow> clientIpFromRequest req \<noteq> [] \<and> (isLoopback (clientIpFromRequest req)
            \<or> ipMatchesAny (clientIpFromRequest req) (parse_all (np_cidrs p))))
    \<and> memo_ok (snd (decideAllowed req p cache))"
proof -
  note u = updatePolicy_canonical[OF assms(1)]
  note m = parsedCidrs_memo[OF assms(2) u(1)]
  have "parse_all (np_cidrs p) \<noteq> []" using parse_all_nonempty[OF u(1)] u(2,4) by simp
  then show ?thesis
    using u m assms(2) by (auto simp: decideAllowed_def Let_def split: prod.splits)
qed

text \<open>A key with a non-empty canonical allowlist is usable only from a known address inside
  one of its blocks.\<close>

theorem key_ip_enforced:
  assumes "k_ip_allowlist k = Some xs" "canonicalizeCidrList es = Inr xs" "xs \<noteq> []"
  shows "decideKeyIpAllowed req k = IpAllowed
    \<longleftrightarrow> clientIpFromRequest req \<noteq> [] \<and> ipMatchesAny (clientIpFromRequest req) (parse_all xs)"
  using assms parse_all_nonempty[OF canonicalize_canonical[OF assms(2)]]
  by (simp add: decideKeyIpAllowed_def Let_def)

lemma sample_canon: "canonicalizeCidrList (Some [Some ''10.0.0.0/8'']) = Inr [''10.0.0.0/8'']"
  by code_simp

theorem network_policy_enforced_witness:
  "\<exists>p b f'. updatePolicy 5 True (Some [Some ''10.0.0.0/8'']) None Absent = (Inr (Inr (p, b)), f')
     \<and> \<not> net_allowed (fst (decideAllowed (\<lambda>_. None) p None))"
proof -
  obtain p b f' where u: "updatePolicy 5 True (Some [Some ''10.0.0.0/8'']) None Absent = (Inr (Inr (p, b)), f')"
    by (simp add: updatePolicy_def sample_canon getPolicy_def Let_def)
  have "\<not> net_allowed (fst (decideAllowed (\<lambda>_. None) p None))"
    using network_policy_enforced[OF u, of None "\<lambda>_. None"] by (simp add: memo_ok_def clientIpFromRequest_def)
  with u show ?thesis by blast
qed

theorem key_ip_enforced_witness:
  "decideKeyIpAllowed sample_headers (sample_key\<lparr>k_ip_allowlist := Some [''10.0.0.0/8'']\<rparr>) = IpAllowed"
proof -
  have "ipMatchesAny ''10.0.0.1'' (parse_all [''10.0.0.0/8''])" by code_simp
  then show ?thesis
    using key_ip_enforced[of "sample_key\<lparr>k_ip_allowlist := Some [''10.0.0.0/8'']\<rparr>" "[''10.0.0.0/8'']"
        "Some [Some ''10.0.0.0/8'']" sample_headers] sample_canon by (simp add: sample_ip)
qed

end
