(* ===== verification/RotationPolicy.thy ===== *)
theory RotationPolicy
  imports KeyStore
begin

text \<open>
  The workspace-wide key rotation policy (\<^verbatim>\<open>src/web/lib/rotationPolicy.ts\<close>). Printing a date
  outside JavaScript's range throws a \<^verbatim>\<open>RangeError\<close>; the evaluation prints \<^verbatim>\<open>rotate_by\<close>, so it is a
  fallible operation.
\<close>

record RotationPolicy =
  rp_max_age_days :: int
  rp_warn_days :: int
  rp_updated_at :: string
  rp_updated_by :: "string option"

definition envInt :: "string option \<Rightarrow> int \<Rightarrow> int" where
  "envInt raw fallback =
     (case raw of
        None \<Rightarrow> fallback
      | Some s \<Rightarrow> if s = [] then fallback
                  else case parseInt10 s of None \<Rightarrow> fallback | Some n \<Rightarrow> if n < 0 then fallback else n)"

text \<open>The two environment variables of the defaults: the maximal age and the warning period.\<close>

definition rot_defaultPolicy :: "string option \<times> string option \<Rightarrow> RotationPolicy" where
  "rot_defaultPolicy env =
     \<lparr>rp_max_age_days = envInt (fst env) 0, rp_warn_days = envInt (snd env) 7,
      rp_updated_at = ''1970-01-01T00:00:00.000Z'', rp_updated_by = None\<rparr>"

definition days_field :: "json option \<Rightarrow> int \<Rightarrow> int" where
  "days_field j d = (case as_number j of
     None \<Rightarrow> d | Some n \<Rightarrow> if isFinite n then max 0 (num_floor n) else d)"

definition rot_normalize :: "string option \<times> string option \<Rightarrow> json \<Rightarrow> RotationPolicy" where
  "rot_normalize env j =
     (let d = rot_defaultPolicy env in
      \<lparr>rp_max_age_days = days_field (jfield j ''max_age_days'') (rp_max_age_days d),
       rp_warn_days = days_field (jfield j ''warn_days'') (rp_warn_days d),
       rp_updated_at = (case str_or_null (jfield j ''updated_at'') of None \<Rightarrow> rp_updated_at d | Some s \<Rightarrow> s),
       rp_updated_by = str_or_null (jfield j ''updated_by'')\<rparr>)"

definition enc_rotation :: "RotationPolicy \<Rightarrow> json" where
  "enc_rotation p = JObj
     [(''max_age_days'', JNum (jsint (rp_max_age_days p))), (''warn_days'', JNum (jsint (rp_warn_days p))),
      (''updated_at'', JStr (rp_updated_at p)), (''updated_by'', jnullable (rp_updated_by p))]"

definition getRotationPolicy :: "string option \<times> string option \<Rightarrow> json_file \<Rightarrow> RotationPolicy res" where
  "getRotationPolicy env = read_json (rot_defaultPolicy env) (rot_normalize env)"

definition setRotationPolicy ::
  "string option \<times> string option \<Rightarrow> int \<Rightarrow> jsnum option \<Rightarrow> jsnum option \<Rightarrow> string option \<Rightarrow> json_file
   \<Rightarrow> RotationPolicy res \<times> json_file" where
  "setRotationPolicy env now max_age warn by f =
     (case getRotationPolicy env f of
        Inl e \<Rightarrow> (Inl e, f)
      | Inr current \<Rightarrow>
          (let m = (case max_age of None \<Rightarrow> jsint (rp_max_age_days current) | Some x \<Rightarrow> x);
               w = (case warn of None \<Rightarrow> jsint (rp_warn_days current) | Some x \<Rightarrow> x)
           in if \<not> isFinite m \<or> num_lt m (jsint 0)
              then (Inl (Thrown ''invalid_policy: max_age_days must be a non-negative integer''), f)
              else if \<not> isFinite w \<or> num_lt w (jsint 0)
              then (Inl (Thrown ''invalid_policy: warn_days must be a non-negative integer''), f)
              else (let next = \<lparr>rp_max_age_days = num_floor m, rp_warn_days = num_floor w,
                                rp_updated_at = toISOString now, rp_updated_by = by\<rparr>
                    in (Inr next, Holds (enc_rotation next)))))"

section \<open>Evaluation\<close>

datatype RotationStatus = Rot_ok | Rot_warning | Rot_stale | Rot_disabled

record RotationEvaluation =
  re_status :: RotationStatus
  re_age_days :: int
  re_days_until :: "int option"
  re_rotate_by :: "string option"
  re_policy :: RotationPolicy

text \<open>\<^verbatim>\<open>new Date(t).toISOString()\<close>\<close>

definition print_date :: "int \<Rightarrow> string res" where
  "print_date t = (if time_ok t then Inr (toISOString t) else Inl (Thrown ''Invalid time value''))"

definition evaluateKeyRotation :: "host \<Rightarrow> StoredKey \<Rightarrow> RotationPolicy \<Rightarrow> int \<Rightarrow> RotationEvaluation res" where
  "evaluateKeyRotation H key policy now =
     (let t0 = date_parse H (k_created_at key);
          ageMs = (case t0 of None \<Rightarrow> 0 | Some t \<Rightarrow> max 0 (now - t));
          age = ageMs div DAY_MS
      in if rp_max_age_days policy \<le> 0
         then Inr \<lparr>re_status = Rot_disabled, re_age_days = age, re_days_until = None, re_rotate_by = None,
                   re_policy = policy\<rparr>
         else case (case t0 of None \<Rightarrow> Inr None
                    | Some t \<Rightarrow> map_sum id Some (print_date (t + rp_max_age_days policy * DAY_MS))) of
           Inl e \<Rightarrow> Inl e
         | Inr rotate_by \<Rightarrow>
             (let days = rp_max_age_days policy - age;
                  status = (if days \<le> 0 then Rot_stale
                            else if days \<le> rp_warn_days policy then Rot_warning else Rot_ok)
              in Inr \<lparr>re_status = status, re_age_days = age, re_days_until = Some days,
                      re_rotate_by = rotate_by, re_policy = policy\<rparr>))"

definition decideRotationBlock :: "host \<Rightarrow> StoredKey \<Rightarrow> RotationPolicy \<Rightarrow> int \<Rightarrow> (bool \<times> RotationEvaluation) res" where
  "decideRotationBlock H key policy now =
     map_sum id (\<lambda>ev. (re_status ev = Rot_stale, ev)) (evaluateKeyRotation H key policy now)"

section \<open>Lemmas\<close>

definition wf_rotation :: "RotationPolicy \<Rightarrow> bool" where
  "wf_rotation p \<longleftrightarrow> 0 \<le> rp_max_age_days p \<and> 0 \<le> rp_warn_days p"

lemma normalize_enc: "wf_rotation p \<Longrightarrow> rot_normalize env (enc_rotation p) = p"
  by (simp add: rot_normalize_def enc_rotation_def days_field_def wf_rotation_def Let_def)

lemma envInt_nonneg: "0 \<le> d \<Longrightarrow> 0 \<le> envInt raw d"
  by (simp add: envInt_def split: option.splits)

interpretation rot: json_codec "rot_normalize env" enc_rotation "rot_defaultPolicy env" wf_rotation for env
  by unfold_locales (simp_all add: normalize_enc wf_rotation_def rot_defaultPolicy_def envInt_nonneg)

lemma floor_nonneg: "\<lbrakk>isFinite x; \<not> num_lt x (jsint 0)\<rbrakk> \<Longrightarrow> 0 \<le> num_floor x"
  by (cases x) auto

lemma setRotationPolicy_wf:
  "setRotationPolicy env now m w by f = (Inr p, f') \<Longrightarrow> wf_rotation p \<and> f' = Holds (enc_rotation p)"
  by (auto simp: setRotationPolicy_def wf_rotation_def Let_def floor_nonneg split: sum.splits if_splits)

lemma day_reached: "(n \<le> ms div DAY_MS) \<longleftrightarrow> (n * DAY_MS \<le> ms)"
proof -
  have "DAY_MS * (ms div DAY_MS) \<le> ms" "ms < DAY_MS * (ms div DAY_MS) + DAY_MS"
    using div_bounds[of DAY_MS ms] by (simp_all add: DAY_MS_def)
  then show ?thesis by (auto simp: DAY_MS_def)
qed

section \<open>Properties\<close>

text \<open>The rotation cutoff is exact. For a key whose creation stamp the store wrote, the
  guard refuses it exactly from the announced \<^verbatim>\<open>rotate_by\<close> instant on (creation plus the
  maximal age), and never when the policy is off.\<close>

theorem rotation_cutoff_exact:
  assumes "k_created_at k = toISOString t0" "time_ok t0" "0 \<le> rp_max_age_days p"
    and "time_ok (t0 + rp_max_age_days p * DAY_MS)"
  shows "\<exists>ev. decideRotationBlock H k p now = Inr (0 < rp_max_age_days p \<and> t0 + rp_max_age_days p * DAY_MS \<le> now, ev)
    \<and> (if 0 < rp_max_age_days p then re_rotate_by ev = Some (toISOString (t0 + rp_max_age_days p * DAY_MS))
       else re_rotate_by ev = None)"
proof -
  have "(rp_max_age_days p - max 0 (now - t0) div DAY_MS \<le> 0) \<longleftrightarrow> t0 + rp_max_age_days p * DAY_MS \<le> now"
    if "0 < rp_max_age_days p"
  proof -
    have "0 < rp_max_age_days p * DAY_MS" using that by (simp add: DAY_MS_def)
    with day_reached[of "rp_max_age_days p" "max 0 (now - t0)"] show ?thesis by auto
  qed
  with assms show ?thesis
    by (auto simp: decideRotationBlock_def evaluateKeyRotation_def print_date_def Let_def)
qed

text \<open>A rotation policy that was set is what every later read returns.\<close>

theorem rotation_policy_roundtrip:
  assumes "setRotationPolicy env now m w by f = (Inr p, f')"
  shows "getRotationPolicy env f' = Inr p"
  using setRotationPolicy_wf[OF assms] rot.read_written[of p env] by (simp add: getRotationPolicy_def)

text \<open>The maximal age has no upper bound, and an absurd one takes the API down: the policy
  is accepted, and then evaluating any key with a readable creation stamp throws, so the
  guard fails every request instead of letting keys through.\<close>

theorem huge_rotation_age_throws:
  assumes "100000000 < n" "date_parse H (k_created_at k) = Some t0" "0 \<le> t0"
  shows "\<exists>p f'. setRotationPolicy env now (Some (jsint n)) None by Absent = (Inr p, f')
    \<and> decideRotationBlock H k p now' = Inl (Thrown ''Invalid time value'')"
proof -
  have "\<not> time_ok (t0 + n * DAY_MS)" using assms(1,3) by (auto simp: time_ok_def DAY_MS_def)
  with assms show ?thesis
    by (auto simp: setRotationPolicy_def getRotationPolicy_def rot_defaultPolicy_def envInt_nonneg Let_def not_less
        decideRotationBlock_def evaluateKeyRotation_def print_date_def)
qed

definition sample_rotation :: RotationPolicy where
  "sample_rotation = \<lparr>rp_max_age_days = 90, rp_warn_days = 7, rp_updated_at = [], rp_updated_by = None\<rparr>"

theorem rotation_cutoff_exact_witness:
  "\<exists>ev. decideRotationBlock sample_host sample_key sample_rotation 7776000000 = Inr (True, ev)"
  using rotation_cutoff_exact[of sample_key 0 sample_rotation sample_host 7776000000]
  by (auto simp: sample_key_def sample_rotation_def time_ok_def DAY_MS_def)

theorem rotation_policy_roundtrip_witness:
  "\<exists>p f'. setRotationPolicy (None, None) 5 (Some (jsint 90)) None None Absent = (Inr p, f')
     \<and> getRotationPolicy (None, None) f' = Inr p"
proof -
  obtain p f' where s: "setRotationPolicy (None, None) 5 (Some (jsint 90)) None None Absent = (Inr p, f')"
    by (simp add: setRotationPolicy_def getRotationPolicy_def rot_defaultPolicy_def envInt_def Let_def)
  from rotation_policy_roundtrip[OF s] s show ?thesis by blast
qed

theorem huge_rotation_age_throws_witness:
  "\<exists>p f'. setRotationPolicy (None, None) 5 (Some (jsint 200000000)) None None Absent = (Inr p, f')
     \<and> decideRotationBlock sample_host sample_key p 7 = Inl (Thrown ''Invalid time value'')"
  by (rule huge_rotation_age_throws[of _ _ _ 0]) (simp_all add: sample_key_def time_ok_def)

end
