(* ===== verification/Residency.thy ===== *)
theory Residency
  imports IpMatch
begin

text \<open>
  The data residency policy (\<^verbatim>\<open>src/web/lib/residencyStore.ts\<close>): the pinned region and mode, the
  region a request resolves to, and the decision.
\<close>

datatype Region = US | EU | AP | Global

datatype ResidencyMode = Off | Monitor | Enforce

definition REGION_VALUES :: "(string \<times> Region) list" where
  "REGION_VALUES = [(''us'', US), (''eu'', EU), (''ap'', AP), (''global'', Global)]"

definition MODE_VALUES :: "(string \<times> ResidencyMode) list" where
  "MODE_VALUES = [(''off'', Off), (''monitor'', Monitor), (''enforce'', Enforce)]"

fun region_str :: "Region \<Rightarrow> string" where
  "region_str US = ''us''" | "region_str EU = ''eu''" | "region_str AP = ''ap''" | "region_str Global = ''global''"

fun mode_str :: "ResidencyMode \<Rightarrow> string" where
  "mode_str Off = ''off''" | "mode_str Monitor = ''monitor''" | "mode_str Enforce = ''enforce''"

record ResidencyPolicy =
  dr_region :: Region
  dr_mode :: ResidencyMode
  dr_updated_at :: string
  dr_updated_by :: "string option"

definition REGION_COUNTRIES :: "(string \<times> Region) list" where
  "REGION_COUNTRIES =
     map (\<lambda>c. (c, US)) [''US'', ''CA'', ''MX'']
     @ map (\<lambda>c. (c, EU))
        [''AT'', ''BE'', ''BG'', ''HR'', ''CY'', ''CZ'', ''DK'', ''EE'', ''FI'', ''FR'', ''DE'', ''GR'',
         ''HU'', ''IE'', ''IT'', ''LV'', ''LT'', ''LU'', ''MT'', ''NL'', ''PL'', ''PT'', ''RO'', ''SK'',
         ''SI'', ''ES'', ''SE'', ''IS'', ''LI'', ''NO'', ''CH'', ''GB'']
     @ map (\<lambda>c. (c, AP))
        [''JP'', ''KR'', ''SG'', ''AU'', ''NZ'', ''IN'', ''HK'', ''TW'', ''MY'', ''ID'', ''PH'', ''TH'', ''VN'']"

definition envRegion :: "string option \<Rightarrow> Region" where
  "envRegion raw = (case map_of REGION_VALUES (toLowerCase (or_empty raw)) of None \<Rightarrow> Global | Some r \<Rightarrow> r)"

definition envMode :: "string option \<Rightarrow> ResidencyMode" where
  "envMode raw = (case map_of MODE_VALUES (toLowerCase (or_empty raw)) of None \<Rightarrow> Off | Some m \<Rightarrow> m)"

definition res_defaultPolicy :: "string option \<times> string option \<Rightarrow> ResidencyPolicy" where
  "res_defaultPolicy env =
     \<lparr>dr_region = envRegion (fst env), dr_mode = envMode (snd env),
      dr_updated_at = ''1970-01-01T00:00:00.000Z'', dr_updated_by = None\<rparr>"

definition res_normalize :: "string option \<times> string option \<Rightarrow> json \<Rightarrow> ResidencyPolicy" where
  "res_normalize env j =
     (let d = res_defaultPolicy env in
      \<lparr>dr_region = (case Option.bind (str_or_null (jfield j ''region'')) (map_of REGION_VALUES) of
                      None \<Rightarrow> dr_region d | Some r \<Rightarrow> r),
       dr_mode = (case Option.bind (str_or_null (jfield j ''mode'')) (map_of MODE_VALUES) of
                    None \<Rightarrow> dr_mode d | Some m \<Rightarrow> m),
       dr_updated_at = (case str_or_null (jfield j ''updated_at'') of None \<Rightarrow> dr_updated_at d | Some s \<Rightarrow> s),
       dr_updated_by = str_or_null (jfield j ''updated_by'')\<rparr>)"

definition enc_residency :: "ResidencyPolicy \<Rightarrow> json" where
  "enc_residency p = JObj
     [(''region'', JStr (region_str (dr_region p))), (''mode'', JStr (mode_str (dr_mode p))),
      (''updated_at'', JStr (dr_updated_at p)), (''updated_by'', jnullable (dr_updated_by p))]"

definition getResidencyPolicy :: "string option \<times> string option \<Rightarrow> json_file \<Rightarrow> ResidencyPolicy res" where
  "getResidencyPolicy env = read_json (res_defaultPolicy env) (res_normalize env)"

text \<open>\<^verbatim>\<open>updated_by\<close> is \<open>None\<close> when the caller does not pass it, \<open>Some v\<close> when it passes \<open>v\<close>.\<close>

definition setResidencyPolicy ::
  "string option \<times> string option \<Rightarrow> int \<Rightarrow> string option \<Rightarrow> string option \<Rightarrow> string option option \<Rightarrow> json_file
   \<Rightarrow> ResidencyPolicy res \<times> json_file" where
  "setResidencyPolicy env now region mode by f =
     (if region \<noteq> None \<and> map_of REGION_VALUES (the region) = None
      then (Inl (Thrown ''invalid_policy: region must be one of us, eu, ap, global''), f)
      else if mode \<noteq> None \<and> map_of MODE_VALUES (the mode) = None
      then (Inl (Thrown ''invalid_policy: mode must be one of off, monitor, enforce''), f)
      else case getResidencyPolicy env f of
        Inl e \<Rightarrow> (Inl e, f)
      | Inr current \<Rightarrow>
          (let next = \<lparr>dr_region = (case Option.bind region (map_of REGION_VALUES) of None \<Rightarrow> dr_region current | Some r \<Rightarrow> r),
                       dr_mode = (case Option.bind mode (map_of MODE_VALUES) of None \<Rightarrow> dr_mode current | Some m \<Rightarrow> m),
                       dr_updated_at = toISOString now,
                       dr_updated_by = (case by of None \<Rightarrow> dr_updated_by current | Some b \<Rightarrow> b)\<rparr>
           in (Inr next, Holds (enc_residency next))))"

section \<open>Decision\<close>

definition COUNTRY_HEADERS :: "string list" where
  "COUNTRY_HEADERS = [''x-vercel-ip-country'', ''cf-ipcountry'', ''x-forwarded-country'', ''x-country'']"

datatype RegionSource = Explicit | Country | UnknownSource

fun country_region :: "headers \<Rightarrow> string list \<Rightarrow> (Region \<times> RegionSource \<times> string option)" where
  "country_region req [] = (Global, UnknownSource, None)"
| "country_region req (h # hs) =
     (let v = toUpperCase (trim (or_empty (req h))) in
      case (if v = [] then None else map_of REGION_COUNTRIES v) of
        None \<Rightarrow> country_region req hs
      | Some r \<Rightarrow> (r, Country, Some v))"

definition detectRequestRegion :: "headers \<Rightarrow> (Region \<times> RegionSource \<times> string option)" where
  "detectRequestRegion req =
     (let explicit = toLowerCase (trim (or_empty (req ''x-data-region''))) in
      case (if explicit = [] then None else map_of REGION_VALUES explicit) of
        Some r \<Rightarrow> (r, Explicit, Some explicit)
      | None \<Rightarrow> country_region req COUNTRY_HEADERS)"

datatype ResidencyStatus = Res_ok | Res_warn | Res_blocked

record ResidencyDecision =
  rs_allowed :: bool
  rs_status :: ResidencyStatus
  rs_policy_region :: Region
  rs_request_region :: Region
  rs_request_source :: RegionSource
  rs_mode :: ResidencyMode

definition isMutating :: "string \<Rightarrow> bool" where
  "isMutating meth \<longleftrightarrow> toUpperCase meth \<in> set [''POST'', ''PUT'', ''PATCH'', ''DELETE'']"

definition decideResidency :: "headers \<Rightarrow> ResidencyPolicy \<Rightarrow> string \<Rightarrow> ResidencyDecision" where
  "decideResidency req policy meth =
     (case detectRequestRegion req of
        (region, src, raw) \<Rightarrow>
          (let d = (\<lambda>allowed status. \<lparr>rs_allowed = allowed, rs_status = status, rs_policy_region = dr_region policy,
                      rs_request_region = region, rs_request_source = src, rs_mode = dr_mode policy\<rparr>)
           in if dr_mode policy = Off \<or> dr_region policy = Global then d True Res_ok
              else if region = dr_region policy then d True Res_ok
              else if dr_mode policy = Monitor \<or> \<not> isMutating meth then d True Res_warn
              else d False Res_blocked))"

section \<open>Lemmas\<close>

lemma region_values [simp]: "map_of REGION_VALUES (region_str r) = Some r"
  by (cases r) (simp_all add: REGION_VALUES_def)

lemma mode_values [simp]: "map_of MODE_VALUES (mode_str m) = Some m"
  by (cases m) (simp_all add: MODE_VALUES_def)

interpretation resid: json_codec "res_normalize env" enc_residency "res_defaultPolicy env" "\<lambda>_. True" for env
  by unfold_locales (simp_all add: res_normalize_def enc_residency_def Let_def)

section \<open>Properties\<close>

text \<open>A request is refused for residency exactly when the policy is enforcing, pins a
  region other than global, the request mutates, and it resolves to a different region; every
  other mismatch of an active policy passes with a warning.\<close>

theorem residency_decision:
  "rs_allowed (decideResidency req p meth) = (\<not> (dr_mode p = Enforce \<and> dr_region p \<noteq> Global
      \<and> fst (detectRequestRegion req) \<noteq> dr_region p \<and> isMutating meth))
   \<and> (rs_status (decideResidency req p meth) = Res_warn) = (dr_mode p \<noteq> Off \<and> dr_region p \<noteq> Global
      \<and> fst (detectRequestRegion req) \<noteq> dr_region p \<and> \<not> (dr_mode p = Enforce \<and> isMutating meth))"
  by (cases "dr_mode p") (auto simp: decideResidency_def Let_def split: prod.splits)

text \<open>A country the table does not list is not let through: under an enforced pin a
  mutating request from an unlisted country, or without any geographic header, is refused.\<close>

theorem unlisted_country_is_blocked:
  assumes "dr_mode p = Enforce" "dr_region p \<noteq> Global" "isMutating meth"
    and "req ''x-data-region'' = None"
    and "list_all (\<lambda>h. map_of REGION_COUNTRIES (toUpperCase (trim (or_empty (req h)))) = None) COUNTRY_HEADERS"
  shows "\<not> rs_allowed (decideResidency req p meth)"
proof -
  have "fst (country_region req hs) = Global"
    if "list_all (\<lambda>h. map_of REGION_COUNTRIES (toUpperCase (trim (or_empty (req h)))) = None) hs" for hs
    using that by (induction hs) (auto simp: Let_def)
  moreover have "toLowerCase (trim (or_empty None)) = []" by (simp add: or_empty_def trim_def toLowerCase_def)
  ultimately have "fst (detectRequestRegion req) = Global"
    using assms(4,5) by (simp add: detectRequestRegion_def Let_def)
  with assms(1-3) show ?thesis
    by (auto simp: decideResidency_def Let_def split: prod.splits)
qed

theorem unlisted_country_is_blocked_witness:
  "\<not> rs_allowed (decideResidency (\<lambda>h. if h = ''cf-ipcountry'' then Some ''BR'' else None)
      \<lparr>dr_region = EU, dr_mode = Enforce, dr_updated_at = [], dr_updated_by = None\<rparr> ''POST'')"
proof -
  have "isMutating ''POST''" by code_simp
  moreover have "list_all (\<lambda>h. map_of REGION_COUNTRIES (toUpperCase (trim (or_empty
      (if h = ''cf-ipcountry'' then Some ''BR'' else None)))) = None) COUNTRY_HEADERS" by code_simp
  ultimately show ?thesis by (intro unlisted_country_is_blocked) simp_all
qed

end
