(* ===== verification/BreakGlass.thy ===== *)
theory BreakGlass
  imports JsonStore
begin

text \<open>
  Break-glass emergency access (\<^verbatim>\<open>src/web/lib/breakGlassStore.ts\<close>): one active, time-boxed grant
  and a bounded history. The writing operations run on a promise chain,
  \<^verbatim>\<open>writeQueue = writeQueue.then(...)\<close>: they do not interleave, and once one of them rejects the
  chain stays rejected. \<open>bg_queue\<close> is the exception the chain was rejected with, if any.
\<close>

section \<open>Data\<close>

definition MAX_TTL_SECONDS :: int where "MAX_TTL_SECONDS = 60 * 60"

definition DEFAULT_TTL_SECONDS :: int where "DEFAULT_TTL_SECONDS = 30 * 60"

definition MIN_REASON_LEN :: nat where "MIN_REASON_LEN = 10"

definition BG_MAX_REASON_LEN :: nat where "BG_MAX_REASON_LEN = 500"

definition MAX_HISTORY :: nat where "MAX_HISTORY = 50"

record BreakGlassGrant =
  bg_id :: string
  bg_granted_at :: string
  bg_expires_at :: string
  bg_granted_by :: "string option"
  bg_reason :: string
  bg_ttl_seconds :: rat
  bg_uses :: rat
  bg_last_used_at :: "string option"
  bg_revoked_at :: "string option"
  bg_revoked_by :: "string option"

record BreakGlassState =
  bg_active :: "BreakGlassGrant option"
  bg_history :: "BreakGlassGrant list"

definition EMPTY_BG :: BreakGlassState where
  "EMPTY_BG = \<lparr>bg_active = None, bg_history = []\<rparr>"

record bg_store =
  bg_file :: json_file
  bg_queue :: "exn option"

section \<open>Persistence\<close>

definition finite_or_zero :: "json option \<Rightarrow> rat" where
  "finite_or_zero j = (case as_number j of Some (Fin q) \<Rightarrow> q | _ \<Rightarrow> 0)"

definition parseGrant :: "json option \<Rightarrow> BreakGlassGrant option" where
  "parseGrant j0 =
     (case j0 of
        None \<Rightarrow> None
      | Some j \<Rightarrow>
          (let s = (\<lambda>k. str_or_null (jfield j k)) in
           if falsy j \<or> \<not> is_object j then None
           else case (s ''id'', s ''granted_at'', s ''expires_at'', s ''reason'') of
             (Some i, Some g, Some x, Some r) \<Rightarrow>
               Some \<lparr>bg_id = i, bg_granted_at = g, bg_expires_at = x, bg_granted_by = s ''granted_by'',
                     bg_reason = r, bg_ttl_seconds = finite_or_zero (jfield j ''ttl_seconds''),
                     bg_uses = finite_or_zero (jfield j ''uses''), bg_last_used_at = s ''last_used_at'',
                     bg_revoked_at = s ''revoked_at'', bg_revoked_by = s ''revoked_by''\<rparr>
           | _ \<Rightarrow> None))"

definition dec_bg :: "json \<Rightarrow> BreakGlassState" where
  "dec_bg j =
     (if falsy j \<or> \<not> is_object j then EMPTY_BG
      else \<lparr>bg_active = parseGrant (jfield j ''active''),
            bg_history = (case as_array (jfield j ''history'') of
                None \<Rightarrow> [] | Some xs \<Rightarrow> List.map_filter (\<lambda>x. parseGrant (Some x)) xs)\<rparr>)"

definition enc_grant :: "BreakGlassGrant \<Rightarrow> json" where
  "enc_grant g = JObj
     [(''id'', JStr (bg_id g)), (''granted_at'', JStr (bg_granted_at g)), (''expires_at'', JStr (bg_expires_at g)),
      (''granted_by'', jnullable (bg_granted_by g)), (''reason'', JStr (bg_reason g)),
      (''ttl_seconds'', JNum (Fin (bg_ttl_seconds g))), (''uses'', JNum (Fin (bg_uses g))),
      (''last_used_at'', jnullable (bg_last_used_at g)), (''revoked_at'', jnullable (bg_revoked_at g)),
      (''revoked_by'', jnullable (bg_revoked_by g))]"

definition enc_bg :: "BreakGlassState \<Rightarrow> json" where
  "enc_bg s = JObj
     [(''active'', case bg_active s of None \<Rightarrow> JNull | Some g \<Rightarrow> enc_grant g),
      (''history'', JArr (map enc_grant (bg_history s)))]"

definition bg_readState :: "json_file \<Rightarrow> BreakGlassState res" where
  "bg_readState = read_json EMPTY_BG dec_bg"

text \<open>
  \<^verbatim>\<open>writeQueue = writeQueue.then(body); await writeQueue\<close>: on a rejected chain the body does not run
  and the await throws; a body that throws rejects the chain. The body maps the state it
  read to its answer and the state to write, if any.
\<close>

definition enqueue ::
  "(BreakGlassState \<Rightarrow> 'a \<times> BreakGlassState option) \<Rightarrow> bg_store \<Rightarrow> 'a res \<times> bg_store" where
  "enqueue body st =
     (case bg_queue st of
        Some e \<Rightarrow> (Inl e, st)
      | None \<Rightarrow>
          (case bg_readState (bg_file st) of
             Inl e \<Rightarrow> (Inl e, st\<lparr>bg_queue := Some e\<rparr>)
           | Inr s \<Rightarrow>
               (case body s of
                  (a, None) \<Rightarrow> (Inr a, st)
                | (a, Some s') \<Rightarrow> (Inr a, st\<lparr>bg_file := Holds (enc_bg s')\<rparr>))))"

section \<open>Operations\<close>

definition bg_isExpired :: "host \<Rightarrow> BreakGlassGrant \<Rightarrow> int \<Rightarrow> bool" where
  "bg_isExpired H g now =
     (if truthy (bg_revoked_at g) then True
      else case date_parse H (bg_expires_at g) of None \<Rightarrow> True | Some t \<Rightarrow> t \<le> now)"

datatype GrantError = G_bad_reason | G_bad_ttl

definition mark_revoked :: "int \<Rightarrow> string option \<Rightarrow> BreakGlassGrant \<Rightarrow> BreakGlassGrant" where
  "mark_revoked now actor g = g\<lparr>bg_revoked_at := Some (toISOString now), bg_revoked_by := actor\<rparr>"

definition grant_ttl :: "jsnum option \<Rightarrow> int" where
  "grant_ttl ttl = (case ttl of Some (Fin q) \<Rightarrow> \<lfloor>q\<rfloor> | _ \<Rightarrow> DEFAULT_TTL_SECONDS)"

definition new_grant :: "int \<Rightarrow> string \<Rightarrow> string \<Rightarrow> int \<Rightarrow> string option \<Rightarrow> BreakGlassGrant" where
  "new_grant now gid reason ttl actor =
     \<lparr>bg_id = gid, bg_granted_at = toISOString now, bg_expires_at = toISOString (now + ttl * 1000),
      bg_granted_by = actor, bg_reason = reason, bg_ttl_seconds = of_int ttl, bg_uses = 0,
      bg_last_used_at = None, bg_revoked_at = None, bg_revoked_by = None\<rparr>"

definition bg_grant ::
  "host \<Rightarrow> int \<Rightarrow> string \<Rightarrow> string \<Rightarrow> jsnum option \<Rightarrow> string option \<Rightarrow> bg_store
   \<Rightarrow> (GrantError + BreakGlassGrant \<times> BreakGlassGrant option) res \<times> bg_store" where
  "bg_grant H now gid raw ttl_in actor st =
     (let reason = trim raw; ttl = grant_ttl ttl_in in
      if length reason < MIN_REASON_LEN then (Inr (Inl G_bad_reason), st)
      else if BG_MAX_REASON_LEN < length reason then (Inr (Inl G_bad_reason), st)
      else if ttl < 60 \<or> MAX_TTL_SECONDS < ttl then (Inr (Inl G_bad_ttl), st)
      else enqueue (\<lambda>s.
        let g = new_grant now gid reason ttl actor;
            superseded = (case bg_active s of
                None \<Rightarrow> None
              | Some a \<Rightarrow> if bg_isExpired H a now then None else Some (mark_revoked now actor a));
            prior = (case bg_active s of
                None \<Rightarrow> []
              | Some a \<Rightarrow> [case superseded of None \<Rightarrow> a | Some x \<Rightarrow> x])
        in (Inr (g, superseded),
            Some \<lparr>bg_active = Some g, bg_history = take MAX_HISTORY (prior @ bg_history s)\<rparr>)) st)"

definition bg_revoke ::
  "host \<Rightarrow> int \<Rightarrow> string option \<Rightarrow> bg_store \<Rightarrow> BreakGlassGrant option res \<times> bg_store" where
  "bg_revoke H now actor = enqueue (\<lambda>s.
     case bg_active s of
       None \<Rightarrow> (None, None)
     | Some a \<Rightarrow>
         if bg_isExpired H a now then (None, None)
         else (let g = mark_revoked now actor a
               in (Some g, Some \<lparr>bg_active = None, bg_history = take MAX_HISTORY (g # bg_history s)\<rparr>)))"

definition bg_getState :: "bg_store \<Rightarrow> BreakGlassState res" where
  "bg_getState st = bg_readState (bg_file st)"

definition getActive :: "host \<Rightarrow> int \<Rightarrow> bg_store \<Rightarrow> BreakGlassGrant option res" where
  "getActive H now st =
     (case bg_readState (bg_file st) of
        Inl e \<Rightarrow> Inl e
      | Inr s \<Rightarrow> Inr (case bg_active s of
          None \<Rightarrow> None | Some a \<Rightarrow> if bg_isExpired H a now then None else Some a))"

text \<open>The body of \<^verbatim>\<open>recordUse\<close> catches its own exceptions, so it never rejects the chain.\<close>

definition recordUse :: "host \<Rightarrow> int \<Rightarrow> bg_store \<Rightarrow> unit res \<times> bg_store" where
  "recordUse H now st =
     (case bg_queue st of
        Some e \<Rightarrow> (Inl e, st)
      | None \<Rightarrow>
          (case bg_readState (bg_file st) of
             Inl e \<Rightarrow> (Inr (), st)
           | Inr s \<Rightarrow>
               (case bg_active s of
                  None \<Rightarrow> (Inr (), st)
                | Some a \<Rightarrow>
                    if bg_isExpired H a now then (Inr (), st)
                    else (Inr (), st\<lparr>bg_file := Holds (enc_bg
                      \<lparr>bg_active = Some (a\<lparr>bg_uses := bg_uses a + 1, bg_last_used_at := Some (toISOString now)\<rparr>),
                       bg_history = bg_history s\<rparr>)\<rparr>))))"

definition describeRemaining :: "host \<Rightarrow> BreakGlassGrant \<Rightarrow> int \<Rightarrow> bool \<times> int" where
  "describeRemaining H g now =
     (if bg_isExpired H g now then (True, 0)
      else case date_parse H (bg_expires_at g) of
        None \<Rightarrow> (False, 0) | Some t \<Rightarrow> (False, max 0 ((t - now) div 1000)))"

section \<open>Lemmas\<close>

lemma parse_enc_grant [simp]: "parseGrant (Some (enc_grant g)) = Some g"
  by (simp add: parseGrant_def enc_grant_def finite_or_zero_def)

lemma parseGrant_null [simp]: "parseGrant (Some JNull) = None"
  by (simp add: parseGrant_def)

lemma dec_enc_bg: "dec_bg (enc_bg s) = s"
  by (cases s) (simp add: dec_bg_def enc_bg_def split: option.splits)

interpretation bg: json_codec dec_bg enc_bg EMPTY_BG "\<lambda>_. True"
  by unfold_locales (simp_all add: dec_enc_bg)

lemma bg_read_written [simp]: "bg_readState (Holds (enc_bg s)) = Inr s"
  unfolding bg_readState_def by (rule bg.read_written) simp

lemma enqueue_ok:
  "\<lbrakk>bg_queue st = None; bg_readState (bg_file st) = Inr s; body s = (a, Some s')\<rbrakk>
   \<Longrightarrow> enqueue body st = (Inr a, st\<lparr>bg_file := Holds (enc_bg s')\<rparr>)"
  by (simp add: enqueue_def)

lemma new_grant_live:
  assumes "time_ok (now + ttl * 1000)"
  shows "bg_isExpired H (new_grant now gid r ttl actor) t \<longleftrightarrow> now + ttl * 1000 \<le> t"
  using assms by (simp add: bg_isExpired_def new_grant_def)

section \<open>Properties\<close>

text \<open>A grant is time-boxed. Every successful grant carries a trimmed reason of 10 to 500
  characters and a lifetime of one minute to one hour, becomes the single active grant, is
  reported active exactly until its lifetime is over, and leaves a history of at most 50
  entries.\<close>

theorem grant_is_time_boxed:
  assumes "bg_grant H now gid raw ttl_in actor st = (Inr (Inr (g, prev)), st')"
    and "time_ok (now + grant_ttl ttl_in * 1000)"
  shows "10 \<le> length (bg_reason g) \<and> length (bg_reason g) \<le> 500
    \<and> 60 \<le> grant_ttl ttl_in \<and> grant_ttl ttl_in \<le> 3600
    \<and> getActive H t st' = Inr (if t < now + grant_ttl ttl_in * 1000 then Some g else None)
    \<and> (\<exists>s. bg_getState st' = Inr s \<and> bg_active s = Some g \<and> length (bg_history s) \<le> 50)"
proof -
  let ?ttl = "grant_ttl ttl_in"
  from assms(1) have c: "10 \<le> length (trim raw)" "length (trim raw) \<le> 500" "60 \<le> ?ttl" "?ttl \<le> 3600"
    and g: "g = new_grant now gid (trim raw) ?ttl actor"
    and s: "\<exists>s. bg_readState (bg_file st') = Inr s \<and> bg_active s = Some g \<and> length (bg_history s) \<le> 50"
    by (auto simp: bg_grant_def enqueue_def Let_def MIN_REASON_LEN_def BG_MAX_REASON_LEN_def MAX_TTL_SECONDS_def
        MAX_HISTORY_def split: if_splits option.splits sum.splits)
  have r: "bg_reason g = trim raw" by (simp add: g new_grant_def)
  from s new_grant_live[OF assms(2), of H gid "trim raw" actor t] have
    "getActive H t st' = Inr (if t < now + ?ttl * 1000 then Some g else None)"
    by (auto simp: getActive_def g)
  with c s show ?thesis by (simp add: r bg_getState_def)
qed

text \<open>Revocation is immediate and final for the grant: after a successful revoke no grant is
  active at any time, and the revoked grant is on record, marked with who revoked it.\<close>

theorem revoke_is_immediate:
  assumes "bg_revoke H now actor st = (Inr (Some g), st')"
  shows "getActive H t st' = Inr None \<and> bg_revoked_by g = actor \<and> bg_isExpired H g t
    \<and> (\<exists>s. bg_getState st' = Inr s \<and> bg_active s = None \<and> g \<in> set (bg_history s))"
  using assms
  by (auto simp: bg_revoke_def enqueue_def getActive_def bg_getState_def mark_revoked_def bg_isExpired_def
      Let_def MAX_HISTORY_def split: option.splits sum.splits if_splits)

text \<open>One failed read disables break-glass for good. When a revocation fails because the file
  cannot be read, every later grant that passes validation, every revocation and every use
  record fails with the same error, even after the file has been repaired, because the
  promise chain stays rejected.\<close>

theorem rejected_queue_blocks_everything:
  assumes "bg_queue st = None" "bg_file st = Unreadable"
    and "bg_revoke H now actor st = (out, st')"
  shows "out = Inl IoFault
    \<and> fst (bg_revoke H now' actor' (st'\<lparr>bg_file := Holds (enc_bg s)\<rparr>)) = Inl IoFault
    \<and> fst (recordUse H now' (st'\<lparr>bg_file := Holds (enc_bg s)\<rparr>)) = Inl IoFault
    \<and> (\<forall>g prev. fst (bg_grant H now' gid raw ttl actor' (st'\<lparr>bg_file := Holds (enc_bg s)\<rparr>)) \<noteq> Inr (Inr (g, prev)))"
  using assms
  by (auto simp: bg_revoke_def bg_grant_def enqueue_def recordUse_def bg_readState_def Let_def)

theorem grant_is_time_boxed_witness:
  "\<exists>g prev st'. bg_grant sample_host 0 ''g1'' ''incident 4711'' None None \<lparr>bg_file = Absent, bg_queue = None\<rparr>
      = (Inr (Inr (g, prev)), st') \<and> getActive sample_host 1000 st' = Inr (Some g)"
proof -
  have t: "trim ''incident 4711'' = ''incident 4711''" by code_simp
  obtain g prev st' where r: "bg_grant sample_host 0 ''g1'' ''incident 4711'' None None \<lparr>bg_file = Absent, bg_queue = None\<rparr>
      = (Inr (Inr (g, prev)), st')"
    by (simp add: bg_grant_def t enqueue_def bg_readState_def EMPTY_BG_def MIN_REASON_LEN_def BG_MAX_REASON_LEN_def
        grant_ttl_def DEFAULT_TTL_SECONDS_def MAX_TTL_SECONDS_def Let_def)
  from grant_is_time_boxed[OF r, of 1000] r show ?thesis
    by (auto simp: grant_ttl_def DEFAULT_TTL_SECONDS_def time_ok_def)
qed

theorem revoke_is_immediate_witness:
  "\<exists>g st'. bg_revoke sample_host 5 None
       \<lparr>bg_file = Holds (enc_bg \<lparr>bg_active = Some (new_grant 0 ''g1'' ''incident 4711'' 60 None), bg_history = []\<rparr>), bg_queue = None\<rparr>
     = (Inr (Some g), st') \<and> getActive sample_host 6 st' = Inr None"
proof -
  obtain g st' where r: "bg_revoke sample_host 5 None
       \<lparr>bg_file = Holds (enc_bg \<lparr>bg_active = Some (new_grant 0 ''g1'' ''incident 4711'' 60 None), bg_history = []\<rparr>), bg_queue = None\<rparr>
     = (Inr (Some g), st')"
    by (simp add: bg_revoke_def enqueue_def new_grant_live time_ok_def Let_def)
  from revoke_is_immediate[OF r, of 6] r show ?thesis by blast
qed

theorem rejected_queue_blocks_everything_witness:
  "fst (bg_revoke sample_host 9 None ((snd (bg_revoke sample_host 5 None \<lparr>bg_file = Unreadable, bg_queue = None\<rparr>))
      \<lparr>bg_file := Holds (enc_bg EMPTY_BG)\<rparr>)) = Inl IoFault"
  using rejected_queue_blocks_everything[of "\<lparr>bg_file = Unreadable, bg_queue = None\<rparr>" sample_host 5 None
      "fst (bg_revoke sample_host 5 None \<lparr>bg_file = Unreadable, bg_queue = None\<rparr>)"
      "snd (bg_revoke sample_host 5 None \<lparr>bg_file = Unreadable, bg_queue = None\<rparr>)" 9 None EMPTY_BG]
  by simp

end
