(* ===== verification/Metrics.thy ===== *)
theory Metrics
  imports JsonStore "HOL-Library.AList"
begin

text \<open>
  Process metrics (\<^verbatim>\<open>src/web/lib/metricsStore.ts\<close>): request counters and duration histograms
  per label, the in-flight gauge, and the Prometheus text they are rendered to. A
  JavaScript \<^verbatim>\<open>Map\<close> keeps the order in which its keys were first set, which is what an
  association list under \<^const>\<open>AList.update\<close> does. Durations are whole milliseconds; the sum
  of seconds, a double in the code, is kept as an exact rational.
\<close>

section \<open>Classification\<close>

datatype RouteClass = Api_v1 | Api_admin | Api_other | Page | Asset | Health | MetricsRoute

fun route_class_str :: "RouteClass \<Rightarrow> string" where
  "route_class_str Api_v1 = ''api_v1''"
| "route_class_str Api_admin = ''api_admin''"
| "route_class_str Api_other = ''api_other''"
| "route_class_str Page = ''page''"
| "route_class_str Asset = ''asset''"
| "route_class_str Health = ''health''"
| "route_class_str MetricsRoute = ''metrics''"

definition is_alnum :: "char \<Rightarrow> bool" where
  "is_alnum c \<longleftrightarrow> is_digit c \<or> is_lower c \<or> is_upper c"

text \<open>The pattern \<^verbatim>\<open>/\.[a-z0-9]+$/i\<close>: the text behind the last dot is a non-empty alphanumeric word.\<close>

definition has_extension :: "string \<Rightarrow> bool" where
  "has_extension s \<longleftrightarrow>
     (let ext = takeWhile (\<lambda>c. c \<noteq> CHR ''.'') (rev s)
      in CHR ''.'' \<in> set s \<and> ext \<noteq> [] \<and> list_all is_alnum ext)"

definition classifyRoute :: "string \<Rightarrow> RouteClass" where
  "classifyRoute p =
     (if p = ''/metrics'' then MetricsRoute
      else if p = ''/healthz'' \<or> p = ''/readyz'' then Health
      else if startsWith p ''/api/v1/'' then Api_v1
      else if startsWith p ''/api/admin/'' then Api_admin
      else if startsWith p ''/api/'' then Api_other
      else if startsWith p ''/_next/'' \<or> has_extension p then Asset
      else Page)"

definition statusClass :: "int \<Rightarrow> string" where
  "statusClass status =
     (if 500 \<le> status then ''5xx''
      else if 400 \<le> status then ''4xx''
      else if 300 \<le> status then ''3xx''
      else if 200 \<le> status then ''2xx''
      else ''1xx'')"

section \<open>The store\<close>

record Histogram =
  h_buckets :: "int list"
  h_counts :: "nat list"
  h_sum :: rat
  h_count :: nat

record metrics =
  m_startedAt :: int
  m_reqTotal :: "(string \<times> nat) list"
  m_reqInFlight :: int
  m_reqHist :: "(string \<times> Histogram) list"

definition BUCKETS_MS :: "int list" where
  "BUCKETS_MS = [5, 10, 25, 50, 100, 250, 500, 1000, 2500, 5000, 10000]"

definition metrics_store :: "int \<Rightarrow> metrics" where
  "metrics_store now = \<lparr>m_startedAt = now, m_reqTotal = [], m_reqInFlight = 0, m_reqHist = []\<rparr>"

definition labelKey :: "string \<Rightarrow> string \<Rightarrow> RouteClass \<Rightarrow> string" where
  "labelKey mth sc rc = mth @ ''|'' @ sc @ ''|'' @ route_class_str rc"

definition incInFlight :: "metrics \<Rightarrow> metrics" where
  "incInFlight s = s\<lparr>m_reqInFlight := m_reqInFlight s + 1\<rparr>"

definition decInFlight :: "metrics \<Rightarrow> metrics" where
  "decInFlight s = s\<lparr>m_reqInFlight := max 0 (m_reqInFlight s - 1)\<rparr>"

record ObserveInput =
  o_method :: string
  o_status :: int
  o_route_class :: RouteClass
  o_durationMs :: int

definition empty_histogram :: Histogram where
  "empty_histogram = \<lparr>h_buckets = BUCKETS_MS, h_counts = replicate (length BUCKETS_MS) 0, h_sum = 0, h_count = 0\<rparr>"

text \<open>The loop that increments the first bucket whose bound is not exceeded.\<close>

fun place :: "int \<Rightarrow> int list \<Rightarrow> nat list \<Rightarrow> nat list" where
  "place d (b # bs) (c # cs) = (if d \<le> b then Suc c # cs else c # place d bs cs)"
| "place d bs cs = cs"

definition observe_label :: "ObserveInput \<Rightarrow> string" where
  "observe_label opts =
     labelKey (toUpperCase (if o_method opts = [] then ''GET'' else o_method opts))
       (statusClass (o_status opts)) (o_route_class opts)"

definition observeRequest :: "ObserveInput \<Rightarrow> metrics \<Rightarrow> metrics" where
  "observeRequest opts s =
     (let k = observe_label opts;
          n = (case map_of (m_reqTotal s) k of None \<Rightarrow> 0 | Some n \<Rightarrow> n);
          h = (case map_of (m_reqHist s) k of None \<Rightarrow> empty_histogram | Some h \<Rightarrow> h);
          d = max 0 (o_durationMs opts);
          h' = h\<lparr>h_counts := place d (h_buckets h) (h_counts h), h_sum := h_sum h + of_int d / 1000, h_count := Suc (h_count h)\<rparr>
      in s\<lparr>m_reqTotal := AList.update k (n + 1) (m_reqTotal s), m_reqHist := AList.update k h' (m_reqHist s)\<rparr>)"

section \<open>Rendering\<close>

definition escape_char :: "char \<Rightarrow> string" where
  "escape_char c =
     (let n = (of_char c :: nat) in
      if n = 92 then [c, c] else if n = 34 then [char_of (92 :: nat), c]
      else if n = 10 then [char_of (92 :: nat), CHR ''n''] else [c])"

definition escapeLabel :: "string \<Rightarrow> string" where
  "escapeLabel v = concat (map escape_char v)"

definition parseKey :: "string \<Rightarrow> string \<times> string \<times> string" where
  "parseKey k =
     (let ps = split_on (CHR ''|'') k;
          part = (\<lambda>i. if i < length ps then ps ! i else [])
      in (part 0, part 1, part 2))"

text \<open>\<^verbatim>\<open>toFixed\<close>: the decimal with the given number of digits that is nearest, the larger one on a tie.\<close>

definition toFixed :: "nat \<Rightarrow> rat \<Rightarrow> string" where
  "toFixed d x =
     (let n = \<lfloor>\<bar>x\<bar> * of_int (10 ^ d) + 1 / 2\<rfloor>
      in (if x < 0 then ''-'' else []) @ dec_str (n div 10 ^ d) @ ''.'' @ fixed_digits 10 d (n mod 10 ^ d))"

text \<open>What the renderer reads of the process: version strings and memory figures.\<close>

record process_info =
  pi_version :: "string option"
  pi_node :: string
  pi_rss :: int
  pi_heapUsed :: int

definition dquote :: "string \<Rightarrow> string" where
  "dquote s = char_of (34 :: nat) # s @ [char_of (34 :: nat)]"

definition label_text :: "string \<Rightarrow> string" where
  "label_text k =
     (case parseKey k of (mth, sc, rc) \<Rightarrow>
        ''method='' @ dquote (escapeLabel mth) @ '',status_class='' @ dquote (escapeLabel sc)
        @ '',route_class='' @ dquote (escapeLabel rc))"

fun cumulate :: "nat \<Rightarrow> nat list \<Rightarrow> nat list" where
  "cumulate acc [] = []"
| "cumulate acc (c # cs) = (acc + c) # cumulate (acc + c) cs"

definition hist_name :: string where
  "hist_name = ''signalclaw_http_request_duration_seconds''"

definition hist_lines :: "string \<Rightarrow> Histogram \<Rightarrow> string list" where
  "hist_lines k h =
     (let labels = label_text k
      in map (\<lambda>(b, cum). hist_name @ ''_bucket{'' @ labels @ '',le='' @ dquote (toFixed 3 (of_int b / 1000))
            @ ''} '' @ dec_str (int cum)) (zip (h_buckets h) (cumulate 0 (h_counts h)))
         @ [hist_name @ ''_bucket{'' @ labels @ '',le='' @ dquote ''+Inf'' @ ''} '' @ dec_str (int (h_count h)),
            hist_name @ ''_sum{'' @ labels @ ''} '' @ toFixed 6 (h_sum h),
            hist_name @ ''_count{'' @ labels @ ''} '' @ dec_str (int (h_count h))])"

definition gauge_lines :: "process_info \<Rightarrow> int \<Rightarrow> metrics \<Rightarrow> string list" where
  "gauge_lines pinfo now s =
     [''# HELP signalclaw_build_info Build metadata for the dashboard.'',
      ''# TYPE signalclaw_build_info gauge'',
      ''signalclaw_build_info{version='' @ dquote (escapeLabel (if truthy (pi_version pinfo) then or_empty (pi_version pinfo) else ''0.0.0''))
        @ '',node='' @ dquote (escapeLabel (pi_node pinfo)) @ ''} 1'',
      ''# HELP signalclaw_process_uptime_seconds Seconds since process start.'',
      ''# TYPE signalclaw_process_uptime_seconds gauge'',
      ''signalclaw_process_uptime_seconds '' @ toFixed 3 (of_int (now - m_startedAt s) / 1000),
      ''# HELP signalclaw_process_resident_memory_bytes Resident set size in bytes.'',
      ''# TYPE signalclaw_process_resident_memory_bytes gauge'',
      ''signalclaw_process_resident_memory_bytes '' @ dec_str (pi_rss pinfo),
      ''# HELP signalclaw_process_heap_used_bytes Heap used in bytes.'',
      ''# TYPE signalclaw_process_heap_used_bytes gauge'',
      ''signalclaw_process_heap_used_bytes '' @ dec_str (pi_heapUsed pinfo),
      ''# HELP signalclaw_http_requests_in_flight In-flight HTTP requests.'',
      ''# TYPE signalclaw_http_requests_in_flight gauge'',
      ''signalclaw_http_requests_in_flight '' @ dec_str (m_reqInFlight s)]"

definition renderProm :: "process_info \<Rightarrow> int \<Rightarrow> metrics \<Rightarrow> string" where
  "renderProm pinfo now s =
     join [char_of (10 :: nat)]
       (gauge_lines pinfo now s
        @ [''# HELP signalclaw_http_requests_total HTTP requests served.'', ''# TYPE signalclaw_http_requests_total counter'']
        @ map (\<lambda>(k, v). ''signalclaw_http_requests_total{'' @ label_text k @ ''} '' @ dec_str (int v)) (m_reqTotal s)
        @ [''# HELP signalclaw_http_request_duration_seconds HTTP request duration in seconds.'',
           ''# TYPE signalclaw_http_request_duration_seconds histogram'']
        @ concat (map (\<lambda>(k, h). hist_lines k h) (m_reqHist s)))
     @ [char_of (10 :: nat)]"


section \<open>The numbers are exact\<close>

lemma cumulate_Suc: "cumulate (Suc acc) cs = map Suc (cumulate acc cs)"
  by (induction cs arbitrary: acc) simp_all

lemma place_length [simp]: "length (place d bs cs) = length cs"
  by (induction d bs cs rule: place.induct) auto

lemma cumulate_length [simp]: "length (cumulate acc cs) = length cs"
  by (induction cs arbitrary: acc) auto

lemma cumulate_place:
  "\<lbrakk>sorted bs; length bs = length cs\<rbrakk>
   \<Longrightarrow> cumulate acc (place d bs cs) = map2 (\<lambda>b n. if d \<le> b then Suc n else n) bs (cumulate acc cs)"
proof (induction d bs cs arbitrary: acc rule: place.induct)
  case (1 d b bs c cs)
  have "d \<le> b \<Longrightarrow> map2 (\<lambda>b n. if d \<le> b then Suc n else n) bs (cumulate (acc + c) cs) = map Suc (cumulate (acc + c) cs)"
    using 1(2,3) by (intro nth_equalityI) (auto, metis nth_mem order_trans)
  with 1 show ?case by (auto simp: cumulate_Suc)
qed auto

definition hist_of :: "string \<Rightarrow> metrics \<Rightarrow> Histogram" where
  "hist_of k s = (case map_of (m_reqHist s) k of None \<Rightarrow> empty_histogram | Some h \<Rightarrow> h)"

definition durations :: "string \<Rightarrow> ObserveInput list \<Rightarrow> int list" where
  "durations k obs = map (\<lambda>o'. max 0 (o_durationMs o')) (filter (\<lambda>o'. observe_label o' = k) obs)"

definition tallies :: "string \<Rightarrow> int list \<Rightarrow> metrics \<Rightarrow> bool" where
  "tallies k ds s \<longleftrightarrow>
     h_buckets (hist_of k s) = BUCKETS_MS \<and> length (h_counts (hist_of k s)) = length BUCKETS_MS
     \<and> cumulate 0 (h_counts (hist_of k s)) = map (\<lambda>b. length (filter (\<lambda>d. d \<le> b) ds)) BUCKETS_MS
     \<and> h_count (hist_of k s) = length ds \<and> h_sum (hist_of k s) = of_int (sum_list ds) / 1000
     \<and> map_of (m_reqTotal s) k = (if ds = [] then None else Some (length ds))"

lemma cumulate_zeros: "cumulate 0 (replicate n 0) = replicate n 0"
  by (induction n) auto

lemma tallies_start: "tallies k [] (metrics_store t)"
  by (simp add: tallies_def hist_of_def metrics_store_def empty_histogram_def cumulate_zeros BUCKETS_MS_def eval_nat_numeral)

lemma tallies_step:
  assumes "tallies k ds s"
  shows "tallies k (ds @ durations k [opts]) (observeRequest opts s)"
proof (cases "observe_label opts = k")
  case True
  have "sorted BUCKETS_MS" by (simp add: BUCKETS_MS_def)
  then have "cumulate 0 (place (max 0 (o_durationMs opts)) BUCKETS_MS (h_counts (hist_of k s)))
    = map2 (\<lambda>b n. if max 0 (o_durationMs opts) \<le> b then Suc n else n) BUCKETS_MS
        (map (\<lambda>b. length (filter (\<lambda>d. d \<le> b) ds)) BUCKETS_MS)"
    using assms by (simp add: cumulate_place tallies_def)
  also have "\<dots> = map (\<lambda>b. length (filter (\<lambda>d. d \<le> b) (ds @ [max 0 (o_durationMs opts)]))) BUCKETS_MS"
    by (simp add: map2_map_map[where f = "\<lambda>x. x", simplified])
  finally show ?thesis
    using assms True
    by (simp add: tallies_def hist_of_def observeRequest_def Let_def durations_def update_conv add_divide_distrib split: option.splits if_splits)
next
  case False
  with assms show ?thesis
    by (simp add: tallies_def hist_of_def observeRequest_def Let_def durations_def update_conv)
qed

lemma durations_append: "durations k (a @ b) = durations k a @ durations k b"
  by (simp add: durations_def)

lemma tallies_run: "tallies k ds s \<Longrightarrow> tallies k (ds @ durations k obs) (fold observeRequest obs s)"
proof (induction obs arbitrary: ds s)
  case (Cons opts obs)
  from Cons.IH[OF tallies_step[OF Cons.prems, of opts]] show ?case
    using durations_append[of k "[opts]" obs] by simp
qed (simp add: durations_def)

text \<open>What a scrape reports for a label is exact: over any sequence of observations each
  cumulative bucket counts the observations of that label whose duration is within its bound,
  and the total, the count and the sum agree with the observations.\<close>

theorem histogram_exact:
  "let s = fold observeRequest obs (metrics_store t); ds = durations k obs
   in cumulate 0 (h_counts (hist_of k s)) = map (\<lambda>b. length (filter (\<lambda>d. d \<le> b) ds)) BUCKETS_MS
      \<and> h_count (hist_of k s) = length ds \<and> h_sum (hist_of k s) = of_int (sum_list ds) / 1000
      \<and> map_of (m_reqTotal s) k = (if ds = [] then None else Some (length ds))"
  using tallies_run[OF tallies_start, of k obs t] by (simp add: tallies_def Let_def)

text \<open>The label survives the trip through its map key.\<close>

lemma parseKey_labelKey:
  assumes "CHR ''|'' \<notin> set mth"
  shows "parseKey (labelKey mth (statusClass st) rc) = (mth, statusClass st, route_class_str rc)"
proof -
  have sc: "CHR ''|'' \<notin> set (statusClass st)" by (simp add: statusClass_def)
  have rc: "CHR ''|'' \<notin> set (route_class_str rc)" by (cases rc) simp_all
  have "split_on (CHR ''|'') (labelKey mth (statusClass st) rc) = [mth, statusClass st, route_class_str rc]"
    using split_join[of "[mth, statusClass st, route_class_str rc]" "CHR ''|''"] assms sc rc
    by (simp add: labelKey_def)
  then show ?thesis by (simp add: parseKey_def)
qed

end
