(* ===== verification/V1Guard.thy ===== *)
theory V1Guard
  imports RateLimit MonthlyQuota Concurrency Freeze NetworkPolicy RotationPolicy Residency BreakGlass AuditLog
    RouteAllowlist Metrics KeyUsage Http
begin

text \<open>
  The guard every \<^verbatim>\<open>/api/v1\<close> route runs its handler under (\<^verbatim>\<open>src/web/lib/v1Guard.ts\<close>): freeze, network
  policy with its break-glass bypass, the key's address and route lists, rotation, residency,
  monthly quota, rate limit and concurrency, in this order, each refusal audited and every
  outcome observed. The state is the product of the stores' states. The guard is split at the
  call of the handler: \<open>admit\<close> is everything before it, \<open>finish\<close> everything after it, so
  that requests can overlap while their handlers run.
\<close>

section \<open>Requests, responses and the world\<close>

record v1_request =
  rq_headers :: headers
  rq_method :: "string option"

text \<open>The stores, and the state \<open>'a\<close> the route handlers work on.\<close>

record 'a world =
  gw_metrics :: metrics
  gw_usage :: "usage_state cast_file"
  gw_freeze :: freeze_store
  gw_net :: json_file
  gw_net_cache :: cidr_cache
  gw_bg :: bg_store
  gw_rotation :: json_file
  gw_residency :: json_file
  gw_quota :: mq_store
  gw_rate :: rl_store
  gw_cc :: cc_store
  gw_slots :: int
  gw_audit :: audit_store
  gw_app :: 'a

text \<open>What one call reads from outside: the clock at its successive readings, the random draws, whether
  an audit append reaches the disk, and the environment variables of the stores.\<close>

record guard_env =
  ge_host :: host
  ge_clock :: clock
  ge_id :: "nat \<Rightarrow> string"
  ge_fresh :: string
  ge_io :: bool
  ge_rate_env :: "string option"
  ge_quota_env :: "string option"
  ge_rotation_env :: "string option \<times> string option"
  ge_residency_env :: "string option \<times> string option"

record v1_call =
  vc_req :: v1_request
  vc_key :: StoredKey
  vc_route :: string

definition call_method :: "v1_call \<Rightarrow> string" where
  "call_method c = (case rq_method (vc_req c) of None \<Rightarrow> ''GET'' | Some m \<Rightarrow> m)"

definition request_id :: "v1_call \<Rightarrow> string option" where
  "request_id c = or_null (or_empty (rq_headers (vc_req c) ''x-request-id''))"

definition id_header :: "v1_call \<Rightarrow> (string \<times> string) list" where
  "id_header c = (case request_id c of None \<Rightarrow> [] | Some r \<Rightarrow> [(''x-request-id'', r)])"

text \<open>A stage of the guard throws, answers, or lets the call go on with a value.\<close>

datatype 'b outcome = Fail exn | Stop NextResponse | Go 'b

definition and_then ::
  "('a world \<Rightarrow> 'b outcome \<times> 'a world) \<Rightarrow> ('b \<Rightarrow> 'a world \<Rightarrow> 'c outcome \<times> 'a world) \<Rightarrow> 'a world \<Rightarrow> 'c outcome \<times> 'a world" where
  "and_then f g w =
     (case f w of (Fail e, w') \<Rightarrow> (Fail e, w') | (Stop r, w') \<Rightarrow> (Stop r, w') | (Go x, w') \<Rightarrow> g x w')"

section \<open>Audit lines\<close>

definition guard_audit ::
  "guard_env \<Rightarrow> nat \<Rightarrow> v1_call \<Rightarrow> int \<Rightarrow> string \<Rightarrow> json option \<Rightarrow> 'a world \<Rightarrow> 'a world" where
  "guard_audit E i c status reason details w =
     w\<lparr>gw_audit := snd (recordAuditEvent (ge_host E) (ge_clock E i) (ge_id E i) (ge_fresh E) (ge_io E)
         \<lparr>ai_req = Some (rq_headers (vc_req c)), ai_route = vc_route c, ai_method = call_method c, ai_status = status,
          ai_key = Some (vc_key c), ai_reason = Some reason, ai_details = details\<rparr> (gw_audit w))\<rparr>"

section \<open>Header groups\<close>

fun rotation_status_str :: "RotationStatus \<Rightarrow> string" where
  "rotation_status_str Rot_ok = ''ok''" | "rotation_status_str Rot_warning = ''warning''"
| "rotation_status_str Rot_stale = ''stale''" | "rotation_status_str Rot_disabled = ''disabled''"

definition applyRotationHeaders :: "RotationEvaluation \<Rightarrow> (string \<times> string) list" where
  "applyRotationHeaders ev =
     [(''x-key-age-days'', int_str (re_age_days ev))]
     @ (if re_status ev = Rot_disabled then []
        else (if truthy (re_rotate_by ev) then [(''x-key-rotate-by'', or_empty (re_rotate_by ev))] else [])
             @ (case re_days_until ev of None \<Rightarrow> [] | Some d \<Rightarrow> [(''x-key-rotation-days-remaining'', int_str d)])
             @ (if re_status ev = Rot_warning \<or> re_status ev = Rot_stale
                then [(''x-key-rotation-status'', rotation_status_str (re_status ev))] else []))"

fun source_str :: "RegionSource \<Rightarrow> string" where
  "source_str Explicit = ''explicit''" | "source_str Country = ''country''" | "source_str UnknownSource = ''unknown''"

fun residency_status_str :: "ResidencyStatus \<Rightarrow> string" where
  "residency_status_str Res_ok = ''ok''" | "residency_status_str Res_warn = ''warn''" | "residency_status_str Res_blocked = ''blocked''"

definition applyResidencyHeaders :: "ResidencyDecision \<Rightarrow> (string \<times> string) list" where
  "applyResidencyHeaders d =
     (if rs_mode d = Off then []
      else [(''x-data-region'', region_str (rs_policy_region d)), (''x-data-region-resolved'', region_str (rs_request_region d)),
            (''x-data-region-source'', source_str (rs_request_source d))]
           @ (if rs_status d \<noteq> Res_ok then [(''x-data-region-status'', residency_status_str (rs_status d))] else []))"


section \<open>The stages\<close>

definition guard_freeze :: "guard_env \<Rightarrow> v1_call \<Rightarrow> 'a world \<Rightarrow> unit outcome \<times> 'a world" where
  "guard_freeze E c w =
     (case getFreezeState (ge_clock E 0) (gw_freeze w) of
        (Inl e, fz) \<Rightarrow> (Fail e, w\<lparr>gw_freeze := fz\<rparr>)
      | (Inr s, fz) \<Rightarrow>
          (if frozen s
           then (Stop (error_response 503 ''workspace_frozen''
                   ''workspace is under an emergency freeze; contact your administrator''
                   [(''frozen_at'', jnullable (frozen_at s)), (''reason'', jnullable (fz_reason s))]
                   ([(''retry-after'', ''0''), (''x-workspace-frozen'', ''1'')] @ id_header c)),
                 guard_audit E 1 c 503 ''workspace_frozen''
                   (Some (JObj [(''frozen_at'', jnullable (frozen_at s)), (''frozen_by'', jnullable (frozen_by s))]))
                   (w\<lparr>gw_freeze := fz\<rparr>))
           else (Go (), w\<lparr>gw_freeze := fz\<rparr>)))"

fun block_reason :: "CheckDecision \<Rightarrow> string" where
  "block_reason NoIp = ''no-ip''"
| "block_reason (NotMatched ip) = ''not-matched''"
| "block_reason d = []"

fun blocked_ip :: "CheckDecision \<Rightarrow> string" where
  "blocked_ip (NotMatched ip) = ip"
| "blocked_ip d = []"

text \<open>An exception of \<^verbatim>\<open>getActive\<close> counts as no grant, one of \<^verbatim>\<open>recordUse\<close> is ignored.\<close>

definition active_grant :: "guard_env \<Rightarrow> 'a world \<Rightarrow> BreakGlassGrant option" where
  "active_grant E w = (case getActive (ge_host E) (ge_clock E 2) (gw_bg w) of Inl e \<Rightarrow> None | Inr g \<Rightarrow> g)"

definition guard_network :: "guard_env \<Rightarrow> v1_call \<Rightarrow> 'a world \<Rightarrow> unit outcome \<times> 'a world" where
  "guard_network E c w =
     (case getPolicy (gw_net w) of
        Inl e \<Rightarrow> (Fail e, w)
      | Inr policy \<Rightarrow>
          (case decideAllowed (rq_headers (vc_req c)) policy (gw_net_cache w) of
             (d, cache) \<Rightarrow>
               (let w = w\<lparr>gw_net_cache := cache\<rparr> in
                if net_allowed d then (Go (), w)
                else case active_grant E w of
                  Some g \<Rightarrow>
                    (Go (), guard_audit E 4 c 200 ''network_policy_break_glass_bypass''
                       (Some (JObj [(''grant_id'', JStr (bg_id g)), (''expires_at'', JStr (bg_expires_at g)),
                          (''granted_by'', jnullable (bg_granted_by g)), (''blocked_ip'', JStr (blocked_ip d)),
                          (''block_reason'', JStr (block_reason d))]))
                       (w\<lparr>gw_bg := snd (recordUse (ge_host E) (ge_clock E 3) (gw_bg w))\<rparr>))
                | None \<Rightarrow>
                    (Stop (error_response 403 ''network_policy_block''
                       (if d = NoIp then ''source IP could not be determined and workspace network policy is enforcing''
                        else ''source IP '' @ blocked_ip d @ '' is not in the workspace network allowlist'') [] (id_header c)),
                     guard_audit E 5 c 403 (''network_policy_block:'' @ block_reason d) None w))))"

definition enforceKeyIpAllowlist :: "guard_env \<Rightarrow> v1_call \<Rightarrow> 'a world \<Rightarrow> unit outcome \<times> 'a world" where
  "enforceKeyIpAllowlist E c w =
     (case decideKeyIpAllowed (rq_headers (vc_req c)) (vc_key c) of
        IpAllowed \<Rightarrow> (Go (), w)
      | IpDenied reason \<Rightarrow>
          (let ps = split_on (CHR '':'') reason;
               unknown = (length ps < 2 \<or> ps ! 1 = [] \<or> ps ! 1 = ''unknown'')
           in (Stop (error_response 403 ''ip_not_allowed''
                 (if unknown then ''source IP could not be determined and this key requires an IP allowlist match''
                  else ''source IP is not in this key's allowlist'') [] (id_header c)),
               guard_audit E 6 c 403 reason None w)))"

definition guard_route :: "guard_env \<Rightarrow> v1_call \<Rightarrow> 'a world \<Rightarrow> unit outcome \<times> 'a world" where
  "guard_route E c w =
     (let size = (case k_route_allowlist (vc_key c) of None \<Rightarrow> 0 | Some xs \<Rightarrow> int (length xs)) in
      if isRouteAllowed (vc_route c) (k_route_allowlist (vc_key c)) then (Go (), w)
      else (Stop (error_response 403 ''route_not_allowed''
              (''this API key's route allowlist does not permit '' @ vc_route c) [(''route'', JStr (vc_route c))] (id_header c)),
            guard_audit E 7 c 403 ''route_not_allowed''
              (Some (JObj [(''allowlist_size'', JNum (jsint size))])) w))"

definition enforceRotationPolicy :: "guard_env \<Rightarrow> v1_call \<Rightarrow> 'a world \<Rightarrow> RotationEvaluation outcome \<times> 'a world" where
  "enforceRotationPolicy E c w =
     (case getRotationPolicy (ge_rotation_env E) (gw_rotation w) of
        Inl e \<Rightarrow> (Fail e, w)
      | Inr policy \<Rightarrow>
          (case decideRotationBlock (ge_host E) (vc_key c) policy (ge_clock E 8) of
             Inl e \<Rightarrow> (Fail e, w)
           | Inr (blocked, ev) \<Rightarrow>
               (if \<not> blocked then (Go ev, w)
                else (Stop (error_response 403 ''key_rotation_required''
                        (''API key exceeds the workspace rotation policy ('' @ int_str (re_age_days ev) @ ''d old, max ''
                         @ int_str (rp_max_age_days policy) @ ''d). Rotate it before continuing.'')
                        [(''age_days'', JNum (jsint (re_age_days ev))), (''max_age_days'', JNum (jsint (rp_max_age_days policy))),
                         (''rotate_by'', jnullable (re_rotate_by ev))]
                        (applyRotationHeaders ev @ id_header c)),
                      guard_audit E 9 c 403 ''key_rotation_required''
                        (Some (JObj [(''age_days'', JNum (jsint (re_age_days ev))),
                                     (''max_age_days'', JNum (jsint (rp_max_age_days policy)))])) w))))"

definition residency_details :: "ResidencyDecision \<Rightarrow> json" where
  "residency_details d =
     JObj [(''policy_region'', JStr (region_str (rs_policy_region d))), (''request_region'', JStr (region_str (rs_request_region d))),
           (''source'', JStr (source_str (rs_request_source d)))]"

definition enforceDataResidency :: "guard_env \<Rightarrow> v1_call \<Rightarrow> 'a world \<Rightarrow> ResidencyDecision outcome \<times> 'a world" where
  "enforceDataResidency E c w =
     (case getResidencyPolicy (ge_residency_env E) (gw_residency w) of
        Inl e \<Rightarrow> (Fail e, w)
      | Inr policy \<Rightarrow>
          (let d = decideResidency (rq_headers (vc_req c)) policy (call_method c) in
           if rs_allowed d then
             (Go d, if rs_status d = Res_warn then guard_audit E 10 c 200 ''residency_warn'' (Some (residency_details d)) w else w)
           else
             (Stop (error_response 451 ''residency_violation''
                (''data residency policy blocks this request: workspace pinned to '' @ region_str (rs_policy_region d)
                 @ '', request resolved to '' @ region_str (rs_request_region d))
                [(''policy_region'', JStr (region_str (rs_policy_region d))), (''request_region'', JStr (region_str (rs_request_region d))),
                 (''request_source'', JStr (source_str (rs_request_source d)))]
                (applyResidencyHeaders d @ id_header c)),
              guard_audit E 11 c 451 ''residency_violation'' (Some (residency_details d)) w)))"

definition guard_quota :: "guard_env \<Rightarrow> v1_call \<Rightarrow> 'a world \<Rightarrow> QuotaDecision outcome \<times> 'a world" where
  "guard_quota E c w =
     (case reserve (ge_quota_env E) (k_id (vc_key c)) (ge_clock E 12) (gw_quota w) of
        (Inl e, q) \<Rightarrow> (Fail e, w\<lparr>gw_quota := q\<rparr>)
      | (Inr d, q) \<Rightarrow>
          (if qd_allowed d then (Go d, w\<lparr>gw_quota := q\<rparr>)
           else (Stop (error_response 429 ''monthly_quota_exceeded''
                   (''monthly quota exceeded: '' @ int_str (qd_limit d) @ '' requests in '' @ qd_period d @ ''. resets at '' @ qd_reset_at d)
                   [(''limit'', JNum (jsint (qd_limit d))), (''used'', JNum (jsint (qd_used d))),
                    (''period'', JStr (qd_period d)), (''reset_at'', JStr (qd_reset_at d))]
                   (applyQuotaHeaders d @ id_header c)),
                 guard_audit E 13 c 429 ''monthly_quota_exceeded'' None (w\<lparr>gw_quota := q\<rparr>))))"

definition guard_rate :: "guard_env \<Rightarrow> v1_call \<Rightarrow> QuotaDecision \<Rightarrow> 'a world \<Rightarrow> RateDecision outcome \<times> 'a world" where
  "guard_rate E c quota w =
     (case rl_consume (ge_rate_env E) (k_id (vc_key c)) (ge_clock E 14) (gw_rate w) of
        (Inl e, r) \<Rightarrow> (Fail e, w\<lparr>gw_rate := r\<rparr>)
      | (Inr d, r) \<Rightarrow>
          (if rd_allowed d then (Go d, w\<lparr>gw_rate := r\<rparr>)
           else (Stop (error_response 429 ''rate_limited''
                   (''rate limit exceeded: '' @ int_str (rd_limit d) @ '' requests per '' @ int_str WINDOW_SECONDS
                    @ ''s. retry after '' @ int_str (rd_retry_after d) @ ''s'')
                   [(''limit'', JNum (jsint (rd_limit d))), (''retry_after'', JNum (jsint (rd_retry_after d)))]
                   (int_headers (applyRateHeaders d) @ applyQuotaHeaders quota @ id_header c)),
                 guard_audit E 15 c 429 ''rate_limited'' None (w\<lparr>gw_rate := r\<rparr>))))"

definition guard_concurrency ::
  "guard_env \<Rightarrow> v1_call \<Rightarrow> QuotaDecision \<Rightarrow> RateDecision \<Rightarrow> 'a world \<Rightarrow> AcquireDecision outcome \<times> 'a world" where
  "guard_concurrency E c quota rate w =
     (case getConcurrencyPolicy (ge_clock E 16) (gw_cc w) of
        (Inl e, cc) \<Rightarrow> (Fail e, w\<lparr>gw_cc := cc\<rparr>)
      | (Inr policy, cc) \<Rightarrow>
          (case tryAcquire policy (gw_slots w) of
             (Acquired f lmt, slots) \<Rightarrow> (Go (Acquired f lmt), w\<lparr>gw_cc := cc, gw_slots := slots\<rparr>)
           | (Refused f n retry, slots) \<Rightarrow>
               (Stop (error_response 429 ''workspace_concurrency_exceeded''
                  (''workspace concurrency limit exceeded: '' @ int_str n @ '' in-flight requests. retry after '' @ int_str retry @ ''s'')
                  [(''limit'', JNum (jsint n)), (''in_flight'', JNum (jsint f)), (''retry_after'', JNum (jsint retry))]
                  (int_headers (applyConcurrencyHeaders (Refused f n retry)) @ int_headers (applyRateHeaders rate)
                   @ applyQuotaHeaders quota @ id_header c)),
                guard_audit E 17 c 429 ''workspace_concurrency_exceeded''
                  (Some (JObj [(''limit'', JNum (jsint n)), (''in_flight'', JNum (jsint f))]))
                  (w\<lparr>gw_cc := cc, gw_slots := slots\<rparr>))))"

text \<open>What the code after the handler needs of the checks.\<close>

record admission =
  ad_rotation :: RotationEvaluation
  ad_residency :: ResidencyDecision
  ad_quota :: QuotaDecision
  ad_rate :: RateDecision
  ad_slot :: AcquireDecision

definition checks :: "guard_env \<Rightarrow> v1_call \<Rightarrow> 'a world \<Rightarrow> admission outcome \<times> 'a world" where
  "checks E c =
     and_then (guard_freeze E c) (\<lambda>_.
     and_then (guard_network E c) (\<lambda>_.
     and_then (enforceKeyIpAllowlist E c) (\<lambda>_.
     and_then (guard_route E c) (\<lambda>_.
     and_then (enforceRotationPolicy E c) (\<lambda>rotation.
     and_then (enforceDataResidency E c) (\<lambda>residency.
     and_then (guard_quota E c) (\<lambda>quota.
     and_then (guard_rate E c quota) (\<lambda>rate.
     and_then (guard_concurrency E c quota rate) (\<lambda>slot w.
       (Go \<lparr>ad_rotation = rotation, ad_residency = residency, ad_quota = quota, ad_rate = rate, ad_slot = slot\<rparr>, w))))))))))"


section \<open>The whole guard\<close>

text \<open>\<^verbatim>\<open>obs\<close>: the request metrics, and the usage of the key when it has an id; a failure of the latter is
  only logged.\<close>

definition obs :: "guard_env \<Rightarrow> v1_call \<Rightarrow> int \<Rightarrow> 'a world \<Rightarrow> 'a world" where
  "obs E c status w =
     (let rc = classifyRoute (vc_route c);
          w = w\<lparr>gw_metrics := observeRequest \<lparr>o_method = call_method c, o_status = status, o_route_class = rc,
                 o_durationMs = ge_clock E 20 - ge_clock E 18\<rparr> (gw_metrics w)\<rparr>
      in if k_id (vc_key c) \<noteq> []
         then w\<lparr>gw_usage := snd (recordRequest (k_id (vc_key c)) (route_class_str rc) status (ge_clock E 21) (gw_usage w))\<rparr>
         else w)"

definition leave :: "'a world \<Rightarrow> 'a world" where
  "leave w = w\<lparr>gw_metrics := decInFlight (gw_metrics w)\<rparr>"

text \<open>Up to the call of the handler. A call that does not reach it is over: observed, and out of the
  in-flight gauge.\<close>

definition admit :: "guard_env \<Rightarrow> v1_call \<Rightarrow> 'a world \<Rightarrow> admission outcome \<times> 'a world" where
  "admit E c w =
     (case checks E c (w\<lparr>gw_metrics := incInFlight (gw_metrics w)\<rparr>) of
        (Fail e, w) \<Rightarrow> (Fail e, leave (obs E c 500 w))
      | (Stop r, w) \<Rightarrow> (Stop r, leave (obs E c (rsp_status r) w))
      | (Go a, w) \<Rightarrow> (Go a, w))"

definition admission_headers :: "admission \<Rightarrow> (string \<times> string) list" where
  "admission_headers a =
     int_headers (applyConcurrencyHeaders (ad_slot a)) @ int_headers (applyRateHeaders (ad_rate a))
     @ applyQuotaHeaders (ad_quota a) @ applyRotationHeaders (ad_rotation a) @ applyResidencyHeaders (ad_residency a)"

definition decorate :: "v1_call \<Rightarrow> admission \<Rightarrow> NextResponse \<Rightarrow> NextResponse" where
  "decorate c a r =
     (let hs = set_headers (admission_headers a) (rsp_headers r)
      in r\<lparr>rsp_headers := (if truthy (map_of hs ''x-request-id'') then hs else set_headers (id_header c) hs)\<rparr>)"

text \<open>From the end of the handler on: its exception or its response.\<close>

definition finish :: "guard_env \<Rightarrow> v1_call \<Rightarrow> admission \<Rightarrow> NextResponse res \<Rightarrow> 'a world \<Rightarrow> NextResponse res \<times> 'a world" where
  "finish E c a result w =
     (let w = w\<lparr>gw_slots := release (gw_slots w)\<rparr> in
      case result of
        Inl e \<Rightarrow> (Inl e, leave (obs E c 500 w))
      | Inr r \<Rightarrow> (Inr (decorate c a r), leave (obs E c (rsp_status r) w)))"

definition enforceRateLimit ::
  "guard_env \<Rightarrow> v1_call \<Rightarrow> ('a \<Rightarrow> NextResponse res \<times> 'a) \<Rightarrow> 'a world \<Rightarrow> NextResponse res \<times> 'a world" where
  "enforceRateLimit E c handler w =
     (case admit E c w of
        (Fail e, w) \<Rightarrow> (Inl e, w)
      | (Stop r, w) \<Rightarrow> (Inr r, w)
      | (Go a, w) \<Rightarrow>
          (case handler (gw_app w) of (result, app) \<Rightarrow> finish E c a result (w\<lparr>gw_app := app\<rparr>)))"



section \<open>What every stage keeps\<close>

text \<open>An event of the call, as the audit log gets it.\<close>

definition event_of :: "v1_call \<Rightarrow> int \<Rightarrow> AuditEvent \<Rightarrow> bool" where
  "event_of c status ev \<longleftrightarrow> ae_status ev = status \<and> ae_key_id ev = k_id (vc_key c) \<and> ae_route ev = vc_route c"

lemma guard_audit_frame [simp]:
  "gw_metrics (guard_audit E i c s r d w) = gw_metrics w" "gw_usage (guard_audit E i c s r d w) = gw_usage w"
  "gw_freeze (guard_audit E i c s r d w) = gw_freeze w" "gw_net (guard_audit E i c s r d w) = gw_net w"
  "gw_net_cache (guard_audit E i c s r d w) = gw_net_cache w" "gw_bg (guard_audit E i c s r d w) = gw_bg w"
  "gw_rotation (guard_audit E i c s r d w) = gw_rotation w" "gw_residency (guard_audit E i c s r d w) = gw_residency w"
  "gw_quota (guard_audit E i c s r d w) = gw_quota w" "gw_rate (guard_audit E i c s r d w) = gw_rate w"
  "gw_cc (guard_audit E i c s r d w) = gw_cc w" "gw_slots (guard_audit E i c s r d w) = gw_slots w"
  "gw_app (guard_audit E i c s r d w) = gw_app w"
  by (simp_all add: guard_audit_def)

lemma guard_audit_log:
  assumes "ge_io E"
  shows "\<exists>ev. readAllLines (gw_audit (guard_audit E i c s r d w)) = readAllLines (gw_audit w) @ [ev] \<and> event_of c s ev"
proof -
  let ?input = "\<lparr>ai_req = Some (rq_headers (vc_req c)), ai_route = vc_route c, ai_method = call_method c,
    ai_status = s, ai_key = Some (vc_key c), ai_reason = Some r, ai_details = d\<rparr>"
  show ?thesis
    using recorded_line[of "ge_host E" "ge_clock E i" "ge_id E i" "ge_fresh E" ?input "gw_audit w"] assms
    by (auto simp: guard_audit_def event_of_def)
qed

lemma guard_audit_grows:
  "ge_io E \<Longrightarrow> \<exists>pre. readAllLines (gw_audit (guard_audit E i c s r d w)) = readAllLines (gw_audit w) @ pre"
  using guard_audit_log by blast

text \<open>
  The contract of a stage that takes \<open>n\<close> concurrency slots when it lets the call go on: it
  leaves metrics, usage and the application alone, only appends to the audit log, and a
  refusal is the last thing it appends.
\<close>

locale guard_stage =
  fixes E :: guard_env and c :: v1_call and n :: int and f :: "'a world \<Rightarrow> 'b outcome \<times> 'a world"
  assumes stage_frame: "gw_metrics (snd (f w)) = gw_metrics w \<and> gw_usage (snd (f w)) = gw_usage w \<and> gw_app (snd (f w)) = gw_app w"
    and stage_go: "fst (f w) = Go x \<Longrightarrow> gw_slots (snd (f w)) = gw_slots w + n"
    and stage_end: "(\<And>x. fst (f w) \<noteq> Go x) \<Longrightarrow> gw_slots (snd (f w)) = gw_slots w"
    and stage_log: "ge_io E \<Longrightarrow> \<exists>pre. readAllLines (gw_audit (snd (f w))) = readAllLines (gw_audit w) @ pre"
    and stage_stop: "\<lbrakk>ge_io E; fst (f w) = Stop r\<rbrakk> \<Longrightarrow>
      \<exists>pre ev. readAllLines (gw_audit (snd (f w))) = readAllLines (gw_audit w) @ pre @ [ev] \<and> event_of c (rsp_status r) ev"

lemma guard_stage_seq:
  fixes f :: "'a world \<Rightarrow> 'b outcome \<times> 'a world" and g :: "'b \<Rightarrow> 'a world \<Rightarrow> 'd outcome \<times> 'a world"
  assumes f: "guard_stage E c 0 f" and g: "\<And>x. guard_stage E c n (g x)"
  shows "guard_stage E c n (and_then f g)"
proof -
  note F = guard_stage.stage_frame[OF f] guard_stage.stage_go[OF f] guard_stage.stage_end[OF f]
  note G = guard_stage.stage_frame[OF g] guard_stage.stage_go[OF g] guard_stage.stage_end[OF g]
  have cases: "(\<exists>e. fst (f w) = Fail e \<and> and_then f g w = (Fail e, snd (f w)))
      \<or> (\<exists>r. fst (f w) = Stop r \<and> and_then f g w = (Stop r, snd (f w)))
      \<or> (\<exists>x. fst (f w) = Go x \<and> and_then f g w = g x (snd (f w)))" for w
    by (cases "f w"; cases "fst (f w)") (auto simp: and_then_def)
  show ?thesis
  proof
    fix w
    show "gw_metrics (snd (and_then f g w)) = gw_metrics w \<and> gw_usage (snd (and_then f g w)) = gw_usage w
        \<and> gw_app (snd (and_then f g w)) = gw_app w"
      using cases[of w] F(1)[of w] G(1) by auto
  next
    fix w x
    assume "fst (and_then f g w) = Go x"
    then show "gw_slots (snd (and_then f g w)) = gw_slots w + n"
      using cases[of w] F(2)[of w] G(2) by fastforce
  next
    fix w
    assume "\<And>x. fst (and_then f g w) \<noteq> Go x"
    then show "gw_slots (snd (and_then f g w)) = gw_slots w"
      using cases[of w] F(2,3)[of w] G(3) by fastforce
  next
    fix w
    assume io: "ge_io E"
    then show "\<exists>pre. readAllLines (gw_audit (snd (and_then f g w))) = readAllLines (gw_audit w) @ pre"
      using cases[of w] guard_stage.stage_log[OF f io, of w] guard_stage.stage_log[OF g io] by (metis append.assoc snd_conv)
  next
    fix w r
    assume io: "ge_io E" and "fst (and_then f g w) = Stop r"
    with cases[of w] consider "fst (f w) = Stop r" "and_then f g w = (Stop r, snd (f w))"
      | x where "fst (f w) = Go x" "and_then f g w = g x (snd (f w))" "fst (g x (snd (f w))) = Stop r" by fastforce
    then show "\<exists>pre ev. readAllLines (gw_audit (snd (and_then f g w))) = readAllLines (gw_audit w) @ pre @ [ev] \<and> event_of c (rsp_status r) ev"
    proof cases
      case 1
      then show ?thesis using guard_stage.stage_stop[OF f io 1(1)] by simp
    next
      case 2
      obtain p1 where "readAllLines (gw_audit (snd (f w))) = readAllLines (gw_audit w) @ p1"
        using guard_stage.stage_log[OF f io] by blast
      with guard_stage.stage_stop[OF g io 2(3)] 2(2) show ?thesis by (metis append.assoc)
    qed
  qed
qed



lemmas stage_splits = sum.splits option.splits prod.splits if_splits IpDecision.splits AcquireDecision.splits

definition quiet :: "int \<Rightarrow> 'a world \<Rightarrow> 'a world \<Rightarrow> bool" where
  "quiet n w w' \<longleftrightarrow> gw_metrics w' = gw_metrics w \<and> gw_usage w' = gw_usage w \<and> gw_app w' = gw_app w
     \<and> gw_audit w' = gw_audit w \<and> gw_slots w' = gw_slots w + n"

text \<open>The shapes a stage's result has.\<close>

inductive stage_result :: "guard_env \<Rightarrow> v1_call \<Rightarrow> int \<Rightarrow> 'a world \<Rightarrow> 'b outcome \<times> 'a world \<Rightarrow> bool" for E c n w where
  sr_fail: "quiet 0 w w' \<Longrightarrow> stage_result E c n w (Fail e, w')"
| sr_stop: "quiet 0 w w' \<Longrightarrow> stage_result E c n w (Stop (error_response s code msg extra hs), guard_audit E i c s why d w')"
| sr_go: "quiet n w w' \<Longrightarrow> stage_result E c n w (Go x, w')"
| sr_go_audited: "quiet n w w' \<Longrightarrow> stage_result E c n w (Go x, guard_audit E i c s why d w')"

lemma error_response_status [simp]: "rsp_status (error_response s code msg extra hs) = s"
  by (simp add: error_response_def)

lemma quiet_grows:
  assumes "quiet n w w'" "ge_io E"
  shows "\<exists>pre. readAllLines (gw_audit (guard_audit E i c s why d w')) = readAllLines (gw_audit w) @ pre"
  using guard_audit_log[OF assms(2), of i c s why d w'] assms(1) by (auto simp: quiet_def)

lemma quiet_audit: "quiet n w w' \<Longrightarrow> gw_audit w' = gw_audit w"
  by (simp add: quiet_def)

inductive_cases stage_result_stopE: "stage_result E c n w (Stop r, w1)"

lemma guard_stageI:
  assumes "\<And>w. stage_result E c n w (f w)"
  shows "guard_stage E c n f"
proof
  fix w
  show "gw_metrics (snd (f w)) = gw_metrics w \<and> gw_usage (snd (f w)) = gw_usage w \<and> gw_app (snd (f w)) = gw_app w"
    using assms[of w] by cases (auto simp: quiet_def)
next
  fix w x
  assume "fst (f w) = Go x"
  with assms[of w] show "gw_slots (snd (f w)) = gw_slots w + n" by cases (auto simp: quiet_def)
next
  fix w
  assume "\<And>x. fst (f w) \<noteq> Go x"
  with assms[of w] show "gw_slots (snd (f w)) = gw_slots w" by cases (auto simp: quiet_def)
next
  fix w
  assume "ge_io E"
  with assms[of w] show "\<exists>pre. readAllLines (gw_audit (snd (f w))) = readAllLines (gw_audit w) @ pre"
    by cases (auto simp: quiet_audit intro: quiet_grows)
next
  fix w r
  assume "ge_io E" "fst (f w) = Stop r"
  obtain w1 where fw: "f w = (Stop r, w1)" using \<open>fst (f w) = Stop r\<close> by (cases "f w") auto
  from assms[of w, unfolded fw] obtain w' s i why d where w': "quiet 0 w w'" "rsp_status r = s" "w1 = guard_audit E i c s why d w'"
    by (rule stage_result_stopE) auto
  obtain ev where "readAllLines (gw_audit (guard_audit E i c s why d w')) = readAllLines (gw_audit w') @ [ev]" "event_of c s ev"
    using guard_audit_log[OF \<open>ge_io E\<close>] by blast
  then show "\<exists>pre ev. readAllLines (gw_audit (snd (f w))) = readAllLines (gw_audit w) @ pre @ [ev] \<and> event_of c (rsp_status r) ev"
    using w' quiet_audit[OF w'(1)] fw by (metis append_Nil snd_conv)
qed

interpretation freeze_stage: guard_stage E c 0 "guard_freeze E c" for E c
  by (rule guard_stageI, unfold guard_freeze_def )
     (auto simp only: quiet_def split: stage_splits intro!: stage_result.intros; simp)

interpretation network_stage: guard_stage E c 0 "guard_network E c" for E c
  by (rule guard_stageI, unfold guard_network_def Let_def)
     (auto simp only: quiet_def split: stage_splits intro!: stage_result.intros; simp)

interpretation key_ip_stage: guard_stage E c 0 "enforceKeyIpAllowlist E c" for E c
  by (rule guard_stageI, unfold enforceKeyIpAllowlist_def Let_def)
     (auto simp only: quiet_def split: stage_splits intro!: stage_result.intros; simp)

interpretation route_stage: guard_stage E c 0 "guard_route E c" for E c
  by (rule guard_stageI, unfold guard_route_def Let_def)
     (auto simp only: quiet_def split: stage_splits intro!: stage_result.intros; simp)

interpretation rotation_stage: guard_stage E c 0 "enforceRotationPolicy E c" for E c
  by (rule guard_stageI, unfold enforceRotationPolicy_def )
     (auto simp only: quiet_def split: stage_splits intro!: stage_result.intros; simp)

interpretation residency_stage: guard_stage E c 0 "enforceDataResidency E c" for E c
  by (rule guard_stageI, unfold enforceDataResidency_def Let_def)
     (auto simp only: quiet_def split: stage_splits intro!: stage_result.intros; simp)

interpretation quota_stage: guard_stage E c 0 "guard_quota E c" for E c
  by (rule guard_stageI, unfold guard_quota_def )
     (auto simp only: quiet_def split: stage_splits intro!: stage_result.intros; simp)

interpretation rate_stage: guard_stage E c 0 "guard_rate E c quota" for E c quota
  by (rule guard_stageI, unfold guard_rate_def )
     (auto simp only: quiet_def split: stage_splits intro!: stage_result.intros; simp)

interpretation slot_stage: guard_stage E c 1 "guard_concurrency E c quota rate" for E c quota rate
  by (rule guard_stageI, unfold guard_concurrency_def tryAcquire_def)
     (auto simp only: quiet_def split: stage_splits intro!: stage_result.intros; simp)

lemma slot_last: "guard_stage E c 1 (and_then (guard_concurrency E c q r) (\<lambda>x w. (Go (g x), w)))"
proof (rule guard_stageI)
  fix w
  have "stage_result E c 1 w (guard_concurrency E c q r w)"
    unfolding guard_concurrency_def tryAcquire_def
    by (auto simp only: quiet_def split: stage_splits intro!: stage_result.intros; simp)
  then show "stage_result E c 1 w (and_then (guard_concurrency E c q r) (\<lambda>x w. (Go (g x), w)) w)"
    unfolding and_then_def by cases (auto intro: stage_result.intros)
qed

interpretation checks_stage: guard_stage E c 1 "checks E c" for E c
  unfolding checks_def
  by (intro guard_stage_seq freeze_stage.guard_stage_axioms network_stage.guard_stage_axioms key_ip_stage.guard_stage_axioms
      route_stage.guard_stage_axioms rotation_stage.guard_stage_axioms residency_stage.guard_stage_axioms
      quota_stage.guard_stage_axioms rate_stage.guard_stage_axioms slot_last)



section \<open>When the handler runs\<close>

definition goes :: "'b outcome \<times> 'a world \<Rightarrow> bool" where
  "goes r \<longleftrightarrow> (case fst r of Go x \<Rightarrow> True | _ \<Rightarrow> False)"

definition the_go :: "'b outcome \<Rightarrow> 'b" where
  "the_go r = (case r of Go x \<Rightarrow> x)"

lemma goes_simps [simp]: "goes (Go x, w)" "\<not> goes (Stop r, w)" "\<not> goes (Fail e, w)"
  by (simp_all add: goes_def)

lemma goes_and_then: "goes (and_then f g w) \<longleftrightarrow> goes (f w) \<and> goes (g (the_go (fst (f w))) (snd (f w)))"
  by (cases "f w"; cases "fst (f w)") (auto simp: and_then_def goes_def the_go_def)

lemma freeze_frame [simp]:
  "gw_net (snd (guard_freeze E c w)) = gw_net w"
  "gw_net_cache (snd (guard_freeze E c w)) = gw_net_cache w"
  "gw_bg (snd (guard_freeze E c w)) = gw_bg w"
  "gw_rotation (snd (guard_freeze E c w)) = gw_rotation w"
  "gw_residency (snd (guard_freeze E c w)) = gw_residency w"
  "gw_quota (snd (guard_freeze E c w)) = gw_quota w"
  "gw_rate (snd (guard_freeze E c w)) = gw_rate w"
  "gw_cc (snd (guard_freeze E c w)) = gw_cc w"
  "gw_slots (snd (guard_freeze E c w)) = gw_slots w"
  unfolding guard_freeze_def by (auto split: stage_splits)

lemma network_frame [simp]:
  "gw_net (snd (guard_network E c w)) = gw_net w"
  "gw_rotation (snd (guard_network E c w)) = gw_rotation w"
  "gw_residency (snd (guard_network E c w)) = gw_residency w"
  "gw_quota (snd (guard_network E c w)) = gw_quota w"
  "gw_rate (snd (guard_network E c w)) = gw_rate w"
  "gw_cc (snd (guard_network E c w)) = gw_cc w"
  "gw_slots (snd (guard_network E c w)) = gw_slots w"
  unfolding guard_network_def Let_def by (auto split: stage_splits)

lemma key_ip_frame [simp]:
  "gw_net (snd (enforceKeyIpAllowlist E c w)) = gw_net w"
  "gw_net_cache (snd (enforceKeyIpAllowlist E c w)) = gw_net_cache w"
  "gw_bg (snd (enforceKeyIpAllowlist E c w)) = gw_bg w"
  "gw_rotation (snd (enforceKeyIpAllowlist E c w)) = gw_rotation w"
  "gw_residency (snd (enforceKeyIpAllowlist E c w)) = gw_residency w"
  "gw_quota (snd (enforceKeyIpAllowlist E c w)) = gw_quota w"
  "gw_rate (snd (enforceKeyIpAllowlist E c w)) = gw_rate w"
  "gw_cc (snd (enforceKeyIpAllowlist E c w)) = gw_cc w"
  "gw_slots (snd (enforceKeyIpAllowlist E c w)) = gw_slots w"
  unfolding enforceKeyIpAllowlist_def Let_def by (auto split: stage_splits)

lemma route_frame [simp]:
  "gw_net (snd (guard_route E c w)) = gw_net w"
  "gw_net_cache (snd (guard_route E c w)) = gw_net_cache w"
  "gw_bg (snd (guard_route E c w)) = gw_bg w"
  "gw_rotation (snd (guard_route E c w)) = gw_rotation w"
  "gw_residency (snd (guard_route E c w)) = gw_residency w"
  "gw_quota (snd (guard_route E c w)) = gw_quota w"
  "gw_rate (snd (guard_route E c w)) = gw_rate w"
  "gw_cc (snd (guard_route E c w)) = gw_cc w"
  "gw_slots (snd (guard_route E c w)) = gw_slots w"
  unfolding guard_route_def Let_def by (auto split: stage_splits)

lemma rotation_frame [simp]:
  "gw_net (snd (enforceRotationPolicy E c w)) = gw_net w"
  "gw_net_cache (snd (enforceRotationPolicy E c w)) = gw_net_cache w"
  "gw_bg (snd (enforceRotationPolicy E c w)) = gw_bg w"
  "gw_rotation (snd (enforceRotationPolicy E c w)) = gw_rotation w"
  "gw_residency (snd (enforceRotationPolicy E c w)) = gw_residency w"
  "gw_quota (snd (enforceRotationPolicy E c w)) = gw_quota w"
  "gw_rate (snd (enforceRotationPolicy E c w)) = gw_rate w"
  "gw_cc (snd (enforceRotationPolicy E c w)) = gw_cc w"
  "gw_slots (snd (enforceRotationPolicy E c w)) = gw_slots w"
  unfolding enforceRotationPolicy_def by (auto split: stage_splits)

lemma residency_frame [simp]:
  "gw_net (snd (enforceDataResidency E c w)) = gw_net w"
  "gw_net_cache (snd (enforceDataResidency E c w)) = gw_net_cache w"
  "gw_bg (snd (enforceDataResidency E c w)) = gw_bg w"
  "gw_rotation (snd (enforceDataResidency E c w)) = gw_rotation w"
  "gw_residency (snd (enforceDataResidency E c w)) = gw_residency w"
  "gw_quota (snd (enforceDataResidency E c w)) = gw_quota w"
  "gw_rate (snd (enforceDataResidency E c w)) = gw_rate w"
  "gw_cc (snd (enforceDataResidency E c w)) = gw_cc w"
  "gw_slots (snd (enforceDataResidency E c w)) = gw_slots w"
  unfolding enforceDataResidency_def Let_def by (auto split: stage_splits)

lemma quota_frame [simp]:
  "gw_net (snd (guard_quota E c w)) = gw_net w"
  "gw_net_cache (snd (guard_quota E c w)) = gw_net_cache w"
  "gw_bg (snd (guard_quota E c w)) = gw_bg w"
  "gw_rotation (snd (guard_quota E c w)) = gw_rotation w"
  "gw_residency (snd (guard_quota E c w)) = gw_residency w"
  "gw_rate (snd (guard_quota E c w)) = gw_rate w"
  "gw_cc (snd (guard_quota E c w)) = gw_cc w"
  "gw_slots (snd (guard_quota E c w)) = gw_slots w"
  unfolding guard_quota_def by (auto split: stage_splits)

lemma rate_frame [simp]:
  "gw_net (snd (guard_rate E c q w)) = gw_net w"
  "gw_net_cache (snd (guard_rate E c q w)) = gw_net_cache w"
  "gw_bg (snd (guard_rate E c q w)) = gw_bg w"
  "gw_rotation (snd (guard_rate E c q w)) = gw_rotation w"
  "gw_residency (snd (guard_rate E c q w)) = gw_residency w"
  "gw_quota (snd (guard_rate E c q w)) = gw_quota w"
  "gw_cc (snd (guard_rate E c q w)) = gw_cc w"
  "gw_slots (snd (guard_rate E c q w)) = gw_slots w"
  unfolding guard_rate_def by (auto split: stage_splits)

definition not_frozen :: "guard_env \<Rightarrow> 'a world \<Rightarrow> bool" where
  "not_frozen E w \<longleftrightarrow> (\<exists>s. fst (getFreezeState (ge_clock E 0) (gw_freeze w)) = Inr s \<and> \<not> frozen s)"

definition network_ok :: "guard_env \<Rightarrow> v1_call \<Rightarrow> 'a world \<Rightarrow> bool" where
  "network_ok E c w \<longleftrightarrow> (\<exists>p. getPolicy (gw_net w) = Inr p
     \<and> (net_allowed (fst (decideAllowed (rq_headers (vc_req c)) p (gw_net_cache w)))
        \<or> (\<exists>g. getActive (ge_host E) (ge_clock E 2) (gw_bg w) = Inr (Some g))))"

definition rotation_ok :: "guard_env \<Rightarrow> v1_call \<Rightarrow> 'a world \<Rightarrow> bool" where
  "rotation_ok E c w \<longleftrightarrow> (\<exists>p ev. getRotationPolicy (ge_rotation_env E) (gw_rotation w) = Inr p
     \<and> evaluateKeyRotation (ge_host E) (vc_key c) p (ge_clock E 8) = Inr ev \<and> re_status ev \<noteq> Rot_stale)"

definition residency_ok :: "guard_env \<Rightarrow> v1_call \<Rightarrow> 'a world \<Rightarrow> bool" where
  "residency_ok E c w \<longleftrightarrow> (\<exists>p. getResidencyPolicy (ge_residency_env E) (gw_residency w) = Inr p
     \<and> rs_allowed (decideResidency (rq_headers (vc_req c)) p (call_method c)))"

definition quota_ok :: "guard_env \<Rightarrow> v1_call \<Rightarrow> 'a world \<Rightarrow> bool" where
  "quota_ok E c w \<longleftrightarrow> mq_ready (gw_quota w)
     \<and> (let n = quota_of (ge_quota_env E) (k_id (vc_key c)) (mq_view (gw_quota w))
        in n = 0 \<or> count_in (k_id (vc_key c)) (periodOf (ge_clock E 12)) (mq_view (gw_quota w)) < n)"

definition rate_ok :: "guard_env \<Rightarrow> v1_call \<Rightarrow> 'a world \<Rightarrow> bool" where
  "rate_ok E c w \<longleftrightarrow> rl_ready (gw_rate w)
     \<and> rl_used (k_id (vc_key c)) (window_start_of (ge_clock E 14)) (gw_rate w)
       < limit_of (ge_rate_env E) (k_id (vc_key c)) (rl_view (gw_rate w))"

definition slot_ok :: "guard_env \<Rightarrow> 'a world \<Rightarrow> bool" where
  "slot_ok E w \<longleftrightarrow> (\<exists>p. fst (getConcurrencyPolicy (ge_clock E 16) (gw_cc w)) = Inr p
     \<and> (\<forall>n. cp_limit p = Some n \<longrightarrow> gw_slots w < n))"

lemma goes_freeze [simp]: "goes (guard_freeze E c w) \<longleftrightarrow> not_frozen E w"
  unfolding guard_freeze_def not_frozen_def by (auto split: stage_splits)

lemma goes_network [simp]: "goes (guard_network E c w) \<longleftrightarrow> network_ok E c w"
  unfolding guard_network_def network_ok_def active_grant_def Let_def by (auto split: stage_splits)

lemma goes_key_ip [simp]: "goes (enforceKeyIpAllowlist E c w) \<longleftrightarrow> decideKeyIpAllowed (rq_headers (vc_req c)) (vc_key c) = IpAllowed"
  unfolding enforceKeyIpAllowlist_def Let_def by (auto split: stage_splits)

lemma goes_route [simp]: "goes (guard_route E c w) \<longleftrightarrow> isRouteAllowed (vc_route c) (k_route_allowlist (vc_key c))"
  unfolding guard_route_def Let_def by (auto split: stage_splits)

lemma goes_rotation [simp]: "goes (enforceRotationPolicy E c w) \<longleftrightarrow> rotation_ok E c w"
  unfolding enforceRotationPolicy_def rotation_ok_def decideRotationBlock_def
  by (auto split: stage_splits simp: map_sum_def)

lemma goes_residency [simp]: "goes (enforceDataResidency E c w) \<longleftrightarrow> residency_ok E c w"
  unfolding enforceDataResidency_def residency_ok_def Let_def by (auto split: stage_splits)

lemma reserve_broken: "\<not> mq_ready st \<Longrightarrow> fst (reserve env k t st) = Inl IoFault"
  by (simp add: mq_ready_def reserve_def with_load_def mq_readStore_def)

lemma consume_broken: "\<not> rl_ready st \<Longrightarrow> fst (rl_consume env k t st) = Inl IoFault"
  by (simp add: rl_ready_def rl_consume_def with_load_def rl_readStore_def)

lemma goes_quota [simp]: "goes (guard_quota E c w) \<longleftrightarrow> quota_ok E c w"
proof (cases "mq_ready (gw_quota w)")
  case True
  then obtain d st' where "reserve (ge_quota_env E) (k_id (vc_key c)) (ge_clock E 12) (gw_quota w) = (Inr d, st')"
    "qd_allowed d \<longleftrightarrow> quota_ok E c w"
    using reserve_ready[of "gw_quota w" "ge_quota_env E" "k_id (vc_key c)" "ge_clock E 12"]
    by (auto simp: quota_ok_def Let_def mq_limit_def split: if_splits)
  then show ?thesis unfolding guard_quota_def by (auto split: stage_splits)
next
  case False
  with reserve_broken[OF False] show ?thesis
    unfolding guard_quota_def quota_ok_def by (auto split: stage_splits) (metis fst_conv sum.distinct(1))
qed

lemma goes_rate [simp]: "goes (guard_rate E c q w) \<longleftrightarrow> rate_ok E c w"
proof (cases "rl_ready (gw_rate w)")
  case True
  then obtain d st' where "rl_consume (ge_rate_env E) (k_id (vc_key c)) (ge_clock E 14) (gw_rate w) = (Inr d, st')"
    "rd_allowed d \<longleftrightarrow> rate_ok E c w"
    using rl_consume_ready[of "gw_rate w" "ge_rate_env E" "k_id (vc_key c)" "ge_clock E 14"]
    by (auto simp: rate_ok_def)
  then show ?thesis unfolding guard_rate_def by (auto split: stage_splits)
next
  case False
  with consume_broken[OF False] show ?thesis
    unfolding guard_rate_def rate_ok_def by (auto split: stage_splits) (metis fst_conv sum.distinct(1))
qed

lemma goes_slot [simp]: "goes (guard_concurrency E c q r w) \<longleftrightarrow> slot_ok E w"
proof (cases "getConcurrencyPolicy (ge_clock E 16) (gw_cc w)")
  case (Pair res st)
  then show ?thesis
    unfolding guard_concurrency_def slot_ok_def tryAcquire_def by (cases res) (auto split: stage_splits)
qed

definition guards_pass :: "guard_env \<Rightarrow> v1_call \<Rightarrow> 'a world \<Rightarrow> bool" where
  "guards_pass E c w \<longleftrightarrow> not_frozen E w \<and> network_ok E c w
     \<and> decideKeyIpAllowed (rq_headers (vc_req c)) (vc_key c) = IpAllowed
     \<and> isRouteAllowed (vc_route c) (k_route_allowlist (vc_key c))
     \<and> rotation_ok E c w \<and> residency_ok E c w \<and> quota_ok E c w \<and> rate_ok E c w \<and> slot_ok E w"

lemma checks_goes: "goes (checks E c w) \<longleftrightarrow> guards_pass E c w"
  by (simp add: checks_def goes_and_then guards_pass_def)
     (simp add: network_ok_def rotation_ok_def residency_ok_def quota_ok_def rate_ok_def slot_ok_def)


lemma checks_goD:
  assumes "checks E c w = (Go a, w')"
  shows "gw_slots w' = gw_slots w + 1" "gw_metrics w' = gw_metrics w" "gw_usage w' = gw_usage w" "gw_app w' = gw_app w"
  using checks_stage.stage_go[of E c w a] checks_stage.stage_frame[of E c w] assms by auto

lemma checks_endD:
  assumes "checks E c w = (out, w')" "\<And>a. out \<noteq> Go a"
  shows "gw_slots w' = gw_slots w" "gw_metrics w' = gw_metrics w" "gw_usage w' = gw_usage w" "gw_app w' = gw_app w"
  using checks_stage.stage_end[of E c w] checks_stage.stage_frame[of E c w] assms by auto

lemma guards_pass_metrics [simp]: "guards_pass E c (w\<lparr>gw_metrics := m\<rparr>) = guards_pass E c w"
  by (simp add: guards_pass_def not_frozen_def network_ok_def rotation_ok_def residency_ok_def quota_ok_def rate_ok_def slot_ok_def)

definition entered :: "'a world \<Rightarrow> 'a world" where
  "entered w = w\<lparr>gw_metrics := incInFlight (gw_metrics w)\<rparr>"

lemma admit_cases:
  obtains (pass) a w' where "guards_pass E c w" "checks E c (entered w) = (Go a, w')" "admit E c w = (Go a, w')"
  | (refuse) r w' where "\<not> guards_pass E c w" "checks E c (entered w) = (Stop r, w')"
      "admit E c w = (Stop r, leave (obs E c (rsp_status r) w'))"
  | (throw) e w' where "\<not> guards_pass E c w" "checks E c (entered w) = (Fail e, w')"
      "admit E c w = (Fail e, leave (obs E c 500 w'))"
proof -
  have g: "goes (checks E c (entered w)) \<longleftrightarrow> guards_pass E c w" by (simp add: checks_goes entered_def)
  obtain out w' where o: "checks E c (entered w) = (out, w')" by (meson surj_pair)
  then show ?thesis
    using g pass refuse throw by (cases out) (auto simp: admit_def simp flip: entered_def)
qed

lemma obs_frame [simp]:
  "gw_slots (obs E c s w) = gw_slots w" "gw_app (obs E c s w) = gw_app w" "gw_audit (obs E c s w) = gw_audit w"
  "gw_cc (obs E c s w) = gw_cc w" "gw_quota (obs E c s w) = gw_quota w" "gw_rate (obs E c s w) = gw_rate w"
  by (simp_all add: obs_def Let_def)

lemma leave_frame [simp]:
  "gw_slots (leave w) = gw_slots w" "gw_app (leave w) = gw_app w" "gw_audit (leave w) = gw_audit w" "gw_usage (leave w) = gw_usage w"
  "gw_cc (leave w) = gw_cc w" "gw_quota (leave w) = gw_quota w" "gw_rate (leave w) = gw_rate w"
  by (simp_all add: leave_def)

lemma entered_frame [simp]:
  "gw_slots (entered w) = gw_slots w" "gw_app (entered w) = gw_app w" "gw_audit (entered w) = gw_audit w" "gw_usage (entered w) = gw_usage w"
  "gw_cc (entered w) = gw_cc w" "gw_quota (entered w) = gw_quota w" "gw_rate (entered w) = gw_rate w"
  "gw_metrics (entered w) = incInFlight (gw_metrics w)"
  by (simp_all add: entered_def)

text \<open>The one observation a finished call leaves behind.\<close>

definition observation :: "guard_env \<Rightarrow> v1_call \<Rightarrow> NextResponse res \<Rightarrow> ObserveInput" where
  "observation E c result =
     \<lparr>o_method = call_method c, o_status = (case result of Inl e \<Rightarrow> 500 | Inr r \<Rightarrow> rsp_status r),
      o_route_class = classifyRoute (vc_route c), o_durationMs = ge_clock E 20 - ge_clock E 18\<rparr>"

lemma in_flight_cancel:
  "0 \<le> m_reqInFlight m \<Longrightarrow> decInFlight (observeRequest o' (incInFlight m)) = observeRequest o' m"
  by (simp add: decInFlight_def observeRequest_def incInFlight_def Let_def)

lemma obs_metrics: "gw_metrics (obs E c s w) = observeRequest
    \<lparr>o_method = call_method c, o_status = s, o_route_class = classifyRoute (vc_route c),
     o_durationMs = ge_clock E 20 - ge_clock E 18\<rparr> (gw_metrics w)"
  by (simp add: obs_def Let_def)

lemma obs_usage: "gw_usage (obs E c s w)
    = (if k_id (vc_key c) = [] then gw_usage w
       else snd (recordRequest (k_id (vc_key c)) (route_class_str (classifyRoute (vc_route c))) s (ge_clock E 21) (gw_usage w)))"
  by (simp add: obs_def Let_def)

section \<open>Properties\<close>

text \<open>C2: the handler runs exactly when every check passes: the workspace is not frozen, the network
  policy admits the address or a break-glass grant is active, the key's address and route
  lists admit the call, the key is not stale, residency allows it, and the key has quota, rate
  and the workspace a slot left. Otherwise the outcome does not depend on the handler and its
  state is untouched.\<close>

theorem handler_runs_iff_guards_pass:
  "if guards_pass E c w
   then \<exists>a w'. gw_app w' = gw_app w \<and> enforceRateLimit E c handler w
          = (case handler (gw_app w) of (result, app) \<Rightarrow> finish E c a result (w'\<lparr>gw_app := app\<rparr>))
   else gw_app (snd (enforceRateLimit E c handler w)) = gw_app w
        \<and> (\<forall>handler'. enforceRateLimit E c handler' w = enforceRateLimit E c handler w)"
proof (cases rule: admit_cases[of E c w])
  case (pass a w')
  then show ?thesis using checks_goD(4)[OF pass(2)] by (auto simp: enforceRateLimit_def)
next
  case (refuse r w')
  then show ?thesis using checks_endD(4)[OF refuse(2)] by (auto simp: enforceRateLimit_def)
next
  case (throw e w')
  then show ?thesis using checks_endD(4)[OF throw(2)] by (auto simp: enforceRateLimit_def)
qed

text \<open>C13: whatever happens to a call (refused by any check, failed by an exception of a store or of the
  handler, or answered), it leaves the in-flight gauge and the concurrency slots as it found
  them and exactly one observation, with the status of its outcome, in the metrics and in the key's
  usage.\<close>

theorem guard_restores_counters:
  assumes "0 \<le> m_reqInFlight (gw_metrics w)" "0 \<le> gw_slots w"
    and "enforceRateLimit E c handler w = (result, w')"
  shows "gw_slots w' = gw_slots w \<and> gw_metrics w' = observeRequest (observation E c result) (gw_metrics w)
    \<and> gw_usage w' = (if k_id (vc_key c) = [] then gw_usage w
        else snd (recordRequest (k_id (vc_key c)) (route_class_str (classifyRoute (vc_route c)))
               (o_status (observation E c result)) (ge_clock E 21) (gw_usage w)))"
proof (cases rule: admit_cases[of E c w])
  case (pass a w1)
  obtain res app where h: "handler (gw_app w1) = (res, app)" by (meson surj_pair)
  have "(result, w') = finish E c a res (w1\<lparr>gw_app := app\<rparr>)"
    using assms(3) pass(3) h by (simp add: enforceRateLimit_def)
  then show ?thesis
    using checks_goD[OF pass(2)] assms(1,2)
    by (cases res) (auto simp: finish_def Let_def observation_def leave_def obs_metrics obs_usage in_flight_cancel release_def decorate_def)
next
  case (refuse r w1)
  then show ?thesis
    using checks_endD[OF refuse(2)] assms
    by (auto simp: enforceRateLimit_def observation_def leave_def obs_metrics obs_usage in_flight_cancel)
next
  case (throw e w1)
  then show ?thesis
    using checks_endD[OF throw(2)] assms
    by (auto simp: enforceRateLimit_def observation_def leave_def obs_metrics obs_usage in_flight_cancel)
qed

text \<open>C14: Refusals are on record, as far as the log can be written: when a call is answered without its handler running, and the appends to the audit
  file succeed (the code swallows a failed one), the last line of the log is an event with the status of the answer, the id of the key and the route.\<close>

theorem refusals_are_audited:
  assumes "ge_io E" "\<not> guards_pass E c w" "enforceRateLimit E c handler w = (Inr r, w')"
  shows "\<exists>pre ev. readAllLines (gw_audit w') = readAllLines (gw_audit w) @ pre @ [ev] \<and> event_of c (rsp_status r) ev"
proof (cases rule: admit_cases[of E c w])
  case (refuse r' w1)
  then have "r' = r" "gw_audit w' = gw_audit w1" using assms(3) by (auto simp: enforceRateLimit_def)
  then show ?thesis using checks_stage.stage_stop[OF assms(1), of c "entered w" r'] refuse(2) by simp
next
  case (pass a w1)
  then show ?thesis using assms(2) by simp
next
  case (throw e w1)
  then show ?thesis using assms(3) by (simp add: enforceRateLimit_def)
qed

lemma frozen_result:
  assumes "fst (getFreezeState (ge_clock E 0) (gw_freeze w)) = Inr s" "frozen s"
  shows "\<exists>r w'. enforceRateLimit E c handler w = (Inr r, w') \<and> rsp_status r = 503
    \<and> gw_quota w' = gw_quota w \<and> gw_rate w' = gw_rate w \<and> gw_slots w' = gw_slots w \<and> gw_app w' = gw_app w"
proof -
  obtain r w1 where f: "guard_freeze E c (entered w) = (Stop r, w1)" "rsp_status r = 503"
    "gw_quota w1 = gw_quota w" "gw_rate w1 = gw_rate w" "gw_slots w1 = gw_slots w" "gw_app w1 = gw_app w"
    using assms freeze_frame(6,7,9)[of E c "entered w"] freeze_stage.stage_frame[of E c "entered w"]
    unfolding guard_freeze_def entered_def by (auto split: stage_splits)
  then have "checks E c (entered w) = (Stop r, w1)" by (simp add: checks_def and_then_def)
  then have "enforceRateLimit E c handler w = (Inr r, leave (obs E c (rsp_status r) w1))"
    by (simp add: enforceRateLimit_def admit_def flip: entered_def)
  with f show ?thesis by simp
qed

text \<open>The kill switch. A frozen workspace answers 503 to every call and touches neither quota, rate
  limit, slots nor the application.\<close>

theorem frozen_workspace_answers_503:
  assumes "fst (getFreezeState (ge_clock E 0) (gw_freeze w)) = Inr s" "frozen s"
  shows "\<exists>r w'. enforceRateLimit E c handler w = (Inr r, w') \<and> rsp_status r = 503
    \<and> gw_quota w' = gw_quota w \<and> gw_rate w' = gw_rate w \<and> gw_slots w' = gw_slots w \<and> gw_app w' = gw_app w"
  using assms by (rule frozen_result)

section \<open>Overlapping requests\<close>

text \<open>
  Requests overlap while their handlers run: a call is admitted and joins the \<open>n\<close> running ones,
  is refused or fails, a running handler works on the application's state, or a running call
  finishes.
\<close>

inductive guard_step :: "'a world \<times> nat \<Rightarrow> 'a world \<times> nat \<Rightarrow> bool" where
  gs_enter: "admit E c w = (Go a, w') \<Longrightarrow> guard_step (w, r) (w', Suc r)"
| gs_refuse: "admit E c w = (Stop resp, w') \<Longrightarrow> guard_step (w, r) (w', r)"
| gs_throw: "admit E c w = (Fail e, w') \<Longrightarrow> guard_step (w, r) (w', r)"
| gs_work: "guard_step (w, Suc r) (w\<lparr>gw_app := x\<rparr>, Suc r)"
| gs_leave: "finish E c a result w = (out, w') \<Longrightarrow> guard_step (w, Suc r) (w', r)"

lemma in_flight_simps [simp]:
  "m_reqInFlight (observeRequest o' m) = m_reqInFlight m" "m_reqInFlight (incInFlight m) = m_reqInFlight m + 1"
  "m_reqInFlight (decInFlight m) = max 0 (m_reqInFlight m - 1)"
  by (simp_all add: observeRequest_def Let_def incInFlight_def decInFlight_def)

definition slots_inv :: "ConcurrencyPolicy \<Rightarrow> int \<Rightarrow> 'a world \<times> nat \<Rightarrow> bool" where
  "slots_inv p n s \<longleftrightarrow> gw_slots (fst s) = int (snd s) \<and> m_reqInFlight (gw_metrics (fst s)) = int (snd s) \<and> int (snd s) \<le> n
     \<and> coherent cc_readFromDisk (gw_cc (fst s)) \<and> cc_readFromDisk (cs_file (gw_cc (fst s))) = Inr p"



definition loads_policy :: "guard_env \<Rightarrow> ('a world \<Rightarrow> 'b outcome \<times> 'a world) \<Rightarrow> bool" where
  "loads_policy E f \<longleftrightarrow> (\<forall>w. gw_cc (snd (f w)) = gw_cc w
     \<or> gw_cc (snd (f w)) = snd (getConcurrencyPolicy (ge_clock E 16) (gw_cc w)))"

lemma loads_policy_seq:
  assumes "\<And>w. gw_cc (snd (f w)) = gw_cc w" "\<And>x. loads_policy E (g x)"
  shows "loads_policy E (and_then f g)"
  unfolding loads_policy_def
proof
  fix w
  show "gw_cc (snd (and_then f g w)) = gw_cc w \<or> gw_cc (snd (and_then f g w)) = snd (getConcurrencyPolicy (ge_clock E 16) (gw_cc w))"
  proof (cases "f w")
    case (Pair out w')
    then have w': "gw_cc w' = gw_cc w" using assms(1)[of w] by simp
    show ?thesis
    proof (cases out)
      case (Go x)
      then show ?thesis using Pair w' assms(2)[of x] by (auto simp: and_then_def loads_policy_def) metis
    qed (use Pair w' in \<open>simp_all add: and_then_def\<close>)
  qed
qed

lemma checks_loads_policy: "loads_policy E (checks E c)"
proof -
  have "loads_policy E (and_then (guard_concurrency E c q r) (\<lambda>x w. (Go (g x), w)))" for q r g
    unfolding loads_policy_def and_then_def guard_concurrency_def by (auto split: stage_splits)
  note last = this
  show ?thesis unfolding checks_def
    by (rule last | (rule loads_policy_seq, simp))+
qed

lemma policy_kept:
  assumes "coherent cc_readFromDisk st" "cc_readFromDisk (cs_file st) = Inr p"
    and "st' = st \<or> st' = snd (getConcurrencyPolicy t st)"
  shows "coherent cc_readFromDisk st' \<and> cc_readFromDisk (cs_file st') = Inr p"
  using assms ttl_load_coherent[OF assms(1), of CC_CACHE_TTL_MS t] by (auto simp: getConcurrencyPolicy_def)

lemma admit_policy: "gw_cc (snd (admit E c w)) = gw_cc w \<or> gw_cc (snd (admit E c w)) = snd (getConcurrencyPolicy (ge_clock E 16) (gw_cc w))"
proof -
  have "gw_cc (snd (admit E c w)) = gw_cc (snd (checks E c (entered w)))"
    by (cases rule: admit_cases[of E c w]) simp_all
  then show ?thesis using checks_loads_policy[of E c] by (metis loads_policy_def entered_frame(5))
qed

lemma guard_step_inv:
  assumes "guard_step s s'" "slots_inv p n s" "cp_limit p = Some n"
  shows "slots_inv p n s'"
  using assms(1,2)
proof cases
  case (gs_enter E c w a w' r)
  from gs_enter(3) have ch: "guards_pass E c w" "checks E c (entered w) = (Go a, w')"
    by (cases rule: admit_cases[of E c w]; simp)+
  have "fst (getConcurrencyPolicy (ge_clock E 16) (gw_cc w)) = Inr p"
    using assms(2) gs_enter(1) ttl_load_coherent(1)[of cc_readFromDisk "gw_cc w" CC_CACHE_TTL_MS "ge_clock E 16"]
    by (simp add: slots_inv_def getConcurrencyPolicy_def)
  then have "gw_slots w < n" using ch(1) assms(3) by (auto simp: guards_pass_def slot_ok_def)
  with checks_goD[OF ch(2)] assms(2) gs_enter policy_kept[OF _ _ admit_policy[of E c w], of p] show ?thesis
    by (simp add: slots_inv_def)
next
  case (gs_refuse E c w resp w' r)
  from gs_refuse(3) obtain w1 where "checks E c (entered w) = (Stop resp, w1)" "w' = leave (obs E c (rsp_status resp) w1)"
    by (cases rule: admit_cases[of E c w]) auto
  with checks_endD[of E c "entered w" "Stop resp" w1] assms(2) gs_refuse policy_kept[OF _ _ admit_policy[of E c w], of p] show ?thesis
    by (simp add: slots_inv_def) (simp add: leave_def obs_metrics)
next
  case (gs_throw E c w e w' r)
  from gs_throw(3) obtain w1 where "checks E c (entered w) = (Fail e, w1)" "w' = leave (obs E c 500 w1)"
    by (cases rule: admit_cases[of E c w]) auto
  with checks_endD[of E c "entered w" "Fail e" w1] assms(2) gs_throw policy_kept[OF _ _ admit_policy[of E c w], of p] show ?thesis
    by (simp add: slots_inv_def) (simp add: leave_def obs_metrics)
next
  case (gs_work w r x)
  with assms(2) show ?thesis by (simp add: slots_inv_def)
next
  case (gs_leave E c a result w out w' r)
  then have "gw_slots w' = release (gw_slots w)" "gw_cc w' = gw_cc w" "m_reqInFlight (gw_metrics w') = max 0 (m_reqInFlight (gw_metrics w) - 1)"
    by (auto simp: finish_def Let_def leave_def obs_metrics split: sum.splits)
  with assms(2) gs_leave show ?thesis by (simp add: slots_inv_def release_def)
qed

text \<open>In every interleaving of overlapping calls, refusals and failures included, the in-flight gauge and
  the slot counter both equal the number of calls whose handlers are running, and that number never
  exceeds the limit of the stored concurrency policy.\<close>

theorem overlapping_calls_within_limit:
  assumes "guard_step\<^sup>*\<^sup>* (w0, 0) (w, r)"
    and "gw_slots w0 = 0" "m_reqInFlight (gw_metrics w0) = 0"
    and "gw_cc w0 = \<lparr>cs_file = Holds (enc_policy p), cs_cache = None\<rparr>" "cp_limit p = Some n" "wf_policy p"
  shows "gw_slots w = int r \<and> m_reqInFlight (gw_metrics w) = int r \<and> int r \<le> n"
proof -
  have "slots_inv p n (w0, 0)"
    using assms(2-6) cc.read_written[OF assms(6)] by (simp add: slots_inv_def coherent_def cc_readFromDisk_def wf_policy_def)
  with assms(1) have "slots_inv p n (w, r)"
    by (induction rule: rtranclp_induct) (auto intro: guard_step_inv[OF _ _ assms(5)])
  then show ?thesis by (simp add: slots_inv_def)
qed


section \<open>A concrete workspace\<close>

definition sample_env :: guard_env where
  "sample_env = \<lparr>ge_host = sample_host, ge_clock = (\<lambda>_. 0), ge_id = (\<lambda>_. ''e''), ge_fresh = replicate 32 (CHR ''k''), ge_io = True,
     ge_rate_env = None, ge_quota_env = None, ge_rotation_env = (None, None), ge_residency_env = (None, None)\<rparr>"

definition sample_call :: v1_call where
  "sample_call = \<lparr>vc_req = \<lparr>rq_headers = (\<lambda>_. None), rq_method = None\<rparr>, vc_key = sample_key, vc_route = ''/api/v1/runs''\<rparr>"

definition sample_policy :: ConcurrencyPolicy where
  "sample_policy = \<lparr>cp_limit = Some 2, cp_updated_at = None, cp_updated_by = None\<rparr>"

definition sample_workspace :: "unit world" where
  "sample_workspace =
     \<lparr>gw_metrics = metrics_store 0, gw_usage = NoFile, gw_freeze = \<lparr>cs_file = Absent, cs_cache = None\<rparr>,
      gw_net = Absent, gw_net_cache = None, gw_bg = \<lparr>bg_file = Absent, bg_queue = None\<rparr>, gw_rotation = Absent,
      gw_residency = Absent, gw_quota = \<lparr>mq_file = NoFile, mq_cache = None\<rparr>,
      gw_rate = \<lparr>rl_file = NoFile, rl_cache = None, rl_writeQueued = False\<rparr>,
      gw_cc = \<lparr>cs_file = Holds (enc_policy sample_policy), cs_cache = None\<rparr>, gw_slots = 0,
      gw_audit = au_new (replicate 32 (CHR ''k'')), gw_app = ()\<rparr>"

definition frozen_workspace :: "unit world" where
  "frozen_workspace = sample_workspace\<lparr>gw_freeze := \<lparr>cs_file = Absent, cs_cache = Some (DEFAULT_FREEZE\<lparr>frozen := True\<rparr>, 0)\<rparr>\<rparr>"

definition ok_handler :: "unit \<Rightarrow> NextResponse res \<times> unit" where
  "ok_handler u = (Inr \<lparr>rsp_status = 200, rsp_headers = [], rsp_body = JNull\<rparr>, ())"

lemma frozen_sample:
  "fst (getFreezeState (ge_clock sample_env 0) (gw_freeze frozen_workspace)) = Inr (DEFAULT_FREEZE\<lparr>frozen := True\<rparr>)"
  by (simp add: frozen_workspace_def getFreezeState_def ttl_load_def sample_env_def FREEZE_CACHE_TTL_MS_def)

theorem frozen_workspace_answers_503_witness:
  "\<exists>r w'. enforceRateLimit sample_env sample_call ok_handler frozen_workspace = (Inr r, w') \<and> rsp_status r = 503
    \<and> gw_quota w' = gw_quota frozen_workspace \<and> gw_rate w' = gw_rate frozen_workspace
    \<and> gw_slots w' = gw_slots frozen_workspace \<and> gw_app w' = gw_app frozen_workspace"
  by (rule frozen_workspace_answers_503[OF frozen_sample]) simp

theorem refusals_are_audited_witness:
  "\<exists>r w' pre ev. enforceRateLimit sample_env sample_call ok_handler frozen_workspace = (Inr r, w')
    \<and> readAllLines (gw_audit w') = readAllLines (gw_audit frozen_workspace) @ pre @ [ev] \<and> event_of sample_call (rsp_status r) ev"
proof -
  obtain r w' where run: "enforceRateLimit sample_env sample_call ok_handler frozen_workspace = (Inr r, w')"
    using frozen_result[OF frozen_sample, of sample_call ok_handler] by auto
  have "\<not> guards_pass sample_env sample_call frozen_workspace"
    using frozen_sample by (simp add: guards_pass_def not_frozen_def)
  with run refusals_are_audited[OF _ _ run] show ?thesis by (auto simp: sample_env_def)
qed

theorem guard_restores_counters_witness:
  "let (result, w') = enforceRateLimit sample_env sample_call ok_handler sample_workspace
   in gw_slots w' = 0 \<and> gw_metrics w' = observeRequest (observation sample_env sample_call result) (metrics_store 0)"
proof -
  obtain result w' where run: "enforceRateLimit sample_env sample_call ok_handler sample_workspace = (result, w')" by (meson surj_pair)
  from guard_restores_counters[OF _ _ run] show ?thesis
    by (simp add: run) (simp add: sample_workspace_def metrics_store_def)
qed

lemma sample_passes: "guards_pass sample_env sample_call sample_workspace"
  unfolding guards_pass_def
proof (intro conjI)
  show "not_frozen sample_env sample_workspace"
    by (simp add: not_frozen_def sample_workspace_def getFreezeState_def ttl_load_def fz_readFromDisk_def DEFAULT_FREEZE_def)
  show "network_ok sample_env sample_call sample_workspace"
    by (simp add: network_ok_def sample_workspace_def getPolicy_def DEFAULT_NET_POLICY_def decideAllowed_def)
  show "decideKeyIpAllowed (rq_headers (vc_req sample_call)) (vc_key sample_call) = IpAllowed"
    by (simp add: decideKeyIpAllowed_def sample_call_def sample_key_def)
  show "isRouteAllowed (vc_route sample_call) (k_route_allowlist (vc_key sample_call))"
    by (simp add: isRouteAllowed_def sample_call_def sample_key_def)
  show "rotation_ok sample_env sample_call sample_workspace"
    by (simp add: rotation_ok_def sample_env_def sample_workspace_def getRotationPolicy_def rot_defaultPolicy_def envInt_def
        evaluateKeyRotation_def Let_def)
  show "residency_ok sample_env sample_call sample_workspace"
    by (simp add: residency_ok_def sample_env_def sample_workspace_def getResidencyPolicy_def res_defaultPolicy_def envRegion_def
        envMode_def decideResidency_def case_prod_unfold Let_def or_empty_def toLowerCase_def MODE_VALUES_def)
  show "quota_ok sample_env sample_call sample_workspace"
    by (simp add: quota_ok_def sample_env_def sample_workspace_def mq_ready_def mq_view_def mq_readStore_def quota_of_def
        DEFAULT_MONTHLY_QUOTA_def Let_def)
  show "rate_ok sample_env sample_call sample_workspace"
    by (simp add: rate_ok_def sample_env_def sample_workspace_def rl_ready_def rl_view_def rl_readStore_def rl_used_def limit_of_def
        DEFAULT_PER_MINUTE_def Let_def)
  show "slot_ok sample_env sample_workspace"
    by (simp add: slot_ok_def sample_workspace_def getConcurrencyPolicy_def ttl_load_def cc_readFromDisk_def dec_enc_policy
        sample_policy_def wf_policy_def)
qed

theorem overlapping_calls_within_limit_witness:
  "\<exists>w. guard_step\<^sup>*\<^sup>* (sample_workspace, 0) (w, 1) \<and> gw_slots w = 1 \<and> m_reqInFlight (gw_metrics w) = 1"
proof -
  obtain a w where "admit sample_env sample_call sample_workspace = (Go a, w)"
    using sample_passes by (cases rule: admit_cases[of sample_env sample_call sample_workspace]) auto
  then have run: "guard_step\<^sup>*\<^sup>* (sample_workspace, 0) (w, 1)" by (auto intro: gs_enter)
  from overlapping_calls_within_limit[OF run, of sample_policy 2] run show ?thesis
    by (auto simp: sample_workspace_def metrics_store_def sample_policy_def wf_policy_def)
qed

end
