(* ===== verification/V1Route.thy ===== *)
theory V1Route
  imports V1Guard Idempotency
begin

text \<open>
  The frame that every route below \<^verbatim>\<open>src/web/app/api/v1\<close> has: authenticate, check the scope, record the
  call, and run the handler inside the guard, for a mutating route inside the idempotency wrapper too. The handlers record audit
  lines of their own, so here they work on the whole state, the audit log included.

  The lemmas: the guard treats alike two states that differ in the routes' data only, and so does the frame around a
  handler that does.
\<close>

section \<open>The frame\<close>

record 'a v1_app =
  ap_auth :: auth_world
  ap_idem :: id_store
  ap_data :: 'a

type_synonym 'a v1_world = "'a v1_app world"

text \<open>
  What a request brings besides its headers: its query parameters (\<^verbatim>\<open>searchParams.get\<close>) and the text of its body. In the
  environment, \<open>re_parse\<close> is \<^verbatim>\<open>JSON.parse\<close>. The guard reads the clock below 100, authentication from 100 on, the routes from 110 on,
  the idempotency wrapper from 120 on.
\<close>

record route_request =
  rr_req :: v1_request
  rr_query :: "string \<Rightarrow> string option"
  rr_raw :: string

record route_env =
  re_guard :: guard_env
  re_admin_key :: "string option"
  re_parse :: "string \<Rightarrow> json option"

abbreviation rr_headers :: "route_request \<Rightarrow> headers" where
  "rr_headers rq \<equiv> rq_headers (rr_req rq)"

definition json_response :: "int \<Rightarrow> json \<Rightarrow> NextResponse" where
  "json_response status body = \<lparr>rsp_status = status, rsp_headers = [], rsp_body = body\<rparr>"

definition v1_err :: "int \<Rightarrow> string \<Rightarrow> string \<Rightarrow> NextResponse" where
  "v1_err status code msg = error_response status code msg [] []"

definition route_audit ::
  "route_env \<Rightarrow> nat \<Rightarrow> string \<Rightarrow> route_request \<Rightarrow> int \<Rightarrow> StoredKey option \<Rightarrow> string option \<Rightarrow> json option \<Rightarrow> 'a world \<Rightarrow> 'a world" where
  "route_audit E i route rq status key reason details w =
     (let G = re_guard E in
      w\<lparr>gw_audit := snd (recordAuditEvent (ge_host G) (ge_clock G i) (ge_id G i) (ge_fresh G) (ge_io G)
         \<lparr>ai_req = Some (rr_headers rq), ai_route = route, ai_method = or_empty (rq_method (rr_req rq)), ai_status = status,
          ai_key = key, ai_reason = reason, ai_details = details\<rparr> (gw_audit w))\<rparr>)"

definition route_auth :: "route_env \<Rightarrow> route_request \<Rightarrow> 'a v1_world \<Rightarrow> StoredKey option res \<times> 'a v1_world" where
  "route_auth E rq w =
     (case authenticate (ge_host (re_guard E)) (re_admin_key E) (\<lambda>i. ge_clock (re_guard E) (100 + i)) (Some (rr_headers rq))
             (extractKey (rr_headers rq)) (ap_auth (gw_app w)) of
        (out, aw) \<Rightarrow> (out, w\<lparr>gw_app := (gw_app w)\<lparr>ap_auth := aw\<rparr>\<rparr>))"

text \<open>\<^const>\<open>enforceRateLimit\<close> around a handler that works on the whole state.\<close>

definition guarded :: "guard_env \<Rightarrow> v1_call \<Rightarrow> ('a world \<Rightarrow> NextResponse res \<times> 'a world) \<Rightarrow> 'a world \<Rightarrow> NextResponse res \<times> 'a world" where
  "guarded E c handler w =
     (case admit E c w of
        (Fail e, w) \<Rightarrow> (Inl e, w)
      | (Stop r, w) \<Rightarrow> (Inr r, w)
      | (Go a, w) \<Rightarrow> (case handler w of (result, w) \<Rightarrow> finish E c a result w))"

definition v1_route ::
  "route_env \<Rightarrow> Scope \<Rightarrow> string \<Rightarrow> string \<Rightarrow> string \<Rightarrow> route_request \<Rightarrow> (StoredKey \<Rightarrow> 'a v1_world \<Rightarrow> NextResponse res \<times> 'a v1_world)
   \<Rightarrow> 'a v1_world \<Rightarrow> NextResponse res \<times> 'a v1_world" where
  "v1_route E scope reason msg route rq handler w =
     (case route_auth E rq w of
        (Inl e, w) \<Rightarrow> (Inl e, w)
      | (Inr None, w) \<Rightarrow>
          (Inr (v1_err 401 ''unauthorized'' ''missing or invalid api key''), route_audit E 110 route rq 401 None (Some ''unauthorized'') None w)
      | (Inr (Some key), w) \<Rightarrow>
          if scope \<notin> set (k_scopes key) \<and> S_admin \<notin> set (k_scopes key)
          then (Inr (v1_err 403 ''forbidden'' msg), route_audit E 110 route rq 403 (Some key) (Some reason) None w)
          else guarded (re_guard E) \<lparr>vc_req = rr_req rq, vc_key = key, vc_route = route\<rparr> (handler key)
                 (route_audit E 110 route rq 200 (Some key) None None w))"

text \<open>\<^const>\<open>withIdempotency\<close> around a handler that works on the whole state: the part before the handler, the handler, the part after.\<close>

definition idem_env_of :: "route_env \<Rightarrow> idem_env" where
  "idem_env_of E =
     (let G = re_guard E in
      \<lparr>ie_host = ge_host G, ie_clock = (\<lambda>i. ge_clock G (120 + i)), ie_id = ge_id G 123, ie_fresh = ge_fresh G, ie_io = ge_io G,
       ie_parse = re_parse E\<rparr>)"

definition idem_call_of :: "string \<Rightarrow> route_request \<Rightarrow> StoredKey \<Rightarrow> idem_call" where
  "idem_call_of route rq key =
     \<lparr>ic_headers = rr_headers rq, ic_method = rq_method (rr_req rq), ic_key = key, ic_route = route, ic_raw = rr_raw rq\<rparr>"

definition idem_part :: "'a v1_world \<Rightarrow> unit idem_world" where
  "idem_part w = \<lparr>iw_store = ap_idem (gw_app w), iw_audit = gw_audit w, iw_app = ()\<rparr>"

definition put_idem :: "unit idem_world \<Rightarrow> 'a v1_world \<Rightarrow> 'a v1_world" where
  "put_idem iw w = w\<lparr>gw_audit := iw_audit iw, gw_app := (gw_app w)\<lparr>ap_idem := iw_store iw\<rparr>\<rparr>"

definition idempotent ::
  "route_env \<Rightarrow> string \<Rightarrow> route_request \<Rightarrow> (json \<Rightarrow> 'a v1_world \<Rightarrow> NextResponse res \<times> 'a v1_world) \<Rightarrow> StoredKey \<Rightarrow> 'a v1_world
   \<Rightarrow> NextResponse res \<times> 'a v1_world" where
  "idempotent E route rq handler key w =
     (case idem_begin (idem_env_of E) (idem_call_of route rq key) (idem_part w) of
        (Answer a, iw) \<Rightarrow> (a, put_idem iw w)
      | (Run body slot, iw) \<Rightarrow>
          (case handler body (put_idem iw w) of (out, w) \<Rightarrow>
             (case idem_end (idem_env_of E) (idem_call_of route rq key) slot out (idem_part w) of (out, iw) \<Rightarrow> (out, put_idem iw w))))"

section \<open>Dry runs\<close>

definition yes_word :: "string \<Rightarrow> bool" where
  "yes_word v \<longleftrightarrow> v = ''1'' \<or> v = ''true'' \<or> v = ''yes''"

definition no_word :: "string \<Rightarrow> bool" where
  "no_word v \<longleftrightarrow> v = ''0'' \<or> v = ''false'' \<or> v = ''no''"

text \<open>The URL of a request that is being served always parses, so the query parameter is at hand.\<close>

definition isDryRun :: "route_request \<Rightarrow> json option \<Rightarrow> bool" where
  "isDryRun rq body =
     (let q = map_option toLowerCase (rr_query rq ''dry_run'') in
      if (case q of None \<Rightarrow> False | Some v \<Rightarrow> yes_word v) then True
      else if (case q of None \<Rightarrow> False | Some v \<Rightarrow> no_word v) then False
      else if truthy (rr_headers rq ''x-dry-run'') \<and> yes_word (toLowerCase (trim (or_empty (rr_headers rq ''x-dry-run'')))) then True
      else (case body of None \<Rightarrow> False | Some b \<Rightarrow> jfield b ''dry_run'' = Some (JBool True)))"

definition dryRunResponse :: "json \<Rightarrow> NextResponse" where
  "dryRunResponse effect =
     \<lparr>rsp_status = 200, rsp_headers = set_headers [(''X-Dry-Run'', ''true'')] [],
      rsp_body = JObj [(''dry_run'', JBool True), (''would'', effect),
        (''note'', JStr ''no state was changed. remove ?dry_run=true (or the X-Dry-Run header) to execute.'')]\<rparr>"

section \<open>What the guard does not look at\<close>

text \<open>The contract of a stage that does not look at the routes' state and leaves it alone.\<close>

locale app_blind =
  fixes f :: "'a world \<Rightarrow> 'b outcome \<times> 'a world"
  assumes blind: "f (gw_app_update g w) = map_prod id (gw_app_update g) (f w)"

lemma blind_seq:
  assumes "app_blind f" "\<And>x. app_blind (h x)"
  shows "app_blind (and_then f h)"
proof
  fix g w
  show "and_then f h (gw_app_update g w) = map_prod id (gw_app_update g) (and_then f h w)"
    using app_blind.blind[OF assms(1), of g w] app_blind.blind[OF assms(2)]
    by (cases "f w"; cases "fst (f w)") (auto simp: and_then_def)
qed

interpretation freeze_blind: app_blind "guard_freeze E c" for E c
  by unfold_locales (auto simp: guard_freeze_def guard_audit_def split: stage_splits)

interpretation network_blind: app_blind "guard_network E c" for E c
  by unfold_locales (auto simp: guard_network_def active_grant_def Let_def guard_audit_def split: stage_splits)

interpretation key_ip_blind: app_blind "enforceKeyIpAllowlist E c" for E c
  by unfold_locales (auto simp: enforceKeyIpAllowlist_def Let_def guard_audit_def split: stage_splits)

interpretation route_blind: app_blind "guard_route E c" for E c
  by unfold_locales (auto simp: guard_route_def Let_def guard_audit_def split: stage_splits)

interpretation rotation_blind: app_blind "enforceRotationPolicy E c" for E c
  by unfold_locales (auto simp: enforceRotationPolicy_def Let_def guard_audit_def split: stage_splits)

interpretation residency_blind: app_blind "enforceDataResidency E c" for E c
  by unfold_locales (auto simp: enforceDataResidency_def Let_def guard_audit_def split: stage_splits)

interpretation quota_blind: app_blind "guard_quota E c" for E c
  by unfold_locales (auto simp: guard_quota_def Let_def guard_audit_def split: stage_splits)

interpretation rate_blind: app_blind "guard_rate E c q" for E c q
  by unfold_locales (auto simp: guard_rate_def Let_def guard_audit_def split: stage_splits)

interpretation slot_blind: app_blind "guard_concurrency E c q r" for E c q r
  by unfold_locales (simp add: guard_concurrency_def Let_def guard_audit_def split: stage_splits)

lemma blind_last: "app_blind (\<lambda>w. (Go x, w))"
  by unfold_locales simp

interpretation checks_blind: app_blind "checks E c" for E c
  unfolding checks_def
  by (intro blind_seq blind_last freeze_blind.app_blind_axioms network_blind.app_blind_axioms key_ip_blind.app_blind_axioms
      route_blind.app_blind_axioms rotation_blind.app_blind_axioms residency_blind.app_blind_axioms quota_blind.app_blind_axioms
      rate_blind.app_blind_axioms slot_blind.app_blind_axioms)

lemma obs_blind: "leave (obs E c s (gw_app_update g w)) = gw_app_update g (leave (obs E c s w))"
  by (simp add: obs_def leave_def Let_def)

lemma admit_blind: "admit E c (gw_app_update g w) = map_prod id (gw_app_update g) (admit E c w)"
proof -
  have "gw_app_update g w\<lparr>gw_metrics := m\<rparr> = gw_app_update g (w\<lparr>gw_metrics := m\<rparr>)" for m by simp
  then have "checks E c (gw_app_update g w\<lparr>gw_metrics := incInFlight (gw_metrics w)\<rparr>)
      = map_prod id (gw_app_update g) (checks E c (w\<lparr>gw_metrics := incInFlight (gw_metrics w)\<rparr>))"
    by (simp only: checks_blind.blind)
  then show ?thesis
    by (cases "checks E c (w\<lparr>gw_metrics := incInFlight (gw_metrics w)\<rparr>)";
        cases "fst (checks E c (w\<lparr>gw_metrics := incInFlight (gw_metrics w)\<rparr>))") (auto simp: admit_def obs_blind)
qed

lemma admit_app: "admit E c w = (Go a, w') \<Longrightarrow> gw_app w' = gw_app w"
  using checks_goD(4)[of E c "entered w" a w'] by (cases rule: admit_cases[of E c w]) (auto simp: entered_def)

lemma admit_end_app: "admit E c w = (out, w') \<Longrightarrow> (\<And>a. out \<noteq> Go a) \<Longrightarrow> gw_app w' = gw_app w"
  using checks_endD(4)[of E c "entered w"] by (cases rule: admit_cases[of E c w]) (auto simp: entered_def leave_def obs_def Let_def)

lemma finish_response: "fst (finish E c a out w) = map_sum id (decorate c a) out"
  by (cases out) (simp_all add: finish_def Let_def)

lemma finish_app: "gw_app (snd (finish E c a out w)) = gw_app w"
  by (cases out) (simp_all add: finish_def Let_def leave_def obs_def)

lemma guarded_enforce:
  "enforceRateLimit E c handler w = guarded E c (\<lambda>w. case handler (gw_app w) of (r, app) \<Rightarrow> (r, w\<lparr>gw_app := app\<rparr>)) w"
  by (auto simp: enforceRateLimit_def guarded_def split: prod.splits outcome.splits)

text \<open>A response does not depend on a part of the state that neither the handler nor the guard looks at.\<close>

lemma guarded_blind:
  assumes "\<And>w'. gw_app w' = gw_app w \<Longrightarrow> fst (handler (gw_app_update g w')) = fst (handler w')"
  shows "fst (guarded E c handler (gw_app_update g w)) = fst (guarded E c handler w)"
proof (cases "admit E c w")
  case (Pair out w')
  then show ?thesis
    using assms[of w'] admit_app[of E c w _ w']
    by (cases out) (auto simp: guarded_def admit_blind finish_response split_beta)
qed

lemma audit_app [simp]: "gw_app (route_audit E i route rq s key r d w) = gw_app w"
  by (simp add: route_audit_def Let_def)

lemma audit_route_blind:
  "route_audit E i route rq s key r d (gw_app_update g w) = gw_app_update g (route_audit E i route rq s key r d w)"
  by (simp add: route_audit_def Let_def)

definition put_data :: "'a \<Rightarrow> 'a v1_world \<Rightarrow> 'a v1_world" where
  "put_data d w = gw_app_update (ap_data_update (\<lambda>_. d)) w"

lemma audit_put: "route_audit E i route rq s key r dt (put_data d w) = put_data d (route_audit E i route rq s key r dt w)"
  by (simp add: put_data_def audit_route_blind)

lemma auth_blind: "route_auth E rq (put_data d w) = map_prod id (put_data d) (route_auth E rq w)"
  by (simp add: route_auth_def put_data_def split_beta)

lemma auth_data: "ap_data (gw_app (snd (route_auth E rq w))) = ap_data (gw_app w)"
  by (simp add: route_auth_def split_beta)

lemma v1_route_blind:
  assumes "\<And>key w'. \<lbrakk>fst (route_auth E rq w) = Inr (Some key); ap_data (gw_app w') = ap_data (gw_app w)\<rbrakk> \<Longrightarrow>
    fst (handler key (put_data d w')) = fst (handler key w')"
  shows "fst (v1_route E sc reason msg route rq handler (put_data d w)) = fst (v1_route E sc reason msg route rq handler w)"
proof (cases "route_auth E rq w")
  case (Pair out w1)
  have data: "ap_data (gw_app w1) = ap_data (gw_app w)" using auth_data[of E rq w] Pair by simp
  have g: "fst (guarded (re_guard E) c (handler key) (put_data d (route_audit E i route rq s k r dt w1)))
      = fst (guarded (re_guard E) c (handler key) (route_audit E i route rq s k r dt w1))" if "out = Inr (Some key)" for key c i s k r dt
    unfolding put_data_def by (rule guarded_blind, fold put_data_def) (use that assms[of key] Pair data in simp)
  then show ?thesis
    using Pair by (auto simp: v1_route_def auth_blind audit_put split: sum.splits option.splits)
qed

text \<open>What a route does to the data is what its handler does, and only for a key with the scope.\<close>

lemma v1_route_data:
  obtains (same) "ap_data (gw_app (snd (v1_route E sc reason msg route rq handler w))) = ap_data (gw_app w)"
  | (ran) key w' where "fst (route_auth E rq w) = Inr (Some key)" "sc \<in> set (k_scopes key) \<or> S_admin \<in> set (k_scopes key)"
      "ap_data (gw_app w') = ap_data (gw_app w)"
      "ap_data (gw_app (snd (v1_route E sc reason msg route rq handler w))) = ap_data (gw_app (snd (handler key w')))"
proof (cases "route_auth E rq w")
  case (Pair out w1)
  have data: "ap_data (gw_app w1) = ap_data (gw_app w)" using auth_data[of E rq w] Pair by simp
  show thesis
  proof (cases "\<exists>key. out = Inr (Some key) \<and> (sc \<in> set (k_scopes key) \<or> S_admin \<in> set (k_scopes key))")
    case False
    then have "ap_data (gw_app (snd (v1_route E sc reason msg route rq handler w))) = ap_data (gw_app w1)"
      using Pair by (auto simp: v1_route_def split: sum.splits option.splits)
    then show thesis using data same by simp
  next
    case True
    then obtain key where key: "out = Inr (Some key)" "sc \<in> set (k_scopes key) \<or> S_admin \<in> set (k_scopes key)" by blast
    let ?w = "route_audit E 110 route rq 200 (Some key) None None w1" and ?c = "\<lparr>vc_req = rr_req rq, vc_key = key, vc_route = route\<rparr>"
    have r: "v1_route E sc reason msg route rq handler w = guarded (re_guard E) ?c (handler key) ?w"
      using Pair key by (auto simp: v1_route_def)
    show thesis
    proof (cases "admit (re_guard E) ?c ?w")
      fix o' w2 assume a: "admit (re_guard E) ?c ?w = (o', w2)"
      show thesis
      proof (cases o')
        case (Go ad)
        with a have "gw_app w2 = gw_app ?w" using admit_app by blast
        with Go a r data key Pair show thesis by (intro ran[of key w2]) (simp_all add: guarded_def finish_app split_beta)
      qed (use a r data same admit_end_app[OF a] in \<open>simp_all add: guarded_def\<close>)
    qed
  qed
qed

lemma idempotent_data:
  obtains (same) "ap_data (gw_app (snd (idempotent E route rq handler key w))) = ap_data (gw_app w)"
  | (ran) body w' where "ap_data (gw_app w') = ap_data (gw_app w)"
      "ap_data (gw_app (snd (idempotent E route rq handler key w))) = ap_data (gw_app (snd (handler body w')))"
proof (cases "idem_begin (idem_env_of E) (idem_call_of route rq key) (idem_part w)")
  case (Pair step iw)
  then show thesis
    using same ran[of "put_idem iw w"] by (cases step) (simp_all add: idempotent_def put_idem_def split_beta)
qed

end
