(* ===== verification/RunRoutes.thy ===== *)
theory RunRoutes
  imports V1Route RunStore Activity JsNumber
begin

text \<open>
  The routes on saved runs: \<^verbatim>\<open>GET /api/v1/runs\<close> (\<^verbatim>\<open>src/web/app/api/v1/runs/route.ts\<close>), \<^verbatim>\<open>GET\<close> and \<^verbatim>\<open>DELETE /api/v1/runs/[id]\<close>
  (\<^verbatim>\<open>src/web/app/api/v1/runs/[id]/route.ts\<close>), from authentication to the response, over the run store and the activity feed.

  The theorems: what a key is answered does not depend on the runs it may not read; a delete touches only the
  run it names and only if the key may change it; a dry run changes nothing and announces what the
  call would have answered; and an idempotency key used for one run answers for every other, too.
\<close>

section \<open>Parameters\<close>

definition parseIntParam :: "string option \<Rightarrow> int \<Rightarrow> int" where
  "parseIntParam v fallback =
     (case v of None \<Rightarrow> fallback | Some s \<Rightarrow> (case js_parseInt s of None \<Rightarrow> fallback | Some n \<Rightarrow> n))"

section \<open>Responses\<close>

record run_data =
  rd_runs :: run_file
  rd_activity :: activity_file

type_synonym run_world = "run_data v1_world"

abbreviation runs_of :: "run_world \<Rightarrow> run_file" where
  "runs_of w \<equiv> rd_runs (ap_data (gw_app w))"

abbreviation put_runs :: "run_file \<Rightarrow> run_world \<Rightarrow> run_world" where
  "put_runs f w \<equiv> put_data ((ap_data (gw_app w))\<lparr>rd_runs := f\<rparr>) w"

definition jrat :: "rat option \<Rightarrow> json" where
  "jrat x = (case x of None \<Rightarrow> JNull | Some q \<Rightarrow> JNum (Fin q))"

definition snapshot_json :: "RunSnapshot option \<Rightarrow> json" where
  "snapshot_json s =
     (case s of
        None \<Rightarrow> JNull
      | Some s \<Rightarrow> JObj [(''label'', JStr (sn_label s)), (''realized_vol'', jrat (sn_realized_vol s)), (''trend_slope'', jrat (sn_trend_slope s)),
          (''drawdown'', jrat (sn_drawdown s)), (''confidence'', jrat (sn_confidence s)), (''risk_scale'', jrat (sn_risk_scale s)),
          (''as_of'', JStr (sn_as_of s))])"

definition payload_json :: "RunPayload \<Rightarrow> json" where
  "payload_json p = JObj
     [(''ticker'', JStr (pl_ticker p)), (''dates'', JArr (map JStr (pl_dates p))), (''close'', JArr (map jrat (pl_close p))),
      (''regime'', JArr (map jnullable (pl_regime p))), (''counts'', JObj (map (\<lambda>(k, v). (k, JNum (Fin v))) (pl_counts p))),
      (''snapshot'', snapshot_json (pl_snapshot p)), (''disclaimer'', JStr (pl_disclaimer p))]"

definition owner_json :: "SavedRun \<Rightarrow> json" where
  "owner_json r = JObj [(''key_id'', jnullable (run_created_by_key_id r)), (''key_label'', jnullable (run_created_by_key_label r))]"

definition list_item :: "SavedRun \<Rightarrow> json" where
  "list_item r = JObj
     [(''id'', JStr (run_id r)), (''label'', JStr (run_label r)), (''ticker'', JStr (run_ticker r)),
      (''lookback_days'', JNum (jsint (run_lookback_days r))), (''created_at'', JStr (run_created_at r)),
      (''bars'', JNum (jsint (int (bars_of r)))), (''regime'', jnullable (map_option sn_label (pl_snapshot (run_payload r)))),
      (''confidence'', jrat (confidence_of r)), (''pinned'', JBool (run_pinned r = Some True)),
      (''share_url'', JStr (''/r/'' @ run_id r)), (''owner'', owner_json r)]"

definition run_json :: "SavedRun \<Rightarrow> json" where
  "run_json r = JObj
     [(''id'', JStr (run_id r)), (''label'', JStr (run_label r)), (''ticker'', JStr (run_ticker r)),
      (''lookback_days'', JNum (jsint (run_lookback_days r))), (''created_at'', JStr (run_created_at r)),
      (''payload'', payload_json (run_payload r)), (''share_url'', JStr (''/r/'' @ run_id r)), (''owner'', owner_json r)]"

section \<open>Listing\<close>

definition RUNS_ROUTE :: string where "RUNS_ROUTE = ''/api/v1/runs''"
definition RUN_ROUTE :: string where "RUN_ROUTE = ''/api/v1/runs/[id]''"

definition list_opts :: "route_request \<Rightarrow> StoredKey \<Rightarrow> QueryOpts" where
  "list_opts rq key =
     \<lparr>qo_q = Some (or_empty (rr_query rq ''q'')), qo_regime = Some (or_empty (rr_query rq ''regime'')),
      qo_ticker = Some (or_empty (rr_query rq ''ticker'')), qo_tag = None,
      qo_pinned = (if rr_query rq ''pinned'' = Some ''1'' \<or> rr_query rq ''pinned'' = Some ''true'' then Some True else None),
      qo_since = None, qo_until = None, qo_minConfidence = None, qo_maxConfidence = None, qo_minBars = None, qo_maxBars = None,
      qo_limit = Some (min (parseIntParam (rr_query rq ''limit'') 25) 200),
      qo_offset = Some (max (parseIntParam (rr_query rq ''offset'') 0) 0),
      qo_sort = By_recent, qo_ownerFilter = Some (ownerFilterForKey key)\<rparr>"

definition list_body :: "QueryResult \<Rightarrow> json" where
  "list_body q = JObj
     [(''runs'', JArr (map list_item (qr_runs q))), (''total'', JNum (jsint (int (qr_total q)))), (''limit'', JNum (jsint (qr_limit q))),
      (''offset'', JNum (jsint (qr_offset q))), (''has_more'', JBool (qr_offset q + int (length (qr_runs q)) < int (qr_total q)))]"

definition list_handler :: "string cmp \<Rightarrow> route_env \<Rightarrow> route_request \<Rightarrow> StoredKey \<Rightarrow> run_world \<Rightarrow> NextResponse res \<times> run_world" where
  "list_handler lc E rq key w =
     (map_sum id (\<lambda>q. json_response 200 (list_body q)) (queryRuns (ge_host (re_guard E)) lc (list_opts rq key) (runs_of w)), w)"

definition runs_GET :: "string cmp \<Rightarrow> route_env \<Rightarrow> route_request \<Rightarrow> run_world \<Rightarrow> NextResponse res \<times> run_world" where
  "runs_GET lc E rq = v1_route E S_read ''forbidden:read-required'' ''read scope required'' RUNS_ROUTE rq (list_handler lc E rq)"

section \<open>One run\<close>

definition not_found :: NextResponse where
  "not_found = v1_err 404 ''not_found'' ''run not found''"

definition owner_details :: "string \<Rightarrow> string \<Rightarrow> json" where
  "owner_details i owner = JObj [(''run_id'', JStr i), (''owner_key_id'', JStr owner)]"

definition refuse_owner :: "route_env \<Rightarrow> route_request \<Rightarrow> StoredKey \<Rightarrow> string \<Rightarrow> int \<Rightarrow> string \<Rightarrow> run_world \<Rightarrow> run_world" where
  "refuse_owner E rq key i status owner =
     route_audit E 111 RUN_ROUTE rq status (Some key) (Some ''forbidden:not_owner'') (Some (owner_details i owner))"

definition get_handler :: "route_env \<Rightarrow> route_request \<Rightarrow> string \<Rightarrow> StoredKey \<Rightarrow> run_world \<Rightarrow> NextResponse res \<times> run_world" where
  "get_handler E rq i key w =
     (case getRun i (runs_of w) of
        Inl e \<Rightarrow> (Inl e, w)
      | Inr None \<Rightarrow> (Inr not_found, w)
      | Inr (Some run) \<Rightarrow>
          (case decideRunRead (run_created_by_key_id run) key of
             Acl_not_owner owner \<Rightarrow> (Inr not_found, refuse_owner E rq key i 404 owner w)
           | _ \<Rightarrow> (Inr (json_response 200 (run_json run)), w)))"

definition run_GET :: "route_env \<Rightarrow> route_request \<Rightarrow> string \<Rightarrow> run_world \<Rightarrow> NextResponse res \<times> run_world" where
  "run_GET E rq i = v1_route E S_read ''forbidden:read-required'' ''read scope required'' RUN_ROUTE rq (get_handler E rq i)"

section \<open>Deleting a run\<close>

definition delete_effect :: "string \<Rightarrow> SavedRun \<Rightarrow> json" where
  "delete_effect i run = JObj
     [(''action'', JStr ''delete''), (''resource'', JStr ''run''), (''id'', JStr i),
      (''preview'', JObj [(''label'', JStr (run_label run)), (''ticker'', JStr (run_ticker run))])]"

definition deleted_activity :: "SavedRun \<Rightarrow> ActivityInput" where
  "deleted_activity run =
     \<lparr>an_kind = ''run.deleted'', an_title = ''API run deleted '' @ [CHR 0xB7] @ '' '' @ run_ticker run, an_body = Some (run_label run),
      an_href = Some ''/history''\<rparr>"

definition do_delete :: "route_env \<Rightarrow> string \<Rightarrow> SavedRun \<Rightarrow> run_world \<Rightarrow> NextResponse res \<times> run_world" where
  "do_delete E i run w =
     (let G = re_guard E; d = ap_data (gw_app w) in
      case deleteRun i (rd_runs d) of
        (Inl e, f) \<Rightarrow> (Inl e, put_data (d\<lparr>rd_runs := f\<rparr>) w)
      | (Inr False, f) \<Rightarrow> (Inr (v1_err 500 ''delete_failed'' ''could not delete run''), put_data (d\<lparr>rd_runs := f\<rparr>) w)
      | (Inr True, f) \<Rightarrow>
          (Inr (json_response 200 (JObj [(''id'', JStr i), (''deleted'', JBool True)])),
           put_data (d\<lparr>rd_runs := f, rd_activity := recordSafe (ge_clock G 114) (ge_id G 114) (deleted_activity run) (rd_activity d)\<rparr>) w))"

definition delete_handler ::
  "route_env \<Rightarrow> route_request \<Rightarrow> string \<Rightarrow> StoredKey \<Rightarrow> run_world \<Rightarrow> NextResponse res \<times> run_world" where
  "delete_handler E rq i key w =
     (case getRun i (runs_of w) of
        Inl e \<Rightarrow> (Inl e, w)
      | Inr None \<Rightarrow> (Inr not_found, w)
      | Inr (Some run) \<Rightarrow>
          (case decideRunRead (run_created_by_key_id run) key of
             Acl_not_owner owner \<Rightarrow> (Inr not_found, refuse_owner E rq key i 404 owner w)
           | _ \<Rightarrow>
               (case decideRunMutation (run_created_by_key_id run) key of
                  Acl_not_owner owner \<Rightarrow>
                    (Inr (v1_err 403 ''forbidden'' ''run is owned by a different api key''), refuse_owner E rq key i 403 owner w)
                | _ \<Rightarrow>
                    if isDryRun rq None
                    then (Inr (dryRunResponse (delete_effect i run)),
                          route_audit E 112 RUN_ROUTE rq 200 (Some key) (Some ''dry_run'') (Some (JObj [(''would'', delete_effect i run)])) w)
                    else do_delete E i run w)))"

definition run_DELETE :: "route_env \<Rightarrow> route_request \<Rightarrow> string \<Rightarrow> run_world \<Rightarrow> NextResponse res \<times> run_world" where
  "run_DELETE E rq i =
     v1_route E S_trade ''forbidden:trade-required'' ''trade scope required to delete runs'' RUN_ROUTE rq
       (\<lambda>key. idempotent E RUN_ROUTE rq (\<lambda>body. delete_handler E rq i key) key)"

section \<open>Tenants\<close>

text \<open>Two run files that agree on the rows a key may read, with one row per id.\<close>

definition same_view :: "StoredKey \<Rightarrow> run_file \<Rightarrow> run_file \<Rightarrow> bool" where
  "same_view key f f' \<longleftrightarrow> (\<exists>rs rs'. rs_readStore f = Inr rs \<and> rs_readStore f' = Inr rs' \<and> distinct (map run_id rs) \<and> distinct (map run_id rs')
     \<and> filter (readable key) rs = filter (readable key) rs')"

lemma list_same:
  assumes "same_view key (runs_of w) f"
  shows "fst (list_handler lc E rq key (put_runs f w)) = fst (list_handler lc E rq key w)"
proof -
  obtain rs rs' where rs: "rs_readStore (runs_of w) = Inr rs" "rs_readStore f = Inr rs'" "filter (readable key) rs = filter (readable key) rs'"
    using assms by (auto simp: same_view_def)
  have "query_rows H lc (list_opts rq key) rs = query_rows H lc (list_opts rq key) rs'" for H
    by (rule query_rows_tenant[OF rs(3)]) (simp add: list_opts_def)
  then show ?thesis using rs(1,2) by (simp add: list_handler_def queryRuns_def query_result_def put_data_def)
qed

lemma get_handler_find:
  "fst (get_handler E rq i key w) = map_sum id (\<lambda>rs.
     case (case find (\<lambda>r. run_id r = i) rs of Some r \<Rightarrow> if readable key r then Some r else None | None \<Rightarrow> None) of
       None \<Rightarrow> not_found | Some r \<Rightarrow> json_response 200 (run_json r)) (rs_readStore (runs_of w))"
proof (cases "rs_readStore (runs_of w)")
  case (Inr rs)
  then show ?thesis
    by (cases "find (\<lambda>r. run_id r = i) rs")
      (auto simp: get_handler_def getRun_def readable_def acl_allowed_def split: RunAclDecision.splits)
qed (simp add: get_handler_def getRun_def)

lemma get_same:
  assumes "same_view key (runs_of w) f"
  shows "fst (get_handler E rq i key (put_runs f w)) = fst (get_handler E rq i key w)"
proof -
  obtain rs rs' where rs: "rs_readStore (runs_of w) = Inr rs" "rs_readStore f = Inr rs'" "distinct (map run_id rs)" "distinct (map run_id rs')"
      "filter (readable key) rs = filter (readable key) rs'"
    using assms by (auto simp: same_view_def)
  show ?thesis
    unfolding get_handler_find using rs(1,2) find_tenant[OF rs(3), where i = i and key = key] find_tenant[OF rs(4), where i = i and key = key] rs(5)
    by (simp add: put_data_def)
qed

lemma put_data_simps [simp]: "ap_data (gw_app (put_data d w)) = d"
  by (simp add: put_data_def)

lemma refuse_data [simp]: "gw_app (refuse_owner E rq key i s o' w) = gw_app w"
  by (simp add: refuse_owner_def)

lemma deleteRun_found:
  assumes "rs_readStore f = Inr rs" "find (\<lambda>r. run_id r = i) rs = Some run"
  shows "deleteRun i f = (Inr True, rs_writeStore (filter (\<lambda>r. run_id r \<noteq> i) rs) f)"
proof -
  have "run \<in> set rs" "run_id run = i" using find_SomeD[OF assms(2)] by auto
  then have "length (filter (\<lambda>r. run_id r \<noteq> i) rs) < length rs" by (intro length_filter_less) auto
  with assms(1) show ?thesis by (simp add: deleteRun_def Let_def)
qed

text \<open>The four outcomes of a delete.\<close>

lemma delete_cases:
  assumes "rs_readStore (runs_of w) = Inr rs"
  obtains (refused) "fst (delete_handler E rq i key w) = Inr not_found" "ap_data (gw_app (snd (delete_handler E rq i key w))) = ap_data (gw_app w)"
      "\<And>E' rq'. fst (delete_handler E' rq' i key w) = Inr not_found"
  | (found) run where "run \<in> set rs" "run_id run = i" "readable key run"
      "\<And>E' rq'. delete_handler E' rq' i key w =
         (if isDryRun rq' None
          then (Inr (dryRunResponse (delete_effect i run)),
                route_audit E' 112 RUN_ROUTE rq' 200 (Some key) (Some ''dry_run'') (Some (JObj [(''would'', delete_effect i run)])) w)
          else do_delete E' i run w)"
      "\<And>E'. fst (do_delete E' i run w) = Inr (json_response 200 (JObj [(''id'', JStr i), (''deleted'', JBool True)]))"
      "\<And>E'. runs_of (snd (do_delete E' i run w)) = rs_writeStore (filter (\<lambda>r. run_id r \<noteq> i) rs) (runs_of w)"
proof (cases "find (\<lambda>r. run_id r = i) rs")
  case None
  then show thesis using assms by (intro refused) (simp_all add: delete_handler_def getRun_def)
next
  case (Some run)
  have m: "run \<in> set rs" "run_id run = i" using find_SomeD[OF Some] by auto
  show thesis
  proof (cases "readable key run")
    case False
    then obtain o' where "decideRunRead (run_created_by_key_id run) key = Acl_not_owner o'"
      by (auto simp: readable_def acl_allowed_def split: RunAclDecision.splits)
    then show thesis using assms Some by (intro refused) (simp_all add: delete_handler_def getRun_def)
  next
    case True
    then have "decideRunRead (run_created_by_key_id run) key = d \<Longrightarrow> d = Acl_admin \<or> d = Acl_owner \<or> d = Acl_unowned" for d
      by (cases d) (auto simp: readable_def acl_allowed_def)
    then have d: "decideRunRead (run_created_by_key_id run) key \<in> {Acl_admin, Acl_owner, Acl_unowned}" by auto
    show thesis
      using assms Some d deleteRun_found[OF assms Some]
      by (intro found[OF m True]) (auto simp: delete_handler_def getRun_def mutation_is_read do_delete_def Let_def)
  qed
qed

section \<open>Properties\<close>

text \<open>C7: One tenant's requests say nothing about another's runs. Take two states that differ only in the saved runs, such that the runs the
  authenticated key may read are the same in both. Then the list of runs and the request for any id get the same
  response in both, headers included: a foreign run cannot be told from one that does not exist.\<close>

theorem tenant_reads_isolated:
  assumes "\<And>key. fst (route_auth E rq w) = Inr (Some key) \<Longrightarrow> same_view key (runs_of w) f"
  shows "fst (runs_GET lc E rq (put_runs f w)) = fst (runs_GET lc E rq w) \<and> fst (run_GET E rq i (put_runs f w)) = fst (run_GET E rq i w)"
proof
  show "fst (runs_GET lc E rq (put_runs f w)) = fst (runs_GET lc E rq w)"
    unfolding runs_GET_def
    by (rule v1_route_blind) (metis assms list_same)
  show "fst (run_GET E rq i (put_runs f w)) = fst (run_GET E rq i w)"
    unfolding run_GET_def by (rule v1_route_blind) (metis assms get_same)
qed

text \<open>C8: A delete stays within its bounds: afterwards the store holds the same runs, or all but the one named, and that one only if the
  caller authenticated with a key of trade or admin scope that may read and change it. No run of another tenant is ever removed.\<close>

theorem delete_confined:
  assumes "rs_readStore (runs_of w) = Inr rs" "distinct (map run_id rs)"
  shows "run_rows (runs_of (snd (run_DELETE E rq i w))) = rs
    \<or> (\<exists>key. fst (route_auth E rq w) = Inr (Some key) \<and> (S_trade \<in> set (k_scopes key) \<or> S_admin \<in> set (k_scopes key))
        \<and> run_rows (runs_of (snd (run_DELETE E rq i w))) = filter (\<lambda>r. run_id r \<noteq> i) rs
        \<and> filter (\<lambda>r. \<not> readable key r) (run_rows (runs_of (snd (run_DELETE E rq i w)))) = filter (\<lambda>r. \<not> readable key r) rs)"
proof -
  let ?h = "\<lambda>key. idempotent E RUN_ROUTE rq (\<lambda>body. delete_handler E rq i key) key"
  have rows: "run_rows (runs_of w) = rs" using assms(1) by (simp add: run_rows_def)
  show ?thesis
  proof (cases rule: v1_route_data[of E S_trade "''forbidden:trade-required''" "''trade scope required to delete runs''" RUN_ROUTE rq ?h w])
    case same
    then show ?thesis using rows by (simp add: run_DELETE_def)
  next
    case (ran key w')
    show ?thesis
    proof (cases rule: idempotent_data[of E RUN_ROUTE rq "\<lambda>body. delete_handler E rq i key" key w'])
      case same
      then show ?thesis using rows ran by (simp add: run_DELETE_def)
    next
      case (ran body w'')
      note r2 = ran
      have rd: "rs_readStore (runs_of w'') = Inr rs" using assms(1) \<open>ap_data (gw_app w') = ap_data (gw_app w)\<close> ran(1) by simp
      have d: "ap_data (gw_app (snd (run_DELETE E rq i w))) = ap_data (gw_app (snd (delete_handler E rq i key w'')))"
        using \<open>ap_data (gw_app (snd (v1_route _ _ _ _ _ _ _ w))) = _\<close> ran(2) by (simp add: run_DELETE_def)
      from rd show ?thesis
      proof (cases rule: delete_cases[where E = E and rq = rq and i = i and key = key])
        case refused
        then show ?thesis using d rd by (simp add: run_rows_def)
      next
        case (found run)
        have "readable key x" if "x \<in> set rs" "run_id x = i" for x
          using distinct_find[OF assms(2) that] distinct_find[OF assms(2) found(1,2)] found(3) by simp
        then have "filter (\<lambda>r. \<not> readable key r) (filter (\<lambda>r. run_id r \<noteq> i) rs) = filter (\<lambda>r. \<not> readable key r) rs"
          by (auto intro!: filter_cong)
        moreover have "map ensureTags (filter P rs) = filter P rs" for P
          using assms(1) by (cases "runs_of w") (auto simp: rs_readStore_def filter_map comp_def)
        ultimately show ?thesis
          using found(4,6) d rd \<open>fst (route_auth E rq w) = Inr (Some key)\<close> \<open>S_trade \<in> _ \<or> _\<close>
          by (cases "isDryRun rq None") (auto simp: run_rows_def)
      qed
    qed
  qed
qed

text \<open>A dry run keeps its promise: it changes neither the runs nor the activity feed, and its status is the one the same
  delete without the flag would have had.\<close>

theorem dry_run_announces:
  assumes "isDryRun rq None" "\<not> isDryRun rq' None"
  shows "ap_data (gw_app (snd (run_DELETE E rq i w))) = ap_data (gw_app w)
    \<and> map_sum id rsp_status (fst (delete_handler E rq i key w)) = map_sum id rsp_status (fst (delete_handler E rq' i key w))"
proof
  have quiet: "ap_data (gw_app (snd (delete_handler E rq i key v))) = ap_data (gw_app v)" for key v
    using assms(1) by (auto simp: delete_handler_def split: sum.splits option.splits RunAclDecision.splits)
  show "ap_data (gw_app (snd (run_DELETE E rq i w))) = ap_data (gw_app w)"
  proof (cases rule: v1_route_data[of E S_trade "''forbidden:trade-required''" "''trade scope required to delete runs''" RUN_ROUTE rq
      "\<lambda>key. idempotent E RUN_ROUTE rq (\<lambda>body. delete_handler E rq i key) key" w])
    case (ran key w')
    then show ?thesis
      by (cases rule: idempotent_data[of E RUN_ROUTE rq "\<lambda>body. delete_handler E rq i key" key w']) (simp_all add: run_DELETE_def quiet)
  qed (simp add: run_DELETE_def)
  show "map_sum id rsp_status (fst (delete_handler E rq i key w)) = map_sum id rsp_status (fst (delete_handler E rq' i key w))"
  proof (cases "rs_readStore (runs_of w)")
    case (Inr rs)
    then show ?thesis
      by (cases rule: delete_cases[where E = E and rq = rq and i = i and key = key]) (simp_all add: assms dryRunResponse_def json_response_def)
  qed (simp add: delete_handler_def getRun_def)
qed

text \<open>An idempotency key that a delete used up answers for every run: the fingerprint of the request has the pattern of the route but neither
  the id nor the dry-run flag. After a successful delete (or dry run) of one run, a delete of any run under the same header value within
  24 hours gets that first answer with its status and body, and deletes nothing.\<close>

theorem delete_key_answers_for_every_run:
  assumes first: "idem_begin (idem_env_of E) (idem_call_of RUN_ROUTE rq key) (idem_part w) = (Run body (Some (v, fp)), iw)"
      "fst (delete_handler E rq i key (put_idem iw w)) = Inr r" "200 \<le> rsp_status r" "rsp_status r < 300" "room 1 (ap_idem (gw_app w))"
      "w1 = snd (idempotent E RUN_ROUTE rq (\<lambda>_. delete_handler E rq i key) key w)"
    and second: "rq_method (rr_req rq') = rq_method (rr_req rq)" "rr_raw rq' = rr_raw rq"
      "rr_headers rq' ''idempotency-key'' = rr_headers rq ''idempotency-key''"
      "ge_host (re_guard E') = ge_host (re_guard E)" "re_parse E' = re_parse E"
    and time: "time_ok (ge_clock (re_guard E) 121 + TTL_MS)" "ge_clock (re_guard E') 120 < ge_clock (re_guard E) 121 + TTL_MS"
  shows "\<exists>a w2. idempotent E' RUN_ROUTE rq' (\<lambda>_. delete_handler E' rq' j key) key w1 = (Inr a, w2)
    \<and> rsp_status a = rsp_status r \<and> rsp_body a = rsp_body r \<and> ap_data (gw_app w2) = ap_data (gw_app w1)"
proof -
  let ?c = "idem_call_of RUN_ROUTE rq key" and ?c' = "idem_call_of RUN_ROUTE rq' key"
  let ?u = "snd (delete_handler E rq i key (put_idem iw w))"
  note run = idem_begin_run[OF first(1)]
  have keep: "ap_idem (gw_app (snd (delete_handler E rq i key x))) = ap_idem (gw_app x)" for x
    by (auto simp: delete_handler_def do_delete_def put_data_def Let_def split: sum.splits option.splits RunAclDecision.splits prod.splits bool.splits)
  obtain r' iw1 where e: "idem_end (idem_env_of E) ?c (Some (v, fp)) (Inr r) (idem_part ?u) = (Inr r', iw1)"
    using first(3,4) by (simp add: idem_end_def Let_def)
  then have w1: "w1 = put_idem iw1 ?u"
    using first(1,2,6) by (cases "delete_handler E rq i key (put_idem iw w)") (simp add: idempotent_def)
  have p: "parse_body (idem_env_of E') (ic_raw ?c') = parse_body (idem_env_of E) (ic_raw ?c)"
    using second(2,5) by (simp add: parse_body_def idem_env_of_def idem_call_of_def Let_def)
  obtain rec w2 where "idem_begin (idem_env_of E') ?c' (idem_part w1) = (Answer (Inr
      (if fp = fingerprint (ie_host (idem_env_of E)) (ic_meth ?c') (ic_route ?c') (ic_raw ?c') then replay_response ?c' v rec
       else error_response 409 ''idempotency_conflict'' ''this Idempotency-Key was used with a different request body or path''
              [(''idempotency_key'', JStr v), (''first_seen_at'', JStr (ir_created_at rec))] ([(''Idempotency-Key'', v)] @ ic_request_id ?c'))), w2)"
      "ir_status rec = rsp_status r" "ir_body rec = rsp_body r"
    by (rule answered_after_end[OF first(1) _ _ e first(3,4), where w1' = "idem_part w1" and E' = "idem_env_of E'" and c' = ?c'])
      (simp_all only: p run(4), use first(5) keep second run(2,3) time w1 in \<open>simp_all add: idem_part_def put_idem_def idem_env_of_def idem_call_of_def Let_def\<close>)
  moreover have "fp = fingerprint (ie_host (idem_env_of E)) (ic_meth ?c') (ic_route ?c') (ic_raw ?c')"
    using run(1) second by (simp add: idem_call_of_def ic_meth_def)
  ultimately show ?thesis by (simp add: idempotent_def put_idem_def replay_response_def)
qed

section \<open>Examples\<close>

definition route_sample :: "bool \<Rightarrow> route_request" where
  "route_sample dry =
     \<lparr>rr_req = \<lparr>rq_headers = (\<lambda>n. if n = ''x-api-key'' then Some ''sc_live_abc'' else if n = ''idempotency-key'' then Some ''abc'' else None),
                rq_method = Some ''DELETE''\<rparr>,
      rr_query = (\<lambda>n. if n = ''dry_run'' \<and> dry then Some ''1'' else None), rr_raw = []\<rparr>"

definition renv_sample :: route_env where
  "renv_sample = \<lparr>re_guard = sample_env, re_admin_key = None, re_parse = (\<lambda>_. None)\<rparr>"

definition run_sample :: "SavedRun list \<Rightarrow> run_world" where
  "run_sample rs =
     \<lparr>gw_metrics = gw_metrics sample_workspace, gw_usage = gw_usage sample_workspace, gw_freeze = gw_freeze sample_workspace,
      gw_net = gw_net sample_workspace, gw_net_cache = gw_net_cache sample_workspace, gw_bg = gw_bg sample_workspace,
      gw_rotation = gw_rotation sample_workspace, gw_residency = gw_residency sample_workspace, gw_quota = gw_quota sample_workspace,
      gw_rate = gw_rate sample_workspace, gw_cc = gw_cc sample_workspace, gw_slots = gw_slots sample_workspace,
      gw_audit = gw_audit sample_workspace,
      gw_app = \<lparr>ap_auth = sample_world, ap_idem = \<lparr>id_file = NoFile, id_cache = None, id_queued = None\<rparr>,
                ap_data = \<lparr>rd_runs = Stored rs, rd_activity = NoFile\<rparr>\<rparr>\<rparr>"

lemma sample_login: "case fst (route_auth renv_sample (route_sample d) (run_sample [])) of Inr (Some k) \<Rightarrow> k_id k = ''k1'' \<and> k_scopes k = [S_read] | _ \<Rightarrow> False"
  by code_simp

theorem tenant_reads_isolated_witness:
  "fst (runs_GET (cmp_key id) renv_sample (route_sample False) (put_runs (Stored [sample_run ''r1'' 0]) (run_sample [])))
     = fst (runs_GET (cmp_key id) renv_sample (route_sample False) (run_sample []))
   \<and> fst (run_GET renv_sample (route_sample False) ''r1'' (put_runs (Stored [sample_run ''r1'' 0]) (run_sample [])))
     = fst (run_GET renv_sample (route_sample False) ''r1'' (run_sample []))"
proof (rule tenant_reads_isolated)
  fix key assume "fst (route_auth renv_sample (route_sample False) (run_sample [])) = Inr (Some key)"
  then have "k_id key = ''k1''" "k_scopes key = [S_read]" using sample_login[of False] by auto
  then have "\<not> readable key (ensureTags (sample_run ''r1'' 0))" by (simp add: readable_iff)
  then show "same_view key (runs_of (run_sample [])) (Stored [sample_run ''r1'' 0])"
    by (auto simp: same_view_def run_sample_def rs_readStore_def)
qed

theorem delete_confined_witness:
  "let w' = snd (run_DELETE renv_sample (route_sample False) ''r1'' (run_sample [ensureTags (sample_run ''r1'' 0)])); rs = [ensureTags (sample_run ''r1'' 0)] in
   run_rows (runs_of w') = rs
    \<or> (\<exists>key. fst (route_auth renv_sample (route_sample False) (run_sample rs)) = Inr (Some key) \<and> (S_trade \<in> set (k_scopes key) \<or> S_admin \<in> set (k_scopes key))
        \<and> run_rows (runs_of w') = filter (\<lambda>r. run_id r \<noteq> ''r1'') rs \<and> filter (\<lambda>r. \<not> readable key r) (run_rows (runs_of w')) = filter (\<lambda>r. \<not> readable key r) rs)"
  using delete_confined[of "run_sample [ensureTags (sample_run ''r1'' 0)]" "[ensureTags (sample_run ''r1'' 0)]" renv_sample "route_sample False" "''r1''"]
  by (simp add: Let_def run_sample_def rs_readStore_def)

lemma dry_samples: "isDryRun (route_sample True) None" "\<not> isDryRun (route_sample False) None"
  by code_simp+

theorem dry_run_announces_witness:
  "ap_data (gw_app (snd (run_DELETE renv_sample (route_sample True) ''r1'' (run_sample [sample_run ''r1'' 0])))) = ap_data (gw_app (run_sample [sample_run ''r1'' 0]))
    \<and> map_sum id rsp_status (fst (delete_handler renv_sample (route_sample True) ''r1'' sample_key (run_sample [sample_run ''r1'' 0])))
      = map_sum id rsp_status (fst (delete_handler renv_sample (route_sample False) ''r1'' sample_key (run_sample [sample_run ''r1'' 0])))"
  by (rule dry_run_announces[OF dry_samples])

text \<open>A dry run of one run under a header value, then the delete of another: the answer is the preview of the first.\<close>

theorem delete_key_answers_for_every_run_witness:
  "let k = sample_key\<lparr>k_id := ''k2''\<rparr>; w = run_sample [sample_run ''r1'' 0, sample_run ''r2'' 0];
       w1 = snd (idempotent renv_sample RUN_ROUTE (route_sample True) (\<lambda>_. delete_handler renv_sample (route_sample True) ''r1'' k) k w)
   in \<exists>a w2. idempotent renv_sample RUN_ROUTE (route_sample False) (\<lambda>_. delete_handler renv_sample (route_sample False) ''r2'' k) k w1 = (Inr a, w2)
     \<and> rsp_body a = rsp_body (dryRunResponse (delete_effect ''r1'' (ensureTags (sample_run ''r1'' 0)))) \<and> ap_data (gw_app w2) = ap_data (gw_app w1)"
proof -
  let ?k = "sample_key\<lparr>k_id := ''k2''\<rparr>" and ?w = "run_sample [sample_run ''r1'' 0, sample_run ''r2'' 0]"
  let ?c = "idem_call_of RUN_ROUTE (route_sample True) ?k"
  define st :: id_store where "st = \<lparr>id_file = NoFile, id_cache = Some [], id_queued = None\<rparr>"
  have v: "validateHeader (Some ''abc'') = Inr ''abc''" by code_simp
  obtain fp iw where first: "idem_begin (idem_env_of renv_sample) ?c (idem_part ?w) = (Run JNull (Some (''abc'', fp)), iw)"
    using v by (simp add: idem_begin_def parse_body_def idem_call_of_def route_sample_def idem_part_def run_sample_def id_lookup_def with_load_def
        id_readStore_def id_gc_def Let_def)
  have h: "fst (delete_handler renv_sample (route_sample True) ''r1'' ?k (put_idem iw ?w))
      = Inr (dryRunResponse (delete_effect ''r1'' (ensureTags (sample_run ''r1'' 0))))"
    by (simp add: delete_handler_def getRun_def put_idem_def run_sample_def rs_readStore_def decideRunRead_def decideRunMutation_def dry_samples sample_key_def)
  have room: "room 1 (ap_idem (gw_app ?w))" by (simp add: run_sample_def room_def id_readStore_def ID_MAX_RECORDS_def)
  have ok: "200 \<le> rsp_status (dryRunResponse j)" "rsp_status (dryRunResponse j) < 300" for j by (simp_all add: dryRunResponse_def)
  have same: "rq_method (rr_req (route_sample False)) = rq_method (rr_req (route_sample True))" "rr_raw (route_sample False) = rr_raw (route_sample True)"
      "rr_headers (route_sample False) ''idempotency-key'' = rr_headers (route_sample True) ''idempotency-key''"
    by (simp_all add: route_sample_def)
  have time: "time_ok (ge_clock (re_guard renv_sample) 121 + TTL_MS)" "ge_clock (re_guard renv_sample) 120 < ge_clock (re_guard renv_sample) 121 + TTL_MS"
    by (simp_all add: renv_sample_def sample_env_def time_ok_def TTL_MS_def)
  from delete_key_answers_for_every_run[OF first h ok room refl same refl refl time, of "''r2''"] show ?thesis
    unfolding Let_def by blast
qed

end
