(* ===== verification/Zip.thy ===== *)
theory Zip
  imports Prelude "HOL-Library.Word"
begin

unbundle bit_operations_syntax

text \<open>
  The writer of the evidence archives (\<^verbatim>\<open>src/web/lib/zipBuilder.ts\<close>): stored entries, their CRC-32, the central directory. The
  arithmetic of the checksum is on 32-bit words; the writes into the headers throw where a value does not fit its field.

  The theorems: the table-driven checksum is the shift register of the standard, it notices every change within four
  consecutive bytes, a reader of the format gets every entry back from an archive, and an
  archive is built exactly when every length and offset fits its field.
\<close>

section \<open>Bytes\<close>

type_synonym byte = "8 word"

text \<open>\<^verbatim>\<open>Buffer.from(s, "utf8")\<close> for the code units below 256.\<close>

definition utf8_char :: "char \<Rightarrow> byte list" where
  "utf8_char c = (let n = (of_char c :: nat) in if n < 128 then [of_nat n] else [of_nat (192 + n div 64), of_nat (128 + n mod 64)])"

definition utf8 :: "string \<Rightarrow> byte list" where
  "utf8 s = concat (map utf8_char s)"

fun le_bytes :: "nat \<Rightarrow> nat \<Rightarrow> byte list" where
  "le_bytes 0 n = []"
| "le_bytes (Suc k) n = of_nat (n mod 256) # le_bytes k (n div 256)"

text \<open>\<^verbatim>\<open>writeUInt16LE\<close> and \<^verbatim>\<open>writeUInt32LE\<close>: a value outside the field's range throws.\<close>

definition writeUIntLE :: "nat \<Rightarrow> nat \<Rightarrow> byte list res" where
  "writeUIntLE k n = (if n < 256 ^ k then Inr (le_bytes k n) else Inl (Thrown ''ERR_OUT_OF_RANGE''))"

text \<open>The writes that fill a header, one after the other.\<close>

fun write_fields :: "(nat \<times> nat) list \<Rightarrow> byte list res" where
  "write_fields [] = Inr []"
| "write_fields ((k, n) # fs) =
     (case writeUIntLE k n of
        Inl e \<Rightarrow> Inl e
      | Inr b \<Rightarrow> (case write_fields fs of Inl e \<Rightarrow> Inl e | Inr bs \<Rightarrow> Inr (b @ bs)))"

section \<open>The checksum\<close>

definition crc_shift :: "32 word \<Rightarrow> 32 word" where
  "crc_shift c = (if c AND 1 \<noteq> 0 then 0xedb88320 XOR drop_bit 1 c else drop_bit 1 c)"

definition CRC_TABLE :: "32 word list" where
  "CRC_TABLE = map (\<lambda>n. (crc_shift ^^ 8) (of_nat n)) [0..<256]"

definition crc_byte :: "32 word \<Rightarrow> byte \<Rightarrow> 32 word" where
  "crc_byte c b = CRC_TABLE ! unat ((c XOR ucast b) AND 0xff) XOR drop_bit 8 c"

definition crc32 :: "byte list \<Rightarrow> 32 word" where
  "crc32 buf = foldl crc_byte 0xffffffff buf XOR 0xffffffff"

section \<open>The archive\<close>

datatype ZipData = Data_text string | Data_buffer "byte list"

record ZipEntry =
  ze_name :: string
  ze_data :: ZipData

fun data_buf :: "ZipData \<Rightarrow> byte list" where
  "data_buf (Data_text s) = utf8 s"
| "data_buf (Data_buffer b) = b"

definition DOS_TIME :: nat where "DOS_TIME = 0"
definition DOS_DATE :: nat where "DOS_DATE = 0x0021"

definition local_header :: "ZipEntry \<Rightarrow> byte list res" where
  "local_header e =
     (let nameBuf = utf8 (ze_name e); dataBuf = data_buf (ze_data e); size = length dataBuf in
      write_fields [(4, 0x04034b50), (2, 20), (2, 0x0800), (2, 0), (2, DOS_TIME), (2, DOS_DATE), (4, unat (crc32 dataBuf)), (4, size), (4, size),
        (2, length nameBuf), (2, 0)])"

definition central_header :: "nat \<Rightarrow> ZipEntry \<Rightarrow> byte list res" where
  "central_header offset e =
     (let nameBuf = utf8 (ze_name e); dataBuf = data_buf (ze_data e); size = length dataBuf in
      write_fields [(4, 0x02014b50), (2, 20), (2, 20), (2, 0x0800), (2, 0), (2, DOS_TIME), (2, DOS_DATE), (4, unat (crc32 dataBuf)), (4, size), (4, size),
        (2, length nameBuf), (2, 0), (2, 0), (2, 0), (2, 0), (4, 0), (4, offset)])"

text \<open>The loop over the entries: the local parts, the central parts, and the next offset.\<close>

fun zip_loop :: "ZipEntry list \<Rightarrow> byte list \<Rightarrow> byte list \<Rightarrow> nat \<Rightarrow> (byte list \<times> byte list \<times> nat) res" where
  "zip_loop [] loc cen offset = Inr (loc, cen, offset)"
| "zip_loop (e # es) loc cen offset =
     (let nameBuf = utf8 (ze_name e); dataBuf = data_buf (ze_data e) in
      case local_header e of
        Inl x \<Rightarrow> Inl x
      | Inr lh \<Rightarrow>
          (case central_header offset e of
             Inl x \<Rightarrow> Inl x
           | Inr ch \<Rightarrow> zip_loop es (loc @ lh @ nameBuf @ dataBuf) (cen @ ch @ nameBuf) (offset + (length lh + length nameBuf + length dataBuf))))"

definition end_header :: "nat \<Rightarrow> nat \<Rightarrow> nat \<Rightarrow> byte list res" where
  "end_header count centralSize centralStart =
     write_fields [(4, 0x06054b50), (2, 0), (2, 0), (2, count), (2, count), (4, centralSize), (4, centralStart), (2, 0)]"

definition buildZip :: "ZipEntry list \<Rightarrow> byte list res" where
  "buildZip entries =
     (case zip_loop entries [] [] 0 of
        Inl x \<Rightarrow> Inl x
      | Inr (loc, cen, offset) \<Rightarrow> map_sum id (\<lambda>eh. loc @ cen @ eh) (end_header (length entries) (length cen) offset))"

section \<open>Reading an archive\<close>

text \<open>A reader of the format, from the end record over the central directory to the entries. It compares names and checksums; the checksum
  is the shift register of IEEE 802.3, fed bit by bit.\<close>

definition crc_bit :: "32 word \<Rightarrow> bool \<Rightarrow> 32 word" where
  "crc_bit c b = (if bit c 0 \<noteq> b then 0xedb88320 XOR drop_bit 1 c else drop_bit 1 c)"

definition byte_bits :: "byte \<Rightarrow> bool list" where
  "byte_bits b = map (bit b) [0..<8]"

definition crc_register :: "byte list \<Rightarrow> 32 word" where
  "crc_register buf = NOT (foldl crc_bit (- 1) (concat (map byte_bits buf)))"

fun le_value :: "byte list \<Rightarrow> nat" where
  "le_value [] = 0"
| "le_value (b # bs) = unat b + 256 * le_value bs"

definition field :: "byte list \<Rightarrow> nat \<Rightarrow> nat \<Rightarrow> nat" where
  "field z off k = le_value (take k (drop off z))"

fun utf8_decode :: "byte list \<Rightarrow> string" where
  "utf8_decode [] = []"
| "utf8_decode [b] = [char_of (unat b)]"
| "utf8_decode (b # b' # bs) =
     (if unat b < 128 then char_of (unat b) # utf8_decode (b' # bs) else char_of ((unat b - 192) * 64 + (unat b' - 128)) # utf8_decode bs)"

definition read_entry :: "byte list \<Rightarrow> byte list \<Rightarrow> ((string \<times> byte list) \<times> byte list) option" where
  "read_entry z c =
     (let n = field c 28 2; name = take n (drop 46 c); l = drop (field c 42 4) z;
          body = take (field c 24 4) (drop (30 + field l 26 2 + field l 28 2) l)
      in if field c 0 4 = 0x02014b50 \<and> field l 0 4 = 0x04034b50 \<and> field c 10 2 = 0 \<and> take (field l 26 2) (drop 30 l) = name
           \<and> length body = field c 24 4 \<and> unat (crc_register body) = field c 16 4
         then Some ((utf8_decode name, body), drop (46 + n + field c 30 2 + field c 32 2) c) else None)"

fun read_entries :: "byte list \<Rightarrow> nat \<Rightarrow> byte list \<Rightarrow> (string \<times> byte list) list option" where
  "read_entries z 0 c = Some []"
| "read_entries z (Suc k) c =
     (case read_entry z c of None \<Rightarrow> None | Some (e, c') \<Rightarrow> map_option (Cons e) (read_entries z k c'))"

definition read_zip :: "byte list \<Rightarrow> (string \<times> byte list) list option" where
  "read_zip z =
     (let e = drop (length z - 22) z in
      if field e 0 4 = 0x06054b50 then read_entries z (field e 10 2) (drop (field e 16 4) z) else None)"

section \<open>The checksum is the shift register\<close>

lemma and_one_eq_odd: "(c :: 32 word) AND 1 \<noteq> 0 \<longleftrightarrow> odd c"
  by (simp add: and_one_eq odd_iff_mod_2_eq_one)

lemma crc_shift_xor: "crc_shift (c XOR x) = crc_bit c (bit x 0) XOR drop_bit 1 x"
  by (auto simp: crc_shift_def crc_bit_def bit_0 and_one_eq_odd even_xor_iff xor.assoc)

lemma crc_shifts: "(crc_shift ^^ n) (c XOR x) = foldl crc_bit c (map (bit x) [0..<n]) XOR drop_bit n x"
  by (induction n) (simp_all add: crc_shift_xor bit_drop_bit_eq)

lemma crc_byte_bits: "crc_byte c b = foldl crc_bit c (byte_bits b)"
proof -
  let ?y = "c XOR ucast b" let ?m = "take_bit 8 ?y" let ?hi = "push_bit 8 (drop_bit 8 ?y)"
  have ff: "?y AND 0xff = ?m" by (simp add: take_bit_eq_mask mask_eq_exp_minus_1)
  have m: "unat ?m < 256" using take_bit_nat_less_exp[of 8 "unat ?y"] by (simp only: unsigned_take_bit_eq) simp
  have low: "bit ?hi i = False" if "i < 8" for i using that by (simp add: bit_simps)
  have b0: "drop_bit 8 (ucast b :: 32 word) = 0" by (rule bit_eqI) (auto simp: bit_simps dest: bit_imp_le_length)
  have y: "?y = ?m XOR ?hi"
  proof (rule bit_word_eqI)
    show "bit ?y n = bit (?m XOR ?hi) n" if "n < LENGTH(32)" for n using that by (cases "n < 8") (auto simp: bit_simps)
  qed
  have high: "drop_bit 8 ?hi = drop_bit 8 c"
    by (rule bit_eqI) (use b0 in \<open>auto simp: bit_simps dest: bit_imp_le_length\<close>)
  have "crc_byte c b = (crc_shift ^^ 8) ?m XOR drop_bit 8 c" using m by (simp add: crc_byte_def CRC_TABLE_def ff)
  also have "(crc_shift ^^ 8) ?m = foldl crc_bit ?m (map (bit (0 :: 32 word)) [0..<8])"
    using crc_shifts[of 8 ?m 0] by (simp only: xor.right_neutral drop_bit_of_0)
  also have "map (bit (0 :: 32 word)) [0..<8] = map (bit ?hi) [0..<8]" by (rule map_cong) (simp_all only: low set_upt atLeastLessThan_iff bit_0_eq bot_apply bot_bool_def)
  also have "foldl crc_bit ?m (map (bit ?hi) [0..<8]) XOR drop_bit 8 c = (crc_shift ^^ 8) (?m XOR ?hi)" by (simp only: crc_shifts high)
  also have "?m XOR ?hi = ?y" by (rule y[symmetric])
  also have "(crc_shift ^^ 8) ?y = foldl crc_bit c (map (bit (ucast b :: 32 word)) [0..<8])"
    using b0 by (simp add: crc_shifts)
  also have "map (bit (ucast b :: 32 word)) [0..<8] = byte_bits b" by (simp add: byte_bits_def bit_simps cong: map_cong)
  finally show ?thesis .
qed

lemma foldl_crc: "foldl crc_byte c buf = foldl crc_bit c (concat (map byte_bits buf))"
  by (induction buf arbitrary: c) (simp_all add: crc_byte_bits)

lemma crc32_register: "crc32 buf = crc_register buf"
proof -
  have "(0xffffffff :: 32 word) = - 1" by simp
  then show ?thesis unfolding crc32_def crc_register_def foldl_crc by (simp only: bit.xor_one_right)
qed

lemma xor_cancel: "a XOR x = a XOR y \<Longrightarrow> x = (y :: 32 word)"
proof -
  assume "a XOR x = a XOR y"
  then have "a XOR (a XOR x) = a XOR (a XOR y)" by simp
  then show ?thesis by (simp add: xor.assoc[symmetric])
qed

lemma crc_shift_inj: "crc_shift c = crc_shift d \<Longrightarrow> c = d"
proof -
  assume eq: "crc_shift c = crc_shift d"
  have top: "bit (crc_shift x) 31 = bit x 0" for x :: "32 word"
    by (auto simp: crc_shift_def bit_simps and_one_eq_odd bit_0 dest: bit_imp_le_length)
  have low: "bit c 0 = bit d 0" using eq top by metis
  have "drop_bit 1 c = drop_bit 1 d" using eq low by (auto simp: crc_shift_def bit_0 and_one_eq_odd dest: xor_cancel split: if_splits)
  then have "bit c (Suc n) = bit d (Suc n)" for n by (metis bit_drop_bit_eq comp_apply plus_1_eq_Suc)
  with low show "c = d" by (intro bit_eqI) (metis not0_implies_Suc)
qed

lemma crc_bit_inj: "crc_bit c b = crc_bit d b \<Longrightarrow> c = d"
proof -
  assume eq: "crc_bit c b = crc_bit d b"
  have shift: "crc_bit x b = crc_shift (x XOR of_bool b)" for x
    using crc_shift_xor[of x "of_bool b"] by (cases b) (simp_all add: bit_0)
  have "of_bool b XOR c = of_bool b XOR d" using eq by (auto simp: shift xor.commute dest: crc_shift_inj)
  then show "c = d" by (rule xor_cancel)
qed

lemma foldl_inj:
  assumes "\<And>b x y. f x b = f y b \<Longrightarrow> x = y"
  shows "foldl f c bs = foldl f d bs \<Longrightarrow> c = d"
  by (induction bs arbitrary: c d) (auto dest: assms)

lemma crc_bits_inj:
  assumes "foldl crc_bit c bs = foldl crc_bit c bs'" "length bs = length bs'" "length bs \<le> 32"
  shows "bs = bs'"
proof -
  let ?w = "horner_sum of_bool 2 :: bool list \<Rightarrow> 32 word"
  have bits: "map (bit (?w xs)) [0..<length xs] = xs" if "length xs \<le> 32" for xs
    using that by (intro nth_equalityI) (simp_all add: bit_horner_sum_bit_word_iff)
  have "drop_bit (length xs) (?w xs) = 0" if "length xs \<le> 32" for xs
    by (rule bit_eqI) (simp add: bit_drop_bit_eq bit_horner_sum_bit_word_iff)
  then have key: "(crc_shift ^^ length xs) (c XOR ?w xs) = foldl crc_bit c xs" if "length xs \<le> 32" for xs
    using that bits by (simp add: crc_shifts)
  have "(crc_shift ^^ length bs) (c XOR ?w bs') = foldl crc_bit c bs'"
    using key[of bs'] assms(3) unfolding assms(2)[symmetric] by blast
  with key[OF assms(3)] assms(1) have "(crc_shift ^^ length bs) (c XOR ?w bs) = (crc_shift ^^ length bs) (c XOR ?w bs')" by (elim ssubst) blast
  moreover have "inj (crc_shift ^^ length bs)" by (rule inj_fn) (auto intro: injI crc_shift_inj)
  ultimately have "c XOR ?w bs = c XOR ?w bs'" by (simp add: inj_eq)
  then have w: "?w bs = ?w bs'" by (rule xor_cancel)
  have "bs = map (bit (?w bs)) [0..<length bs]" by (rule bits[OF assms(3), symmetric])
  also have "\<dots> = map (bit (?w bs')) [0..<length bs']" by (simp only: w assms(2))
  also have "\<dots> = bs'" by (rule bits) (use assms in simp)
  finally show ?thesis .
qed

lemma byte_bits_length [simp]: "length (byte_bits b) = 8"
  by (simp add: byte_bits_def)

lemma byte_bits_inj: "byte_bits a = byte_bits b \<Longrightarrow> a = b"
  by (rule bit_word_eqI) (auto simp: byte_bits_def)

lemma all_bits_length [simp]: "length (concat (map byte_bits d)) = 8 * length d"
  by (induction d) simp_all

lemma all_bits_inj: "\<lbrakk>length d = length d'; concat (map byte_bits d) = concat (map byte_bits d')\<rbrakk> \<Longrightarrow> d = d'"
  by (induction d d' rule: list_induct2) (auto dest: byte_bits_inj)

section \<open>Fields\<close>

lemma length_le_bytes [simp]: "length (le_bytes k n) = k"
  by (induction k arbitrary: n) simp_all

lemma le_value_bytes: "n < 256 ^ k \<Longrightarrow> le_value (le_bytes k n) = n"
proof (induction k arbitrary: n)
  case (Suc k)
  then have "n div 256 < 256 ^ k" by (simp add: less_mult_imp_div_less mult.commute)
  with Suc.IH have "le_value (le_bytes k (n div 256)) = n div 256" .
  moreover have "unat (of_nat (n mod 256) :: byte) = n mod 256" by (simp add: unsigned_of_nat take_bit_eq_mod)
  ultimately show ?case by simp
qed simp

lemma write_fields_eq:
  "write_fields fs = (if \<forall>(k, n) \<in> set fs. n < 256 ^ k then Inr (concat (map (\<lambda>(k, n). le_bytes k n) fs)) else Inl (Thrown ''ERR_OUT_OF_RANGE''))"
  by (induction fs rule: write_fields.induct) (auto simp: writeUIntLE_def)

lemma utf8_decode_utf8: "utf8_decode (utf8 s) = s"
proof (induction s)
  case (Cons c s)
  have c: "(of_char c :: nat) < 256" by (rule nat_of_char_less_256)
  have u: "unat (of_nat n :: byte) = n" if "n < 256" for n using that by (simp add: unsigned_of_nat take_bit_eq_mod)
  show ?case
  proof (cases "(of_char c :: nat) < 128")
    case True
    then have "utf8 (c # s) = of_nat (of_char c) # utf8 s" by (simp add: utf8_def utf8_char_def)
    with True Cons u[of "of_char c"] show ?thesis by (cases "utf8 s") simp_all
  next
    case False
    then have "utf8 (c # s) = of_nat (192 + of_char c div 64) # of_nat (128 + of_char c mod 64) # utf8 s"
      by (simp add: utf8_def utf8_char_def Let_def)
    moreover have "192 + (of_char c :: nat) div 64 < 256" using c less_mult_imp_div_less[of "of_char c" 64 64] by linarith
    moreover have "(of_char c :: nat) div 64 * 64 + of_char c mod 64 = of_char c" by simp
    ultimately show ?thesis using Cons by (simp add: u del: of_nat_add)
  qed
qed (simp add: utf8_def)

section \<open>What an archive consists of\<close>

abbreviation name_buf :: "ZipEntry \<Rightarrow> byte list" where "name_buf e \<equiv> utf8 (ze_name e)"
abbreviation body_buf :: "ZipEntry \<Rightarrow> byte list" where "body_buf e \<equiv> data_buf (ze_data e)"

definition entry_size :: "ZipEntry \<Rightarrow> nat" where
  "entry_size e = 30 + length (name_buf e) + length (body_buf e)"

definition entry_fits :: "ZipEntry \<Rightarrow> bool" where
  "entry_fits e \<longleftrightarrow> length (name_buf e) < 2 ^ 16 \<and> length (body_buf e) < 2 ^ 32"

definition local_bytes :: "ZipEntry \<Rightarrow> byte list" where
  "local_bytes e = le_bytes 4 0x04034b50 @ le_bytes 2 20 @ le_bytes 2 0x0800 @ le_bytes 2 0 @ le_bytes 2 0 @ le_bytes 2 0x21
     @ le_bytes 4 (unat (crc32 (body_buf e))) @ le_bytes 4 (length (body_buf e)) @ le_bytes 4 (length (body_buf e))
     @ le_bytes 2 (length (name_buf e)) @ le_bytes 2 0"

definition central_bytes :: "nat \<Rightarrow> ZipEntry \<Rightarrow> byte list" where
  "central_bytes off e = le_bytes 4 0x02014b50 @ le_bytes 2 20 @ le_bytes 2 20 @ le_bytes 2 0x0800 @ le_bytes 2 0 @ le_bytes 2 0 @ le_bytes 2 0x21
     @ le_bytes 4 (unat (crc32 (body_buf e))) @ le_bytes 4 (length (body_buf e)) @ le_bytes 4 (length (body_buf e))
     @ le_bytes 2 (length (name_buf e)) @ le_bytes 2 0 @ le_bytes 2 0 @ le_bytes 2 0 @ le_bytes 2 0 @ le_bytes 4 0 @ le_bytes 4 off"

definition end_bytes :: "nat \<Rightarrow> nat \<Rightarrow> nat \<Rightarrow> byte list" where
  "end_bytes n csize start = le_bytes 4 0x06054b50 @ le_bytes 2 0 @ le_bytes 2 0 @ le_bytes 2 n @ le_bytes 2 n @ le_bytes 4 csize @ le_bytes 4 start @ le_bytes 2 0"

fun central_part :: "nat \<Rightarrow> ZipEntry list \<Rightarrow> byte list" where
  "central_part off [] = []"
| "central_part off (e # es) = central_bytes off e @ name_buf e @ central_part (off + entry_size e) es"

fun fits_from :: "nat \<Rightarrow> ZipEntry list \<Rightarrow> bool" where
  "fits_from off [] = True"
| "fits_from off (e # es) = (entry_fits e \<and> off < 2 ^ 32 \<and> fits_from (off + entry_size e) es)"

definition local_part :: "ZipEntry list \<Rightarrow> byte list" where
  "local_part es = concat (map (\<lambda>e. local_bytes e @ name_buf e @ body_buf e) es)"

lemma part_lengths [simp]:
  "length (local_bytes e) = 30" "length (central_bytes off e) = 46" "length (end_bytes n csize start) = 22"
  by (simp_all add: local_bytes_def central_bytes_def end_bytes_def)

lemma local_part_Cons: "local_part (e # es) = local_bytes e @ name_buf e @ body_buf e @ local_part es"
  by (simp add: local_part_def)

lemma length_local_part: "length (local_part es) = sum_list (map entry_size es)"
  by (induction es) (simp_all add: local_part_def entry_size_def)

lemma length_central_part: "length (central_part off es) = sum_list (map (\<lambda>e. 46 + length (name_buf e)) es)"
  by (induction es arbitrary: off) simp_all

lemma unat_crc [simp]: "unat (x :: 32 word) < 4294967296"
  using unsigned_less[where 'a = nat and w = x] by simp

lemma local_header_eq: "local_header e = (if entry_fits e then Inr (local_bytes e) else Inl (Thrown ''ERR_OUT_OF_RANGE''))"
  by (simp add: local_header_def Let_def write_fields_eq local_bytes_def entry_fits_def DOS_TIME_def DOS_DATE_def)

lemma central_header_eq:
  "central_header off e = (if entry_fits e \<and> off < 2 ^ 32 then Inr (central_bytes off e) else Inl (Thrown ''ERR_OUT_OF_RANGE''))"
  by (auto simp: central_header_def Let_def write_fields_eq central_bytes_def entry_fits_def DOS_TIME_def DOS_DATE_def)

lemma zip_loop_eq:
  "zip_loop es loc cen off =
     (if fits_from off es then Inr (loc @ local_part es, cen @ central_part off es, off + sum_list (map entry_size es))
      else Inl (Thrown ''ERR_OUT_OF_RANGE''))"
proof (induction es arbitrary: loc cen off)
  case (Cons e es)
  show ?case
  proof (cases "entry_fits e \<and> off < 2 ^ 32")
    case True
    have "off + (length (local_bytes e) + length (name_buf e) + length (body_buf e)) = off + entry_size e" by (simp add: entry_size_def)
    with True Cons show ?thesis by (simp add: local_header_eq central_header_eq Let_def local_part_Cons ac_simps)
  qed (auto simp: local_header_eq central_header_eq)
qed (simp add: local_part_def)

text \<open>Fewer than \<open>2 ^ 16\<close> entries, names of fewer than \<open>2 ^ 16\<close> bytes, less than \<open>2 ^ 32\<close> bytes of entries and of central directory.\<close>

definition zip_fits :: "ZipEntry list \<Rightarrow> bool" where
  "zip_fits es \<longleftrightarrow> length es < 2 ^ 16 \<and> (\<forall>e \<in> set es. length (name_buf e) < 2 ^ 16)
     \<and> sum_list (map entry_size es) < 2 ^ 32 \<and> sum_list (map (\<lambda>e. 46 + length (name_buf e)) es) < 2 ^ 32"

lemma fits_from_iff: "off + sum_list (map entry_size es) < 2 ^ 32 \<Longrightarrow> fits_from off es \<longleftrightarrow> (\<forall>e \<in> set es. length (name_buf e) < 2 ^ 16)"
  by (induction es arbitrary: off) (auto simp: entry_fits_def entry_size_def add.assoc)

lemma buildZip_eq:
  "buildZip es = (if zip_fits es
     then Inr (local_part es @ central_part 0 es @ end_bytes (length es) (length (central_part 0 es)) (length (local_part es)))
     else Inl (Thrown ''ERR_OUT_OF_RANGE''))"
proof (cases "sum_list (map entry_size es) < 2 ^ 32")
  case True
  then show ?thesis
    using fits_from_iff[of 0 es]
    by (auto simp: buildZip_def zip_loop_eq zip_fits_def end_header_def write_fields_eq end_bytes_def length_local_part length_central_part)
next
  case False
  then show ?thesis by (auto simp: buildZip_def zip_loop_eq zip_fits_def end_header_def write_fields_eq)
qed

section \<open>Reading it back\<close>

lemma field_le: "n < 256 ^ k \<Longrightarrow> take k (drop off z) = le_bytes k n \<Longrightarrow> field z off k = n"
  by (simp add: field_def le_value_bytes)

lemma read_entry_part:
  assumes "entry_fits e" "off < 2 ^ 32" "z = pre @ local_bytes e @ name_buf e @ body_buf e @ post" "length pre = off"
  shows "read_entry z (central_bytes off e @ name_buf e @ rest) = Some ((ze_name e, body_buf e), rest)"
proof -
  let ?c = "central_bytes off e @ name_buf e @ rest" and ?l = "local_bytes e @ name_buf e @ body_buf e @ post"
  have n: "length (name_buf e) < 256 ^ 2" and s: "length (body_buf e) < 256 ^ 4" and o: "off < 256 ^ 4" and c: "unat (crc32 (body_buf e)) < 256 ^ 4"
    using assms(1,2) by (simp_all add: entry_fits_def)
  have central: "field ?c 0 4 = 0x02014b50" "field ?c 10 2 = 0" "field ?c 16 4 = unat (crc32 (body_buf e))" "field ?c 24 4 = length (body_buf e)"
      "field ?c 28 2 = length (name_buf e)" "field ?c 30 2 = 0" "field ?c 32 2 = 0" "field ?c 42 4 = off"
    by (rule field_le; use n s o c in \<open>simp add: central_bytes_def\<close>)+
  have loc: "field ?l 0 4 = 0x04034b50" "field ?l 26 2 = length (name_buf e)" "field ?l 28 2 = 0"
    by (rule field_le; use n in \<open>simp add: local_bytes_def\<close>)+
  have at: "drop off z = ?l" using assms(3,4) by simp
  have d: "drop (30 + length (name_buf e)) ?l = body_buf e @ post" "drop (46 + length (name_buf e)) ?c = rest"
    by (simp_all add: drop_append)
  show ?thesis
    unfolding read_entry_def Let_def central at loc by (simp add: d crc32_register utf8_decode_utf8)
qed

lemma read_entries_part:
  assumes "fits_from off es" "z = pre @ local_part es @ post" "length pre = off"
  shows "read_entries z (length es) (central_part off es @ rest) = Some (map (\<lambda>e. (ze_name e, body_buf e)) es)"
  using assms
proof (induction es arbitrary: off pre)
  case (Cons e es)
  let ?part = "local_bytes e @ name_buf e @ body_buf e"
  have z: "z = pre @ local_bytes e @ name_buf e @ body_buf e @ (local_part es @ post)" using Cons.prems by (simp add: local_part_Cons)
  have "read_entry z (central_bytes off e @ name_buf e @ (central_part (off + entry_size e) es @ rest))
      = Some ((ze_name e, body_buf e), central_part (off + entry_size e) es @ rest)"
    by (rule read_entry_part[OF _ _ z]) (use Cons.prems in simp_all)
  moreover have "read_entries z (length es) (central_part (off + entry_size e) es @ rest) = Some (map (\<lambda>e. (ze_name e, body_buf e)) es)"
    by (rule Cons.IH[where pre = "pre @ ?part"]) (use Cons.prems z in \<open>simp_all add: entry_size_def\<close>)
  ultimately show ?case by simp
qed simp

section \<open>Properties\<close>

text \<open>C27: The table-driven checksum of the code is the checksum of the standard: the shift register of IEEE 802.3, which is set to ones, is fed the
  message bit by bit, lowest bit first, and is inverted at the end.\<close>

theorem crc_table_is_register: "crc32 buf = crc_register buf"
  by (rule crc32_register)

text \<open>No change within four consecutive bytes goes unnoticed: two messages that differ only there have different checksums.\<close>

theorem crc_detects_burst:
  assumes "length d = length d'" "length d \<le> 4" "d \<noteq> d'"
  shows "crc32 (pre @ d @ post) \<noteq> crc32 (pre @ d' @ post)"
proof
  assume eq: "crc32 (pre @ d @ post) = crc32 (pre @ d' @ post)"
  let ?c = "foldl crc_byte 0xffffffff pre"
  have "foldl crc_byte (foldl crc_byte ?c d) post = foldl crc_byte (foldl crc_byte ?c d') post"
    using eq by (auto simp: crc32_def xor.commute[of _ "0xffffffff"] dest: xor_cancel)
  then have "foldl crc_byte ?c d = foldl crc_byte ?c d'"
    unfolding foldl_crc by (rule foldl_inj[rotated]) (rule crc_bit_inj)
  then have "concat (map byte_bits d) = concat (map byte_bits d')"
    unfolding foldl_crc by (rule crc_bits_inj) (use assms in simp_all)
  with assms(1,3) all_bits_inj show False by blast
qed

theorem crc_detects_burst_witness: "crc32 ([1, 2] @ [3, 4] @ [5]) \<noteq> crc32 ([1, 2] @ [3, 5] @ [5])"
  by (rule crc_detects_burst) simp_all

text \<open>C26: An archive gives back what was put into it: a reader that goes from the end record over the central directory to the entries, comparing the
  names and checksums of both headers, finds every entry in order, with its name and its bytes.\<close>

theorem zip_roundtrip: "buildZip es = Inr z \<Longrightarrow> read_zip z = Some (map (\<lambda>e. (ze_name e, data_buf (ze_data e))) es)"
proof -
  assume "buildZip es = Inr z"
  then have fits: "zip_fits es"
      and z: "z = local_part es @ central_part 0 es @ end_bytes (length es) (length (central_part 0 es)) (length (local_part es))"
    by (auto simp: buildZip_eq split: if_splits)
  let ?e = "end_bytes (length es) (length (central_part 0 es)) (length (local_part es))"
  have last: "drop (length z - 22) z = ?e" by (simp add: z)
  have "field ?e 0 4 = 0x06054b50" "field ?e 10 2 = length es" "field ?e 16 4 = length (local_part es)"
    by (rule field_le; use fits in \<open>simp add: end_bytes_def zip_fits_def length_local_part\<close>)+
  moreover have "fits_from 0 es" using fits by (simp add: fits_from_iff zip_fits_def)
  then have "read_entries z (length es) (central_part 0 es @ ?e) = Some (map (\<lambda>e. (ze_name e, body_buf e)) es)"
    by (rule read_entries_part[where pre = "[]"]) (simp_all add: z)
  moreover have "drop (length (local_part es)) z = central_part 0 es @ ?e" by (simp add: z)
  ultimately show ?thesis by (simp add: read_zip_def last Let_def)
qed

definition sample_files :: "ZipEntry list" where
  "sample_files = [\<lparr>ze_name = ''a.txt'', ze_data = Data_text ''ok''\<rparr>, \<lparr>ze_name = ''b'', ze_data = Data_buffer [1, 255]\<rparr>]"

theorem zip_roundtrip_witness: "\<exists>z. buildZip sample_files = Inr z \<and> read_zip z = Some [(''a.txt'', utf8 ''ok''), (''b'', [1, 255])]"
proof -
  have "zip_fits sample_files" by (simp add: sample_files_def zip_fits_def entry_size_def utf8_def utf8_char_def Let_def)
  then obtain z where z: "buildZip sample_files = Inr z" by (simp add: buildZip_eq)
  from zip_roundtrip[OF z] z show ?thesis by (simp add: sample_files_def)
qed

text \<open>C29: The writer knows its limits: an archive is built exactly when there are fewer than \<open>2 ^ 16\<close> entries with names of fewer
  than \<open>2 ^ 16\<close> bytes and both the entries and the central directory take less than \<open>2 ^ 32\<close> bytes; in every other case the call throws, so no
  archive with a truncated length or offset comes out. An archive has 76 bytes per entry, its name twice, its bytes once, and 22 bytes at the end.\<close>

theorem zip_built_exactly:
  "case buildZip es of
     Inl x \<Rightarrow> x = Thrown ''ERR_OUT_OF_RANGE'' \<and> \<not> zip_fits es
   | Inr z \<Rightarrow> zip_fits es \<and> length z = sum_list (map (\<lambda>e. 76 + 2 * length (utf8 (ze_name e)) + length (data_buf (ze_data e))) es) + 22"
proof -
  have "sum_list (map entry_size es) + sum_list (map (\<lambda>e. 46 + length (name_buf e)) es)
      = sum_list (map (\<lambda>e. 76 + 2 * length (name_buf e) + length (body_buf e)) es)"
    by (induction es) (simp_all add: entry_size_def)
  then show ?thesis by (simp add: buildZip_eq length_local_part length_central_part)
qed

end
