(* ===== verification/WebHeaders.thy ===== *)
theory WebHeaders
  imports Http
begin

text \<open>
  What a browser is told: the origins allowed to call the API (\<^verbatim>\<open>src/web/lib/corsPolicy.ts\<close>), the content security policy and its file
  (\<^verbatim>\<open>cspPolicyStore.ts\<close>), and the middleware that writes both on every response (\<^verbatim>\<open>src/web/middleware.ts\<close>), with the request id it
  passes on.

  The theorems: an origin is echoed exactly when the allow-list or the local default has it; every response of the API varies on the origin; a request id
  carries safe characters only; operators' hosts cannot add a directive to the policy; a saved policy is read back; and the preview of the
  effective policy shows hosts that the middleware leaves out.
\<close>

section \<open>Origins\<close>

definition origin_port :: "string \<Rightarrow> bool" where
  "origin_port r \<longleftrightarrow> (case r of [] \<Rightarrow> True | c # ds \<Rightarrow> c = CHR '':'' \<and> 1 \<le> length ds \<and> length ds \<le> 5 \<and> list_all is_digit ds)"

definition v6_char :: "char \<Rightarrow> bool" where
  "v6_char c \<longleftrightarrow> is_digit c \<or> to_lower_char c \<in> set ''abcdef'' \<or> c = CHR '':''"

definition origin_char :: "char \<Rightarrow> bool" where
  "origin_char c \<longleftrightarrow> is_lower c \<or> is_upper c \<or> is_digit c \<or> c \<in> set ''.-''"

text \<open>The part of \<^verbatim>\<open>ORIGIN_RE\<close> after the scheme. The character classes exclude what follows them, so each run of characters is maximal.\<close>

definition origin_host :: "string \<Rightarrow> bool" where
  "origin_host s \<longleftrightarrow>
     (if startsWith s ''['' then
        (let r = dropWhile v6_char (tl s) in takeWhile v6_char (tl s) \<noteq> [] \<and> startsWith r '']'' \<and> origin_port (tl r))
      else takeWhile origin_char s \<noteq> [] \<and> origin_port (dropWhile origin_char s))"

definition ORIGIN_RE :: "string \<Rightarrow> bool" where
  "ORIGIN_RE s \<longleftrightarrow> (startsWith s ''http://'' \<and> origin_host (drop 7 s)) \<or> (startsWith s ''https://'' \<and> origin_host (drop 8 s))"

definition LOOPBACK_RE :: "string \<Rightarrow> bool" where
  "LOOPBACK_RE s \<longleftrightarrow> (let t = toLowerCase s in
     (startsWith t ''http://localhost'' \<and> origin_port (drop 16 t)) \<or> (startsWith t ''http://127.0.0.1'' \<and> origin_port (drop 16 t)))"

fun origin_loop :: "string list \<Rightarrow> string list \<Rightarrow> string list" where
  "origin_loop [] out = out"
| "origin_loop (part # ps) out =
     (let s = trim part in
      if s = [] \<or> 253 < length s \<or> \<not> ORIGIN_RE s \<or> s \<in> set out then origin_loop ps out else origin_loop ps (out @ [s]))"

definition parseOriginList :: "string option \<Rightarrow> string list" where
  "parseOriginList raw = (if \<not> truthy raw then [] else origin_loop (split_on (CHR '','') (or_empty raw)) [])"

record CorsPolicy =
  co_production :: bool
  co_origins :: "string list"
  co_loopback_default :: bool

definition co_getPolicy :: "string option \<Rightarrow> string option \<Rightarrow> CorsPolicy" where
  "co_getPolicy admin_key cors_origins =
     (let production = truthy admin_key; origins = parseOriginList cors_origins in
      \<lparr>co_production = production, co_origins = origins, co_loopback_default = \<not> production \<and> origins = []\<rparr>)"

datatype CorsReason = Loopback_default | Allowlist | Denied | No_origin

type_synonym CorsDecision = "string option \<times> CorsReason"

definition co_decide :: "string option \<Rightarrow> CorsPolicy \<Rightarrow> CorsDecision" where
  "co_decide origin policy =
     (if \<not> truthy origin then (None, No_origin)
      else (let o' = trim (or_empty origin) in
        if o' = [] then (None, No_origin)
        else if 253 < length o' then (None, Denied)
        else if \<not> ORIGIN_RE o' then (None, Denied)
        else if o' \<in> set (co_origins policy) then (Some o', Allowlist)
        else if co_loopback_default policy \<and> LOOPBACK_RE o' then (Some o', Loopback_default)
        else (None, Denied)))"

definition ALLOW_HEADERS :: string where
  "ALLOW_HEADERS = ''Authorization, Content-Type, X-Request-Id, X-Correlation-Id, X-MFA-Code, X-MFA-Recovery-Code, Idempotency-Key''"

definition ALLOW_METHODS :: string where "ALLOW_METHODS = ''GET, POST, PUT, DELETE, OPTIONS''"

definition EXPOSE_HEADERS :: string where
  "EXPOSE_HEADERS = ''X-Request-Id, X-RateLimit-Limit, X-RateLimit-Remaining, X-RateLimit-Reset, Retry-After''"

definition MAX_AGE :: string where "MAX_AGE = ''600''"

type_synonym header_list = "(string \<times> string) list"

definition get_header :: "string \<Rightarrow> header_list \<Rightarrow> string option" where
  "get_header n hs = map_of hs (toLowerCase n)"

text \<open>The set of the entries of a \<^verbatim>\<open>Vary\<close> header, in order, and its extension by further ones.\<close>

definition vary_parts :: "string option \<Rightarrow> string list" where
  "vary_parts v = dedup (filter (\<lambda>s. s \<noteq> []) (map trim (split_on (CHR '','') (or_empty v))))"

definition add_vary :: "string list \<Rightarrow> header_list \<Rightarrow> header_list" where
  "add_vary names hs = set_header (''Vary'', join '', '' (dedup (vary_parts (get_header ''Vary'' hs) @ names))) hs"

definition applyCors :: "CorsDecision \<Rightarrow> bool \<Rightarrow> header_list \<Rightarrow> header_list" where
  "applyCors decision isPreflight hs =
     (let hs = add_vary (''Origin'' # (if isPreflight then [''Access-Control-Request-Method'', ''Access-Control-Request-Headers''] else [])) hs in
      if truthy (fst decision)
      then set_headers
        ([(''Access-Control-Allow-Origin'', or_empty (fst decision)), (''Access-Control-Allow-Credentials'', ''true''),
          (''Access-Control-Expose-Headers'', EXPOSE_HEADERS)]
         @ (if isPreflight
            then [(''Access-Control-Allow-Methods'', ALLOW_METHODS), (''Access-Control-Allow-Headers'', ALLOW_HEADERS),
                  (''Access-Control-Max-Age'', MAX_AGE)]
            else [])) hs
      else hs)"

section \<open>Sources of the content security policy\<close>

text \<open>\<^verbatim>\<open>SRC_RE\<close> has the flag \<open>i\<close>: a string matches when its lower-case form does. Again every run of characters is maximal.\<close>

definition host_char :: "char \<Rightarrow> bool" where
  "host_char c \<longleftrightarrow> is_lower c \<or> is_digit c \<or> c \<in> set ''.-''"

definition path_char :: "char \<Rightarrow> bool" where
  "path_char c \<longleftrightarrow> is_lower c \<or> is_digit c \<or> c \<in> set ''._~/-''"

definition base64_char :: "char \<Rightarrow> bool" where
  "base64_char c \<longleftrightarrow> is_lower c \<or> is_digit c \<or> c \<in> set ''+/=''"

text \<open>A host with an optional wildcard and port; what follows it.\<close>

definition src_host :: "string \<Rightarrow> string option" where
  "src_host s =
     (let t = (if startsWith s ''*.'' then drop 2 s else s); r = dropWhile host_char t in
      if takeWhile host_char t = [] then None
      else if startsWith r '':'' \<and> takeWhile is_digit (tl r) \<noteq> [] then Some (dropWhile is_digit (tl r)) else Some r)"

definition src_keyword :: "string \<Rightarrow> bool" where
  "src_keyword v \<longleftrightarrow>
     (let k = butlast (tl v) in 2 \<le> length v \<and> hd v = CHR 0x27 \<and> last v = CHR 0x27 \<and>
      (k \<in> set [''self'', ''none'', ''unsafe-inline'', ''unsafe-eval'', ''strict-dynamic'']
       \<or> (\<exists>p \<in> set [''sha256-'', ''sha384-'', ''sha512-'']. startsWith k p \<and> drop 7 k \<noteq> [] \<and> list_all base64_char (drop 7 k))))"

definition src_scheme :: "string \<Rightarrow> bool" where
  "src_scheme v \<longleftrightarrow>
     (\<exists>p \<in> set [''data:'', ''http:'', ''https:'', ''ws:'', ''wss:'']. startsWith v p \<and>
       (let r = drop (length p) v in
        r = [] \<or> (startsWith r ''//'' \<and>
          (case src_host (drop 2 r) of None \<Rightarrow> False | Some q \<Rightarrow> q = [] \<or> (startsWith q ''/'' \<and> list_all path_char (tl q))))))"

definition SRC_RE :: "string \<Rightarrow> bool" where
  "SRC_RE s \<longleftrightarrow> (let v = toLowerCase s in src_keyword v \<or> src_scheme v \<or> src_host v = Some [])"

text \<open>\<^verbatim>\<open>s.split(/[\s,]+/)\<close> without its empty pieces.\<close>

fun split_tokens :: "string \<Rightarrow> string \<Rightarrow> string list" where
  "split_tokens acc [] = (if acc = [] then [] else [acc])"
| "split_tokens acc (c # s) =
     (if js_ws c \<or> c = CHR '','' then (if acc = [] then split_tokens [] s else acc # split_tokens [] s) else split_tokens (acc @ [c]) s)"

datatype CspMode = Csp_off | Csp_report | Csp_enforce

record CspPolicy =
  cp_mode :: CspMode
  cp_extra_hosts :: "string list"
  cp_reporting_enabled :: bool
  cp_updated_at :: "string option"
  cp_updated_by :: "string option"

definition MAX_HOSTS :: nat where "MAX_HOSTS = 32"
definition MAX_HOST_LEN :: nat where "MAX_HOST_LEN = 200"

datatype CspErrorCode = Csp_bad_mode | Csp_bad_type | Csp_bad_host | Csp_too_many

type_synonym csp_error = "CspErrorCode \<times> string"

fun hosts_loop :: "json list \<Rightarrow> string list \<Rightarrow> string list \<Rightarrow> csp_error + string list" where
  "hosts_loop [] seen out = Inr out"
| "hosts_loop (raw # rest) seen out =
     (case raw of
        JStr s \<Rightarrow>
          (let v = trim s in
           if v = [] then hosts_loop rest seen out
           else if MAX_HOST_LEN < length v then Inl (Csp_bad_host, ''host too long: '' @ take 40 v @ ''...'')
           else if \<not> SRC_RE v then Inl (Csp_bad_host, ''invalid CSP source: '' @ v)
           else if toLowerCase v \<in> set seen then hosts_loop rest seen out
           else if MAX_HOSTS < length (out @ [v]) then Inl (Csp_too_many, ''too many hosts (max '' @ int_str (int MAX_HOSTS) @ '')'')
           else hosts_loop rest (toLowerCase v # seen) (out @ [v]))
      | _ \<Rightarrow> Inl (Csp_bad_type, ''each host must be a string''))"

definition canonicalizeHosts :: "json \<Rightarrow> csp_error + string list" where
  "canonicalizeHosts input =
     (case input of JArr xs \<Rightarrow> hosts_loop xs [] [] | _ \<Rightarrow> Inl (Csp_bad_type, ''extra_hosts must be an array of strings''))"

record csp_env =
  ce_mode :: "string option"
  ce_hosts :: "string option"
  ce_report_disabled :: "string option"

definition defaultEnvMode :: "csp_env \<Rightarrow> CspMode" where
  "defaultEnvMode E =
     (let raw = toLowerCase (or_empty (ce_mode E)) in
      if raw = ''enforce'' then Csp_enforce else if raw = ''report'' \<or> raw = ''report-only'' then Csp_report else Csp_off)"

definition defaultEnvHosts :: "csp_env \<Rightarrow> csp_error + string list" where
  "defaultEnvHosts E =
     (let raw = or_empty (ce_hosts E) in
      if trim raw = [] then Inr [] else canonicalizeHosts (JArr (map JStr (split_tokens [] raw))))"

definition csp_defaultPolicy :: "csp_env \<Rightarrow> csp_error + CspPolicy" where
  "csp_defaultPolicy E = map_sum id (\<lambda>hosts.
     \<lparr>cp_mode = defaultEnvMode E, cp_extra_hosts = hosts, cp_reporting_enabled = True, cp_updated_at = None, cp_updated_by = None\<rparr>) (defaultEnvHosts E)"

fun csp_mode_str :: "CspMode \<Rightarrow> string" where
  "csp_mode_str Csp_off = ''off''"
| "csp_mode_str Csp_report = ''report''"
| "csp_mode_str Csp_enforce = ''enforce''"

definition dec_csp :: "json \<Rightarrow> CspPolicy" where
  "dec_csp j =
     \<lparr>cp_mode = (if jfield j ''mode'' = Some (JStr ''enforce'') then Csp_enforce else if jfield j ''mode'' = Some (JStr ''report'') then Csp_report else Csp_off),
      cp_extra_hosts = (case as_array (jfield j ''extra_hosts'') of
         None \<Rightarrow> [] | Some xs \<Rightarrow> (case canonicalizeHosts (JArr xs) of Inl e \<Rightarrow> [] | Inr hs \<Rightarrow> hs)),
      cp_reporting_enabled = (jfield j ''reporting_enabled'' \<noteq> Some (JBool False)),
      cp_updated_at = str_or_null (jfield j ''updated_at''), cp_updated_by = str_or_null (jfield j ''updated_by'')\<rparr>"

definition enc_csp :: "CspPolicy \<Rightarrow> json" where
  "enc_csp p = JObj
     [(''mode'', JStr (csp_mode_str (cp_mode p))), (''extra_hosts'', JArr (map JStr (cp_extra_hosts p))),
      (''reporting_enabled'', JBool (cp_reporting_enabled p)), (''updated_at'', jnullable (cp_updated_at p)),
      (''updated_by'', jnullable (cp_updated_by p))]"

text \<open>An unreadable file, or defaults that do not pass the validation, throw.\<close>

definition getCspPolicy :: "csp_env \<Rightarrow> json_file \<Rightarrow> CspPolicy res" where
  "getCspPolicy E f =
     (let dflt = (case csp_defaultPolicy E of Inl (c, msg) \<Rightarrow> Inl (Thrown msg) | Inr p \<Rightarrow> Inr p) in
      case f of
        Absent \<Rightarrow> dflt
      | Unreadable \<Rightarrow> Inl IoFault
      | Holds j \<Rightarrow> if falsy j \<or> \<not> is_object j then dflt else Inr (dec_csp j))"

record UpdateCspInput =
  ui_mode :: string
  ui_extra_hosts :: json
  ui_reporting_enabled :: bool
  ui_actor :: "string option"

definition csp_mode_of :: "string \<Rightarrow> CspMode option" where
  "csp_mode_of s = (if s = ''off'' then Some Csp_off else if s = ''report'' then Some Csp_report else if s = ''enforce'' then Some Csp_enforce else None)"

definition updateCspPolicy ::
  "csp_env \<Rightarrow> int \<Rightarrow> UpdateCspInput \<Rightarrow> json_file \<Rightarrow> (csp_error + CspPolicy \<times> CspPolicy) res \<times> json_file" where
  "updateCspPolicy E now input f =
     (case csp_mode_of (ui_mode input) of
        None \<Rightarrow> (Inr (Inl (Csp_bad_mode, ''mode must be off|report|enforce'')), f)
      | Some mode \<Rightarrow>
          (case canonicalizeHosts (ui_extra_hosts input) of
             Inl e \<Rightarrow> (Inr (Inl e), f)
           | Inr canon \<Rightarrow>
               (case getCspPolicy E f of
                  Inl e \<Rightarrow> (Inl e, f)
                | Inr before \<Rightarrow>
                    (let next = \<lparr>cp_mode = mode, cp_extra_hosts = canon, cp_reporting_enabled = ui_reporting_enabled input,
                                 cp_updated_at = Some (toISOString now), cp_updated_by = ui_actor input\<rparr>
                     in (Inr (Inr (next, before)), Holds (enc_csp next))))))"

text \<open>A keyword in its single quotes.\<close>

definition quoted :: "string \<Rightarrow> string" where
  "quoted s = CHR 0x27 # s @ [CHR 0x27]"

definition csp_directives :: "string \<Rightarrow> bool \<Rightarrow> string list" where
  "csp_directives extras report =
     (let jn = (\<lambda>b. if extras \<noteq> [] then b @ '' '' @ extras else b) in
      [''default-src '' @ quoted ''self'', jn (''script-src '' @ quoted ''self''), ''style-src '' @ quoted ''self'' @ '' '' @ quoted ''unsafe-inline'',
       jn (''img-src '' @ quoted ''self'' @ '' data: blob:''), jn (''connect-src '' @ quoted ''self''), ''font-src '' @ quoted ''self'' @ '' data:'',
       ''frame-ancestors '' @ quoted ''none'', ''base-uri '' @ quoted ''self'', ''form-action '' @ quoted ''self'', ''object-src '' @ quoted ''none'',
       ''worker-src '' @ quoted ''self'' @ '' blob:'']
      @ (if report then [''report-uri /api/csp-report''] else []))"

definition buildCspHeader :: "CspPolicy \<Rightarrow> string" where
  "buildCspHeader policy = join ''; '' (csp_directives (join '' '' (cp_extra_hosts policy)) (cp_reporting_enabled policy))"

definition cspHeaderName :: "CspPolicy \<Rightarrow> string option" where
  "cspHeaderName policy =
     (case cp_mode policy of
        Csp_off \<Rightarrow> None
      | Csp_enforce \<Rightarrow> Some ''Content-Security-Policy''
      | Csp_report \<Rightarrow> Some ''Content-Security-Policy-Report-Only'')"

text \<open>The preview of the admin route (\<^verbatim>\<open>src/web/app/api/admin/csp/route.ts\<close>): name and value of the header in effect.\<close>

definition env_policy :: "csp_env \<Rightarrow> CspPolicy" where
  "env_policy E =
     \<lparr>cp_mode = defaultEnvMode E, cp_extra_hosts = split_tokens [] (or_empty (ce_hosts E)), cp_reporting_enabled = ce_report_disabled E \<noteq> Some ''1'',
      cp_updated_at = None, cp_updated_by = None\<rparr>"

definition effectiveFromEnv :: "csp_env \<Rightarrow> (string \<times> string) option" where
  "effectiveFromEnv E = map_option (\<lambda>n. (n, buildCspHeader (env_policy E))) (cspHeaderName (env_policy E))"

section \<open>The middleware\<close>

definition id_char :: "char \<Rightarrow> bool" where
  "id_char c \<longleftrightarrow> is_lower c \<or> is_upper c \<or> is_digit c \<or> c \<in> set ''._:-''"

fun hex_run :: "nat \<Rightarrow> string \<Rightarrow> bool" where
  "hex_run n s = (length s = n \<and> list_all (\<lambda>c. is_digit c \<or> c \<in> set ''abcdef'') s)"

definition UUID_V4 :: "string \<Rightarrow> bool" where
  "UUID_V4 s \<longleftrightarrow>
     (case split_on (CHR ''-'') (toLowerCase s) of
        [a, b, c, d, e] \<Rightarrow> hex_run 8 a \<and> hex_run 4 b \<and> startsWith c ''4'' \<and> hex_run 3 (tl c) \<and> d \<noteq> [] \<and> hd d \<in> set ''89ab'' \<and> hex_run 3 (tl d)
          \<and> hex_run 12 e
      | _ \<Rightarrow> False)"

definition safeIncomingId :: "string option \<Rightarrow> string option" where
  "safeIncomingId v =
     (if \<not> truthy v then None
      else (let s = trim (or_empty v) in
        if s = [] \<or> 128 < length s then None
        else if UUID_V4 s then Some s
        else if list_all id_char s then Some s
        else None))"

text \<open>The environment variables, \<^verbatim>\<open>Number\<close> on strings, the drawn id, and the headers \<^verbatim>\<open>NextResponse.next\<close> starts with.\<close>

record mw_env =
  me_admin_key :: "string option"
  me_cors_origins :: "string option"
  me_security :: "string option"
  me_hsts :: "string option"
  me_csp :: csp_env
  me_num :: "string \<Rightarrow> jsnum"
  me_uuid :: string
  me_next :: header_list

record mw_request =
  mq_headers :: headers
  mq_method :: string
  mq_path :: string

text \<open>A preflight is answered with 204; every other request goes on, with the forwarded request headers and the response headers.\<close>

datatype mw_result = Preflight (mw_headers: header_list) | Next (mw_forwarded: headers) (mw_headers: header_list)

definition request_id :: "mw_env \<Rightarrow> mw_request \<Rightarrow> string" where
  "request_id E q =
     (case safeIncomingId (mq_headers q ''x-request-id'') of
        Some s \<Rightarrow> s
      | None \<Rightarrow> (case safeIncomingId (mq_headers q ''x-correlation-id'') of Some s \<Rightarrow> s | None \<Rightarrow> me_uuid E))"

definition is_api :: "mw_request \<Rightarrow> bool" where
  "is_api q \<longleftrightarrow> startsWith (mq_path q) ''/api/''"

definition cors_decision :: "mw_env \<Rightarrow> mw_request \<Rightarrow> CorsDecision option" where
  "cors_decision E q =
     (if is_api q \<and> truthy (mq_headers q ''origin'')
      then Some (co_decide (mq_headers q ''origin'') (co_getPolicy (me_admin_key E) (me_cors_origins E))) else None)"

text \<open>The content security policy of the middleware: hosts that do not match are left out. A token of the split has no white space to trim.\<close>

definition mw_csp :: "csp_env \<Rightarrow> (string \<times> string) option" where
  "mw_csp E =
     (if defaultEnvMode E = Csp_off then None
      else (let extras = join '' '' (filter SRC_RE (split_tokens [] (or_empty (ce_hosts E)))) in
        Some (if defaultEnvMode E = Csp_enforce then ''Content-Security-Policy'' else ''Content-Security-Policy-Report-Only'',
              join ''; '' (csp_directives extras (ce_report_disabled E \<noteq> Some ''1'')))))"

definition security_headers :: "mw_env \<Rightarrow> header_list \<Rightarrow> header_list" where
  "security_headers E hs =
     (if me_security E = Some ''0'' then hs
      else (let age = (case me_hsts E of None \<Rightarrow> ''31536000'' | Some a \<Rightarrow> a) in
        set_headers
          ((if num_lt (jsint 0) (me_num E age) then [(''Strict-Transport-Security'', ''max-age='' @ age @ ''; includeSubDomains'')] else [])
           @ [(''X-Content-Type-Options'', ''nosniff''), (''X-Frame-Options'', ''DENY''), (''Referrer-Policy'', ''no-referrer''),
              (''Permissions-Policy'', ''accelerometer=(), camera=(), geolocation=(), gyroscope=(), magnetometer=(), microphone=(), payment=(), usb=()''),
              (''Cross-Origin-Opener-Policy'', ''same-origin''), (''Cross-Origin-Resource-Policy'', ''same-site'')]
           @ (case mw_csp (me_csp E) of None \<Rightarrow> [] | Some nv \<Rightarrow> [nv])) hs))"

definition middleware :: "mw_env \<Rightarrow> mw_request \<Rightarrow> mw_result" where
  "middleware E q =
     (let rid = request_id E q; cors = cors_decision E q in
      if is_api q \<and> mq_method q = ''OPTIONS'' then
        (let hs = set_header (''x-request-id'', rid) [] in
         Preflight (case cors of Some d \<Rightarrow> applyCors d True hs | None \<Rightarrow> set_header (''Vary'', ''Origin'') hs))
      else
        (let hs = set_header (''x-request-id'', rid) (me_next E);
             hs = (case cors of Some d \<Rightarrow> applyCors d False hs | None \<Rightarrow> if is_api q then add_vary [''Origin''] hs else hs)
         in Next ((mq_headers q)(''x-request-id'' \<mapsto> rid)) (security_headers E hs)))"

section \<open>Headers\<close>

lemma get_header_Nil [simp]: "get_header n [] = None"
  by (simp add: get_header_def)

lemma get_set_header: "get_header n (set_header (m, v) hs) = (if toLowerCase n = toLowerCase m then Some v else get_header n hs)"
  by (simp add: get_header_def set_header_def update_conv')

lemma get_set_headers_other: "toLowerCase n \<notin> set (map (toLowerCase \<circ> fst) nvs) \<Longrightarrow> get_header n (set_headers nvs hs) = get_header n hs"
  by (induction nvs arbitrary: hs) (auto simp: set_headers_def get_set_header)

lemma lower_names [simp]:
  "toLowerCase ''Vary'' = ''vary''" "toLowerCase ''x-request-id'' = ''x-request-id''"
  "toLowerCase ''Access-Control-Allow-Origin'' = ''access-control-allow-origin''"
  "toLowerCase ''Access-Control-Allow-Credentials'' = ''access-control-allow-credentials''"
  "toLowerCase ''Access-Control-Expose-Headers'' = ''access-control-expose-headers''"
  "toLowerCase ''Access-Control-Allow-Methods'' = ''access-control-allow-methods''"
  "toLowerCase ''Access-Control-Allow-Headers'' = ''access-control-allow-headers''"
  "toLowerCase ''Access-Control-Max-Age'' = ''access-control-max-age''"
  "toLowerCase ''Strict-Transport-Security'' = ''strict-transport-security''" "toLowerCase ''X-Content-Type-Options'' = ''x-content-type-options''"
  "toLowerCase ''X-Frame-Options'' = ''x-frame-options''" "toLowerCase ''Referrer-Policy'' = ''referrer-policy''"
  "toLowerCase ''Permissions-Policy'' = ''permissions-policy''" "toLowerCase ''Cross-Origin-Opener-Policy'' = ''cross-origin-opener-policy''"
  "toLowerCase ''Cross-Origin-Resource-Policy'' = ''cross-origin-resource-policy''"
  "toLowerCase ''Content-Security-Policy'' = ''content-security-policy''"
  "toLowerCase ''Content-Security-Policy-Report-Only'' = ''content-security-policy-report-only''"
  by code_simp+

lemma mw_csp_name: "mw_csp E = Some (n, v) \<Longrightarrow> n = ''Content-Security-Policy'' \<or> n = ''Content-Security-Policy-Report-Only''"
  by (auto simp: mw_csp_def Let_def split: if_splits)

text \<open>The security headers leave the headers of this development's interest alone.\<close>

lemma security_other:
  assumes "n \<in> {''Vary'', ''x-request-id'', ''Access-Control-Allow-Origin''}"
  shows "get_header n (security_headers E hs) = get_header n hs"
proof (cases "me_security E = Some ''0''")
  case False
  have "toLowerCase n \<noteq> toLowerCase (fst nv)" if "mw_csp (me_csp E) = Some nv" for nv
    using mw_csp_name[of "me_csp E" "fst nv" "snd nv"] that assms by auto
  then show ?thesis
    unfolding security_headers_def Let_def if_not_P[OF False]
    by (intro get_set_headers_other) (use assms in \<open>cases "mw_csp (me_csp E)"; auto\<close>)
qed (simp add: security_headers_def)

section \<open>Lists in headers\<close>

lemma split_on_Cons_other: "x \<noteq> c \<Longrightarrow> split_on c (x # s) = (x # hd (split_on c s)) # tl (split_on c s)"
  by (cases "split_on c s") auto

lemma trim_space: "trim (CHR '' '' # s) = trim s"
  by (simp add: trim_def js_ws_def)

lemma split_join_space:
  assumes "ps \<noteq> []" "list_all (\<lambda>p. c \<notin> set p) ps" "c \<noteq> CHR '' ''"
  shows "map trim (split_on c (join [c, CHR '' ''] ps)) = map trim ps"
  using assms(1,2)
proof (induction "[c, CHR '' '']" ps rule: join.induct)
  case (3 x y ys)
  let ?r = "join [c, CHR '' ''] (y # ys)"
  have "split_on c (join [c, CHR '' ''] (x # y # ys)) = x # split_on c (CHR '' '' # ?r)"
    using "3.prems" split_on_append[of c x "CHR '' '' # ?r"] by simp
  moreover have "map trim (split_on c (CHR '' '' # ?r)) = map trim (split_on c ?r)"
    using assms(3) by (subst split_on_Cons_other) (cases "split_on c ?r"; auto simp: trim_space)+
  ultimately show ?case using 3 by simp
qed (simp_all add: split_on_no_sep)

definition clean_parts :: "string list \<Rightarrow> bool" where
  "clean_parts ps \<longleftrightarrow> list_all (\<lambda>p. p \<noteq> [] \<and> trim p = p \<and> CHR '','' \<notin> set p) ps"

lemma vary_parts_clean: "clean_parts (vary_parts v)"
proof -
  have "CHR '','' \<notin> set (trim p)" if "p \<in> set (split_on (CHR '','') s)" for p s using split_on_pieces[OF that] trim_set[of p] by blast
  then show ?thesis by (auto simp: clean_parts_def vary_parts_def list_all_iff)
qed

lemma vary_parts_join:
  assumes "clean_parts ps" "ps \<noteq> []"
  shows "set (vary_parts (Some (join '', '' ps))) = set ps"
proof -
  have "map trim (split_on (CHR '','') (join [CHR '','', CHR '' ''] ps)) = map trim ps"
    by (rule split_join_space) (use assms in \<open>auto simp: clean_parts_def list_all_iff\<close>)
  also have "\<dots> = ps" using assms(1) by (auto simp: clean_parts_def list_all_iff intro: map_idI)
  finally show ?thesis using assms(1) by (auto simp: vary_parts_def or_empty_def clean_parts_def list_all_iff)
qed

lemma add_vary_parts:
  assumes "clean_parts names" "names \<noteq> []"
  shows "set (vary_parts (get_header ''Vary'' (add_vary names hs))) = set (vary_parts (get_header ''Vary'' hs)) \<union> set names"
proof -
  let ?ps = "dedup (vary_parts (get_header ''Vary'' hs) @ names)"
  have ps: "set ?ps = set (vary_parts (get_header ''Vary'' hs)) \<union> set names" by simp
  have "clean_parts ?ps" using vary_parts_clean assms(1) unfolding clean_parts_def list_all_iff ps by blast
  moreover have "?ps \<noteq> []" using ps assms(2) by (metis Un_empty set_empty)
  ultimately show ?thesis using vary_parts_join[of ?ps] ps by (simp add: add_vary_def get_set_header)
qed

lemma add_vary_other: "toLowerCase n \<noteq> ''vary'' \<Longrightarrow> get_header n (add_vary names hs) = get_header n hs"
  by (simp add: add_vary_def get_set_header)

lemma applyCors_vary: "''Origin'' \<in> set (vary_parts (get_header ''Vary'' (applyCors d pre hs)))"
proof -
  let ?names = "''Origin'' # (if pre then [''Access-Control-Request-Method'', ''Access-Control-Request-Headers''] else [])"
  have "clean_parts ?names" by (cases pre) (simp_all add: clean_parts_def, code_simp+)
  then have "''Origin'' \<in> set (vary_parts (get_header ''Vary'' (add_vary ?names hs)))" by (subst add_vary_parts) simp_all
  moreover have "get_header ''Vary'' (applyCors d pre hs) = get_header ''Vary'' (add_vary ?names hs)"
    by (auto simp: applyCors_def Let_def intro!: get_set_headers_other)
  ultimately show ?thesis by simp
qed

lemma applyCors_origin:
  "get_header ''Access-Control-Allow-Origin'' (applyCors d pre hs)
     = (if truthy (fst d) then fst d else get_header ''Access-Control-Allow-Origin'' hs)"
  by (cases "fst d") (auto simp: applyCors_def Let_def set_headers_def get_set_header add_vary_other or_empty_def)

lemma applyCors_id: "get_header ''x-request-id'' (applyCors d pre hs) = get_header ''x-request-id'' hs"
  by (auto simp: applyCors_def Let_def set_headers_def get_set_header add_vary_other)

section \<open>Origins and request ids\<close>

lemma origin_loop_set:
  "set (origin_loop ps out) = set out \<union> {s \<in> trim ` set ps. s \<noteq> [] \<and> length s \<le> 253 \<and> ORIGIN_RE s}"
  by (induction ps out rule: origin_loop.induct) (auto simp: Let_def)

lemma parseOriginList_iff:
  "s \<in> set (parseOriginList raw) \<longleftrightarrow> s \<in> trim ` set (split_on (CHR '','') (or_empty raw)) \<and> s \<noteq> [] \<and> length s \<le> 253 \<and> ORIGIN_RE s"
proof (cases "truthy raw")
  case False
  then have "or_empty raw = []" by (cases raw) (auto simp: or_empty_def)
  with False show ?thesis by (auto simp: parseOriginList_def trim_def)
qed (auto simp: parseOriginList_def origin_loop_set)

lemma decide_Some_iff:
  "truthy (fst (co_decide origin p)) \<or> fst (co_decide origin p) = None"
  "fst (co_decide origin p) = Some x \<longleftrightarrow> truthy origin \<and> x = trim (or_empty origin) \<and> x \<noteq> [] \<and> length x \<le> 253 \<and> ORIGIN_RE x
     \<and> (x \<in> set (co_origins p) \<or> (co_loopback_default p \<and> LOOPBACK_RE x))"
  by (auto simp: co_decide_def Let_def)

text \<open>A character whose small form is in ASCII is in ASCII itself: it is that character or its capital.\<close>

lemma to_lower_ascii: "(of_char (to_lower_char c) :: nat) < 128 \<Longrightarrow> to_lower_char c = c \<or> is_upper c"
  by (auto simp: to_lower_char_def Let_def is_upper_def split: if_splits)

lemma to_lower_id [simp]: "id_char (to_lower_char c) \<Longrightarrow> id_char c"
proof -
  assume i: "id_char (to_lower_char c)"
  then have "(of_char (to_lower_char c) :: nat) < 128" by (auto simp: id_char_def is_lower_def is_upper_def is_digit_def)
  from to_lower_ascii[OF this] i show "id_char c" by (auto simp: id_char_def)
qed

lemma UUID_V4_chars: "UUID_V4 s \<Longrightarrow> list_all id_char s"
proof -
  assume "UUID_V4 s"
  then obtain a b c d e where sp: "split_on (CHR ''-'') (toLowerCase s) = [a, b, c, d, e]"
      and h: "hex_run 8 a" "hex_run 4 b" "startsWith c ''4''" "hex_run 3 (tl c)" "d \<noteq> []" "hd d \<in> set ''89ab''" "hex_run 3 (tl d)" "hex_run 12 e"
    by (auto simp: UUID_V4_def simp del: hex_run.simps split: list.splits)
  have "list_all id_char ''abcdef''" by code_simp
  then have "id_char x" if "is_digit x \<or> x \<in> set ''abcdef''" for x
    using that unfolding list_all_iff by (cases "is_digit x") (simp add: id_char_def, blast)
  then have hex: "list_all id_char x" if "hex_run n x" for n x
    using that by (simp add: list_all_iff)
  have "list_all id_char ''4''" by code_simp
  then have "list_all id_char c" using h(3) hex[OF h(4)] by (cases c) (simp_all add: startsWith_def)
  moreover have "list_all id_char ''89ab''" by code_simp
  then have "id_char (hd d)" using h(6) unfolding list_all_iff by blast
  then have "list_all id_char d" using h(5) hex[OF h(7)] by (cases d) simp_all
  moreover have "toLowerCase s = join ''-'' [a, b, c, d, e]" using join_split[of "CHR ''-''" "toLowerCase s"] sp by simp
  ultimately have "list_all id_char (toLowerCase s)" using hex[OF h(1)] hex[OF h(2)] hex[OF h(8)] by (simp add: id_char_def)
  then show ?thesis by (auto simp: toLowerCase_def list_all_iff)
qed

lemma safeIncomingId_SomeD:
  "safeIncomingId v = Some s \<Longrightarrow> s = trim (or_empty v) \<and> s \<noteq> [] \<and> length s \<le> 128 \<and> list_all id_char s"
  using UUID_V4_chars by (auto simp: safeIncomingId_def Let_def split: if_splits)

section \<open>Sources\<close>

definition src_char :: "char \<Rightarrow> bool" where
  "src_char c \<longleftrightarrow> is_lower c \<or> is_digit c \<or> c = CHR 0x27 \<or> c \<in> set ''+/=.-_~:*''"

lemma src_char_classes [simp]: "host_char c \<Longrightarrow> src_char c" "path_char c \<Longrightarrow> src_char c" "base64_char c \<Longrightarrow> src_char c" "is_digit c \<Longrightarrow> src_char c"
  by (auto simp: src_char_def host_char_def path_char_def base64_char_def)

lemma takeWhile_src: "(\<And>c. P c \<Longrightarrow> src_char c) \<Longrightarrow> list_all src_char (takeWhile P s)"
  by (auto simp: list_all_iff dest: set_takeWhileD)

lemma dropWhile_src: "(\<And>c. P c \<Longrightarrow> src_char c) \<Longrightarrow> list_all src_char s \<longleftrightarrow> list_all src_char (dropWhile P s)"
  using takeWhile_src[of P s] by (metis list_all_append takeWhile_dropWhile_id)

lemma src_prefix: "startsWith s p \<Longrightarrow> list_all src_char p \<Longrightarrow> list_all src_char s \<longleftrightarrow> list_all src_char (drop (length p) s)"
  by (metis append_take_drop_id list_all_append startsWith_def)

lemma src_host_chars: "src_host s = Some q \<Longrightarrow> list_all src_char s \<longleftrightarrow> list_all src_char q"
proof -
  assume q: "src_host s = Some q"
  define t where "t = (if startsWith s ''*.'' then drop 2 s else s)"
  define r where "r = dropWhile host_char t"
  have "list_all src_char s \<longleftrightarrow> list_all src_char t" using src_prefix[of s "''*.''"] by (simp add: t_def src_char_def numeral_2_eq_2)
  also have "\<dots> \<longleftrightarrow> list_all src_char r" unfolding r_def by (rule dropWhile_src) simp
  also have "\<dots> \<longleftrightarrow> list_all src_char q"
  proof (cases "startsWith r '':'' \<and> takeWhile is_digit (tl r) \<noteq> []")
    case True
    then have "q = dropWhile is_digit (tl r)" using q by (auto simp: src_host_def Let_def t_def r_def split: if_splits)
    then have "list_all src_char (tl r) \<longleftrightarrow> list_all src_char q" using dropWhile_src[of is_digit "tl r"] by simp
    then show ?thesis using True src_prefix[of r "'':''"] by (simp add: src_char_def drop_Suc)
  qed (use q in \<open>auto simp: src_host_def Let_def t_def r_def split: if_splits\<close>)
  finally show ?thesis .
qed

lemma src_keyword_chars: "src_keyword v \<Longrightarrow> list_all src_char v"
proof -
  assume v: "src_keyword v"
  let ?k = "butlast (tl v)"
  have "2 \<le> length v" using v by (simp only: src_keyword_def Let_def)
  then have vd: "v = hd v # ?k @ [last v]" by (cases v rule: list.exhaust; cases "tl v" rule: rev_cases) auto
  have q: "hd v = CHR 0x27" "last v = CHR 0x27" using v by (simp_all add: src_keyword_def Let_def)
  have k: "list_all src_char ?k"
  proof (cases "?k \<in> set [''self'', ''none'', ''unsafe-inline'', ''unsafe-eval'', ''strict-dynamic'']")
    case True
    moreover have "list_all (list_all src_char) [''self'', ''none'', ''unsafe-inline'', ''unsafe-eval'', ''strict-dynamic'']" by code_simp
    ultimately show ?thesis by (auto simp only: list_all_iff)
  next
    case False
    then obtain p where p: "p \<in> set [''sha256-'', ''sha384-'', ''sha512-'']" "startsWith ?k p" "list_all base64_char (drop 7 ?k)"
      using v unfolding src_keyword_def Let_def by blast
    have "list_all (\<lambda>p. list_all src_char p \<and> length p = 7) [''sha256-'', ''sha384-'', ''sha512-'']" by code_simp
    then have "list_all src_char p" "length p = 7" using p(1) by (auto simp only: list_all_iff)
    moreover have "list_all src_char (drop 7 ?k)" using p(3) by (auto simp: list_all_iff)
    ultimately show ?thesis using src_prefix[OF p(2)] by simp
  qed
  show ?thesis by (subst vd) (simp add: q k src_char_def)
qed

lemma src_scheme_chars: "src_scheme v \<Longrightarrow> list_all src_char v"
proof -
  assume "src_scheme v"
  then obtain p where p: "p \<in> set [''data:'', ''http:'', ''https:'', ''ws:'', ''wss:'']" "startsWith v p"
      and r: "drop (length p) v = [] \<or> (startsWith (drop (length p) v) ''//'' \<and>
        (case src_host (drop 2 (drop (length p) v)) of None \<Rightarrow> False | Some q \<Rightarrow> q = [] \<or> (startsWith q ''/'' \<and> list_all path_char (tl q))))"
    unfolding src_scheme_def Let_def by blast
  let ?r = "drop (length p) v"
  have "list_all src_char ?r"
  proof (cases "?r = []")
    case False
    then obtain q where q: "startsWith ?r ''//''" "src_host (drop 2 ?r) = Some q" "q = [] \<or> (startsWith q ''/'' \<and> list_all path_char (tl q))"
      using r by (cases "src_host (drop 2 ?r)") auto
    have "list_all src_char q" using q(3) by (cases q) (auto simp: startsWith_def src_char_def list_all_iff path_char_def)
    then have "list_all src_char (drop 2 ?r)" using src_host_chars[OF q(2)] by simp
    then show ?thesis using src_prefix[OF q(1)] by (simp add: src_char_def numeral_2_eq_2)
  qed simp
  moreover have "list_all (list_all src_char) [''data:'', ''http:'', ''https:'', ''ws:'', ''wss:'']" by code_simp
  then have "list_all src_char p" using p(1) by (auto simp only: list_all_iff)
  ultimately show ?thesis using src_prefix[OF p(2)] by simp
qed

definition plain_char :: "char \<Rightarrow> bool" where
  "plain_char c \<longleftrightarrow> \<not> js_ws c \<and> c \<noteq> CHR '','' \<and> c \<noteq> CHR '';''"

lemma plain_char_seps [simp]: "\<not> plain_char (CHR '' '')" "\<not> plain_char (CHR '','')" "\<not> plain_char (CHR '';'')"
  by (simp_all add: plain_char_def js_ws_def)

lemma plain_char_ws: "plain_char c \<Longrightarrow> \<not> js_ws c"
  by (simp add: plain_char_def)

lemma src_char_lower: "src_char (to_lower_char c) \<Longrightarrow> plain_char c"
proof -
  assume i: "src_char (to_lower_char c)"
  then have "(of_char (to_lower_char c) :: nat) < 128" by (auto simp: src_char_def is_lower_def is_upper_def is_digit_def)
  from to_lower_ascii[OF this] i show "plain_char c"
    by (auto simp: plain_char_def src_char_def is_lower_def is_upper_def is_digit_def js_ws_def)
qed

text \<open>A source that passes carries neither white space nor a separator.\<close>

lemma SRC_RE_chars: "SRC_RE s \<Longrightarrow> s \<noteq> [] \<and> list_all plain_char s"
proof -
  assume re: "SRC_RE s"
  then have "list_all src_char (toLowerCase s)"
    using src_keyword_chars src_scheme_chars src_host_chars by (fastforce simp: SRC_RE_def Let_def)
  moreover have "s \<noteq> []" using re by (auto simp: SRC_RE_def toLowerCase_def src_keyword_def src_scheme_def src_host_def startsWith_def)
  ultimately show ?thesis by (auto simp: toLowerCase_def list_all_iff dest: src_char_lower)
qed

section \<open>Canonical hosts\<close>

definition csp_hosts_ok :: "string list \<Rightarrow> bool" where
  "csp_hosts_ok hs \<longleftrightarrow> length hs \<le> MAX_HOSTS \<and> distinct (map toLowerCase hs)
     \<and> list_all (\<lambda>v. SRC_RE v \<and> trim v = v \<and> v \<noteq> [] \<and> length v \<le> MAX_HOST_LEN) hs"

lemma hosts_loop_ok:
  "\<lbrakk>hosts_loop xs seen out = Inr hs; csp_hosts_ok out; set seen = toLowerCase ` set out\<rbrakk> \<Longrightarrow> csp_hosts_ok hs"
proof (induction xs seen out rule: hosts_loop.induct)
  case (2 raw rest seen out)
  then show ?case by (auto simp: Let_def csp_hosts_ok_def MAX_HOSTS_def split: json.splits if_splits)
qed simp

lemma canonicalizeHosts_ok: "canonicalizeHosts j = Inr hs \<Longrightarrow> csp_hosts_ok hs"
  by (cases j) (auto simp: canonicalizeHosts_def csp_hosts_ok_def[of "[]"] MAX_HOSTS_def intro: hosts_loop_ok)

lemma hosts_loop_id:
  "\<lbrakk>csp_hosts_ok (out @ hs); set seen = toLowerCase ` set out\<rbrakk> \<Longrightarrow> hosts_loop (map JStr hs) seen out = Inr (out @ hs)"
proof (induction hs arbitrary: seen out)
  case (Cons h hs)
  have "hosts_loop (map JStr hs) (toLowerCase h # seen) (out @ [h]) = Inr ((out @ [h]) @ hs)"
    by (rule Cons.IH) (use Cons.prems in auto)
  with Cons.prems show ?case by (auto simp: csp_hosts_ok_def Let_def)
qed simp

lemma canonicalizeHosts_id: "csp_hosts_ok hs \<Longrightarrow> canonicalizeHosts (JArr (map JStr hs)) = Inr hs"
  using hosts_loop_id[of "[]" hs "[]"] by (simp add: canonicalizeHosts_def)

interpretation csp_codec: json_codec dec_csp enc_csp
    "\<lparr>cp_mode = Csp_off, cp_extra_hosts = [], cp_reporting_enabled = True, cp_updated_at = None, cp_updated_by = None\<rparr>"
    "\<lambda>p. csp_hosts_ok (cp_extra_hosts p)"
proof
  fix p :: CspPolicy assume "csp_hosts_ok (cp_extra_hosts p)"
  then show "dec_csp (enc_csp p) = p" by (cases "cp_mode p") (simp_all add: dec_csp_def enc_csp_def canonicalizeHosts_id)
qed (simp add: csp_hosts_ok_def)

section \<open>Directives\<close>

text \<open>The directives of a policy, each a name and its sources.\<close>

definition csp_table :: "string list \<Rightarrow> bool \<Rightarrow> (string \<times> string list) list" where
  "csp_table hosts report =
     [(''default-src'', [quoted ''self'']), (''script-src'', quoted ''self'' # hosts), (''style-src'', [quoted ''self'', quoted ''unsafe-inline'']),
      (''img-src'', [quoted ''self'', ''data:'', ''blob:''] @ hosts), (''connect-src'', quoted ''self'' # hosts),
      (''font-src'', [quoted ''self'', ''data:'']), (''frame-ancestors'', [quoted ''none'']), (''base-uri'', [quoted ''self'']),
      (''form-action'', [quoted ''self'']), (''object-src'', [quoted ''none'']), (''worker-src'', [quoted ''self'', ''blob:''])]
     @ (if report then [(''report-uri'', [''/api/csp-report''])] else [])"

text \<open>What a browser makes of the header: directives between semicolons, sources between spaces.\<close>

definition csp_parse :: "string \<Rightarrow> (string \<times> string list) list" where
  "csp_parse h = map (\<lambda>d. let ts = split_on (CHR '' '') (trim d) in (hd ts, tl ts)) (split_on (CHR '';'') h)"

definition plain_word :: "string \<Rightarrow> bool" where
  "plain_word w \<longleftrightarrow> w \<noteq> [] \<and> list_all plain_char w"

lemma csp_directives_table:
  "list_all plain_word hosts \<Longrightarrow> csp_directives (join '' '' hosts) report = map (\<lambda>(n, ss). join '' '' (n # ss)) (csp_table hosts report)"
proof -
  assume "list_all plain_word hosts"
  then have "join '' '' hosts = [] \<longleftrightarrow> hosts = []" by (cases hosts) (auto simp: join_Cons plain_word_def)
  then show ?thesis by (simp add: csp_directives_def csp_table_def quoted_def join_Cons)
qed

lemma plain_table:
  assumes "list_all plain_word hosts"
  shows "list_all (\<lambda>(n, ss). list_all plain_word (n # ss)) (csp_table hosts report)"
proof -
  have "list_all (\<lambda>(n, ss). list_all plain_word (n # ss)) (csp_table [] report)" by (cases report; simp; code_simp)
  with assms show ?thesis by (simp add: csp_table_def)
qed

lemma plain_word_not_in: "plain_word w \<Longrightarrow> \<not> plain_char c \<Longrightarrow> c \<notin> set w"
  unfolding plain_word_def list_all_iff by blast

lemma plain_word_ends: "plain_word w \<Longrightarrow> \<not> js_ws (hd w) \<and> \<not> js_ws (last w)"
  using hd_in_set[of w] last_in_set[of w] plain_char_ws by (auto simp: plain_word_def list_all_iff)

lemma last_join: "ws \<noteq> [] \<Longrightarrow> last ws \<noteq> [] \<Longrightarrow> join sep ws \<noteq> [] \<and> last (join sep ws) = last (last ws)"
  by (induction sep ws rule: join.induct) (auto simp: last_append)

lemma set_join_parts: "set (join sep ws) \<subseteq> \<Union> (set (map set ws)) \<union> set sep"
  by (induction sep ws rule: join.induct) auto

lemma join_words:
  assumes "ws \<noteq> []" "list_all plain_word ws"
  shows "split_on (CHR '' '') (trim (join '' '' ws)) = ws" "CHR '';'' \<notin> set (join '' '' ws)"
proof -
  have w: "plain_word w" if "w \<in> set ws" for w using assms(2) that by (simp add: list_all_iff)
  have sp: "\<forall>w \<in> set ws. CHR '' '' \<notin> set w" using w plain_word_not_in plain_char_seps(1) by blast
  have h: "plain_word (hd ws)" "plain_word (last ws)" using assms(1) w by simp_all
  then have ne: "hd ws \<noteq> []" "last ws \<noteq> []" by (simp_all add: plain_word_def)
  have "hd (join '' '' ws) = hd (hd ws)" using assms(1) ne(1) by (cases ws) (simp_all add: join_Cons)
  moreover have "last (join '' '' ws) = last (last ws)" using last_join[OF assms(1) ne(2)] by simp
  ultimately have "trim (join '' '' ws) = join '' '' ws" using h[THEN plain_word_ends] by (intro trim_id) simp
  then show "split_on (CHR '' '') (trim (join '' '' ws)) = ws" using split_join[OF assms(1) sp] by simp
  have "CHR '';'' \<notin> set w" if "w \<in> set ws" for w using w[OF that] plain_word_not_in plain_char_seps(3) by blast
  then show "CHR '';'' \<notin> set (join '' '' ws)" using set_join_parts[of "'' ''" ws] by auto
qed

lemma csp_parse_table:
  assumes "list_all plain_word hosts"
  shows "csp_parse (join ''; '' (csp_directives (join '' '' hosts) report)) = csp_table hosts report"
proof -
  let ?ds = "csp_directives (join '' '' hosts) report" and ?t = "csp_table hosts report"
  have ds: "?ds = map (\<lambda>(n, ss). join '' '' (n # ss)) ?t" by (rule csp_directives_table[OF assms])
  have t: "list_all plain_word (n # ss)" if "(n, ss) \<in> set ?t" for n ss using plain_table[OF assms, of report] that unfolding list_all_iff by blast
  have "CHR '';'' \<notin> set (join '' '' (n # ss))" if "(n, ss) \<in> set ?t" for n ss by (rule join_words(2)[OF _ t[OF that]]) simp
  then have "list_all (\<lambda>p. CHR '';'' \<notin> set p) ?ds" unfolding ds list_all_iff by force
  then have tr: "map trim (split_on (CHR '';'') (join ''; '' ?ds)) = map trim ?ds"
    by (intro split_join_space) (auto simp: ds csp_table_def)
  have "csp_parse h = map (\<lambda>d. let ts = split_on (CHR '' '') d in (hd ts, tl ts)) (map trim (split_on (CHR '';'') h))" for h
    by (simp add: csp_parse_def comp_def)
  then have "csp_parse (join ''; '' ?ds) = map (\<lambda>d. let ts = split_on (CHR '' '') d in (hd ts, tl ts)) (map trim ?ds)" by (simp only: tr)
  also have "\<dots> = map (\<lambda>(n, ss). (n, ss)) ?t"
    unfolding ds map_map
  proof (rule map_cong[OF refl], safe)
    fix n ss assume "(n, ss) \<in> set ?t"
    from join_words(1)[OF _ t[OF this]] have "split_on (CHR '' '') (trim (join '' '' (n # ss))) = n # ss" by simp
    then show "((\<lambda>d. let ts = split_on (CHR '' '') d in (hd ts, tl ts)) \<circ> (trim \<circ> (\<lambda>(n, ss). join '' '' (n # ss)))) (n, ss) = (n, ss)"
      unfolding comp_apply prod.case by (simp only: Let_def list.sel)
  qed
  finally show ?thesis by simp
qed

lemma hosts_plain: "csp_hosts_ok hs \<Longrightarrow> list_all plain_word hs"
  using SRC_RE_chars by (auto simp: csp_hosts_ok_def plain_word_def list_all_iff)

section \<open>Properties\<close>

lemma middleware_headers:
  assumes "n \<in> {''Vary'', ''x-request-id'', ''Access-Control-Allow-Origin''}"
  shows "get_header n (mw_headers (middleware E q)) =
    (let hs = set_header (''x-request-id'', request_id E q) (if is_api q \<and> mq_method q = ''OPTIONS'' then [] else me_next E) in
     get_header n (case cors_decision E q of
         Some d \<Rightarrow> applyCors d (mq_method q = ''OPTIONS'') hs
       | None \<Rightarrow> if is_api q then (if mq_method q = ''OPTIONS'' then set_header (''Vary'', ''Origin'') hs else add_vary [''Origin''] hs) else hs))"
proof (cases "is_api q")
  case False
  then have "cors_decision E q = None" by (simp add: cors_decision_def)
  with False show ?thesis using security_other[OF assms] by (simp add: middleware_def Let_def)
next
  case True
  then show ?thesis
    using security_other[OF assms] by (cases "cors_decision E q"; cases "mq_method q = ''OPTIONS''") (simp_all add: middleware_def Let_def)
qed

text \<open>C23: The middleware opens the API to listed origins only. It names an origin exactly when the request goes to the API from an origin
  that is a valid one of at most 253 characters and either an entry of the comma-separated list or, with neither an admin
  key nor a valid entry, a loopback address; it then names that origin. Otherwise a preflight answer has no such header, and the response of another request
  keeps the one it came with. Every response of the API says that it varies on the origin.\<close>

theorem cors_exact:
  "let x = trim (or_empty (mq_headers q ''origin''));
       listed = (is_api q \<and> truthy (mq_headers q ''origin'') \<and> ORIGIN_RE x \<and> length x \<le> 253
         \<and> (x \<in> trim ` set (split_on (CHR '','') (or_empty (me_cors_origins E)))
            \<or> (\<not> truthy (me_admin_key E) \<and> parseOriginList (me_cors_origins E) = [] \<and> LOOPBACK_RE x)))
   in get_header ''Access-Control-Allow-Origin'' (mw_headers (middleware E q))
        = (if listed then Some x else if is_api q \<and> mq_method q = ''OPTIONS'' then None else get_header ''Access-Control-Allow-Origin'' (me_next E))
     \<and> (if is_api q then ''Origin'' \<in> set (vary_parts (get_header ''Vary'' (mw_headers (middleware E q)))) else True)"
proof -
  have ne: "\<not> ORIGIN_RE []" by code_simp
  let ?p = "co_getPolicy (me_admin_key E) (me_cors_origins E)" and ?o = "mq_headers q ''origin''" and ?x = "trim (or_empty (mq_headers q ''origin''))"
  let ?old = "if is_api q \<and> mq_method q = ''OPTIONS'' then None else get_header ''Access-Control-Allow-Origin'' (me_next E)"
  let ?ok = "ORIGIN_RE ?x \<and> length ?x \<le> 253 \<and> (?x \<in> trim ` set (split_on (CHR '','') (or_empty (me_cors_origins E)))
      \<or> (\<not> truthy (me_admin_key E) \<and> parseOriginList (me_cors_origins E) = [] \<and> LOOPBACK_RE ?x))"
  have acao: "get_header ''Access-Control-Allow-Origin'' (mw_headers (middleware E q))
      = (if is_api q \<and> truthy ?o \<and> fst (co_decide ?o ?p) \<noteq> None then fst (co_decide ?o ?p) else ?old)"
    using decide_Some_iff(1)[of ?o ?p]
    by (auto simp: middleware_headers Let_def cors_decision_def applyCors_origin get_set_header add_vary_other)
  have dec: "fst (co_decide ?o ?p) = (if ?ok then Some ?x else None)" if "truthy ?o"
  proof (cases "fst (co_decide ?o ?p)")
    case None
    have "\<not> ?ok" using decide_Some_iff(2)[of ?o ?p ?x] None that ne by (auto simp: co_getPolicy_def Let_def parseOriginList_iff)
    with None show ?thesis by simp
  next
    case (Some y)
    then have "y = ?x \<and> ?ok" using decide_Some_iff(2)[of ?o ?p y] that ne by (auto simp: co_getPolicy_def Let_def parseOriginList_iff)
    with Some show ?thesis by simp
  qed
  have "''Origin'' \<in> set (vary_parts (Some ''Origin''))" by code_simp
  moreover have "clean_parts [''Origin'']" by code_simp
  ultimately have "is_api q \<longrightarrow> ''Origin'' \<in> set (vary_parts (get_header ''Vary'' (mw_headers (middleware E q))))"
    using applyCors_vary add_vary_parts[of "[''Origin'']"]
    by (cases "cors_decision E q") (auto simp: middleware_headers Let_def get_set_header)
  then have vary: "if is_api q then ''Origin'' \<in> set (vary_parts (get_header ''Vary'' (mw_headers (middleware E q)))) else True" by simp
  have "get_header ''Access-Control-Allow-Origin'' (mw_headers (middleware E q)) = (if is_api q \<and> truthy ?o \<and> ?ok then Some ?x else ?old)"
  proof (cases "truthy ?o")
    case True
    show ?thesis unfolding acao dec[OF True] by (cases ?ok) (simp_all only: True if_True if_False simp_thms option.distinct)
  qed (simp add: acao)
  with vary show ?thesis by (simp only: Let_def simp_thms)
qed

text \<open>Every response carries a request id, and a request that goes on carries the same one. It is either the drawn one or taken from the caller, and then it has between 1
  and 128 characters, all of them letters, digits, dots, underscores, colons and hyphens: nothing that could break a log line.\<close>

theorem request_id_safe:
  "get_header ''x-request-id'' (mw_headers (middleware E q)) = Some (request_id E q)
   \<and> (case middleware E q of Preflight _ \<Rightarrow> True | Next fwd _ \<Rightarrow> fwd ''x-request-id'' = Some (request_id E q))
   \<and> (request_id E q = me_uuid E \<or> (1 \<le> length (request_id E q) \<and> length (request_id E q) \<le> 128 \<and> list_all id_char (request_id E q)))"
proof (intro conjI)
  show "get_header ''x-request-id'' (mw_headers (middleware E q)) = Some (request_id E q)"
    by (auto simp: middleware_headers Let_def applyCors_id get_set_header add_vary_other split: option.splits)
  show "case middleware E q of Preflight _ \<Rightarrow> True | Next fwd _ \<Rightarrow> fwd ''x-request-id'' = Some (request_id E q)"
    by (simp add: middleware_def Let_def)
  have "1 \<le> length s \<and> length s \<le> 128 \<and> list_all id_char s" if "safeIncomingId v = Some s" for v s
    using safeIncomingId_SomeD[OF that, THEN conjunct2] by (simp add: Suc_le_eq)
  then show "request_id E q = me_uuid E \<or> (1 \<le> length (request_id E q) \<and> length (request_id E q) \<le> 128 \<and> list_all id_char (request_id E q))"
    unfolding request_id_def by (auto split: option.splits)
qed

text \<open>C24: Hosts cannot break out of their directive. What a browser reads from the policy header that the middleware writes is exactly the table of
  directives, where scripts, images and connections have, beside their fixed sources, those entries of the environment variable
  \<^verbatim>\<open>SIGNALCLAW_CSP_EXTRA_HOSTS\<close> that match the pattern, whatever text it holds. The policy stored through the admin page does not come into it.\<close>

theorem csp_header_directives:
  "mw_csp E = Some (n, h) \<Longrightarrow>
   csp_parse h = csp_table (filter SRC_RE (split_tokens [] (or_empty (ce_hosts E)))) (ce_report_disabled E \<noteq> Some ''1'')"
proof -
  assume "mw_csp E = Some (n, h)"
  then have h: "h = join ''; '' (csp_directives (join '' '' (filter SRC_RE (split_tokens [] (or_empty (ce_hosts E))))) (ce_report_disabled E \<noteq> Some ''1''))"
    by (auto simp: mw_csp_def Let_def split: if_splits)
  have "list_all plain_word (filter SRC_RE (split_tokens [] (or_empty (ce_hosts E))))"
    using SRC_RE_chars by (auto simp: list_all_iff plain_word_def)
  then show ?thesis unfolding h by (rule csp_parse_table)
qed

text \<open>A saved policy is the policy: after an accepted update the file reads back exactly what was accepted, its hosts are at most 32 valid and
  different sources of at most 200 characters, and its header has the table of directives for them.\<close>

theorem csp_update_roundtrip:
  assumes "updateCspPolicy E now input f = (Inr (Inr (p, before)), f')"
  shows "getCspPolicy E' f' = Inr p \<and> getCspPolicy E f = Inr before \<and> csp_hosts_ok (cp_extra_hosts p)
    \<and> csp_parse (buildCspHeader p) = csp_table (cp_extra_hosts p) (cp_reporting_enabled p)"
proof -
  from assms obtain canon where c: "canonicalizeHosts (ui_extra_hosts input) = Inr canon" "cp_extra_hosts p = canon" "f' = Holds (enc_csp p)"
      "getCspPolicy E f = Inr before"
    by (auto simp: updateCspPolicy_def Let_def split: option.splits sum.splits)
  have ok: "csp_hosts_ok (cp_extra_hosts p)" using canonicalizeHosts_ok[OF c(1)] c(2) by simp
  then have "dec_csp (enc_csp p) = p" by (rule csp_codec.dec_enc)
  then have "getCspPolicy E' f' = Inr p" by (simp add: getCspPolicy_def c(3) Let_def) (simp add: enc_csp_def)
  with ok c(4) csp_parse_table[OF hosts_plain[OF ok]] show ?thesis by (simp add: buildCspHeader_def)
qed

text \<open>The preview of the admin page is the header in effect as long as every configured host matches.\<close>

lemma preview_matches:
  assumes "list_all SRC_RE (split_tokens [] (or_empty (ce_hosts E)))"
  shows "effectiveFromEnv E = mw_csp E"
proof -
  have "filter SRC_RE (split_tokens [] (or_empty (ce_hosts E))) = split_tokens [] (or_empty (ce_hosts E))"
    using assms by (simp add: list_all_iff)
  then show ?thesis
    by (cases "defaultEnvMode E") (simp_all add: effectiveFromEnv_def env_policy_def cspHeaderName_def mw_csp_def buildCspHeader_def)
qed

text \<open>The preview is wrong where a host does not match: the middleware leaves it out, the preview shows it, and its semicolon even adds a directive there.\<close>

theorem preview_shows_dropped_host:
  "let E = \<lparr>ce_mode = Some ''enforce'', ce_hosts = Some ''cdn.example.com a;b'', ce_report_disabled = None\<rparr> in
   effectiveFromEnv E \<noteq> mw_csp E
   \<and> map_option (\<lambda>(n, h). map_of (csp_parse h) ''script-src'') (mw_csp E) = Some (Some [quoted ''self'', ''cdn.example.com''])
   \<and> map_option (\<lambda>(n, h). length (csp_parse h)) (effectiveFromEnv E) = Some 15"
  by code_simp

section \<open>Witnesses\<close>

definition sample_mw :: mw_env where
  "sample_mw = \<lparr>me_admin_key = Some ''k'', me_cors_origins = Some ''https://app.example.com, x'', me_security = None, me_hsts = None,
     me_csp = \<lparr>ce_mode = Some ''enforce'', ce_hosts = Some ''cdn.example.com *;x'', ce_report_disabled = None\<rparr>, me_num = (\<lambda>_. jsint 31536000),
     me_uuid = ''u'', me_next = []\<rparr>"

definition sample_browser :: mw_request where
  "sample_browser = \<lparr>mq_headers = (\<lambda>n. if n = ''origin'' then Some ''https://app.example.com'' else None), mq_method = ''GET'', mq_path = ''/api/v1/runs''\<rparr>"

theorem csp_header_directives_witness:
  "\<exists>n h. mw_csp (me_csp sample_mw) = Some (n, h) \<and> map_of (csp_parse h) ''connect-src'' = Some [quoted ''self'', ''cdn.example.com'']"
proof -
  have "mw_csp (me_csp sample_mw) \<noteq> None" by code_simp
  then obtain n h where h: "mw_csp (me_csp sample_mw) = Some (n, h)" by fastforce
  have "map_of (csp_table (filter SRC_RE (split_tokens [] (or_empty (ce_hosts (me_csp sample_mw))))) (ce_report_disabled (me_csp sample_mw) \<noteq> Some ''1''))
      ''connect-src'' = Some [quoted ''self'', ''cdn.example.com'']" by code_simp
  with h csp_header_directives[OF h] show ?thesis by auto
qed

definition sample_csp_input :: UpdateCspInput where
  "sample_csp_input = \<lparr>ui_mode = ''report'', ui_extra_hosts = JArr [JStr ''*.example.com'', JStr ''https:''], ui_reporting_enabled = True, ui_actor = None\<rparr>"

theorem csp_update_roundtrip_witness:
  "\<exists>p before f'. updateCspPolicy (me_csp sample_mw) 0 sample_csp_input (Holds (JObj [])) = (Inr (Inr (p, before)), f')
     \<and> getCspPolicy (me_csp sample_mw) f' = Inr p \<and> cp_extra_hosts p = [''*.example.com'', ''https:'']"
proof -
  have h: "canonicalizeHosts (ui_extra_hosts sample_csp_input) = Inr [''*.example.com'', ''https:'']" by code_simp
  have "csp_mode_of (ui_mode sample_csp_input) = Some Csp_report" by code_simp
  moreover have "getCspPolicy (me_csp sample_mw) (Holds (JObj [])) = Inr (dec_csp (JObj []))" by (simp add: getCspPolicy_def Let_def)
  ultimately obtain p b f' where u: "updateCspPolicy (me_csp sample_mw) 0 sample_csp_input (Holds (JObj [])) = (Inr (Inr (p, b)), f')"
      "cp_extra_hosts p = [''*.example.com'', ''https:'']"
    using h by (simp add: updateCspPolicy_def Let_def)
  from csp_update_roundtrip[OF u(1)] u show ?thesis by blast
qed

end
