(* ===== verification/Scim.thy ===== *)
theory Scim
  imports AdminGuard JsNumber
begin

text \<open>
  Directory sync over SCIM: the users and the bearer token of the identity provider (\<^verbatim>\<open>src/web/lib/scimStore.ts\<close>), the gate of the
  provider's routes (\<^verbatim>\<open>scimGuard.ts\<close>), the routes on users (\<^verbatim>\<open>src/web/app/api/scim/v2/Users\<close>) and the admin's route that mints
  and revokes the token (\<^verbatim>\<open>src/web/app/api/admin/scim/route.ts\<close>).

  The theorems: which token is accepted, as a machine that remembers the last one minted; users change only on requests
  with that token, and every change is audited; user names stay valid and unique unless a patch changes one; and what such a patch can do.
\<close>

section \<open>Coercions\<close>

text \<open>\<^verbatim>\<open>String(x)\<close> of a JSON value; an array is joined with commas, its nulls empty. Outside the model: an object with a field
  \<^verbatim>\<open>toString\<close> of its own, which hides the inherited function, and for which \<^verbatim>\<open>String\<close> throws.\<close>

fun js_String :: "host \<Rightarrow> json \<Rightarrow> string" where
  "js_String H JNull = ''null''"
| "js_String H (JBool b) = (if b then ''true'' else ''false'')"
| "js_String H (JNum x) =
     (case x of Fin q \<Rightarrow> if \<bar>q\<bar> < 10 ^ 21 then num_text H x else host_numstr H q | NaN \<Rightarrow> ''NaN'' | PosInf \<Rightarrow> ''Infinity'' | NegInf \<Rightarrow> ''-Infinity'')"
| "js_String H (JStr s) = s"
| "js_String H (JArr xs) = join '','' (map (\<lambda>x. if x = JNull then [] else js_String H x) xs)"
| "js_String H (JObj kvs) = ''[object Object]''"

text \<open>\<^verbatim>\<open>String(x || "")\<close> and \<^verbatim>\<open>x ?? null\<close> of a field that may be missing.\<close>

definition str_or :: "host \<Rightarrow> json option \<Rightarrow> string" where
  "str_or H j = (if jtruthy j then js_String H (the j) else [])"

definition or_jnull :: "json option \<Rightarrow> json" where
  "or_jnull j = (case j of None \<Rightarrow> JNull | Some v \<Rightarrow> v)"

text \<open>\<^verbatim>\<open>Buffer.from(s, "hex")\<close>: byte by byte as long as two hexadecimal digits follow.\<close>

definition is_hexdig :: "char \<Rightarrow> bool" where
  "is_hexdig c \<longleftrightarrow> is_digit c \<or> to_lower_char c \<in> set ''abcdef''"

fun hex_buf :: "string \<Rightarrow> int list" where
  "hex_buf (a # b # s) = (if is_hexdig a \<and> is_hexdig b then (16 * char_digit a + char_digit b) # hex_buf s else [])"
| "hex_buf s = []"

section \<open>The store\<close>

text \<open>Names and the external id are whatever the provider sends.\<close>

record ScimUser =
  su_id :: string
  su_externalId :: json
  su_userName :: string
  su_givenName :: json
  su_familyName :: json
  su_active :: bool
  su_created_at :: string
  su_updated_at :: string

type_synonym users_file = "ScimUser list cast_file"

definition readUsers :: "users_file \<Rightarrow> ScimUser list res" where
  "readUsers f = (case f of NoFile \<Rightarrow> Inr [] | BadFile \<Rightarrow> Inl IoFault | Stored us \<Rightarrow> Inr us)"

definition writeUsers :: "ScimUser list \<Rightarrow> users_file \<Rightarrow> users_file" where
  "writeUsers us f = Stored us"

record TokenStore =
  tk_prefix :: "string option"
  tk_hash :: "string option"
  tk_created_at :: "string option"
  tk_last_used_at :: "string option"

type_synonym token_file = "TokenStore cast_file"

definition no_token :: TokenStore where
  "no_token = \<lparr>tk_prefix = None, tk_hash = None, tk_created_at = None, tk_last_used_at = None\<rparr>"

definition readToken :: "token_file \<Rightarrow> TokenStore res" where
  "readToken f = (case f of NoFile \<Rightarrow> Inr no_token | BadFile \<Rightarrow> Inl IoFault | Stored t \<Rightarrow> Inr t)"

definition writeToken :: "TokenStore \<Rightarrow> token_file \<Rightarrow> token_file" where
  "writeToken t f = Stored t"

definition normalizeEmail :: "string \<Rightarrow> string" where
  "normalizeEmail e = toLowerCase (trim e)"

section \<open>The token\<close>

record TokenStatus =
  tq_configured :: bool
  tq_prefix :: "string option"
  tq_created_at :: "string option"
  tq_last_used_at :: "string option"

definition getTokenStatus :: "token_file \<Rightarrow> TokenStatus res" where
  "getTokenStatus f = map_sum id (\<lambda>t.
     \<lparr>tq_configured = truthy (tk_hash t), tq_prefix = tk_prefix t, tq_created_at = tk_created_at t, tq_last_used_at = tk_last_used_at t\<rparr>) (readToken f)"

text \<open>\<open>rnd\<close> is the drawn hexadecimal text.\<close>

definition scim_plaintext :: "string \<Rightarrow> string" where
  "scim_plaintext rnd = ''scim_live_'' @ rnd"

definition rotateToken :: "host \<Rightarrow> int \<Rightarrow> string \<Rightarrow> token_file \<Rightarrow> (string \<times> TokenStatus) \<times> token_file" where
  "rotateToken H now rnd f =
     (let plaintext = scim_plaintext rnd;
          t = \<lparr>tk_prefix = Some (take 10 plaintext), tk_hash = Some (host_sha256 H plaintext), tk_created_at = Some (toISOString now), tk_last_used_at = None\<rparr>
      in ((plaintext, \<lparr>tq_configured = True, tq_prefix = tk_prefix t, tq_created_at = tk_created_at t, tq_last_used_at = None\<rparr>), writeToken t f))"

definition revokeToken :: "token_file \<Rightarrow> token_file" where
  "revokeToken f = writeToken no_token f"

text \<open>\<open>io\<close> tells whether the stamp of the use can be written; its failure is swallowed.\<close>

definition token_decide :: "host \<Rightarrow> int \<Rightarrow> string \<Rightarrow> TokenStore \<Rightarrow> bool \<times> TokenStore option" where
  "token_decide H now plaintext t =
     (if \<not> truthy (tk_hash t) then (False, None)
      else (let a = hex_buf (host_sha256 H plaintext); b = hex_buf (or_empty (tk_hash t)) in
        if length a \<noteq> length b then (False, None)
        else if a \<noteq> b then (False, None)
        else (True, Some (t\<lparr>tk_last_used_at := Some (toISOString now)\<rparr>))))"

definition token_commit :: "bool \<Rightarrow> TokenStore option \<Rightarrow> token_file \<Rightarrow> token_file" where
  "token_commit io next f = (case next of Some t \<Rightarrow> if io then writeToken t f else f | None \<Rightarrow> f)"

definition verifyToken :: "host \<Rightarrow> int \<Rightarrow> bool \<Rightarrow> string option \<Rightarrow> token_file \<Rightarrow> bool res \<times> token_file" where
  "verifyToken H now io plaintext f =
     (if \<not> truthy plaintext then (Inr False, f)
      else case readToken f of
        Inl e \<Rightarrow> (Inl e, f)
      | Inr t \<Rightarrow> (case token_decide H now (or_empty plaintext) t of (ok, next) \<Rightarrow> (Inr ok, token_commit io next f)))"

section \<open>Users\<close>

text \<open>\<^verbatim>\<open>/^Bearer\s+(.+)$/i\<close>; header values hold no line break, so the group takes the rest of the value. Where the header is only white space after the
  scheme, the last blank is the group, and trimming leaves the empty string.\<close>

definition extractBearer :: "headers \<Rightarrow> string option" where
  "extractBearer h =
     (let v = or_empty (h ''authorization''); r = drop 6 v in
      if toLowerCase (take 6 v) = ''bearer'' \<and> 2 \<le> length r \<and> js_ws (hd r) then Some (trim r) else None)"

text \<open>\<^verbatim>\<open>/^userName\s+eq\s+"([^"]+)"$/i\<close>\<close>

definition filter_name :: "string \<Rightarrow> string option" where
  "filter_name s =
     (let r = drop 8 s; r1 = dropWhile js_ws r; r2 = drop 2 r1; r3 = dropWhile js_ws r2; q = tl r3; name = takeWhile (\<lambda>c. c \<noteq> CHR 0x22) q in
      if toLowerCase (take 8 s) = ''username'' \<and> r1 \<noteq> r \<and> toLowerCase (take 2 r1) = ''eq'' \<and> r3 \<noteq> r2 \<and> startsWith r3 [CHR 0x22]
         \<and> name \<noteq> [] \<and> drop (length name) q = [CHR 0x22]
      then Some name else None)"

definition listUsers :: "string option \<Rightarrow> users_file \<Rightarrow> ScimUser list res" where
  "listUsers flt f = map_sum id (\<lambda>us.
     if \<not> truthy flt then us
     else case filter_name (or_empty flt) of
       Some n \<Rightarrow> filter (\<lambda>u. su_userName u = normalizeEmail n) us
     | None \<Rightarrow> us) (readUsers f)"

definition getUser :: "string \<Rightarrow> users_file \<Rightarrow> ScimUser option res" where
  "getUser i f = map_sum id (find (\<lambda>u. su_id u = i)) (readUsers f)"

definition findByUserName :: "string \<Rightarrow> users_file \<Rightarrow> ScimUser option res" where
  "findByUserName n f = map_sum id (find (\<lambda>u. su_userName u = normalizeEmail n)) (readUsers f)"

text \<open>\<^verbatim>\<open>/^[^\s@]+@[^\s@]+\.[^\s@]+$/\<close>: one \<open>@\<close>, and behind it a dot that is neither first nor last.\<close>

definition plain_mail :: "string \<Rightarrow> bool" where
  "plain_mail s \<longleftrightarrow> s \<noteq> [] \<and> list_all (\<lambda>c. \<not> js_ws c \<and> c \<noteq> CHR ''@'') s"

definition EMAIL_RE :: "string \<Rightarrow> bool" where
  "EMAIL_RE s \<longleftrightarrow>
     (case split_on (CHR ''@'') s of
        [l, d] \<Rightarrow> plain_mail l \<and> plain_mail d \<and> (\<exists>i \<in> set [1..<length d - 1]. d ! i = CHR ''.'')
      | _ \<Rightarrow> False)"

datatype scim_err = Bad_userName | Already_exists | Body_not_object | No_userName | Fault exn

record CreateUserInput =
  cu_userName :: json
  cu_externalId :: json
  cu_givenName :: json
  cu_familyName :: json
  cu_active :: bool

definition or_keep :: "json \<Rightarrow> json \<Rightarrow> json" where
  "or_keep x prev = (if x = JNull then prev else x)"

definition createUser :: "host \<Rightarrow> int \<Rightarrow> string \<Rightarrow> CreateUserInput \<Rightarrow> users_file \<Rightarrow> (scim_err + ScimUser) \<times> users_file" where
  "createUser H now uuid input f =
     (let userName = normalizeEmail (str_or H (Some (cu_userName input))) in
      if userName = [] \<or> \<not> EMAIL_RE userName then (Inl Bad_userName, f)
      else case readUsers f of
        Inl e \<Rightarrow> (Inl (Fault e), f)
      | Inr us \<Rightarrow>
          if \<exists>u \<in> set us. su_userName u = userName then (Inl Already_exists, f)
          else (let u = \<lparr>su_id = uuid, su_externalId = cu_externalId input, su_userName = userName, su_givenName = cu_givenName input,
                         su_familyName = cu_familyName input, su_active = cu_active input, su_created_at = toISOString now, su_updated_at = toISOString now\<rparr>
                in (Inr u, writeUsers (us @ [u]) f)))"

fun findIndex :: "('a \<Rightarrow> bool) \<Rightarrow> 'a list \<Rightarrow> nat option" where
  "findIndex P [] = None"
| "findIndex P (x # xs) = (if P x then Some 0 else map_option Suc (findIndex P xs))"

definition replaceUser :: "host \<Rightarrow> int \<Rightarrow> string \<Rightarrow> CreateUserInput \<Rightarrow> users_file \<Rightarrow> (scim_err + ScimUser option) \<times> users_file" where
  "replaceUser H now i input f =
     (case readUsers f of
        Inl e \<Rightarrow> (Inl (Fault e), f)
      | Inr us \<Rightarrow>
          (case findIndex (\<lambda>u. su_id u = i) us of
             None \<Rightarrow> (Inr None, f)
           | Some k \<Rightarrow>
               (let prev = us ! k;
                    userName = normalizeEmail (if falsy (cu_userName input) then su_userName prev else js_String H (cu_userName input)) in
                if \<not> EMAIL_RE userName then (Inl Bad_userName, f)
                else if \<exists>j \<in> set [0..<length us]. j \<noteq> k \<and> su_userName (us ! j) = userName then (Inl Already_exists, f)
                else (let u = prev\<lparr>su_userName := userName, su_externalId := or_keep (cu_externalId input) (su_externalId prev),
                                   su_givenName := or_keep (cu_givenName input) (su_givenName prev),
                                   su_familyName := or_keep (cu_familyName input) (su_familyName prev),
                                   su_active := cu_active input, su_updated_at := toISOString now\<rparr>
                      in (Inr (Some u), writeUsers (us[k := u]) f)))))"

section \<open>Patches\<close>

text \<open>\<^verbatim>\<open>if (typeof x === "string") ...\<close>, \<^verbatim>\<open>if (typeof x === "boolean") ...\<close>\<close>

definition if_str :: "json option \<Rightarrow> (string \<Rightarrow> ScimUser \<Rightarrow> ScimUser) \<Rightarrow> ScimUser \<Rightarrow> ScimUser" where
  "if_str x g u = (case x of Some (JStr s) \<Rightarrow> g s u | _ \<Rightarrow> u)"

definition if_bool :: "json option \<Rightarrow> (bool \<Rightarrow> ScimUser \<Rightarrow> ScimUser) \<Rightarrow> ScimUser \<Rightarrow> ScimUser" where
  "if_bool x g u = (case x of Some (JBool b) \<Rightarrow> g b u | _ \<Rightarrow> u)"

text \<open>A patch without a path: the fields of the value that have the right type.\<close>

definition patch_value :: "json \<Rightarrow> ScimUser \<Rightarrow> ScimUser" where
  "patch_value v u =
     (let u = if_bool (jfield v ''active'') (\<lambda>b. su_active_update (\<lambda>_. b)) u;
          u = if_str (jfield v ''userName'') (\<lambda>s. su_userName_update (\<lambda>_. normalizeEmail s)) u;
          u = if_str (jfield v ''externalId'') (\<lambda>s. su_externalId_update (\<lambda>_. JStr s)) u;
          name = or_jnull (jfield v ''name'');
          u = if_str (jfield name ''givenName'') (\<lambda>s. su_givenName_update (\<lambda>_. JStr s)) u
      in if_str (jfield name ''familyName'') (\<lambda>s. su_familyName_update (\<lambda>_. JStr s)) u)"

definition patch_text :: "host \<Rightarrow> string \<Rightarrow> json option \<Rightarrow> json" where
  "patch_text H opName v =
     (if opName = ''remove'' then JNull else JStr (case v of None \<Rightarrow> [] | Some JNull \<Rightarrow> [] | Some x \<Rightarrow> js_String H x))"

definition patch_path :: "host \<Rightarrow> string \<Rightarrow> string \<Rightarrow> json option \<Rightarrow> ScimUser \<Rightarrow> ScimUser" where
  "patch_path H opName p v u =
     (if p = ''active'' then (case v of Some (JBool b) \<Rightarrow> u\<lparr>su_active := b\<rparr> | Some (JStr s) \<Rightarrow> u\<lparr>su_active := (toLowerCase s = ''true'')\<rparr> | _ \<Rightarrow> u)
      else if p = ''username'' then
        (if opName = ''remove'' then u else (case v of Some (JStr s) \<Rightarrow> u\<lparr>su_userName := normalizeEmail s\<rparr> | _ \<Rightarrow> u))
      else if p = ''name.givenname'' then u\<lparr>su_givenName := patch_text H opName v\<rparr>
      else if p = ''name.familyname'' then u\<lparr>su_familyName := patch_text H opName v\<rparr>
      else if p = ''externalid'' then u\<lparr>su_externalId := patch_text H opName v\<rparr>
      else u)"

text \<open>One operation; reading a property of \<^verbatim>\<open>null\<close> throws.\<close>

definition patch_op :: "host \<Rightarrow> json \<Rightarrow> ScimUser \<Rightarrow> ScimUser res" where
  "patch_op H j u =
     (if j = JNull then Inl (Thrown ''TypeError'')
      else (let v = jfield j ''value'' in
        if \<not> jtruthy (jfield j ''path'') \<and> jtruthy v \<and> is_object (or_jnull v) then Inr (patch_value (or_jnull v) u)
        else Inr (patch_path H (toLowerCase (str_or H (jfield j ''op''))) (toLowerCase (str_or H (jfield j ''path''))) v u)))"

fun patch_loop :: "host \<Rightarrow> json list \<Rightarrow> ScimUser \<Rightarrow> ScimUser res" where
  "patch_loop H [] u = Inr u"
| "patch_loop H (j # js) u = (case patch_op H j u of Inl e \<Rightarrow> Inl e | Inr u' \<Rightarrow> patch_loop H js u')"

definition patchUser :: "host \<Rightarrow> int \<Rightarrow> string \<Rightarrow> json list \<Rightarrow> users_file \<Rightarrow> ScimUser option res \<times> users_file" where
  "patchUser H now i ops f =
     (case readUsers f of
        Inl e \<Rightarrow> (Inl e, f)
      | Inr us \<Rightarrow>
          (case findIndex (\<lambda>u. su_id u = i) us of
             None \<Rightarrow> (Inr None, f)
           | Some k \<Rightarrow>
               (case patch_loop H ops (us ! k) of
                  Inl e \<Rightarrow> (Inl e, f)
                | Inr u \<Rightarrow> (let u = u\<lparr>su_updated_at := toISOString now\<rparr> in (Inr (Some u), writeUsers (us[k := u]) f)))))"

definition deleteUser :: "string \<Rightarrow> users_file \<Rightarrow> bool res \<times> users_file" where
  "deleteUser i f =
     (case readUsers f of
        Inl e \<Rightarrow> (Inl e, f)
      | Inr us \<Rightarrow>
          (let us' = filter (\<lambda>u. su_id u \<noteq> i) us in
           if length us' = length us then (Inr False, f) else (Inr True, writeUsers us' f)))"

section \<open>Resources\<close>

definition json_opt :: "string \<Rightarrow> json \<Rightarrow> (string \<times> json) list" where
  "json_opt k v = (if v = JNull then [] else [(k, v)])"

definition toScimResource :: "string \<Rightarrow> ScimUser \<Rightarrow> json" where
  "toScimResource base u = JObj
     ([(''schemas'', JArr [JStr ''urn:ietf:params:scim:schemas:core:2.0:User'']), (''id'', JStr (su_id u))] @ json_opt ''externalId'' (su_externalId u)
      @ [(''userName'', JStr (su_userName u)), (''name'', JObj (json_opt ''givenName'' (su_givenName u) @ json_opt ''familyName'' (su_familyName u))),
         (''active'', JBool (su_active u)),
         (''emails'', JArr [JObj [(''value'', JStr (su_userName u)), (''primary'', JBool True), (''type'', JStr ''work'')]]),
         (''meta'', JObj [(''resourceType'', JStr ''User''), (''created'', JStr (su_created_at u)), (''lastModified'', JStr (su_updated_at u)),
           (''location'', JStr (base @ ''/scim/v2/Users/'' @ su_id u))])])"

definition scimError :: "int \<Rightarrow> string \<Rightarrow> string option \<Rightarrow> json" where
  "scimError status detail scimType = JObj
     ([(''schemas'', JArr [JStr ''urn:ietf:params:scim:api:messages:2.0:Error'']), (''status'', JStr (int_str status)), (''detail'', JStr detail)]
      @ (case scimType of None \<Rightarrow> [] | Some t \<Rightarrow> [(''scimType'', JStr t)]))"

definition body_userName :: "json \<Rightarrow> json option" where
  "body_userName body =
     (if jtruthy (jfield body ''userName'') then jfield body ''userName''
      else case as_array (jfield body ''emails'') of
        None \<Rightarrow> jfield body ''userName''
      | Some es \<Rightarrow>
          (let primary = Option.bind (find (\<lambda>e. jtruthy (jfield e ''primary'')) es) (\<lambda>e. jfield e ''value'') in
           if jtruthy primary then primary else (case es of [] \<Rightarrow> None | e # _ \<Rightarrow> jfield e ''value'')))"

definition parseScimUserBody :: "json \<Rightarrow> scim_err + CreateUserInput" where
  "parseScimUserBody body =
     (if falsy body \<or> \<not> is_object body then Inl Body_not_object
      else (let name = or_jnull (jfield body ''name''); userName = body_userName body in
        if \<not> jtruthy userName then Inl No_userName
        else Inr \<lparr>cu_userName = or_jnull userName, cu_externalId = or_jnull (jfield body ''externalId''), cu_givenName = or_jnull (jfield name ''givenName''),
                  cu_familyName = or_jnull (jfield name ''familyName''), cu_active = (jfield body ''active'' \<noteq> Some (JBool False))\<rparr>))"

section \<open>The routes of the provider\<close>

record scim_world =
  scw_users :: users_file
  scw_token :: token_file
  scw_audit :: audit_store

text \<open>The environment: \<open>sc_parse\<close> is the parser of \<^verbatim>\<open>req.json()\<close>, \<open>sc_fault\<close> the message of an exception of the file system. The clock: 0 the use of the token,
  1 the change, from 2 on the audit lines.\<close>

record scim_env =
  sc_host :: host
  sc_clock :: clock
  sc_id :: "nat \<Rightarrow> string"
  sc_fresh :: string
  sc_io :: bool
  sc_token_io :: bool
  sc_uuid :: string
  sc_parse :: "string \<Rightarrow> json option"
  sc_fault :: "exn \<Rightarrow> string"

record scim_request =
  sq_headers :: headers
  sq_method :: string
  sq_query :: "string \<Rightarrow> string option"
  sq_raw :: string
  sq_protocol :: string
  sq_host :: string

definition scim_audit ::
  "scim_env \<Rightarrow> nat \<Rightarrow> scim_request \<Rightarrow> string \<Rightarrow> string \<Rightarrow> int \<Rightarrow> string \<Rightarrow> json option \<Rightarrow> scim_world \<Rightarrow> scim_world" where
  "scim_audit E i q route meth status reason details w =
     w\<lparr>scw_audit := snd (recordAuditEvent (sc_host E) (sc_clock E i) (sc_id E i) (sc_fresh E) (sc_io E)
         \<lparr>ai_req = Some (sq_headers q), ai_route = route, ai_method = meth, ai_status = status, ai_key = None, ai_reason = Some reason,
          ai_details = details\<rparr> (scw_audit w))\<rparr>"

definition scimJson :: "int \<Rightarrow> json \<Rightarrow> NextResponse" where
  "scimJson status body = \<lparr>rsp_status = status, rsp_headers = [(''content-type'', ''application/scim+json'')], rsp_body = body\<rparr>"

definition scimBaseUrl :: "scim_request \<Rightarrow> string" where
  "scimBaseUrl q =
     (let proto = (if truthy (sq_headers q ''x-forwarded-proto'') then or_empty (sq_headers q ''x-forwarded-proto'')
                   else (case indexOf (CHR '':'') (sq_protocol q) of None \<Rightarrow> sq_protocol q | Some i \<Rightarrow> take i (sq_protocol q) @ drop (Suc i) (sq_protocol q)));
          h = (if truthy (sq_headers q ''x-forwarded-host'') then or_empty (sq_headers q ''x-forwarded-host'') else sq_host q)
      in proto @ ''://'' @ h)"

definition requireScim :: "scim_env \<Rightarrow> scim_request \<Rightarrow> string \<Rightarrow> scim_world \<Rightarrow> NextResponse option res \<times> scim_world" where
  "requireScim E q route w =
     (let tok = extractBearer (sq_headers q) in
      case verifyToken (sc_host E) (sc_clock E 0) (sc_token_io E) tok (scw_token w) of
        (Inl e, f) \<Rightarrow> (Inl e, w\<lparr>scw_token := f\<rparr>)
      | (Inr True, f) \<Rightarrow> (Inr None, w\<lparr>scw_token := f\<rparr>)
      | (Inr False, f) \<Rightarrow>
          (Inr (Some (scimJson 401 (scimError 401 ''unauthorized'' None))),
           scim_audit E 2 q route (sq_method q) 401 (if truthy tok then ''scim:bad-token'' else ''scim:no-token'') None (w\<lparr>scw_token := f\<rparr>)))"

text \<open>A handler behind the gate.\<close>

definition scim_route ::
  "scim_env \<Rightarrow> scim_request \<Rightarrow> string \<Rightarrow> (scim_world \<Rightarrow> NextResponse res \<times> scim_world) \<Rightarrow> scim_world \<Rightarrow> NextResponse res \<times> scim_world" where
  "scim_route E q route handler w =
     (case requireScim E q route w of
        (Inl e, w) \<Rightarrow> (Inl e, w)
      | (Inr (Some denied), w) \<Rightarrow> (Inr denied, w)
      | (Inr None, w) \<Rightarrow> handler w)"

fun scim_status :: "scim_err \<Rightarrow> int" where
  "scim_status Bad_userName = 400"
| "scim_status Already_exists = 409"
| "scim_status Body_not_object = 400"
| "scim_status No_userName = 400"
| "scim_status (Fault e) = 500"

fun scim_message :: "scim_env \<Rightarrow> scim_err \<Rightarrow> string" where
  "scim_message E Bad_userName = ''invalid userName (must be email)''"
| "scim_message E Already_exists = ''user already exists''"
| "scim_message E Body_not_object = ''body must be a JSON object''"
| "scim_message E No_userName = ''userName is required''"
| "scim_message E (Fault e) = sc_fault E e"

definition scim_failure :: "scim_env \<Rightarrow> scim_err \<Rightarrow> NextResponse" where
  "scim_failure E e =
     scimJson (scim_status e) (scimError (scim_status e) (scim_message E e) (if e = Already_exists then Some ''uniqueness'' else None))"

definition scim_not_found :: NextResponse where
  "scim_not_found = scimJson 404 (scimError 404 ''user not found'' None)"

definition USERS_ROUTE :: string where "USERS_ROUTE = ''/api/scim/v2/Users''"

definition routeFor :: "string \<Rightarrow> string" where
  "routeFor i = ''/api/scim/v2/Users/'' @ i"

text \<open>\<^verbatim>\<open>Number.parseInt(v || d, 10) || d\<close>, and the page that starts at a possibly infinite index.\<close>

definition scim_number :: "string option \<Rightarrow> int \<Rightarrow> jsnum" where
  "scim_number v d =
     (let x = js_parseNum (if truthy v then or_empty v else int_str d) in if x = NaN \<or> x = jsint 0 then jsint d else x)"

definition js_max :: "int \<Rightarrow> jsnum \<Rightarrow> jsnum" where
  "js_max a x = (if num_lt x (jsint a) then jsint a else x)"

definition js_min :: "int \<Rightarrow> jsnum \<Rightarrow> jsnum" where
  "js_min a x = (if num_lt (jsint a) x then jsint a else x)"

definition scim_page :: "jsnum \<Rightarrow> jsnum \<Rightarrow> 'a list \<Rightarrow> 'a list" where
  "scim_page start count xs =
     (if start = PosInf then [] else take (nat (num_floor count)) (drop (nat (num_floor start - 1)) xs))"

text \<open>\<^verbatim>\<open>JSON.stringify\<close> writes an infinite number as \<^verbatim>\<open>null\<close>.\<close>

definition json_num :: "jsnum \<Rightarrow> json" where
  "json_num x = (if isFinite x then JNum x else JNull)"

definition users_list :: "scim_env \<Rightarrow> scim_request \<Rightarrow> scim_world \<Rightarrow> NextResponse res \<times> scim_world" where
  "users_list E q w =
     (let flt = (if truthy (sq_query q ''filter'') then sq_query q ''filter'' else None);
          startIndex = js_max 1 (scim_number (sq_query q ''startIndex'') 1);
          count = js_min 200 (js_max 0 (scim_number (sq_query q ''count'') 100)) in
      case listUsers flt (scw_users w) of
        Inl e \<Rightarrow> (Inl e, w)
      | Inr us \<Rightarrow>
          (let page = scim_page startIndex count us in
           (Inr (scimJson 200 (JObj
              [(''schemas'', JArr [JStr ''urn:ietf:params:scim:api:messages:2.0:ListResponse'']), (''totalResults'', JNum (jsint (int (length us)))),
               (''startIndex'', json_num startIndex), (''itemsPerPage'', JNum (jsint (int (length page)))),
               (''Resources'', JArr (map (toScimResource (scimBaseUrl q)) page))])),
            scim_audit E 3 q USERS_ROUTE ''GET'' 200 ''scim:list''
              (Some (JObj [(''filter'', jnullable flt), (''total'', JNum (jsint (int (length us))))])) w)))"

definition users_GET :: "scim_env \<Rightarrow> scim_request \<Rightarrow> scim_world \<Rightarrow> NextResponse res \<times> scim_world" where
  "users_GET E q = scim_route E q USERS_ROUTE (users_list E q)"

definition users_create :: "scim_env \<Rightarrow> scim_request \<Rightarrow> scim_world \<Rightarrow> NextResponse res \<times> scim_world" where
  "users_create E q w =
     (case sc_parse E (sq_raw q) of
        None \<Rightarrow> (Inr (scimJson 400 (scimError 400 ''invalid JSON body'' None)), scim_audit E 3 q USERS_ROUTE ''POST'' 400 ''scim:bad-json'' None w)
      | Some body \<Rightarrow>
          (let fail = (\<lambda>e w. (Inr (scim_failure E e), scim_audit E 3 q USERS_ROUTE ''POST'' (scim_status e) ''scim:create-failed''
                 (Some (JObj [(''message'', JStr (scim_message E e))])) w)) in
           case parseScimUserBody body of
             Inl e \<Rightarrow> fail e w
           | Inr input \<Rightarrow>
               (case createUser (sc_host E) (sc_clock E 1) (sc_uuid E) input (scw_users w) of
                  (Inl e, f) \<Rightarrow> fail e (w\<lparr>scw_users := f\<rparr>)
                | (Inr u, f) \<Rightarrow>
                    (Inr (scimJson 201 (toScimResource (scimBaseUrl q) u)),
                     scim_audit E 3 q USERS_ROUTE ''POST'' 201 ''scim:create''
                       (Some (JObj [(''id'', JStr (su_id u)), (''userName'', JStr (su_userName u))])) (w\<lparr>scw_users := f\<rparr>)))))"

definition users_POST :: "scim_env \<Rightarrow> scim_request \<Rightarrow> scim_world \<Rightarrow> NextResponse res \<times> scim_world" where
  "users_POST E q = scim_route E q USERS_ROUTE (users_create E q)"

definition user_show :: "scim_env \<Rightarrow> scim_request \<Rightarrow> string \<Rightarrow> scim_world \<Rightarrow> NextResponse res \<times> scim_world" where
  "user_show E q i w =
     (case getUser i (scw_users w) of
        Inl e \<Rightarrow> (Inl e, w)
      | Inr None \<Rightarrow> (Inr scim_not_found, scim_audit E 3 q (routeFor i) ''GET'' 404 ''scim:not-found'' None w)
      | Inr (Some u) \<Rightarrow> (Inr (scimJson 200 (toScimResource (scimBaseUrl q) u)), scim_audit E 3 q (routeFor i) ''GET'' 200 ''scim:get'' None w))"

definition user_GET :: "scim_env \<Rightarrow> scim_request \<Rightarrow> string \<Rightarrow> scim_world \<Rightarrow> NextResponse res \<times> scim_world" where
  "user_GET E q i = scim_route E q (routeFor i) (user_show E q i)"

definition user_replace :: "scim_env \<Rightarrow> scim_request \<Rightarrow> string \<Rightarrow> scim_world \<Rightarrow> NextResponse res \<times> scim_world" where
  "user_replace E q i w =
     (case sc_parse E (sq_raw q) of
        None \<Rightarrow> (Inr (scimJson 400 (scimError 400 ''invalid JSON body'' None)), w)
      | Some body \<Rightarrow>
          (case parseScimUserBody body of
             Inl e \<Rightarrow> (Inr (scim_failure E e), w)
           | Inr input \<Rightarrow>
               (case replaceUser (sc_host E) (sc_clock E 1) i input (scw_users w) of
                  (Inl e, f) \<Rightarrow> (Inr (scim_failure E e), w\<lparr>scw_users := f\<rparr>)
                | (Inr None, f) \<Rightarrow> (Inr scim_not_found, scim_audit E 3 q (routeFor i) ''PUT'' 404 ''scim:not-found'' None (w\<lparr>scw_users := f\<rparr>))
                | (Inr (Some u), f) \<Rightarrow>
                    (Inr (scimJson 200 (toScimResource (scimBaseUrl q) u)),
                     scim_audit E 3 q (routeFor i) ''PUT'' 200 ''scim:replace''
                       (Some (JObj [(''id'', JStr (su_id u)), (''active'', JBool (su_active u))])) (w\<lparr>scw_users := f\<rparr>)))))"

definition user_PUT :: "scim_env \<Rightarrow> scim_request \<Rightarrow> string \<Rightarrow> scim_world \<Rightarrow> NextResponse res \<times> scim_world" where
  "user_PUT E q i = scim_route E q (routeFor i) (user_replace E q i)"

definition user_patch :: "scim_env \<Rightarrow> scim_request \<Rightarrow> string \<Rightarrow> scim_world \<Rightarrow> NextResponse res \<times> scim_world" where
  "user_patch E q i w =
     (case sc_parse E (sq_raw q) of
        None \<Rightarrow> (Inr (scimJson 400 (scimError 400 ''invalid JSON body'' None)), w)
      | Some body \<Rightarrow>
          (let ops = (case as_array (jfield body ''Operations'') of None \<Rightarrow> [] | Some xs \<Rightarrow> xs) in
           if ops = [] then (Inr (scimJson 400 (scimError 400 ''Operations array required'' None)), w)
           else case patchUser (sc_host E) (sc_clock E 1) i ops (scw_users w) of
             (Inl e, f) \<Rightarrow> (Inl e, w\<lparr>scw_users := f\<rparr>)
           | (Inr None, f) \<Rightarrow> (Inr scim_not_found, scim_audit E 3 q (routeFor i) ''PATCH'' 404 ''scim:not-found'' None (w\<lparr>scw_users := f\<rparr>))
           | (Inr (Some u), f) \<Rightarrow>
               (Inr (scimJson 200 (toScimResource (scimBaseUrl q) u)),
                scim_audit E 3 q (routeFor i) ''PATCH'' 200 ''scim:patch''
                  (Some (JObj [(''id'', JStr (su_id u)), (''active'', JBool (su_active u)), (''ops'', JNum (jsint (int (length ops))))])) (w\<lparr>scw_users := f\<rparr>))))"

definition user_PATCH :: "scim_env \<Rightarrow> scim_request \<Rightarrow> string \<Rightarrow> scim_world \<Rightarrow> NextResponse res \<times> scim_world" where
  "user_PATCH E q i = scim_route E q (routeFor i) (user_patch E q i)"

definition user_remove :: "scim_env \<Rightarrow> scim_request \<Rightarrow> string \<Rightarrow> scim_world \<Rightarrow> NextResponse res \<times> scim_world" where
  "user_remove E q i w =
     (case deleteUser i (scw_users w) of
        (Inl e, f) \<Rightarrow> (Inl e, w\<lparr>scw_users := f\<rparr>)
      | (Inr False, f) \<Rightarrow> (Inr scim_not_found, scim_audit E 3 q (routeFor i) ''DELETE'' 404 ''scim:not-found'' None (w\<lparr>scw_users := f\<rparr>))
      | (Inr True, f) \<Rightarrow>
          (Inr \<lparr>rsp_status = 204, rsp_headers = [], rsp_body = JNull\<rparr>,
           scim_audit E 3 q (routeFor i) ''DELETE'' 204 ''scim:delete'' None (w\<lparr>scw_users := f\<rparr>)))"

definition user_DELETE :: "scim_env \<Rightarrow> scim_request \<Rightarrow> string \<Rightarrow> scim_world \<Rightarrow> NextResponse res \<times> scim_world" where
  "user_DELETE E q i = scim_route E q (routeFor i) (user_remove E q i)"

section \<open>The admin's route on the token\<close>

text \<open>The gate of this route is its own: it knows no sign-on sessions.\<close>

definition SCIM_ADMIN_ROUTE :: string where "SCIM_ADMIN_ROUTE = ''/api/admin/scim''"

definition scim_admin_gate :: "admin_env \<Rightarrow> headers \<Rightarrow> string \<Rightarrow> admin_world \<Rightarrow> NextResponse option res \<times> admin_world" where
  "scim_admin_gate E h meth w =
     (case admin_auth E (Some h) h w of
        (Inl e, w) \<Rightarrow> (Inl e, w)
      | (Inr k, w) \<Rightarrow>
          if \<not> truthy (ae_admin_key E) then (Inr None, admin_audit E 6 h SCIM_ADMIN_ROUTE meth 200 k (Some ''local-mode'') w)
          else if \<not> has_admin k
          then (Inr (Some (err_response 403 ''forbidden'' ''admin scope required'')),
                admin_audit E 6 h SCIM_ADMIN_ROUTE meth 403 k (Some ''forbidden:admin-required'') w)
          else (let w = admin_audit E 6 h SCIM_ADMIN_ROUTE meth 200 k None w in
            if meth = ''GET'' then (Inr None, w) else enforceAdminMfa E h k SCIM_ADMIN_ROUTE meth w))"

definition token_json :: "TokenStatus \<Rightarrow> (string \<times> json) list" where
  "token_json s = [(''configured'', JBool (tq_configured s)), (''prefix'', jnullable (tq_prefix s)), (''created_at'', jnullable (tq_created_at s)),
     (''last_used_at'', jnullable (tq_last_used_at s))]"

definition admin_json :: "json \<Rightarrow> NextResponse" where
  "admin_json body = \<lparr>rsp_status = 200, rsp_headers = [], rsp_body = body\<rparr>"

definition scim_admin_GET :: "admin_env \<Rightarrow> headers \<Rightarrow> admin_world \<times> token_file \<Rightarrow> NextResponse res \<times> (admin_world \<times> token_file)" where
  "scim_admin_GET E h ws =
     (case scim_admin_gate E h ''GET'' (fst ws) of
        (Inl e, w) \<Rightarrow> (Inl e, (w, snd ws))
      | (Inr (Some denied), w) \<Rightarrow> (Inr denied, (w, snd ws))
      | (Inr None, w) \<Rightarrow> (map_sum id (\<lambda>s. admin_json (JObj (token_json s))) (getTokenStatus (snd ws)), (w, snd ws)))"

definition scim_admin_audit :: "admin_env \<Rightarrow> headers \<Rightarrow> string \<Rightarrow> string \<Rightarrow> json option \<Rightarrow> admin_world \<Rightarrow> admin_world" where
  "scim_admin_audit E h meth reason details w =
     w\<lparr>dw_audit := snd (recordAuditEvent (ae_host E) (ae_clock E 12) (ae_id E 12) (ae_fresh E) (ae_io E)
         \<lparr>ai_req = Some h, ai_route = SCIM_ADMIN_ROUTE, ai_method = meth, ai_status = 200, ai_key = None, ai_reason = Some reason, ai_details = details\<rparr>
         (dw_audit w))\<rparr>"

definition scim_admin_POST :: "string \<Rightarrow> admin_env \<Rightarrow> headers \<Rightarrow> admin_world \<times> token_file \<Rightarrow> NextResponse res \<times> (admin_world \<times> token_file)" where
  "scim_admin_POST rnd E h ws =
     (case scim_admin_gate E h ''POST'' (fst ws) of
        (Inl e, w) \<Rightarrow> (Inl e, (w, snd ws))
      | (Inr (Some denied), w) \<Rightarrow> (Inr denied, (w, snd ws))
      | (Inr None, w) \<Rightarrow>
          (case rotateToken (ae_host E) (ae_clock E 11) rnd (snd ws) of ((tok, s), f) \<Rightarrow>
             (Inr (admin_json (JObj ((''token'', JStr tok) # token_json s))),
              (scim_admin_audit E h ''POST'' ''scim:token-rotated'' (Some (JObj [(''prefix'', jnullable (tq_prefix s))])) w, f))))"

definition scim_admin_DELETE :: "admin_env \<Rightarrow> headers \<Rightarrow> admin_world \<times> token_file \<Rightarrow> NextResponse res \<times> (admin_world \<times> token_file)" where
  "scim_admin_DELETE E h ws =
     (case scim_admin_gate E h ''DELETE'' (fst ws) of
        (Inl e, w) \<Rightarrow> (Inl e, (w, snd ws))
      | (Inr (Some denied), w) \<Rightarrow> (Inr denied, (w, snd ws))
      | (Inr None, w) \<Rightarrow>
          (Inr (admin_json (JObj [(''ok'', JBool True)])), (scim_admin_audit E h ''DELETE'' ''scim:token-revoked'' None w, revokeToken (snd ws))))"

section \<open>The token as a machine\<close>

text \<open>What \<^verbatim>\<open>createHash("sha256")...digest("hex")\<close> yields: 64 lower-case hexadecimal digits.\<close>

definition sha_hex :: "host \<Rightarrow> bool" where
  "sha_hex H \<longleftrightarrow> (\<forall>s. length (host_sha256 H s) = 64 \<and> list_all (\<lambda>c. is_digit c \<or> c \<in> set ''abcdef'') (host_sha256 H s))"

lemma lower_hex: "is_digit c \<or> c \<in> set ''abcdef'' \<Longrightarrow> is_hexdig c \<and> 0 \<le> char_digit c \<and> char_digit c < 16 \<and> digit_char (char_digit c) = c"
proof (elim disjE)
  assume d: "is_digit c"
  then have "char_digit c = int (of_char c) - 48" by (simp add: char_digit_def Let_def)
  moreover have "48 \<le> (of_char c :: nat)" "(of_char c :: nat) \<le> 57" using d by (simp_all add: is_digit_def)
  ultimately have "0 \<le> char_digit c" "char_digit c < 10" "nat (char_digit c) + 48 = of_char c" by simp_all
  then show ?thesis using d by (simp add: is_hexdig_def digit_char_def)
next
  assume "c \<in> set ''abcdef''"
  moreover have "list_all (\<lambda>c. is_hexdig c \<and> 0 \<le> char_digit c \<and> char_digit c < 16 \<and> digit_char (char_digit c) = c) ''abcdef''" by code_simp
  ultimately show ?thesis unfolding list_all_iff by blast
qed

lemma hex_buf_inj:
  "\<lbrakk>length s = length t; even (length s); list_all (\<lambda>c. is_digit c \<or> c \<in> set ''abcdef'') s; list_all (\<lambda>c. is_digit c \<or> c \<in> set ''abcdef'') t;
    hex_buf s = hex_buf t\<rbrakk> \<Longrightarrow> s = t"
proof (induction s arbitrary: t rule: hex_buf.induct)
  case (1 a b s)
  then obtain a' b' t' where t: "t = a' # b' # t'" by (cases t rule: hex_buf.cases) auto
  have h: "is_digit x \<or> x \<in> set ''abcdef''" if "x \<in> {a, b, a', b'}" for x using "1.prems"(3,4) that unfolding t list_all_iff by auto
  have l: "is_hexdig x" "0 \<le> char_digit x" "char_digit x < 16" "digit_char (char_digit x) = x" if "x \<in> {a, b, a', b'}" for x
    using lower_hex[OF h[OF that]] by blast+
  have x: "is_hexdig a" "is_hexdig b" "is_hexdig a'" "is_hexdig b'" by (simp_all add: l)
  have bd: "0 \<le> char_digit a" "char_digit a < 16" "0 \<le> char_digit b" "char_digit b < 16"
    "0 \<le> char_digit a'" "char_digit a' < 16" "0 \<le> char_digit b'" "char_digit b' < 16" by (simp_all add: l)
  have e: "16 * char_digit a + char_digit b = 16 * char_digit a' + char_digit b'" and r: "hex_buf s = hex_buf t'"
    using "1.prems"(5) x bd unfolding t by simp_all
  from e bd have ca: "char_digit a = char_digit a'" by linarith
  with e have cb: "char_digit b = char_digit b'" by linarith
  have d: "digit_char (char_digit a) = a" "digit_char (char_digit b) = b" "digit_char (char_digit a') = a'" "digit_char (char_digit b') = b'"
    by (rule l, simp)+
  have "a = a'" by (subst d(1)[symmetric], subst d(3)[symmetric], simp only: ca)
  moreover have "b = b'" by (subst d(2)[symmetric], subst d(4)[symmetric], simp only: cb)
  moreover have "s = t'"
  proof (rule "1.IH")
    show "length s = length t'" "even (length s)" using "1.prems"(1,2) by (simp_all add: t)
    show "list_all (\<lambda>c. is_digit c \<or> c \<in> set ''abcdef'') s" "list_all (\<lambda>c. is_digit c \<or> c \<in> set ''abcdef'') t'"
      using "1.prems"(3,4) unfolding t list.pred_inject(2) by iprover+
  qed (use x r in simp_all)
  ultimately show ?case unfolding t by simp
qed auto

datatype token_op = Tok_rotate int string | Tok_revoke | Tok_verify int bool "string option"

fun token_exec :: "host \<Rightarrow> token_op \<Rightarrow> token_file \<Rightarrow> token_file" where
  "token_exec H (Tok_rotate now rnd) f = snd (rotateToken H now rnd f)"
| "token_exec H Tok_revoke f = revokeToken f"
| "token_exec H (Tok_verify now io p) f = snd (verifyToken H now io p f)"

text \<open>The specification: the last token handed out, unless it was revoked.\<close>

fun token_spec :: "token_op \<Rightarrow> string option \<Rightarrow> string option" where
  "token_spec (Tok_rotate now rnd) s = Some (scim_plaintext rnd)"
| "token_spec Tok_revoke s = None"
| "token_spec (Tok_verify now io p) s = s"

definition token_rel :: "host \<Rightarrow> token_file \<Rightarrow> string option \<Rightarrow> bool" where
  "token_rel H f s \<longleftrightarrow> (\<exists>t. readToken f = Inr t \<and> tk_hash t = map_option (host_sha256 H) s)"

lemma read_written_token [simp]: "readToken (writeToken t f) = Inr t"
  by (simp add: readToken_def writeToken_def)

lemma token_step: "token_rel H f s \<Longrightarrow> token_rel H (token_exec H p f) (token_spec p s)"
  by (cases p) (auto simp: token_rel_def rotateToken_def revokeToken_def verifyToken_def no_token_def token_decide_def token_commit_def Let_def)

lemma token_run: "token_rel H f s \<Longrightarrow> token_rel H (fold (token_exec H) ps f) (fold token_spec ps s)"
  by (induction ps arbitrary: f s) (simp_all add: token_step)

lemma verify_spec:
  assumes "sha_hex H" "token_rel H f s"
  shows "fst (verifyToken H now io (Some p) f) = Inr (case s of None \<Rightarrow> False | Some t \<Rightarrow> p \<noteq> [] \<and> host_sha256 H p = host_sha256 H t)"
proof (cases s)
  case None
  then show ?thesis using assms(2) by (auto simp: token_rel_def verifyToken_def token_decide_def)
next
  case (Some t)
  have sha: "length (host_sha256 H x) = 64" "list_all (\<lambda>c. is_digit c \<or> c \<in> set ''abcdef'') (host_sha256 H x)" for x
    using assms(1) unfolding sha_hex_def by blast+
  have "host_sha256 H t \<noteq> []" using sha(1)[of t] by auto
  moreover have "hex_buf (host_sha256 H p) = hex_buf (host_sha256 H t) \<longleftrightarrow> host_sha256 H p = host_sha256 H t"
    using hex_buf_inj[of "host_sha256 H p" "host_sha256 H t"] sha by auto
  ultimately show ?thesis using assms(2) Some by (auto simp: token_rel_def verifyToken_def token_decide_def Let_def or_empty_def)
qed

section \<open>Serving requests\<close>

datatype scim_call = List_users | Create_user | Show_user string | Replace_user string | Patch_user string | Delete_user string

fun scim_path :: "scim_call \<Rightarrow> string" where
  "scim_path List_users = USERS_ROUTE"
| "scim_path Create_user = USERS_ROUTE"
| "scim_path (Show_user i) = routeFor i"
| "scim_path (Replace_user i) = routeFor i"
| "scim_path (Patch_user i) = routeFor i"
| "scim_path (Delete_user i) = routeFor i"

fun scim_serve :: "scim_env \<Rightarrow> scim_request \<Rightarrow> scim_call \<Rightarrow> scim_world \<Rightarrow> NextResponse res \<times> scim_world" where
  "scim_serve E q List_users w = users_GET E q w"
| "scim_serve E q Create_user w = users_POST E q w"
| "scim_serve E q (Show_user i) w = user_GET E q i w"
| "scim_serve E q (Replace_user i) w = user_PUT E q i w"
| "scim_serve E q (Patch_user i) w = user_PATCH E q i w"
| "scim_serve E q (Delete_user i) w = user_DELETE E q i w"

definition audited :: "string \<Rightarrow> int set \<Rightarrow> scim_world \<Rightarrow> bool" where
  "audited route ss w \<longleftrightarrow> (\<exists>evs ev. readAllLines (scw_audit w) = evs @ [ev] \<and> ae_route ev = route \<and> ae_status ev \<in> ss)"

lemma scim_audit_line: "\<lbrakk>sc_io E; st \<in> ss\<rbrakk> \<Longrightarrow> audited route ss (scim_audit E i q route m st r d w)"
proof -
  assume "sc_io E" "st \<in> ss"
  then obtain ev where "readAllLines (scw_audit (scim_audit E i q route m st r d w)) = readAllLines (scw_audit w) @ [ev]"
      "ae_status ev = st" "ae_route ev = route"
    by (rule_tac recorded_line[of "sc_host E" "sc_clock E i" "sc_id E i" "sc_fresh E"
          "\<lparr>ai_req = Some (sq_headers q), ai_route = route, ai_method = m, ai_status = st, ai_key = None, ai_reason = Some r, ai_details = d\<rparr>" "scw_audit w"])
      (simp add: scim_audit_def)
  with \<open>st \<in> ss\<close> show ?thesis unfolding audited_def by blast
qed

lemma scim_audit_users [simp]: "scw_users (scim_audit E i q route m st r d w) = scw_users w"
  by (simp add: scim_audit_def)

lemma scim_route_users:
  assumes "\<And>w. scw_users (snd (handler w)) \<noteq> scw_users w \<Longrightarrow> audited route ss (snd (handler w))"
    and "scw_users (snd (scim_route E q route handler w)) \<noteq> scw_users w"
  shows "fst (verifyToken (sc_host E) (sc_clock E 0) (sc_token_io E) (extractBearer (sq_headers q)) (scw_token w)) = Inr True
    \<and> audited route ss (snd (scim_route E q route handler w))"
proof -
  obtain out f where v: "verifyToken (sc_host E) (sc_clock E 0) (sc_token_io E) (extractBearer (sq_headers q)) (scw_token w) = (out, f)"
    by (cases "verifyToken (sc_host E) (sc_clock E 0) (sc_token_io E) (extractBearer (sq_headers q)) (scw_token w)")
  show ?thesis
  proof (cases "out = Inr True")
    case True
    then have "scim_route E q route handler w = handler (w\<lparr>scw_token := f\<rparr>)" using v by (simp add: scim_route_def requireScim_def Let_def)
    with assms v True show ?thesis by (metis fst_conv scim_world.select_convs(1) scim_world.update_convs(2) scim_world.surjective)
  next
    case False
    then have "scw_users (snd (scim_route E q route handler w)) = scw_users w"
      using v by (auto simp: scim_route_def requireScim_def Let_def split: sum.splits bool.splits)
    with assms(2) show ?thesis by simp
  qed
qed

lemma delete_unchanged: "\<lbrakk>fst (deleteUser i f) = Inr False \<or> (\<exists>e. fst (deleteUser i f) = Inl e)\<rbrakk> \<Longrightarrow> snd (deleteUser i f) = f"
  by (auto simp: deleteUser_def Let_def split: sum.splits)

text \<open>Each handler that changes the users has recorded so.\<close>

lemma handlers_audited:
  assumes "sc_io E"
  shows "scw_users (snd (users_list E q w)) = scw_users w" "scw_users (snd (user_show E q i w)) = scw_users w"
    "scw_users (snd (users_create E q w)) \<noteq> scw_users w \<Longrightarrow> audited USERS_ROUTE {200, 201, 204} (snd (users_create E q w))"
    "scw_users (snd (user_replace E q i w)) \<noteq> scw_users w \<Longrightarrow> audited (routeFor i) {200, 201, 204} (snd (user_replace E q i w))"
    "scw_users (snd (user_patch E q i w)) \<noteq> scw_users w \<Longrightarrow> audited (routeFor i) {200, 201, 204} (snd (user_patch E q i w))"
    "scw_users (snd (user_remove E q i w)) \<noteq> scw_users w \<Longrightarrow> audited (routeFor i) {200, 201, 204} (snd (user_remove E q i w))"
proof -
  note line = scim_audit_line[OF assms]
  show "scw_users (snd (users_list E q w)) = scw_users w"
    by (simp add: users_list_def Let_def split: sum.splits)
  show "scw_users (snd (user_show E q i w)) = scw_users w"
    by (simp add: user_show_def split: sum.splits option.splits)
  show "audited USERS_ROUTE {200, 201, 204} (snd (users_create E q w))" if "scw_users (snd (users_create E q w)) \<noteq> scw_users w"
    using that line by (auto simp: users_create_def createUser_def Let_def split: option.splits sum.splits if_splits)
  show "audited (routeFor i) {200, 201, 204} (snd (user_replace E q i w))" if "scw_users (snd (user_replace E q i w)) \<noteq> scw_users w"
    using that line by (auto simp: user_replace_def replaceUser_def Let_def split: option.splits sum.splits if_splits)
  show "audited (routeFor i) {200, 201, 204} (snd (user_patch E q i w))" if "scw_users (snd (user_patch E q i w)) \<noteq> scw_users w"
    using that line by (auto simp: user_patch_def patchUser_def Let_def split: option.splits sum.splits if_splits)
  show "audited (routeFor i) {200, 201, 204} (snd (user_remove E q i w))" if "scw_users (snd (user_remove E q i w)) \<noteq> scw_users w"
    using that line by (auto simp: user_remove_def deleteUser_def Let_def split: sum.splits if_splits)
qed

section \<open>Names\<close>

definition user_rows :: "users_file \<Rightarrow> ScimUser list" where
  "user_rows f = (case readUsers f of Inl e \<Rightarrow> [] | Inr us \<Rightarrow> us)"

text \<open>User names are addresses in lower case without outer blanks, and no two users share one.\<close>

definition users_ok :: "users_file \<Rightarrow> bool" where
  "users_ok f \<longleftrightarrow> distinct (map su_userName (user_rows f)) \<and> list_all (\<lambda>u. EMAIL_RE (su_userName u) \<and> normalizeEmail (su_userName u) = su_userName u) (user_rows f)"

datatype user_op = U_create int string CreateUserInput | U_replace int string CreateUserInput | U_patch int string "json list" | U_delete string

fun user_exec :: "host \<Rightarrow> user_op \<Rightarrow> users_file \<Rightarrow> users_file" where
  "user_exec H (U_create now uuid input) f = snd (createUser H now uuid input f)"
| "user_exec H (U_replace now i input) f = snd (replaceUser H now i input f)"
| "user_exec H (U_patch now i ops) f = snd (patchUser H now i ops f)"
| "user_exec H (U_delete i) f = snd (deleteUser i f)"

text \<open>A patch operation that cannot touch the user name.\<close>

definition keeps_name :: "host \<Rightarrow> json \<Rightarrow> bool" where
  "keeps_name H j \<longleftrightarrow> toLowerCase (str_or H (jfield j ''path'')) \<noteq> ''username''
     \<and> str_or_null (Option.bind (jfield j ''value'') (\<lambda>v. jfield v ''userName'')) = None"

definition name_safe :: "host \<Rightarrow> user_op \<Rightarrow> bool" where
  "name_safe H p \<longleftrightarrow> (case p of U_patch now i ops \<Rightarrow> list_all (keeps_name H) ops | _ \<Rightarrow> True)"

lemma read_written_users [simp]: "readUsers (writeUsers us f) = Inr us" "user_rows (writeUsers us f) = us"
  by (simp_all add: readUsers_def writeUsers_def user_rows_def)

lemma user_rows_read: "readUsers f = Inr us \<Longrightarrow> user_rows f = us"
  by (simp add: user_rows_def)

lemma to_lower_idem [simp]: "to_lower_char (to_lower_char c) = to_lower_char c"
  by (auto simp: to_lower_char_def Let_def)

lemma js_ws_lower [simp]: "js_ws (to_lower_char c) = js_ws c"
  by (auto simp: to_lower_char_def js_ws_def Let_def)

lemma trim_lower: "trim (toLowerCase s) = toLowerCase (trim s)"
proof -
  have d: "dropWhile js_ws (toLowerCase s) = toLowerCase (dropWhile js_ws s)" for s by (simp add: toLowerCase_def dropWhile_map comp_def)
  have "rev (toLowerCase s) = toLowerCase (rev s)" for s by (simp add: toLowerCase_def rev_map)
  then show ?thesis unfolding trim_def d by (metis d)
qed

lemma normalizeEmail_idem [simp]: "normalizeEmail (normalizeEmail s) = normalizeEmail s"
  by (simp add: normalizeEmail_def trim_lower)

lemma findIndex_SomeD: "findIndex P xs = Some k \<Longrightarrow> k < length xs \<and> P (xs ! k)"
  by (induction xs arbitrary: k) (auto split: if_splits)

lemma distinct_map_update: "\<lbrakk>distinct (map f xs); k < length xs; \<And>j. \<lbrakk>j < length xs; j \<noteq> k\<rbrakk> \<Longrightarrow> f (xs ! j) \<noteq> f x\<rbrakk> \<Longrightarrow> distinct (map f (xs[k := x]))"
  unfolding distinct_conv_nth by (simp add: nth_list_update) metis

lemma list_all_update: "\<lbrakk>list_all P xs; P x\<rbrakk> \<Longrightarrow> list_all P (xs[k := x])"
  by (auto simp: list_all_iff dest: set_update_subset_insert[THEN subsetD])

lemma patch_value_name: "str_or_null (jfield v ''userName'') = None \<Longrightarrow> su_userName (patch_value v u) = su_userName u"
proof -
  have str: "su_userName (if_str x g u) = su_userName u" if "\<And>s. su_userName (g s u) = su_userName u" for x g u
    using that by (auto simp: if_str_def split: option.splits json.splits)
  have bool: "su_userName (if_bool x g u) = su_userName u" if "\<And>b. su_userName (g b u) = su_userName u" for x g u
    using that by (auto simp: if_bool_def split: option.splits json.splits)
  assume "str_or_null (jfield v ''userName'') = None"
  then have "if_str (jfield v ''userName'') g u = u" for g u by (auto simp: if_str_def str_or_null_def split: option.splits json.splits)
  then show ?thesis by (simp add: patch_value_def Let_def str bool)
qed

lemma patch_path_name: "p \<noteq> ''username'' \<Longrightarrow> su_userName (patch_path H opName p v u) = su_userName u"
  unfolding patch_path_def by (cases v; cases "the v") simp_all

lemma patch_op_name:
  assumes "keeps_name H j" "patch_op H j u = Inr u'"
  shows "su_userName u' = su_userName u"
proof (cases "\<not> jtruthy (jfield j ''path'') \<and> jtruthy (jfield j ''value'') \<and> is_object (or_jnull (jfield j ''value''))")
  case True
  then obtain v where v: "jfield j ''value'' = Some v" by (cases "jfield j ''value''") auto
  have "u' = patch_value v u" using assms(2) True v by (auto simp: patch_op_def Let_def or_jnull_def split: if_splits)
  moreover have "str_or_null (jfield v ''userName'') = None" using assms(1) v by (simp add: keeps_name_def)
  ultimately show ?thesis using patch_value_name by simp
next
  case False
  then have "u' = patch_path H (toLowerCase (str_or H (jfield j ''op''))) (toLowerCase (str_or H (jfield j ''path''))) (jfield j ''value'') u"
    using assms(2) unfolding patch_op_def Let_def by (simp only: if_not_P split: if_splits) simp_all
  moreover have "toLowerCase (str_or H (jfield j ''path'')) \<noteq> ''username''" using assms(1) unfolding keeps_name_def by (rule conjunct1)
  ultimately show ?thesis using patch_path_name by blast
qed

lemma patch_loop_name: "\<lbrakk>list_all (keeps_name H) js; patch_loop H js u = Inr u'\<rbrakk> \<Longrightarrow> su_userName u' = su_userName u"
  by (induction js arbitrary: u) (auto split: sum.splits dest: patch_op_name)

lemma user_exec_ok:
  assumes "name_safe H p" "users_ok f"
  shows "users_ok (user_exec H p f)"
proof (cases "readUsers f")
  case (Inl e)
  then show ?thesis using assms(2) by (cases p) (auto simp: createUser_def replaceUser_def patchUser_def deleteUser_def Let_def)
next
  case (Inr us)
  let ?good = "\<lambda>u. EMAIL_RE (su_userName u) \<and> normalizeEmail (su_userName u) = su_userName u"
  have us: "distinct (map su_userName us)" "list_all ?good us" using assms(2) Inr by (simp_all add: users_ok_def user_rows_def)
  have upd: "users_ok (writeUsers (us[k := u]) f)"
    if "k < length us" "?good u" "\<And>j. \<lbrakk>j < length us; j \<noteq> k\<rbrakk> \<Longrightarrow> su_userName (us ! j) \<noteq> su_userName u" for k u
    using distinct_map_update[OF us(1) that(1,3)] list_all_update[of ?good us u k] us(2) that(2) by (simp add: users_ok_def)
  show ?thesis
  proof (cases p)
    case (U_create now uuid input)
    with assms(2) Inr us show ?thesis by (auto simp: createUser_def Let_def users_ok_def)
  next
    case (U_replace now i input)
    with assms(2) Inr show ?thesis
      by (auto simp: replaceUser_def Let_def dest: findIndex_SomeD split: option.splits intro!: upd)
  next
    case (U_patch now i ops)
    show ?thesis
    proof (cases "findIndex (\<lambda>u. su_id u = i) us")
      case (Some k)
      note k = findIndex_SomeD[OF Some]
      show ?thesis
      proof (cases "patch_loop H ops (us ! k)")
        case (Inr u)
        then have n: "su_userName u = su_userName (us ! k)" using patch_loop_name assms(1) U_patch by (simp add: name_safe_def)
        have "users_ok (writeUsers (us[k := u\<lparr>su_updated_at := toISOString now\<rparr>]) f)"
        proof (rule upd)
          show "?good (u\<lparr>su_updated_at := toISOString now\<rparr>)" using us(2) k n by (simp add: list_all_length)
          show "su_userName (us ! j) \<noteq> su_userName (u\<lparr>su_updated_at := toISOString now\<rparr>)" if "j < length us" "j \<noteq> k" for j
            using us(1) that k n by (simp add: distinct_conv_nth)
        qed (use k in simp)
        with U_patch Some Inr \<open>readUsers f = Inr us\<close> show ?thesis by (simp add: patchUser_def Let_def)
      qed (use U_patch Some \<open>readUsers f = Inr us\<close> assms(2) in \<open>simp add: patchUser_def\<close>)
    qed (use U_patch Inr assms(2) in \<open>simp add: patchUser_def\<close>)
  next
    case (U_delete i)
    have "distinct (map su_userName (filter (\<lambda>u. su_id u \<noteq> i) us))" using us(1) by (rule distinct_map_filter)
    with U_delete assms(2) Inr us show ?thesis by (auto simp: deleteUser_def Let_def users_ok_def list_all_iff)
  qed
qed

interpretation scim_users: preserved "user_exec H" "name_safe H" users_ok for H
  by unfold_locales (rule user_exec_ok)

section \<open>Properties\<close>

text \<open>C20: The token is the last one minted. Starting without a token file, after any sequence of mintings, revocations (whose writes succeed) and checks, none of
  which overlap, a presented token is accepted exactly when the last minted token has not been revoked and has the same hash.\<close>

theorem scim_token_refines:
  assumes "sha_hex H"
  shows "fst (verifyToken H now io (Some p) (fold (token_exec H) ops NoFile))
    = Inr (case fold token_spec ops None of None \<Rightarrow> False | Some t \<Rightarrow> p \<noteq> [] \<and> host_sha256 H p = host_sha256 H t)"
proof (rule verify_spec[OF assms], rule token_run)
  show "token_rel H NoFile None" by (simp add: token_rel_def readToken_def no_token_def)
qed

text \<open>
  Calls that overlap: between the read of a check and its write, other operations run in full.
\<close>

definition overlapping_check :: "host \<Rightarrow> int \<Rightarrow> string \<Rightarrow> token_op list \<Rightarrow> token_file \<Rightarrow> (bool \<times> token_file) option" where
  "overlapping_check H now p ops f =
     (case readToken f of
        Inl e \<Rightarrow> None
      | Inr t \<Rightarrow> (case token_decide H now p t of (ok, next) \<Rightarrow> Some (ok, token_commit True next (fold (token_exec H) ops f))))"

text \<open>The write of a check, which is there to note the last use, puts back the whole record it read: whatever ran meanwhile, a revocation or the minting
  of a new token included, the token that was checked is accepted afterwards.\<close>

theorem overlapping_check_undoes_revocation:
  assumes "fst (verifyToken H now io (Some p) f) = Inr True"
  shows "\<exists>f'. overlapping_check H now p ops f = Some (True, f') \<and> fst (verifyToken H now' io' (Some p) f') = Inr True"
  using assms
  by (auto simp: overlapping_check_def verifyToken_def token_decide_def token_commit_def Let_def or_empty_def writeToken_def readToken_def
      split: sum.splits if_splits)

text \<open>C19: The directory changes only for the provider: when a request changes the users, its bearer token was accepted; and every change is on record,
  as far as the log can be written: where the append to the audit file succeeds, its last line is a success of this route.\<close>

theorem scim_changes_authorised:
  assumes "sc_io E" "scw_users (snd (scim_serve E q call w)) \<noteq> scw_users w"
  shows "fst (verifyToken (sc_host E) (sc_clock E 0) (sc_token_io E) (extractBearer (sq_headers q)) (scw_token w)) = Inr True
    \<and> audited (scim_path call) {200, 201, 204} (snd (scim_serve E q call w))"
proof -
  note h = handlers_audited[OF assms(1)]
  note r = scim_route_users[where E = E and q = q and ss = "{200, 201, 204}" and w = w]
  show ?thesis
  proof (cases call)
    case List_users
    then show ?thesis using r[of "users_list E q" USERS_ROUTE] h(1) assms(2) by (simp add: users_GET_def)
  next
    case Create_user
    then show ?thesis using r[of "users_create E q" USERS_ROUTE] h(3) assms(2) by (simp add: users_POST_def)
  next
    case (Show_user i)
    then show ?thesis using r[of "user_show E q i" "routeFor i"] h(2) assms(2) by (simp add: user_GET_def)
  next
    case (Replace_user i)
    then show ?thesis using r[of "user_replace E q i" "routeFor i"] h(4) assms(2) by (simp add: user_PUT_def)
  next
    case (Patch_user i)
    then show ?thesis using r[of "user_patch E q i" "routeFor i"] h(5) assms(2) by (simp add: user_PATCH_def)
  next
    case (Delete_user i)
    then show ?thesis using r[of "user_remove E q i" "routeFor i"] h(6) assms(2) by (simp add: user_DELETE_def)
  qed
qed

text \<open>C21: Names stay valid and unique: any sequence of creations, replacements, deletions and patches that leave the user name alone keeps every name a lower-case
  address and no two users of the same name.\<close>

theorem scim_names_unique: "\<lbrakk>list_all (name_safe H) ps; users_ok f\<rbrakk> \<Longrightarrow> users_ok (fold (user_exec H) ps f)"
  by (rule scim_users.run)

text \<open>C22: A patch of the user name is not checked at all: it stores whatever string it brings, so it can give a user the name of another one.\<close>

theorem patch_steals_name:
  assumes "readUsers f = Inr us" "findIndex (\<lambda>u. su_id u = i) us = Some k" "j < length us" "j \<noteq> k" "normalizeEmail (su_userName (us ! j)) = su_userName (us ! j)"
  shows "let ops = [JObj [(''op'', JStr ''replace''), (''path'', JStr ''userName''), (''value'', JStr (su_userName (us ! j)))]];
      f' = snd (patchUser H now i ops f) in
    length (user_rows f') = length us \<and> su_userName (user_rows f' ! k) = su_userName (us ! j) \<and> user_rows f' ! j = us ! j \<and> \<not> users_ok f'"
proof -
  let ?ops = "[JObj [(''op'', JStr ''replace''), (''path'', JStr ''userName''), (''value'', JStr (su_userName (us ! j)))]]"
  have low: "toLowerCase ''userName'' = ''username''" "toLowerCase ''replace'' = ''replace''" by code_simp+
  have k: "k < length us" using findIndex_SomeD[OF assms(2)] by simp
  have "patch_loop H ?ops (us ! k) = Inr ((us ! k)\<lparr>su_userName := su_userName (us ! j)\<rparr>)"
    using assms(5) low by (simp add: patch_op_def str_or_def jtruthy_def patch_path_def Let_def)
  then have rows: "user_rows (snd (patchUser H now i ?ops f)) = us[k := (us ! k)\<lparr>su_userName := su_userName (us ! j), su_updated_at := toISOString now\<rparr>]"
    using assms(1,2) by (simp add: patchUser_def Let_def)
  have "\<not> distinct (map su_userName (us[k := (us ! k)\<lparr>su_userName := su_userName (us ! j), su_updated_at := toISOString now\<rparr>]))" (is "\<not> distinct ?ns")
  proof
    assume "distinct ?ns"
    moreover have "?ns ! j = ?ns ! k" "j < length ?ns" "k < length ?ns" using assms(3,4) k by simp_all
    ultimately show False using assms(4) by (simp only: nth_eq_iff_index_eq)
  qed
  with assms(3,4) k show ?thesis by (simp add: rows users_ok_def Let_def)
qed

section \<open>Witnesses\<close>

text \<open>A host whose hash is the length of its argument, in 64 hexadecimal digits.\<close>

definition hex_host :: host where
  "hex_host = sample_host\<lparr>host_sha256 := (\<lambda>s. fixed_digits 16 64 (int (length s)))\<rparr>"

lemma hex_host_sha: "sha_hex hex_host"
proof -
  have d: "is_digit (digit_char x) \<or> digit_char x \<in> set ''abcdef''" if "0 \<le> x" "x < 16" for x
  proof (cases "x < 10")
    case False
    have "list_all (\<lambda>x. digit_char x \<in> set ''abcdef'') [10, 11, 12, 13, 14, 15]" by code_simp
    moreover have "x \<in> set [10, 11, 12, 13, 14, 15]" using False that by auto
    ultimately show ?thesis unfolding list_all_iff by blast
  qed (use that in simp)
  have "list_all (\<lambda>c. is_digit c \<or> c \<in> set ''abcdef'') (fixed_digits 16 n k)" if "0 \<le> k" for n k
    using that by (induction n arbitrary: k) (simp_all add: d pos_imp_zdiv_nonneg_iff del: list.set)
  then show ?thesis by (simp add: sha_hex_def hex_host_def)
qed

theorem scim_token_refines_witness:
  "fst (verifyToken hex_host 2 True (Some ''scim_live_ab'') (fold (token_exec hex_host) [Tok_rotate 0 ''c'', Tok_revoke, Tok_rotate 1 ''ab''] NoFile)) = Inr True"
  using scim_token_refines[OF hex_host_sha, of 2 True "''scim_live_ab''" "[Tok_rotate 0 ''c'', Tok_revoke, Tok_rotate 1 ''ab'']"]
  by (simp add: scim_plaintext_def)

text \<open>The token is revoked while a check of it is under way, and is accepted again afterwards.\<close>

theorem overlapping_check_undoes_revocation_witness:
  "\<exists>f'. overlapping_check hex_host 2 ''scim_live_ab'' [Tok_revoke] (snd (rotateToken hex_host 0 ''ab'' NoFile)) = Some (True, f')
    \<and> fst (verifyToken hex_host 3 True (Some ''scim_live_ab'') f') = Inr True"
proof (rule overlapping_check_undoes_revocation)
  have "token_rel hex_host (snd (rotateToken hex_host 0 ''ab'' NoFile)) (Some ''scim_live_ab'')"
    by (simp add: token_rel_def rotateToken_def scim_plaintext_def Let_def)
  from verify_spec[OF hex_host_sha this] show "fst (verifyToken hex_host 2 True (Some ''scim_live_ab'') (snd (rotateToken hex_host 0 ''ab'' NoFile))) = Inr True"
    by simp
qed

definition sample_scim_user :: "string \<Rightarrow> string \<Rightarrow> ScimUser" where
  "sample_scim_user i n = \<lparr>su_id = i, su_externalId = JNull, su_userName = n, su_givenName = JNull, su_familyName = JNull, su_active = True,
     su_created_at = ''t'', su_updated_at = ''t''\<rparr>"

definition sample_scim :: scim_world where
  "sample_scim = \<lparr>scw_users = Stored [sample_scim_user ''u1'' ''a@b.co''], scw_token = snd (rotateToken hex_host 0 ''ab'' NoFile),
     scw_audit = au_new (replicate 32 (CHR ''k''))\<rparr>"

definition sample_scim_env :: scim_env where
  "sample_scim_env = \<lparr>sc_host = hex_host, sc_clock = (\<lambda>i. int i), sc_id = (\<lambda>_. ''e''), sc_fresh = ''n'', sc_io = True, sc_token_io = True, sc_uuid = ''u2'',
     sc_parse = (\<lambda>_. None), sc_fault = (\<lambda>_. [])\<rparr>"

definition sample_scim_request :: scim_request where
  "sample_scim_request = \<lparr>sq_headers = (\<lambda>n. if n = ''authorization'' then Some ''Bearer scim_live_ab'' else None), sq_method = ''DELETE'',
     sq_query = (\<lambda>_. None), sq_raw = [], sq_protocol = ''https:'', sq_host = ''h''\<rparr>"

lemma sample_bearer: "extractBearer (sq_headers sample_scim_request) = Some ''scim_live_ab''"
  by code_simp

lemma sample_accepts: "fst (verifyToken hex_host 0 True (Some ''scim_live_ab'') (scw_token sample_scim)) = Inr True"
proof -
  have "token_rel hex_host (scw_token sample_scim) (Some ''scim_live_ab'')"
    by (simp add: token_rel_def sample_scim_def rotateToken_def scim_plaintext_def Let_def)
  from verify_spec[OF hex_host_sha this] show ?thesis by simp
qed

theorem scim_changes_authorised_witness:
  "audited ''/api/scim/v2/Users/u1'' {200, 201, 204} (snd (scim_serve sample_scim_env sample_scim_request (Delete_user ''u1'') sample_scim))"
proof -
  obtain f where v: "verifyToken hex_host 0 True (Some ''scim_live_ab'') (scw_token sample_scim) = (Inr True, f)"
    using sample_accepts by (cases "verifyToken hex_host 0 True (Some ''scim_live_ab'') (scw_token sample_scim)") simp
  have env: "sc_host sample_scim_env = hex_host" "sc_clock sample_scim_env 0 = 0" "sc_token_io sample_scim_env" "sc_io sample_scim_env"
    by (simp_all add: sample_scim_env_def)
  have "scw_users (snd (scim_serve sample_scim_env sample_scim_request (Delete_user ''u1'') sample_scim)) \<noteq> scw_users sample_scim"
    using v by (simp add: user_DELETE_def scim_route_def requireScim_def sample_bearer env Let_def user_remove_def deleteUser_def readUsers_def writeUsers_def
        sample_scim_def sample_scim_user_def)
  from scim_changes_authorised[OF env(4) this] show ?thesis by (simp add: routeFor_def)
qed

definition sample_new_user :: CreateUserInput where
  "sample_new_user = \<lparr>cu_userName = JStr '' C@D.org '', cu_externalId = JNull, cu_givenName = JNull, cu_familyName = JNull, cu_active = True\<rparr>"

theorem scim_names_unique_witness:
  "users_ok (fold (user_exec hex_host) [U_create 0 ''u2'' sample_new_user, U_patch 1 ''u1'' [JObj [(''value'', JObj [(''active'', JBool False)])]]]
     (Stored [sample_scim_user ''u1'' ''a@b.co'']))"
proof (rule scim_names_unique)
  show "users_ok (Stored [sample_scim_user ''u1'' ''a@b.co''])" by code_simp
  have "str_or hex_host None = []" by (simp add: str_or_def)
  then show "list_all (name_safe hex_host) [U_create 0 ''u2'' sample_new_user, U_patch 1 ''u1'' [JObj [(''value'', JObj [(''active'', JBool False)])]]]"
    by (simp add: name_safe_def keeps_name_def toLowerCase_def)
qed

theorem patch_steals_name_witness:
  "\<not> users_ok (snd (patchUser hex_host 0 ''u2'' [JObj [(''op'', JStr ''replace''), (''path'', JStr ''userName''), (''value'', JStr ''a@b.co'')]]
     (Stored [sample_scim_user ''u1'' ''a@b.co'', sample_scim_user ''u2'' ''c@d.org''])))"
proof -
  let ?us = "[sample_scim_user ''u1'' ''a@b.co'', sample_scim_user ''u2'' ''c@d.org'']"
  have "normalizeEmail ''a@b.co'' = ''a@b.co''" by code_simp
  then show ?thesis
    using patch_steals_name[of "Stored ?us" ?us "''u2''" 1 0 hex_host 0] by (simp add: readUsers_def sample_scim_user_def Let_def)
qed

end
