(* ===== verification/Spec2Isabelle.thy ===== *)
theory Spec2Isabelle
  imports TwoPerson Retention Privacy RunRoutes Invites Zip WebHeaders Scim
begin

text \<open>
  \<^bold>\<open>SignalClaw: the access control and the records of the web API.\<close>

  SignalClaw's web application serves an authenticated API below \<^verbatim>\<open>/api/v1\<close>. A request brings a
  secret; \<^verbatim>\<open>keyStore.ts\<close> turns it into a stored key, \<^verbatim>\<open>authLockoutStore.ts\<close> locks out addresses that
  guess, and \<^verbatim>\<open>v1Guard.ts\<close> runs the route's handler only after the workspace freeze, the network policy
  (with break-glass grants), the key's address and route lists, rotation, residency, the monthly
  quota, the rate limit and the concurrency limit have passed, in this order. Refusals go to the
  hash-chained log of \<^verbatim>\<open>auditStore.ts\<close>, every outcome to \<^verbatim>\<open>metricsStore.ts\<close> and \<^verbatim>\<open>keyUsageStore.ts\<close>.
  Dangerous admin operations need a second admin, \<^verbatim>\<open>dualControlStore.ts\<close>. Mutating \<^verbatim>\<open>/api/v1\<close> handlers run under
  \<^verbatim>\<open>idempotency.ts\<close>, which replays the cached response of a retried request. The management API below
  \<^verbatim>\<open>/api/admin\<close> has its own gate, \<^verbatim>\<open>adminGuard.ts\<close>: a key of admin scope or a single sign-on session
  (\<^verbatim>\<open>ssoSession.ts\<close>, \<^verbatim>\<open>ssoSessionRegistry.ts\<close>, \<^verbatim>\<open>ssoPolicyStore.ts\<close>), and a one-time code (\<^verbatim>\<open>totpStore.ts\<close>) on mutating
  calls; below it administrators manage the keys (\<^verbatim>\<open>src/web/app/api/admin/keys\<close>, \<^verbatim>\<open>approvals\<close>) and the identity provider's token. The provider
  itself keeps the directory of users (\<^verbatim>\<open>scimStore.ts\<close>, \<^verbatim>\<open>src/web/app/api/scim\<close>). The middleware (\<^verbatim>\<open>src/web/middleware.ts\<close>) writes what browsers
  may do with the answers. The records behind the guard are saved runs (\<^verbatim>\<open>runStore.ts\<close>, with the tenants' access rules of \<^verbatim>\<open>runAcl.ts\<close>), webhook subscriptions and
  their delivery log (\<^verbatim>\<open>webhookStore.ts\<close>, whose requests \<^verbatim>\<open>egressPolicy.ts\<close> checks), the activity feed (\<^verbatim>\<open>activityStore.ts\<close>) and invitations
  (\<^verbatim>\<open>inviteStore.ts\<close>, \<^verbatim>\<open>seats.ts\<close>). They end by the sweeps of \<^verbatim>\<open>retentionStore.ts\<close> and the erasure of \<^verbatim>\<open>privacyStore.ts\<close>, which a legal hold
  (\<^verbatim>\<open>legalHoldStore.ts\<close>) stops. All files are below \<^verbatim>\<open>src/web/lib\<close>, except the routes: the second factor's below \<^verbatim>\<open>src/web/app/api/admin/mfa\<close>, those on runs
  below \<^verbatim>\<open>src/web/app/api/v1/runs\<close>, \<^verbatim>\<open>src/web/app/api/invites/[token]/accept\<close>, and those named above.

  \<^bold>\<open>How the code is modelled.\<close> A store is a record of its module-level variables and the contents
  of its file; an operation is a function that takes the state and returns its answer and the new
  state. The clock, random draws, hashes and environment variables are arguments (the record
  \<open>host\<close> of \<^verbatim>\<open>JsDate\<close>, clocks that give the successive readings of one call, drawn ids and
  secrets). Code outside the repository is a parameter too: the URL parser and the name lookup, \<^verbatim>\<open>fetch\<close>, \<^verbatim>\<open>localeCompare\<close>, \<^verbatim>\<open>JSON.parse\<close> of a request's body,
  \<^verbatim>\<open>Number\<close> on strings. A thrown exception is the value \<open>Inl\<close> of type \<open>exn\<close>; a documented refusal is a value
  of the operation's own error datatype. Numbers from outside are the datatype \<open>jsnum\<close>, which has
  \<^verbatim>\<open>NaN\<close> and the infinities; times and counters are integers. Strings are lists of code units below
  256. An operation that is one call of an \<^verbatim>\<open>async\<close> function without a shared-state race is one step;
  where an \<^verbatim>\<open>await\<close> splits a read from a write the operation is split there too and the interleaving is
  stated (\<open>consume_decide\<close> and \<open>consume_commit\<close>, \<open>rotate_read\<close> and \<open>rotate_write\<close>, \<open>admit\<close> and \<open>finish\<close>,
  \<open>idem_begin\<close> and \<open>idem_end\<close>, \<open>consume_plan\<close> and \<open>consume_write\<close>, \<open>id_writeStore\<close> and \<open>id_written\<close>, \<open>verify_decide\<close> and \<open>recovery_decide\<close> before the
  write of \<open>totp_step\<close>, \<open>token_decide\<close> and \<open>token_commit\<close>). Other read-await-write operations are modelled as one step; for them, as for every theorem over
  sequences of calls, the calls do not overlap. A write succeeds unless its operation has an argument that says otherwise (\<open>io\<close> and the like: the audit
  file, the retention sweep, an accepted invitation, the token's stamp); a throwing read is a state of the file. Bit operations of the code are on 32-bit words.

  \<^bold>\<open>The theories.\<close>

  \<^item> \<^verbatim>\<open>Prelude\<close>: results, JavaScript numbers and strings, searching and updating the first match of a list,
    number printing, their lemmas, and the locale \<open>preserved\<close> of operations that keep an invariant. \<^verbatim>\<open>JsDate\<close>: \<^verbatim>\<open>Date\<close>: civil dates, \<^verbatim>\<open>toISOString\<close> and its inverse.
    \<^verbatim>\<open>JsonText\<close>: \<^verbatim>\<open>JSON.stringify\<close>, and that its text determines the fields of a record. \<^verbatim>\<open>JsonStore\<close>: JSON values, files, the time-to-live cache, and the locale \<open>json_codec\<close> of a store
    whose encoding its decoding inverts; each policy store interprets it.
  \<^item> \<^verbatim>\<open>DualControl\<close> (\<^verbatim>\<open>dualControlStore.ts\<close>): requests, approvals, redemptions. An abstract maker/checker
    machine is refined by every run; segregation of duties, at most one redemption per approval in
    sequential runs, the approval window, finality, and the race in which two interleaved redemptions
    of one token both succeed.
  \<^item> \<^verbatim>\<open>IpMatch\<close> (\<^verbatim>\<open>ipMatch.ts\<close>) and \<^verbatim>\<open>RouteAllowlist\<close> (\<^verbatim>\<open>routeAllowlist.ts\<close>): address blocks and route prefixes. Print/parse
    round trip, matching as agreement on leading bits, matching as a prefix of segments,
    canonical lists, and two kinds of entries that are accepted but match nothing.
  \<^item> \<^verbatim>\<open>AuthLockout\<close> (\<^verbatim>\<open>authLockoutStore.ts\<close>) and \<^verbatim>\<open>KeyStore\<close> (\<^verbatim>\<open>keyStore.ts\<close>): failure windows, keys, authentication.
    Soundness of authentication, finality of revocation, rotation, brute-force lockout, the bound on
    tracked addresses, and the configuration that disables the lockout.
  \<^item> \<^verbatim>\<open>Metering\<close>: the locale \<open>metered\<close> of a per-key, per-window allowance, interpreted by \<^verbatim>\<open>RateLimit\<close>
    (\<^verbatim>\<open>rateLimitStore.ts\<close>) and \<^verbatim>\<open>MonthlyQuota\<close> (\<^verbatim>\<open>monthlyQuotaStore.ts\<close>): in a window exactly the remaining allowance is
    admitted. \<^verbatim>\<open>Concurrency\<close> (\<^verbatim>\<open>concurrencyStore.ts\<close>): slots never leak and never exceed the limit.
  \<^item> \<^verbatim>\<open>Freeze\<close>, \<^verbatim>\<open>NetworkPolicy\<close> (with \<^verbatim>\<open>keyIpPolicy.ts\<close>), \<^verbatim>\<open>RotationPolicy\<close>, \<^verbatim>\<open>Residency\<close>, \<^verbatim>\<open>BreakGlass\<close>: the policy stores
    of the same names; each has its decision characterised exactly, its persistence as a round trip, and its
    failure modes.
  \<^item> \<^verbatim>\<open>AuditLog\<close> (\<^verbatim>\<open>auditStore.ts\<close>): the chain verifies after every run of records, rotations and restarts;
    verified logs with the same final hash agree in every field of every event; a failed append and a rotation that
    races an append are shown to break the chain and to lose the event.
  \<^item> \<^verbatim>\<open>Metrics\<close> (\<^verbatim>\<open>metricsStore.ts\<close>) and \<^verbatim>\<open>KeyUsage\<close> (\<^verbatim>\<open>keyUsageStore.ts\<close>): counters, histograms and summaries are exact; the locale
    \<open>tally_column\<close> is interpreted for each column of a summary.
  \<^item> \<^verbatim>\<open>V1Guard\<close> (\<^verbatim>\<open>v1Guard.ts\<close>): the composition. The locale \<open>guard_stage\<close> is the contract of one check; all nine
    interpret it, and their sequence inherits it. The handler runs exactly when all checks
    pass, every outcome restores the counters and is observed once, refusals are audited, and
    overlapping calls stay within the limit. \<^verbatim>\<open>Http\<close>: the responses both gates build.
  \<^item> \<^verbatim>\<open>Totp\<close> (\<^verbatim>\<open>totpStore.ts\<close>): base 32 round trip over 32-bit words, completion of an enrollment, strictly increasing
    accepted steps, and recovery codes as a bag from which each success takes one, as long as calls do not overlap; two overlapping calls accept one code twice.
  \<^item> \<^verbatim>\<open>SsoSession\<close> (\<^verbatim>\<open>sessionTimeoutPolicy.ts\<close>, \<^verbatim>\<open>ssoSessionRegistry.ts\<close>, \<^verbatim>\<open>ssoSession.ts\<close>): what an accepted cookie implies, that a minted one is
    accepted, that revocation is final (through \<open>preserved\<close>), and how long a session in use survives the idle timeout.
    \<^verbatim>\<open>SsoPolicy\<close> (\<^verbatim>\<open>ssoPolicyStore.ts\<close>): the stored policy is well-formed after any updates (through \<open>preserved\<close>).
  \<^item> \<^verbatim>\<open>AdminGuard\<close> (\<^verbatim>\<open>adminGuardCore.ts\<close>, \<^verbatim>\<open>adminMfaGuard.ts\<close>, \<^verbatim>\<open>adminGuard.ts\<close>, the second-factor routes): what a passed gate implies, refusals are
    audited, a session without a key never mutates, and re-enrollment switches the second factor off.
  \<^item> \<^verbatim>\<open>AdminRoute\<close> (the gate that the key routes carry in copies of their own), \<^verbatim>\<open>AdminKeys\<close> (every route below \<^verbatim>\<open>api/admin/keys\<close> and
    \<^verbatim>\<open>api/admin/approvals\<close>, from gate to response) and \<^verbatim>\<open>KeyReports\<close> (\<^verbatim>\<open>keyExpiry.ts\<close>, \<^verbatim>\<open>keyDormancy.ts\<close>; the reports account for every key and agree with
    authentication). \<^verbatim>\<open>TwoPerson\<close>: the rule of two persons over any sequence of calls, with its two holes, and what a call may do to the key file. The
    locales \<open>row_contract\<close> and \<open>dual_contract\<close> are what every handler keeps of the keys and of the approvals; each is interpreted on the relations the
    theorems speak of.
  \<^item> \<^verbatim>\<open>Idempotency\<close> (\<^verbatim>\<open>idempotencyStore.ts\<close>, \<^verbatim>\<open>idempotency.ts\<close>): at most one successful execution per key and header value in
    sequential use, the answer to a retry, and the two ways in which it is lost: overlap and a write burst before a restart.
  \<^item> \<^verbatim>\<open>JsSort\<close>: \<^verbatim>\<open>Array.prototype.sort\<close> with comparison functions. \<^verbatim>\<open>RunStore\<close> (\<^verbatim>\<open>runStore.ts\<close>, \<^verbatim>\<open>runAcl.ts\<close>): every run of operations keeps at most 500 rows with
    canonical tags, the pages of a query partition its rows, the CSV export can be read back, a key sees its own rows only.
    \<^verbatim>\<open>Activity\<close> (\<^verbatim>\<open>activityStore.ts\<close>): the feed stays bounded and well-formed, the badge counts the unread events.
  \<^item> \<^verbatim>\<open>V1Route\<close>: the frame of the routes below \<^verbatim>\<open>/api/v1\<close> and dry runs (\<^verbatim>\<open>dryRun.ts\<close>, \<^verbatim>\<open>dryRunCore.ts\<close>). The locale \<open>app_blind\<close> is the contract of a stage that does not look at
    the routes' data; the stages of the guard interpret it. \<^verbatim>\<open>RunRoutes\<close>: reads are isolated between tenants, a delete is confined to the named run,
    a dry run announces the answer and changes nothing, and one idempotency key answers for different runs.
  \<^item> \<^verbatim>\<open>Egress\<close> (\<^verbatim>\<open>egressPolicy.ts\<close>): a destination passes only when all its addresses are outside the denied blocks, unless the policy allows private
    ones. \<^verbatim>\<open>Webhooks\<close> (\<^verbatim>\<open>webhookStore.ts\<close>): requests go to such destinations only, the retry loop ends and is exact, rotated secrets sign through the grace window, every match is logged.
  \<^item> \<^verbatim>\<open>LegalHold\<close> (\<^verbatim>\<open>legalHoldStore.ts\<close>): an open matter blocks its scopes until it is released. \<^verbatim>\<open>IsoOrder\<close>: printed times are ordered like the times.
    \<^verbatim>\<open>Retention\<close> (\<^verbatim>\<open>retentionStore.ts\<close>): held records survive every sweep, a sweep removes exactly the expired runs, and the audit chain verifies
    after it; the bound of the run store pays no attention to holds. \<^verbatim>\<open>Privacy\<close> (\<^verbatim>\<open>privacyStore.ts\<close>): erasure spares held files and is complete otherwise.
  \<^item> \<^verbatim>\<open>Invites\<close> (\<^verbatim>\<open>inviteStore.ts\<close>, \<^verbatim>\<open>seats.ts\<close>, the accept route): an accepted invitation is one key and one use, seats stay within the limit and invitations
    within their uses in sequential use, and overlapping redemptions overspend; a write that throws after the key was minted leaves that key active.
  \<^item> \<^verbatim>\<open>JsNumber\<close>: \<^verbatim>\<open>Number.parseInt\<close>, with the rounding to doubles. \<^verbatim>\<open>Scim\<close> (\<^verbatim>\<open>scimStore.ts\<close>, \<^verbatim>\<open>scimGuard.ts\<close>, its routes): which token is accepted, that
    only its holder changes users and every change is on record, unique user names, the patch that breaks them, and the overlapping check that revives a
    revoked token.
  \<^item> \<^verbatim>\<open>WebHeaders\<close> (\<^verbatim>\<open>corsPolicy.ts\<close>, \<^verbatim>\<open>cspPolicyStore.ts\<close>, \<^verbatim>\<open>src/web/middleware.ts\<close>): the header that names an allowed origin, the directives a browser
    reads from the policy header, and the stored policy as a round trip.
  \<^item> \<^verbatim>\<open>Zip\<close> (\<^verbatim>\<open>zipBuilder.ts\<close>): archives can be read back, the checksum table is the shift register, and an archive is built exactly when every field fits.

  \<^bold>\<open>Bounds and fuel.\<close> No definition uses fuel. Loops are structural recursion or folds; the general recursions,
  the printing of numerals and the draining of base-32 bits, have their termination proofs. The drawing of recovery codes may go on as long as draws
  repeat: it takes the list of draws and is \<open>None\<close> until ten distinct codes are among them, which is proved to be exact. Dates are exact for every integer
  time; the theorems that read a printed date back assume a time within the range of
  \<^verbatim>\<open>Date\<close> (\<open>time_ok\<close>).

  \<^bold>\<open>Not modelled.\<close> Pages, HTTP glue and exports (no decisions of their own); the Python services; the stores listed
  in the manifest as not modelled, among them alerts, watchlists, digests and the SIEM sink. Of the run routes, the saving of
  a run, whose classifier computes with floating-point numbers, and the downloads; of the run store, its Markdown renderings.
  Of single sign-on: the login transaction cookie, PKCE, ID-token verification and the provider's
  discovery and key set, which are exchanges with the provider. Inside the modelled files: test seams that reset
  module state, and the fan-out of audit events to the SIEM sink.
\<close>

end
